(* ===== verification/Prelude.thy ===== *)
theory Prelude
  imports Complex_Main "HOL-Library.Char_ord" "HOL-Library.List_Lexorder" "HOL-Library.AList"
begin

text \<open>
  What every component of the development shares: how the values of the TypeScript program are
  represented, the handful of standard-library operations the sources use, and generic lemmas.

  \<^item> A JavaScript number is a \<open>real\<close>: rounding of doubles is not modelled, and the only non-finite
    values the sources create on purpose (the two infinities in sort keys) get constructors of
    their own where they occur. \<open>NaN\<close> does not occur in the modelled code.
  \<^item> \<open>T | null | undefined\<close> is \<open>T option\<close>; the sources test both absent values together.
  \<^item> A string is an ASCII \<open>string\<close>; \<open><\<close> on strings is the lexicographic order of the
    character codes (\<open>HOL-Library.List_Lexorder\<close>).
  \<^item> A \<open>Map\<close> whose iteration order matters is an association list in insertion order.
\<close>

named_theorems model_defs \<open>definitions that evaluate on concrete inputs\<close>
named_theorems inv_intros \<open>preservation of component invariants\<close>

type_synonym num = real

subsection \<open>Rounding, as \<open>Math.trunc\<close>, \<open>Math.floor\<close>, \<open>Math.ceil\<close> and \<open>Math.round\<close>\<close>

definition js_floor :: "real \<Rightarrow> real" where
  "js_floor x = of_int \<lfloor>x\<rfloor>"

definition js_ceil :: "real \<Rightarrow> real" where
  "js_ceil x = of_int \<lceil>x\<rceil>"

definition js_trunc :: "real \<Rightarrow> real" where
  "js_trunc x = (if x < 0 then js_ceil x else js_floor x)"

definition js_round :: "real \<Rightarrow> real" where
  "js_round x = js_floor (x + 1/2)"

lemmas js_rounding = js_floor_def js_ceil_def js_trunc_def js_round_def

lemma js_floor_le [simp]: "js_floor x \<le> x"
  by (simp add: js_floor_def)

lemma js_floor_gt: "x - 1 < js_floor x"
  unfolding js_floor_def by linarith

lemma js_ceil_ge [simp]: "x \<le> js_ceil x"
  by (simp add: js_ceil_def)

lemma js_ceil_lt: "js_ceil x < x + 1"
  unfolding js_ceil_def by linarith

lemma js_floor_mono: "x \<le> y \<Longrightarrow> js_floor x \<le> js_floor y"
  by (simp add: js_floor_def floor_mono)

lemma js_ceil_mono: "x \<le> y \<Longrightarrow> js_ceil x \<le> js_ceil y"
  by (simp add: js_ceil_def ceiling_mono)

lemma js_trunc_gt: "0 \<le> x \<Longrightarrow> x - 1 < js_trunc x"
  using js_floor_gt[of x] by (simp add: js_trunc_def)

lemma js_trunc_le: "0 \<le> x \<Longrightarrow> js_trunc x \<le> x"
  by (simp add: js_trunc_def)

lemma js_trunc_nonneg: "0 \<le> x \<Longrightarrow> 0 \<le> js_trunc x"
  by (simp add: js_trunc_def js_floor_def)

subsection \<open>Absent values\<close>

text \<open>\<open>a ?? b\<close> on two optional values, and with a plain default.\<close>

definition or_else :: "'a option \<Rightarrow> 'a option \<Rightarrow> 'a option" where
  "or_else a b = (case a of None \<Rightarrow> b | Some x \<Rightarrow> Some x)"

definition dflt :: "'a option \<Rightarrow> 'a \<Rightarrow> 'a" where
  "dflt a d = (case a of None \<Rightarrow> d | Some x \<Rightarrow> x)"

lemma or_else_simps [simp]:
  "or_else None b = b" "or_else (Some x) b = Some x" "or_else a None = a"
  by (simp_all add: or_else_def split: option.splits)

lemma dflt_simps [simp]: "dflt None d = d" "dflt (Some x) d = x"
  by (simp_all add: dflt_def)

text \<open>A number used as a condition: absent and 0 are false.\<close>

definition truthy :: "real option \<Rightarrow> bool" where
  "truthy x = (case x of None \<Rightarrow> False | Some v \<Rightarrow> v \<noteq> 0)"

lemma truthy_simps [simp]: "truthy None = False" "truthy (Some v) = (v \<noteq> 0)"
  by (simp_all add: truthy_def)

lemma truthyE: "truthy x \<Longrightarrow> (\<And>v. x = Some v \<Longrightarrow> v \<noteq> 0 \<Longrightarrow> P) \<Longrightarrow> P"
  by (cases x) auto

subsection \<open>Strings: \<open>trim\<close> and \<open>toLowerCase\<close> on ASCII\<close>

definition is_space :: "char \<Rightarrow> bool" where
  "is_space c = (let n = of_char c :: nat in n = 32 \<or> (9 \<le> n \<and> n \<le> 13))"

definition js_trim :: "string \<Rightarrow> string" where
  "js_trim s = rev (dropWhile is_space (rev (dropWhile is_space s)))"

definition lower_char :: "char \<Rightarrow> char" where
  "lower_char c = (let n = of_char c :: nat in if 65 \<le> n \<and> n \<le> 90 then char_of (n + 32) else c)"

definition js_lower :: "string \<Rightarrow> string" where
  "js_lower s = map lower_char s"

lemma dropWhile_idem: "dropWhile P (dropWhile P xs) = dropWhile P xs"
  by (induction xs) auto

lemma js_trim_Nil [simp]: "js_trim [] = []"
  by (simp add: js_trim_def)

lemma js_lower_Nil [simp]: "js_lower [] = []"
  by (simp add: js_lower_def)

subsection \<open>Generic list lemmas\<close>

lemma filter_nonempty_iff: "filter P xs \<noteq> [] \<longleftrightarrow> (\<exists>x \<in> set xs. P x)"
  by (induction xs) auto

lemma find_SomeD: "List.find P xs = Some x \<Longrightarrow> x \<in> set xs \<and> P x"
  by (auto simp: find_Some_iff)

lemma distinct_labelled:
  assumes "distinct xs" "\<And>x. x \<in> set xs \<Longrightarrow> distinct (f x)"
    "\<And>x y z. x \<in> set xs \<Longrightarrow> y \<in> set xs \<Longrightarrow> z \<in> set (f x) \<Longrightarrow> z \<in> set (f y) \<Longrightarrow> x = y"
  shows "distinct (concat (map f xs))"
  using assms
proof (induction xs)
  case (Cons x xs)
  have "distinct (concat (map f xs))" using Cons.prems by (intro Cons.IH) auto
  moreover have "z \<notin> set (f y)" if "y \<in> set xs" "z \<in> set (f x)" for y z using that Cons.prems(1) Cons.prems(3)[of x y z] by auto
  ultimately show ?case using Cons.prems(2)[of x] by auto
qed simp

text \<open>\<open>[...new Set(xs)]\<close>: duplicates dropped, the first occurrence kept.\<close>

definition js_uniq :: "'a list \<Rightarrow> 'a list" where
  "js_uniq xs = rev (remdups (rev xs))"

lemma set_js_uniq [simp]: "set (js_uniq xs) = set xs"
  by (simp add: js_uniq_def)

lemma distinct_js_uniq [simp]: "distinct (js_uniq xs)"
  by (simp add: js_uniq_def)

lemma js_uniq_Nil_iff [simp]: "js_uniq xs = [] \<longleftrightarrow> xs = []"
  by (simp add: js_uniq_def)

definition js_min :: "real list \<Rightarrow> real option" where
  "js_min xs = (case xs of [] \<Rightarrow> None | y # ys \<Rightarrow> Some (fold min ys y))"

definition js_max :: "real list \<Rightarrow> real option" where
  "js_max xs = (case xs of [] \<Rightarrow> None | y # ys \<Rightarrow> Some (fold max ys y))"

lemma fold_min_eq: "fold min xs (a :: real) = Min (insert a (set xs))"
  by (simp add: Min.set_eq_fold [symmetric])

lemma fold_max_eq: "fold max xs (a :: real) = Max (insert a (set xs))"
  by (simp add: Max.set_eq_fold [symmetric])

lemma js_min_Some: "js_min xs = Some m \<Longrightarrow> m \<in> set xs \<and> (\<forall>x \<in> set xs. m \<le> x)"
proof (cases xs)
  case (Cons y ys)
  assume "js_min xs = Some m"
  with Cons have "m = Min (insert y (set ys))" by (simp add: js_min_def fold_min_eq)
  then show ?thesis using Cons by (metis List.finite_set Min_in Min_le finite_insert insert_not_empty list.simps(15))
qed (simp add: js_min_def)

lemma js_max_Some: "js_max xs = Some m \<Longrightarrow> m \<in> set xs \<and> (\<forall>x \<in> set xs. x \<le> m)"
proof (cases xs)
  case (Cons y ys)
  assume "js_max xs = Some m"
  with Cons have "m = Max (insert y (set ys))" by (simp add: js_max_def fold_max_eq)
  then show ?thesis using Cons by (metis List.finite_set Max_in Max_ge finite_insert insert_not_empty list.simps(15))
qed (simp add: js_max_def)

lemma js_min_None [simp]: "js_min xs = None \<longleftrightarrow> xs = []"
  by (cases xs) (simp_all add: js_min_def)

lemma js_max_None [simp]: "js_max xs = None \<longleftrightarrow> xs = []"
  by (cases xs) (simp_all add: js_max_def)

end
