(* ===== verification/Js_Map.thy ===== *)
theory Js_Map
  imports Prelude
begin

text \<open>
  JavaScript's \<open>Map\<close> as an association list in insertion order, the update of the first match of a
  list (\<open>find\<close>, then assignments to the object found), and \<open>BoundedMap\<close>
  (\<open>packages/gateway/src/proxy-util.ts\<close>), which forgets its oldest entry past a limit. The locale
  \<open>bounded_store\<close> states what a client of such a cache may rely on, and is interpreted on
  \<open>BoundedMap\<close>.
\<close>

subsection \<open>Maps\<close>

definition map_set :: "'k \<Rightarrow> 'v \<Rightarrow> ('k \<times> 'v) list \<Rightarrow> ('k \<times> 'v) list" where
  "map_set k v m = (if k \<in> fst ` set m then map (\<lambda>p. if fst p = k then (k, v) else p) m else m @ [(k, v)])"

definition map_delete :: "'k \<Rightarrow> ('k \<times> 'v) list \<Rightarrow> ('k \<times> 'v) list" where
  "map_delete k m = filter (\<lambda>p. fst p \<noteq> k) m"

lemma map_of_replace:
  "k \<in> fst ` set m \<Longrightarrow> map_of (map (\<lambda>p. if fst p = k then (k, v) else p) m) = (map_of m)(k \<mapsto> v)"
proof (induction m)
  case (Cons p m)
  show ?case
  proof (cases "k \<in> fst ` set m")
    case True
    then show ?thesis using Cons.IH by (cases p) (auto simp: fun_eq_iff)
  next
    case False
    then have "map (\<lambda>p. if fst p = k then (k, v) else p) m = m"
      by (intro map_idI) (auto simp: image_iff)
    then show ?thesis using Cons.prems False by (cases p) auto
  qed
qed simp

lemma map_of_append_new: "k \<notin> fst ` set m \<Longrightarrow> map_of (m @ [(k, v)]) = (map_of m)(k \<mapsto> v)"
  by (induction m) (auto simp: fun_eq_iff)

lemma map_of_set [simp]: "map_of (map_set k v m) = (map_of m)(k \<mapsto> v)"
  using map_of_replace[of k m v] map_of_append_new[of k m v] by (simp add: map_set_def)

lemma map_of_delete [simp]: "map_of (map_delete k m) = (map_of m)(k := None)"
  by (induction m) (auto simp: map_delete_def fun_eq_iff)

lemma replace_keys: "map fst (map (\<lambda>p. if fst p = k then (k, v) else p) m) = map fst m"
  by (induction m) auto

lemma keys_set: "fst ` set (map_set k v m) = insert k (fst ` set m)"
proof (cases "k \<in> fst ` set m")
  case True
  have "fst ` set (map (\<lambda>p. if fst p = k then (k, v) else p) m) = fst ` set m"
    using arg_cong[OF replace_keys[of k v m], of set] by (simp only: list.set_map)
  with True show ?thesis by (simp only: map_set_def if_True insert_absorb)
qed (simp add: map_set_def)

lemma keys_delete: "fst ` set (map_delete k m) = fst ` set m - {k}"
  by (auto simp: map_delete_def image_iff)

lemma distinct_set [intro]: "distinct (map fst m) \<Longrightarrow> distinct (map fst (map_set k v m))"
  unfolding map_set_def by (cases "k \<in> fst ` set m") (simp_all only: replace_keys if_True if_False, simp)

lemma distinct_delete [intro]: "distinct (map fst m) \<Longrightarrow> distinct (map fst (map_delete k m))"
  by (induction m) (auto simp: map_delete_def)

lemma map_of_tl:
  "distinct (map fst m) \<Longrightarrow> m \<noteq> [] \<Longrightarrow> map_of (tl m) = (map_of m)(fst (hd m) := None)"
  by (cases m) (auto simp: fun_eq_iff map_of_eq_None_iff)

subsection \<open>The first match of a list, changed\<close>

fun update_first :: "('a \<Rightarrow> bool) \<Rightarrow> ('a \<Rightarrow> 'a) \<Rightarrow> 'a list \<Rightarrow> 'a list" where
  "update_first P f [] = []"
| "update_first P f (x # xs) = (if P x then f x # xs else x # update_first P f xs)"

lemma find_update_same:
  "(\<And>x. key (f x) = key x) \<Longrightarrow>
   List.find (\<lambda>x. key x = k) (update_first (\<lambda>x. key x = k) f xs) = map_option f (List.find (\<lambda>x. key x = k) xs)"
  by (induction xs) auto

lemma find_update_other:
  "(\<And>x. key (f x) = key x) \<Longrightarrow> k \<noteq> k' \<Longrightarrow>
   List.find (\<lambda>x. key x = k) (update_first (\<lambda>x. key x = k') f xs) = List.find (\<lambda>x. key x = k) xs"
  by (induction xs) auto

lemma map_update_first: "(\<And>x. key (f x) = key x) \<Longrightarrow> map key (update_first P f xs) = map key xs"
  by (induction xs) auto

lemma set_update_first: "y \<in> set (update_first P f xs) \<Longrightarrow> y \<in> set xs \<or> (\<exists>x \<in> set xs. P x \<and> y = f x)"
  by (induction xs) (auto split: if_splits)

lemma find_key_iff:
  "List.find (\<lambda>x. key x = k) xs = Some x \<Longrightarrow> x \<in> set xs \<and> key x = k"
  by (auto simp: find_Some_iff)

lemma find_distinct:
  "distinct (map key xs) \<Longrightarrow> x \<in> set xs \<Longrightarrow> List.find (\<lambda>y. key y = key x) xs = Some x"
  by (induction xs) (auto simp: image_iff)

subsection \<open>\<open>BoundedMap\<close>\<close>

definition bounded_get :: "string \<Rightarrow> (string \<times> 'v) list \<Rightarrow> 'v option" where
  "bounded_get k m = map_of m k"

definition bounded_set :: "nat \<Rightarrow> string \<Rightarrow> 'v \<Rightarrow> (string \<times> 'v) list \<Rightarrow> (string \<times> 'v) list" where
  "bounded_set limit k v m = (let m' = map_set k v (map_delete k m) in
     if length m' > limit then map_delete (fst (hd m')) m' else m')"

text \<open>
  A cache that may forget, as its clients see it: a lookup after a store returns what was stored or
  what was there, or nothing; the last store is never forgotten; the size stays within the limit.
\<close>

locale bounded_store =
  fixes inv :: "'s \<Rightarrow> bool" and get :: "'k \<Rightarrow> 's \<Rightarrow> 'v option" and put :: "'k \<Rightarrow> 'v \<Rightarrow> 's \<Rightarrow> 's"
    and size_of :: "'s \<Rightarrow> nat" and bound :: nat
  assumes inv_put: "inv s \<Longrightarrow> inv (put k v s)"
    and get_put_same: "inv s \<Longrightarrow> get k (put k v s) = Some v"
    and get_put_other: "inv s \<Longrightarrow> k' \<noteq> k \<Longrightarrow> get k' (put k v s) = Some w \<Longrightarrow> get k' s = Some w"
    and size_bound: "inv s \<Longrightarrow> size_of s \<le> bound"
begin

text \<open>After any sequence of stores, a lookup that answers gives the last value stored for the key.\<close>

definition stores :: "('k \<times> 'v) list \<Rightarrow> 's \<Rightarrow> 's" where
  "stores kvs s = fold (\<lambda>(k, v). put k v) kvs s"

lemma stores_inv: "inv s \<Longrightarrow> inv (stores kvs s)"
  by (induction kvs arbitrary: s) (auto simp: stores_def inv_put)

lemma stores_get:
  "inv s \<Longrightarrow> get k (stores kvs s) = Some v \<Longrightarrow>
   map_of (rev kvs) k = Some v \<or> (k \<notin> fst ` set kvs \<and> get k s = Some v)"
proof (induction kvs arbitrary: s)
  case (Cons kv kvs)
  obtain k' v' where kv: "kv = (k', v')" by fastforce
  have g: "get k (stores kvs (put k' v' s)) = Some v" using Cons.prems(2) by (simp add: stores_def kv)
  from Cons.IH[OF inv_put[OF Cons.prems(1)] g] show ?case
  proof
    assume a: "k \<notin> fst ` set kvs \<and> get k (put k' v' s) = Some v"
    then have none: "map_of (rev kvs) k = None" by (simp add: map_of_eq_None_iff)
    show ?thesis
    proof (cases "k = k'")
      case True
      with a none get_put_same[OF Cons.prems(1), of k' v'] show ?thesis by (simp add: kv map_add_def)
    next
      case False
      with a get_put_other[OF Cons.prems(1) False] show ?thesis by (auto simp: kv)
    qed
  qed (simp add: map_add_def)
qed (simp add: stores_def)

lemma stores_last: "inv s \<Longrightarrow> get k (put k v (stores kvs s)) = Some v"
  by (intro get_put_same stores_inv)

end

definition bounded_ok :: "nat \<Rightarrow> (string \<times> 'v) list \<Rightarrow> bool" where
  "bounded_ok limit m = (distinct (map fst m) \<and> length m \<le> limit)"

lemma map_set_deleted: "map_set k v (map_delete k m) = map_delete k m @ [(k, v)]"
  by (auto simp: map_set_def keys_delete)

lemma bounded_set_cases:
  assumes "bounded_ok limit m" "0 < limit"
  obtains "bounded_set limit k v m = map_delete k m @ [(k, v)]" "length (map_delete k m) < limit"
  | p r where "m = p # r" "k \<noteq> fst p" "k \<notin> fst ` set r" "length m = limit"
      "bounded_set limit k v m = r @ [(k, v)]"
proof (cases "length (map_delete k m) < limit")
  case True
  then show ?thesis using that(1) by (simp add: bounded_set_def map_set_deleted)
next
  case False
  have "length (map_delete k m) \<le> length m" by (simp add: map_delete_def)
  with False assms(1) have len: "length (map_delete k m) = length m" "length m = limit" by (auto simp: bounded_ok_def)
  then have "\<forall>p \<in> set m. fst p \<noteq> k"
    unfolding map_delete_def using sum_length_filter_compl[of "\<lambda>p. fst p \<noteq> k" m] by (auto simp: filter_empty_conv)
  then have nk: "map_delete k m = m" "k \<notin> fst ` set m" by (auto simp: map_delete_def intro: filter_True)
  obtain p r where m: "m = p # r" using len assms(2) by (cases m) auto
  have "fst p \<notin> fst ` set r" using assms(1) m by (auto simp: bounded_ok_def)
  then have "map_delete (fst p) (r @ [(k, v)]) = r @ [(k, v)]"
    using nk m by (auto simp: map_delete_def filter_id_conv image_iff split: if_splits)
  moreover have "map_set k v (map_delete k m) = p # r @ [(k, v)]"
    using map_set_deleted[of k v m] nk(1) m by simp
  ultimately have "bounded_set limit k v m = r @ [(k, v)]"
    using len m by (simp add: bounded_set_def Let_def map_delete_def)
  then show ?thesis using that(2) m nk len by auto
qed

lemma bounded_set_ok:
  assumes "bounded_ok limit m" "0 < limit" shows "bounded_ok limit (bounded_set limit k v m)"
  by (rule bounded_set_cases[OF assms, of k v]) (use assms(1) in \<open>auto simp: bounded_ok_def keys_delete distinct_delete\<close>)

lemma bounded_get_same:
  assumes "bounded_ok limit m" "0 < limit" shows "bounded_get k (bounded_set limit k v m) = Some v"
  by (rule bounded_set_cases[OF assms, of k v])
    (simp_all add: bounded_get_def map_of_append_new keys_delete del: map_of_append)

lemma bounded_get_other:
  assumes "bounded_ok limit m" "0 < limit" "k' \<noteq> k" "bounded_get k' (bounded_set limit k v m) = Some w"
  shows "bounded_get k' m = Some w"
proof (rule bounded_set_cases[OF assms(1,2), of k v])
  assume "bounded_set limit k v m = map_delete k m @ [(k, v)]"
  with assms(3,4) show ?thesis by (simp add: bounded_get_def map_of_append_new keys_delete del: map_of_append)
next
  fix p r
  assume b: "m = p # r" "k \<notin> fst ` set r" "bounded_set limit k v m = r @ [(k, v)]"
  with assms(3,4) have r: "map_of r k' = Some w" by (simp add: bounded_get_def map_of_append_new del: map_of_append)
  moreover have "fst p \<noteq> k'"
    using r assms(1) b(1) by (metis bounded_ok_def distinct.simps(2) list.simps(9) image_set domI dom_map_of_conv_image_fst)
  ultimately show ?thesis using b(1) by (cases p) (simp add: bounded_get_def)
qed

text \<open>The limit both caches of \<open>StickyStore\<close> use, \<open>MEMORY_LIMIT\<close>.\<close>

abbreviation (input) MEMORY_LIMIT :: nat where "MEMORY_LIMIT \<equiv> 8192"

interpretation cache: bounded_store "bounded_ok MEMORY_LIMIT" bounded_get "bounded_set MEMORY_LIMIT" length MEMORY_LIMIT
proof unfold_locales
  fix m :: "(string \<times> 'a) list" and k k' v w
  assume m: "bounded_ok MEMORY_LIMIT m"
  show "bounded_ok MEMORY_LIMIT (bounded_set MEMORY_LIMIT k v m)" using m by (rule bounded_set_ok) simp
  show "bounded_get k (bounded_set MEMORY_LIMIT k v m) = Some v" using m by (rule bounded_get_same) simp
  show "length m \<le> MEMORY_LIMIT" using m by (simp only: bounded_ok_def)
  assume "k' \<noteq> k" "bounded_get k' (bounded_set MEMORY_LIMIT k v m) = Some w"
  then show "bounded_get k' m = Some w" by (intro bounded_get_other[OF m]) simp_all
qed

end
