(* ===== verification/Ordered_Keys.thy ===== *)
theory Ordered_Keys
  imports Prelude "HOL-Library.Multiset"
begin

text \<open>
  Sort keys of the account router (\<open>packages/gateway/src/router/balancer.ts\<close>): the comparison
  \<open>compareKeys\<close>, the scan \<open>minBy\<close> and the stable array sort. The locale \<open>key_order\<close> is the
  contract a comparison function has to keep (a total preorder on one class of keys); the facts
  about the scan and the sort are proved once in it, and \<open>compareKeys\<close> is shown to keep it on
  keys of one shape.
\<close>

subsection \<open>Keys\<close>

text \<open>
  A key is a list of numbers and strings; the two infinities are written by the sources where a
  time is unknown.
\<close>

datatype key_atom = KNum real | KPosInf | KNegInf | KStr string

type_synonym sort_key = "key_atom list"

datatype atom_kind = NumberKind | StringKind

fun kind_of :: "key_atom \<Rightarrow> atom_kind" where
  "kind_of (KStr _) = StringKind"
| "kind_of _ = NumberKind"

text \<open>
  \<open>a < b\<close> on two numbers or two strings. A number is never compared with a string: the keys that
  meet in one comparison have the same shape (\<open>has_shape\<close> below), which the component theories
  prove for every key function, so the value of the last equation is immaterial.
\<close>

fun atom_less :: "key_atom \<Rightarrow> key_atom \<Rightarrow> bool" where
  "atom_less (KNum x) (KNum y) = (x < y)"
| "atom_less (KStr x) (KStr y) = (x < y)"
| "atom_less KNegInf (KNum _) = True"
| "atom_less KNegInf KPosInf = True"
| "atom_less (KNum _) KPosInf = True"
| "atom_less _ _ = False"

fun compare_keys :: "sort_key \<Rightarrow> sort_key \<Rightarrow> int" where
  "compare_keys [] [] = 0"
| "compare_keys [] (_ # _) = -1"
| "compare_keys (_ # _) [] = 1"
| "compare_keys (a # as) (b # bs) =
     (if a = b then compare_keys as bs else if atom_less a b then -1 else 1)"

definition min_by :: "('a \<Rightarrow> sort_key) \<Rightarrow> 'a list \<Rightarrow> 'a option" where
  "min_by key items = (case items of [] \<Rightarrow> None
     | x # rest \<Rightarrow> Some (fold (\<lambda>item best. if compare_keys (key item) (key best) < 0 then item else best) rest x))"

text \<open>\<open>Array.prototype.sort\<close> is stable: equal elements keep their order.\<close>

fun js_insert :: "('a \<Rightarrow> 'a \<Rightarrow> int) \<Rightarrow> 'a \<Rightarrow> 'a list \<Rightarrow> 'a list" where
  "js_insert cmp x [] = [x]"
| "js_insert cmp x (y # ys) = (if cmp x y \<le> 0 then x # y # ys else y # js_insert cmp x ys)"

fun js_sort :: "('a \<Rightarrow> 'a \<Rightarrow> int) \<Rightarrow> 'a list \<Rightarrow> 'a list" where
  "js_sort cmp [] = []"
| "js_sort cmp (x # xs) = js_insert cmp x (js_sort cmp xs)"

lemma mset_js_insert [simp]: "mset (js_insert cmp x ys) = add_mset x (mset ys)"
  by (induction ys) auto

lemma mset_js_sort [simp]: "mset (js_sort cmp xs) = mset xs"
  by (induction xs) auto

lemma set_js_sort [simp]: "set (js_sort cmp xs) = set xs"
  using mset_js_sort[of cmp xs] by (metis set_mset_mset)

lemma js_sort_Nil_iff [simp]: "js_sort cmp xs = [] \<longleftrightarrow> xs = []"
  using set_js_sort[of cmp xs] by (metis set_empty)

lemma length_js_sort [simp]: "length (js_sort cmp xs) = length xs"
  using mset_js_sort[of cmp xs] by (metis size_mset)

subsection \<open>The contract of a comparison\<close>

locale key_order =
  fixes cmp :: "'k \<Rightarrow> 'k \<Rightarrow> int" and ok :: "'k \<Rightarrow> bool"
  assumes cmp_refl: "ok a \<Longrightarrow> cmp a a = 0"
    and cmp_swap: "ok a \<Longrightarrow> ok b \<Longrightarrow> cmp b a < 0 \<longleftrightarrow> 0 < cmp a b"
    and cmp_trans: "ok a \<Longrightarrow> ok b \<Longrightarrow> ok c \<Longrightarrow> cmp a b \<le> 0 \<Longrightarrow> cmp b c \<le> 0 \<Longrightarrow> cmp a c \<le> 0"
begin

lemma le_cases: "ok a \<Longrightarrow> ok b \<Longrightarrow> cmp a b \<le> 0 \<or> cmp b a \<le> 0"
  using cmp_swap[of a b] by force

lemma not_less_iff: "ok a \<Longrightarrow> ok b \<Longrightarrow> \<not> cmp a b < 0 \<longleftrightarrow> cmp b a \<le> 0"
  using cmp_swap[of b a] by force

text \<open>The scan keeps the first of the least elements.\<close>

lemma scan_least:
  assumes "\<forall>x \<in> set (b # xs). ok (key x)"
  defines "r \<equiv> fold (\<lambda>item best. if cmp (key item) (key best) < 0 then item else best) xs b"
  shows "r \<in> set (b # xs) \<and> (\<forall>x \<in> set (b # xs). cmp (key r) (key x) \<le> 0)"
  using assms(1) unfolding r_def
proof (induction xs arbitrary: b)
  case Nil
  then show ?case by (simp add: cmp_refl)
next
  case (Cons x xs)
  let ?b = "if cmp (key x) (key b) < 0 then x else b"
  let ?r = "fold (\<lambda>item best. if cmp (key item) (key best) < 0 then item else best) xs ?b"
  have ok: "ok (key x)" "ok (key b)" "ok (key ?b)" "\<forall>y \<in> set (?b # xs). ok (key y)"
    using Cons.prems by auto
  have IH: "?r \<in> set (?b # xs)" "\<forall>y \<in> set (?b # xs). cmp (key ?r) (key y) \<le> 0"
    using Cons.IH[OF ok(4)] by auto
  have okr: "ok (key ?r)" using IH(1) ok(4) by blast
  have "cmp (key ?b) (key x) \<le> 0" "cmp (key ?b) (key b) \<le> 0"
    using ok not_less_iff[of "key x" "key b"] by (auto simp: cmp_refl)
  moreover have "cmp (key ?r) (key ?b) \<le> 0" using IH(2) by simp
  ultimately have "cmp (key ?r) (key x) \<le> 0" "cmp (key ?r) (key b) \<le> 0"
    using cmp_trans[OF okr ok(3) ok(1)] cmp_trans[OF okr ok(3) ok(2)] by blast+
  moreover have "?r \<in> set (b # x # xs)" using IH(1) by (auto split: if_splits)
  ultimately show ?case using IH(2) by simp
qed

lemma insert_sorted:
  assumes "ok x" "\<forall>y \<in> set ys. ok y" "sorted_wrt (\<lambda>a b. cmp a b \<le> 0) ys"
  shows "sorted_wrt (\<lambda>a b. cmp a b \<le> 0) (js_insert cmp x ys)"
  using assms
proof (induction ys)
  case (Cons y ys)
  have ins: "set (js_insert cmp x ys) = insert x (set ys)"
    by (metis mset_js_insert set_mset_add_mset_insert set_mset_mset)
  show ?case
  proof (cases "cmp x y \<le> 0")
    case True
    have "cmp x z \<le> 0" if "z \<in> set ys" for z
      using cmp_trans[of x y z] True that Cons.prems by auto
    with True Cons.prems show ?thesis by simp
  next
    case False
    then have "cmp y x \<le> 0" using le_cases[of x y] Cons.prems by auto
    with False Cons ins show ?thesis by auto
  qed
qed simp

lemma sort_sorted: "\<forall>y \<in> set ys. ok y \<Longrightarrow> sorted_wrt (\<lambda>a b. cmp a b \<le> 0) (js_sort cmp ys)"
  by (induction ys) (auto intro!: insert_sorted)

lemma sort_head_least:
  assumes "\<forall>y \<in> set ys. ok y" "js_sort cmp ys = z # zs" "y \<in> set ys"
  shows "cmp z y \<le> 0"
proof -
  have "y \<in> set (z # zs)" using assms(2,3) set_js_sort[of cmp ys] by simp
  moreover have "sorted_wrt (\<lambda>a b. cmp a b \<le> 0) (z # zs)" using sort_sorted[OF assms(1)] assms(2) by simp
  moreover have "z \<in> set ys" using assms(2) set_js_sort[of cmp ys] by auto
  ultimately show ?thesis using assms(1) by (auto simp: cmp_refl)
qed

end

subsection \<open>\<open>compareKeys\<close> keeps the contract on keys of one shape\<close>

definition has_shape :: "atom_kind list \<Rightarrow> sort_key \<Rightarrow> bool" where
  "has_shape sh k = (map kind_of k = sh)"

lemma has_shape_Nil [simp]: "has_shape sh [] \<longleftrightarrow> sh = []"
  by (auto simp: has_shape_def)

lemma has_shape_Cons [simp]:
  "has_shape (s # sh) (a # k) \<longleftrightarrow> kind_of a = s \<and> has_shape sh k"
  by (auto simp: has_shape_def)

lemma has_shape_ConsD: "has_shape (s # sh) k \<Longrightarrow> \<exists>a k'. k = a # k' \<and> kind_of a = s \<and> has_shape sh k'"
  by (auto simp: has_shape_def Cons_eq_map_conv)

lemma has_shape_NilD: "has_shape [] k \<Longrightarrow> k = []"
  by (simp add: has_shape_def)

lemma atom_less_irrefl [simp]: "\<not> atom_less a a"
  by (cases a) auto

lemma atom_less_linear:
  "kind_of a = kind_of b \<Longrightarrow> a \<noteq> b \<Longrightarrow> atom_less a b \<longleftrightarrow> \<not> atom_less b a"
  by (cases a; cases b) auto

lemma atom_less_trans:
  "kind_of a = kind_of b \<Longrightarrow> kind_of b = kind_of c \<Longrightarrow> atom_less a b \<Longrightarrow> atom_less b c \<Longrightarrow> atom_less a c"
  by (cases a; cases b; cases c) auto

lemma compare_keys_refl [simp]: "compare_keys a a = 0"
  by (induction a) auto

lemma compare_keys_swap: "has_shape sh a \<Longrightarrow> has_shape sh b \<Longrightarrow> compare_keys b a = - compare_keys a b"
proof (induction sh arbitrary: a b)
  case (Cons s sh)
  then obtain x xs y ys where k: "a = x # xs" "b = y # ys" "kind_of x = s" "kind_of y = s"
    "has_shape sh xs" "has_shape sh ys"
    by (metis has_shape_ConsD)
  then show ?case using Cons.IH[of xs ys] atom_less_linear[of x y] by auto
qed (auto dest!: has_shape_NilD)

lemma compare_keys_trans:
  "has_shape sh a \<Longrightarrow> has_shape sh b \<Longrightarrow> has_shape sh c \<Longrightarrow> compare_keys a b \<le> 0 \<Longrightarrow>
   compare_keys b c \<le> 0 \<Longrightarrow> compare_keys a c \<le> 0"
proof (induction sh arbitrary: a b c)
  case (Cons s sh)
  then obtain x xs y ys z zs where k: "a = x # xs" "b = y # ys" "c = z # zs"
    "kind_of x = s" "kind_of y = s" "kind_of z = s" "has_shape sh xs" "has_shape sh ys" "has_shape sh zs"
    by (metis has_shape_ConsD)
  show ?case
    using Cons.prems Cons.IH[of xs ys zs] k atom_less_trans[of x y z] atom_less_linear[of x y]
    by (auto split: if_splits)
qed (auto dest!: has_shape_NilD)

interpretation keys: key_order compare_keys "has_shape sh" for sh
proof
  fix a b :: sort_key
  assume "has_shape sh a" "has_shape sh b"
  then show "compare_keys b a < 0 \<longleftrightarrow> 0 < compare_keys a b" using compare_keys_swap[of sh a b] by simp
qed (auto intro: compare_keys_trans)

lemma min_by_Nil [simp]: "min_by key [] = None"
  by (simp add: min_by_def)

lemma min_by_None_iff [simp]: "min_by key xs = None \<longleftrightarrow> xs = []"
  by (cases xs) (simp_all add: min_by_def)

lemma min_by_least:
  assumes "min_by key xs = Some m" "\<And>x. x \<in> set xs \<Longrightarrow> has_shape sh (key x)"
  shows "m \<in> set xs \<and> (\<forall>x \<in> set xs. compare_keys (key m) (key x) \<le> 0)"
proof (cases xs)
  case (Cons b rest)
  with assms keys.scan_least[of b rest sh key] show ?thesis by (auto simp: min_by_def)
qed (use assms in simp)

lemma fold_select_in: "fold (\<lambda>i b. if P i b then i else b) xs x \<in> insert x (set xs)"
proof (induction xs arbitrary: x)
  case (Cons a xs)
  from Cons[of "if P a x then a else x"] show ?case by (auto split: if_splits)
qed simp

lemma min_by_mem: "min_by key xs = Some m \<Longrightarrow> m \<in> set xs"
  using fold_select_in[where P = "\<lambda>i b. compare_keys (key i) (key b) < 0" and x = "hd xs" and xs = "tl xs"]
  by (cases xs) (simp_all add: min_by_def)

lemma min_by_Some: "xs \<noteq> [] \<Longrightarrow> \<exists>m \<in> set xs. min_by key xs = Some m"
  using min_by_mem[of key xs] by (cases "min_by key xs") auto

text \<open>Reading the first components of a comparison.\<close>

lemma compare_num_le:
  "compare_keys (KNum x # xs) (KNum y # ys) \<le> 0 \<longleftrightarrow> x < y \<or> (x = y \<and> compare_keys xs ys \<le> 0)"
  by auto

lemma compare_str_le:
  "compare_keys (KStr x # xs) (KStr y # ys) \<le> 0 \<longleftrightarrow> x < y \<or> (x = y \<and> compare_keys xs ys \<le> 0)"
  by auto

end
