(* ===== verification/Retry.thy ===== *)
theory Retry
  imports Prelude
begin

text \<open>
  Retry hints and exponential backoff (\<open>packages/gateway/src/router/retry.ts\<close>).

  The regular expressions of the source are deterministic scanners: a unit is accepted only when no
  letter follows it, so the unit is the whole run of letters after the number, and the number is the
  longest run of digits with an optional fraction. \<open>scan_token\<close> reads one \<open>number unit\<close> pair that
  way and \<open>scan_tokens\<close> the longest non-empty sequence of them; \<open>parse_retry_after\<close> tries the phrase
  at every position from the left, as \<open>exec\<close> does.
\<close>

definition is_digit :: "char \<Rightarrow> bool" where
  "is_digit c = (let n = of_char c :: nat in 48 \<le> n \<and> n \<le> 57)"

definition is_letter :: "char \<Rightarrow> bool" where
  "is_letter c = (let n = of_char (lower_char c) :: nat in 97 \<le> n \<and> n \<le> 122)"

definition digit_val :: "char \<Rightarrow> real" where
  "digit_val c = real (of_char c - 48)"

definition digits_val :: "string \<Rightarrow> real" where
  "digits_val ds = foldl (\<lambda>acc c. 10 * acc + digit_val c) 0 ds"

text \<open>\<open>unitSeconds\<close>.\<close>

definition unit_seconds :: "string \<Rightarrow> real option" where
  "unit_seconds u = map_of
     [(''ms'', 1/1000), (''millisecond'', 1/1000), (''milliseconds'', 1/1000),
      (''h'', 3600), (''hr'', 3600), (''hrs'', 3600), (''hour'', 3600), (''hours'', 3600),
      (''m'', 60), (''min'', 60), (''mins'', 60), (''minute'', 60), (''minutes'', 60),
      (''s'', 1), (''sec'', 1), (''secs'', 1), (''second'', 1), (''seconds'', 1)] u"

text \<open>\<open>\d+(?:\.\d+)?\<close>: the value and the rest.\<close>

definition scan_number :: "string \<Rightarrow> (real \<times> string) option" where
  "scan_number s = (let ds = takeWhile is_digit s; r = dropWhile is_digit s in
     if ds = [] then None
     else case r of
       c # r' \<Rightarrow> (let fs = takeWhile is_digit r' in
          if c = CHR ''.'' \<and> fs \<noteq> []
          then Some (digits_val ds + digits_val fs / 10 ^ length fs, dropWhile is_digit r')
          else Some (digits_val ds, r))
     | [] \<Rightarrow> Some (digits_val ds, r))"

definition scan_token :: "string \<Rightarrow> (real \<times> string) option" where
  "scan_token s = (case scan_number s of None \<Rightarrow> None
     | Some (v, r) \<Rightarrow> (let r1 = dropWhile is_space r; u = takeWhile is_letter r1 in
         case unit_seconds (js_lower u) of None \<Rightarrow> None
         | Some m \<Rightarrow> Some (v * m, dropWhile is_space (dropWhile is_letter r1))))"

lemma length_dropWhile_lt: "takeWhile P s \<noteq> [] \<Longrightarrow> length (dropWhile P s) < length s"
  by (cases s) (auto simp: le_imp_less_Suc length_dropWhile_le split: if_splits)

lemma scan_number_length: "scan_number s = Some (v, r) \<Longrightarrow> length r < length s"
proof -
  assume a: "scan_number s = Some (v, r)"
  then have "takeWhile is_digit s \<noteq> []" by (auto simp: scan_number_def Let_def split: if_splits)
  then have lt: "length (dropWhile is_digit s) < length s" by (rule length_dropWhile_lt)
  show ?thesis
  proof (cases "dropWhile is_digit s")
    case Nil
    with a lt show ?thesis by (simp add: scan_number_def Let_def split: if_splits)
  next
    case (Cons c d)
    have "length (dropWhile is_digit d) \<le> length d" by (rule length_dropWhile_le)
    moreover have "length (c # d) < length s" using lt Cons by metis
    moreover have "r = c # d \<or> r = dropWhile is_digit d"
      using a unfolding scan_number_def Let_def Cons by (simp split: if_splits)
    ultimately show ?thesis by auto
  qed
qed

lemma scan_token_length: "scan_token s = Some (v, r) \<Longrightarrow> length r < length s"
proof -
  assume "scan_token s = Some (v, r)"
  then obtain w r' where n: "scan_number s = Some (w, r')"
    and r: "r = dropWhile is_space (dropWhile is_letter (dropWhile is_space r'))"
    by (auto simp: scan_token_def Let_def split: option.splits)
  have "length r \<le> length r'"
    unfolding r by (meson length_dropWhile_le order_trans)
  with scan_number_length[OF n] show ?thesis by simp
qed

text \<open>The tokens in a row, summed; \<open>None\<close> when there is not even one.\<close>

function scan_tokens :: "string \<Rightarrow> real option" where
  "scan_tokens s = (case scan_token s of None \<Rightarrow> None
     | Some (v, r) \<Rightarrow> Some (v + dflt (scan_tokens r) 0))"
  by pat_completeness auto
termination
  by (relation "measure length") (auto dest: scan_token_length)

declare scan_tokens.simps [simp del]

fun strip_phrase :: "string \<Rightarrow> string \<Rightarrow> string option" where
  "strip_phrase [] s = Some s"
| "strip_phrase (p # ps) [] = None"
| "strip_phrase (p # ps) (c # cs) = (if lower_char c = p then strip_phrase ps cs else None)"

definition retry_at :: "string \<Rightarrow> real option" where
  "retry_at s = (case strip_phrase ''try again in'' s of None \<Rightarrow> None
     | Some r \<Rightarrow> scan_tokens (dropWhile is_space r))"

fun parse_retry_after :: "string \<Rightarrow> real option" where
  "parse_retry_after [] = None"
| "parse_retry_after (c # cs) = or_else (retry_at (c # cs)) (parse_retry_after cs)"

text \<open>\<open>backoffSeconds\<close>; \<open>rnd\<close> is the value \<open>random()\<close> returned.\<close>

definition backoff_seconds :: "nat \<Rightarrow> real \<Rightarrow> real" where
  "backoff_seconds attempt rnd = (let safe = max 1 attempt; base = 200 * 2 ^ (safe - 1);
     jitter = 9/10 + rnd * (11/10 - 9/10) in base * jitter / 1000)"

subsection \<open>Facts\<close>

lemma digits_val_nonneg: "0 \<le> digits_val ds"
proof -
  have "0 \<le> acc \<Longrightarrow> 0 \<le> foldl (\<lambda>acc c. 10 * acc + digit_val c) acc ds" for acc
    by (induction ds arbitrary: acc) (auto simp: digit_val_def)
  then show ?thesis by (simp add: digits_val_def)
qed

lemma unit_seconds_pos: "unit_seconds u = Some m \<Longrightarrow> 0 < m"
  by (auto simp: unit_seconds_def split: if_splits)

lemma scan_number_nonneg: "scan_number s = Some (v, r) \<Longrightarrow> 0 \<le> v"
  by (auto simp: scan_number_def Let_def digits_val_nonneg split: if_splits list.splits)

lemma scan_token_nonneg: "scan_token s = Some (v, r) \<Longrightarrow> 0 \<le> v"
  by (auto simp: scan_token_def Let_def split: option.splits dest!: unit_seconds_pos scan_number_nonneg)

lemma scan_tokens_nonneg: "scan_tokens s = Some v \<Longrightarrow> 0 \<le> v"
proof (induction s arbitrary: v rule: scan_tokens.induct)
  case (1 s)
  show ?case
  proof (cases "scan_token s")
    case None
    with 1(2) show ?thesis by (simp add: scan_tokens.simps)
  next
    case (Some p)
    obtain w r where p: "p = (w, r)" by fastforce
    have "0 \<le> dflt (scan_tokens r) 0"
      using 1(1)[OF Some p[symmetric]] by (cases "scan_tokens r") auto
    moreover have "0 \<le> w" using Some p scan_token_nonneg by simp
    ultimately show ?thesis using 1(2) Some p by (simp add: scan_tokens.simps)
  qed
qed

lemma parse_retry_after_nonneg: "parse_retry_after s = Some v \<Longrightarrow> 0 \<le> v"
proof (induction s)
  case (Cons c cs)
  then show ?case
    by (cases "retry_at (c # cs)") (auto simp: retry_at_def split: option.splits dest: scan_tokens_nonneg)
qed simp

lemma backoff_seconds_pos: "0 \<le> rnd \<Longrightarrow> 0 < backoff_seconds n rnd"
  by (simp add: backoff_seconds_def Let_def add_pos_nonneg)

text \<open>
  The backoff of attempt \<open>n\<close> stays within ten percent of the exponential
  \<open>0.2 * 2^(n-1)\<close> seconds, whatever the random value is.
\<close>

theorem backoff_seconds_bounds:
  assumes "1 \<le> n" "0 \<le> rnd" "rnd \<le> 1"
  shows "9/50 * 2 ^ (n - 1) \<le> backoff_seconds n rnd \<and> backoff_seconds n rnd \<le> 11/50 * 2 ^ (n - 1)"
proof -
  have "backoff_seconds n rnd = (9/50 + rnd / 25) * 2 ^ (n - 1)"
    using assms by (simp add: backoff_seconds_def Let_def max_def field_simps)
  moreover have "9/50 \<le> 9/50 + rnd / 25" "9/50 + rnd / 25 \<le> 11/50" using assms by simp_all
  ultimately show ?thesis by (metis mult_right_mono zero_le_numeral zero_le_power)
qed

theorem backoff_seconds_bounds_witness:
  "9/50 * 2 ^ (3 - 1) \<le> backoff_seconds 3 (1/2) \<and> backoff_seconds 3 (1/2) \<le> 11/50 * (2::real) ^ (3 - 1)"
  using backoff_seconds_bounds[of 3 "1/2"] by simp

lemma parse_retry_example: "parse_retry_after ''Please try again in 6m0s'' = Some 360"
  by code_simp

lemma parse_retry_unit_boundary: "parse_retry_after ''try again in 2 months'' = None"
  by code_simp

end
