(* ===== verification/Balancer_State.thy ===== *)
theory Balancer_State
  imports Ordered_Keys Retry
begin

text \<open>
  The router's view of one account and the predicates and scores it computes from it
  (\<open>packages/gateway/src/router/balancer.ts\<close>, up to \<open>selectPlanTier\<close>). Times are Unix seconds.
  The definitions follow the order of the source; \<open>sha256\<close> of \<open>node:crypto\<close> is the parameter
  \<open>sha\<close> of the definitions that use it.
\<close>

subsection \<open>Types\<close>

datatype account_status = ACTIVE | RATE_LIMITED | QUOTA_EXCEEDED | PAUSED | REAUTH_REQUIRED | DEACTIVATED

datatype routing_strategy = USAGE_WEIGHTED | ROUND_ROBIN | CAPACITY_WEIGHTED | RELATIVE_AVAILABILITY
  | FILL_FIRST | SEQUENTIAL_DRAIN | RESET_DRAIN | SINGLE_ACCOUNT

datatype traffic_class = Foreground | Opportunistic
datatype usage_order = SecondaryFirst | PrimaryFirst
datatype reset_window = PrimaryWindow | SecondaryWindow
datatype routing_policy = NormalPolicy | BurnFirst | Preserve

record account_state =
  st_accountId :: string
  st_status :: account_status
  st_usedPercent :: "num option"
  st_resetAt :: "num option"
  st_primaryResetAt :: "num option"
  st_primaryWindowMinutes :: "num option"
  st_blockedAt :: "num option"
  st_cooldownUntil :: "num option"
  st_secondaryUsedPercent :: "num option"
  st_secondaryResetAt :: "num option"
  st_lastErrorAt :: "num option"
  st_lastSelectedAt :: "num option"
  st_errorCount :: nat
  st_deactivationReason :: "string option"
  st_planType :: "string option"
  st_capacityCredits :: "num option"
  st_healthTier :: nat
  st_priorityUsedPercent :: "num option"
  st_prioritySecondaryUsedPercent :: "num option"
  st_priorityResetAt :: "num option"
  st_priorityCapacityCredits :: "num option"
  st_limitScopedUsage :: bool
  st_accessTokenExpiresAt :: "num option"
  st_routingPolicy :: "routing_policy option"
  st_ignoreStandardQuota :: bool
  st_selectionWeightMultiplier :: "num option"

text \<open>An account nothing is known of but its id: the values \<open>undefined\<close> fields read as.\<close>

definition blank_account :: "string \<Rightarrow> account_state" where
  "blank_account i = \<lparr>st_accountId = i, st_status = ACTIVE, st_usedPercent = None, st_resetAt = None,
     st_primaryResetAt = None, st_primaryWindowMinutes = None, st_blockedAt = None, st_cooldownUntil = None,
     st_secondaryUsedPercent = None, st_secondaryResetAt = None, st_lastErrorAt = None, st_lastSelectedAt = None,
     st_errorCount = 0, st_deactivationReason = None, st_planType = None, st_capacityCredits = None,
     st_healthTier = 0, st_priorityUsedPercent = None, st_prioritySecondaryUsedPercent = None,
     st_priorityResetAt = None, st_priorityCapacityCredits = None, st_limitScopedUsage = False,
     st_accessTokenExpiresAt = None, st_routingPolicy = None, st_ignoreStandardQuota = False,
     st_selectionWeightMultiplier = None\<rparr>"

subsection \<open>Constants\<close>

abbreviation (input) SECONDS_PER_DAY :: real where "SECONDS_PER_DAY \<equiv> 86400"
abbreviation (input) SECONDS_PER_HOUR :: real where "SECONDS_PER_HOUR \<equiv> 3600"
abbreviation (input) SECONDS_PER_WEEK :: real where "SECONDS_PER_WEEK \<equiv> 604800"
abbreviation (input) RATE_LIMIT_RESET_MAX_HORIZON_SECONDS :: real where
  "RATE_LIMIT_RESET_MAX_HORIZON_SECONDS \<equiv> 366 * 86400"
abbreviation (input) UNKNOWN_RESET_BUCKET_DAYS :: real where "UNKNOWN_RESET_BUCKET_DAYS \<equiv> 10000"
abbreviation (input) UNKNOWN_RESET_FALLBACK_SECONDS :: real where "UNKNOWN_RESET_FALLBACK_SECONDS \<equiv> 604800"
abbreviation (input) PROBE_QUIET_SECONDS :: real where "PROBE_QUIET_SECONDS \<equiv> 60"
abbreviation (input) ERROR_BACKOFF_THRESHOLD :: nat where "ERROR_BACKOFF_THRESHOLD \<equiv> 3"
abbreviation (input) HEALTH_TIER_HEALTHY :: nat where "HEALTH_TIER_HEALTHY \<equiv> 0"
abbreviation (input) HEALTH_TIER_DRAINING :: nat where "HEALTH_TIER_DRAINING \<equiv> 1"
abbreviation (input) HEALTH_TIER_PROBING :: nat where "HEALTH_TIER_PROBING \<equiv> 2"

definition capacity_plan_aliases :: "(string \<times> string) list" where
  "capacity_plan_aliases = [(''education'', ''edu''), (''k12'', ''edu''), (''guest'', ''free''), (''go'', ''free''),
     (''free_workspace'', ''free''), (''quorum'', ''free''), (''unknown'', ''free''), (''max'', ''max5x'')]"

definition plan_capacity_credits_secondary :: "(string \<times> real) list" where
  "plan_capacity_credits_secondary = [(''free'', 1134), (''plus'', 7560), (''business'', 7560), (''team'', 7560),
     (''edu'', 7560), (''pro'', 50400), (''prolite'', 37800), (''enterprise'', 50400), (''max5x'', 252000),
     (''max20x'', 1008000)]"

subsection \<open>Ties\<close>

definition stable_tie_breaker :: "(string \<Rightarrow> string) \<Rightarrow> string \<Rightarrow> string" where
  "stable_tie_breaker sha i = sha i"

definition decorrelated_tie_breaker :: "(string \<Rightarrow> string) \<Rightarrow> string \<Rightarrow> string \<Rightarrow> string" where
  "decorrelated_tie_breaker sha i salt = sha (salt @ [CHR 0x00] @ i)"

text \<open>
  The salt that decorrelates ties between replicas: the explicit one, else the configured one, else
  the host's name. \<open>configured\<close> is the module variable that \<open>configureReplicaSalt\<close> sets.
\<close>

definition configure_replica_salt :: "string option \<Rightarrow> string option" where
  "configure_replica_salt salt = (let n = js_trim (dflt salt []) in if n = [] then None else Some n)"

definition effective_replica_salt :: "string option \<Rightarrow> string option \<Rightarrow> string \<Rightarrow> string" where
  "effective_replica_salt explicit configured host =
     (if js_trim (dflt explicit []) \<noteq> [] then js_trim (dflt explicit [])
      else case configured of Some c \<Rightarrow> c
      | None \<Rightarrow> if js_trim host \<noteq> [] then js_trim host else ''space-gateway'')"

subsection \<open>Remaining quota and floors\<close>

definition routing_policy_of :: "account_state \<Rightarrow> routing_policy" where
  "routing_policy_of s = dflt (st_routingPolicy s) NormalPolicy"

definition used_pct :: "account_state \<Rightarrow> bool \<Rightarrow> real option" where
  "used_pct s secondary =
     (if secondary then or_else (st_secondaryUsedPercent s) (st_usedPercent s) else st_usedPercent s)"

definition remaining_pct :: "account_state \<Rightarrow> bool \<Rightarrow> real option" where
  "remaining_pct s secondary = map_option (\<lambda>used. max 0 (100 - min 100 used)) (used_pct s secondary)"

definition seconds_until :: "real option \<Rightarrow> real \<Rightarrow> real option" where
  "seconds_until resetAt current = map_option (\<lambda>r. max 0 (r - current)) resetAt"

definition recent_foreground_activity :: "account_state \<Rightarrow> real \<Rightarrow> bool" where
  "recent_foreground_activity s current =
     (case st_lastSelectedAt s of None \<Rightarrow> False | Some t \<Rightarrow> current - t \<le> 30 * 60)"

definition weekly_pace_floor_pct :: "account_state \<Rightarrow> real \<Rightarrow> real" where
  "weekly_pace_floor_pct s current =
     (case (seconds_until (st_secondaryResetAt s) current, used_pct s True) of
        (Some remainingSeconds, Some used) \<Rightarrow>
          (let elapsed = max 0 (SECONDS_PER_WEEK - remainingSeconds);
               expectedUsed = min 100 ((elapsed / SECONDS_PER_WEEK) * 100);
               behindPace = used + 5 < expectedUsed;
               floor0 = (if remainingSeconds \<le> 6 * SECONDS_PER_HOUR \<and> behindPace then 0
                 else if remainingSeconds \<le> SECONDS_PER_DAY \<and> behindPace then 2
                 else if behindPace then 5 else 15);
               floor1 = (if recent_foreground_activity s current then max floor0 25 else floor0)
           in max 5 floor1)
      | _ \<Rightarrow> 100)"

definition short_window_floor_pct :: "account_state \<Rightarrow> real \<Rightarrow> nat \<Rightarrow> real" where
  "short_window_floor_pct s current preserveCount =
     (case seconds_until (st_resetAt s) current of None \<Rightarrow> 100
      | Some remainingSeconds \<Rightarrow>
          (let f0 = 10;
               f1 = (if remainingSeconds > SECONDS_PER_HOUR then max f0 20 else f0);
               f2 = (if recent_foreground_activity s current then max f1 30 else f1)
           in if preserveCount \<le> 1 then max f2 25 else f2))"

definition preserve_allows_opportunistic_burn :: "account_state \<Rightarrow> real \<Rightarrow> nat \<Rightarrow> bool" where
  "preserve_allows_opportunistic_burn s current preserveCount =
     (if remaining_pct s True = None \<or> remaining_pct s False = None then False
      else if st_secondaryResetAt s = None \<or> st_resetAt s = None then False
      else dflt (remaining_pct s True) 0 > weekly_pace_floor_pct s current
        \<and> dflt (remaining_pct s False) 0 > short_window_floor_pct s current preserveCount)"

definition preserve_count :: "account_state list \<Rightarrow> nat" where
  "preserve_count available = length (filter (\<lambda>s. routing_policy_of s = Preserve) available)"

definition has_other_usable_foreground_capacity :: "account_state \<Rightarrow> account_state list \<Rightarrow> real \<Rightarrow> bool" where
  "has_other_usable_foreground_capacity candidate available current =
     list_ex (\<lambda>other. st_accountId other \<noteq> st_accountId candidate
        \<and> (st_status other = ACTIVE \<or> st_status other = REAUTH_REQUIRED)
        \<and> (if routing_policy_of other = Preserve
           then preserve_allows_opportunistic_burn other current (preserve_count available)
           else True)) available"

definition above_emergency_floor :: "account_state \<Rightarrow> bool" where
  "above_emergency_floor s = (case (remaining_pct s False, remaining_pct s True) of
     (Some primary, Some secondary) \<Rightarrow> primary > 5 \<and> secondary > 5 | _ \<Rightarrow> False)"

datatype burn_reason = PreserveFloorOrStale | NoExpendableAccount

text \<open>The test of the loop in \<open>filterOpportunisticCandidates\<close>, and the three lists it fills.\<close>

definition burn_candidate :: "account_state list \<Rightarrow> real \<Rightarrow> account_state \<Rightarrow> bool" where
  "burn_candidate available current s =
     (if routing_policy_of s = Preserve
      then preserve_allows_opportunistic_burn s current (preserve_count available)
      else has_other_usable_foreground_capacity s available current \<or> above_emergency_floor s)"

definition filter_opportunistic_candidates ::
  "account_state list \<Rightarrow> real \<Rightarrow> account_state list \<times> burn_reason option" where
  "filter_opportunistic_candidates available current =
     (let pick = (\<lambda>p. filter (\<lambda>s. routing_policy_of s = p \<and> burn_candidate available current s) available);
          pool = pick BurnFirst @ pick NormalPolicy @ pick Preserve
      in if pool \<noteq> [] then (pool, None)
         else if list_ex (\<lambda>s. routing_policy_of s = Preserve) available then ([], Some PreserveFloorOrStale)
         else ([], Some NoExpendableAccount))"

subsection \<open>Reset preference\<close>

definition reset_preference_bucket :: "account_state \<Rightarrow> real \<Rightarrow> reset_window \<Rightarrow> real" where
  "reset_preference_bucket s current window =
     (let resetAt = (case window of
            PrimaryWindow \<Rightarrow> or_else (st_primaryResetAt s) (or_else (st_priorityResetAt s) (st_secondaryResetAt s))
          | SecondaryWindow \<Rightarrow> or_else (st_priorityResetAt s) (or_else (st_secondaryResetAt s) (st_primaryResetAt s)))
      in case resetAt of None \<Rightarrow> UNKNOWN_RESET_BUCKET_DAYS * SECONDS_PER_DAY
         | Some r \<Rightarrow> (let remaining = max 0 (js_trunc (r - current)) in
             if window = SecondaryWindow then js_floor (remaining / SECONDS_PER_DAY) else remaining))"

definition prefer_earlier_reset_candidates ::
  "account_state list \<Rightarrow> real \<Rightarrow> reset_window \<Rightarrow> account_state list" where
  "prefer_earlier_reset_candidates available current window =
     (let earliest = js_min (map (\<lambda>s. reset_preference_bucket s current window) available)
      in filter (\<lambda>s. Some (reset_preference_bucket s current window) = earliest) available)"

definition fallback_secondary_capacity_credits :: "string option \<Rightarrow> real" where
  "fallback_secondary_capacity_credits planType =
     (let normalized = js_lower (js_trim (dflt planType []));
          resolved = dflt (map_of capacity_plan_aliases normalized)
            (if normalized = [] then ''free'' else normalized)
      in dflt (map_of plan_capacity_credits_secondary resolved) 1134)"

definition known_expired_reauth :: "account_state \<Rightarrow> real \<Rightarrow> bool" where
  "known_expired_reauth s current = (st_status s = REAUTH_REQUIRED \<and>
     (case st_accessTokenExpiresAt s of None \<Rightarrow> False | Some t \<Rightarrow> t \<le> current))"

subsection \<open>Usage keys and costs\<close>

definition priority_primary_used :: "account_state \<Rightarrow> real" where
  "priority_primary_used s = dflt (or_else (st_priorityUsedPercent s) (st_usedPercent s)) 0"

definition priority_secondary_used :: "account_state \<Rightarrow> real \<Rightarrow> real" where
  "priority_secondary_used s primary =
     (if st_limitScopedUsage s \<and> st_prioritySecondaryUsedPercent s = None then primary
      else dflt (or_else (st_prioritySecondaryUsedPercent s) (st_secondaryUsedPercent s)) primary)"

definition usage_sort_key :: "account_state \<Rightarrow> sort_key" where
  "usage_sort_key s = (let primary = priority_primary_used s in
     [KNum (priority_secondary_used s primary), KNum primary, KNum (dflt (st_lastSelectedAt s) 0), KStr (st_accountId s)])"

definition primary_usage_sort_key :: "account_state \<Rightarrow> sort_key" where
  "primary_usage_sort_key s = (let primary = priority_primary_used s in
     [KNum primary, KNum (priority_secondary_used s primary), KNum (dflt (st_lastSelectedAt s) 0), KStr (st_accountId s)])"

type_synonym routing_costs = "(string \<times> real) list"

definition planner_cost :: "account_state \<Rightarrow> routing_costs option \<Rightarrow> real" where
  "planner_cost s costs = (case costs of None \<Rightarrow> 0 | Some m \<Rightarrow> dflt (map_of m (st_accountId s)) 0)"

definition lowest_planner_cost_candidates :: "account_state list \<Rightarrow> routing_costs option \<Rightarrow> account_state list" where
  "lowest_planner_cost_candidates available costs =
     (if costs = None \<or> costs = Some [] then available
      else let lowest = js_min (map (\<lambda>s. planner_cost s costs) available)
        in filter (\<lambda>s. Some (planner_cost s costs) = lowest) available)"

definition remaining_secondary_credits :: "account_state \<Rightarrow> real" where
  "remaining_secondary_credits s =
     (let capacity = or_else (st_priorityCapacityCredits s) (st_capacityCredits s);
          used = priority_secondary_used s (priority_primary_used s);
          left = (\<lambda>c. max 0 (c * (1 - min used 100 / 100)))
      in case capacity of None \<Rightarrow> left (fallback_secondary_capacity_credits (st_planType s))
         | Some c \<Rightarrow> if c \<le> 0 then 0 else left c)"

definition selection_weight_multiplier :: "account_state \<Rightarrow> real" where
  "selection_weight_multiplier s = (let m = dflt (st_selectionWeightMultiplier s) 1 in
     if m < 0 then 1 else min m 1)"

subsection \<open>Weighted and seeded draws\<close>

fun weighted_loop :: "'a list \<Rightarrow> real list \<Rightarrow> real \<Rightarrow> 'a option" where
  "weighted_loop (x # xs) (w # ws) threshold =
     (let t = threshold - w in if t < 0 then Some x else weighted_loop xs ws t)"
| "weighted_loop _ _ _ = None"

text \<open>\<open>rnd\<close> is what \<open>random()\<close> returned, a number in \<open>[0, 1)\<close>.\<close>

definition weighted_choice :: "'a list \<Rightarrow> real list \<Rightarrow> real \<Rightarrow> 'a option" where
  "weighted_choice items weights rnd =
     (if items = [] then None
      else Some (dflt (weighted_loop items weights (rnd * sum_list weights)) (last items)))"

definition seeded_account :: "(string \<Rightarrow> string) \<Rightarrow> account_state list \<Rightarrow> string \<Rightarrow> account_state option" where
  "seeded_account sha pool seed = min_by (\<lambda>s. [KStr (decorrelated_tie_breaker sha (st_accountId s) seed)]) pool"

definition seeded_least_used :: "(string \<Rightarrow> string) \<Rightarrow> account_state list \<Rightarrow> string \<Rightarrow> account_state option" where
  "seeded_least_used sha available seed =
     (let keyOf = (\<lambda>s. take 2 (usage_sort_key s)) in
      case min_by keyOf available of None \<Rightarrow> None
      | Some m \<Rightarrow> seeded_account sha (filter (\<lambda>s. compare_keys (keyOf s) (keyOf m) = 0) available) seed)"

text \<open>The items whose weight (at the same index) is positive.\<close>

definition positive_items :: "'a list \<Rightarrow> real list \<Rightarrow> 'a list" where
  "positive_items items weights = map fst (filter (\<lambda>(_, w). w > 0) (zip items weights))"

definition usage_fallback :: "(string \<Rightarrow> string) \<Rightarrow> account_state list \<Rightarrow> string option \<Rightarrow> account_state option" where
  "usage_fallback sha available seed = (case seed of
     Some sd \<Rightarrow> seeded_least_used sha available sd | None \<Rightarrow> min_by usage_sort_key available)"

definition select_capacity_weighted ::
  "(string \<Rightarrow> string) \<Rightarrow> account_state list \<Rightarrow> real \<Rightarrow> string option \<Rightarrow> account_state option" where
  "select_capacity_weighted sha available rnd seed =
     (let weights = map (\<lambda>s. remaining_secondary_credits s * selection_weight_multiplier s) available
      in if sum_list weights \<le> 0 then usage_fallback sha available seed
         else case seed of Some sd \<Rightarrow> seeded_account sha (positive_items available weights) sd
           | None \<Rightarrow> weighted_choice available weights rnd)"

subsection \<open>Relative availability\<close>

definition relative_availability_raw_score :: "account_state \<Rightarrow> real \<Rightarrow> real" where
  "relative_availability_raw_score s current =
     (let remainingCredits = remaining_secondary_credits s in
      if remainingCredits \<le> 0 then 0
      else let remainingSeconds = (case or_else (st_priorityResetAt s) (st_secondaryResetAt s) of
                 None \<Rightarrow> UNKNOWN_RESET_FALLBACK_SECONDS | Some r \<Rightarrow> max 0 (r - current))
        in remainingCredits / max remainingSeconds (5 * 60))"

record scored =
  sc_state :: account_state
  sc_score :: real
  sc_weight :: real

definition scored_key :: "scored \<Rightarrow> sort_key" where
  "scored_key x = [KNum (- sc_weight x), KNum (- sc_score x)] @ usage_sort_key (sc_state x)"

definition best_raw_score :: "account_state list \<Rightarrow> real \<Rightarrow> real" where
  "best_raw_score available current = fold max (map (\<lambda>s. relative_availability_raw_score s current) available) 0"

text \<open>The candidates whose weight \<open>(score / best) ** power\<close> reaches the minimum fraction.\<close>

definition scored_candidates :: "account_state list \<Rightarrow> real \<Rightarrow> real \<Rightarrow> scored list" where
  "scored_candidates available current power0 =
     (let best = best_raw_score available current; power = (if power0 > 0 then power0 else 2)
      in filter (\<lambda>x. sc_weight x \<ge> 1/10) (map (\<lambda>s. let sc = relative_availability_raw_score s current
           in \<lparr>sc_state = s, sc_score = sc, sc_weight = (sc / best) powr power\<rparr>) available))"

definition order_scored :: "(string \<Rightarrow> string) \<Rightarrow> string option \<Rightarrow> int \<Rightarrow> scored list \<Rightarrow> scored list" where
  "order_scored sha seed topK weighted = (case seed of
       Some sd \<Rightarrow> js_sort (\<lambda>a b. compare_keys
         [KStr (decorrelated_tie_breaker sha (st_accountId (sc_state a)) sd)]
         [KStr (decorrelated_tie_breaker sha (st_accountId (sc_state b)) sd)]) weighted
     | None \<Rightarrow> take (nat (max 1 topK)) (js_sort (\<lambda>a b. compare_keys (scored_key a) (scored_key b)) weighted))"

definition scored_weights :: "scored list \<Rightarrow> real list" where
  "scored_weights ordered = map (\<lambda>x. sc_weight x * selection_weight_multiplier (sc_state x)) ordered"

definition select_relative_availability ::
  "(string \<Rightarrow> string) \<Rightarrow> account_state list \<Rightarrow> real \<Rightarrow> real \<Rightarrow> int \<Rightarrow> bool \<Rightarrow> string option \<Rightarrow> real
   \<Rightarrow> account_state option" where
  "select_relative_availability sha available current power0 topK deterministicProbe seed rnd =
     (let weighted = scored_candidates available current power0;
          ordered = order_scored sha seed topK weighted;
          weights = scored_weights ordered
      in if best_raw_score available current \<le> 0 \<or> weighted = [] then usage_fallback sha available seed
         else if deterministicProbe then Some (sc_state (hd ordered))
         else if sum_list weights \<le> 0 then usage_fallback sha available seed
         else case seed of
             Some sd \<Rightarrow> seeded_account sha (map sc_state (positive_items ordered weights)) sd
           | None \<Rightarrow> weighted_choice (map sc_state ordered) weights rnd)"

subsection \<open>Draining, probing and plan tiers\<close>

definition configured_capacity_credits :: "account_state \<Rightarrow> real" where
  "configured_capacity_credits s = (case st_capacityCredits s of
     Some c \<Rightarrow> if c > 0 then c else fallback_secondary_capacity_credits (st_planType s)
   | None \<Rightarrow> fallback_secondary_capacity_credits (st_planType s))"

text \<open>\<open>None\<close> is positive infinity.\<close>

definition weekly_reset_timestamp :: "account_state \<Rightarrow> real \<Rightarrow> real option" where
  "weekly_reset_timestamp s current =
     (let future = (\<lambda>r. case r of Some t \<Rightarrow> if t > current then Some t else None | None \<Rightarrow> None)
      in or_else (future (st_secondaryResetAt s)) (future (st_resetAt s)))"

definition reset_drain_sort_key :: "(string \<Rightarrow> string) \<Rightarrow> account_state \<Rightarrow> real \<Rightarrow> sort_key" where
  "reset_drain_sort_key sha s current =
     (let primaryRemaining = 100 - dflt (st_usedPercent s) 0;
          secondaryRemaining = 100 - dflt (or_else (st_secondaryUsedPercent s) (st_usedPercent s)) 0;
          resetAt = weekly_reset_timestamp s current;
          bucket = (case resetAt of None \<Rightarrow> UNKNOWN_RESET_BUCKET_DAYS
            | Some r \<Rightarrow> max 0 (js_floor ((r - current) / SECONDS_PER_DAY)))
      in [KNum bucket, KNum (- max 0 primaryRemaining), KNum (- max 0 secondaryRemaining),
          (case resetAt of None \<Rightarrow> KPosInf | Some r \<Rightarrow> KNum r),
          KStr (stable_tie_breaker sha (st_accountId s)), KStr (st_accountId s)])"

definition oldest_due_probing_account :: "account_state list \<Rightarrow> real \<Rightarrow> account_state option" where
  "oldest_due_probing_account probing current =
     min_by (\<lambda>s. [(case st_lastSelectedAt s of None \<Rightarrow> KNegInf | Some t \<Rightarrow> KNum t), KStr (st_accountId s)])
       (filter (\<lambda>s. case st_lastSelectedAt s of None \<Rightarrow> True | Some t \<Rightarrow> current - t \<ge> PROBE_QUIET_SECONDS) probing)"

definition weekly_pace_points :: "account_state \<Rightarrow> real \<Rightarrow> real" where
  "weekly_pace_points s current = (case (st_secondaryUsedPercent s, st_secondaryResetAt s) of
     (Some used, Some reset) \<Rightarrow> if reset = 0 \<or> reset \<le> current then 0
       else used - 100 * (1 - min SECONDS_PER_WEEK (reset - current) / SECONDS_PER_WEEK)
   | _ \<Rightarrow> 0)"

definition normalize_plan_priority_type :: "string option \<Rightarrow> string" where
  "normalize_plan_priority_type value =
     (let cleaned = js_lower (js_trim (dflt value [])) in
      if cleaned = [] then ''unknown''
      else if filter (\<lambda>c. c \<notin> {CHR ''-'', CHR ''_'', CHR '' ''}) cleaned = ''prolite'' then ''prolite''
      else cleaned)"

fun first_tier :: "account_state list \<Rightarrow> string list \<Rightarrow> account_state list option" where
  "first_tier available [] = None"
| "first_tier available (plan # plans) =
     (let tier = filter (\<lambda>s. normalize_plan_priority_type (st_planType s) = plan) available
      in if tier \<noteq> [] then Some tier else first_tier available plans)"

definition select_plan_tier :: "account_state list \<Rightarrow> string list \<Rightarrow> account_state list" where
  "select_plan_tier available planPriority =
     (let priority = js_uniq (map (\<lambda>p. normalize_plan_priority_type (Some p)) planPriority) in
      if priority = [] then available
      else case first_tier available priority of Some tier \<Rightarrow> tier
      | None \<Rightarrow> (let fallback = filter (\<lambda>s. normalize_plan_priority_type (st_planType s) \<notin> set priority) available
          in if fallback \<noteq> [] then fallback else available))"

end
