(* ===== verification/Balancer_Select.thy ===== *)
theory Balancer_Select
  imports Balancer_State
begin

text \<open>
  \<open>selectAccount\<close> of \<open>packages/gateway/src/router/balancer.ts\<close>. The source mutates the account
  objects it is given while it filters them; here the filter returns the mutated accounts together
  with a verdict, and \<open>select_account\<close> returns them beside its result. Its four parts are the four
  paragraphs of the source: the filter loop (\<open>recover_one\<close>), the eligible pool with the backoff
  fallback (\<open>eligible_pool\<close>), the error for an empty pool (\<open>unavailable_result\<close>,
  \<open>pool_usage_exhaustion\<close>) and the strategies (\<open>choose_account\<close>).
\<close>

subsection \<open>Options and results\<close>

record select_options =
  so_now :: real
  so_preferEarlierReset :: bool
  so_preferEarlierResetWindow :: reset_window
  so_routingStrategy :: routing_strategy
  so_planPriority :: "string list"
  so_weeklyPace :: bool
  so_allowBackoffFallback :: bool
  so_deterministicProbe :: bool
  so_recoveryProbeOnly :: bool
  so_relativeAvailabilityPower :: real
  so_relativeAvailabilityTopK :: int
  so_usageWeightedOrder :: usage_order
  so_trafficClass :: traffic_class
  so_ignoreStandardQuota :: bool
  so_bypassIds :: "string list"
  so_routingCosts :: "routing_costs option"
  so_replicaSalt :: "string option"
  so_selectionSeed :: "string option"
  so_allowUsageExhaustionError :: bool
  so_usageExhaustionStates :: "account_state list option"
  so_random :: real

text \<open>The defaults of the destructuring at the top of \<open>selectAccount\<close>, at time \<open>now\<close>.\<close>

definition default_options :: "real \<Rightarrow> select_options" where
  "default_options now = \<lparr>so_now = now, so_preferEarlierReset = False, so_preferEarlierResetWindow = SecondaryWindow,
     so_routingStrategy = CAPACITY_WEIGHTED, so_planPriority = [], so_weeklyPace = False,
     so_allowBackoffFallback = True, so_deterministicProbe = False, so_recoveryProbeOnly = False,
     so_relativeAvailabilityPower = 2, so_relativeAvailabilityTopK = 5, so_usageWeightedOrder = SecondaryFirst,
     so_trafficClass = Foreground, so_ignoreStandardQuota = False, so_bypassIds = [], so_routingCosts = None,
     so_replicaSalt = None, so_selectionSeed = None, so_allowUsageExhaustionError = True,
     so_usageExhaustionStates = None, so_random = 0\<rparr>"

text \<open>The process: \<open>sha256\<close>, the configured salt and the host's name.\<close>

record router_env =
  re_sha :: "string \<Rightarrow> string"
  re_configuredSalt :: "string option"
  re_hostname :: string

datatype select_message =
    BurnWindowClosed "burn_reason option"
  | RetryHint real
  | UsageLimitReached
  | AllPausedDeactivatedOrReauth | AllPausedOrReauth | AllPausedOrDeactivated
  | AllDeactivatedOrReauth | AllPaused | AllReauth | AllDeactivated
  | NoAvailableAccounts

record selection_result =
  sr_account :: "account_state option"
  sr_errorMessage :: "select_message option"
  sr_errorCode :: "string option"
  sr_resetsAt :: "real option"

definition chosen :: "account_state option \<Rightarrow> selection_result" where
  "chosen a = \<lparr>sr_account = a, sr_errorMessage = None, sr_errorCode = None, sr_resetsAt = None\<rparr>"

definition refused :: "select_message \<Rightarrow> selection_result" where
  "refused m = \<lparr>sr_account = None, sr_errorMessage = Some m, sr_errorCode = None, sr_resetsAt = None\<rparr>"

lemma result_simps [simp]:
  "sr_account (chosen a) = a" "sr_errorMessage (chosen a) = None"
  "sr_account (refused m) = None" "sr_errorMessage (refused m) = Some m"
  by (simp_all add: chosen_def refused_def)

subsection \<open>The filter loop\<close>

datatype verdict = Skipped | InBackoff | Available

definition backoff_for :: "account_state \<Rightarrow> real" where
  "backoff_for s = min 300 (30 * 2 ^ (st_errorCount s - ERROR_BACKOFF_THRESHOLD))"

definition reset_due :: "account_state \<Rightarrow> real \<Rightarrow> bool" where
  "reset_due s current = (truthy (st_resetAt s) \<and> dflt (st_resetAt s) 0 \<le> current)"

definition lift_rate_limit :: "real \<Rightarrow> account_state \<Rightarrow> account_state" where
  "lift_rate_limit current s = (if st_status s = RATE_LIMITED \<and> reset_due s current
     then s\<lparr>st_status := ACTIVE, st_usedPercent := Some 0, st_errorCount := 0, st_resetAt := None\<rparr> else s)"

definition lift_quota :: "real \<Rightarrow> account_state \<Rightarrow> account_state" where
  "lift_quota current s = (if st_status s = QUOTA_EXCEEDED \<and> reset_due s current
     then s\<lparr>st_status := ACTIVE, st_usedPercent := Some 0, st_secondaryUsedPercent := Some 0, st_resetAt := None\<rparr> else s)"

definition clear_cooldown :: "real \<Rightarrow> account_state \<Rightarrow> account_state" where
  "clear_cooldown current s = (if truthy (st_cooldownUntil s) \<and> dflt (st_cooldownUntil s) 0 \<le> current
     then s\<lparr>st_cooldownUntil := None, st_lastErrorAt := None, st_errorCount := 0\<rparr> else s)"

definition cooling_down :: "real \<Rightarrow> account_state \<Rightarrow> bool" where
  "cooling_down current s = (truthy (st_cooldownUntil s) \<and> current < dflt (st_cooldownUntil s) 0)"

definition quota_bypassed :: "select_options \<Rightarrow> account_state \<Rightarrow> bool" where
  "quota_bypassed opts s = (so_ignoreStandardQuota opts \<or> st_ignoreStandardQuota s
     \<or> st_accountId s \<in> set (so_bypassIds opts))"

definition in_error_backoff :: "real \<Rightarrow> account_state \<Rightarrow> bool" where
  "in_error_backoff current s = (truthy (st_lastErrorAt s) \<and> current - dflt (st_lastErrorAt s) 0 < backoff_for s)"

text \<open>The tail of the loop body: cooldown, error backoff, and the list the account goes to.\<close>

definition admit :: "real \<Rightarrow> account_state \<Rightarrow> account_state \<times> verdict" where
  "admit current s2 =
     (let s3 = clear_cooldown current s2 in
      if cooling_down current s3 then (s3, Skipped)
      else if st_errorCount s3 \<ge> ERROR_BACKOFF_THRESHOLD
      then if in_error_backoff current s3 then (s3, InBackoff)
        else (s3\<lparr>st_errorCount := 0, st_lastErrorAt := None\<rparr>, Available)
      else (s3, Available))"

text \<open>One turn of the loop: the account as the loop leaves it, and which list it went to.\<close>

definition recover_one :: "select_options \<Rightarrow> account_state \<Rightarrow> account_state \<times> verdict" where
  "recover_one opts s0 =
     (let current = so_now opts; bypass = quota_bypassed opts s0 in
      if st_status s0 = DEACTIVATED \<or> st_status s0 = PAUSED then (s0, Skipped)
      else if known_expired_reauth s0 current then (s0, Skipped)
      else let s1 = lift_rate_limit current s0 in
      if st_status s1 = RATE_LIMITED \<and> \<not> bypass then (s1, Skipped)
      else let s2 = lift_quota current s1 in
      if st_status s2 = QUOTA_EXCEEDED \<and> \<not> bypass then (s2, Skipped)
      else admit current s2)"

definition with_verdict :: "verdict \<Rightarrow> (account_state \<times> verdict) list \<Rightarrow> account_state list" where
  "with_verdict v rs = map fst (filter (\<lambda>p. snd p = v) rs)"

subsection \<open>Pool-wide exhaustion\<close>

definition format_retry_hint :: "real \<Rightarrow> select_message" where
  "format_retry_hint waitSeconds = RetryHint (js_round (min (max 0 waitSeconds) 300))"

definition primary_evidence :: "account_state \<Rightarrow> real option" where
  "primary_evidence s = or_else (st_priorityUsedPercent s) (st_usedPercent s)"

definition secondary_evidence :: "account_state \<Rightarrow> real option" where
  "secondary_evidence s =
     (if st_limitScopedUsage s \<and> st_prioritySecondaryUsedPercent s = None then primary_evidence s
      else or_else (st_prioritySecondaryUsedPercent s) (st_secondaryUsedPercent s))"

definition at_limit :: "real option \<Rightarrow> bool" where
  "at_limit v = (case v of None \<Rightarrow> False | Some x \<Rightarrow> x \<ge> 100)"

definition limited_status :: "account_state \<Rightarrow> bool" where
  "limited_status s = (st_status s = QUOTA_EXCEEDED \<or> st_status s = RATE_LIMITED)"

definition exhausted :: "account_state \<Rightarrow> bool" where
  "exhausted s = (limited_status s \<and> (at_limit (primary_evidence s) \<or> at_limit (secondary_evidence s)))"

definition exhausted_reset_at :: "account_state \<Rightarrow> real option" where
  "exhausted_reset_at s =
     (if \<not> limited_status s then None
      else js_max ((case st_primaryResetAt s of Some r \<Rightarrow> if at_limit (primary_evidence s) then [r] else [] | None \<Rightarrow> [])
        @ (case st_secondaryResetAt s of Some r \<Rightarrow> if at_limit (secondary_evidence s) then [r] else [] | None \<Rightarrow> [])))"

definition exhaustion_eligible :: "string list \<Rightarrow> account_state list \<Rightarrow> account_state list" where
  "exhaustion_eligible ignored states = filter (\<lambda>s. \<not> st_ignoreStandardQuota s \<and> st_accountId s \<notin> set ignored
     \<and> st_status s \<noteq> PAUSED \<and> st_status s \<noteq> DEACTIVATED) states"

definition pool_usage_exhaustion ::
  "account_state list \<Rightarrow> real \<Rightarrow> bool \<Rightarrow> string list \<Rightarrow> selection_result option" where
  "pool_usage_exhaustion states current ignoreStandardQuota ignored =
     (if ignoreStandardQuota then None
      else let eligible = exhaustion_eligible ignored states in
      if eligible = [] \<or> list_ex (\<lambda>s. \<not> exhausted s) eligible then None
      else let resetsAt = map_option js_trunc (js_min (List.map_filter exhausted_reset_at eligible)) in
        Some \<lparr>sr_account = None,
          sr_errorMessage = Some (case resetsAt of Some r \<Rightarrow> format_retry_hint (max 0 (r - current)) | None \<Rightarrow> UsageLimitReached),
          sr_errorCode = Some ''usage_limit_reached'', sr_resetsAt = resetsAt\<rparr>)"

subsection \<open>The eligible pool\<close>

definition has_status :: "account_status \<Rightarrow> account_state list \<Rightarrow> bool" where
  "has_status st states = list_ex (\<lambda>s. st_status s = st) states"

definition truthy_values :: "real option list \<Rightarrow> real list" where
  "truthy_values vs = List.map_filter (\<lambda>v. if truthy v then v else None) vs"

text \<open>The messages of an empty pool, in the order of the source.\<close>

definition unavailable_result :: "select_options \<Rightarrow> account_state list \<Rightarrow> account_state list \<Rightarrow> selection_result" where
  "unavailable_result opts states exhaustionStates =
     (let current = so_now opts;
          exhaustion = (if so_allowUsageExhaustionError opts
            then pool_usage_exhaustion exhaustionStates current (so_ignoreStandardQuota opts) (so_bypassIds opts) else None);
          p = has_status PAUSED states; r = list_ex (\<lambda>s. known_expired_reauth s current) states;
          d = has_status DEACTIVATED states;
          quotaExceeded = filter (\<lambda>s. st_status s = QUOTA_EXCEEDED) states;
          resets = truthy_values (map st_resetAt quotaExceeded);
          cooldowns = filter (\<lambda>v. v > current) (truthy_values (map st_cooldownUntil states));
          later = (if resets \<noteq> [] then refused (format_retry_hint (max 0 (dflt (js_min resets) 0 - js_trunc current)))
            else if cooldowns \<noteq> [] then refused (format_retry_hint (max 0 (dflt (js_min cooldowns) 0 - current)))
            else refused NoAvailableAccounts)
      in case exhaustion of Some e \<Rightarrow> e
       | None \<Rightarrow>
         if \<not> has_status RATE_LIMITED states \<and> quotaExceeded = []
         then if p \<and> r \<and> d then refused AllPausedDeactivatedOrReauth
           else if p \<and> r then refused AllPausedOrReauth
           else if p \<and> d then refused AllPausedOrDeactivated
           else if r \<and> d then refused AllDeactivatedOrReauth
           else if p then refused AllPaused
           else if r then refused AllReauth
           else if d then refused AllDeactivated
           else later
         else later)"

definition hard_blocked :: "real \<Rightarrow> account_state \<Rightarrow> bool" where
  "hard_blocked current s = (st_status s \<in> {PAUSED, DEACTIVATED, RATE_LIMITED, QUOTA_EXCEEDED}
     \<or> known_expired_reauth s current)"

definition eligible_pool ::
  "select_options \<Rightarrow> account_state list \<Rightarrow> account_state list \<Rightarrow> account_state list
   \<Rightarrow> selection_result + account_state list" where
  "eligible_pool opts states available backoff =
     (let current = so_now opts;
          narrow = (\<lambda>pool. if so_trafficClass opts = Opportunistic
            then (case filter_opportunistic_candidates pool current of
               ([], reason) \<Rightarrow> Inl (refused (BurnWindowClosed reason)) | (ps, _) \<Rightarrow> Inr ps)
            else Inr pool);
          backoffIds = map st_accountId backoff;
          hardBlockedExists = list_ex (\<lambda>s. hard_blocked current s \<and> st_accountId s \<notin> set backoffIds) states
      in if available \<noteq> [] then narrow available
         else if so_allowBackoffFallback opts \<and> (length backoff > 1 \<or> (length backoff > 0 \<and> hardBlockedExists))
         then (case min_by (\<lambda>s. [KNum (dflt (st_lastErrorAt s) 0 + backoff_for s)]) backoff of
             None \<Rightarrow> Inr [] | Some b \<Rightarrow> narrow [b])
         else Inl (unavailable_result opts states (dflt (so_usageExhaustionStates opts) states)))"

subsection \<open>The strategies\<close>

definition first_nonempty :: "'a list list \<Rightarrow> 'a list \<Rightarrow> 'a list" where
  "first_nonempty xss d = (case List.find (\<lambda>xs. xs \<noteq> []) xss of Some xs \<Rightarrow> xs | None \<Rightarrow> d)"

definition of_tier :: "nat \<Rightarrow> account_state list \<Rightarrow> account_state list" where
  "of_tier t xs = filter (\<lambda>s. st_healthTier s = t) xs"

definition due_probe :: "select_options \<Rightarrow> account_state list \<Rightarrow> account_state option" where
  "due_probe opts available =
     (if (of_tier HEALTH_TIER_HEALTHY available \<noteq> [] \<or> so_recoveryProbeOnly opts) \<and> so_selectionSeed opts = None
      then oldest_due_probing_account (of_tier HEALTH_TIER_PROBING available) (so_now opts) else None)"

definition health_pool :: "select_options \<Rightarrow> account_state list \<Rightarrow> account_state list" where
  "health_pool opts available = (case due_probe opts available of Some a \<Rightarrow> [a]
     | None \<Rightarrow> first_nonempty [of_tier HEALTH_TIER_HEALTHY available, of_tier HEALTH_TIER_PROBING available,
         of_tier HEALTH_TIER_DRAINING available] available)"

definition effective_pool :: "select_options \<Rightarrow> account_state list \<Rightarrow> account_state list" where
  "effective_pool opts available =
     (let pool = health_pool opts available; byPolicy = (\<lambda>p. filter (\<lambda>s. routing_policy_of s = p) pool)
      in first_nonempty [byPolicy BurnFirst, byPolicy NormalPolicy, byPolicy Preserve] pool)"

definition tier_index :: "string list \<Rightarrow> account_state \<Rightarrow> nat" where
  "tier_index tiers s = length (takeWhile (\<lambda>t. t \<noteq> normalize_plan_priority_type (st_planType s)) tiers)"

definition weekly_pace_key :: "select_options \<Rightarrow> account_state \<Rightarrow> sort_key" where
  "weekly_pace_key opts s =
     [KNum (js_round (weekly_pace_points s (so_now opts))),
      KNum (real (tier_index (map (\<lambda>p. normalize_plan_priority_type (Some p)) (so_planPriority opts)) s)),
      KNum (dflt (st_usedPercent s) 0), KStr (st_accountId s)]"

definition plan_priority_key :: "account_state \<Rightarrow> sort_key" where
  "plan_priority_key s = (let primary = dflt (st_usedPercent s) 0 in
     [KNum primary, KNum (dflt (st_secondaryUsedPercent s) primary), KStr (st_accountId s)])"

definition round_robin_key :: "router_env \<Rightarrow> select_options \<Rightarrow> account_state \<Rightarrow> sort_key" where
  "round_robin_key env opts s =
     [KNum (planner_cost s (so_routingCosts opts)), KNum (dflt (st_lastSelectedAt s) 0),
      KStr (decorrelated_tie_breaker (re_sha env) (st_accountId s)
        (effective_replica_salt (so_replicaSalt opts) (re_configuredSalt env) (re_hostname env)))]"

text \<open>The last paragraph of the source: the strategy applied to the effective pool.\<close>

definition apply_strategy :: "router_env \<Rightarrow> select_options \<Rightarrow> account_state list \<Rightarrow> account_state option" where
  "apply_strategy env opts pool =
     (let current = so_now opts; costs = so_routingCosts opts; seed = so_selectionSeed opts;
          window = so_preferEarlierResetWindow opts; rnd = so_random opts; sha = re_sha env;
          preferEarlier = so_preferEarlierReset opts \<and> so_routingStrategy opts \<noteq> RELATIVE_AVAILABILITY;
          earlier = (if preferEarlier then prefer_earlier_reset_candidates pool current window else pool);
          withBucket = (\<lambda>key s. (if preferEarlier then [KNum (reset_preference_bucket s current window)] else [])
            @ [KNum (planner_cost s costs)] @ key s)
      in case so_routingStrategy opts of
        ROUND_ROBIN \<Rightarrow> (case seed of
            Some sd \<Rightarrow> seeded_account sha (lowest_planner_cost_candidates pool costs) sd
          | None \<Rightarrow> min_by (round_robin_key env opts) pool)
      | CAPACITY_WEIGHTED \<Rightarrow>
          if so_deterministicProbe opts
          then min_by (\<lambda>s. [KNum (planner_cost s costs), KNum (- remaining_secondary_credits s)] @ usage_sort_key s) earlier
          else select_capacity_weighted sha (lowest_planner_cost_candidates earlier costs) rnd seed
      | RELATIVE_AVAILABILITY \<Rightarrow>
          select_relative_availability sha (lowest_planner_cost_candidates pool costs) current
            (so_relativeAvailabilityPower opts) (so_relativeAvailabilityTopK opts) (so_deterministicProbe opts) seed rnd
      | FILL_FIRST \<Rightarrow>
          min_by (\<lambda>s. [KNum (- dflt (st_usedPercent s) 0), KNum (- dflt (st_secondaryUsedPercent s) 0), KStr (st_accountId s)])
            (if so_preferEarlierReset opts then prefer_earlier_reset_candidates pool current window else pool)
      | _ \<Rightarrow> (case seed of
            Some sd \<Rightarrow> seeded_account sha (lowest_planner_cost_candidates earlier costs) sd
          | None \<Rightarrow> (case so_usageWeightedOrder opts of
              PrimaryFirst \<Rightarrow> min_by (withBucket primary_usage_sort_key) pool
            | SecondaryFirst \<Rightarrow> min_by (withBucket usage_sort_key) pool)))"

definition choose_account :: "router_env \<Rightarrow> select_options \<Rightarrow> account_state list \<Rightarrow> selection_result" where
  "choose_account env opts available =
     (if so_planPriority opts \<noteq> [] \<and> \<not> so_weeklyPace opts
      then chosen (min_by plan_priority_key (select_plan_tier available (so_planPriority opts)))
      else if so_routingStrategy opts = SINGLE_ACCOUNT
      then chosen (min_by (\<lambda>s. [KStr (st_accountId s)]) available)
      else if so_routingStrategy opts = SEQUENTIAL_DRAIN
      then chosen (min_by (\<lambda>s. [KNum (configured_capacity_credits s),
        KStr (stable_tie_breaker (re_sha env) (st_accountId s)), KStr (st_accountId s)]) available)
      else if so_routingStrategy opts = RESET_DRAIN
      then chosen (min_by (\<lambda>s. reset_drain_sort_key (re_sha env) s (so_now opts)) available)
      else if so_recoveryProbeOnly opts \<and> due_probe opts available = None then chosen None
      else if so_weeklyPace opts then chosen (min_by (weekly_pace_key opts) (effective_pool opts available))
      else chosen (apply_strategy env opts (effective_pool opts available)))"

definition select_account ::
  "router_env \<Rightarrow> select_options \<Rightarrow> account_state list \<Rightarrow> account_state list \<times> selection_result" where
  "select_account env opts states =
     (let rs = map (recover_one opts) states; states' = map fst rs
      in (states', case eligible_pool opts states' (with_verdict Available rs) (with_verdict InBackoff rs) of
            Inl r \<Rightarrow> r | Inr pool \<Rightarrow> choose_account env opts pool))"

end
