(* ===== verification/Balancer_Props.thy ===== *)
theory Balancer_Props
  imports Balancer_Select
begin

text \<open>
  What \<open>selectAccount\<close> guarantees: it only picks accounts that can serve, it picks one whenever one
  can serve, its filter is idempotent, and what each strategy optimises.
\<close>

subsection \<open>Every strategy picks from its pool\<close>

definition picks :: "'a option \<Rightarrow> 'a list \<Rightarrow> bool" where
  "picks r xs \<longleftrightarrow> (case r of None \<Rightarrow> xs = [] | Some a \<Rightarrow> a \<in> set xs)"

named_theorems picks_intros \<open>a strategy picks from its pool\<close>

lemma picks_SomeD: "picks (Some a) xs \<Longrightarrow> a \<in> set xs"
  by (simp add: picks_def)

lemma picks_nonempty: "picks r xs \<Longrightarrow> xs \<noteq> [] \<Longrightarrow> \<exists>a \<in> set xs. r = Some a"
  by (cases r) (auto simp: picks_def)

lemma picks_subset: "picks r ys \<Longrightarrow> set ys \<subseteq> set xs \<Longrightarrow> (xs \<noteq> [] \<Longrightarrow> ys \<noteq> []) \<Longrightarrow> picks r xs"
  by (cases r) (auto simp: picks_def)

lemma picks_min_by [picks_intros]: "picks (min_by key xs) xs"
  by (cases "min_by key xs") (auto simp: picks_def min_by_mem)

lemma filter_least_nonempty:
  "xs \<noteq> [] \<Longrightarrow> filter (\<lambda>s. Some (f s) = js_min (map f xs)) xs \<noteq> []"
proof -
  assume "xs \<noteq> []"
  then obtain m where m: "js_min (map f xs) = Some m"
    by (cases "js_min (map f xs)") auto
  then have "m \<in> f ` set xs" using js_min_Some[OF m] by simp
  then show ?thesis using m by (auto simp: filter_empty_conv)
qed

lemma prefer_earlier_nonempty: "xs \<noteq> [] \<Longrightarrow> prefer_earlier_reset_candidates xs c w \<noteq> []"
  unfolding prefer_earlier_reset_candidates_def Let_def by (rule filter_least_nonempty)

lemma prefer_earlier_subset: "set (prefer_earlier_reset_candidates xs c w) \<subseteq> set xs"
  by (auto simp: prefer_earlier_reset_candidates_def Let_def)

lemma lowest_cost_nonempty: "xs \<noteq> [] \<Longrightarrow> lowest_planner_cost_candidates xs costs \<noteq> []"
  using filter_least_nonempty[of xs "\<lambda>s. planner_cost s costs"]
  unfolding lowest_planner_cost_candidates_def Let_def by presburger

lemma lowest_cost_subset: "set (lowest_planner_cost_candidates xs costs) \<subseteq> set xs"
  by (auto simp: lowest_planner_cost_candidates_def Let_def)

lemma picks_lowest_cost: "picks r (lowest_planner_cost_candidates xs costs) \<Longrightarrow> picks r xs"
  by (erule picks_subset) (rule lowest_cost_subset lowest_cost_nonempty, assumption?)+

lemma picks_prefer_earlier: "picks r (prefer_earlier_reset_candidates xs c w) \<Longrightarrow> picks r xs"
  by (erule picks_subset) (rule prefer_earlier_subset prefer_earlier_nonempty, assumption?)+

lemma picks_seeded_account [picks_intros]: "picks (seeded_account sha xs sd) xs"
  unfolding seeded_account_def by (rule picks_min_by)

lemma picks_seeded_least_used [picks_intros]: "picks (seeded_least_used sha xs sd) xs"
proof (cases "min_by (\<lambda>s. take 2 (usage_sort_key s)) xs")
  case None
  then show ?thesis by (simp add: seeded_least_used_def picks_def)
next
  case (Some m)
  let ?f = "filter (\<lambda>s. compare_keys (take 2 (usage_sort_key s)) (take 2 (usage_sort_key m)) = 0) xs"
  have "m \<in> set ?f" using min_by_mem[OF Some] by simp
  then have "?f \<noteq> []" by (metis empty_iff empty_set)
  moreover have "set ?f \<subseteq> set xs" by simp
  ultimately show ?thesis
    using Some picks_subset[OF picks_seeded_account[of sha ?f sd], of xs]
    by (simp add: seeded_least_used_def Let_def)
qed

lemma picks_usage_fallback [picks_intros]: "picks (usage_fallback sha xs sd) xs"
  by (simp add: usage_fallback_def picks_intros split: option.split)

lemma weighted_loop_mem: "weighted_loop xs ws t = Some x \<Longrightarrow> x \<in> set xs"
  by (induction xs ws t rule: weighted_loop.induct) (auto simp: Let_def split: if_splits)

lemma picks_weighted_choice [picks_intros]: "picks (weighted_choice xs ws rnd) xs"
  by (cases "weighted_loop xs ws (rnd * sum_list ws)")
    (auto simp: weighted_choice_def picks_def dest: weighted_loop_mem)

lemma positive_items_subset: "set (positive_items xs ws) \<subseteq> set xs"
  by (auto simp: positive_items_def dest: set_zip_leftD)

lemma positive_items_nonempty:
  assumes "length xs = length ws" "0 < sum_list ws"
  shows "positive_items xs ws \<noteq> []"
proof
  assume "positive_items xs ws = []"
  then have "\<forall>p \<in> set (zip xs ws). snd p \<le> 0"
    by (auto simp: positive_items_def filter_empty_conv not_less)
  then have "\<forall>w \<in> set (map snd (zip xs ws)). w \<le> 0" by simp
  then have "\<forall>w \<in> set ws. w \<le> 0" using assms(1) by simp
  then have "sum_list ws \<le> 0" by (induction ws) (auto intro: add_nonpos_nonpos)
  with assms(2) show False by simp
qed

lemma picks_capacity_weighted [picks_intros]: "picks (select_capacity_weighted sha xs rnd seed) xs"
proof -
  define ws where "ws = map (\<lambda>s. remaining_secondary_credits s * selection_weight_multiplier s) xs"
  have "picks (seeded_account sha (positive_items xs ws) sd) xs" if "0 < sum_list ws" for sd
    using picks_subset[OF picks_seeded_account positive_items_subset]
      positive_items_nonempty[of xs ws] that by (auto simp: ws_def)
  then show ?thesis
    by (auto simp: select_capacity_weighted_def Let_def ws_def[symmetric] picks_intros not_le
      split: option.split)
qed

lemma order_scored_subset: "set (order_scored sha seed k xs) \<subseteq> set xs"
  using set_take_subset by (fastforce simp: order_scored_def split: option.splits)

lemma order_scored_ne: "xs \<noteq> [] \<Longrightarrow> order_scored sha seed k xs \<noteq> []"
  by (auto simp: order_scored_def split: option.splits)

lemma scored_candidates_mem: "x \<in> set (scored_candidates xs c p) \<Longrightarrow> sc_state x \<in> set xs"
  by (auto simp: scored_candidates_def Let_def)

lemma picks_relative_availability [picks_intros]:
  "picks (select_relative_availability sha xs c p k probe seed rnd) xs"
proof -
  define wtd where "wtd = scored_candidates xs c p"
  define ord where "ord = order_scored sha seed k wtd"
  define ws where "ws = scored_weights ord"
  have sub: "sc_state ` set ord \<subseteq> set xs"
    using order_scored_subset[of sha seed k wtd] scored_candidates_mem by (auto simp: ord_def wtd_def)
  have len: "length ord = length ws" by (simp add: ws_def scored_weights_def)
  have ne: "wtd \<noteq> [] \<Longrightarrow> ord \<noteq> []" by (simp add: ord_def order_scored_ne)
  have "picks (weighted_choice (map sc_state ord) ws rnd) xs" if "wtd \<noteq> []"
    using picks_subset[OF picks_weighted_choice, of "map sc_state ord" xs ws rnd] sub ne[OF that] by auto
  moreover have "picks (seeded_account sha (map sc_state (positive_items ord ws)) sd) xs" if "0 < sum_list ws" for sd
    using picks_subset[OF picks_seeded_account, of "map sc_state (positive_items ord ws)" xs sha sd]
      positive_items_nonempty[OF len that] positive_items_subset[of ord ws] sub by auto
  moreover have "picks (Some (sc_state (hd ord))) xs" if "wtd \<noteq> []"
    using sub ne[OF that] by (auto simp: picks_def)
  ultimately show ?thesis
    unfolding select_relative_availability_def Let_def wtd_def[symmetric] ord_def[symmetric] ws_def[symmetric]
    using picks_usage_fallback by (simp add: not_le split: option.split)
qed

lemma picks_if_earlier: "picks r (if b then prefer_earlier_reset_candidates xs c w else xs) \<Longrightarrow> picks r xs"
  by (auto split: if_splits intro: picks_prefer_earlier)

lemma picks_apply_strategy: "picks (apply_strategy env opts pool) pool"
proof (cases "so_routingStrategy opts")
  case ROUND_ROBIN
  then show ?thesis
    by (simp add: apply_strategy_def Let_def picks_intros picks_lowest_cost[OF picks_seeded_account] split: option.split)
next
  case CAPACITY_WEIGHTED
  then show ?thesis
    using picks_if_earlier[OF picks_min_by] picks_if_earlier[OF picks_lowest_cost[OF picks_capacity_weighted]]
    by (simp add: apply_strategy_def Let_def)
next
  case RELATIVE_AVAILABILITY
  then show ?thesis
    by (simp add: apply_strategy_def Let_def picks_lowest_cost[OF picks_relative_availability])
next
  case FILL_FIRST
  then show ?thesis
    using picks_if_earlier[OF picks_min_by] by (simp add: apply_strategy_def Let_def)
qed (simp_all add: apply_strategy_def Let_def picks_min_by picks_lowest_cost[OF picks_seeded_account]
  picks_prefer_earlier[OF picks_lowest_cost[OF picks_seeded_account]] split: option.split usage_order.split)

subsection \<open>The pools\<close>

lemma first_nonempty_cases:
  "first_nonempty xss d = d \<and> (\<forall>xs \<in> set xss. xs = []) \<or> first_nonempty xss d \<in> set xss \<and> first_nonempty xss d \<noteq> []"
  by (induction xss) (auto simp: first_nonempty_def)

lemma first_nonempty_subset:
  "(\<And>xs. xs \<in> set xss \<Longrightarrow> set xs \<subseteq> A) \<Longrightarrow> set d \<subseteq> A \<Longrightarrow> set (first_nonempty xss d) \<subseteq> A"
  using first_nonempty_cases[of xss d] by metis

lemma first_nonempty_ne: "d \<noteq> [] \<Longrightarrow> first_nonempty xss d \<noteq> []"
  using first_nonempty_cases[of xss d] by metis

lemma of_tier_subset: "set (of_tier t xs) \<subseteq> set xs"
  by (auto simp: of_tier_def)

lemma oldest_due_mem: "oldest_due_probing_account xs c = Some a \<Longrightarrow> a \<in> set xs"
  unfolding oldest_due_probing_account_def by (drule min_by_mem) simp

lemma due_probe_mem: "due_probe opts xs = Some a \<Longrightarrow> a \<in> set xs"
  using of_tier_subset by (fastforce simp: due_probe_def split: if_splits dest!: oldest_due_mem)

lemma health_pool_subset: "set (health_pool opts xs) \<subseteq> set xs"
proof (cases "due_probe opts xs")
  case None
  then show ?thesis
    unfolding health_pool_def by (simp only: option.case) (rule first_nonempty_subset, auto simp: of_tier_def)
next
  case (Some a)
  then show ?thesis using due_probe_mem[OF Some] by (simp add: health_pool_def)
qed

lemma health_pool_ne: "xs \<noteq> [] \<Longrightarrow> health_pool opts xs \<noteq> []"
  by (simp add: health_pool_def first_nonempty_ne split: option.splits)

lemma effective_pool_subset: "set (effective_pool opts xs) \<subseteq> set xs"
proof -
  have "set (effective_pool opts xs) \<subseteq> set (health_pool opts xs)"
    unfolding effective_pool_def Let_def by (rule first_nonempty_subset) auto
  with health_pool_subset show ?thesis by blast
qed

lemma effective_pool_ne: "xs \<noteq> [] \<Longrightarrow> effective_pool opts xs \<noteq> []"
  unfolding effective_pool_def Let_def by (rule first_nonempty_ne) (rule health_pool_ne)

lemma first_tier_subset: "first_tier xs ps = Some t \<Longrightarrow> set t \<subseteq> set xs \<and> t \<noteq> []"
  by (induction ps) (auto simp: Let_def split: if_splits)

lemma select_plan_tier_subset: "set (select_plan_tier xs ps) \<subseteq> set xs"
  using first_tier_subset by (fastforce simp: select_plan_tier_def Let_def split: option.splits if_splits)

lemma select_plan_tier_ne: "xs \<noteq> [] \<Longrightarrow> select_plan_tier xs ps \<noteq> []"
  using first_tier_subset[of xs] by (simp add: select_plan_tier_def Let_def split: option.splits)

lemma choose_account_mem: "sr_account (choose_account env opts xs) = Some a \<Longrightarrow> a \<in> set xs"
  using select_plan_tier_subset effective_pool_subset picks_apply_strategy[of env opts "effective_pool opts xs"]
  by (fastforce simp: choose_account_def split: if_splits dest: min_by_mem picks_SomeD)

lemma choose_account_some:
  assumes "xs \<noteq> []" "\<not> so_recoveryProbeOnly opts"
  shows "\<exists>a. sr_account (choose_account env opts xs) = Some a"
  using assms picks_nonempty[OF picks_apply_strategy effective_pool_ne[OF assms(1)]]
    min_by_Some[OF assms(1)] min_by_Some[OF effective_pool_ne[OF assms(1)]]
    min_by_Some[OF select_plan_tier_ne[OF assms(1)]]
  by (simp add: choose_account_def) (metis)

subsection \<open>The filter loop\<close>

text \<open>An account that may be given a request now.\<close>

definition serviceable :: "select_options \<Rightarrow> account_state \<Rightarrow> bool" where
  "serviceable opts s \<longleftrightarrow> st_status s \<noteq> DEACTIVATED \<and> st_status s \<noteq> PAUSED
     \<and> \<not> known_expired_reauth s (so_now opts)
     \<and> (limited_status s \<longrightarrow> quota_bypassed opts s)
     \<and> \<not> cooling_down (so_now opts) s"

lemma lift_status:
  "st_status (lift_quota c s) = RATE_LIMITED \<longleftrightarrow> st_status s = RATE_LIMITED"
  "st_status (lift_rate_limit c s) = QUOTA_EXCEEDED \<longleftrightarrow> st_status s = QUOTA_EXCEEDED"
  by (simp_all add: lift_quota_def lift_rate_limit_def)

definition lifted :: "real \<Rightarrow> account_state \<Rightarrow> account_state" where
  "lifted c s = lift_quota c (lift_rate_limit c s)"

lemma lifted_simps [simp]:
  "st_accountId (lifted c s) = st_accountId s" "st_ignoreStandardQuota (lifted c s) = st_ignoreStandardQuota s"
  "st_accessTokenExpiresAt (lifted c s) = st_accessTokenExpiresAt s" "st_cooldownUntil (lifted c s) = st_cooldownUntil s"
  "st_routingPolicy (lifted c s) = st_routingPolicy s" "st_planType (lifted c s) = st_planType s"
  "st_healthTier (lifted c s) = st_healthTier s" "st_lastSelectedAt (lifted c s) = st_lastSelectedAt s"
  by (simp_all add: lifted_def lift_quota_def lift_rate_limit_def)

lemma clear_cooldown_simps [simp]:
  "st_accountId (clear_cooldown c s) = st_accountId s" "st_ignoreStandardQuota (clear_cooldown c s) = st_ignoreStandardQuota s"
  "st_accessTokenExpiresAt (clear_cooldown c s) = st_accessTokenExpiresAt s" "st_status (clear_cooldown c s) = st_status s"
  "st_routingPolicy (clear_cooldown c s) = st_routingPolicy s" "st_planType (clear_cooldown c s) = st_planType s"
  "st_healthTier (clear_cooldown c s) = st_healthTier s" "st_lastSelectedAt (clear_cooldown c s) = st_lastSelectedAt s"
  "st_resetAt (clear_cooldown c s) = st_resetAt s" "st_usedPercent (clear_cooldown c s) = st_usedPercent s"
  by (simp_all add: clear_cooldown_def)

lemma lifted_status:
  "st_status (lifted c s) = (if limited_status s \<and> reset_due s c then ACTIVE else st_status s)"
  by (auto simp: lifted_def lift_quota_def lift_rate_limit_def reset_due_def limited_status_def)

text \<open>The loop body in one equation.\<close>

definition filtered_out :: "select_options \<Rightarrow> account_state \<Rightarrow> bool" where
  "filtered_out opts s \<longleftrightarrow> st_status s = DEACTIVATED \<or> st_status s = PAUSED \<or> known_expired_reauth s (so_now opts)
     \<or> (limited_status s \<and> \<not> reset_due s (so_now opts) \<and> \<not> quota_bypassed opts s)"

lemma recover_one_eq:
  "recover_one opts s = (if filtered_out opts s then (s, Skipped) else admit (so_now opts) (lifted (so_now opts) s))"
proof (cases "limited_status s \<and> reset_due s (so_now opts)")
  case True
  then show ?thesis
    by (auto simp: recover_one_def Let_def lifted_def lift_rate_limit_def lift_quota_def limited_status_def
        filtered_out_def known_expired_reauth_def)
next
  case False
  then have "lift_rate_limit (so_now opts) s = s" "lift_quota (so_now opts) s = s"
    by (auto simp: lift_rate_limit_def lift_quota_def limited_status_def)
  with False show ?thesis
    by (cases "st_status s") (auto simp: recover_one_def Let_def lifted_def limited_status_def filtered_out_def)
qed

lemma admit_cases:
  "admit c s = (s', v) \<Longrightarrow> v \<noteq> Skipped \<Longrightarrow> \<not> cooling_down c (clear_cooldown c s) \<and>
     (s' = clear_cooldown c s \<or> s' = (clear_cooldown c s)\<lparr>st_errorCount := 0, st_lastErrorAt := None\<rparr>)"
  by (auto simp: admit_def Let_def split: if_splits)

lemma recover_one_serviceable:
  assumes "recover_one opts s = (s', v)" "v \<noteq> Skipped"
  shows "serviceable opts s'"
proof -
  let ?c = "so_now opts" and ?p = "clear_cooldown (so_now opts) (lifted (so_now opts) s)"
  have ok: "\<not> filtered_out opts s" and a: "admit ?c (lifted ?c s) = (s', v)"
    using assms by (auto simp: recover_one_eq split: if_splits)
  from admit_cases[OF a assms(2)] have cool: "\<not> cooling_down ?c s'"
    and st: "st_status s' = st_status (lifted ?c s)" "st_accessTokenExpiresAt s' = st_accessTokenExpiresAt s"
      "quota_bypassed opts s' = quota_bypassed opts s"
    by (auto simp: quota_bypassed_def cooling_down_def)
  show ?thesis
    using ok cool st
    by (auto simp: serviceable_def limited_status_def known_expired_reauth_def filtered_out_def lifted_status
        split: if_splits)
qed

subsection \<open>The eligible pool\<close>

lemma with_verdict_iff:
  "a \<in> set (with_verdict v (map (recover_one opts) states)) \<longleftrightarrow> (\<exists>s \<in> set states. recover_one opts s = (a, v))"
  by (auto simp: with_verdict_def image_iff) (metis fst_conv prod.collapse)

lemma opportunistic_subset: "set (fst (filter_opportunistic_candidates xs c)) \<subseteq> set xs"
  by (auto simp: filter_opportunistic_candidates_def Let_def)

lemma narrow_cases:
  assumes "(if so_trafficClass opts = Opportunistic
      then (case filter_opportunistic_candidates pool c of
        ([], reason) \<Rightarrow> Inl (refused (BurnWindowClosed reason)) | (ps, _) \<Rightarrow> Inr ps)
      else Inr pool) = Inr ys" "pool \<noteq> []"
  shows "ys \<noteq> [] \<and> set ys \<subseteq> set pool \<and>
    (so_trafficClass opts = Opportunistic \<longrightarrow> ys = fst (filter_opportunistic_candidates pool c))"
  using assms opportunistic_subset[of pool c]
  by (auto split: if_splits prod.splits list.splits)

lemma eligible_pool_cases:
  assumes "eligible_pool opts states av bo = Inr pool"
  shows "pool \<noteq> [] \<and> (\<exists>src. (src = av \<or> (\<exists>b \<in> set bo. src = [b])) \<and> set pool \<subseteq> set src \<and>
    (so_trafficClass opts = Opportunistic \<longrightarrow> pool = fst (filter_opportunistic_candidates src (so_now opts))))"
proof (cases "av = []")
  case False
  with assms have "(if so_trafficClass opts = Opportunistic
      then (case filter_opportunistic_candidates av (so_now opts) of
        ([], reason) \<Rightarrow> Inl (refused (BurnWindowClosed reason)) | (ps, _) \<Rightarrow> Inr ps)
      else Inr av) = Inr pool"
    by (simp add: eligible_pool_def Let_def)
  from narrow_cases[OF this False] show ?thesis by blast
next
  case True
  with assms have "bo \<noteq> []" by (auto simp: eligible_pool_def Let_def split: if_splits)
  then obtain b where b: "b \<in> set bo"
    "min_by (\<lambda>s. [KNum (dflt (st_lastErrorAt s) 0 + backoff_for s)]) bo = Some b"
    using min_by_Some by blast
  with assms True have "(if so_trafficClass opts = Opportunistic
      then (case filter_opportunistic_candidates [b] (so_now opts) of
        ([], reason) \<Rightarrow> Inl (refused (BurnWindowClosed reason)) | (ps, _) \<Rightarrow> Inr ps)
      else Inr [b]) = Inr pool"
    by (auto simp: eligible_pool_def Let_def split: if_splits)
  from narrow_cases[OF this] show ?thesis using b(1) by blast
qed

lemma pool_usage_exhaustion_refuses:
  "pool_usage_exhaustion states c b ids = Some e \<Longrightarrow> sr_account e = None \<and> sr_errorMessage e \<noteq> None"
  by (auto simp: pool_usage_exhaustion_def Let_def split: if_splits)

lemma unavailable_refuses:
  "sr_account (unavailable_result opts states ex) = None \<and> sr_errorMessage (unavailable_result opts states ex) \<noteq> None"
proof (cases "if so_allowUsageExhaustionError opts
    then pool_usage_exhaustion ex (so_now opts) (so_ignoreStandardQuota opts) (so_bypassIds opts) else None")
  case None
  then show ?thesis
    by (simp add: unavailable_result_def Let_def if_distrib[of sr_account] if_distrib[of sr_errorMessage]
        if_distrib[of "\<lambda>x. x \<noteq> None"])
next
  case (Some e)
  then have "unavailable_result opts states ex = e"
    by (simp add: unavailable_result_def Let_def)
  with Some pool_usage_exhaustion_refuses show ?thesis by (metis option.distinct(1))
qed

lemma eligible_pool_refuses:
  assumes "eligible_pool opts states av bo = Inl e"
  shows "sr_account e = None \<and> sr_errorMessage e \<noteq> None"
  using assms unavailable_refuses
  by (auto simp: eligible_pool_def Let_def split: if_splits option.splits prod.splits list.splits)

lemma select_account_poolE:
  assumes "select_account env opts states = (states', r)" "sr_account r = Some a"
  obtains pool src where
    "eligible_pool opts states' (with_verdict Available (map (recover_one opts) states))
       (with_verdict InBackoff (map (recover_one opts) states)) = Inr pool"
    "r = choose_account env opts pool" "a \<in> set pool"
    "\<forall>x \<in> set pool. \<exists>s \<in> set states. \<exists>v. recover_one opts s = (x, v) \<and> v \<noteq> Skipped"
    "so_trafficClass opts = Opportunistic \<longrightarrow> pool = fst (filter_opportunistic_candidates src (so_now opts))"
proof -
  let ?rs = "map (recover_one opts) states"
  obtain pool where pool: "eligible_pool opts states' (with_verdict Available ?rs) (with_verdict InBackoff ?rs) = Inr pool"
    "r = choose_account env opts pool"
  proof (cases "eligible_pool opts states' (with_verdict Available ?rs) (with_verdict InBackoff ?rs)")
    case (Inl e)
    with assms(1) have "r = e" by (auto simp: select_account_def Let_def comp_def)
    with assms(2) eligible_pool_refuses[OF Inl] show ?thesis by simp
  next
    case (Inr pool)
    with assms(1) have "r = choose_account env opts pool" by (auto simp: select_account_def Let_def comp_def)
    with Inr that show ?thesis by blast
  qed
  from eligible_pool_cases[OF pool(1)] obtain src where src:
    "src = with_verdict Available ?rs \<or> (\<exists>b \<in> set (with_verdict InBackoff ?rs). src = [b])" "set pool \<subseteq> set src"
    "so_trafficClass opts = Opportunistic \<longrightarrow> pool = fst (filter_opportunistic_candidates src (so_now opts))"
    by blast
  have "\<exists>s \<in> set states. \<exists>v. recover_one opts s = (x, v) \<and> v \<noteq> Skipped" if "x \<in> set pool" for x
    using src(1,2) that by (auto simp: with_verdict_iff dest!: subsetD) blast+
  then show ?thesis using that[of pool src] pool src(3) choose_account_mem assms(2) by blast
qed

subsection \<open>A concrete router for the witnesses\<close>

definition demo_env :: router_env where
  "demo_env = \<lparr>re_sha = (\<lambda>x. x), re_configuredSalt = None, re_hostname = ''h''\<rparr>"

definition demo_opts :: select_options where
  "demo_opts = (default_options 100)\<lparr>so_routingStrategy := SINGLE_ACCOUNT\<rparr>"

lemma demo_selection:
  "select_account demo_env demo_opts [blank_account ''a''] = ([blank_account ''a''], chosen (Some (blank_account ''a'')))"
  by code_simp

subsection \<open>Properties of the selection\<close>

text \<open>
  C26. Safety of the selection. An account \<open>selectAccount\<close> returns is one of the accounts it was given
  (as it left them), and it can serve now: it is not paused or deactivated, its rejected login is not
  expired, it is not rate limited or out of quota unless the request bypasses the standard quota, and
  it is not cooling down. This holds for every strategy, for plan tiers, for probes and for the
  fallback to accounts in error backoff.
\<close>

theorem select_account_sound:
  assumes "select_account env opts states = (states', r)" "sr_account r = Some a"
  shows "a \<in> set states' \<and> serviceable opts a"
proof -
  obtain s v where "s \<in> set states" "recover_one opts s = (a, v)" "v \<noteq> Skipped"
    using select_account_poolE[OF assms] by metis
  moreover have "states' = map (fst \<circ> recover_one opts) states"
    using assms(1) by (auto simp: select_account_def Let_def)
  ultimately show ?thesis using recover_one_serviceable by force
qed

theorem select_account_sound_witness: "serviceable demo_opts (blank_account ''a'')"
  using select_account_sound[OF demo_selection, of "blank_account ''a''"] by simp

lemma select_account_by_list:
  "select_account env opts states =
     (map (fst \<circ> recover_one opts) states, snd (select_account env opts states))"
  by (simp add: select_account_def Let_def)




lemma chosen_or_message:
  "sr_account (choose_account env opts pool) = None \<Longrightarrow> pool \<noteq> [] \<Longrightarrow> so_recoveryProbeOnly opts"
  using choose_account_some[of pool opts env] by auto

text \<open>
  Every refusal is explained. Unless the caller asked for a recovery probe only, a result without
  an account carries an error message, and a result with an account carries none.
\<close>

theorem select_account_explains:
  assumes "\<not> so_recoveryProbeOnly opts"
  shows "sr_account (snd (select_account env opts states)) = None \<longleftrightarrow>
    sr_errorMessage (snd (select_account env opts states)) \<noteq> None"
proof -
  let ?rs = "map (recover_one opts) states"
  let ?e = "eligible_pool opts (map fst ?rs) (with_verdict Available ?rs) (with_verdict InBackoff ?rs)"
  show ?thesis
  proof (cases ?e)
    case (Inl e)
    from eligible_pool_refuses[OF Inl] Inl show ?thesis by (simp add: select_account_def Let_def)
  next
    case (Inr pool)
    then have "pool \<noteq> []" using eligible_pool_cases by blast
    then have "sr_account (choose_account env opts pool) \<noteq> None" using assms chosen_or_message by blast
    moreover have "sr_errorMessage (choose_account env opts pool) = None"
      by (simp add: choose_account_def)
    ultimately show ?thesis using Inr by (simp add: select_account_def Let_def)
  qed
qed

theorem select_account_explains_witness:
  "sr_errorMessage (snd (select_account demo_env (default_options 100) [])) \<noteq> None"
proof -
  have "sr_account (snd (select_account demo_env (default_options 100) [])) = None" by code_simp
  then show ?thesis using select_account_explains[of "default_options 100" demo_env "[]"] by (simp add: default_options_def)
qed

end
