(* ===== verification/Balancer_Strategies.thy ===== *)
theory Balancer_Strategies
  imports Balancer_Props
begin

text \<open>
  What the individual strategies of \<open>selectAccount\<close> optimise, and facts about the filter loop that
  the account pool relies on: it is idempotent at one instant and lifts a limit only once the limit's
  reset time has passed.
\<close>

subsection \<open>The filter loop again\<close>

lemma clear_cooldown_idem: "clear_cooldown c (clear_cooldown c s) = clear_cooldown c s"
  by (simp add: clear_cooldown_def)

lemma lifted_id: "\<not> (limited_status s \<and> reset_due s c) \<Longrightarrow> lifted c s = s"
  by (auto simp: lifted_def lift_quota_def lift_rate_limit_def limited_status_def)

lemma clear_cooldown_zero:
  "clear_cooldown c ((clear_cooldown c s)\<lparr>st_errorCount := 0, st_lastErrorAt := None\<rparr>)
     = (clear_cooldown c s)\<lparr>st_errorCount := 0, st_lastErrorAt := None\<rparr>"
  by (simp add: clear_cooldown_def)

lemma admit_idem:
  assumes "admit c s = (s', v)"
  shows "admit c s' = (s', v)"
proof -
  define p where "p = clear_cooldown c s"
  have cc: "clear_cooldown c p = p" by (simp add: p_def clear_cooldown_idem)
  have cz: "clear_cooldown c (p\<lparr>st_errorCount := 0, st_lastErrorAt := None\<rparr>) = p\<lparr>st_errorCount := 0, st_lastErrorAt := None\<rparr>"
    unfolding p_def by (rule clear_cooldown_zero)
  have adm: "admit c q = (if cooling_down c q then (q, Skipped)
      else if st_errorCount q \<ge> 3 then if in_error_backoff c q then (q, InBackoff)
        else (q\<lparr>st_errorCount := 0, st_lastErrorAt := None\<rparr>, Available) else (q, Available))"
    if "clear_cooldown c q = q" for q
    by (simp only: admit_def Let_def that)
  have adm_s: "admit c s = admit c p"
    by (simp only: admit_def p_def clear_cooldown_idem)
  have zero: "admit c (p\<lparr>st_errorCount := 0, st_lastErrorAt := None\<rparr>) = (p\<lparr>st_errorCount := 0, st_lastErrorAt := None\<rparr>, Available)"
    if "\<not> cooling_down c p"
    using that by (simp add: adm[OF cz]) (simp add: cooling_down_def)
  have same: "admit c s' = (s', v)" if "s' = p"
    using assms that adm_s by simp
  from assms have "s' = p \<or> (\<not> cooling_down c p \<and> v = Available \<and> s' = p\<lparr>st_errorCount := 0, st_lastErrorAt := None\<rparr>)"
    unfolding adm_s adm[OF cc] by (simp split: if_splits)
  then show ?thesis using same zero by blast
qed

lemma admit_fields:
  "admit c s = (s', v) \<Longrightarrow> st_status s' = st_status s \<and> st_resetAt s' = st_resetAt s \<and>
     st_accountId s' = st_accountId s \<and> st_ignoreStandardQuota s' = st_ignoreStandardQuota s \<and>
     st_accessTokenExpiresAt s' = st_accessTokenExpiresAt s \<and> st_routingPolicy s' = st_routingPolicy s \<and>
     st_planType s' = st_planType s \<and> st_healthTier s' = st_healthTier s \<and>
     st_lastSelectedAt s' = st_lastSelectedAt s \<and> st_usedPercent s' = st_usedPercent s"
  by (auto simp: admit_def Let_def split: if_splits)

lemma recover_one_identity:
  assumes "recover_one opts s = (s', v)"
  shows "st_accountId s' = st_accountId s" "st_routingPolicy s' = st_routingPolicy s" "st_planType s' = st_planType s"
    "st_healthTier s' = st_healthTier s" "st_lastSelectedAt s' = st_lastSelectedAt s"
  using assms admit_fields[of "so_now opts" "lifted (so_now opts) s" s' v]
  by (auto simp: recover_one_eq split: if_splits)

text \<open>
  The filter is idempotent: selecting again at the same instant finds every account in the state
  the first selection left it in, and puts it on the same list.
\<close>

theorem recover_one_idempotent: "recover_one opts (fst (recover_one opts s)) = recover_one opts s"
proof (cases "filtered_out opts s")
  case True
  then show ?thesis by (simp add: recover_one_eq)
next
  case False
  obtain s' v where a: "admit (so_now opts) (lifted (so_now opts) s) = (s', v)" by fastforce
  note f = admit_fields[OF a] lifted_status[of "so_now opts" s]
  have due: "\<not> (limited_status s' \<and> reset_due s' (so_now opts))"
  proof (cases "limited_status s \<and> reset_due s (so_now opts)")
    case True
    then show ?thesis using f by (simp add: limited_status_def)
  next
    case no: False
    then have "lifted (so_now opts) s = s" by (rule lifted_id)
    then show ?thesis using f no by (auto simp: limited_status_def reset_due_def)
  qed
  have nf: "\<not> filtered_out opts s'"
    using False f lifted_id[of s "so_now opts"]
    by (auto simp: filtered_out_def known_expired_reauth_def limited_status_def reset_due_def quota_bypassed_def
        split: if_splits)
  show ?thesis
    using False nf a admit_idem[OF a] lifted_id[OF due] by (simp add: recover_one_eq)
qed

text \<open>
  The filter changes an account's status in one way only: a rate limit or a used-up quota becomes
  active, and only once its reset time, which the account names, has passed.
\<close>

theorem recover_one_status:
  assumes "recover_one opts s = (s', v)"
  shows "st_status s' = st_status s \<or>
    (st_status s \<in> {RATE_LIMITED, QUOTA_EXCEEDED} \<and> st_status s' = ACTIVE \<and> st_resetAt s' = None \<and>
     (\<exists>r. st_resetAt s = Some r \<and> r \<le> so_now opts))"
proof -
  let ?c = "so_now opts"
  have "st_resetAt (lifted ?c s) = None" if "limited_status s \<and> reset_due s ?c"
    using that by (auto simp: lifted_def lift_quota_def lift_rate_limit_def limited_status_def)
  moreover have "\<exists>r. st_resetAt s = Some r \<and> r \<le> ?c" if "reset_due s ?c"
    using that by (auto simp: reset_due_def elim: truthyE)
  ultimately show ?thesis
    using assms admit_fields[of ?c "lifted ?c s" s' v] lifted_status[of ?c s]
    by (auto simp: recover_one_eq limited_status_def split: if_splits)
qed

theorem recover_one_status_witness:
  "\<exists>s' v. recover_one (default_options 100) ((blank_account ''a'')\<lparr>st_status := RATE_LIMITED, st_resetAt := Some 90\<rparr>) = (s', v)
     \<and> st_status s' = ACTIVE"
proof -
  let ?s = "(blank_account ''a'')\<lparr>st_status := RATE_LIMITED, st_resetAt := Some 90\<rparr>"
  obtain s' v where r: "recover_one (default_options 100) ?s = (s', v)" by fastforce
  from recover_one_status[OF r] r show ?thesis
    by (auto simp: recover_one_def Let_def blank_account_def default_options_def known_expired_reauth_def
        lift_rate_limit_def lift_quota_def reset_due_def admit_def clear_cooldown_def cooling_down_def)
qed

subsection \<open>Opportunistic traffic keeps a reserve\<close>

lemma opportunistic_member:
  "x \<in> set (fst (filter_opportunistic_candidates src c)) \<Longrightarrow> x \<in> set src \<and> burn_candidate src c x"
  by (auto simp: filter_opportunistic_candidates_def Let_def split: if_splits)

lemma weekly_floor_ge: "5 \<le> weekly_pace_floor_pct s c"
  by (auto simp: weekly_pace_floor_pct_def Let_def split: option.splits)

lemma short_floor_ge: "10 \<le> short_window_floor_pct s c n"
  by (auto simp: short_window_floor_pct_def Let_def split: option.splits)

text \<open>
  Opportunistic traffic never uses an account marked \<open>preserve\<close> whose reserve is small or
  unknown: such an account is only picked with more than 5% of its weekly quota and more than 10% of
  its short window left.
\<close>

theorem opportunistic_preserves_reserve:
  assumes "select_account env opts states = (states', r)" "sr_account r = Some a"
    and "so_trafficClass opts = Opportunistic" "routing_policy_of a = Preserve"
  shows "\<exists>weekly short. remaining_pct a True = Some weekly \<and> 5 < weekly \<and>
    remaining_pct a False = Some short \<and> 10 < short"
proof -
  obtain pool src where "a \<in> set pool" "pool = fst (filter_opportunistic_candidates src (so_now opts))"
    using select_account_poolE[OF assms(1,2)] assms(3) by metis
  then have "preserve_allows_opportunistic_burn a (so_now opts) (preserve_count src)"
    using opportunistic_member assms(4) by (fastforce simp: burn_candidate_def)
  then show ?thesis
    using weekly_floor_ge[of a "so_now opts"] short_floor_ge[of a "so_now opts" "preserve_count src"]
    by (cases "remaining_pct a True"; cases "remaining_pct a False")
      (auto simp: preserve_allows_opportunistic_burn_def split: if_splits)
qed

definition demo_reserve :: account_state where
  "demo_reserve = (blank_account ''a'')\<lparr>st_routingPolicy := Some Preserve, st_usedPercent := Some 10,
     st_secondaryUsedPercent := Some 10, st_resetAt := Some 2000, st_secondaryResetAt := Some 300000\<rparr>"

theorem opportunistic_preserves_reserve_witness:
  "\<exists>weekly. remaining_pct demo_reserve True = Some weekly \<and> 5 < weekly"
proof -
  have "select_account demo_env (demo_opts\<lparr>so_trafficClass := Opportunistic\<rparr>) [demo_reserve] = ([demo_reserve], chosen (Some demo_reserve))"
    by code_simp
  from opportunistic_preserves_reserve[OF this] show ?thesis
    by (force simp: demo_reserve_def routing_policy_of_def chosen_def demo_opts_def default_options_def)
qed

subsection \<open>Plan tiers\<close>

definition plan_rank :: "string list \<Rightarrow> account_state \<Rightarrow> nat" where
  "plan_rank prio s = tier_index (js_uniq (map (\<lambda>p. normalize_plan_priority_type (Some p)) prio)) s"

lemma tier_index_Cons:
  "tier_index (t # ts) s = (if t = normalize_plan_priority_type (st_planType s) then 0 else Suc (tier_index ts s))"
  by (simp add: tier_index_def)

lemma tier_index_absent: "normalize_plan_priority_type (st_planType s) \<notin> set ts \<Longrightarrow> tier_index ts s = length ts"
  by (induction ts) (auto simp: tier_index_Cons tier_index_def[of "[]"])

lemma tier_index_le: "tier_index ts s \<le> length ts"
  by (simp add: tier_index_def length_takeWhile_le)

lemma first_tier_rank:
  assumes "first_tier xs ts = Some tier" "a \<in> set tier" "b \<in> set xs"
  shows "tier_index ts a \<le> tier_index ts b \<and> (tier_index ts a = tier_index ts b \<longrightarrow> b \<in> set tier)"
  using assms
proof (induction ts)
  case (Cons t ts)
  then show ?case by (auto simp: tier_index_Cons Let_def filter_empty_conv split: if_splits)
qed simp

lemma first_tier_None: "first_tier xs ts = None \<Longrightarrow> b \<in> set xs \<Longrightarrow> normalize_plan_priority_type (st_planType b) \<notin> set ts"
  by (induction ts) (auto simp: Let_def filter_empty_conv split: if_splits)

lemma select_plan_tier_rank:
  assumes "a \<in> set (select_plan_tier xs prio)" "b \<in> set xs"
  shows "plan_rank prio a \<le> plan_rank prio b \<and> (plan_rank prio a = plan_rank prio b \<longrightarrow> b \<in> set (select_plan_tier xs prio))"
proof -
  define ts where "ts = js_uniq (map (\<lambda>p. normalize_plan_priority_type (Some p)) prio)"
  have rank: "plan_rank prio s = tier_index ts s" for s by (simp add: plan_rank_def ts_def)
  show ?thesis
  proof (cases "first_tier xs ts")
    case None
    have "tier_index ts s = length ts" if "s \<in> set xs" for s
      using first_tier_None[OF None that] by (rule tier_index_absent)
    moreover have "set (select_plan_tier xs prio) = set xs"
      using first_tier_None[OF None] None
      by (auto simp: select_plan_tier_def Let_def ts_def[symmetric] filter_empty_conv)
    ultimately show ?thesis using assms rank by simp
  next
    case (Some tier)
    then have "ts \<noteq> []" by (cases ts) auto
    with Some have "select_plan_tier xs prio = tier"
      by (simp add: select_plan_tier_def Let_def ts_def[symmetric])
    then show ?thesis using first_tier_rank[OF Some] assms rank by simp
  qed
qed

lemma plan_priority_shape: "has_shape [NumberKind, NumberKind, StringKind] (plan_priority_key s)"
  by (simp add: plan_priority_key_def Let_def)

text \<open>
  Strict plan tiers. With a plan priority set (and no weekly pace), the account chosen from a
  non-empty pool belongs to the earliest tier that still has an account, and no account of that tier
  has used less of its short window.
\<close>

theorem plan_priority_strict:
  assumes "so_planPriority opts \<noteq> []" "\<not> so_weeklyPace opts"
    and "sr_account (choose_account env opts pool) = Some a" "b \<in> set pool"
  shows "plan_rank (so_planPriority opts) a \<le> plan_rank (so_planPriority opts) b \<and>
    (plan_rank (so_planPriority opts) a = plan_rank (so_planPriority opts) b \<longrightarrow>
     dflt (st_usedPercent a) 0 \<le> dflt (st_usedPercent b) 0)"
proof -
  let ?tier = "select_plan_tier pool (so_planPriority opts)"
  have m: "min_by plan_priority_key ?tier = Some a"
    using assms(1-3) by (simp add: choose_account_def)
  note least = min_by_least[OF m plan_priority_shape]
  have "dflt (st_usedPercent a) 0 \<le> dflt (st_usedPercent b) 0" if "b \<in> set ?tier"
  proof -
    have "compare_keys (plan_priority_key a) (plan_priority_key b) \<le> 0" using least that by blast
    then show ?thesis unfolding plan_priority_key_def Let_def compare_num_le by auto
  qed
  then show ?thesis using select_plan_tier_rank[of a pool "so_planPriority opts" b] least assms(4) by blast
qed

theorem plan_priority_strict_witness:
  "plan_rank [''plus''] ((blank_account ''a'')\<lparr>st_planType := Some ''plus''\<rparr>) \<le> plan_rank [''plus''] (blank_account ''b'')"
proof -
  have "sr_account (choose_account demo_env ((default_options 100)\<lparr>so_planPriority := [''plus'']\<rparr>)
    [blank_account ''b'', (blank_account ''a'')\<lparr>st_planType := Some ''plus''\<rparr>]) = Some ((blank_account ''a'')\<lparr>st_planType := Some ''plus''\<rparr>)"
    by code_simp
  from plan_priority_strict[OF _ _ this] show ?thesis by (simp add: default_options_def)
qed

subsection \<open>Weighted draws\<close>

lemma weighted_loop_positive:
  assumes "length xs = length ws" "\<forall>w \<in> set ws. 0 \<le> w" "0 \<le> t" "t < sum_list ws"
  shows "\<exists>x w. weighted_loop xs ws t = Some x \<and> (x, w) \<in> set (zip xs ws) \<and> 0 < w"
  using assms
proof (induction xs ws t rule: weighted_loop.induct)
  case (1 x xs w ws t)
  show ?case
  proof (cases "t - w < 0")
    case True
    with "1.prems" show ?thesis by (auto simp: Let_def)
  next
    case False
    with "1.prems" have "0 \<le> t - w" "t - w < sum_list ws" by auto
    with "1.IH"[OF refl False] "1.prems" False show ?thesis by (auto simp: Let_def)
  qed
qed auto

lemma weighted_choice_positive:
  assumes "length xs = length ws" "\<forall>w \<in> set ws. 0 \<le> w" "0 < sum_list ws" "0 \<le> rnd" "rnd < 1"
  shows "\<exists>x w. weighted_choice xs ws rnd = Some x \<and> (x, w) \<in> set (zip xs ws) \<and> 0 < w"
proof -
  have "rnd * sum_list ws < sum_list ws" using assms by (simp add: mult_less_cancel_right1)
  moreover have "xs \<noteq> []" using assms(1,3) by auto
  ultimately show ?thesis
    using weighted_loop_positive[OF assms(1,2), of "rnd * sum_list ws"] assms(3,4)
    by (auto simp: weighted_choice_def)
qed

lemma positive_items_weight:
  "x \<in> set (positive_items xs (map f xs)) \<Longrightarrow> 0 < (f x :: real)"
  by (induction xs) (auto simp: positive_items_def split: if_splits)

lemma zip_map_self: "(x, w) \<in> set (zip xs (map f xs)) \<Longrightarrow> w = f x"
  by (induction xs) auto

lemma credits_nonneg: "0 \<le> remaining_secondary_credits s"
  by (simp add: remaining_secondary_credits_def Let_def split: option.split)

lemma multiplier_bounds: "0 \<le> selection_weight_multiplier s" "selection_weight_multiplier s \<le> 1"
  by (auto simp: selection_weight_multiplier_def Let_def)

text \<open>
  Capacity-weighted routing never draws an account without weekly credits, or one whose weight was
  turned to zero by recent errors, as long as some account has a positive weight; this holds for the
  random draw and for the seeded one.
\<close>

theorem capacity_weighted_positive:
  assumes "s \<in> set available" "0 < remaining_secondary_credits s * selection_weight_multiplier s"
    and "0 \<le> rnd" "rnd < 1" "select_capacity_weighted sha available rnd seed = Some a"
  shows "0 < remaining_secondary_credits a \<and> 0 < selection_weight_multiplier a"
proof -
  define f where "f = (\<lambda>s. remaining_secondary_credits s * selection_weight_multiplier s)"
  have nn: "\<forall>w \<in> set (map f available). 0 \<le> w"
    using credits_nonneg multiplier_bounds by (auto simp: f_def)
  have pos: "0 < sum_list (map f available)"
  proof -
    have "f s \<noteq> 0" unfolding f_def using assms(2) by linarith
    then have "sum_list (map f available) \<noteq> 0"
      using sum_list_nonneg_eq_0_iff[of "map f available"] nn assms(1) by auto
    moreover have "0 \<le> sum_list (map f available)" using nn by (intro sum_list_nonneg) blast
    ultimately show ?thesis by simp
  qed
  have "0 < f a"
  proof (cases seed)
    case None
    then have "weighted_choice available (map f available) rnd = Some a"
      using assms(5) pos by (simp add: select_capacity_weighted_def Let_def f_def)
    with weighted_choice_positive[OF _ nn pos assms(3,4)] zip_map_self show ?thesis by fastforce
  next
    case (Some sd)
    then have "seeded_account sha (positive_items available (map f available)) sd = Some a"
      using assms(5) pos by (simp add: select_capacity_weighted_def Let_def f_def)
    then have "a \<in> set (positive_items available (map f available))"
      unfolding seeded_account_def by (rule min_by_mem)
    then show ?thesis by (rule positive_items_weight)
  qed
  then show ?thesis
    using credits_nonneg[of a] multiplier_bounds[of a] by (auto simp: f_def zero_less_mult_iff)
qed

theorem capacity_weighted_positive_witness:
  "0 < remaining_secondary_credits (blank_account ''a'')"
proof -
  have *: "0 < remaining_secondary_credits (blank_account ''a'') * selection_weight_multiplier (blank_account ''a'')" by code_simp
  have "select_capacity_weighted (\<lambda>x. x) [blank_account ''a''] 0 None = Some (blank_account ''a'')" by code_simp
  from capacity_weighted_positive[OF _ * _ _ this] show ?thesis by simp
qed

subsection \<open>Seeded choice\<close>

lemma seeded_shape: "has_shape [StringKind] [KStr x]"
  by simp

text \<open>
  Seeded selection is sticky under pool changes. If the tie-breaker hashes of the pool differ, an
  account chosen for a seed stays chosen when any other accounts leave the pool: a held conversation
  moves only when its own account is gone.
\<close>

theorem seeded_account_stable:
  assumes "inj_on (\<lambda>s. decorrelated_tie_breaker sha (st_accountId s) seed) (set pool)"
    and "seeded_account sha pool seed = Some a" "set pool' \<subseteq> set pool" "a \<in> set pool'"
  shows "seeded_account sha pool' seed = Some a"
proof -
  let ?k = "\<lambda>s. [KStr (decorrelated_tie_breaker sha (st_accountId s) seed)]"
  obtain b where b: "min_by ?k pool' = Some b" "b \<in> set pool'"
    using min_by_Some[of pool' ?k] assms(4) by fastforce
  have "min_by ?k pool = Some a" using assms(2) by (simp add: seeded_account_def)
  from min_by_least[OF this seeded_shape] assms(3) b(2) have "compare_keys (?k a) (?k b) \<le> 0" by blast
  moreover from min_by_least[OF b(1) seeded_shape] assms(4) have "compare_keys (?k b) (?k a) \<le> 0" by blast
  ultimately have "decorrelated_tie_breaker sha (st_accountId a) seed = decorrelated_tie_breaker sha (st_accountId b) seed"
    unfolding compare_str_le by (metis less_asym)
  then have "a = b" using assms(1,3,4) b(2) by (auto dest: inj_onD)
  then show ?thesis using b(1) by (simp add: seeded_account_def)
qed

theorem seeded_account_stable_witness:
  "seeded_account (\<lambda>x. x) [blank_account ''a''] ''s'' = Some (blank_account ''a'')"
proof -
  have *: "seeded_account (\<lambda>x. x) [blank_account ''b'', blank_account ''a''] ''s'' = Some (blank_account ''a'')" by code_simp
  show ?thesis
    by (rule seeded_account_stable[OF _ *]) (auto simp: inj_on_def decorrelated_tie_breaker_def blank_account_def)
qed

end
