(* ===== verification/Balancer_Health.thy ===== *)
theory Balancer_Health
  imports Balancer_Strategies
begin

text \<open>
  The transitions of an account outside the selection (\<open>packages/gateway/src/router/balancer.ts\<close>, from
  \<open>plausibleRateLimitResetAt\<close> on): what a rate limit, a used-up quota and a permanent failure do to it,
  the waits and the decision of a retry, and the health tiers.
\<close>

subsection \<open>Reset times\<close>

record upstream_error =
  ue_message :: "string option"
  ue_resetsAt :: "real option"
  ue_resetsInSeconds :: "real option"

abbreviation (input) RATE_LIMITED_MIN_COOLDOWN_SECONDS :: real where "RATE_LIMITED_MIN_COOLDOWN_SECONDS \<equiv> 30"
abbreviation (input) QUOTA_EXCEEDED_COOLDOWN_SECONDS :: real where "QUOTA_EXCEEDED_COOLDOWN_SECONDS \<equiv> 120"

definition plausible_rate_limit_reset_at :: "real option \<Rightarrow> real \<Rightarrow> bool \<Rightarrow> real option" where
  "plausible_rate_limit_reset_at resetAt now allowRoundingSlack = (case resetAt of None \<Rightarrow> None
     | Some r \<Rightarrow> (let horizon = RATE_LIMIT_RESET_MAX_HORIZON_SECONDS + (if allowRoundingSlack then 1 else 0)
         in if r \<le> now \<or> r > now + horizon then None else Some r))"

definition extract_reset_at :: "upstream_error \<Rightarrow> real \<Rightarrow> real option" where
  "extract_reset_at error now = (case plausible_rate_limit_reset_at (ue_resetsAt error) now False of
       Some r \<Rightarrow> plausible_rate_limit_reset_at (Some (js_ceil r)) now True
     | None \<Rightarrow> (case ue_resetsInSeconds error of None \<Rightarrow> None
         | Some resetIn \<Rightarrow> if resetIn \<le> 0 \<or> resetIn > RATE_LIMIT_RESET_MAX_HORIZON_SECONDS then None
             else plausible_rate_limit_reset_at (Some (js_ceil (now + resetIn))) now True))"

lemma plausible_bounds:
  "plausible_rate_limit_reset_at x now b = Some r \<Longrightarrow> now < r \<and> r \<le> now + RATE_LIMIT_RESET_MAX_HORIZON_SECONDS + 1"
  by (auto simp: plausible_rate_limit_reset_at_def Let_def split: option.splits if_splits)

lemma extract_reset_at_bounds:
  "extract_reset_at e now = Some r \<Longrightarrow> now < r \<and> r \<le> now + RATE_LIMIT_RESET_MAX_HORIZON_SECONDS + 1"
  by (auto simp: extract_reset_at_def dest: plausible_bounds split: option.splits if_splits)

subsection \<open>Failures\<close>

text \<open>\<open>error.message ? parseRetryAfter(error.message) : null\<close>: an empty message has no hint.\<close>

definition retry_hint :: "upstream_error \<Rightarrow> real option" where
  "retry_hint error = (case ue_message error of None \<Rightarrow> None
     | Some m \<Rightarrow> if m = [] then None else parse_retry_after m)"

definition handle_rate_limit :: "account_state \<Rightarrow> upstream_error \<Rightarrow> real \<Rightarrow> real \<Rightarrow> account_state" where
  "handle_rate_limit s error now rnd =
     (let errorCount = st_errorCount s + 1;
          resetAt = extract_reset_at error now;
          delay = dflt (retry_hint error) (backoff_seconds errorCount rnd);
          persistedDelay = (if retry_hint error = None then max delay RATE_LIMITED_MIN_COOLDOWN_SECONDS else delay)
      in s\<lparr>st_status := RATE_LIMITED, st_errorCount := errorCount, st_lastErrorAt := Some now, st_blockedAt := Some now,
           st_cooldownUntil := Some (now + delay),
           st_resetAt := Some (dflt resetAt (js_ceil (now + persistedDelay)))\<rparr>)"

definition handle_quota_exceeded :: "account_state \<Rightarrow> upstream_error \<Rightarrow> real \<Rightarrow> account_state" where
  "handle_quota_exceeded s error now =
     s\<lparr>st_status := QUOTA_EXCEEDED, st_usedPercent := Some 100, st_blockedAt := Some now,
       st_cooldownUntil := Some (now + QUOTA_EXCEEDED_COOLDOWN_SECONDS),
       st_resetAt := Some (dflt (extract_reset_at error now) (js_trunc (now + 3600)))\<rparr>"

definition permanent_failure_codes :: "(string \<times> string) list" where
  "permanent_failure_codes =
     [(''refresh_token_expired'', ''Refresh token expired - re-login required''),
      (''refresh_token_reused'', ''Refresh token was reused - re-login required''),
      (''refresh_token_invalidated'', ''Refresh token was revoked - re-login required''),
      (''invalid_grant'', ''Refresh token grant invalid - re-login required''),
      (''token_invalidated'', ''Authentication token invalidated - re-login required''),
      (''token_expired'', ''Authentication token expired - re-login required''),
      (''app_session_terminated'', ''ChatGPT session ended - re-login required''),
      (''account_session_expired'', ''ChatGPT session ended - re-login required''),
      (''account_auth_invalidated'', ''Authentication failed after token refresh - re-login required''),
      (''invalid_refresh_token'', ''Refresh token invalid - re-login required''),
      (''account_deactivated'', ''Account has been deactivated''),
      (''account_suspended'', ''Account has been suspended''),
      (''account_deleted'', ''Account has been deleted'')]"

definition reauth_required_failure_codes :: "string list" where
  "reauth_required_failure_codes =
     [''refresh_token_expired'', ''refresh_token_reused'', ''refresh_token_invalidated'', ''invalid_grant'',
      ''token_invalidated'', ''token_expired'', ''app_session_terminated'', ''account_session_expired'',
      ''account_auth_invalidated'', ''invalid_refresh_token'']"

definition account_status_for_permanent_failure :: "string \<Rightarrow> account_status" where
  "account_status_for_permanent_failure code =
     (if code \<in> set reauth_required_failure_codes then REAUTH_REQUIRED else DEACTIVATED)"

definition handle_permanent_failure :: "account_state \<Rightarrow> string \<Rightarrow> account_state" where
  "handle_permanent_failure s code =
     s\<lparr>st_status := account_status_for_permanent_failure code,
       st_deactivationReason := Some (dflt (map_of permanent_failure_codes code) (''Authentication failed: '' @ code)),
       st_blockedAt := None\<rparr>"

subsection \<open>Retries\<close>

definition burst_same_account_backoff_seconds :: "nat \<Rightarrow> real option \<Rightarrow> real" where
  "burst_same_account_backoff_seconds retryIndex retryAfterSeconds =
     (let exponential = 1 * 2 ^ (max retryIndex 1 - 1);
          floor0 = (case retryAfterSeconds of Some r \<Rightarrow> if r > 0 then r else 0 | None \<Rightarrow> 0)
      in min 10 (max floor0 exponential))"

datatype failure_class = RateLimitFailure | QuotaFailure | RetryableTransient | NonRetryable
datatype failover_action = FailoverNext | RetrySameAccount | Surface

record failover_input =
  fi_failureClass :: failure_class
  fi_downstreamVisible :: bool
  fi_candidatesRemaining :: int
  fi_ownerBound :: bool
  fi_sameAccountRetryAvailable :: bool

definition failover_decision :: "failover_input \<Rightarrow> failover_action" where
  "failover_decision i =
     (if fi_downstreamVisible i then Surface
      else if fi_ownerBound i then (if fi_sameAccountRetryAvailable i then RetrySameAccount else Surface)
      else if fi_candidatesRemaining i \<le> 0 then Surface
      else if fi_failureClass i = NonRetryable then Surface else FailoverNext)"

subsection \<open>Health tiers\<close>

definition should_drain :: "account_state \<Rightarrow> real \<Rightarrow> bool" where
  "should_drain s current =
     ((case st_usedPercent s of Some u \<Rightarrow> u \<ge> 85 | None \<Rightarrow> False)
      \<or> (case st_secondaryUsedPercent s of Some u \<Rightarrow> u \<ge> 90 | None \<Rightarrow> False)
      \<or> (st_errorCount s \<ge> 2 \<and> (case st_lastErrorAt s of Some t \<Rightarrow> current - t < 60 | None \<Rightarrow> False)))"

definition evaluate_health_tier :: "account_state \<Rightarrow> real \<Rightarrow> real option \<Rightarrow> nat \<Rightarrow> nat" where
  "evaluate_health_tier s current drainEnteredAt probeSuccessStreak =
     (if st_status s \<in> {RATE_LIMITED, QUOTA_EXCEEDED, PAUSED, DEACTIVATED} then st_healthTier s
      else if st_healthTier s = HEALTH_TIER_HEALTHY
        then if should_drain s current then HEALTH_TIER_DRAINING else HEALTH_TIER_HEALTHY
      else if st_healthTier s = HEALTH_TIER_DRAINING
        then if should_drain s current then HEALTH_TIER_DRAINING
          else (case drainEnteredAt of Some t \<Rightarrow> if current - t \<ge> PROBE_QUIET_SECONDS then HEALTH_TIER_PROBING else HEALTH_TIER_DRAINING
            | None \<Rightarrow> HEALTH_TIER_DRAINING)
      else if st_healthTier s = HEALTH_TIER_PROBING
        then if should_drain s current then HEALTH_TIER_DRAINING
          else if probeSuccessStreak \<ge> 3 then HEALTH_TIER_HEALTHY else HEALTH_TIER_PROBING
      else HEALTH_TIER_HEALTHY)"

subsection \<open>Properties\<close>

lemma limited_skipped:
  assumes "limited_status s" "st_resetAt s = Some r" "so_now opts < r" "\<not> quota_bypassed opts s"
  shows "recover_one opts s = (s, Skipped)"
  using assms by (auto simp: recover_one_eq filtered_out_def reset_due_def)

lemma handle_rate_limit_reset:
  assumes "0 \<le> rnd" "s' = handle_rate_limit s error now rnd"
  shows "\<exists>r. st_resetAt s' = Some r \<and> now \<le> r \<and>
    (retry_hint error = None \<longrightarrow> extract_reset_at error now = None \<longrightarrow> now + 30 \<le> r)"
proof -
  define delay where "delay = dflt (retry_hint error) (backoff_seconds (st_errorCount s + 1) rnd)"
  define pd where "pd = (if retry_hint error = None then max delay 30 else delay)"
  have d: "0 \<le> delay"
  proof (cases "retry_hint error")
    case None
    then show ?thesis
      using backoff_seconds_pos[OF assms(1), of "st_errorCount s + 1"] by (simp add: delay_def)
  next
    case (Some x)
    then show ?thesis using parse_retry_after_nonneg by (auto simp: delay_def retry_hint_def split: option.splits if_splits)
  qed
  define r where "r = dflt (extract_reset_at error now) (js_ceil (now + pd))"
  have s': "st_resetAt s' = Some r" "st_status s' = RATE_LIMITED"
    by (simp_all add: assms(2) handle_rate_limit_def Let_def r_def pd_def delay_def)
  have "0 \<le> pd" using d by (auto simp: pd_def max_def)
  then have ceil: "now \<le> js_ceil (now + pd)" by (intro order_trans[OF _ js_ceil_ge]) simp
  have "now \<le> r"
    using ceil extract_reset_at_bounds[of error now]
    by (cases "extract_reset_at error now") (auto simp: r_def)
  moreover have "now + 30 \<le> r" if "retry_hint error = None" "extract_reset_at error now = None"
    unfolding r_def that(2) dflt_simps
    by (rule order_trans[OF _ js_ceil_ge]) (use that(1) in \<open>simp add: pd_def\<close>)
  ultimately show ?thesis using s'(1) by (intro exI[of _ r]) simp
qed

text \<open>
  A rate-limited account rests until its reset. After \<open>handleRateLimit\<close> the account names a reset
  time that is not in the past and at most a year (and rounding) ahead of what upstream or the retry
  hint asked for, and no selection before that time serves it, unless the request bypasses the
  standard quota.
\<close>

theorem rate_limit_rests:
  assumes "0 \<le> rnd" "s' = handle_rate_limit s error now rnd"
  shows "\<exists>r. st_resetAt s' = Some r \<and> now \<le> r \<and>
    (retry_hint error = None \<longrightarrow> extract_reset_at error now = None \<longrightarrow> now + 30 \<le> r) \<and>
    (\<forall>opts. so_now opts < r \<longrightarrow> \<not> quota_bypassed opts s' \<longrightarrow> recover_one opts s' = (s', Skipped))"
proof -
  have st: "limited_status s'" by (simp add: assms(2) handle_rate_limit_def Let_def limited_status_def)
  obtain r where r: "st_resetAt s' = Some r \<and> now \<le> r \<and>
      (retry_hint error = None \<longrightarrow> extract_reset_at error now = None \<longrightarrow> now + 30 \<le> r)"
    using handle_rate_limit_reset[OF assms] ..
  show ?thesis
    by (rule exI[of _ r]) (use r limited_skipped[OF st, of r] in simp)
qed

theorem rate_limit_rests_witness:
  "\<exists>r. st_resetAt (handle_rate_limit (blank_account ''a'') \<lparr>ue_message = None, ue_resetsAt = Some 500, ue_resetsInSeconds = None\<rparr> 100 0)
     = Some r \<and> 100 \<le> r"
  using rate_limit_rests[OF order_refl refl, of "blank_account ''a''" "\<lparr>ue_message = None, ue_resetsAt = Some 500, ue_resetsInSeconds = None\<rparr>" 100]
  by blast

text \<open>
  A used-up quota rests too: after \<open>handleQuotaExceeded\<close> no selection serves the account before
  the reset time it names, which lies in the future, unless the request bypasses the standard quota.
\<close>

theorem quota_exceeded_rests:
  assumes "0 \<le> now" "s' = handle_quota_exceeded s error now"
  shows "\<exists>r. st_resetAt s' = Some r \<and> now < r \<and>
    (\<forall>opts. so_now opts < r \<longrightarrow> \<not> quota_bypassed opts s' \<longrightarrow> recover_one opts s' = (s', Skipped))"
proof -
  define r where "r = dflt (extract_reset_at error now) (js_trunc (now + 3600))"
  have s': "st_resetAt s' = Some r" "st_status s' = QUOTA_EXCEEDED"
    by (simp_all add: assms(2) handle_quota_exceeded_def r_def)
  have "now < r"
    using extract_reset_at_bounds[of error now] js_trunc_gt[of "now + 3600"] assms(1)
    by (cases "extract_reset_at error now") (auto simp: r_def)
  moreover have "recover_one opts s' = (s', Skipped)" if "so_now opts < r" "\<not> quota_bypassed opts s'" for opts
    using limited_skipped[of s' r opts] s' that by (simp add: limited_status_def)
  ultimately show ?thesis using s'(1) by (intro exI[of _ r]) simp
qed

theorem quota_exceeded_rests_witness:
  "\<exists>r. st_resetAt (handle_quota_exceeded (blank_account ''a'') \<lparr>ue_message = None, ue_resetsAt = None, ue_resetsInSeconds = Some 60\<rparr> 100)
     = Some r \<and> 100 < r"
  using quota_exceeded_rests[OF _ refl, of 100 "blank_account ''a''" "\<lparr>ue_message = None, ue_resetsAt = None, ue_resetsInSeconds = Some 60\<rparr>"]
  by auto

text \<open>
  The health tiers form a one-way street back to health: an account leaves a worse tier for the
  healthy one only out of the probing tier, after three successful probes and without a reason to
  drain, and it reaches the probing tier only out of draining, after sixty quiet seconds.
\<close>

theorem health_tier_recovery:
  assumes "st_healthTier s \<in> {HEALTH_TIER_HEALTHY, HEALTH_TIER_DRAINING, HEALTH_TIER_PROBING}"
    and "evaluate_health_tier s now entered streak \<noteq> st_healthTier s"
  shows "(evaluate_health_tier s now entered streak = HEALTH_TIER_HEALTHY \<and> st_healthTier s = HEALTH_TIER_PROBING
        \<and> 3 \<le> streak \<and> \<not> should_drain s now)
    \<or> (evaluate_health_tier s now entered streak = HEALTH_TIER_PROBING \<and> st_healthTier s = HEALTH_TIER_DRAINING
        \<and> \<not> should_drain s now \<and> (\<exists>t. entered = Some t \<and> 60 \<le> now - t))
    \<or> (evaluate_health_tier s now entered streak = HEALTH_TIER_DRAINING \<and> should_drain s now)"
  using assms by (auto simp: evaluate_health_tier_def split: if_splits option.splits)

theorem health_tier_recovery_witness:
  "evaluate_health_tier ((blank_account ''a'')\<lparr>st_healthTier := 2\<rparr>) 100 None 3 = HEALTH_TIER_HEALTHY"
  using health_tier_recovery[of "(blank_account ''a'')\<lparr>st_healthTier := 2\<rparr>" 100 None 3]
  by (simp add: blank_account_def evaluate_health_tier_def should_drain_def)

text \<open>
  The wait before a retry on the same account grows with the retry, honours the server's
  \<open>Retry-After\<close> up to ten seconds, and always lies between one and ten seconds.
\<close>

theorem burst_backoff_bounds:
  "1 \<le> burst_same_account_backoff_seconds i after \<and> burst_same_account_backoff_seconds i after \<le> 10 \<and>
   burst_same_account_backoff_seconds i after \<le> burst_same_account_backoff_seconds (Suc i) after \<and>
   min 10 (dflt after 0) \<le> burst_same_account_backoff_seconds i after"
proof -
  define E E' where "E = (2::real) ^ (max i 1 - 1)" and "E' = (2::real) ^ (max (Suc i) 1 - 1)"
  have "1 \<le> E" by (simp add: E_def)
  moreover have "E \<le> E'" unfolding E_def E'_def by (intro power_increasing) auto
  ultimately show ?thesis
    unfolding burst_same_account_backoff_seconds_def Let_def E_def[symmetric] E'_def[symmetric]
    by (cases "after") (auto simp: min_def max_def)
qed

end
