(* ===== verification/Gateway_Repository.thy ===== *)
theory Gateway_Repository
  imports Js_Map Balancer_Health
begin

text \<open>
  The storage behind the gateway, as \<open>InMemoryGatewayRepository\<close> of
  \<open>packages/db/src/gateway-repository.ts\<close> implements it: accounts, the credential lock, usage windows,
  sticky bindings, API keys and their limits. The PostgreSQL repository beside it keeps the same
  contract in SQL. Times are milliseconds since the epoch: an ISO string stands for its instant, and
  ISO strings compare as their instants do. Group keys are lower-case ASCII, where \<open>localeCompare\<close> is the
  order of the characters. The list of past usage samples, kept for charts, is left out. A record found by \<open>find\<close> and assigned to is
  \<open>update_first\<close>. The locale \<open>account_store\<close> is what the account pool relies on.
\<close>

subsection \<open>Accounts\<close>

record usage_window =
  uw_usedPercent :: "num option"
  uw_resetAt :: "num option"
  uw_windowMinutes :: "num option"

definition empty_window :: usage_window where
  "empty_window = \<lparr>uw_usedPercent = None, uw_resetAt = None, uw_windowMinutes = None\<rparr>"

record quota_group =
  qg_key :: string
  qg_primaryWindow :: usage_window
  qg_secondaryWindow :: usage_window

record account =
  ac_id :: string
  ac_provider :: string
  ac_label :: string
  ac_alias :: "string option"
  ac_email :: "string option"
  ac_planType :: "string option"
  ac_status :: account_status
  ac_statusReason :: "string option"
  ac_priority :: nat
  ac_warmupEnabled :: bool
  ac_resetCreditsAvailable :: "nat option"
  ac_primaryWindow :: usage_window
  ac_secondaryWindow :: usage_window
  ac_quotaGroups :: "quota_group list"
  ac_lastRefreshAt :: "num option"
  ac_lastUsedAt :: "num option"
  ac_createdAt :: num
  ac_externalAccountId :: "string option"
  ac_credentialsEncrypted :: string
  ac_credentialsExpiresAt :: "num option"
  ac_source :: string
  ac_sourceRef :: "string option"
  ac_blockedUntil :: "num option"

record account_insert =
  ai_accountId :: string
  ai_provider :: string
  ai_label :: string
  ai_email :: "string option"
  ai_externalAccountId :: "string option"
  ai_planType :: "string option"
  ai_credentialsEncrypted :: string
  ai_credentialsExpiresAt :: "num option"
  ai_source :: string
  ai_sourceRef :: "string option"
  ai_lastRefreshAt :: "num option"

text \<open>The change a credential lock may make: an absent field keeps its value.\<close>

record credential_update =
  cu_credentialsEncrypted :: "string option"
  cu_credentialsExpiresAt :: "num option option"
  cu_lastRefreshAt :: "num option option"
  cu_planType :: "string option option"
  cu_email :: "string option option"
  cu_status :: "account_status option"
  cu_statusReason :: "string option option"

definition no_update :: credential_update where
  "no_update = \<lparr>cu_credentialsEncrypted = None, cu_credentialsExpiresAt = None, cu_lastRefreshAt = None,
     cu_planType = None, cu_email = None, cu_status = None, cu_statusReason = None\<rparr>"

record sticky_binding =
  sb_keyHash :: string
  sb_kind :: string
  sb_provider :: string
  sb_accountId :: string
  sb_expiresAt :: "num option"

record gateway_repo =
  rp_accounts :: "account list"
  rp_sticky :: "(string \<times> sticky_binding) list"

definition find_account :: "string \<Rightarrow> gateway_repo \<Rightarrow> account option" where
  "find_account i repo = List.find (\<lambda>a. ac_id a = i) (rp_accounts repo)"

definition modify_account :: "string \<Rightarrow> (account \<Rightarrow> account) \<Rightarrow> gateway_repo \<Rightarrow> gateway_repo" where
  "modify_account i f repo = repo\<lparr>rp_accounts := update_first (\<lambda>a. ac_id a = i) f (rp_accounts repo)\<rparr>"

definition set_account_status ::
  "string \<Rightarrow> account_status \<Rightarrow> string option \<Rightarrow> gateway_repo \<Rightarrow> gateway_repo \<times> account option" where
  "set_account_status i st reason repo = (case find_account i repo of None \<Rightarrow> (repo, None)
     | Some a \<Rightarrow> (let f = (\<lambda>a. a\<lparr>ac_status := st, ac_statusReason := reason\<rparr>)
         in (modify_account i f repo, Some (f a))))"

text \<open>A sign-in: a known provider account keeps its id, and its pause.\<close>

definition sign_in_again :: "account_insert \<Rightarrow> account \<Rightarrow> account" where
  "sign_in_again ai a = a\<lparr>ac_email := ai_email ai, ac_planType := or_else (ai_planType ai) (ac_planType a),
     ac_credentialsEncrypted := ai_credentialsEncrypted ai, ac_credentialsExpiresAt := ai_credentialsExpiresAt ai,
     ac_lastRefreshAt := ai_lastRefreshAt ai,
     ac_status := (if ac_status a = PAUSED then PAUSED else ACTIVE),
     ac_statusReason := (if ac_status a = PAUSED then ac_statusReason a else None)\<rparr>"

definition fresh_account :: "num \<Rightarrow> account_insert \<Rightarrow> account" where
  "fresh_account now ai = \<lparr>ac_id = ai_accountId ai, ac_provider = ai_provider ai, ac_label = ai_label ai, ac_alias = None, ac_email = ai_email ai,
     ac_planType = ai_planType ai, ac_status = ACTIVE, ac_statusReason = None, ac_priority = 100,
     ac_warmupEnabled = False, ac_resetCreditsAvailable = None, ac_primaryWindow = empty_window,
     ac_secondaryWindow = empty_window, ac_quotaGroups = [], ac_lastRefreshAt = ai_lastRefreshAt ai, ac_lastUsedAt = None,
     ac_createdAt = now, ac_externalAccountId = ai_externalAccountId ai, ac_credentialsEncrypted = ai_credentialsEncrypted ai,
     ac_credentialsExpiresAt = ai_credentialsExpiresAt ai, ac_source = ai_source ai, ac_sourceRef = ai_sourceRef ai,
     ac_blockedUntil = None\<rparr>"

definition upsert_account :: "num \<Rightarrow> account_insert \<Rightarrow> gateway_repo \<Rightarrow> gateway_repo \<times> account" where
  "upsert_account now ai repo =
     (let known = (\<lambda>a. ac_provider a = ai_provider ai \<and> ac_externalAccountId a = ai_externalAccountId ai)
      in case (if ai_externalAccountId ai \<in> {None, Some []} then None else List.find known (rp_accounts repo)) of
        Some a \<Rightarrow> (repo\<lparr>rp_accounts := update_first known (sign_in_again ai) (rp_accounts repo)\<rparr>, sign_in_again ai a)
      | None \<Rightarrow> (repo\<lparr>rp_accounts := rp_accounts repo @ [fresh_account now ai]\<rparr>, fresh_account now ai))"

definition delete_account :: "string \<Rightarrow> gateway_repo \<Rightarrow> gateway_repo \<times> bool" where
  "delete_account i repo =
     (let left = filter (\<lambda>a. ac_id a \<noteq> i) (rp_accounts repo)
      in (repo\<lparr>rp_accounts := left, rp_sticky := filter (\<lambda>p. sb_accountId (snd p) \<noteq> i) (rp_sticky repo)\<rparr>,
          length left < length (rp_accounts repo)))"

definition replace_sign_in :: "account_insert \<Rightarrow> account \<Rightarrow> account" where
  "replace_sign_in ai a = (sign_in_again ai a)\<lparr>ac_externalAccountId := ai_externalAccountId ai, ac_source := ai_source ai,
     ac_sourceRef := ai_sourceRef ai, ac_blockedUntil := None\<rparr>"

definition replace_account_sign_in ::
  "string \<Rightarrow> account_insert \<Rightarrow> gateway_repo \<Rightarrow> gateway_repo \<times> account option" where
  "replace_account_sign_in i ai repo = (case find_account i repo of None \<Rightarrow> (repo, None)
     | Some a \<Rightarrow> (modify_account i (replace_sign_in ai) repo, Some (replace_sign_in ai a)))"

definition apply_update :: "credential_update \<Rightarrow> account \<Rightarrow> account" where
  "apply_update u a = a\<lparr>
     ac_credentialsEncrypted := dflt (cu_credentialsEncrypted u) (ac_credentialsEncrypted a),
     ac_credentialsExpiresAt := dflt (cu_credentialsExpiresAt u) (ac_credentialsExpiresAt a),
     ac_lastRefreshAt := dflt (cu_lastRefreshAt u) (ac_lastRefreshAt a),
     ac_planType := dflt (cu_planType u) (ac_planType a), ac_email := dflt (cu_email u) (ac_email a),
     ac_status := dflt (cu_status u) (ac_status a), ac_statusReason := dflt (cu_statusReason u) (ac_statusReason a)\<rparr>"

text \<open>
  \<open>withAccountCredentialLock\<close>: holders of one account's lock run one after another. The callback gets
  the stored account and answers with whatever it learned (\<open>'x\<close>, the variables it assigns) and the
  change to store. The result is the callback's answer, when the account exists, and the account after.
\<close>

definition with_credential_lock ::
  "string \<Rightarrow> (account \<Rightarrow> 'x \<times> credential_update option) \<Rightarrow> gateway_repo
   \<Rightarrow> gateway_repo \<times> ('x \<times> account) option" where
  "with_credential_lock i upd repo = (case find_account i repo of None \<Rightarrow> (repo, None)
     | Some a \<Rightarrow> (case upd a of (x, None) \<Rightarrow> (repo, Some (x, a))
         | (x, Some u) \<Rightarrow> (modify_account i (apply_update u) repo, Some (x, apply_update u a))))"

datatype window_kind = PrimaryUsage | SecondaryUsage

record window_input =
  wi_quotaKey :: string
  wi_window :: window_kind
  wi_usedPercent :: "num option"
  wi_resetAt :: "num option"
  wi_windowMinutes :: "num option"

definition window_of :: "window_input \<Rightarrow> usage_window \<Rightarrow> usage_window" where
  "window_of wi old = \<lparr>uw_usedPercent = wi_usedPercent wi, uw_resetAt = wi_resetAt wi,
     uw_windowMinutes = or_else (wi_windowMinutes wi) (uw_windowMinutes old)\<rparr>"

definition set_group_window :: "window_input \<Rightarrow> quota_group \<Rightarrow> quota_group" where
  "set_group_window wi g = (case wi_window wi of
     PrimaryUsage \<Rightarrow> g\<lparr>qg_primaryWindow := window_of wi (qg_primaryWindow g)\<rparr>
   | SecondaryUsage \<Rightarrow> g\<lparr>qg_secondaryWindow := window_of wi (qg_secondaryWindow g)\<rparr>)"

definition ensure_group :: "string \<Rightarrow> quota_group list \<Rightarrow> quota_group list" where
  "ensure_group k gs = (if list_ex (\<lambda>g. qg_key g = k) gs then gs
     else sort_key qg_key (gs @ [\<lparr>qg_key = k, qg_primaryWindow = empty_window, qg_secondaryWindow = empty_window\<rparr>]))"

definition save_window :: "window_input \<Rightarrow> account \<Rightarrow> account" where
  "save_window wi a = (if wi_quotaKey wi \<noteq> []
     then a\<lparr>ac_quotaGroups := update_first (\<lambda>g. qg_key g = wi_quotaKey wi) (set_group_window wi)
       (ensure_group (wi_quotaKey wi) (ac_quotaGroups a))\<rparr>
     else case wi_window wi of
       PrimaryUsage \<Rightarrow> a\<lparr>ac_primaryWindow := window_of wi (ac_primaryWindow a)\<rparr>
     | SecondaryUsage \<Rightarrow> a\<lparr>ac_secondaryWindow := window_of wi (ac_secondaryWindow a)\<rparr>)"

definition save_usage_windows :: "string \<Rightarrow> window_input list \<Rightarrow> gateway_repo \<Rightarrow> gateway_repo" where
  "save_usage_windows i wis repo = modify_account i (fold save_window wis) repo"

definition recorded :: "account_status \<Rightarrow> string option \<Rightarrow> num option \<Rightarrow> account \<Rightarrow> account" where
  "recorded st reason blockedUntil a = (if ac_status a = PAUSED then a
     else a\<lparr>ac_status := st, ac_statusReason := reason, ac_blockedUntil := blockedUntil\<rparr>)"

definition record_account_state ::
  "string \<Rightarrow> account_status \<Rightarrow> string option \<Rightarrow> num option \<Rightarrow> gateway_repo \<Rightarrow> gateway_repo" where
  "record_account_state i st reason blockedUntil repo = modify_account i (recorded st reason blockedUntil) repo"

definition update_account_preferences ::
  "string \<Rightarrow> string option option \<Rightarrow> bool option \<Rightarrow> gateway_repo \<Rightarrow> gateway_repo \<times> account option" where
  "update_account_preferences i alias warmup repo =
     (let f = (\<lambda>a. a\<lparr>ac_alias := dflt alias (ac_alias a), ac_warmupEnabled := dflt warmup (ac_warmupEnabled a)\<rparr>)
      in (modify_account i f repo, map_option f (find_account i repo)))"

definition save_reset_credits :: "string \<Rightarrow> nat option \<Rightarrow> gateway_repo \<Rightarrow> gateway_repo" where
  "save_reset_credits i available repo = modify_account i (\<lambda>a. a\<lparr>ac_resetCreditsAvailable := available\<rparr>) repo"

definition touch_accounts :: "string list \<Rightarrow> num \<Rightarrow> gateway_repo \<Rightarrow> gateway_repo" where
  "touch_accounts ids usedAt repo = repo\<lparr>rp_accounts :=
     map (\<lambda>a. if ac_id a \<in> set ids then a\<lparr>ac_lastUsedAt := Some usedAt\<rparr> else a) (rp_accounts repo)\<rparr>"

subsection \<open>Sticky bindings\<close>

definition save_sticky_bindings :: "sticky_binding list \<Rightarrow> gateway_repo \<Rightarrow> gateway_repo" where
  "save_sticky_bindings rows repo = fold (\<lambda>row r.
     if list_ex (\<lambda>a. ac_id a = sb_accountId row) (rp_accounts r)
     then r\<lparr>rp_sticky := map_set (sb_keyHash row) row (rp_sticky r)\<rparr> else r) rows repo"

definition find_sticky_binding :: "string \<Rightarrow> num \<Rightarrow> gateway_repo \<Rightarrow> sticky_binding option" where
  "find_sticky_binding k now repo = (case map_of (rp_sticky repo) k of None \<Rightarrow> None
     | Some row \<Rightarrow> (case sb_expiresAt row of None \<Rightarrow> Some row | Some t \<Rightarrow> if t > now then Some row else None))"

definition expired_binding :: "num \<Rightarrow> sticky_binding \<Rightarrow> bool" where
  "expired_binding now row = (case sb_expiresAt row of None \<Rightarrow> False | Some t \<Rightarrow> t \<le> now)"

definition prune_sticky_bindings :: "num \<Rightarrow> gateway_repo \<Rightarrow> gateway_repo \<times> nat" where
  "prune_sticky_bindings now repo =
     (let left = filter (\<lambda>p. \<not> expired_binding now (snd p)) (rp_sticky repo)
      in (repo\<lparr>rp_sticky := left\<rparr>, length (rp_sticky repo) - length left))"

subsection \<open>Facts\<close>

lemma recorded_id [simp]: "ac_id (recorded st r b a) = ac_id a"
  by (simp add: recorded_def)

lemma apply_update_id [simp]: "ac_id (apply_update u a) = ac_id a"
  by (simp add: apply_update_def)

lemma save_window_id [simp]: "ac_id (save_window w a) = ac_id a"
  by (simp add: save_window_def split: window_kind.splits)

lemma fold_save_window_id [simp]: "ac_id (fold save_window ws a) = ac_id a"
  by (induction ws arbitrary: a) auto

lemma find_modify:
  assumes "\<And>a. ac_id (f a) = ac_id a"
  shows "find_account i (modify_account j f repo) =
    (if i = j then map_option f (find_account i repo) else find_account i repo)"
  using find_update_same[of ac_id f i, OF assms] find_update_other[of ac_id f i j, OF assms]
  by (auto simp: find_account_def modify_account_def)

lemma find_account_id: "find_account i repo = Some a \<Longrightarrow> ac_id a = i"
  unfolding find_account_def by (drule find_key_iff) simp

lemma find_record_state:
  "find_account i (record_account_state j st r b repo) =
   (if i = j then map_option (recorded st r b) (find_account i repo) else find_account i repo)"
  by (simp add: record_account_state_def find_modify)

text \<open>
  What the account pool relies on when it stores what it learned upstream: the write reaches the
  account it names and no other, and it never lifts a pause.
\<close>

locale account_store =
  fixes lookup :: "string \<Rightarrow> 's \<Rightarrow> account option"
    and store :: "string \<Rightarrow> account_status \<Rightarrow> string option \<Rightarrow> num option \<Rightarrow> 's \<Rightarrow> 's"
  assumes store_same: "lookup i (store i st r b s) = map_option (recorded st r b) (lookup i s)"
    and store_other: "i \<noteq> j \<Longrightarrow> lookup i (store j st r b s) = lookup i s"
begin

lemma store_lookup:
  "lookup i (store j st r b s) = (if i = j then map_option (recorded st r b) (lookup i s) else lookup i s)"
  by (simp add: store_same store_other)

lemma paused_kept:
  "lookup i s = Some a \<Longrightarrow> ac_status a = PAUSED \<Longrightarrow> lookup i (store j st r b s) = Some a"
  by (auto simp: store_lookup recorded_def)

lemma paused_kept_all:
  "lookup i s = Some a \<Longrightarrow> ac_status a = PAUSED \<Longrightarrow>
   lookup i (fold (\<lambda>(j, st, r, b). store j st r b) ws s) = Some a"
  by (induction ws arbitrary: s) (auto simp: paused_kept)

lemma stored_status:
  "lookup i s = Some a \<Longrightarrow> ac_status a \<noteq> PAUSED \<Longrightarrow>
   \<exists>a'. lookup i (store i st r b s) = Some a' \<and> ac_status a' = st \<and> ac_blockedUntil a' = b"
  by (auto simp: store_same recorded_def)

end

interpretation repo: account_store find_account record_account_state
  by unfold_locales (simp_all add: find_record_state)

subsection \<open>A concrete account for the witnesses\<close>

definition demo_account :: account where
  "demo_account = fresh_account 0 \<lparr>ai_accountId = ''a'', ai_provider = ''CODEX'', ai_label = ''A'', ai_email = None,
     ai_externalAccountId = None, ai_planType = Some ''plus'', ai_credentialsEncrypted = ''t'',
     ai_credentialsExpiresAt = None, ai_source = ''OAUTH'', ai_sourceRef = None, ai_lastRefreshAt = None\<rparr>"

definition demo_repo :: gateway_repo where
  "demo_repo = \<lparr>rp_accounts = [demo_account], rp_sticky = []\<rparr>"

lemma demo_account_simps:
  "ac_id demo_account = ''a''" "ac_status demo_account = ACTIVE" "ac_planType demo_account = Some ''plus''"
  "ac_credentialsEncrypted demo_account = ''t''" "ac_lastRefreshAt demo_account = None"
  by (simp_all add: demo_account_def fresh_account_def)

end
