(* ===== verification/In_Flight.thy ===== *)
theory In_Flight
  imports Prelude
begin

text \<open>
  Counting what runs per key. Both the account pool (requests in flight per account) and the key policy
  (requests running per API key) keep a counter beside the set of running things; the locale
  \<open>in_flight_counter\<close> is the interface they share (a thing leaves only where it entered), and its lemmas
  say when the counter tells the truth: \<open>tracks s owner\<close> holds when each key's count is the number of
  running things it owns.
\<close>

locale in_flight_counter =
  fixes inv :: "'s \<Rightarrow> bool" and count :: "'s \<Rightarrow> 'k \<Rightarrow> nat"
    and enter :: "'k \<Rightarrow> 's \<Rightarrow> 's" and leave :: "'k \<Rightarrow> 's \<Rightarrow> 's"
  assumes inv_enter: "inv s \<Longrightarrow> inv (enter k s)"
    and inv_leave: "inv s \<Longrightarrow> 0 < count s k \<Longrightarrow> inv (leave k s)"
    and count_enter: "inv s \<Longrightarrow> count (enter k s) k' = (if k' = k then Suc (count s k) else count s k')"
    and count_leave: "inv s \<Longrightarrow> 0 < count s k \<Longrightarrow>
      count (leave k s) k' = (if k' = k then count s k - 1 else count s k')"
begin

definition tracks :: "'s \<Rightarrow> ('r \<Rightarrow> 'k option) \<Rightarrow> bool" where
  "tracks s owner = (inv s \<and> finite (dom owner) \<and> (\<forall>k. count s k = card {r. owner r = Some k}))"

lemma owned_finite: "finite (dom owner) \<Longrightarrow> finite {r. owner r = Some k}"
  by (rule finite_subset[of _ "dom owner"]) auto

lemma tracks_start: "inv s \<Longrightarrow> (\<And>k. count s k = 0) \<Longrightarrow> tracks s (\<lambda>_. None)"
  by (simp add: tracks_def)

lemma tracks_enter:
  assumes "tracks s owner" "owner r = None"
  shows "tracks (enter k s) (owner(r \<mapsto> k))"
proof -
  have fin: "finite (dom owner)" using assms by (simp add: tracks_def)
  have "{r'. (owner(r \<mapsto> k)) r' = Some k'} =
      (if k' = k then insert r {r'. owner r' = Some k} else {r'. owner r' = Some k'})" for k'
    using assms(2) by auto
  then show ?thesis
    using assms owned_finite[OF fin] by (simp add: tracks_def count_enter inv_enter)
qed

lemma tracks_leave:
  assumes "tracks s owner" "owner r = Some k"
  shows "tracks (leave k s) (owner(r := None))"
proof -
  have fin: "finite (dom owner)" using assms by (simp add: tracks_def)
  have pos: "0 < count s k" using assms owned_finite[OF fin, of k] by (auto simp: tracks_def card_gt_0_iff)
  have eq: "{r'. (owner(r := None)) r' = Some k'} =
      (if k' = k then {r'. owner r' = Some k} - {r} else {r'. owner r' = Some k'})" for k'
    using assms(2) by auto
  have "card ({r'. owner r' = Some k} - {r}) = card {r'. owner r' = Some k} - 1"
    using assms(2) owned_finite[OF fin] by simp
  moreover have "finite (dom (owner(r := None)))" using fin by (rule rev_finite_subset) auto
  ultimately show ?thesis
    using assms(1) pos unfolding tracks_def eq by (simp add: count_leave inv_leave)
qed

lemma tracks_move:
  assumes "tracks s owner" "owner r = Some k"
  shows "tracks (enter k' (leave k s)) (owner(r \<mapsto> k'))"
  using tracks_enter[OF tracks_leave[OF assms], of r k'] by simp

lemma tracks_count: "tracks s owner \<Longrightarrow> count s k = card {r. owner r = Some k}"
  by (simp add: tracks_def)

lemma tracks_idle: "tracks s owner \<Longrightarrow> count s k = 0 \<longleftrightarrow> k \<notin> ran owner"
  using owned_finite[of owner k] by (auto simp: tracks_def ran_def)

end

end
