(* ===== verification/Account_Pool.thy ===== *)
theory Account_Pool
  imports Gateway_Repository In_Flight
begin

text \<open>
  \<open>AccountPool\<close> of \<open>packages/gateway/src/accounts/account-pool.ts\<close>: the accounts of one provider with the
  per-account runtime state the balancer needs. Clock times are milliseconds, balancer times seconds.
  Every method is a definition that takes the pool and returns it changed; an awaited storage call
  takes effect where it stands in the method, and methods do not interleave. The injected options are
  the record \<open>pool_env\<close>: the provider, the cipher (with \<open>JSON\<close> inside), when credentials need a
  refresh and what the provider answers to one, and whether the write of a pause succeeds.
\<close>

subsection \<open>State\<close>

record stored_credentials =
  sc_accessToken :: string
  sc_refreshToken :: "string option"
  sc_idToken :: "string option"
  sc_upstreamAccountId :: "string option"
  sc_accessExpiresAtMs :: "num option"

record refreshed_credentials =
  rc_stored :: stored_credentials
  rc_planType :: "string option"
  rc_email :: "string option"

record cipher =
  cp_seal :: "stored_credentials \<Rightarrow> string \<Rightarrow> string"
  cp_unseal :: "string \<Rightarrow> string \<Rightarrow> stored_credentials option"

text \<open>A refresh fails with an error that may carry a code.\<close>

record pool_env =
  pe_provider :: string
  pe_cipher :: "cipher option"
  pe_needsRefresh :: "account \<Rightarrow> stored_credentials \<Rightarrow> num \<Rightarrow> bool"
  pe_refresh :: "stored_credentials \<Rightarrow> string option + refreshed_credentials"
  pe_pauseStored :: bool

record runtime_state =
  rt_errorCount :: nat
  rt_lastErrorAt :: "num option"
  rt_cooldownUntil :: "num option"
  rt_lastSelectedAt :: "num option"
  rt_healthTier :: nat
  rt_status :: "account_status option"
  rt_resetAt :: "num option"
  rt_usedPercent :: "num option"
  rt_secondaryUsedPercent :: "num option"

definition blank_runtime :: runtime_state where
  "blank_runtime = \<lparr>rt_errorCount = 0, rt_lastErrorAt = None, rt_cooldownUntil = None, rt_lastSelectedAt = None,
     rt_healthTier = 0, rt_status = None, rt_resetAt = None, rt_usedPercent = None, rt_secondaryUsedPercent = None\<rparr>"

record account_pool =
  pl_runtime :: "string \<Rightarrow> runtime_state option"
  pl_cache :: "(num \<times> account list) option"
  pl_repo :: gateway_repo
  pl_active :: "string \<Rightarrow> nat option"
  pl_responses :: "nat \<Rightarrow> string option"
  pl_listening :: "nat set"

definition new_pool :: "gateway_repo \<Rightarrow> account_pool" where
  "new_pool repo = \<lparr>pl_runtime = (\<lambda>_. None), pl_cache = None, pl_repo = repo, pl_active = (\<lambda>_. None), pl_responses = (\<lambda>_. None),
     pl_listening = {}\<rparr>"

abbreviation (input) ACCOUNT_CACHE_MS :: real where "ACCOUNT_CACHE_MS \<equiv> 5000"
abbreviation (input) FORCED_REFRESH_MIN_AGE_MS :: real where "FORCED_REFRESH_MIN_AGE_MS \<equiv> 5 * 60000"

definition access_token_rejections :: "string list" where
  "access_token_rejections = [''token_expired'', ''token_invalidated'', ''app_session_terminated'',
     ''account_session_expired'', ''account_auth_invalidated'']"

definition to_seconds :: "num option \<Rightarrow> num option" where
  "to_seconds t = map_option (\<lambda>ms. ms / 1000) t"

definition to_iso :: "num option \<Rightarrow> num option" where
  "to_iso t = (if truthy t then map_option (\<lambda>s. js_trunc (s * 1000)) t else None)"

text \<open>\<open>isGatewayFreePlan\<close>: dashes and blanks in a row become one underscore.\<close>

fun plan_slug :: "string \<Rightarrow> string" where
  "plan_slug [] = []"
| "plan_slug (c # cs) = (if c = CHR ''-'' \<or> is_space c
     then (case cs of [] \<Rightarrow> ''_'' | d # _ \<Rightarrow> if d = CHR ''-'' \<or> is_space d then plan_slug cs else CHR ''_'' # plan_slug cs)
     else c # plan_slug cs)"

definition is_gateway_free_plan :: "string option \<Rightarrow> bool" where
  "is_gateway_free_plan planType =
     (let plan = plan_slug (js_lower (js_trim (dflt planType []))) in plan = ''free'' \<or> plan = ''free_workspace'')"

abbreviation (input) free_plan_pause_reason :: string where
  "free_plan_pause_reason \<equiv> ''Free plan: paused automatically and never used. Sign in again on a paid plan, then resume.''"

subsection \<open>Runtime state\<close>

definition runtime_of :: "account_pool \<Rightarrow> string \<Rightarrow> runtime_state" where
  "runtime_of p i = (case pl_runtime p i of None \<Rightarrow> blank_runtime | Some r \<Rightarrow> r)"

definition put_runtime :: "string \<Rightarrow> runtime_state \<Rightarrow> account_pool \<Rightarrow> account_pool" where
  "put_runtime i r p = p\<lparr>pl_runtime := (pl_runtime p)(i \<mapsto> r)\<rparr>"

definition invalidate :: "account_pool \<Rightarrow> account_pool" where
  "invalidate p = p\<lparr>pl_cache := None\<rparr>"

definition signed_in :: "string \<Rightarrow> account_pool \<Rightarrow> account_pool" where
  "signed_in i p = invalidate (p\<lparr>pl_runtime := (pl_runtime p)(i := None)\<rparr>)"

definition group_window :: "(quota_group \<Rightarrow> usage_window) \<Rightarrow> string \<Rightarrow> account \<Rightarrow> usage_window" where
  "group_window sel quotaKey a = (case List.find (\<lambda>g. qg_key g = quotaKey) (ac_quotaGroups a) of
     None \<Rightarrow> empty_window | Some g \<Rightarrow> sel g)"

definition to_balancer_state :: "account_pool \<Rightarrow> string \<Rightarrow> account \<Rightarrow> account_state" where
  "to_balancer_state p quotaKey a =
     (let runtime = runtime_of p (ac_id a);
          keyed = quotaKey \<noteq> [];
          primary = (if keyed then group_window qg_primaryWindow quotaKey a else ac_primaryWindow a);
          secondary = (if keyed then group_window qg_secondaryWindow quotaKey a else ac_secondaryWindow a)
      in (blank_account (ac_id a))\<lparr>
           st_status := (if ac_status a = PAUSED then PAUSED else dflt (rt_status runtime) (ac_status a)),
           st_usedPercent := or_else (if keyed then None else rt_usedPercent runtime) (uw_usedPercent primary),
           st_secondaryUsedPercent := or_else (if keyed then None else rt_secondaryUsedPercent runtime) (uw_usedPercent secondary),
           st_resetAt := or_else (rt_resetAt runtime) (to_seconds (ac_blockedUntil a)),
           st_primaryResetAt := to_seconds (uw_resetAt primary),
           st_secondaryResetAt := to_seconds (uw_resetAt secondary),
           st_primaryWindowMinutes := uw_windowMinutes primary,
           st_cooldownUntil := rt_cooldownUntil runtime,
           st_lastErrorAt := rt_lastErrorAt runtime,
           st_lastSelectedAt := or_else (rt_lastSelectedAt runtime) (to_seconds (ac_lastUsedAt a)),
           st_errorCount := rt_errorCount runtime,
           st_planType := ac_planType a,
           st_healthTier := rt_healthTier runtime,
           st_accessTokenExpiresAt := to_seconds (ac_credentialsExpiresAt a)\<rparr>)"

definition is_signed_out :: "account_pool \<Rightarrow> num \<Rightarrow> account \<Rightarrow> bool" where
  "is_signed_out p now a = (let s = to_balancer_state p [] a in
     st_status s = REAUTH_REQUIRED \<and> (case st_accessTokenExpiresAt s of None \<Rightarrow> False | Some t \<Rightarrow> t \<le> now / 1000))"

definition lift_expired_block :: "account \<Rightarrow> bool \<Rightarrow> num \<Rightarrow> account_pool \<Rightarrow> account_pool \<times> bool" where
  "lift_expired_block a usageClear nowMs p =
     (let runtime = runtime_of p (ac_id a);
          status = dflt (rt_status runtime) (ac_status a);
          now = nowMs / 1000
      in if status \<noteq> RATE_LIMITED \<and> status \<noteq> QUOTA_EXCEEDED then (p, False)
         else case or_else (to_seconds (ac_blockedUntil a)) (rt_resetAt runtime) of
           None \<Rightarrow> (p, False)
         | Some until \<Rightarrow>
             if until > now \<and> \<not> (usageClear \<and> until - now > 3600) then (p, False)
             else (let p1 = put_runtime (ac_id a) (runtime\<lparr>rt_status := Some ACTIVE, rt_resetAt := None, rt_cooldownUntil := None\<rparr>) p;
                       p2 = p1\<lparr>pl_repo := record_account_state (ac_id a) ACTIVE None None (pl_repo p1)\<rparr>
                   in (invalidate p2, True)))"

subsection \<open>The account list\<close>

definition pause_if_free :: "pool_env \<Rightarrow> account \<Rightarrow> gateway_repo \<Rightarrow> gateway_repo \<times> account" where
  "pause_if_free env a repo =
     (if ac_status a = PAUSED \<or> \<not> is_gateway_free_plan (ac_planType a) then (repo, a)
      else case (if pe_pauseStored env then set_account_status (ac_id a) PAUSED (Some free_plan_pause_reason) repo
                 else (repo, None)) of
        (repo', Some paused) \<Rightarrow> (repo', paused)
      | (repo', None) \<Rightarrow> (repo', a\<lparr>ac_status := PAUSED, ac_statusReason := Some free_plan_pause_reason\<rparr>))"

fun pause_all :: "pool_env \<Rightarrow> account list \<Rightarrow> gateway_repo \<Rightarrow> gateway_repo \<times> account list" where
  "pause_all env [] repo = (repo, [])"
| "pause_all env (a # as) repo = (let (repo1, a') = pause_if_free env a repo; (repo2, as') = pause_all env as repo1
     in (repo2, a' # as'))"

definition pool_accounts :: "pool_env \<Rightarrow> num \<Rightarrow> account_pool \<Rightarrow> account_pool \<times> account list" where
  "pool_accounts env now p =
     (let load = (let own = filter (\<lambda>a. ac_provider a = pe_provider env) (rp_accounts (pl_repo p));
                      (repo', accounts) = pause_all env own (pl_repo p)
                  in (p\<lparr>pl_repo := repo', pl_cache := Some (now, accounts)\<rparr>, accounts))
      in case pl_cache p of
           Some (loadedAt, accounts) \<Rightarrow> if now - loadedAt > ACCOUNT_CACHE_MS then load else (p, accounts)
         | None \<Rightarrow> load)"

definition balancer_states :: "pool_env \<Rightarrow> (account \<Rightarrow> bool) \<Rightarrow> num \<Rightarrow> account_pool \<Rightarrow> account_pool \<times> account_state list" where
  "balancer_states env keep now p = (let (p', accounts) = pool_accounts env now p
     in (p', map (to_balancer_state p' []) (filter keep accounts)))"

subsection \<open>Requests in flight\<close>

definition count_active :: "(string \<Rightarrow> nat option) \<Rightarrow> string \<Rightarrow> nat" where
  "count_active m i = dflt (m i) 0"

definition enter_active :: "string \<Rightarrow> (string \<Rightarrow> nat option) \<Rightarrow> string \<Rightarrow> nat option" where
  "enter_active i m = m(i \<mapsto> dflt (m i) 0 + 1)"

definition release_active :: "string \<Rightarrow> (string \<Rightarrow> nat option) \<Rightarrow> string \<Rightarrow> nat option" where
  "release_active i m = (let count = dflt (m i) 1 - 1 in if count > 0 then m(i \<mapsto> count) else m(i := None))"

text \<open>\<open>pl_listening\<close> are the responses on which a \<open>once("close")\<close> listener of the pool is registered.\<close>

definition mark_selected :: "string \<Rightarrow> nat option \<Rightarrow> num \<Rightarrow> account_pool \<Rightarrow> account_pool" where
  "mark_selected i response now p0 =
     (let p = put_runtime i ((runtime_of p0 i)\<lparr>rt_lastSelectedAt := Some (now / 1000)\<rparr>) p0
      in case response of None \<Rightarrow> p
         | Some r \<Rightarrow> (case pl_responses p r of
             Some previous \<Rightarrow> if previous = i then p
               else p\<lparr>pl_responses := (pl_responses p)(r \<mapsto> i),
                      pl_active := enter_active i (release_active previous (pl_active p))\<rparr>
           | None \<Rightarrow> p\<lparr>pl_listening := insert r (pl_listening p), pl_responses := (pl_responses p)(r \<mapsto> i),
               pl_active := enter_active i (pl_active p)\<rparr>))"

text \<open>A response emits \<open>close\<close>: the listener runs if one is registered, and only once.\<close>

definition response_closed :: "nat \<Rightarrow> account_pool \<Rightarrow> account_pool" where
  "response_closed r p0 = (if r \<notin> pl_listening p0 then p0
     else let p = p0\<lparr>pl_listening := pl_listening p0 - {r}\<rparr> in case pl_responses p r of
       Some current \<Rightarrow> p\<lparr>pl_active := release_active current (pl_active p), pl_responses := (pl_responses p)(r := None)\<rparr>
     | None \<Rightarrow> p\<lparr>pl_responses := (pl_responses p)(r := None)\<rparr>)"

definition in_flight :: "account_pool \<Rightarrow> string \<Rightarrow> nat option" where
  "in_flight p = pl_active p"

definition touch :: "string \<Rightarrow> num \<Rightarrow> account_pool \<Rightarrow> account_pool" where
  "touch i usedAt p = p\<lparr>pl_repo := touch_accounts [i] usedAt (pl_repo p)\<rparr>"

subsection \<open>What requests teach\<close>

definition absorb :: "account_state \<Rightarrow> account_pool \<Rightarrow> account_pool" where
  "absorb s p =
     (let runtime = (runtime_of p (st_accountId s))\<lparr>rt_errorCount := st_errorCount s, rt_lastErrorAt := st_lastErrorAt s,
            rt_cooldownUntil := st_cooldownUntil s\<rparr>;
          runtime' = (if st_status s = ACTIVE \<and> rt_status runtime \<noteq> None \<and> rt_status runtime \<noteq> Some ACTIVE
            then runtime\<lparr>rt_status := Some ACTIVE, rt_resetAt := None\<rparr> else runtime)
      in put_runtime (st_accountId s) runtime' p)"

definition mark_success :: "pool_env \<Rightarrow> string \<Rightarrow> num \<Rightarrow> account_pool \<Rightarrow> account_pool" where
  "mark_success env i now p0 =
     (let (p, accounts) = pool_accounts env now p0;
          runtime = runtime_of p i;
          stored = map_option ac_status (List.find (\<lambda>a. ac_id a = i) accounts);
          wasBlocked = ((rt_status runtime \<noteq> None \<and> rt_status runtime \<noteq> Some ACTIVE)
            \<or> stored = Some RATE_LIMITED \<or> stored = Some QUOTA_EXCEEDED);
          runtime1 = runtime\<lparr>rt_errorCount := 0, rt_lastErrorAt := None, rt_cooldownUntil := None\<rparr>
      in if wasBlocked
         then invalidate ((put_runtime i (runtime1\<lparr>rt_status := Some ACTIVE, rt_resetAt := None\<rparr>) p)
           \<lparr>pl_repo := record_account_state i ACTIVE None None (pl_repo p)\<rparr>)
         else put_runtime i runtime1 p)"

definition persist_block :: "string \<Rightarrow> account_state \<Rightarrow> string \<Rightarrow> account_pool \<Rightarrow> account_pool" where
  "persist_block i s reason p =
     (let runtime = (runtime_of p i)\<lparr>rt_status := Some (st_status s), rt_errorCount := st_errorCount s,
            rt_lastErrorAt := st_lastErrorAt s, rt_cooldownUntil := st_cooldownUntil s, rt_resetAt := st_resetAt s\<rparr>;
          runtime' = (if st_status s = QUOTA_EXCEEDED then runtime\<lparr>rt_usedPercent := Some 100\<rparr> else runtime)
      in invalidate ((put_runtime i runtime' p)
        \<lparr>pl_repo := record_account_state i (st_status s) (Some (take 500 reason)) (to_iso (st_resetAt s)) (pl_repo p)\<rparr>))"

definition mark_rate_limited :: "account \<Rightarrow> upstream_error \<Rightarrow> num \<Rightarrow> real \<Rightarrow> account_pool \<Rightarrow> account_pool" where
  "mark_rate_limited a error now rnd p =
     persist_block (ac_id a) (handle_rate_limit (to_balancer_state p [] a) error (now / 1000) rnd)
       (dflt (ue_message error) ''Rate limited'') p"

definition mark_quota_exceeded :: "account \<Rightarrow> upstream_error \<Rightarrow> num \<Rightarrow> account_pool \<Rightarrow> account_pool" where
  "mark_quota_exceeded a error now p =
     persist_block (ac_id a) (handle_quota_exceeded (to_balancer_state p [] a) error (now / 1000))
       (dflt (ue_message error) ''Usage limit reached'') p"

definition mark_transient_error :: "string \<Rightarrow> num \<Rightarrow> account_pool \<Rightarrow> account_pool" where
  "mark_transient_error i now p = (let runtime = runtime_of p i
     in put_runtime i (runtime\<lparr>rt_errorCount := rt_errorCount runtime + 1, rt_lastErrorAt := Some (now / 1000)\<rparr>) p)"

text \<open>The change that marks an access token expired; \<open>credentialsExpiresAt\<close> in the past stays.\<close>

definition expire_token :: "num \<Rightarrow> account \<Rightarrow> unit \<times> credential_update option" where
  "expire_token now current = ((), case ac_credentialsExpiresAt current of
     Some t \<Rightarrow> if t \<le> now then None else Some (no_update\<lparr>cu_credentialsExpiresAt := Some (Some (js_trunc now))\<rparr>)
   | None \<Rightarrow> Some (no_update\<lparr>cu_credentialsExpiresAt := Some (Some (js_trunc now))\<rparr>))"

definition mark_permanent_failure :: "account \<Rightarrow> string \<Rightarrow> bool \<Rightarrow> num \<Rightarrow> account_pool \<Rightarrow> account_pool" where
  "mark_permanent_failure a code accessTokenRejected now p =
     (let s = handle_permanent_failure (to_balancer_state p [] a) code;
          p1 = put_runtime (ac_id a) ((runtime_of p (ac_id a))\<lparr>rt_status := Some (st_status s)\<rparr>) p;
          repo1 = record_account_state (ac_id a) (st_status s) (st_deactivationReason s) None (pl_repo p);
          repo2 = (if accessTokenRejected then fst (with_credential_lock (ac_id a) (expire_token now) repo1) else repo1)
      in invalidate (p1\<lparr>pl_repo := repo2\<rparr>))"

record header_usage =
  hu_primaryUsedPercent :: "num option"
  hu_secondaryUsedPercent :: "num option"
  hu_primaryResetAt :: "num option"
  hu_secondaryResetAt :: "num option"
  hu_primaryWindowMinutes :: "num option"
  hu_secondaryWindowMinutes :: "num option"

definition usage_inputs :: "header_usage \<Rightarrow> window_input list" where
  "usage_inputs u =
     (if hu_primaryUsedPercent u = None then []
      else [\<lparr>wi_quotaKey = [], wi_window = PrimaryUsage, wi_usedPercent = hu_primaryUsedPercent u,
             wi_resetAt = hu_primaryResetAt u, wi_windowMinutes = hu_primaryWindowMinutes u\<rparr>])
     @ (if hu_secondaryUsedPercent u = None then []
      else [\<lparr>wi_quotaKey = [], wi_window = SecondaryUsage, wi_usedPercent = hu_secondaryUsedPercent u,
             wi_resetAt = hu_secondaryResetAt u, wi_windowMinutes = hu_secondaryWindowMinutes u\<rparr>])"

definition record_usage :: "string \<Rightarrow> header_usage \<Rightarrow> account_pool \<Rightarrow> account_pool" where
  "record_usage i u p =
     (let runtime = runtime_of p i;
          p1 = put_runtime i (runtime\<lparr>rt_usedPercent := or_else (hu_primaryUsedPercent u) (rt_usedPercent runtime),
            rt_secondaryUsedPercent := or_else (hu_secondaryUsedPercent u) (rt_secondaryUsedPercent runtime)\<rparr>) p
      in if usage_inputs u \<noteq> [] then p1\<lparr>pl_repo := save_usage_windows i (usage_inputs u) (pl_repo p1)\<rparr> else p1)"

subsection \<open>Credentials\<close>

datatype pool_error = CredentialKeyMissing | FreePlanPaused | CredentialsUnreadable | PermanentFailure string

definition iso_of_ms :: "num option \<Rightarrow> num option" where
  "iso_of_ms t = (if truthy t then map_option js_trunc t else None)"

definition named :: "string option \<Rightarrow> string option option" where
  "named t = (case t of Some (c # cs) \<Rightarrow> Some t | _ \<Rightarrow> None)"

definition refreshed_update :: "cipher \<Rightarrow> string \<Rightarrow> refreshed_credentials \<Rightarrow> num \<Rightarrow> stored_credentials \<times> credential_update" where
  "refreshed_update c i refreshed now =
     (rc_stored refreshed,
      no_update\<lparr>cu_credentialsEncrypted := Some (cp_seal c (rc_stored refreshed) i),
        cu_credentialsExpiresAt := Some (iso_of_ms (sc_accessExpiresAtMs (rc_stored refreshed))),
        cu_lastRefreshAt := Some (Some (js_trunc now)),
        cu_planType := named (rc_planType refreshed), cu_email := named (rc_email refreshed)\<rparr>)"

definition permanent_code :: "string option \<Rightarrow> bool" where
  "permanent_code code = (case code of None \<Rightarrow> False | Some c \<Rightarrow> c \<in> fst ` set permanent_failure_codes)"

text \<open>
  What the callback of the credential lock in \<open>credentials\<close> answers: it could not read the stored
  credentials (the promise rejects), or the credentials to use and a permanent refusal, if any.
\<close>

datatype lock_answer = Unreadable | Answer stored_credentials "string option"

definition refresh_when_due ::
  "pool_env \<Rightarrow> cipher \<Rightarrow> stored_credentials \<Rightarrow> num \<Rightarrow> account \<Rightarrow> lock_answer \<times> credential_update option" where
  "refresh_when_due env c current now fresh =
     (case cp_unseal c (ac_credentialsEncrypted fresh) (ac_id fresh) of None \<Rightarrow> (Unreadable, None)
      | Some latest \<Rightarrow>
          if \<not> pe_needsRefresh env fresh latest now then (Answer latest None, None)
          else case pe_refresh env latest of
            Inr refreshed \<Rightarrow> (let (stored, update) = refreshed_update c (ac_id fresh) refreshed now in (Answer stored None, Some update))
          | Inl code \<Rightarrow> if permanent_code code then (Answer current code, None) else (Answer latest None, None))"

text \<open>What follows the lock: a permanent refusal is marked, and a plan that turned out free is paused.\<close>

definition after_refresh ::
  "pool_env \<Rightarrow> stored_credentials \<Rightarrow> string option \<Rightarrow> account option \<Rightarrow> num \<Rightarrow> account_pool
   \<Rightarrow> account_pool \<times> (pool_error + stored_credentials)" where
  "after_refresh env result permanent updated now p =
     (case updated of None \<Rightarrow> (invalidate p, Inr result)
      | Some u \<Rightarrow>
          (let p1 = (case permanent of None \<Rightarrow> p
                | Some code \<Rightarrow> mark_permanent_failure u code (code \<in> set access_token_rejections) now p)
           in if permanent \<noteq> None \<and> st_status (to_balancer_state p1 [] u) = DEACTIVATED
              then (p1, Inl (PermanentFailure (dflt permanent [])))
              else if is_gateway_free_plan (ac_planType u)
              then ((invalidate p1)\<lparr>pl_repo := fst (pause_if_free env u (pl_repo p1))\<rparr>, Inl FreePlanPaused)
              else (invalidate p1, Inr result)))"

definition credentials ::
  "pool_env \<Rightarrow> account \<Rightarrow> num \<Rightarrow> account_pool \<Rightarrow> account_pool \<times> (pool_error + stored_credentials)" where
  "credentials env a now p =
     (case pe_cipher env of None \<Rightarrow> (p, Inl CredentialKeyMissing)
      | Some c \<Rightarrow>
          if is_gateway_free_plan (ac_planType a)
          then (invalidate (p\<lparr>pl_repo := fst (pause_if_free env a (pl_repo p))\<rparr>), Inl FreePlanPaused)
          else case cp_unseal c (ac_credentialsEncrypted a) (ac_id a) of None \<Rightarrow> (p, Inl CredentialsUnreadable)
          | Some current \<Rightarrow>
              if \<not> pe_needsRefresh env a current now then (p, Inr current)
              else case with_credential_lock (ac_id a) (refresh_when_due env c current now) (pl_repo p) of
                (repo', None) \<Rightarrow> after_refresh env current None None now (p\<lparr>pl_repo := repo'\<rparr>)
              | (repo', Some (Unreadable, _)) \<Rightarrow> (p\<lparr>pl_repo := repo'\<rparr>, Inl CredentialsUnreadable)
              | (repo', Some (Answer result permanent, u)) \<Rightarrow> after_refresh env result permanent (Some u) now (p\<lparr>pl_repo := repo'\<rparr>))"

datatype refresh_outcome = Renewed | Refused string | Unreachable

text \<open>The callback of the lock in \<open>refreshRejectedToken\<close>: the outcome, and the refusal it names.\<close>

definition refresh_forced ::
  "pool_env \<Rightarrow> cipher \<Rightarrow> account \<Rightarrow> string \<Rightarrow> num \<Rightarrow> account \<Rightarrow> refresh_outcome \<times> credential_update option" where
  "refresh_forced env c a code now fresh =
     (if ac_lastRefreshAt fresh \<noteq> ac_lastRefreshAt a then (Renewed, None)
      else case cp_unseal c (ac_credentialsEncrypted fresh) (ac_id fresh) of None \<Rightarrow> (Unreachable, None)
      | Some latest \<Rightarrow>
          if sc_refreshToken latest \<in> {None, Some []} then (Refused code, None)
          else case pe_refresh env latest of
            Inr refreshed \<Rightarrow> (let update = snd (refreshed_update c (ac_id fresh) refreshed now)
              in (Renewed, Some (if ac_status fresh = REAUTH_REQUIRED
                    then update\<lparr>cu_status := Some ACTIVE, cu_statusReason := Some None\<rparr> else update)))
          | Inl e \<Rightarrow> if permanent_code e then (Refused (dflt e []), None) else (Unreachable, None))"

definition revive_runtime :: "string \<Rightarrow> account_pool \<Rightarrow> account_pool" where
  "revive_runtime i p = (if rt_status (runtime_of p i) = Some REAUTH_REQUIRED
     then put_runtime i ((runtime_of p i)\<lparr>rt_status := Some ACTIVE\<rparr>) p else p)"

definition refresh_rejected_token ::
  "pool_env \<Rightarrow> account \<Rightarrow> string \<Rightarrow> num \<Rightarrow> account_pool \<Rightarrow> account_pool \<times> account option" where
  "refresh_rejected_token env a code now p =
     (let rejected = code \<in> set access_token_rejections;
          refreshedAt = dflt (ac_lastRefreshAt a) 0
      in if pe_cipher env = None \<or> \<not> rejected \<or> now - refreshedAt < FORCED_REFRESH_MIN_AGE_MS
         then (mark_permanent_failure a code rejected now p, None)
         else case pe_cipher env of None \<Rightarrow> (p, None)
         | Some c \<Rightarrow> (case with_credential_lock (ac_id a) (refresh_forced env c a code now) (pl_repo p) of
             (repo', None) \<Rightarrow> (mark_permanent_failure a code True now (p\<lparr>pl_repo := repo'\<rparr>), None)
           | (repo', Some (Renewed, u)) \<Rightarrow>
               if is_gateway_free_plan (ac_planType u)
               then (invalidate (p\<lparr>pl_repo := fst (pause_if_free env u repo')\<rparr>), None)
               else (invalidate (revive_runtime (ac_id a) (p\<lparr>pl_repo := repo'\<rparr>)), Some u)
           | (repo', Some (Unreachable, _)) \<Rightarrow> (mark_transient_error (ac_id a) now (p\<lparr>pl_repo := repo'\<rparr>), None)
           | (repo', Some (Refused refusal, u)) \<Rightarrow> (mark_permanent_failure u refusal True now (p\<lparr>pl_repo := repo'\<rparr>), None)))"

end
