(* ===== verification/Account_Pool_Props.thy ===== *)
theory Account_Pool_Props
  imports Account_Pool
begin

text \<open>
  What the account pool promises: the pool as a transition system (\<open>pool_step\<close>, one rule per method and
  one for writes by other processes to the shared storage), its invariant, and what each mark means
  for the next selection.
\<close>

subsection \<open>The pool as a transition system\<close>

inductive pool_call :: "pool_env \<Rightarrow> account_pool \<Rightarrow> account_pool \<Rightarrow> bool" for env where
  step_signed_in: "pool_call env p (signed_in i p)"
| step_invalidate: "pool_call env p (invalidate p)"
| step_lift: "pool_call env p (fst (lift_expired_block a usageClear now p))"
| step_accounts: "pool_call env p (fst (pool_accounts env now p))"
| step_used: "pool_call env p (mark_selected i None now p)"
| step_touch: "pool_call env p (touch i now p)"
| step_absorb: "pool_call env p (absorb s p)"
| step_success: "pool_call env p (mark_success env i now p)"
| step_rate_limited: "pool_call env p (mark_rate_limited a e now rnd p)"
| step_quota: "pool_call env p (mark_quota_exceeded a e now p)"
| step_transient: "pool_call env p (mark_transient_error i now p)"
| step_permanent: "pool_call env p (mark_permanent_failure a code rejected now p)"
| step_usage: "pool_call env p (record_usage i u p)"
| step_credentials: "pool_call env p (fst (credentials env a now p))"
| step_refresh: "pool_call env p (fst (refresh_rejected_token env a code now p))"
| step_storage: "pool_call env p (p\<lparr>pl_repo := repo\<rparr>)"

text \<open>With the two that move requests between accounts.\<close>

inductive pool_step :: "pool_env \<Rightarrow> account_pool \<Rightarrow> account_pool \<Rightarrow> bool" for env where
  step_call: "pool_call env p q \<Longrightarrow> pool_step env p q"
| step_selected: "pool_step env p (mark_selected i response now p)"
| step_closed: "pool_step env p (response_closed r p)"

abbreviation pool_reachable :: "pool_env \<Rightarrow> gateway_repo \<Rightarrow> account_pool \<Rightarrow> bool" where
  "pool_reachable env repo p \<equiv> (pool_step env)\<^sup>*\<^sup>* (new_pool repo) p"

definition no_zero :: "('a \<Rightarrow> nat option) \<Rightarrow> bool" where
  "no_zero m = (\<forall>i. m i \<noteq> Some 0)"

interpretation active: in_flight_counter no_zero count_active enter_active release_active
proof unfold_locales
  show "no_zero m \<Longrightarrow> no_zero (enter_active k m)" "no_zero m \<Longrightarrow> no_zero (release_active k m)" for k m
    by (auto simp: no_zero_def enter_active_def release_active_def Let_def)
  show "count_active (enter_active k m) k' = (if k' = k then Suc (count_active m k) else count_active m k')" for k k' m
    by (simp add: count_active_def enter_active_def)
  show "count_active (release_active k m) k' = (if k' = k then count_active m k - 1 else count_active m k')" for k k' m
    by (cases "m k") (auto simp: count_active_def release_active_def Let_def)
qed

definition cache_clean :: "account_pool \<Rightarrow> bool" where
  "cache_clean p = (case pl_cache p of None \<Rightarrow> True
     | Some (_, as) \<Rightarrow> \<forall>a \<in> set as. is_gateway_free_plan (ac_planType a) \<longrightarrow> ac_status a = PAUSED)"

definition pool_inv :: "account_pool \<Rightarrow> bool" where
  "pool_inv p = (cache_clean p \<and> active.tracks (pl_active p) (pl_responses p) \<and> pl_listening p = dom (pl_responses p))"

subsection \<open>Frames\<close>

lemma put_runtime_simps [simp]:
  "pl_cache (put_runtime i r p) = pl_cache p" "pl_repo (put_runtime i r p) = pl_repo p"
  "pl_active (put_runtime i r p) = pl_active p" "pl_responses (put_runtime i r p) = pl_responses p"
  "pl_listening (put_runtime i r p) = pl_listening p"
  "runtime_of (put_runtime i r p) j = (if j = i then r else runtime_of p j)"
  by (simp_all add: put_runtime_def runtime_of_def)

lemma invalidate_simps [simp]:
  "pl_cache (invalidate p) = None" "pl_repo (invalidate p) = pl_repo p" "pl_active (invalidate p) = pl_active p"
  "pl_responses (invalidate p) = pl_responses p" "pl_listening (invalidate p) = pl_listening p" "runtime_of (invalidate p) j = runtime_of p j"
  by (simp_all add: invalidate_def runtime_of_def)

lemma runtime_repo [simp]: "runtime_of (p\<lparr>pl_repo := r\<rparr>) i = runtime_of p i"
  by (simp add: runtime_of_def)

lemma to_balancer_repo [simp]:
  "to_balancer_state (p\<lparr>pl_repo := r\<rparr>) q a = to_balancer_state p q a"
  "to_balancer_state (invalidate p) q a = to_balancer_state p q a"
  by (simp_all add: to_balancer_state_def)

text \<open>Two pools agree on what the invariant reads, up to a cleared cache.\<close>

definition same_load :: "account_pool \<Rightarrow> account_pool \<Rightarrow> bool" where
  "same_load p q = (pl_active q = pl_active p \<and> pl_responses q = pl_responses p \<and> pl_listening q = pl_listening p \<and> (pl_cache q = None \<or> pl_cache q = pl_cache p))"

lemma same_load_inv: "same_load p q \<Longrightarrow> pool_inv p \<Longrightarrow> pool_inv q"
  by (auto simp: same_load_def pool_inv_def cache_clean_def)

lemma same_load_refl [simp]: "same_load p p"
  by (simp add: same_load_def)

lemma same_load_put [simp]: "same_load p (put_runtime i r q) = same_load p q"
  by (simp add: same_load_def)

lemma same_load_repo [simp]: "same_load p (q\<lparr>pl_repo := r\<rparr>) = same_load p q"
  by (simp add: same_load_def)

lemma same_load_invalidate [intro]: "same_load p q \<Longrightarrow> same_load p (invalidate q)"
  by (simp add: same_load_def)

lemma same_load_permanent: "same_load p q \<Longrightarrow> same_load p (mark_permanent_failure a code rj now q)"
  by (simp add: mark_permanent_failure_def Let_def same_load_invalidate)

lemma same_load_transient: "same_load p q \<Longrightarrow> same_load p (mark_transient_error i now q)"
  by (simp add: mark_transient_error_def Let_def)

lemma same_load_after:
  "same_load p q \<Longrightarrow> same_load p (fst (after_refresh env res perm u now q))"
  by (auto simp: after_refresh_def Let_def same_load_invalidate same_load_permanent split: option.splits)

lemma same_load_credentials: "same_load p (fst (credentials env a now p))"
  by (auto simp: credentials_def same_load_invalidate same_load_after split: option.splits prod.splits lock_answer.splits)

lemma same_load_refresh: "same_load p (fst (refresh_rejected_token env a code now p))"
  by (auto simp: refresh_rejected_token_def Let_def revive_runtime_def same_load_invalidate same_load_permanent
      same_load_transient split: option.splits prod.splits refresh_outcome.splits)

lemma same_load_persist: "same_load p (persist_block i s reason p)"
  by (simp add: persist_block_def Let_def same_load_invalidate)

lemma pause_if_free_clean:
  "pause_if_free env a repo = (repo', a') \<Longrightarrow> is_gateway_free_plan (ac_planType a') \<Longrightarrow> ac_status a' = PAUSED"
  by (auto simp: pause_if_free_def set_account_status_def split: if_splits option.splits prod.splits)

lemma pause_all_clean:
  "pause_all env as repo = (repo', as') \<Longrightarrow> \<forall>a \<in> set as'. is_gateway_free_plan (ac_planType a) \<longrightarrow> ac_status a = PAUSED"
  by (induction env as repo arbitrary: repo' as' rule: pause_all.induct)
    (auto simp: Let_def split: prod.splits dest: pause_if_free_clean)

lemma pool_accounts_inv: "pool_inv p \<Longrightarrow> pool_inv (fst (pool_accounts env now p))"
  by (auto simp: pool_accounts_def Let_def pool_inv_def cache_clean_def split: option.splits prod.splits dest!: pause_all_clean)

lemma mark_selected_inv: "pool_inv p \<Longrightarrow> pool_inv (mark_selected i response now p)"
proof -
  assume inv: "pool_inv p"
  define q where "q = put_runtime i ((runtime_of p i)\<lparr>rt_lastSelectedAt := Some (now / 1000)\<rparr>) p"
  have q: "pool_inv q" using inv by (simp add: q_def pool_inv_def cache_clean_def)
  show ?thesis
  proof (cases response)
    case None
    then show ?thesis using q by (simp add: mark_selected_def q_def)
  next
    case (Some r)
    then show ?thesis
      using q active.tracks_enter[of "pl_active q" "pl_responses q" r i]
        active.tracks_move[of "pl_active q" "pl_responses q" r _ i]
      unfolding mark_selected_def q_def[symmetric] Let_def
      by (cases "pl_responses q r") (auto simp: pool_inv_def cache_clean_def)
  qed
qed

lemma response_closed_inv: "pool_inv p \<Longrightarrow> pool_inv (response_closed r p)"
proof -
  assume inv: "pool_inv p"
  show ?thesis
  proof (cases "pl_responses p r")
    case None
    with inv show ?thesis by (simp add: response_closed_def pool_inv_def domIff)
  next
    case (Some i)
    then show ?thesis
      using inv active.tracks_leave[of "pl_active p" "pl_responses p" r i]
      by (auto simp: response_closed_def pool_inv_def cache_clean_def)
  qed
qed

text \<open>The other methods leave the counters, the responses and the listeners alone.\<close>

definition same_flight :: "account_pool \<Rightarrow> account_pool \<Rightarrow> bool" where
  "same_flight p q = (pl_active q = pl_active p \<and> pl_responses q = pl_responses p \<and> pl_listening q = pl_listening p)"

lemma same_load_flight: "same_load p q \<Longrightarrow> same_flight p q"
  by (simp add: same_load_def same_flight_def)

lemma load_keeps: "same_load p q \<Longrightarrow> same_flight p q \<and> (pool_inv p \<longrightarrow> pool_inv q)"
  using same_load_flight same_load_inv by blast

lemma accounts_flight: "same_flight p (fst (pool_accounts env now p))"
  by (auto simp: pool_accounts_def Let_def same_flight_def split: option.splits prod.splits)

lemma mark_success_load: "same_load (fst (pool_accounts env now p)) (mark_success env i now p)"
  by (auto simp: mark_success_def Let_def same_load_invalidate split: prod.splits)

lemma pool_call_keeps: "pool_call env p q \<Longrightarrow> same_flight p q \<and> (pool_inv p \<longrightarrow> pool_inv q)"
proof (induction rule: pool_call.induct)
  case (step_accounts p now)
  then show ?case using accounts_flight pool_accounts_inv by blast
next
  case (step_success p i now)
  have "same_flight p (mark_success env i now p)"
    using same_load_flight[OF mark_success_load[of env now p i]] accounts_flight[of p env now] by (simp add: same_flight_def)
  then show ?case using same_load_inv[OF mark_success_load pool_accounts_inv] by blast
next
  case (step_used p i now)
  have "same_load p (mark_selected i None now p)" by (simp add: mark_selected_def)
  then show ?case using same_load_flight same_load_inv by blast
qed (rule load_keeps; auto simp: signed_in_def touch_def absorb_def Let_def lift_expired_block_def
    mark_rate_limited_def mark_quota_exceeded_def record_usage_def same_load_persist same_load_permanent same_load_transient
    same_load_credentials same_load_refresh same_load_invalidate same_load_def[of _ "p\<lparr>pl_runtime := r\<rparr>" for p r]
    split: option.splits)+

lemma pool_step_inv: "pool_step env p q \<Longrightarrow> pool_inv p \<Longrightarrow> pool_inv q"
  by (induction rule: pool_step.induct) (auto dest: pool_call_keeps intro: mark_selected_inv response_closed_inv)

lemma pool_reachable_inv: "pool_reachable env repo p \<Longrightarrow> pool_inv p"
proof (induction rule: rtranclp_induct)
  case base
  have "active.tracks (\<lambda>_. None) (\<lambda>_. None)" by (rule active.tracks_start) (simp_all add: no_zero_def count_active_def)
  then show ?case by (simp add: pool_inv_def cache_clean_def new_pool_def)
next
  case (step q r)
  then show ?case by (auto intro: pool_step_inv)
qed

subsection \<open>Responses\<close>

text \<open>
  The pool among the responses of its clients, with what the code does not record: which responses have closed
  (each does once), which account was chosen last for each, and which were marked only after they had closed.
  The listener of such a late mark never runs.
\<close>

record pool_world =
  pw_pool :: account_pool
  pw_closed :: "nat set"
  pw_late :: "nat set"
  pw_chosen :: "nat \<Rightarrow> string option"

inductive world_step :: "pool_env \<Rightarrow> pool_world \<Rightarrow> pool_world \<Rightarrow> bool" for env where
  works: "pool_call env (pw_pool w) p \<Longrightarrow> world_step env w (w\<lparr>pw_pool := p\<rparr>)"
| chooses: "world_step env w (w\<lparr>pw_pool := mark_selected i (Some r) now (pw_pool w), pw_chosen := (pw_chosen w)(r \<mapsto> i),
    pw_late := (if r \<in> pw_closed w then insert r (pw_late w) else pw_late w)\<rparr>)"
| closes: "r \<notin> pw_closed w \<Longrightarrow>
    world_step env w (w\<lparr>pw_pool := response_closed r (pw_pool w), pw_closed := insert r (pw_closed w)\<rparr>)"

definition new_pool_world :: "gateway_repo \<Rightarrow> pool_world" where
  "new_pool_world repo = \<lparr>pw_pool = new_pool repo, pw_closed = {}, pw_late = {}, pw_chosen = (\<lambda>_. None)\<rparr>"

abbreviation pool_world_reachable :: "pool_env \<Rightarrow> gateway_repo \<Rightarrow> pool_world \<Rightarrow> bool" where
  "pool_world_reachable env repo w \<equiv> (world_step env)\<^sup>*\<^sup>* (new_pool_world repo) w"

definition flight_ok :: "pool_world \<Rightarrow> bool" where
  "flight_ok w = (pool_inv (pw_pool w) \<and> pw_late w \<subseteq> pw_closed w \<and>
     (\<forall>r. pl_responses (pw_pool w) r = (if r \<notin> pw_closed w \<or> r \<in> pw_late w then pw_chosen w r else None)))"

lemma mark_responses: "pl_responses (mark_selected i (Some r) now p) = (pl_responses p)(r \<mapsto> i)"
  by (auto simp: mark_selected_def Let_def fun_upd_idem_iff split: option.splits)

lemma closed_responses: "pool_inv p \<Longrightarrow> pl_responses (response_closed r p) = (pl_responses p)(r := None)"
  by (auto simp: response_closed_def pool_inv_def Let_def fun_upd_idem_iff domIff split: option.splits)

lemma world_step_ok: "world_step env w w' \<Longrightarrow> flight_ok w \<Longrightarrow> flight_ok w'"
proof (induction rule: world_step.induct)
  case (works w p)
  then show ?case using pool_call_keeps[OF works(1)] by (auto simp: flight_ok_def same_flight_def)
next
  case (chooses w i r now)
  then show ?case by (auto simp: flight_ok_def mark_responses mark_selected_inv)
next
  case (closes r w)
  then show ?case by (auto simp: flight_ok_def closed_responses response_closed_inv)
qed

lemma pool_world_ok: "pool_world_reachable env repo w \<Longrightarrow> flight_ok w"
proof (induction rule: rtranclp_induct)
  case base
  have "pool_inv (new_pool repo)" using pool_reachable_inv[of env repo "new_pool repo"] by blast
  then show ?case by (simp add: flight_ok_def new_pool_world_def) (simp add: new_pool_def)
qed (rule world_step_ok)

subsection \<open>Properties\<close>

text \<open>
  C31. The in-flight counters are exact. However attempts choose accounts, move a response from one account to
  another and responses close, the count \<open>inFlight\<close> shows for an account is the number of responses that are
  still open and whose last attempt chose it, and of those that had closed before an attempt chose it for them
  (their listener comes too late, and they count for good); an account without any does not appear.
\<close>

theorem in_flight_exact:
  assumes "pool_world_reachable env repo w"
  shows "dflt (in_flight (pw_pool w) i) 0 =
      card {r. r \<notin> pw_closed w \<and> pw_chosen w r = Some i} + card {r. r \<in> pw_late w \<and> pw_chosen w r = Some i} \<and>
    in_flight (pw_pool w) i \<noteq> Some 0"
proof -
  note ok = pool_world_ok[OF assms]
  then have tracks: "active.tracks (pl_active (pw_pool w)) (pl_responses (pw_pool w))" "no_zero (pl_active (pw_pool w))"
    by (simp_all add: flight_ok_def pool_inv_def active.tracks_def)
  let ?open = "{r. r \<notin> pw_closed w \<and> pw_chosen w r = Some i}" and ?late = "{r. r \<in> pw_late w \<and> pw_chosen w r = Some i}"
  have split: "{r. pl_responses (pw_pool w) r = Some i} = ?open \<union> ?late" using ok by (auto simp: flight_ok_def split: if_splits)
  have fin: "finite (?open \<union> ?late)" unfolding split[symmetric] by (rule active.owned_finite) (use tracks(1) in \<open>simp add: active.tracks_def\<close>)
  have "?open \<inter> ?late = {}" using ok by (auto simp: flight_ok_def)
  then have "card (?open \<union> ?late) = card ?open + card ?late" using fin by (intro card_Un_disjoint) simp_all
  then show ?thesis using active.tracks_count[OF tracks(1), of i] tracks(2)
    by (simp add: split count_active_def in_flight_def no_zero_def)
qed

definition demo_pool_env :: pool_env where
  "demo_pool_env = \<lparr>pe_provider = ''CODEX'', pe_cipher = Some \<lparr>cp_seal = (\<lambda>c i. sc_accessToken c),
     cp_unseal = (\<lambda>s i. Some \<lparr>sc_accessToken = s, sc_refreshToken = Some ''r'', sc_idToken = None,
       sc_upstreamAccountId = None, sc_accessExpiresAtMs = None\<rparr>)\<rparr>,
     pe_needsRefresh = (\<lambda>_ _ _. False), pe_refresh = (\<lambda>_. Inl None), pe_pauseStored = True\<rparr>"

text \<open>Three responses choose an account; the first closes, and the second had closed before.\<close>

definition demo_choice :: "nat \<Rightarrow> pool_world \<Rightarrow> pool_world" where
  "demo_choice r w = w\<lparr>pw_pool := mark_selected ''a'' (Some r) 0 (pw_pool w), pw_chosen := (pw_chosen w)(r \<mapsto> ''a''),
     pw_late := (if r \<in> pw_closed w then insert r (pw_late w) else pw_late w)\<rparr>"

definition demo_close :: "nat \<Rightarrow> pool_world \<Rightarrow> pool_world" where
  "demo_close r w = w\<lparr>pw_pool := response_closed r (pw_pool w), pw_closed := insert r (pw_closed w)\<rparr>"

definition demo_flight :: pool_world where
  "demo_flight = demo_choice 3 (demo_choice 2 (demo_close 2 (demo_close 1 (demo_choice 1 (new_pool_world demo_repo)))))"

lemmas demo_flights = demo_flight_def demo_choice_def demo_close_def

theorem in_flight_exact_witness:
  "dflt (in_flight (pw_pool demo_flight) ''a'') 0 = 2 \<and> card {r. r \<notin> pw_closed demo_flight \<and> pw_chosen demo_flight r = Some ''a''} = 1"
proof -
  have choice: "pool_world_reachable demo_pool_env demo_repo w \<Longrightarrow> pool_world_reachable demo_pool_env demo_repo (demo_choice r w)" for r w
    unfolding demo_choice_def by (rule rtranclp.rtrancl_into_rtrancl) (assumption, rule chooses)
  have close: "pool_world_reachable demo_pool_env demo_repo w \<Longrightarrow> r \<notin> pw_closed w \<Longrightarrow>
      pool_world_reachable demo_pool_env demo_repo (demo_close r w)" for r w
    unfolding demo_close_def by (rule rtranclp.rtrancl_into_rtrancl) (assumption, rule closes)
  have reach: "pool_world_reachable demo_pool_env demo_repo demo_flight" unfolding demo_flight_def
    by (intro choice close) (simp_all add: demo_choice_def demo_close_def new_pool_world_def)
  have "{r. r \<notin> pw_closed demo_flight \<and> pw_chosen demo_flight r = Some ''a''} = {3}"
    "{r. r \<in> pw_late demo_flight \<and> pw_chosen demo_flight r = Some ''a''} = {2}"
    by (auto simp: demo_flights new_pool_world_def split: if_splits)
  with in_flight_exact[OF reach, of "''a''"] show ?thesis by simp
qed

lemma balancer_paused: "ac_status a = PAUSED \<Longrightarrow> st_status (to_balancer_state p q a) = PAUSED"
  by (simp add: to_balancer_state_def Let_def)

lemma balancer_id [simp]: "st_accountId (to_balancer_state p q a) = ac_id a"
  by (simp add: to_balancer_state_def Let_def blank_account_def)

lemma selected_from:
  assumes "select_account renv opts (map (to_balancer_state p q) as) = (ss, r)" "sr_account r = Some s"
  obtains a v where "a \<in> set as" "ac_id a = st_accountId s" "recover_one opts (to_balancer_state p q a) = (s, v)" "v \<noteq> Skipped"
proof -
  obtain s0 v where s0: "s0 \<in> set (map (to_balancer_state p q) as)" "recover_one opts s0 = (s, v)" "v \<noteq> Skipped"
    using select_account_poolE[OF assms] by metis
  then obtain a where "a \<in> set as" "s0 = to_balancer_state p q a" by auto
  with s0 recover_one_identity(1)[OF s0(2)] show ?thesis by (intro that[of a v]) simp_all
qed

text \<open>
  C30. Free and paused accounts never serve. Whatever the pool went through, a selection over the
  accounts it lists chooses an account that is neither paused by the operator nor on a free plan; no
  limit, recovery or success learned upstream lifts a pause.
\<close>

theorem free_or_paused_never_selected:
  assumes "pool_reachable env repo p" "pool_accounts env now p = (p', as)"
    and "select_account renv opts (map (to_balancer_state p' q) (filter keep as)) = (ss, r)" "sr_account r = Some s"
  shows "\<exists>a \<in> set as. ac_id a = st_accountId s \<and> ac_status a \<noteq> PAUSED \<and> \<not> is_gateway_free_plan (ac_planType a)"
proof -
  from selected_from[OF assms(3,4)] obtain a v where
    a: "a \<in> set (filter keep as)" "ac_id a = st_accountId s" "recover_one opts (to_balancer_state p' q a) = (s, v)" "v \<noteq> Skipped"
    by blast
  have np: "ac_status a \<noteq> PAUSED"
    using a(3,4) balancer_paused[of a p' q] by (auto simp: recover_one_eq filtered_out_def)
  have "pool_inv p'" using pool_accounts_inv[OF pool_reachable_inv[OF assms(1)], of env now] assms(2) by simp
  moreover have "\<exists>t. pl_cache p' = Some (t, as)"
    using assms(2) by (auto simp: pool_accounts_def Let_def split: option.splits prod.splits if_splits)
  ultimately have "\<not> is_gateway_free_plan (ac_planType a)"
    using a(1) np by (auto simp: pool_inv_def cache_clean_def)
  with a(1,2) np show ?thesis by auto
qed

theorem free_or_paused_never_selected_witness:
  "\<exists>a :: account. ac_id a = ''a'' \<and> ac_status a \<noteq> PAUSED \<and> \<not> is_gateway_free_plan (ac_planType a)"
proof -
  let ?p = "new_pool demo_repo"
  have acc: "pool_accounts demo_pool_env 0 ?p = (?p\<lparr>pl_cache := Some (0, [demo_account])\<rparr>, [demo_account])"
    by (simp add: pool_accounts_def new_pool_def demo_repo_def Let_def demo_pool_env_def pause_if_free_def)
      (simp add: demo_account_def fresh_account_def is_gateway_free_plan_def js_trim_def is_space_def js_lower_def lower_char_def)
  let ?states = "map (to_balancer_state (?p\<lparr>pl_cache := Some (0, [demo_account])\<rparr>) []) (filter (\<lambda>_. True) [demo_account])"
  obtain ss r where sel: "select_account demo_env demo_opts ?states = (ss, r)" by fastforce
  have some: "map_option st_accountId (sr_account (snd (select_account demo_env demo_opts ?states))) = Some ''a''"
    by code_simp
  then obtain s where s: "sr_account r = Some s" "st_accountId s = ''a''" using sel by auto
  from free_or_paused_never_selected[OF rtranclp.rtrancl_refl acc sel s(1)] s(2) show ?thesis by fastforce
qed

lemma balancer_blocked:
  assumes "runtime_of p (ac_id a) = rt" "rt_status rt = Some st" "rt_resetAt rt = Some x"
  shows "st_status (to_balancer_state p q a) = (if ac_status a = PAUSED then PAUSED else st)"
    "st_resetAt (to_balancer_state p q a) = Some x"
  using assms by (simp_all add: to_balancer_state_def Let_def)

lemma runtime_persist:
  "runtime_of (persist_block i s reason p) i =
     (let rt = (runtime_of p i)\<lparr>rt_status := Some (st_status s), rt_errorCount := st_errorCount s,
            rt_lastErrorAt := st_lastErrorAt s, rt_cooldownUntil := st_cooldownUntil s, rt_resetAt := st_resetAt s\<rparr>
      in if st_status s = QUOTA_EXCEEDED then rt\<lparr>rt_usedPercent := Some 100\<rparr> else rt)"
  by (simp add: persist_block_def Let_def)

text \<open>
  An account marked as rate limited rests. After \<open>markRateLimited\<close> there is a reset time, not in the
  past, such that no selection before it serves the account unless the request bypasses the standard
  quota: whatever copy of its record the selection uses, fresh from storage or cached before the mark.
\<close>

theorem rate_limited_account_rests:
  assumes "0 \<le> rnd" "p' = mark_rate_limited a error now rnd p"
  shows "\<exists>r \<ge> now / 1000. \<forall>a' opts q. ac_id a' = ac_id a \<longrightarrow> so_now opts < r \<longrightarrow>
    \<not> quota_bypassed opts (to_balancer_state p' q a') \<longrightarrow> snd (recover_one opts (to_balancer_state p' q a')) = Skipped"
proof -
  define s where "s = handle_rate_limit (to_balancer_state p [] a) error (now / 1000) rnd"
  obtain r where r: "st_resetAt s = Some r" "now / 1000 \<le> r"
    using handle_rate_limit_reset[OF assms(1) s_def] by blast
  have st: "st_status s = RATE_LIMITED" by (simp add: s_def handle_rate_limit_def Let_def)
  let ?rt = "runtime_of p' (ac_id a)"
  have rt: "rt_status ?rt = Some RATE_LIMITED" "rt_resetAt ?rt = Some r"
    using st r(1) unfolding assms(2) mark_rate_limited_def s_def[symmetric] runtime_persist by (simp_all add: Let_def)
  have "snd (recover_one opts (to_balancer_state p' q a')) = Skipped"
    if "ac_id a' = ac_id a" "so_now opts < r" "\<not> quota_bypassed opts (to_balancer_state p' q a')" for a' opts q
  proof -
    note b = balancer_blocked[of p' a' ?rt, OF _ rt, of q]
    show ?thesis
    proof (cases "ac_status a' = PAUSED")
      case True
      then show ?thesis using balancer_paused[of a' p' q] by (simp add: recover_one_eq filtered_out_def)
    next
      case False
      then have "limited_status (to_balancer_state p' q a')" "st_resetAt (to_balancer_state p' q a') = Some r"
        using b that(1) by (simp_all add: limited_status_def)
      from limited_skipped[OF this that(2,3)] show ?thesis by simp
    qed
  qed
  with r(2) show ?thesis by blast
qed

theorem rate_limited_account_rests_witness:
  "\<exists>r \<ge> 100. \<forall>opts. so_now opts < r \<longrightarrow> so_ignoreStandardQuota opts = False \<longrightarrow> so_bypassIds opts = [] \<longrightarrow>
     snd (recover_one opts (to_balancer_state (mark_rate_limited demo_account
       \<lparr>ue_message = None, ue_resetsAt = None, ue_resetsInSeconds = Some 60\<rparr> 100000 0 (new_pool demo_repo)) [] demo_account)) = Skipped"
  (is "\<exists>r \<ge> 100. \<forall>opts. _ \<longrightarrow> _ \<longrightarrow> _ \<longrightarrow> snd (recover_one opts (to_balancer_state ?p [] _)) = _")
proof -
  have q: "\<not> quota_bypassed opts (to_balancer_state ?p [] demo_account)"
    if "so_ignoreStandardQuota opts = False" "so_bypassIds opts = []" for opts
    using that by (simp add: quota_bypassed_def to_balancer_state_def Let_def blank_account_def)
  show ?thesis
    using rate_limited_account_rests[OF order_refl refl, where a = demo_account and now = 100000
        and error = "\<lparr>ue_message = None, ue_resetsAt = None, ue_resetsInSeconds = Some 60\<rparr>"
        and p = "new_pool demo_repo"] q
    by fastforce
qed

subsection \<open>Sign-outs, blocks and credentials\<close>

lemma runtime_permanent:
  "runtime_of (mark_permanent_failure a code rj now p) (ac_id a) =
     (runtime_of p (ac_id a))\<lparr>rt_status := Some (account_status_for_permanent_failure code)\<rparr>"
  by (simp add: mark_permanent_failure_def Let_def handle_permanent_failure_def)

lemma find_permanent:
  assumes "find_account (ac_id a) (pl_repo p) = Some stored" "ac_status stored \<noteq> PAUSED"
  obtains a' where "find_account (ac_id a) (pl_repo (mark_permanent_failure a code rj now p)) = Some a'"
    "ac_status a' = account_status_for_permanent_failure code" "ac_id a' = ac_id a"
    "ac_planType a' = ac_planType stored" "ac_credentialsEncrypted a' = ac_credentialsEncrypted stored"
    "rj \<Longrightarrow> 0 \<le> now \<Longrightarrow> \<exists>t. ac_credentialsExpiresAt a' = Some t \<and> t \<le> now"
    "\<not> rj \<Longrightarrow> ac_credentialsExpiresAt a' = ac_credentialsExpiresAt stored"
proof -
  define s where "s = handle_permanent_failure (to_balancer_state p [] a) code"
  define b where "b = recorded (st_status s) (st_deactivationReason s) None stored"
  define repo1 where "repo1 = record_account_state (ac_id a) (st_status s) (st_deactivationReason s) None (pl_repo p)"
  have b: "find_account (ac_id a) repo1 = Some b" by (simp add: repo1_def b_def repo.store_same assms(1))
  have bs: "ac_status b = account_status_for_permanent_failure code" "ac_id b = ac_id a" "ac_planType b = ac_planType stored"
    "ac_credentialsEncrypted b = ac_credentialsEncrypted stored" "ac_credentialsExpiresAt b = ac_credentialsExpiresAt stored"
    using assms find_account_id[OF assms(1)] by (simp_all add: b_def s_def recorded_def handle_permanent_failure_def)
  show ?thesis
  proof (cases "rj \<and> snd (expire_token now b) \<noteq> None")
    case True
    then obtain u where u: "snd (expire_token now b) = Some u" "u = no_update\<lparr>cu_credentialsExpiresAt := Some (Some (js_trunc now))\<rparr>"
      by (auto simp: expire_token_def split: option.splits if_splits)
    have e: "expire_token now b = ((), Some u)" using u(1) by (cases "expire_token now b") simp
    have "find_account (ac_id a) (pl_repo (mark_permanent_failure a code rj now p)) = Some (apply_update u b)"
      using True e b unfolding mark_permanent_failure_def s_def[symmetric] Let_def repo1_def[symmetric]
      by (simp add: with_credential_lock_def find_modify split: prod.splits)
    then show ?thesis
      by (rule that) (use True in \<open>simp_all add: u(2) apply_update_def no_update_def bs js_trunc_le\<close>)
  next
    case False
    then have "find_account (ac_id a) (pl_repo (mark_permanent_failure a code rj now p)) = Some b"
      using b unfolding mark_permanent_failure_def s_def[symmetric] Let_def repo1_def[symmetric]
      by (auto simp: with_credential_lock_def split: prod.splits option.splits)
    then show ?thesis
      by (rule that) (use False bs in \<open>auto simp: expire_token_def split: option.splits if_splits\<close>)
  qed
qed

lemma permanent_failure_signed_out:
  assumes "find_account (ac_id a) (pl_repo p) = Some stored" "ac_status stored \<noteq> PAUSED"
    and "code \<in> set reauth_required_failure_codes" "0 \<le> now" "now \<le> later"
    and "p' = mark_permanent_failure a code True now p"
  shows "\<exists>a'. find_account (ac_id a) (pl_repo p') = Some a' \<and> is_signed_out p' later a' \<and>
    is_signed_out (new_pool (pl_repo p')) later a' \<and>
    (\<forall>opts q. later / 1000 \<le> so_now opts \<longrightarrow> snd (recover_one opts (to_balancer_state p' q a')) = Skipped \<and>
       snd (recover_one opts (to_balancer_state (new_pool (pl_repo p')) q a')) = Skipped)"
proof -
  obtain a' t where a': "find_account (ac_id a) (pl_repo p') = Some a'" "ac_status a' = REAUTH_REQUIRED" "ac_id a' = ac_id a"
    and t: "ac_credentialsExpiresAt a' = Some t" "t \<le> now"
    by (rule find_permanent[OF assms(1,2), of code True now])
      (use assms(3,4,6) in \<open>auto simp: account_status_for_permanent_failure_def\<close>)
  have rt: "rt_status (runtime_of p' (ac_id a')) = Some REAUTH_REQUIRED"
    using runtime_permanent[of a code True now p] assms(3,6) a'(3) by (simp add: account_status_for_permanent_failure_def)
  have st: "st_status (to_balancer_state p' q a') = REAUTH_REQUIRED"
    "st_accessTokenExpiresAt (to_balancer_state p'' q a') = Some (t / 1000)" for q p''
    using a'(2) t(1) rt by (simp_all add: to_balancer_state_def Let_def to_seconds_def)
  have fresh: "st_status (to_balancer_state (new_pool r) q a') = REAUTH_REQUIRED" for r q
    using a'(2) by (simp add: to_balancer_state_def Let_def new_pool_def runtime_of_def blank_runtime_def)
  have le: "t / 1000 \<le> later / 1000" using t(2) assms(5) by simp
  have "snd (recover_one opts (to_balancer_state p' q a')) = Skipped"
    "snd (recover_one opts (to_balancer_state (new_pool (pl_repo p')) q a')) = Skipped" if "later / 1000 \<le> so_now opts" for opts q
    using st fresh le that by (simp_all add: recover_one_eq filtered_out_def known_expired_reauth_def)
  then show ?thesis using a'(1) st fresh le by (simp add: is_signed_out_def Let_def)
qed

text \<open>
  A rejected access token signs the account out, for good. When the provider rejects the token
  itself with a code that asks for a new login, the stored record and the running process both show
  the account as signed out from then on, also in a process that starts later from the storage alone,
  and no selection serves it until a new sign-in.
\<close>

theorem rejected_token_signs_out:
  assumes "find_account (ac_id a) (pl_repo p) = Some stored" "ac_status stored \<noteq> PAUSED"
    and "code \<in> set reauth_required_failure_codes" "0 \<le> now" "now \<le> later"
    and "p' = mark_permanent_failure a code True now p"
  shows "\<exists>a'. find_account (ac_id a) (pl_repo p') = Some a' \<and> is_signed_out p' later a' \<and>
    is_signed_out (new_pool (pl_repo p')) later a' \<and>
    (\<forall>opts q. later / 1000 \<le> so_now opts \<longrightarrow> snd (recover_one opts (to_balancer_state p' q a')) = Skipped)"
  using permanent_failure_signed_out[OF assms] by blast

theorem rejected_token_signs_out_witness:
  "\<exists>a'. find_account ''a'' (pl_repo (mark_permanent_failure demo_account ''token_expired'' True 5 (new_pool demo_repo))) = Some a'
     \<and> ac_status a' = REAUTH_REQUIRED"
proof -
  have i: "ac_id demo_account = ''a''" "ac_status demo_account \<noteq> PAUSED" by (simp_all add: demo_account_def fresh_account_def)
  have f: "find_account (ac_id demo_account) (pl_repo (new_pool demo_repo)) = Some demo_account"
    by (simp add: find_account_def new_pool_def demo_repo_def)
  have "''token_expired'' \<in> set reauth_required_failure_codes" by (simp add: reauth_required_failure_codes_def)
  note r = rejected_token_signs_out[OF f i(2) this, of 5 5, OF _ order_refl refl]
  show ?thesis
    using r by (auto simp: i(1) is_signed_out_def Let_def to_balancer_state_def new_pool_def runtime_of_def blank_runtime_def
        split: if_splits)
qed

text \<open>
  A block is lifted exactly when it is over. \<open>liftExpiredBlock\<close> changes something only for an account
  that is rate limited or out of quota and whose reset has passed, or is more than an hour away while
  the provider's usage shows no used-up limit; then storage and memory both show the account active,
  with no reset, so the next selection treats it as usable. Otherwise the pool stays as it was.
\<close>

theorem lift_expired_block_exact:
  assumes "lift_expired_block a usageClear now p = (p', did)"
  shows "(\<not> did \<longrightarrow> p' = p) \<and>
    (did \<longleftrightarrow> (let rt = runtime_of p (ac_id a) in
       dflt (rt_status rt) (ac_status a) \<in> {RATE_LIMITED, QUOTA_EXCEEDED} \<and>
       (\<exists>t. or_else (to_seconds (ac_blockedUntil a)) (rt_resetAt rt) = Some t \<and>
          (t \<le> now / 1000 \<or> (usageClear \<and> 3600 < t - now / 1000))))) \<and>
    (did \<longrightarrow> rt_status (runtime_of p' (ac_id a)) = Some ACTIVE \<and> rt_resetAt (runtime_of p' (ac_id a)) = None \<and>
       (\<forall>stored. find_account (ac_id a) (pl_repo p) = Some stored \<longrightarrow>
          find_account (ac_id a) (pl_repo p') = Some (recorded ACTIVE None None stored)))"
proof -
  let ?rt = "runtime_of p (ac_id a)"
  let ?until = "or_else (to_seconds (ac_blockedUntil a)) (rt_resetAt ?rt)"
  show ?thesis
  proof (cases "dflt (rt_status ?rt) (ac_status a) \<in> {RATE_LIMITED, QUOTA_EXCEEDED}")
    case False
    with assms show ?thesis by (auto simp: lift_expired_block_def Let_def)
  next
    case True
    show ?thesis
    proof (cases ?until)
      case None
      with assms show ?thesis by (auto simp: lift_expired_block_def Let_def split: if_splits)
    next
      case (Some t)
      with True assms show ?thesis
        by (auto simp: lift_expired_block_def Let_def repo.store_same split: if_splits)
    qed
  qed
qed

theorem lift_expired_block_exact_witness:
  "\<exists>p'. lift_expired_block (demo_account\<lparr>ac_status := RATE_LIMITED, ac_blockedUntil := Some 5000\<rparr>) False 6000 (new_pool demo_repo) = (p', True)"
proof -
  let ?a = "demo_account\<lparr>ac_status := RATE_LIMITED, ac_blockedUntil := Some 5000\<rparr>"
  obtain p' l where l: "lift_expired_block ?a False 6000 (new_pool demo_repo) = (p', l)" by fastforce
  have "l" using lift_expired_block_exact[OF l]
    by (simp add: Let_def new_pool_def runtime_of_def blank_runtime_def to_seconds_def)
  with l show ?thesis by auto
qed

text \<open>
  Credentials handed out are the stored ones, for a paid plan. With a cipher that opens what it
  sealed, \<open>credentials\<close> on a freshly read account answers only with credentials that storage holds
  afterwards, refreshed or not, and never for an account whose plan is free, or turned out free in the
  refresh.
\<close>

theorem credentials_are_stored:
  assumes "pe_cipher env = Some c" "\<And>x y. pe_refresh env x = Inr y \<Longrightarrow> cp_unseal c (cp_seal c (rc_stored y) (ac_id a)) (ac_id a) = Some (rc_stored y)"
    and "find_account (ac_id a) (pl_repo p) = Some a" "ac_status a \<noteq> PAUSED"
    and "credentials env a now p = (p', Inr result)"
  shows "\<exists>a'. find_account (ac_id a) (pl_repo p') = Some a' \<and> \<not> is_gateway_free_plan (ac_planType a') \<and>
    cp_unseal c (ac_credentialsEncrypted a') (ac_id a') = Some result"
proof -
  have nf: "\<not> is_gateway_free_plan (ac_planType a)" using assms(1,5) by (auto simp: credentials_def)
  then obtain current where cur: "cp_unseal c (ac_credentialsEncrypted a) (ac_id a) = Some current"
    using assms(1,5) by (auto simp: credentials_def split: option.splits)
  show ?thesis
  proof (cases "pe_needsRefresh env a current now")
    case False
    then have "p' = p" "result = current" using assms(1,5) nf cur by (simp_all add: credentials_def)
    then show ?thesis using assms(3) nf cur by blast
  next
    case True
    define ans where "ans = refresh_when_due env c current now a"
    have cred: "credentials env a now p = (case with_credential_lock (ac_id a) (refresh_when_due env c current now) (pl_repo p) of
          (repo', None) \<Rightarrow> after_refresh env current None None now (p\<lparr>pl_repo := repo'\<rparr>)
        | (repo', Some (Unreadable, _)) \<Rightarrow> (p\<lparr>pl_repo := repo'\<rparr>, Inl CredentialsUnreadable)
        | (repo', Some (Answer result permanent, u)) \<Rightarrow> after_refresh env result permanent (Some u) now (p\<lparr>pl_repo := repo'\<rparr>))"
      using True nf cur assms(1) by (simp add: credentials_def)
    consider (renewed) refreshed where "pe_refresh env current = Inr refreshed"
        "ans = (Answer (rc_stored refreshed) None, Some (snd (refreshed_update c (ac_id a) refreshed now)))"
      | (kept) perm where "ans = (Answer current perm, None)"
    proof (cases "pe_refresh env current")
      case (Inl e)
      then show ?thesis
        using cur True by (intro kept[of "if permanent_code e then e else None"]) (simp add: ans_def refresh_when_due_def)
    next
      case (Inr refreshed)
      then show ?thesis
        using cur True by (intro renewed[OF Inr]) (simp add: ans_def refresh_when_due_def refreshed_update_def)
    qed
    then show ?thesis
    proof cases
      case renewed
      define u where "u = apply_update (snd (refreshed_update c (ac_id a) refreshed now)) a"
      define q where "q = p\<lparr>pl_repo := modify_account (ac_id a) (apply_update (snd (refreshed_update c (ac_id a) refreshed now))) (pl_repo p)\<rparr>"
      have "credentials env a now p = after_refresh env (rc_stored refreshed) None (Some u) now q"
        using renewed(2) assms(3) unfolding cred by (simp add: with_credential_lock_def ans_def u_def q_def)
      then have "p' = invalidate q" "result = rc_stored refreshed" "\<not> is_gateway_free_plan (ac_planType u)"
        using assms(5) by (auto simp: after_refresh_def Let_def split: if_splits)
      moreover have "find_account (ac_id a) (pl_repo q) = Some u"
        using assms(3) by (simp add: q_def u_def find_modify)
      moreover have "cp_unseal c (ac_credentialsEncrypted u) (ac_id u) = Some (rc_stored refreshed)"
        using assms(2)[OF renewed(1)] by (simp add: u_def apply_update_def refreshed_update_def no_update_def)
      ultimately show ?thesis by auto
    next
      case (kept perm)
      have af: "credentials env a now p = after_refresh env current perm (Some a) now p"
        using kept assms(3) unfolding cred by (simp add: with_credential_lock_def ans_def)
      show ?thesis
      proof (cases perm)
        case None
        then have "p' = invalidate p" "result = current" using assms(5) nf unfolding af by (simp_all add: after_refresh_def)
        then show ?thesis using assms(3) nf cur by auto
      next
        case (Some code)
        define q where "q = mark_permanent_failure a code (code \<in> set access_token_rejections) now p"
        have "p' = invalidate q" "result = current"
          using assms(5) nf Some unfolding af by (auto simp: after_refresh_def Let_def q_def split: if_splits)
        moreover obtain a' where "find_account (ac_id a) (pl_repo q) = Some a'" "ac_id a' = ac_id a"
          "ac_planType a' = ac_planType a" "ac_credentialsEncrypted a' = ac_credentialsEncrypted a"
          using find_permanent[OF assms(3,4)] unfolding q_def by metis
        ultimately show ?thesis using nf cur by auto
      qed
    qed
  qed
qed

definition demo_token :: "string \<Rightarrow> stored_credentials" where
  "demo_token s = \<lparr>sc_accessToken = s, sc_refreshToken = Some ''r'', sc_idToken = None, sc_upstreamAccountId = None,
     sc_accessExpiresAtMs = None\<rparr>"

definition demo_cipher :: cipher where
  "demo_cipher = \<lparr>cp_seal = (\<lambda>c i. CHR ''s'' # sc_accessToken c), cp_unseal = (\<lambda>s i. Some (demo_token (tl s)))\<rparr>"

definition demo_refresh_env :: pool_env where
  "demo_refresh_env = \<lparr>pe_provider = ''CODEX'', pe_cipher = Some demo_cipher, pe_needsRefresh = (\<lambda>_ _ _. True),
     pe_refresh = (\<lambda>_. Inr \<lparr>rc_stored = demo_token ''new'', rc_planType = Some ''pro'', rc_email = None\<rparr>),
     pe_pauseStored = True\<rparr>"

lemma demo_find: "find_account ''a'' (pl_repo (new_pool demo_repo)) = Some demo_account"
  by (simp add: find_account_def new_pool_def demo_repo_def demo_account_simps)

lemma plus_not_free: "\<not> is_gateway_free_plan (Some ''plus'')" "\<not> is_gateway_free_plan (Some ''pro'')"
  by code_simp+

theorem credentials_are_stored_witness:
  "\<exists>p' a'. credentials demo_refresh_env demo_account 7 (new_pool demo_repo) = (p', Inr (demo_token ''new'')) \<and>
     find_account ''a'' (pl_repo p') = Some a' \<and> cp_unseal demo_cipher (ac_credentialsEncrypted a') (ac_id a') = Some (demo_token ''new'')"
proof -
  have law: "cp_unseal demo_cipher (cp_seal demo_cipher (rc_stored y) i) i = Some (rc_stored y)"
    if "pe_refresh demo_refresh_env x = Inr y" for x y i
    using that by (auto simp: demo_refresh_env_def demo_cipher_def demo_token_def)
  have f: "find_account (ac_id demo_account) (pl_repo (new_pool demo_repo)) = Some demo_account"
    using demo_find by (simp add: demo_account_simps)
  have np: "ac_status demo_account \<noteq> PAUSED" by (simp add: demo_account_simps)
  obtain p' where c: "credentials demo_refresh_env demo_account 7 (new_pool demo_repo) = (p', Inr (demo_token ''new''))"
    using f plus_not_free
    by (simp add: credentials_def demo_refresh_env_def demo_cipher_def demo_account_simps with_credential_lock_def
        refresh_when_due_def refreshed_update_def after_refresh_def apply_update_def no_update_def named_def)
  have e: "pe_cipher demo_refresh_env = Some demo_cipher" by (simp add: demo_refresh_env_def)
  have "\<exists>a'. find_account (ac_id demo_account) (pl_repo p') = Some a' \<and> \<not> is_gateway_free_plan (ac_planType a') \<and>
      cp_unseal demo_cipher (ac_credentialsEncrypted a') (ac_id a') = Some (demo_token ''new'')"
    by (rule credentials_are_stored[OF e law f np c])
  with c show ?thesis unfolding demo_account_simps by auto
qed

text \<open>
  No refresh loop on a rejected token. When \<open>refreshRejectedToken\<close> returns an account to retry with,
  the account was last refreshed at least five minutes ago, its plan is not free, and what storage holds
  is the returned record, refreshed at another time; a second rejection within five minutes of a refresh
  time that lies before it gives up instead of refreshing again.
\<close>

theorem forced_refresh_limited:
  assumes "refresh_rejected_token env a code now p = (p', Some u)"
  shows "code \<in> set access_token_rejections \<and> FORCED_REFRESH_MIN_AGE_MS \<le> now - dflt (ac_lastRefreshAt a) 0 \<and>
    \<not> is_gateway_free_plan (ac_planType u) \<and> find_account (ac_id a) (pl_repo p') = Some u \<and>
    (0 \<le> now \<longrightarrow> ac_lastRefreshAt u \<noteq> ac_lastRefreshAt a) \<and>
    (\<forall>later code' q. later - dflt (ac_lastRefreshAt u) 0 < FORCED_REFRESH_MIN_AGE_MS \<longrightarrow>
       snd (refresh_rejected_token env u code' later q) = None)"
proof -
  obtain c where c: "pe_cipher env = Some c" "code \<in> set access_token_rejections"
      "\<not> now - dflt (ac_lastRefreshAt a) 0 < FORCED_REFRESH_MIN_AGE_MS"
    using assms by (auto simp: refresh_rejected_token_def Let_def split: if_splits option.splits)
  define lock where "lock = with_credential_lock (ac_id a) (refresh_forced env c a code now) (pl_repo p)"
  have eq: "refresh_rejected_token env a code now p = (case lock of
        (repo', None) \<Rightarrow> (mark_permanent_failure a code True now (p\<lparr>pl_repo := repo'\<rparr>), None)
      | (repo', Some (Renewed, u)) \<Rightarrow>
          if is_gateway_free_plan (ac_planType u)
          then (invalidate (p\<lparr>pl_repo := fst (pause_if_free env u repo')\<rparr>), None)
          else (invalidate (revive_runtime (ac_id a) (p\<lparr>pl_repo := repo'\<rparr>)), Some u)
      | (repo', Some (Unreachable, _)) \<Rightarrow> (mark_transient_error (ac_id a) now (p\<lparr>pl_repo := repo'\<rparr>), None)
      | (repo', Some (Refused refusal, u)) \<Rightarrow> (mark_permanent_failure u refusal True now (p\<lparr>pl_repo := repo'\<rparr>), None))"
    using c by (simp add: refresh_rejected_token_def lock_def)
  obtain repo' where l: "lock = (repo', Some (Renewed, u))" and nf: "\<not> is_gateway_free_plan (ac_planType u)"
      and p': "p' = invalidate (revive_runtime (ac_id a) (p\<lparr>pl_repo := repo'\<rparr>))"
    using assms unfolding eq by (auto split: if_splits option.splits prod.splits refresh_outcome.splits)
  obtain fresh where fresh: "find_account (ac_id a) (pl_repo p) = Some fresh"
    using l by (auto simp: lock_def with_credential_lock_def split: option.splits)
  have "pl_repo p' = repo'" by (simp add: p' revive_runtime_def)
  moreover have "find_account (ac_id a) repo' = Some u"
    using l fresh by (auto simp: lock_def with_credential_lock_def find_modify split: prod.splits option.splits)
  moreover have "ac_lastRefreshAt u \<noteq> ac_lastRefreshAt a" if "0 \<le> now"
  proof -
    have upd: "ac_lastRefreshAt u = Some (js_trunc now) \<or> ac_lastRefreshAt u \<noteq> ac_lastRefreshAt a"
      using l fresh by (auto simp: lock_def with_credential_lock_def refresh_forced_def Let_def refreshed_update_def
          no_update_def apply_update_def split: prod.splits option.splits if_splits sum.splits)
    have "dflt (ac_lastRefreshAt a) 0 < js_trunc now" if "ac_lastRefreshAt a \<noteq> None"
      using c(3) js_trunc_gt[OF \<open>0 \<le> now\<close>] by linarith
    with upd show ?thesis by (cases "ac_lastRefreshAt a") auto
  qed
  ultimately show ?thesis using c nf by (auto simp: refresh_rejected_token_def Let_def)
qed

theorem forced_refresh_limited_witness:
  "\<exists>p' u. refresh_rejected_token demo_refresh_env demo_account ''token_expired'' 400000 (new_pool demo_repo) = (p', Some u) \<and>
     \<not> is_gateway_free_plan (ac_planType u)"
proof -
  have f: "find_account (ac_id demo_account) (pl_repo (new_pool demo_repo)) = Some demo_account"
    using demo_find by (simp add: demo_account_simps)
  obtain p' u where r: "refresh_rejected_token demo_refresh_env demo_account ''token_expired'' 400000 (new_pool demo_repo) = (p', Some u)"
    using f plus_not_free
    by (simp add: refresh_rejected_token_def access_token_rejections_def demo_refresh_env_def demo_cipher_def demo_token_def
        demo_account_simps with_credential_lock_def refresh_forced_def refreshed_update_def apply_update_def no_update_def named_def)
  from forced_refresh_limited[OF r] r show ?thesis by auto
qed

end
