(* ===== verification/Json.thy ===== *)
theory Json
  imports Js_Map
begin

text \<open>
  JSON values, as \<open>JSON.parse\<close> returns them and request bodies hold them; an object is a map in
  insertion order. \<open>{ ...object, key: value }\<close> and \<open>object.key = value\<close> are \<open>map_set\<close>, and \<open>delete\<close> is
  \<open>map_delete\<close>.
\<close>

datatype json = JNull | JBool bool | JNum real | JStr string | JArr "json list" | JObj "(string \<times> json) list"

type_synonym json_object = "(string \<times> json) list"

text \<open>\<open>typeof x === "string" && x.trim() ? x.trim() : null\<close>.\<close>

definition text_of :: "json option \<Rightarrow> string option" where
  "text_of x = (case x of Some (JStr s) \<Rightarrow> (if js_trim s = [] then None else Some (js_trim s)) | _ \<Rightarrow> None)"

text \<open>\<open>x && typeof x === "object" && !Array.isArray(x)\<close>: the object, if it is one.\<close>

definition object_of :: "json option \<Rightarrow> json_object option" where
  "object_of x = (case x of Some (JObj o') \<Rightarrow> Some o' | _ \<Rightarrow> None)"

text \<open>A number in a template string.\<close>

fun show_nat :: "nat \<Rightarrow> string" where
  "show_nat n = (if n < 10 then [char_of (48 + n)] else show_nat (n div 10) @ [char_of (48 + n mod 10)])"

declare show_nat.simps [simp del]

text \<open>\<open>parts.join(separator)\<close>\<close>

fun join_with :: "string \<Rightarrow> string list \<Rightarrow> string" where
  "join_with sep [] = []"
| "join_with sep [s] = s"
| "join_with sep (s # t # ss) = s @ sep @ join_with sep (t # ss)"

lemma text_of_nonempty: "text_of x = Some s \<Longrightarrow> s \<noteq> []"
  by (auto simp: text_of_def split: option.splits json.splits if_splits)

end
