(* ===== verification/Api_Keys.thy ===== *)
theory Api_Keys
  imports Json
begin

text \<open>
  API keys and their usage limits, as \<open>InMemoryGatewayRepository\<close> of
  \<open>packages/db/src/gateway-repository.ts\<close> keeps them. Times are milliseconds since the epoch; the UTC
  calendar \<open>settleApiKeyUsage\<close> uses through \<open>Date\<close> is spelled out.
\<close>

subsection \<open>Keys\<close>

datatype limit_type = TOTAL_TOKENS | INPUT_TOKENS | OUTPUT_TOKENS | COST_USD
datatype limit_window = DAILY | WEEKLY | MONTHLY

record key_limit =
  kl_type :: limit_type
  kl_window :: limit_window
  kl_maxValue :: num
  kl_modelFilter :: "string option"
  kl_currentValue :: num
  kl_resetAt :: num

record api_key =
  ky_id :: string
  ky_name :: string
  ky_keyPrefix :: string
  ky_keyHash :: string
  ky_isActive :: bool
  ky_trafficClass :: string
  ky_allowedModels :: "string list"
  ky_enforcedModel :: "string option"
  ky_allowedReasoningEfforts :: "string list"
  ky_enforcedReasoningEffort :: "string option"
  ky_accountScopeEnabled :: bool
  ky_accountIds :: "string list"
  ky_compressionOverride :: "string option"
  ky_outputPolicyOverride :: "string option"
  ky_limits :: "key_limit list"
  ky_expiresAt :: "num option"
  ky_lastUsedAt :: "num option"
  ky_createdAt :: num

record limit_input =
  li_type :: limit_type
  li_window :: limit_window
  li_maxValue :: num
  li_modelFilter :: "string option"
  li_resetAt :: num

record key_insert =
  ki_keyId :: string
  ki_name :: string
  ki_keyHash :: string
  ki_keyPrefix :: string
  ki_trafficClass :: string
  ki_allowedModels :: "string list"
  ki_enforcedModel :: "string option"
  ki_allowedReasoningEfforts :: "string list"
  ki_enforcedReasoningEffort :: "string option"
  ki_accountIds :: "string list"
  ki_compressionOverride :: "string option"
  ki_outputPolicyOverride :: "string option"
  ki_limits :: "limit_input list"
  ki_expiresAt :: "num option"

definition find_key :: "string \<Rightarrow> api_key list \<Rightarrow> api_key option" where
  "find_key i keys = List.find (\<lambda>k. ky_id k = i) keys"

definition modify_key :: "string \<Rightarrow> (api_key \<Rightarrow> api_key) \<Rightarrow> api_key list \<Rightarrow> api_key list" where
  "modify_key i f keys = update_first (\<lambda>k. ky_id k = i) f keys"

definition find_key_by_hash :: "string \<Rightarrow> api_key list \<Rightarrow> api_key option" where
  "find_key_by_hash h keys = List.find (\<lambda>k. ky_keyHash k = h) keys"

definition new_key :: "num \<Rightarrow> key_insert \<Rightarrow> api_key" where
  "new_key now ki = \<lparr>ky_id = ki_keyId ki, ky_name = ki_name ki, ky_keyPrefix = ki_keyPrefix ki, ky_keyHash = ki_keyHash ki,
     ky_isActive = True, ky_trafficClass = ki_trafficClass ki, ky_allowedModels = ki_allowedModels ki,
     ky_enforcedModel = ki_enforcedModel ki, ky_allowedReasoningEfforts = ki_allowedReasoningEfforts ki,
     ky_enforcedReasoningEffort = ki_enforcedReasoningEffort ki, ky_accountScopeEnabled = (ki_accountIds ki \<noteq> []),
     ky_accountIds = ki_accountIds ki, ky_compressionOverride = ki_compressionOverride ki,
     ky_outputPolicyOverride = ki_outputPolicyOverride ki,
     ky_limits = map (\<lambda>l. \<lparr>kl_type = li_type l, kl_window = li_window l, kl_maxValue = li_maxValue l,
       kl_modelFilter = li_modelFilter l, kl_currentValue = 0, kl_resetAt = li_resetAt l\<rparr>) (ki_limits ki),
     ky_expiresAt = ki_expiresAt ki, ky_lastUsedAt = None, ky_createdAt = now\<rparr>"

text \<open>\<open>None\<close> stands for the error \<open>duplicate key hash\<close>.\<close>

definition create_api_key :: "num \<Rightarrow> key_insert \<Rightarrow> api_key list \<Rightarrow> (api_key list \<times> api_key) option" where
  "create_api_key now ki keys = (if list_ex (\<lambda>k. ky_keyHash k = ki_keyHash ki) keys then None
     else Some (new_key now ki # keys, new_key now ki))"

definition same_limit :: "limit_input \<Rightarrow> key_limit \<Rightarrow> bool" where
  "same_limit l item = (kl_type item = li_type l \<and> kl_window item = li_window l \<and> kl_modelFilter item = li_modelFilter l)"

definition merge_key_limits :: "key_limit list \<Rightarrow> limit_input list \<Rightarrow> bool \<Rightarrow> key_limit list" where
  "merge_key_limits current nxt resetUsage = map (\<lambda>l.
     let previous = (if resetUsage then None else List.find (same_limit l) current)
     in \<lparr>kl_type = li_type l, kl_window = li_window l, kl_maxValue = li_maxValue l, kl_modelFilter = li_modelFilter l,
         kl_currentValue = dflt (map_option kl_currentValue previous) 0,
         kl_resetAt = dflt (map_option kl_resetAt previous) (li_resetAt l)\<rparr>) nxt"

text \<open>The patch of \<open>updateApiKey\<close>: an absent field keeps its value.\<close>

record key_patch =
  kp_name :: "string option"
  kp_isActive :: "bool option"
  kp_trafficClass :: "string option"
  kp_allowedModels :: "string list option"
  kp_enforcedModel :: "string option option"
  kp_allowedReasoningEfforts :: "string list option"
  kp_enforcedReasoningEffort :: "string option option"
  kp_accountIds :: "string list option"
  kp_compressionOverride :: "string option option"
  kp_outputPolicyOverride :: "string option option"
  kp_expiresAt :: "num option option"
  kp_limits :: "limit_input list option"
  kp_resetUsage :: bool

definition apply_key_patch :: "key_patch \<Rightarrow> api_key \<Rightarrow> api_key" where
  "apply_key_patch q k = k\<lparr>ky_name := dflt (kp_name q) (ky_name k), ky_isActive := dflt (kp_isActive q) (ky_isActive k),
     ky_trafficClass := dflt (kp_trafficClass q) (ky_trafficClass k),
     ky_allowedModels := dflt (kp_allowedModels q) (ky_allowedModels k),
     ky_enforcedModel := dflt (kp_enforcedModel q) (ky_enforcedModel k),
     ky_allowedReasoningEfforts := dflt (kp_allowedReasoningEfforts q) (ky_allowedReasoningEfforts k),
     ky_enforcedReasoningEffort := dflt (kp_enforcedReasoningEffort q) (ky_enforcedReasoningEffort k),
     ky_compressionOverride := dflt (kp_compressionOverride q) (ky_compressionOverride k),
     ky_outputPolicyOverride := dflt (kp_outputPolicyOverride q) (ky_outputPolicyOverride k),
     ky_expiresAt := dflt (kp_expiresAt q) (ky_expiresAt k),
     ky_accountIds := dflt (kp_accountIds q) (ky_accountIds k),
     ky_accountScopeEnabled := (case kp_accountIds q of None \<Rightarrow> ky_accountScopeEnabled k | Some ids \<Rightarrow> ids \<noteq> []),
     ky_limits := (case kp_limits q of Some ls \<Rightarrow> merge_key_limits (ky_limits k) ls (kp_resetUsage q)
       | None \<Rightarrow> if kp_resetUsage q then map (\<lambda>l. l\<lparr>kl_currentValue := 0\<rparr>) (ky_limits k) else ky_limits k)\<rparr>"

definition update_api_key :: "string \<Rightarrow> key_patch \<Rightarrow> api_key list \<Rightarrow> api_key list \<times> api_key option" where
  "update_api_key i q keys = (modify_key i (apply_key_patch q) keys, map_option (apply_key_patch q) (find_key i keys))"

definition regenerate_api_key :: "string \<Rightarrow> string \<Rightarrow> string \<Rightarrow> api_key list \<Rightarrow> api_key list \<times> api_key option" where
  "regenerate_api_key i h prefix keys =
     (let f = (\<lambda>k. k\<lparr>ky_keyHash := h, ky_keyPrefix := prefix\<rparr>) in (modify_key i f keys, map_option f (find_key i keys)))"

definition delete_api_key :: "string \<Rightarrow> api_key list \<Rightarrow> api_key list \<times> bool" where
  "delete_api_key i keys = (let left = filter (\<lambda>k. ky_id k \<noteq> i) keys in (left, length left < length keys))"

subsection \<open>The calendar\<close>

text \<open>
  Days are counted from 1 March of the year 0, in eras of 400 years: \<open>year_days y\<close> is the first day of the
  \<open>y\<close>-th year of an era, \<open>month_offsets\<close> the first days of its months, March first.
\<close>

definition year_days :: "int \<Rightarrow> int" where
  "year_days y = 365 * y + y div 4 - y div 100 + y div 400"

definition year_of :: "int \<Rightarrow> int" where
  "year_of doe = int (length (takeWhile (\<lambda>y. year_days (y + 1) \<le> doe) [0..399]))"

definition month_offsets :: "int list" where
  "month_offsets = [0, 31, 61, 92, 122, 153, 184, 214, 245, 275, 306, 337]"

text \<open>The first day of the month after the one a day (counted from 1 January 1970) falls in.\<close>

definition month_end :: "int \<Rightarrow> int" where
  "month_end doe = (let y = year_of doe in
     case List.find (\<lambda>s. doe < year_days y + s) month_offsets of
       Some s \<Rightarrow> year_days y + s | None \<Rightarrow> year_days (y + 1))"

definition next_month_start :: "int \<Rightarrow> int" where
  "next_month_start day =
     (let z = day + 719468; era = z div 146097 in era * 146097 + month_end (z mod 146097) - 719468)"

definition DAY_MS :: real where "DAY_MS = 86400000"

definition next_reset :: "limit_window \<Rightarrow> num \<Rightarrow> num" where
  "next_reset w atMs = (let day = \<lfloor>atMs / DAY_MS\<rfloor> in case w of
       DAILY \<Rightarrow> of_int (day + 1) * DAY_MS
     | WEEKLY \<Rightarrow> of_int (day + 7) * DAY_MS
     | MONTHLY \<Rightarrow> of_int (next_month_start day) * DAY_MS)"

subsection \<open>Settling usage\<close>

record key_usage =
  us_inputTokens :: num
  us_outputTokens :: num
  us_costMicros :: num

definition usage_delta :: "limit_type \<Rightarrow> key_usage \<Rightarrow> num" where
  "usage_delta t u = (case t of TOTAL_TOKENS \<Rightarrow> us_inputTokens u + us_outputTokens u | INPUT_TOKENS \<Rightarrow> us_inputTokens u
     | OUTPUT_TOKENS \<Rightarrow> us_outputTokens u | COST_USD \<Rightarrow> us_costMicros u)"

definition limit_applies :: "string option \<Rightarrow> key_limit \<Rightarrow> bool" where
  "limit_applies model l = (kl_modelFilter l = None \<or> kl_modelFilter l = model)"

definition settle_limit :: "key_usage \<Rightarrow> string option \<Rightarrow> num \<Rightarrow> key_limit \<Rightarrow> key_limit" where
  "settle_limit u model atMs l =
     (if \<not> limit_applies model l then l
      else let l1 = (if kl_resetAt l \<le> atMs then l\<lparr>kl_currentValue := 0, kl_resetAt := next_reset (kl_window l) atMs\<rparr> else l)
        in l1\<lparr>kl_currentValue := kl_currentValue l1 + max 0 (js_round (usage_delta (kl_type l1) u))\<rparr>)"

definition settle_api_key_usage :: "string \<Rightarrow> key_usage \<Rightarrow> string option \<Rightarrow> num \<Rightarrow> api_key list \<Rightarrow> api_key list" where
  "settle_api_key_usage i u model atMs keys =
     modify_key i (\<lambda>k. k\<lparr>ky_limits := map (settle_limit u model atMs) (ky_limits k), ky_lastUsedAt := Some atMs\<rparr>) keys"

definition set_api_key_limit_value :: "string \<Rightarrow> limit_type \<Rightarrow> limit_window \<Rightarrow> num \<Rightarrow> num \<Rightarrow> api_key list \<Rightarrow> api_key list" where
  "set_api_key_limit_value i t w v atMs keys = modify_key i (\<lambda>k. k\<lparr>ky_limits := map (\<lambda>l.
     if kl_type l = t \<and> kl_window l = w \<and> kl_modelFilter l = None \<and> \<not> kl_resetAt l \<le> atMs
     then l\<lparr>kl_currentValue := max 0 (js_round v)\<rparr> else l) (ky_limits k)\<rparr>) keys"

subsection \<open>Facts\<close>

lemma year_of_upper: "doe < 146097 \<Longrightarrow> doe < year_days (year_of doe + 1)"
proof -
  assume lt: "doe < 146097"
  let ?P = "\<lambda>y. year_days (y + 1) \<le> doe"
  let ?n = "length (takeWhile ?P [0..399])"
  show ?thesis
  proof (cases "?n < length [0..399 :: int]")
    case True
    then have "\<not> ?P ([0..399] ! ?n)" by (rule nth_length_takeWhile)
    moreover have "[0..399] ! ?n = int ?n" using True by (simp add: nth_upto)
    ultimately show ?thesis by (simp add: year_of_def)
  next
    case False
    then have "takeWhile ?P [0..399] = [0..399]"
      using length_takeWhile_le[of ?P "[0..399]"] by (metis le_antisym not_le take_all takeWhile_eq_take)
    then have "\<forall>y \<in> set [0..399]. ?P y" by (simp only: takeWhile_eq_all_conv)
    then have "year_days (399 + 1) \<le> doe" by (rule bspec) simp
    with lt show ?thesis by (simp add: year_days_def)
  qed
qed

lemma month_end_gt: "doe < 146097 \<Longrightarrow> doe < month_end doe"
  using year_of_upper[of doe] by (auto simp: month_end_def Let_def split: option.splits dest: find_SomeD)

lemma next_month_gt: "day < next_month_start day"
proof -
  define z where "z = day + 719468"
  have "z = z div 146097 * 146097 + z mod 146097" by simp
  moreover have "z mod 146097 < month_end (z mod 146097)" by (rule month_end_gt) simp
  ultimately have "z < z div 146097 * 146097 + month_end (z mod 146097)" by linarith
  then show ?thesis unfolding next_month_start_def Let_def z_def by linarith
qed

lemma next_reset_gt: "atMs < next_reset w atMs"
proof -
  have gt: "atMs < of_int d * DAY_MS" if "\<lfloor>atMs / DAY_MS\<rfloor> + 1 \<le> d" for d
  proof -
    have "atMs / DAY_MS < of_int d" using that by linarith
    then show ?thesis by (simp add: DAY_MS_def field_simps)
  qed
  have "\<lfloor>atMs / DAY_MS\<rfloor> + 1 \<le> next_month_start \<lfloor>atMs / DAY_MS\<rfloor>" using next_month_gt[of "\<lfloor>atMs / DAY_MS\<rfloor>"] by linarith
  then show ?thesis unfolding next_reset_def Let_def by (cases w) (simp_all only: limit_window.case, (rule gt, simp)+)
qed

text \<open>
  Settling a request counts it, in the right window. A limit the request does not fall under stays
  as it is. Any other limit keeps what it had counted when its window is still open and starts from zero
  when it is over; the request's share is added, rounded and never negative; and afterwards the limit's
  window is one that the request falls in, on every calendar day and for every window length.
\<close>

theorem settle_limit_counts:
  "(if limit_applies model l
    then kl_currentValue (settle_limit u model atMs l) =
        (if kl_resetAt l \<le> atMs then 0 else kl_currentValue l) + max 0 (js_round (usage_delta (kl_type l) u)) \<and>
      atMs < kl_resetAt (settle_limit u model atMs l) \<and>
      (atMs < kl_resetAt l \<longrightarrow> kl_resetAt (settle_limit u model atMs l) = kl_resetAt l) \<and>
      kl_maxValue (settle_limit u model atMs l) = kl_maxValue l \<and> limit_applies model (settle_limit u model atMs l)
    else settle_limit u model atMs l = l)"
  using next_reset_gt[of atMs "kl_window l"] by (simp add: settle_limit_def Let_def limit_applies_def)

theorem settle_limit_counts_witness:
  "kl_currentValue (settle_limit \<lparr>us_inputTokens = 3, us_outputTokens = 4, us_costMicros = 0\<rparr> (Some ''m'') 100
     \<lparr>kl_type = TOTAL_TOKENS, kl_window = DAILY, kl_maxValue = 50, kl_modelFilter = None, kl_currentValue = 40, kl_resetAt = 90\<rparr>) = 7"
  using settle_limit_counts[of "Some ''m''" "\<lparr>kl_type = TOTAL_TOKENS, kl_window = DAILY, kl_maxValue = 50,
      kl_modelFilter = None, kl_currentValue = 40, kl_resetAt = 90\<rparr>" "\<lparr>us_inputTokens = 3, us_outputTokens = 4, us_costMicros = 0\<rparr>" 100]
  by (simp add: limit_applies_def usage_delta_def js_round_def js_floor_def)

lemma next_month_examples:
  "next_month_start 0 = 31" "next_month_start 31 = 59" "next_month_start 58 = 59" "next_month_start 334 = 365"
  by code_simp+

end
