(* ===== verification/Key_Policy.thy ===== *)
theory Key_Policy
  imports Api_Keys In_Flight
begin

text \<open>
  The request policy of an API key (\<open>packages/gateway/src/policy.ts\<close>): what \<open>applyRequestPolicy\<close> changes in
  a request and refuses, the usage a key has spent that its stored limits do not show yet, and the
  check of the limits with that usage included. A thrown \<open>PolicyRejection\<close> is the left value of a sum.
  The module's map \<open>pendingByKey\<close> is a partial map; each release function \<open>trackKeyRequest\<close> returned and
  each settlement still being written is a numbered ticket of the record \<open>key_tracker\<close>.
\<close>

subsection \<open>Request policy\<close>

datatype policy_rejection =
    ModelNotAllowed "string option"
  | ReasoningEffortNotAllowed string
  | LimitExceeded key_limit

fun rejection_status :: "policy_rejection \<Rightarrow> nat" where
  "rejection_status (ModelNotAllowed _) = 403"
| "rejection_status (ReasoningEffortNotAllowed _) = 403"
| "rejection_status (LimitExceeded _) = 429"

definition wire_effort :: "string \<Rightarrow> string" where
  "wire_effort e = dflt (map_of [(''ultra'', ''max'')] e) e"

definition omitted_service_tiers :: "string list" where
  "omitted_service_tiers = [''auto'', ''default'']"

definition retired_codex_models :: "(string \<times> string) list" where
  "retired_codex_models = [(''gpt-5.5'', ''gpt-5.6-sol''), (''gpt-5.4'', ''gpt-5.6-sol''), (''gpt-5.4-mini'', ''gpt-5.6-luna'')]"

record policy_result =
  pr_body :: json_object
  pr_model :: "string option"
  pr_reasoningEffort :: "string option"
  pr_requestedServiceTier :: "string option"
  pr_serviceTier :: "string option"

definition assert_model_allowed :: "api_key option \<Rightarrow> string option \<Rightarrow> policy_rejection option" where
  "assert_model_allowed key model = (case key of None \<Rightarrow> None
     | Some k \<Rightarrow> if ky_allowedModels k \<noteq> [] \<and> (case model of None \<Rightarrow> True | Some m \<Rightarrow> m \<notin> set (ky_allowedModels k))
         then Some (ModelNotAllowed model) else None)"

text \<open>A setting of the key that is present and not empty.\<close>

definition enforced :: "(api_key \<Rightarrow> string option) \<Rightarrow> api_key option \<Rightarrow> string option" where
  "enforced sel key = (case key of None \<Rightarrow> None | Some k \<Rightarrow> (case sel k of Some (c # cs) \<Rightarrow> Some (c # cs) | _ \<Rightarrow> None))"

definition served_model :: "string option \<Rightarrow> string option" where
  "served_model asked = (case asked of None \<Rightarrow> None | Some a \<Rightarrow> Some (dflt (map_of retired_codex_models a) a))"

definition set_model :: "string option \<Rightarrow> json_object \<Rightarrow> json_object" where
  "set_model m body = (case m of None \<Rightarrow> body | Some x \<Rightarrow> map_set ''model'' (JStr x) body)"

definition apply_model :: "api_key option \<Rightarrow> json_object \<Rightarrow> policy_rejection + json_object \<times> string option" where
  "apply_model key input =
     (let body = set_model (enforced ky_enforcedModel key) input;
          asked = text_of (map_of body ''model'');
          model = served_model asked
      in case assert_model_allowed key asked of Some e \<Rightarrow> Inl e
         | None \<Rightarrow> Inr (if model \<noteq> asked then set_model model body else body, model))"

definition requested_effort :: "api_key option \<Rightarrow> json_object \<Rightarrow> json_object option \<times> string option" where
  "requested_effort key body =
     (let reasoning = (case enforced ky_enforcedReasoningEffort key of
          None \<Rightarrow> object_of (map_of body ''reasoning'')
        | Some e \<Rightarrow> Some (map_set ''effort'' (JStr e) (dflt (object_of (map_of body ''reasoning'')) [])))
      in (reasoning, map_option js_lower (case reasoning of None \<Rightarrow> None | Some r \<Rightarrow> text_of (map_of r ''effort''))))"

definition apply_effort :: "api_key option \<Rightarrow> json_object \<Rightarrow> policy_rejection + json_object \<times> string option" where
  "apply_effort key body = (case requested_effort key body of (reasoning, requested) \<Rightarrow>
     (case (key, requested) of
        (Some k, Some e) \<Rightarrow> if ky_allowedReasoningEfforts k \<noteq> [] \<and> e \<notin> set (ky_allowedReasoningEfforts k)
          then Inl (ReasoningEffortNotAllowed e)
          else Inr (map_set ''reasoning'' (JObj (map_set ''effort'' (JStr (wire_effort e)) (dflt reasoning []))) body, requested)
      | (None, Some e) \<Rightarrow> Inr (map_set ''reasoning'' (JObj (map_set ''effort'' (JStr (wire_effort e)) (dflt reasoning []))) body, requested)
      | (_, None) \<Rightarrow> Inr (case reasoning of None \<Rightarrow> body | Some r \<Rightarrow> map_set ''reasoning'' (JObj r) body, None)))"

definition raw_service_tier :: "json_object \<Rightarrow> string option" where
  "raw_service_tier body = (case map_of body ''service_tier'' of Some (JStr s) \<Rightarrow> Some (js_lower (js_trim s)) | _ \<Rightarrow> None)"

definition wire_service_tier :: "string option \<Rightarrow> string option \<Rightarrow> string option" where
  "wire_service_tier fastTier raw =
     (let tier = (if raw = Some ''fast'' then Some (dflt fastTier ''priority'') else raw)
      in case tier of None \<Rightarrow> None | Some t \<Rightarrow> if t \<in> set omitted_service_tiers then None else Some t)"

definition set_service_tier :: "string option \<Rightarrow> json_object \<Rightarrow> json_object" where
  "set_service_tier tier body = (case tier of None \<Rightarrow> map_delete ''service_tier'' body
     | Some t \<Rightarrow> map_set ''service_tier'' (JStr t) body)"

definition apply_request_policy :: "api_key option \<Rightarrow> string option \<Rightarrow> json_object \<Rightarrow> policy_rejection + policy_result" where
  "apply_request_policy key fastTier input = (case apply_model key input of Inl e \<Rightarrow> Inl e
     | Inr (body1, model) \<Rightarrow> (case apply_effort key body1 of Inl e \<Rightarrow> Inl e
       | Inr (body2, requested) \<Rightarrow>
           (let raw = raw_service_tier body2; tier = wire_service_tier fastTier raw
            in Inr \<lparr>pr_body = set_service_tier tier body2, pr_model = model, pr_reasoningEffort = requested,
                 pr_requestedServiceTier = raw, pr_serviceTier = tier\<rparr>)))"

subsection \<open>Usage not stored yet\<close>

record pending_usage =
  pd_inFlight :: int
  pd_costMicros :: num
  pd_inputTokens :: num
  pd_outputTokens :: num

definition idle_usage :: pending_usage where
  "idle_usage = \<lparr>pd_inFlight = 0, pd_costMicros = 0, pd_inputTokens = 0, pd_outputTokens = 0\<rparr>"

type_synonym pending_map = "string \<Rightarrow> pending_usage option"

definition pending_of :: "pending_map \<Rightarrow> string \<Rightarrow> pending_usage" where
  "pending_of m k = dflt (m k) idle_usage"

definition drop_if_idle :: "string \<Rightarrow> pending_map \<Rightarrow> pending_map" where
  "drop_if_idle k m = (case m k of None \<Rightarrow> m
     | Some p \<Rightarrow> if pd_inFlight p \<le> 0 \<and> pd_costMicros p \<le> 0 \<and> pd_inputTokens p \<le> 0 \<and> pd_outputTokens p \<le> 0
         then m(k := None) else m)"

definition enter_request :: "string \<Rightarrow> pending_map \<Rightarrow> pending_map" where
  "enter_request k m = m(k \<mapsto> (pending_of m k)\<lparr>pd_inFlight := pd_inFlight (pending_of m k) + 1\<rparr>)"

definition leave_request :: "string \<Rightarrow> pending_map \<Rightarrow> pending_map" where
  "leave_request k m = drop_if_idle k (m(k \<mapsto> (pending_of m k)\<lparr>pd_inFlight := pd_inFlight (pending_of m k) - 1\<rparr>))"

definition add_usage :: "num \<Rightarrow> key_usage \<Rightarrow> pending_usage \<Rightarrow> pending_usage" where
  "add_usage sign u p = p\<lparr>pd_costMicros := pd_costMicros p + sign * us_costMicros u,
     pd_inputTokens := pd_inputTokens p + sign * us_inputTokens u, pd_outputTokens := pd_outputTokens p + sign * us_outputTokens u\<rparr>"

definition begin_settlement :: "string \<Rightarrow> key_usage \<Rightarrow> pending_map \<Rightarrow> pending_map" where
  "begin_settlement k u m = m(k \<mapsto> add_usage 1 u (pending_of m k))"

definition end_settlement :: "string \<Rightarrow> key_usage \<Rightarrow> pending_map \<Rightarrow> pending_map" where
  "end_settlement k u m = drop_if_idle k (m(k \<mapsto> add_usage (- 1) u (pending_of m k)))"

text \<open>
  The tracker: the map, the requests whose release was not called yet, and the settlements whose write
  has not finished. A release function called again finds its ticket gone and does nothing.
\<close>

record key_tracker =
  kt_pending :: pending_map
  kt_running :: "nat \<Rightarrow> string option"

definition track_key_request :: "nat \<Rightarrow> string \<Rightarrow> key_tracker \<Rightarrow> key_tracker" where
  "track_key_request ticket k t = t\<lparr>kt_pending := enter_request k (kt_pending t), kt_running := (kt_running t)(ticket \<mapsto> k)\<rparr>"

definition release_request :: "nat \<Rightarrow> key_tracker \<Rightarrow> key_tracker" where
  "release_request ticket t = (case kt_running t ticket of None \<Rightarrow> t
     | Some k \<Rightarrow> t\<lparr>kt_pending := leave_request k (kt_pending t), kt_running := (kt_running t)(ticket := None)\<rparr>)"

inductive key_step :: "key_tracker \<Rightarrow> key_tracker \<Rightarrow> bool" where
  "kt_running t ticket = None \<Longrightarrow> key_step t (track_key_request ticket k t)"
| "key_step t (release_request ticket t)"
| "key_step t (t\<lparr>kt_pending := begin_settlement k u (kt_pending t)\<rparr>)"
| "key_step t (t\<lparr>kt_pending := end_settlement k u (kt_pending t)\<rparr>)"

inductive_cases key_stepE: "key_step t t'"

definition new_tracker :: key_tracker where
  "new_tracker = \<lparr>kt_pending = (\<lambda>_. None), kt_running = (\<lambda>_. None)\<rparr>"

subsection \<open>Limits\<close>

definition pending_value :: "num \<Rightarrow> key_limit \<Rightarrow> pending_usage option \<Rightarrow> num" where
  "pending_value reserve l pending = (case pending of None \<Rightarrow> 0
     | Some p \<Rightarrow> if kl_modelFilter l \<noteq> None then 0
         else case kl_type l of
           COST_USD \<Rightarrow> pd_costMicros p + max 0 (of_int (pd_inFlight p) - 1) * reserve
         | TOTAL_TOKENS \<Rightarrow> pd_inputTokens p + pd_outputTokens p
         | INPUT_TOKENS \<Rightarrow> pd_inputTokens p
         | OUTPUT_TOKENS \<Rightarrow> pd_outputTokens p)"

fun first_exceeded :: "num \<Rightarrow> pending_usage option \<Rightarrow> string option \<Rightarrow> num \<Rightarrow> key_limit list \<Rightarrow> key_limit option" where
  "first_exceeded reserve pending model now [] = None"
| "first_exceeded reserve pending model now (l # ls) =
     (if kl_modelFilter l \<noteq> None \<and> kl_modelFilter l \<noteq> model then first_exceeded reserve pending model now ls
      else if kl_resetAt l \<le> now then first_exceeded reserve pending model now ls
      else if kl_currentValue l + pending_value reserve l pending \<ge> kl_maxValue l then Some l
      else first_exceeded reserve pending model now ls)"

definition check_key_limits :: "num \<Rightarrow> pending_map \<Rightarrow> api_key option \<Rightarrow> string option \<Rightarrow> num \<Rightarrow> policy_rejection option" where
  "check_key_limits reserve pending key model now = (case key of None \<Rightarrow> None
     | Some k \<Rightarrow> map_option LimitExceeded (first_exceeded reserve (pending (ky_id k)) model now (ky_limits k)))"

subsection \<open>The counter of running requests\<close>

definition running_count :: "pending_map \<Rightarrow> string \<Rightarrow> nat" where
  "running_count m k = nat (pd_inFlight (pending_of m k))"

definition pending_inv :: "pending_map \<Rightarrow> bool" where
  "pending_inv m = (\<forall>k. 0 \<le> pd_inFlight (pending_of m k))"

lemma pending_of_drop:
  "pd_inFlight (pending_of m k) \<ge> 0 \<Longrightarrow> pd_inFlight (pending_of (drop_if_idle k m) k') = pd_inFlight (pending_of m k')"
  by (auto simp: drop_if_idle_def pending_of_def idle_usage_def split: option.splits)

lemma pending_of_upd: "pending_of (m(k \<mapsto> p)) k' = (if k' = k then p else pending_of m k')"
  by (simp add: pending_of_def)

lemma leave_inFlight:
  "0 < pd_inFlight (pending_of m k) \<Longrightarrow>
   pd_inFlight (pending_of (leave_request k m) k') = pd_inFlight (pending_of m k') - (if k' = k then 1 else 0)"
  unfolding leave_request_def by (subst pending_of_drop) (simp_all add: pending_of_upd)

lemma settlement_inFlight:
  "pending_inv m \<Longrightarrow> pd_inFlight (pending_of (begin_settlement k u m) k') = pd_inFlight (pending_of m k')"
  "pending_inv m \<Longrightarrow> pd_inFlight (pending_of (end_settlement k u m) k') = pd_inFlight (pending_of m k')"
proof -
  show "pd_inFlight (pending_of (begin_settlement k u m) k') = pd_inFlight (pending_of m k')"
    by (simp add: begin_settlement_def pending_of_upd add_usage_def)
  show "pending_inv m \<Longrightarrow> pd_inFlight (pending_of (end_settlement k u m) k') = pd_inFlight (pending_of m k')"
    unfolding end_settlement_def by (subst pending_of_drop) (simp_all add: pending_of_upd add_usage_def pending_inv_def)
qed

interpretation requests: in_flight_counter pending_inv running_count enter_request leave_request
proof unfold_locales
  fix m :: pending_map and k k' :: string
  assume inv: "pending_inv m"
  show "pending_inv (enter_request k m)"
    using inv by (auto simp: pending_inv_def enter_request_def pending_of_upd intro: add_nonneg_nonneg)
  show "running_count (enter_request k m) k' = (if k' = k then Suc (running_count m k) else running_count m k')"
    using inv by (auto simp: running_count_def enter_request_def pending_of_upd pending_inv_def nat_add_distrib)
  assume "0 < running_count m k"
  then have pos: "0 < pd_inFlight (pending_of m k)" by (simp add: running_count_def)
  show "pending_inv (leave_request k m)"
    using inv pos by (auto simp: pending_inv_def leave_inFlight)
  show "running_count (leave_request k m) k' = (if k' = k then running_count m k - 1 else running_count m k')"
    using pos by (auto simp: running_count_def leave_inFlight nat_diff_distrib)
qed

lemma settlement_tracks:
  assumes "requests.tracks m owner"
  shows "requests.tracks (begin_settlement k u m) owner" "requests.tracks (end_settlement k u m) owner"
proof -
  have inv: "pending_inv m" and tr: "finite (dom owner)" "\<forall>k. running_count m k = card {r. owner r = Some k}"
    using assms unfolding requests.tracks_def by blast+
  have "running_count (begin_settlement k u m) k' = running_count m k'" "running_count (end_settlement k u m) k' = running_count m k'"
    "pending_inv (begin_settlement k u m)" "pending_inv (end_settlement k u m)" for k'
    using inv by (simp_all add: running_count_def pending_inv_def settlement_inFlight)
  then show "requests.tracks (begin_settlement k u m) owner" "requests.tracks (end_settlement k u m) owner"
    using tr unfolding requests.tracks_def by simp_all
qed

lemma key_step_tracks:
  "key_step t t' \<Longrightarrow> requests.tracks (kt_pending t) (kt_running t) \<Longrightarrow> requests.tracks (kt_pending t') (kt_running t')"
proof (induction rule: key_step.induct)
  case (1 t ticket k)
  have "kt_pending (track_key_request ticket k t) = enter_request k (kt_pending t)"
    "kt_running (track_key_request ticket k t) = (kt_running t)(ticket \<mapsto> k)"
    by (simp_all add: track_key_request_def)
  with requests.tracks_enter[OF 1(2,1)] show ?case by (simp only:)
next
  case (2 t ticket)
  show ?case
  proof (cases "kt_running t ticket")
    case None
    then show ?thesis using 2 by (simp add: release_request_def)
  next
    case (Some k)
    then have "kt_pending (release_request ticket t) = leave_request k (kt_pending t)"
      "kt_running (release_request ticket t) = (kt_running t)(ticket := None)"
      by (simp_all add: release_request_def)
    with requests.tracks_leave[OF 2 Some] show ?thesis by (simp only:)
  qed
next
  case (3 t k u)
  then show ?case by (simp add: settlement_tracks)
next
  case (4 t k u)
  then show ?case by (simp add: settlement_tracks)
qed

lemma key_reachable_tracks: "key_step\<^sup>*\<^sup>* new_tracker t \<Longrightarrow> requests.tracks (kt_pending t) (kt_running t)"
proof (induction rule: rtranclp_induct)
  case base
  show ?case unfolding new_tracker_def key_tracker.simps
    by (rule requests.tracks_start) (simp_all add: pending_inv_def running_count_def pending_of_def idle_usage_def)
next
  case (step t t')
  then show ?case by (blast intro: key_step_tracks)
qed

lemma first_exceeded_None:
  "first_exceeded reserve pending model now ls = None \<longleftrightarrow>
   (\<forall>l \<in> set ls. limit_applies model l \<and> now < kl_resetAt l \<longrightarrow> kl_currentValue l + pending_value reserve l pending < kl_maxValue l)"
  by (induction ls) (auto simp: limit_applies_def not_le)

lemma first_exceeded_Some:
  "first_exceeded reserve pending model now ls = Some l \<Longrightarrow> l \<in> set ls \<and> limit_applies model l \<and> now < kl_resetAt l \<and>
   kl_maxValue l \<le> kl_currentValue l + pending_value reserve l pending"
  by (induction ls) (auto simp: limit_applies_def not_le split: if_splits)

subsection \<open>Properties\<close>

text \<open>
  C32. The limit check sees every running request and every unsettled cost. In any state the tracker can
  reach, a key's running count is the number of its requests not released yet, however often a release
  is called; and the check lets a request of the key pass exactly when every limit that applies to its
  model and is in its window has room for what is stored plus what is pending.
\<close>

theorem limit_check_counts_pending:
  assumes "key_step\<^sup>*\<^sup>* new_tracker t"
  shows "pd_inFlight (pending_of (kt_pending t) (ky_id key)) = int (card {ticket. kt_running t ticket = Some (ky_id key)}) \<and>
    (check_key_limits reserve (kt_pending t) (Some key) model now = None \<longleftrightarrow>
      (\<forall>l \<in> set (ky_limits key). limit_applies model l \<and> now < kl_resetAt l \<longrightarrow>
         kl_currentValue l + pending_value reserve l (kt_pending t (ky_id key)) < kl_maxValue l))"
proof -
  have "requests.tracks (kt_pending t) (kt_running t)" by (rule key_reachable_tracks[OF assms])
  then have "running_count (kt_pending t) (ky_id key) = card {ticket. kt_running t ticket = Some (ky_id key)}"
    "0 \<le> pd_inFlight (pending_of (kt_pending t) (ky_id key))"
    by (simp_all add: requests.tracks_def pending_inv_def)
  then show ?thesis by (simp add: running_count_def check_key_limits_def first_exceeded_None)
qed

definition demo_key :: api_key where
  "demo_key = \<lparr>ky_id = ''k'', ky_name = ''K'', ky_keyPrefix = ''sp-k'', ky_keyHash = ''h'', ky_isActive = True,
     ky_trafficClass = ''INTERACTIVE'', ky_allowedModels = [''gpt-5.5''], ky_enforcedModel = None,
     ky_allowedReasoningEfforts = [''ultra''], ky_enforcedReasoningEffort = None, ky_accountScopeEnabled = False,
     ky_accountIds = [], ky_compressionOverride = None, ky_outputPolicyOverride = None,
     ky_limits = [\<lparr>kl_type = COST_USD, kl_window = DAILY, kl_maxValue = 500, kl_modelFilter = None, kl_currentValue = 0, kl_resetAt = 100\<rparr>],
     ky_expiresAt = None, ky_lastUsedAt = None, ky_createdAt = 0\<rparr>"

theorem limit_check_counts_pending_witness:
  "check_key_limits 200 (kt_pending (track_key_request 1 ''k'' new_tracker)) (Some demo_key) None 5 = None"
proof -
  have "key_step\<^sup>*\<^sup>* new_tracker (track_key_request 1 ''k'' new_tracker)"
    by (intro r_into_rtranclp key_step.intros) (simp add: new_tracker_def)
  from limit_check_counts_pending[OF this, of demo_key 200 None 5] show ?thesis
    by (simp add: demo_key_def track_key_request_def enter_request_def pending_of_def idle_usage_def new_tracker_def pending_value_def)
qed

text \<open>
  Parallel requests cannot all pass a nearly spent cost cap. When a key has \<open>n\<close> requests running, this
  one included, and the check passes, the stored cost, the cost still being settled and a reserve for
  each of the other \<open>n - 1\<close> requests together stay below the cap; so with a positive reserve at most
  \<open>1 + (maxValue - currentValue) / reserve\<close> requests run past the check at once.
\<close>

theorem parallel_cost_cap:
  assumes "key_step\<^sup>*\<^sup>* new_tracker t" "check_key_limits reserve (kt_pending t) (Some key) model now = None"
    and "l \<in> set (ky_limits key)" "kl_type l = COST_USD" "kl_modelFilter l = None" "now < kl_resetAt l"
    and "kt_running t ticket = Some (ky_id key)" "0 < reserve" "0 \<le> pd_costMicros (pending_of (kt_pending t) (ky_id key))"
  shows "kl_currentValue l + pd_costMicros (pending_of (kt_pending t) (ky_id key))
      + (real (card {r. kt_running t r = Some (ky_id key)}) - 1) * reserve < kl_maxValue l \<and>
    real (card {r. kt_running t r = Some (ky_id key)}) < 1 + (kl_maxValue l - kl_currentValue l) / reserve"
proof -
  let ?n = "card {r. kt_running t r = Some (ky_id key)}"
  have tr: "requests.tracks (kt_pending t) (kt_running t)" by (rule key_reachable_tracks[OF assms(1)])
  then have "nat (pd_inFlight (pending_of (kt_pending t) (ky_id key))) = ?n"
    unfolding requests.tracks_def running_count_def by blast
  moreover have pos: "0 < ?n"
    using tr assms(7) requests.tracks_idle[OF tr, of "ky_id key"] requests.tracks_count[OF tr, of "ky_id key"]
    by (auto simp: ran_def)
  ultimately have n: "pd_inFlight (pending_of (kt_pending t) (ky_id key)) = int ?n" by linarith
  then obtain p where p: "kt_pending t (ky_id key) = Some p" "pending_of (kt_pending t) (ky_id key) = p"
    using pos by (cases "kt_pending t (ky_id key)") (auto simp: pending_of_def idle_usage_def)
  have "kl_currentValue l + pending_value reserve l (Some p) < kl_maxValue l"
    using assms(2,3,5,6) p(1) by (simp add: check_key_limits_def first_exceeded_None limit_applies_def)
  then have lt: "kl_currentValue l + pd_costMicros p + (real ?n - 1) * reserve < kl_maxValue l"
    using assms(4,5) n p(2) pos by (simp add: pending_value_def max_def split: if_splits)
  have "(real ?n - 1) * reserve < kl_maxValue l - kl_currentValue l" using lt assms(9)[unfolded p(2)] by linarith
  then have "real ?n - 1 < (kl_maxValue l - kl_currentValue l) / reserve" by (simp add: pos_less_divide_eq assms(8))
  with lt p(2) show ?thesis by simp
qed

theorem parallel_cost_cap_witness:
  "real (card {r. kt_running (track_key_request 1 ''k'' new_tracker) r = Some (ky_id demo_key)}) < 1 + (500 - 0) / 200"
proof -
  have r: "key_step\<^sup>*\<^sup>* new_tracker (track_key_request 1 ''k'' new_tracker)"
    by (intro r_into_rtranclp key_step.intros) (simp add: new_tracker_def)
  have c: "check_key_limits 200 (kt_pending (track_key_request 1 ''k'' new_tracker)) (Some demo_key) None 5 = None"
    by code_simp
  let ?l = "\<lparr>kl_type = COST_USD, kl_window = DAILY, kl_maxValue = 500, kl_modelFilter = None, kl_currentValue = 0, kl_resetAt = 100\<rparr>"
  have l: "?l \<in> set (ky_limits demo_key)" by (simp add: demo_key_def)
  have "kt_running (track_key_request 1 ''k'' new_tracker) 1 = Some (ky_id demo_key)"
    by (simp add: track_key_request_def demo_key_def)
  from parallel_cost_cap[OF r c l _ _ _ this] show ?thesis
    by (simp add: track_key_request_def new_tracker_def enter_request_def pending_of_def idle_usage_def demo_key_def)
qed

lemma text_of_JStr: "js_trim s \<noteq> [] \<Longrightarrow> text_of (Some (JStr s)) = Some (js_trim s)"
  by (simp add: text_of_def)

text \<open>
  What leaves the policy obeys the key. When \<open>applyRequestPolicy\<close> lets a request through, the model
  the request asked for (the enforced one, if the key enforces one) is on the key's list when the key
  has a list, a request that names no model included; the effort asked for (or enforced) is on the key's
  list of efforts when it has one, and goes upstream under its wire name; and the body carries the
  service tier of the result, never \<open>auto\<close>, \<open>default\<close> or the alias \<open>fast\<close>.
\<close>

theorem policy_enforced:
  assumes "apply_request_policy (Some key) fastTier input = Inr r" "fastTier \<noteq> Some ''fast''"
  defines "asked \<equiv> text_of (map_of (set_model (enforced ky_enforcedModel (Some key)) input) ''model'')"
  shows "(ky_allowedModels key \<noteq> [] \<longrightarrow> (\<exists>m. asked = Some m \<and> m \<in> set (ky_allowedModels key))) \<and>
    pr_model r = served_model asked \<and>
    (pr_model r \<noteq> asked \<longrightarrow> text_of (map_of (pr_body r) ''model'') = pr_model r) \<and>
    (\<forall>e. pr_reasoningEffort r = Some e \<longrightarrow>
       (ky_allowedReasoningEfforts key \<noteq> [] \<longrightarrow> e \<in> set (ky_allowedReasoningEfforts key)) \<and>
       (\<exists>reasoning. map_of (pr_body r) ''reasoning'' = Some (JObj reasoning) \<and>
          map_of reasoning ''effort'' = Some (JStr (wire_effort e)))) \<and>
    map_of (pr_body r) ''service_tier'' = map_option JStr (pr_serviceTier r) \<and>
    pr_serviceTier r \<notin> Some ` {''auto'', ''default'', ''fast''}"
proof -
  obtain body1 model where m: "apply_model (Some key) input = Inr (body1, model)"
    using assms(1) by (auto simp: apply_request_policy_def split: sum.splits)
  obtain body2 requested where e: "apply_effort (Some key) body1 = Inr (body2, requested)"
    using assms(1) m by (auto simp: apply_request_policy_def split: sum.splits)
  define raw where "raw = raw_service_tier body2"
  define tier where "tier = wire_service_tier fastTier raw"
  have r: "r = \<lparr>pr_body = set_service_tier tier body2, pr_model = model, pr_reasoningEffort = requested,
      pr_requestedServiceTier = raw, pr_serviceTier = tier\<rparr>"
    using assms(1) m e by (simp add: apply_request_policy_def Let_def raw_def tier_def)
  have allowed: "assert_model_allowed (Some key) asked = None" and model: "model = served_model asked"
    and b1: "body1 = (if model \<noteq> asked then set_model model (set_model (enforced ky_enforcedModel (Some key)) input)
      else set_model (enforced ky_enforcedModel (Some key)) input)"
    using m by (auto simp: apply_model_def Let_def asked_def split: option.splits)
  have b2: "map_of body2 k = map_of body1 k" if "k \<noteq> ''reasoning''" for k
    using e that by (auto simp: apply_effort_def split: prod.splits option.splits if_splits)
  have b3: "map_of (pr_body r) k = map_of body2 k" if "k \<noteq> ''service_tier''" for k
    using that by (simp add: r set_service_tier_def split: option.splits)
  have "text_of (map_of (pr_body r) ''model'') = model" if ne: "model \<noteq> asked"
  proof -
    obtain a where a: "asked = Some a" "a \<in> fst ` set retired_codex_models" "model = Some (the (map_of retired_codex_models a))"
      using ne model by (cases asked) (auto simp: served_model_def retired_codex_models_def split: if_splits)
    then have "model \<in> Some ` {''gpt-5.6-sol'', ''gpt-5.6-luna''}" by (auto simp: retired_codex_models_def)
    moreover have "js_trim ''gpt-5.6-sol'' = ''gpt-5.6-sol''" "js_trim ''gpt-5.6-luna'' = ''gpt-5.6-luna''" by code_simp+
    ultimately show ?thesis
      using ne by (auto simp: b3 b2 b1 set_model_def text_of_def)
  qed
  moreover have "(ky_allowedReasoningEfforts key \<noteq> [] \<longrightarrow> x \<in> set (ky_allowedReasoningEfforts key)) \<and>
      (\<exists>reasoning. map_of (pr_body r) ''reasoning'' = Some (JObj reasoning) \<and> map_of reasoning ''effort'' = Some (JStr (wire_effort x)))"
    if "requested = Some x" for x
    using e that by (auto simp: b3 apply_effort_def split: prod.splits option.splits if_splits)
  moreover have "map_of (pr_body r) ''service_tier'' = map_option JStr (pr_serviceTier r)"
    by (simp add: r set_service_tier_def split: option.splits)
  moreover have "pr_serviceTier r \<notin> Some ` {''auto'', ''default'', ''fast''}"
    using assms(2) by (cases fastTier)
      (auto simp: r tier_def wire_service_tier_def omitted_service_tiers_def Let_def split: option.splits if_splits)
  moreover have "\<exists>x. asked = Some x \<and> x \<in> set (ky_allowedModels key)" if "ky_allowedModels key \<noteq> []"
    using allowed that by (auto simp: assert_model_allowed_def split: option.splits if_splits)
  ultimately show ?thesis using model by (simp add: r)
qed

theorem policy_enforced_witness:
  "\<exists>r. apply_request_policy (Some demo_key) None
      [(''model'', JStr ''gpt-5.5''), (''reasoning'', JObj [(''effort'', JStr ''Ultra'')]), (''service_tier'', JStr ''auto'')] = Inr r \<and>
     pr_model r = Some ''gpt-5.6-sol'' \<and> text_of (map_of (pr_body r) ''model'') = Some ''gpt-5.6-sol''"
proof -
  let ?input = "[(''model'', JStr ''gpt-5.5''), (''reasoning'', JObj [(''effort'', JStr ''Ultra'')]), (''service_tier'', JStr ''auto'')]"
  have "map_option pr_model (case apply_request_policy (Some demo_key) None ?input of Inl _ \<Rightarrow> None | Inr r \<Rightarrow> Some r)
      = Some (Some ''gpt-5.6-sol'')"
    by code_simp
  then obtain r where r: "apply_request_policy (Some demo_key) None ?input = Inr r" "pr_model r = Some ''gpt-5.6-sol''"
    by (auto split: sum.splits)
  have "text_of (map_of (set_model (enforced ky_enforcedModel (Some demo_key)) ?input) ''model'') = Some ''gpt-5.5''"
    by code_simp
  with policy_enforced[OF r(1)] r show ?thesis by auto
qed

end
