(* ===== verification/Key_Pools.thy ===== *)
theory Key_Pools
  imports Account_Pool_Props Key_Policy
begin

text \<open>
  The API-key pools for OpenAI-compatible providers
  (\<open>packages/gateway/src/providers/key-pools/key-pools.ts\<close>): the next key, what an upstream's failure
  does to a key, and the attempt loop of a request. What the network answers is the parameter \<open>upstream\<close>
  (by attempt, account and credentials), \<open>parse\<close> is \<open>JSON.parse\<close> (\<open>None\<close> where it throws), and \<open>gone\<close>
  says whether the client's connection was closed at an attempt.
\<close>

subsection \<open>Usage of a payload\<close>

definition usage_number :: "json option \<Rightarrow> num option" where
  "usage_number v = (case v of Some (JNum x) \<Rightarrow> if x \<ge> 0 then Some (js_trunc x) else None | _ \<Rightarrow> None)"

record pool_usage =
  pu_inputTokens :: "num option"
  pu_outputTokens :: "num option"
  pu_cachedInputTokens :: "num option"
  pu_costUsd :: "num option"

text \<open>\<open>a ?? b\<close> on members: JSON's \<open>null\<close> counts as absent.\<close>

definition member :: "json_object \<Rightarrow> string \<Rightarrow> json option" where
  "member o' k = (case map_of o' k of Some JNull \<Rightarrow> None | x \<Rightarrow> x)"

definition fields :: "json option \<Rightarrow> json_object" where
  "fields x = (case x of Some (JObj o') \<Rightarrow> o' | _ \<Rightarrow> [])"

definition read_pool_usage :: "json option \<Rightarrow> pool_usage option" where
  "read_pool_usage payload =
     (let holder = fields payload;
          usage = or_else (member holder ''usage'') (member (fields (map_of holder ''response'')) ''usage'')
      in case usage of
           Some (JObj u) \<Rightarrow>
             (let details = fields (or_else (member u ''prompt_tokens_details'') (member u ''input_tokens_details''))
              in Some \<lparr>pu_inputTokens = usage_number (or_else (member u ''prompt_tokens'') (member u ''input_tokens'')),
                   pu_outputTokens = usage_number (or_else (member u ''completion_tokens'') (member u ''output_tokens'')),
                   pu_cachedInputTokens = usage_number (map_of details ''cached_tokens''),
                   pu_costUsd = (case map_of u ''cost'' of Some (JNum c) \<Rightarrow> if 0 \<le> c \<and> c < 1000 then Some c else None | _ \<Rightarrow> None)\<rparr>)
         | Some (JArr _) \<Rightarrow> Some \<lparr>pu_inputTokens = None, pu_outputTokens = None, pu_cachedInputTokens = None, pu_costUsd = None\<rparr>
         | _ \<Rightarrow> None)"

subsection \<open>The next key\<close>

definition in_scope :: "string list option \<Rightarrow> string \<Rightarrow> bool" where
  "in_scope scope i = (case scope of None \<Rightarrow> True | Some ids \<Rightarrow> i \<in> set ids)"

definition next_account ::
  "pool_env \<Rightarrow> router_env \<Rightarrow> routing_strategy \<Rightarrow> string list option \<Rightarrow> string list \<Rightarrow> num \<Rightarrow> account_pool
   \<Rightarrow> account_pool \<times> account option" where
  "next_account env renv strategy scope tried now p0 =
     (let (p, all) = pool_accounts env now p0;
          accounts = filter (\<lambda>a. in_scope scope (ac_id a) \<and> ac_id a \<notin> set tried) all;
          opts = (default_options (now / 1000))\<lparr>so_routingStrategy :=
            (if strategy = SINGLE_ACCOUNT then SINGLE_ACCOUNT else ROUND_ROBIN)\<rparr>;
          (states, result) = select_account renv opts (map (to_balancer_state p []) accounts)
      in (fold absorb states p, case sr_account result of None \<Rightarrow> None
            | Some s \<Rightarrow> List.find (\<lambda>a. ac_id a = st_accountId s) accounts))"

subsection \<open>Failures\<close>

definition error_fields :: "(string \<Rightarrow> json option) \<Rightarrow> string \<Rightarrow> json_object" where
  "error_fields parse text = fields (map_of (fields (parse text)) ''error'')"

definition error_message :: "json_object \<Rightarrow> nat \<Rightarrow> string" where
  "error_message error status = (case map_of error ''message'' of Some (JStr m) \<Rightarrow> take 300 m | _ \<Rightarrow> ''HTTP '' @ show_nat status)"

definition out_of_credit :: "json_object \<Rightarrow> nat \<Rightarrow> bool" where
  "out_of_credit error status = (status = 402
     \<or> map_of error ''code'' \<in> {Some (JStr ''insufficient_quota''), Some (JStr ''credit_balance_exhausted'')}
     \<or> map_of error ''type'' = Some (JStr ''insufficient_quota''))"

definition record_failure ::
  "pool_env \<Rightarrow> (string \<Rightarrow> json option) \<Rightarrow> account \<Rightarrow> nat \<Rightarrow> string \<Rightarrow> num \<Rightarrow> real \<Rightarrow> account_pool \<Rightarrow> account_pool \<times> bool" where
  "record_failure env parse a status text now rnd p =
     (let error = error_fields parse text; message = error_message error status in
      if status = 401 then (fst (refresh_rejected_token env a ''token_invalidated'' now p), True)
      else if status = 403 then (mark_permanent_failure a ''token_invalidated'' False now p, True)
      else if out_of_credit error status
      then (mark_quota_exceeded a \<lparr>ue_message = Some message, ue_resetsAt = None, ue_resetsInSeconds = Some (24 * 3600)\<rparr> now p, True)
      else if status = 429
      then (mark_rate_limited a \<lparr>ue_message = Some message, ue_resetsAt = None, ue_resetsInSeconds = None\<rparr> now rnd p, True)
      else if status \<ge> 500 then (mark_transient_error (ac_id a) now p, True)
      else (p, False))"

subsection \<open>A request\<close>

datatype upstream_reply = ConnectionFailed | UpstreamError nat string | UpstreamOk

datatype forward_outcome =
    Served account
  | ClientClosed
  | UpstreamAnswer nat string
  | NoAccounts
  | Rejected nat

record pool_request =
  fr_env :: pool_env
  fr_router :: router_env
  fr_strategy :: routing_strategy
  fr_scope :: "string list option"
  fr_clock :: "nat \<Rightarrow> num"
  fr_random :: "nat \<Rightarrow> real"
  fr_gone :: "nat \<Rightarrow> bool"
  fr_upstream :: "nat \<Rightarrow> account \<Rightarrow> stored_credentials \<Rightarrow> upstream_reply"
  fr_parse :: "string \<Rightarrow> json option"
  fr_unreachable :: string
  fr_response :: nat
  fr_startedAt :: num

text \<open>The answer when no attempt was served: the last upstream answer, or 503.\<close>

definition give_up :: "(nat \<times> string) option \<Rightarrow> forward_outcome" where
  "give_up last' = (case last' of Some (st, text) \<Rightarrow> UpstreamAnswer st text | None \<Rightarrow> NoAccounts)"

text \<open>
  The attempt loop, by the attempts left; \<open>n\<close> numbers the attempt. It returns the pool, the accounts
  tried (latest first) and the outcome.
\<close>

fun forward_loop ::
  "pool_request \<Rightarrow> nat \<Rightarrow> nat \<Rightarrow> string list \<Rightarrow> (nat \<times> string) option \<Rightarrow> account_pool
   \<Rightarrow> account_pool \<times> string list \<times> forward_outcome" where
  "forward_loop q 0 n tried last' p = (p, tried, give_up last')"
| "forward_loop q (Suc left) n tried last' p =
     (case next_account (fr_env q) (fr_router q) (fr_strategy q) (fr_scope q) tried (fr_clock q n) p of
        (p1, None) \<Rightarrow> (p1, tried, give_up last')
      | (p1, Some a) \<Rightarrow>
          (let p2 = mark_selected (ac_id a) (Some (fr_response q)) (fr_clock q n) p1;
               (p3, creds) = credentials (fr_env q) a (fr_clock q n) p2;
               reply = (case creds of Inl _ \<Rightarrow> ConnectionFailed | Inr c \<Rightarrow> fr_upstream q n a c)
           in case reply of
                ConnectionFailed \<Rightarrow>
                  if fr_gone q n then (p3, ac_id a # tried, ClientClosed)
                  else forward_loop q left (Suc n) (ac_id a # tried) (Some (502, fr_unreachable q))
                    (mark_transient_error (ac_id a) (fr_clock q n) p3)
              | UpstreamError st text \<Rightarrow>
                  (let (p4, again) = record_failure (fr_env q) (fr_parse q) a st text (fr_clock q n) (fr_random q n) p3
                   in if again then forward_loop q left (Suc n) (ac_id a # tried) (Some (st, text)) p4
                      else (p4, ac_id a # tried, give_up (Some (st, text))))
              | UpstreamOk \<Rightarrow>
                  (touch (ac_id a) (fr_startedAt q) (mark_success (fr_env q) (ac_id a) (fr_clock q n) p3),
                   ac_id a # tried, Served a)))"

text \<open>\<open>forward\<close>: the key's checks, then the loop. \<open>reserve\<close> and \<open>pending\<close> belong to the key policy.\<close>

definition pool_model :: "api_key \<Rightarrow> json_object \<Rightarrow> string option" where
  "pool_model key body = text_of (map_of (set_model (enforced ky_enforcedModel (Some key)) body) ''model'')"

definition forward ::
  "pool_request \<Rightarrow> nat \<Rightarrow> num \<Rightarrow> pending_map \<Rightarrow> api_key \<Rightarrow> json_object option \<Rightarrow> account_pool
   \<Rightarrow> account_pool \<times> string list \<times> forward_outcome" where
  "forward q maxAttempts reserve pending key body p =
     (case body of None \<Rightarrow> (p, [], Rejected 400)
      | Some b \<Rightarrow> (case pool_model key b of None \<Rightarrow> (p, [], Rejected 400)
        | Some model \<Rightarrow>
            if ky_allowedModels key \<noteq> [] \<and> model \<notin> set (ky_allowedModels key) then (p, [], Rejected 403)
            else (case check_key_limits reserve pending (Some key) (Some model) (fr_startedAt q) of
              Some e \<Rightarrow> (p, [], Rejected (rejection_status e))
            | None \<Rightarrow> forward_loop (q\<lparr>fr_scope := (if ky_accountScopeEnabled key then Some (ky_accountIds key) else None)\<rparr>)
                maxAttempts 0 [] None p)))"

subsection \<open>Properties\<close>

lemma next_account_fresh:
  assumes "next_account env renv strategy scope tried now p = (p', Some a)"
  shows "in_scope scope (ac_id a) \<and> ac_id a \<notin> set tried"
  using assms by (auto simp: next_account_def Let_def split: prod.splits option.splits dest!: find_SomeD)

text \<open>What the loop keeps: keys tried are distinct and in scope, and a served key is the last one tried.\<close>

definition tried_ok :: "pool_request \<Rightarrow> nat \<Rightarrow> string list \<Rightarrow> bool" where
  "tried_ok q n tried = (distinct tried \<and> length tried = n \<and> (\<forall>i \<in> set tried. in_scope (fr_scope q) i))"

lemma forward_loop_tried:
  "forward_loop q left n tried last' p = (p', tried', out) \<Longrightarrow> tried_ok q n tried \<Longrightarrow>
   distinct tried' \<and> length tried' \<le> n + left \<and> (\<forall>i \<in> set tried'. in_scope (fr_scope q) i) \<and>
   (\<forall>a. out = Served a \<longrightarrow> tried' \<noteq> [] \<and> hd tried' = ac_id a \<and>
      (\<exists>c. fr_upstream q (length tried' - 1) a c = UpstreamOk))"
proof (induction q left n tried last' p rule: forward_loop.induct)
  case (1 q n tried last' p)
  then show ?case by (auto simp: tried_ok_def give_up_def split: option.splits)
next
  case (2 q left n tried last' p)
  obtain p1 next' where na: "next_account (fr_env q) (fr_router q) (fr_strategy q) (fr_scope q) tried (fr_clock q n) p = (p1, next')"
    by fastforce
  show ?case
  proof (cases next')
    case None
    then show ?thesis using 2 na by (auto simp: tried_ok_def give_up_def split: option.splits)
  next
    case (Some a)
    define p2 where "p2 = mark_selected (ac_id a) (Some (fr_response q)) (fr_clock q n) p1"
    obtain p3 creds where c: "credentials (fr_env q) a (fr_clock q n) p2 = (p3, creds)" by fastforce
    define reply where "reply = (case creds of Inl _ \<Rightarrow> ConnectionFailed | Inr c \<Rightarrow> fr_upstream q n a c)"
    have ok: "tried_ok q (Suc n) (ac_id a # tried)"
      using "2.prems"(2) next_account_fresh[of "fr_env q"] na Some by (auto simp: tried_ok_def)
    note IH = "2.IH"[OF na[symmetric] Some p2_def c[symmetric] refl reply_def]
    show ?thesis
    proof (cases reply)
      case ConnectionFailed
      show ?thesis
      proof -
        have eq: "forward_loop q (Suc left) n tried last' p = (if fr_gone q n then (p3, ac_id a # tried, ClientClosed)
          else forward_loop q left (Suc n) (ac_id a # tried) (Some (502, fr_unreachable q)) (mark_transient_error (ac_id a) (fr_clock q n) p3))"
          using na Some c ConnectionFailed by (simp add: p2_def reply_def)
        show ?thesis
          using "2.prems"(1) IH(1)[OF ConnectionFailed _ _ ok] ok unfolding eq by (auto simp: tried_ok_def split: if_splits)
      qed
    next
      case (UpstreamError st msg)
      obtain p4 again where rf: "record_failure (fr_env q) (fr_parse q) a st msg (fr_clock q n) (fr_random q n) p3 = (p4, again)"
        by fastforce
      show ?thesis
      proof -
        have eq: "forward_loop q (Suc left) n tried last' p = (if again
            then forward_loop q left (Suc n) (ac_id a # tried) (Some (st, msg)) p4
            else (p4, ac_id a # tried, give_up (Some (st, msg))))"
          using na Some c UpstreamError rf by (simp add: p2_def reply_def)
        show ?thesis
          using "2.prems"(1) IH(2)[OF UpstreamError rf[symmetric] refl _ _ ok] ok unfolding eq
          by (cases again) (auto simp: tried_ok_def give_up_def)
      qed
    next
      case UpstreamOk
      then have "\<exists>x. fr_upstream q n a x = UpstreamOk" by (auto simp: reply_def split: sum.splits)
      moreover have "forward_loop q (Suc left) n tried last' p =
          (touch (ac_id a) (fr_startedAt q) (mark_success (fr_env q) (ac_id a) (fr_clock q n) p3), ac_id a # tried, Served a)"
        using na Some c UpstreamOk by (simp add: p2_def reply_def)
      ultimately show ?thesis using "2.prems"(1) ok by (auto simp: tried_ok_def)
    qed
  qed
qed

text \<open>
  C28. A pooled request tries each key once, within its scope. Whatever the upstreams answer, the keys a
  request is sent to are different, at most \<open>maxAttempts\<close>, and all among the accounts its gateway key is
  limited to; when it is served, the account that served it is the last one tried, and that attempt was
  answered; a rejected request reaches no key at all.
\<close>

theorem forward_tries_each_key_once:
  assumes "forward q maxAttempts reserve pending key body p = (p', tried, out)"
  shows "distinct tried \<and> length tried \<le> maxAttempts \<and>
    (ky_accountScopeEnabled key \<longrightarrow> set tried \<subseteq> set (ky_accountIds key)) \<and>
    (\<forall>a. out = Served a \<longrightarrow> tried \<noteq> [] \<and> hd tried = ac_id a \<and> (\<exists>c. fr_upstream q (length tried - 1) a c = UpstreamOk)) \<and>
    (\<forall>st. out = Rejected st \<longrightarrow> tried = [] \<and> p' = p)"
proof -
  have no_reject: "forward_loop q left n tr la p = (p', tr', o') \<Longrightarrow> o' \<noteq> Rejected st" for q left n tr la p p' tr' o' st
    by (induction q left n tr la p rule: forward_loop.induct)
      (auto simp: Let_def give_up_def split: prod.splits option.splits upstream_reply.splits if_splits)
  define q' where "q' = q\<lparr>fr_scope := (if ky_accountScopeEnabled key then Some (ky_accountIds key) else None)\<rparr>"
  have "(tried = [] \<and> p' = p \<and> (\<exists>st. out = Rejected st)) \<or> forward_loop q' maxAttempts 0 [] None p = (p', tried, out)"
    using assms by (auto simp: forward_def q'_def split: option.splits if_splits)
  then show ?thesis
  proof
    assume l: "forward_loop q' maxAttempts 0 [] None p = (p', tried, out)"
    have "tried_ok q' 0 []" by (simp add: tried_ok_def)
    from forward_loop_tried[OF l this] no_reject[OF l] show ?thesis
      by (auto simp: q'_def in_scope_def)
  qed auto
qed

theorem forward_tries_each_key_once_witness:
  "\<exists>p' tried out. forward \<lparr>fr_env = demo_pool_env, fr_router = demo_env, fr_strategy = ROUND_ROBIN, fr_scope = None,
      fr_clock = (\<lambda>_. 0), fr_random = (\<lambda>_. 0), fr_gone = (\<lambda>_. False), fr_upstream = (\<lambda>_ _ _. UpstreamOk), fr_parse = (\<lambda>_. None),
      fr_unreachable = [], fr_response = 1, fr_startedAt = 5\<rparr> 3 200 (\<lambda>_. None) (demo_key\<lparr>ky_allowedModels := []\<rparr>)
      (Some [(''model'', JStr ''m'')]) (new_pool demo_repo) = (p', tried, out) \<and> length tried \<le> 3 \<and> distinct tried"
proof -
  let ?q = "\<lparr>fr_env = demo_pool_env, fr_router = demo_env, fr_strategy = ROUND_ROBIN, fr_scope = None,
      fr_clock = (\<lambda>_. 0), fr_random = (\<lambda>_. 0), fr_gone = (\<lambda>_. False), fr_upstream = (\<lambda>_ _ _. UpstreamOk), fr_parse = (\<lambda>_. None),
      fr_unreachable = [], fr_response = 1, fr_startedAt = 5\<rparr>"
  obtain p' tried out where f: "forward ?q 3 200 (\<lambda>_. None) (demo_key\<lparr>ky_allowedModels := []\<rparr>) (Some [(''model'', JStr ''m'')])
      (new_pool demo_repo) = (p', tried, out)" by (metis prod_cases3)
  from forward_tries_each_key_once[OF f] f show ?thesis by blast
qed

lemma refresh_without_token:
  assumes "find_account (ac_id a) (pl_repo p) = Some a" "pe_cipher env = Some c"
    and "cp_unseal c (ac_credentialsEncrypted a) (ac_id a) = Some stored" "sc_refreshToken stored = None"
  shows "fst (refresh_rejected_token env a ''token_invalidated'' now p) = mark_permanent_failure a ''token_invalidated'' True now p"
proof -
  have "''token_invalidated'' \<in> set access_token_rejections" by (simp add: access_token_rejections_def)
  then show ?thesis
    using assms by (simp add: refresh_rejected_token_def with_credential_lock_def refresh_forced_def)
qed

text \<open>
  A rejected key leaves rotation; a forbidden one stays. For an API key (no refresh token, no expiry)
  that storage holds and nobody paused, a 401 from upstream makes every later selection skip it, in this
  process and in one that starts from the storage; a 403, which may be about one model only, leaves it
  selectable as soon as no cooldown or error backoff is running.
\<close>

theorem rejected_key_leaves_rotation:
  assumes "find_account (ac_id a) (pl_repo p) = Some a" "ac_status a \<noteq> PAUSED" "pe_cipher env = Some c"
    and "cp_unseal c (ac_credentialsEncrypted a) (ac_id a) = Some stored" "sc_refreshToken stored = None" "0 \<le> now"
    and "p401 = fst (record_failure env parse a 401 text now rnd p)" "p403 = fst (record_failure env parse a 403 text now rnd p)"
  shows "(\<exists>a'. find_account (ac_id a) (pl_repo p401) = Some a' \<and> (\<forall>opts. now / 1000 \<le> so_now opts \<longrightarrow>
        snd (recover_one opts (to_balancer_state p401 [] a')) = Skipped \<and>
        snd (recover_one opts (to_balancer_state (new_pool (pl_repo p401)) [] a')) = Skipped)) \<and>
    (ac_credentialsExpiresAt a = None \<longrightarrow> rt_cooldownUntil (runtime_of p (ac_id a)) = None \<longrightarrow>
      (\<exists>a'. find_account (ac_id a) (pl_repo p403) = Some a' \<and>
        (\<forall>opts. snd (recover_one opts (to_balancer_state p403 [] a')) \<noteq> Skipped)))"
proof (intro conjI impI)
  let ?code = "''token_invalidated''"
  have code: "?code \<in> set reauth_required_failure_codes" by (simp add: reauth_required_failure_codes_def)
  have "p401 = mark_permanent_failure a ?code True now p"
    using refresh_without_token[OF assms(1,3,4,5)] by (simp add: assms(7) record_failure_def Let_def)
  from permanent_failure_signed_out[OF assms(1,2) code assms(6) order_refl this]
  show "\<exists>a'. find_account (ac_id a) (pl_repo p401) = Some a' \<and> (\<forall>opts. now / 1000 \<le> so_now opts \<longrightarrow>
        snd (recover_one opts (to_balancer_state p401 [] a')) = Skipped \<and>
        snd (recover_one opts (to_balancer_state (new_pool (pl_repo p401)) [] a')) = Skipped)" by blast
next
  let ?code = "''token_invalidated''"
  assume none: "ac_credentialsExpiresAt a = None" "rt_cooldownUntil (runtime_of p (ac_id a)) = None"
  have p403: "p403 = mark_permanent_failure a ?code False now p" by (simp add: assms(8) record_failure_def Let_def)
  obtain a' where a': "find_account (ac_id a) (pl_repo p403) = Some a'" "ac_id a' = ac_id a"
    "ac_status a' = REAUTH_REQUIRED" "ac_credentialsExpiresAt a' = None"
    by (rule find_permanent[OF assms(1,2), of ?code False now])
      (use none in \<open>auto simp: p403 account_status_for_permanent_failure_def reauth_required_failure_codes_def\<close>)
  have rt: "rt_status (runtime_of p403 (ac_id a)) = Some REAUTH_REQUIRED" "rt_cooldownUntil (runtime_of p403 (ac_id a)) = None"
    using none(2) by (simp_all add: p403 runtime_permanent account_status_for_permanent_failure_def reauth_required_failure_codes_def)
  let ?s = "to_balancer_state p403 [] a'"
  have s: "st_status ?s = REAUTH_REQUIRED" "st_accessTokenExpiresAt ?s = None" "st_cooldownUntil ?s = None"
    using a' rt by (simp_all add: to_balancer_state_def Let_def to_seconds_def)
  have "snd (recover_one opts ?s) \<noteq> Skipped" for opts
  proof -
    have "\<not> filtered_out opts ?s" using s by (simp add: filtered_out_def known_expired_reauth_def limited_status_def)
    moreover have "lifted (so_now opts) ?s = ?s" by (rule lifted_id) (simp add: s limited_status_def)
    ultimately show ?thesis
      using s(3) by (simp add: recover_one_eq admit_def Let_def clear_cooldown_def cooling_down_def)
  qed
  then show "\<exists>a'. find_account (ac_id a) (pl_repo p403) = Some a' \<and>
      (\<forall>opts. snd (recover_one opts (to_balancer_state p403 [] a')) \<noteq> Skipped)" using a'(1) by blast
qed

theorem rejected_key_leaves_rotation_witness:
  "\<exists>a'. find_account ''a'' (pl_repo (fst (record_failure (demo_pool_env\<lparr>pe_cipher := Some \<lparr>cp_seal = (\<lambda>c i. sc_accessToken c),
      cp_unseal = (\<lambda>s i. Some (demo_token s\<lparr>sc_refreshToken := None\<rparr>))\<rparr>\<rparr>) (\<lambda>_. None) demo_account 401 [] 0 0 (new_pool demo_repo))))
     = Some (a' :: account)"
proof -
  let ?c = "\<lparr>cp_seal = (\<lambda>c i. sc_accessToken c), cp_unseal = (\<lambda>s i. Some ((demo_token s)\<lparr>sc_refreshToken := None\<rparr>))\<rparr> :: cipher"
  let ?env = "demo_pool_env\<lparr>pe_cipher := Some ?c\<rparr>"
  have f: "find_account (ac_id demo_account) (pl_repo (new_pool demo_repo)) = Some demo_account"
    using demo_find by (simp add: demo_account_simps)
  have np: "ac_status demo_account \<noteq> PAUSED" by (simp add: demo_account_simps)
  have e: "pe_cipher ?env = Some ?c" by simp
  have u: "cp_unseal ?c (ac_credentialsEncrypted demo_account) (ac_id demo_account) = Some ((demo_token ''t'')\<lparr>sc_refreshToken := None\<rparr>)"
    by (simp add: demo_account_simps)
  have r: "sc_refreshToken ((demo_token ''t'')\<lparr>sc_refreshToken := None\<rparr>) = None" by simp
  from rejected_key_leaves_rotation[OF f np e u r order_refl refl refl] show ?thesis
    unfolding demo_account_simps by blast
qed

end
