(* ===== verification/Sticky_Store.thy ===== *)
theory Sticky_Store
  imports Gateway_Repository
begin

text \<open>
  \<open>StickyStore\<close> of \<open>packages/gateway/src/accounts/sticky-store.ts\<close>: conversation-to-account bindings in
  two bounded caches (bindings and misses) with a write-behind list. The record \<open>sticky_env\<close> holds the
  injected options: whether there is a repository, whether its reads and writes fail now, the provider,
  the kind and the lifetime of a binding.
\<close>

record sticky_env =
  se_repository :: bool
  se_readFails :: bool
  se_writeFails :: bool
  se_provider :: string
  se_kind :: string
  se_ttlMs :: num

record memory_binding =
  mb_accountId :: string
  mb_expiresAt :: num

text \<open>The time of a miss; \<open>NEGATIVE_INFINITY\<close> clears it.\<close>

datatype miss = MissedAt num | NegativeInfinity

record sticky_store =
  ss_memory :: "(string \<times> memory_binding) list"
  ss_misses :: "(string \<times> miss) list"
  ss_pending :: "(string \<times> sticky_binding) list"
  ss_timer :: bool

definition new_sticky_store :: sticky_store where
  "new_sticky_store = \<lparr>ss_memory = [], ss_misses = [], ss_pending = [], ss_timer = False\<rparr>"

abbreviation (input) NEGATIVE_MS :: real where "NEGATIVE_MS \<equiv> 60000"

definition recent_miss :: "num \<Rightarrow> miss option \<Rightarrow> bool" where
  "recent_miss now m = (case m of Some (MissedAt t) \<Rightarrow> now - t < NEGATIVE_MS | _ \<Rightarrow> False)"

text \<open>
  \<open>get\<close> up to its \<open>await\<close>: the answer, if the caches (or the lack of a repository) give one, and after it, with
  what the repository found; a failure counts as nothing found. Other calls run in between.
\<close>

definition sticky_lookup :: "sticky_env \<Rightarrow> string \<Rightarrow> num \<Rightarrow> sticky_store \<Rightarrow> string option option" where
  "sticky_lookup env k now st =
     (let rest = (if recent_miss now (bounded_get k (ss_misses st)) then Some None
            else if \<not> se_repository env then Some None else None)
      in case bounded_get k (ss_memory st) of
           Some cached \<Rightarrow> if mb_expiresAt cached > now then Some (Some (mb_accountId cached)) else rest
         | None \<Rightarrow> rest)"

definition sticky_resume ::
  "sticky_env \<Rightarrow> string \<Rightarrow> num \<Rightarrow> sticky_binding option \<Rightarrow> sticky_store \<Rightarrow> sticky_store \<times> string option" where
  "sticky_resume env k now found st = (case found of
       Some stored \<Rightarrow> (st\<lparr>ss_memory := bounded_set MEMORY_LIMIT k
           \<lparr>mb_accountId = sb_accountId stored, mb_expiresAt = dflt (sb_expiresAt stored) (now + se_ttlMs env)\<rparr>
           (ss_memory st)\<rparr>, Some (sb_accountId stored))
     | None \<Rightarrow> (st\<lparr>ss_misses := bounded_set MEMORY_LIMIT k (MissedAt now) (ss_misses st)\<rparr>, None))"

text \<open>\<open>get\<close> with nothing in between.\<close>

definition sticky_get :: "sticky_env \<Rightarrow> gateway_repo \<Rightarrow> string \<Rightarrow> num \<Rightarrow> sticky_store \<Rightarrow> sticky_store \<times> string option" where
  "sticky_get env repo k now st = (case sticky_lookup env k now st of Some answer \<Rightarrow> (st, answer)
     | None \<Rightarrow> sticky_resume env k now (if se_readFails env then None else find_sticky_binding k (js_trunc now) repo) st)"

lemmas sticky_gets = sticky_get_def sticky_lookup_def sticky_resume_def

definition sticky_set :: "sticky_env \<Rightarrow> string \<Rightarrow> string \<Rightarrow> num \<Rightarrow> sticky_store \<Rightarrow> sticky_store" where
  "sticky_set env k accountId now st =
     (let expiresAt = now + se_ttlMs env;
          st1 = st\<lparr>ss_memory := bounded_set MEMORY_LIMIT k \<lparr>mb_accountId = accountId, mb_expiresAt = expiresAt\<rparr> (ss_memory st),
                   ss_misses := bounded_set MEMORY_LIMIT k NegativeInfinity (ss_misses st)\<rparr>
      in if \<not> se_repository env then st1
         else st1\<lparr>ss_pending := map_set k \<lparr>sb_keyHash = k, sb_kind = se_kind env, sb_provider = se_provider env,
                    sb_accountId = accountId, sb_expiresAt = Some (js_trunc expiresAt)\<rparr> (ss_pending st1),
                  ss_timer := True\<rparr>)"

text \<open>\<open>flush\<close> up to its \<open>await\<close>: the rows to write; then the write, which may fail.\<close>

definition flush_rows :: "sticky_store \<Rightarrow> sticky_binding list \<times> sticky_store" where
  "flush_rows st = (map snd (ss_pending st), st\<lparr>ss_timer := False, ss_pending := []\<rparr>)"

definition sticky_flush :: "sticky_env \<Rightarrow> gateway_repo \<Rightarrow> sticky_store \<Rightarrow> gateway_repo \<times> sticky_store" where
  "sticky_flush env repo st = (let (rows, st') = flush_rows st in
     (if rows \<noteq> [] \<and> se_repository env \<and> \<not> se_writeFails env then save_sticky_bindings rows repo else repo, st'))"

subsection \<open>Properties\<close>

definition caches_ok :: "sticky_store \<Rightarrow> bool" where
  "caches_ok st = (bounded_ok MEMORY_LIMIT (ss_memory st) \<and> bounded_ok MEMORY_LIMIT (ss_misses st))"

lemma caches_ok_new [simp]: "caches_ok new_sticky_store"
  by (simp add: caches_ok_def new_sticky_store_def bounded_ok_def)

lemma caches_ok_set: "caches_ok st \<Longrightarrow> caches_ok (sticky_set env k a now st)"
  by (simp add: caches_ok_def sticky_set_def Let_def cache.inv_put)

lemma caches_ok_get: "caches_ok st \<Longrightarrow> caches_ok (fst (sticky_get env repo k now st))"
  by (auto simp: caches_ok_def sticky_gets Let_def cache.inv_put split: option.splits)

definition sticky_sets :: "sticky_env \<Rightarrow> (string \<times> string \<times> num) list \<Rightarrow> sticky_store \<Rightarrow> sticky_store" where
  "sticky_sets env ops st = fold (\<lambda>(k, a, t). sticky_set env k a t) ops st"

lemma sticky_sets_memory:
  "ss_memory (sticky_sets env ops st) =
     cache.stores (map (\<lambda>(k, a, t). (k, \<lparr>mb_accountId = a, mb_expiresAt = t + se_ttlMs env\<rparr>)) ops) (ss_memory st)"
  by (induction ops arbitrary: st) (auto simp: sticky_sets_def cache.stores_def sticky_set_def Let_def)

text \<open>
  A store without a repository answers with the last binding. Whatever bindings a memory-only store was given, and however many it had to forget, a lookup answers with nothing or with
  the account most recently bound to that very key, whose binding is not yet over; the newest binding
  itself is always found until it ends.
\<close>

theorem sticky_answers_last_binding:
  assumes "\<not> se_repository env"
  shows "(snd (sticky_get env repo k now (sticky_sets env ops new_sticky_store)) = Some a \<longrightarrow>
      (\<exists>t. map_of (rev (map (\<lambda>(k, a, t). (k, a, t)) ops)) k = Some (a, t) \<and> now < t + se_ttlMs env)) \<and>
    (now < t' + se_ttlMs env \<longrightarrow>
      snd (sticky_get env repo k now (sticky_set env k b t' (sticky_sets env ops new_sticky_store))) = Some b)"
proof (intro conjI impI)
  let ?st = "sticky_sets env ops new_sticky_store"
  let ?f = "\<lambda>(k :: string, a, t). (k, \<lparr>mb_accountId = a, mb_expiresAt = t + se_ttlMs env\<rparr>)"
  have ok: "bounded_ok MEMORY_LIMIT (ss_memory new_sticky_store)" by (simp add: new_sticky_store_def bounded_ok_def)
  have map_of_f: "map_of (map ?f xs) k = map_option (\<lambda>(a, t). \<lparr>mb_accountId = a, mb_expiresAt = t + se_ttlMs env\<rparr>) (map_of xs k)" for xs
    by (induction xs) (auto split: prod.splits)
  {
    assume "snd (sticky_get env repo k now ?st) = Some a"
    then obtain cached where c: "bounded_get k (ss_memory ?st) = Some cached" "now < mb_expiresAt cached" "a = mb_accountId cached"
      using assms by (auto simp: sticky_gets Let_def split: option.splits if_splits)
    from cache.stores_get[OF ok c(1)[unfolded sticky_sets_memory]]
    have "map_of (rev (map ?f ops)) k = Some cached"
      by (simp add: new_sticky_store_def bounded_get_def)
    then have "map_option (\<lambda>(a, t). \<lparr>mb_accountId = a, mb_expiresAt = t + se_ttlMs env\<rparr>) (map_of (rev ops) k) = Some cached"
      unfolding rev_map map_of_f .
    then show "\<exists>t. map_of (rev (map (\<lambda>(k, a, t). (k, a, t)) ops)) k = Some (a, t) \<and> now < t + se_ttlMs env"
      using c(2,3) by auto
  }
  have "caches_ok st \<Longrightarrow> caches_ok (sticky_sets env xs st)" for xs st
    by (induction xs arbitrary: st) (auto simp: sticky_sets_def caches_ok_set)
  then have "bounded_ok MEMORY_LIMIT (ss_memory ?st)" using caches_ok_new by (simp only: caches_ok_def)
  from cache.get_put_same[OF this, of k "\<lparr>mb_accountId = b, mb_expiresAt = t' + se_ttlMs env\<rparr>"]
  show "snd (sticky_get env repo k now (sticky_set env k b t' ?st)) = Some b" if "now < t' + se_ttlMs env"
    using that by (simp add: sticky_gets sticky_set_def Let_def assms)
qed

definition demo_sticky_env :: "bool \<Rightarrow> sticky_env" where
  "demo_sticky_env storage = \<lparr>se_repository = storage, se_readFails = False, se_writeFails = False, se_provider = ''CODEX'',
     se_kind = ''THREAD'', se_ttlMs = 1000\<rparr>"

theorem sticky_answers_last_binding_witness:
  "snd (sticky_get (demo_sticky_env False) \<lparr>rp_accounts = [], rp_sticky = []\<rparr> ''k'' 5
     (sticky_set (demo_sticky_env False) ''k'' ''b'' 0 (sticky_sets (demo_sticky_env False) [] new_sticky_store))) = Some ''b''"
  using sticky_answers_last_binding[of "demo_sticky_env False" "\<lparr>rp_accounts = [], rp_sticky = []\<rparr>" "''k''" 5 "[]" "''a''" 0 "''b''"]
  by (simp add: demo_sticky_env_def)

lemma save_one_binding:
  "list_ex (\<lambda>a. ac_id a = sb_accountId row) (rp_accounts repo) \<Longrightarrow>
   map_of (rp_sticky (save_sticky_bindings [row] repo)) (sb_keyHash row) = Some row"
  by (simp add: save_sticky_bindings_def)

lemma save_bindings_accounts: "rp_accounts (save_sticky_bindings rows repo) = rp_accounts repo"
proof -
  have "rp_accounts (fold (\<lambda>row r. if list_ex (\<lambda>a. ac_id a = sb_accountId row) (rp_accounts r)
     then r\<lparr>rp_sticky := map_set (sb_keyHash row) row (rp_sticky r)\<rparr> else r) rows repo) = rp_accounts repo"
    by (induction rows arbitrary: repo) auto
  then show ?thesis by (simp add: save_sticky_bindings_def)
qed

lemma save_bindings_lookup:
  assumes "distinct (map sb_keyHash rows)" "row \<in> set rows"
    and "list_ex (\<lambda>a. ac_id a = sb_accountId row) (rp_accounts repo)"
  shows "map_of (rp_sticky (save_sticky_bindings rows repo)) (sb_keyHash row) = Some row"
  using assms
proof (induction rows arbitrary: repo rule: rev_induct)
  case (snoc r rows)
  let ?repo = "save_sticky_bindings rows repo"
  have step: "save_sticky_bindings (rows @ [r]) repo = save_sticky_bindings [r] ?repo"
    by (simp add: save_sticky_bindings_def)
  show ?case
  proof (cases "row = r")
    case True
    then show ?thesis using snoc.prems(3) by (simp add: step save_one_binding save_bindings_accounts)
  next
    case False
    with snoc.prems have mem: "row \<in> set rows" and "sb_keyHash r \<notin> sb_keyHash ` set rows" by auto
    then have "sb_keyHash row \<noteq> sb_keyHash r" by (metis image_eqI)
    note mem this
    then show ?thesis using snoc.IH[of repo] snoc.prems by (simp add: step) (simp add: save_sticky_bindings_def)
  qed
qed simp

definition pending_ok :: "sticky_store \<Rightarrow> bool" where
  "pending_ok st = (distinct (map fst (ss_pending st)) \<and> (\<forall>p \<in> set (ss_pending st). sb_keyHash (snd p) = fst p))"

lemma pending_ok_set: "pending_ok st \<Longrightarrow> pending_ok (sticky_set env k a now st)"
  by (auto simp: pending_ok_def sticky_set_def Let_def map_set_def distinct_set[unfolded map_set_def] split: if_splits)

text \<open>
  Affinity survives a restart. A binding made at time \<open>t\<close> and flushed is what a new process finds in
  storage, as long as its account still exists: until the binding's lifetime ends (to the millisecond),
  a fresh store with an empty memory answers with the same account.
\<close>

theorem sticky_survives_restart:
  assumes "pending_ok st" "se_repository env" "\<not> se_writeFails env" "\<not> se_readFails env"
    and "list_ex (\<lambda>a. ac_id a = accountId) (rp_accounts repo)"
    and "sticky_flush env repo (sticky_set env k accountId t st) = (repo', st')"
    and "0 \<le> now" "now < js_trunc (t + se_ttlMs env)"
  shows "ss_pending st' = [] \<and> snd (sticky_get env repo' k now new_sticky_store) = Some accountId"
proof -
  let ?st = "sticky_set env k accountId t st"
  define row where "row = \<lparr>sb_keyHash = k, sb_kind = se_kind env, sb_provider = se_provider env,
    sb_accountId = accountId, sb_expiresAt = Some (js_trunc (t + se_ttlMs env))\<rparr>"
  have pend: "ss_pending ?st = map_set k row (ss_pending st)"
    using assms(2) by (simp add: sticky_set_def Let_def row_def)
  have in_pend: "(k, row) \<in> set (ss_pending ?st)"
    unfolding pend by (rule map_of_SomeD) simp
  then have ne: "ss_pending ?st \<noteq> []" by auto
  have "pending_ok ?st" using assms(1) by (rule pending_ok_set)
  moreover from this have "map sb_keyHash (map snd (ss_pending ?st)) = map fst (ss_pending ?st)"
    by (auto simp: pending_ok_def)
  ultimately have "distinct (map sb_keyHash (map snd (ss_pending ?st)))" by (simp only: pending_ok_def)
  moreover have "row \<in> set (map snd (ss_pending ?st))" using in_pend by force
  moreover have repo': "repo' = save_sticky_bindings (map snd (ss_pending ?st)) repo" "ss_pending st' = []"
    using assms(2,3,6) ne by (auto simp: sticky_flush_def flush_rows_def)
  ultimately have "map_of (rp_sticky repo') (sb_keyHash row) = Some row"
    using save_bindings_lookup[of "map snd (ss_pending ?st)" row repo] assms(5) by (simp add: row_def)
  moreover have "js_trunc now < js_trunc (t + se_ttlMs env)"
    using js_trunc_le[OF assms(7)] assms(8) by linarith
  ultimately have "find_sticky_binding k (js_trunc now) repo' = Some row"
    by (simp add: find_sticky_binding_def row_def)
  with repo'(2) assms(2,4) show ?thesis
    by (simp add: sticky_gets Let_def new_sticky_store_def bounded_get_def recent_miss_def row_def)
qed

theorem sticky_survives_restart_witness:
  "\<exists>repo' st'. sticky_flush (demo_sticky_env True) demo_repo (sticky_set (demo_sticky_env True) ''k'' ''a'' 0 new_sticky_store)
     = (repo', st') \<and> snd (sticky_get (demo_sticky_env True) repo' ''k'' 5 new_sticky_store) = Some ''a''"
proof -
  obtain repo' st' where f: "sticky_flush (demo_sticky_env True) demo_repo
      (sticky_set (demo_sticky_env True) ''k'' ''a'' 0 new_sticky_store) = (repo', st')" by fastforce
  have "snd (sticky_get (demo_sticky_env True) repo' ''k'' 5 new_sticky_store) = Some ''a''"
    using sticky_survives_restart[OF _ _ _ _ _ f, of 5]
    by (simp add: pending_ok_def new_sticky_store_def demo_sticky_env_def demo_repo_def demo_account_simps js_trunc_def js_floor_def)
  with f show ?thesis by blast
qed

subsection \<open>Lookups, bindings and storage interleaved\<close>

text \<open>
  The store in its process: lookups that wait for the storage (with what it found, once it answered) and rows on
  their way to it. Two histories are kept beside it: every binding made, here or by another process, with the
  time it ends, and every lookup that was answered with an account, with the time it began.
\<close>

record sticky_world =
  wd_store :: sticky_store
  wd_repo :: gateway_repo
  wd_reads :: "(string \<times> num \<times> sticky_binding option option) list"
  wd_writes :: "sticky_binding list list"
  wd_bound :: "(string \<times> string \<times> num option) set"
  wd_answers :: "(string \<times> num \<times> string) list"

definition new_sticky_world :: sticky_world where
  "new_sticky_world = \<lparr>wd_store = new_sticky_store, wd_repo = \<lparr>rp_accounts = [], rp_sticky = []\<rparr>, wd_reads = [], wd_writes = [],
     wd_bound = {}, wd_answers = []\<rparr>"

definition answered :: "string \<Rightarrow> num \<Rightarrow> string option \<Rightarrow> sticky_world \<Rightarrow> sticky_world" where
  "answered k now answer w = (case answer of None \<Rightarrow> w | Some a \<Rightarrow> w\<lparr>wd_answers := (k, now, a) # wd_answers w\<rparr>)"

text \<open>What another process may leave in the repository: rows of bindings made for their key, in whole milliseconds.\<close>

definition rows_bound :: "gateway_repo \<Rightarrow> (string \<times> string \<times> num option) set" where
  "rows_bound repo = {(k, sb_accountId row, sb_expiresAt row) | k row. (k, row) \<in> set (rp_sticky repo)}"

definition whole_times :: "gateway_repo \<Rightarrow> bool" where
  "whole_times repo = (\<forall>(k, row) \<in> set (rp_sticky repo). map_option js_trunc (sb_expiresAt row) = sb_expiresAt row)"

inductive sticky_step :: "sticky_env \<Rightarrow> sticky_world \<Rightarrow> sticky_world \<Rightarrow> bool" for env where
  binds: "sticky_step env w (w\<lparr>wd_store := sticky_set env k a now (wd_store w),
    wd_bound := insert (k, a, Some (now + se_ttlMs env)) (wd_bound w)\<rparr>)"
| knows: "0 \<le> now \<Longrightarrow> sticky_lookup env k now (wd_store w) = Some answer \<Longrightarrow> sticky_step env w (answered k now answer w)"
| asks: "0 \<le> now \<Longrightarrow> sticky_lookup env k now (wd_store w) = None \<Longrightarrow>
    sticky_step env w (w\<lparr>wd_reads := (k, now, None) # wd_reads w\<rparr>)"
| finds: "(k, now, None) \<in> set (wd_reads w) \<Longrightarrow> found \<in> {None, find_sticky_binding k (js_trunc now) (wd_repo w)} \<Longrightarrow>
    sticky_step env w (w\<lparr>wd_reads := (k, now, Some found) # remove1 (k, now, None) (wd_reads w)\<rparr>)"
| resumes: "(k, now, Some found) \<in> set (wd_reads w) \<Longrightarrow> sticky_resume env k now found (wd_store w) = (st, answer) \<Longrightarrow>
    sticky_step env w (answered k now answer (w\<lparr>wd_store := st, wd_reads := remove1 (k, now, Some found) (wd_reads w)\<rparr>))"
| flushes: "flush_rows (wd_store w) = (rows, st) \<Longrightarrow> sticky_step env w (w\<lparr>wd_store := st, wd_writes := rows # wd_writes w\<rparr>)"
| writes: "rows \<in> set (wd_writes w) \<Longrightarrow> repo \<in> {wd_repo w, save_sticky_bindings rows (wd_repo w)} \<Longrightarrow>
    sticky_step env w (w\<lparr>wd_repo := repo, wd_writes := remove1 rows (wd_writes w)\<rparr>)"
| others: "whole_times repo \<Longrightarrow> sticky_step env w (w\<lparr>wd_repo := repo, wd_bound := wd_bound w \<union> rows_bound repo\<rparr>)"

abbreviation sticky_reachable :: "sticky_env \<Rightarrow> sticky_world \<Rightarrow> bool" where
  "sticky_reachable env w \<equiv> (sticky_step env)\<^sup>*\<^sup>* new_sticky_world w"

text \<open>An entry of the memory, or a row, that stems from a binding of its key; a row's time is cut to milliseconds.\<close>

definition memory_of :: "(string \<times> string \<times> num option) set \<Rightarrow> string \<Rightarrow> memory_binding \<Rightarrow> bool" where
  "memory_of B k m = (\<exists>e. (k, mb_accountId m, e) \<in> B \<and> (\<forall>t. e = Some t \<longrightarrow> mb_expiresAt m \<le> t))"

definition row_of :: "(string \<times> string \<times> num option) set \<Rightarrow> string \<Rightarrow> sticky_binding \<Rightarrow> bool" where
  "row_of B k row = (\<exists>e. (k, sb_accountId row, e) \<in> B \<and> sb_expiresAt row = map_option js_trunc e)"

definition answer_of :: "(string \<times> string \<times> num option) set \<Rightarrow> string \<Rightarrow> num \<Rightarrow> string \<Rightarrow> bool" where
  "answer_of B k now a = (\<exists>e. (k, a, e) \<in> B \<and> (\<forall>t. e = Some t \<longrightarrow> now < t))"

definition read_of :: "(string \<times> string \<times> num option) set \<Rightarrow> string \<times> num \<times> sticky_binding option option \<Rightarrow> bool" where
  "read_of B = (\<lambda>(k, now, result). 0 \<le> now \<and> (\<forall>row. result = Some (Some row) \<longrightarrow>
     row_of B k row \<and> (\<forall>t. sb_expiresAt row = Some t \<longrightarrow> js_trunc now < t)))"

definition sticky_world_ok :: "sticky_world \<Rightarrow> bool" where
  "sticky_world_ok w = (let B = wd_bound w; st = wd_store w in
     (\<forall>(k, m) \<in> set (ss_memory st). memory_of B k m) \<and>
     (\<forall>(k, row) \<in> set (ss_pending st). row_of B (sb_keyHash row) row) \<and>
     (\<forall>(k, row) \<in> set (rp_sticky (wd_repo w)). row_of B k row) \<and>
     (\<forall>rows \<in> set (wd_writes w). \<forall>row \<in> set rows. row_of B (sb_keyHash row) row) \<and>
     (\<forall>r \<in> set (wd_reads w). read_of B r) \<and> (\<forall>(k, now, a) \<in> set (wd_answers w). answer_of B k now a))"

lemma of_mono: "B \<subseteq> C \<Longrightarrow> memory_of B k m \<Longrightarrow> memory_of C k m" "B \<subseteq> C \<Longrightarrow> row_of B k row \<Longrightarrow> row_of C k row"
  "B \<subseteq> C \<Longrightarrow> answer_of B k now a \<Longrightarrow> answer_of C k now a" "B \<subseteq> C \<Longrightarrow> read_of B r \<Longrightarrow> read_of C r"
  unfolding memory_of_def row_of_def answer_of_def read_of_def by blast+

lemma sticky_world_ok_more:
  assumes "sticky_world_ok w" "wd_bound w \<subseteq> B"
  shows "sticky_world_ok (w\<lparr>wd_bound := B\<rparr>)"
  using assms(1) of_mono[OF assms(2)] by (auto simp: sticky_world_ok_def Let_def)

lemma ball_insert_sub: "S' \<subseteq> insert p S \<Longrightarrow> P p \<Longrightarrow> \<forall>x \<in> S. P x \<Longrightarrow> \<forall>x \<in> S'. P x"
  by blast

lemma map_set_sub: "set (map_set k v m) \<subseteq> insert (k, v) (set m)"
  by (auto simp: map_set_def)

lemma bounded_set_sub: "set (bounded_set limit k v m) \<subseteq> insert (k, v) (set m)"
proof -
  have "set (map_set k v (map_delete k m)) \<subseteq> insert (k, v) (set m)" using map_set_sub[of k v "map_delete k m"] by (auto simp: map_delete_def)
  then show ?thesis by (auto simp: bounded_set_def Let_def map_delete_def)
qed

lemma saved_rows:
  "(k, row) \<in> set (rp_sticky (save_sticky_bindings rows repo)) \<Longrightarrow>
   (k, row) \<in> set (rp_sticky repo) \<or> (row \<in> set rows \<and> k = sb_keyHash row)"
proof (induction rows arbitrary: repo)
  case (Cons r rows)
  let ?repo = "if list_ex (\<lambda>a. ac_id a = sb_accountId r) (rp_accounts repo)
    then repo\<lparr>rp_sticky := map_set (sb_keyHash r) r (rp_sticky repo)\<rparr> else repo"
  have "save_sticky_bindings (r # rows) repo = save_sticky_bindings rows ?repo" by (simp add: save_sticky_bindings_def)
  then have "(k, row) \<in> set (rp_sticky ?repo) \<or> (row \<in> set rows \<and> k = sb_keyHash row)" using Cons.IH[of ?repo] Cons.prems by simp
  then show ?case using map_set_sub[of "sb_keyHash r" r "rp_sticky repo"] by (auto split: if_splits)
qed (simp add: save_sticky_bindings_def)

text \<open>A row found is one of the repository, and not over.\<close>

lemma found_row: "find_sticky_binding k now repo = Some row \<Longrightarrow>
    (k, row) \<in> set (rp_sticky repo) \<and> (\<forall>t. sb_expiresAt row = Some t \<longrightarrow> now < t)"
  by (auto simp: find_sticky_binding_def dest: map_of_SomeD split: option.splits if_splits)

lemma trunc_less: "0 \<le> now \<Longrightarrow> js_trunc now < js_trunc t \<Longrightarrow> now < t \<and> js_trunc t \<le> t"
proof -
  assume now: "0 \<le> now" and less: "js_trunc now < js_trunc t"
  then have "0 < js_trunc t" using js_trunc_nonneg[OF now] by linarith
  then have t: "0 \<le> t" by (auto simp: js_trunc_def js_ceil_def split: if_splits) 
  have "now < t" using now t less by (simp add: js_trunc_def js_floor_def) linarith
  then show ?thesis using js_trunc_le[OF t] by simp
qed

lemma read_row:
  assumes "read_of B (k, now, Some (Some row))"
  shows "answer_of B k now (sb_accountId row)"
    "memory_of B k \<lparr>mb_accountId = sb_accountId row, mb_expiresAt = dflt (sb_expiresAt row) x\<rparr>"
proof -
  from assms obtain e where e: "(k, sb_accountId row, e) \<in> B" "sb_expiresAt row = map_option js_trunc e" "0 \<le> now"
    "\<forall>t. e = Some t \<longrightarrow> js_trunc now < js_trunc t"
    by (auto simp: read_of_def row_of_def)
  then have "\<forall>t. e = Some t \<longrightarrow> now < t \<and> js_trunc t \<le> t" using trunc_less by blast
  with e show "answer_of B k now (sb_accountId row)"
    "memory_of B k \<lparr>mb_accountId = sb_accountId row, mb_expiresAt = dflt (sb_expiresAt row) x\<rparr>"
    by (auto simp: answer_of_def memory_of_def intro!: exI[of _ e])
qed

lemma known_answer:
  assumes "sticky_world_ok w" "sticky_lookup env k now (wd_store w) = Some (Some a)"
  shows "answer_of (wd_bound w) k now a"
proof -
  from assms(2) obtain m where m: "bounded_get k (ss_memory (wd_store w)) = Some m" "now < mb_expiresAt m" "a = mb_accountId m"
    by (auto simp: sticky_lookup_def Let_def split: option.splits if_splits)
  then have "(k, m) \<in> set (ss_memory (wd_store w))" by (simp add: bounded_get_def map_of_SomeD)
  then have "memory_of (wd_bound w) k m" using assms(1) by (auto simp: sticky_world_ok_def Let_def)
  then show ?thesis using m by (force simp: memory_of_def answer_of_def)
qed

lemma answered_ok: "sticky_world_ok w \<Longrightarrow> (\<And>a. answer = Some a \<Longrightarrow> answer_of (wd_bound w) k now a) \<Longrightarrow> sticky_world_ok (answered k now answer w)"
  by (auto simp: answered_def sticky_world_ok_def Let_def split: option.splits)

lemma sticky_step_ok: "sticky_step env w w' \<Longrightarrow> sticky_world_ok w \<Longrightarrow> sticky_world_ok w'"
proof (induction rule: sticky_step.induct)
  case (binds w k a now)
  let ?e = "now + se_ttlMs env"
  let ?B = "insert (k, a, Some ?e) (wd_bound w)" and ?w = "w\<lparr>wd_bound := insert (k, a, Some ?e) (wd_bound w)\<rparr>"
  have ok: "sticky_world_ok ?w" by (rule sticky_world_ok_more[OF binds]) blast
  have mem: "memory_of ?B k \<lparr>mb_accountId = a, mb_expiresAt = ?e\<rparr>" by (auto simp: memory_of_def)
  let ?row = "\<lparr>sb_keyHash = k, sb_kind = se_kind env, sb_provider = se_provider env, sb_accountId = a,
    sb_expiresAt = Some (js_trunc ?e)\<rparr>"
  have row: "row_of ?B k ?row" by (auto simp: row_of_def intro!: exI[of _ "Some ?e"])
  let ?st = "sticky_set env k a now (wd_store w)"
  have "set (ss_memory ?st) \<subseteq> insert (k, \<lparr>mb_accountId = a, mb_expiresAt = ?e\<rparr>) (set (ss_memory (wd_store w)))"
    using bounded_set_sub[of MEMORY_LIMIT k "\<lparr>mb_accountId = a, mb_expiresAt = ?e\<rparr>"] by (simp add: sticky_set_def Let_def)
  then have "\<forall>(k, m) \<in> set (ss_memory ?st). memory_of ?B k m"
    by (rule ball_insert_sub) (use ok mem in \<open>simp_all add: sticky_world_ok_def Let_def\<close>)
  moreover have "set (ss_pending ?st) \<subseteq> insert (k, ?row) (set (ss_pending (wd_store w)))"
    using map_set_sub[of k ?row "ss_pending (wd_store w)"] by (simp add: sticky_set_def Let_def subset_insertI)
  then have "\<forall>(k, row) \<in> set (ss_pending ?st). row_of ?B (sb_keyHash row) row"
    by (rule ball_insert_sub) (use ok row in \<open>simp_all add: sticky_world_ok_def Let_def\<close>)
  ultimately show ?case using ok by (simp add: sticky_world_ok_def Let_def)
next
  case (knows now k w answer)
  show ?case by (rule answered_ok[OF knows(3)]) (use known_answer knows in simp)
next
  case (asks now k w)
  then show ?case by (simp add: sticky_world_ok_def Let_def read_of_def)
next
  case (finds k now w found)
  have "read_of (wd_bound w) (k, now, Some found)"
    using finds found_row[of k "js_trunc now" "wd_repo w"] unfolding sticky_world_ok_def Let_def read_of_def by fastforce
  moreover have "set (remove1 (k, now, None) (wd_reads w)) \<subseteq> set (wd_reads w)" by (rule set_remove1_subset)
  ultimately show ?case using finds(3) by (auto simp: sticky_world_ok_def Let_def)
next
  case (resumes k now found w st answer)
  have read: "read_of (wd_bound w) (k, now, Some found)" using resumes(1,3) by (auto simp: sticky_world_ok_def Let_def)
  let ?w = "w\<lparr>wd_store := st, wd_reads := remove1 (k, now, Some found) (wd_reads w)\<rparr>"
  have reads: "\<forall>r \<in> set (remove1 (k, now, Some found) (wd_reads w)). read_of (wd_bound w) r"
    using resumes(3) set_remove1_subset[of "(k, now, Some found)" "wd_reads w"] by (auto simp: sticky_world_ok_def Let_def)
  show ?case
  proof (cases found)
    case None
    then have "st = (wd_store w)\<lparr>ss_misses := bounded_set MEMORY_LIMIT k (MissedAt now) (ss_misses (wd_store w))\<rparr>" "answer = None"
      using resumes(2) by (simp_all add: sticky_resume_def)
    then show ?thesis using resumes(3) reads by (simp add: answered_def sticky_world_ok_def Let_def)
  next
    case (Some row)
    let ?m = "\<lparr>mb_accountId = sb_accountId row, mb_expiresAt = dflt (sb_expiresAt row) (now + se_ttlMs env)\<rparr>"
    have st: "st = (wd_store w)\<lparr>ss_memory := bounded_set MEMORY_LIMIT k ?m (ss_memory (wd_store w))\<rparr>" "answer = Some (sb_accountId row)"
      using resumes(2) Some by (simp_all add: sticky_resume_def)
    note row = read_row[OF read[unfolded Some]]
    have "\<forall>(k, m) \<in> set (ss_memory st). memory_of (wd_bound w) k m"
      using resumes(3) row(2) bounded_set_sub[of MEMORY_LIMIT k ?m "ss_memory (wd_store w)"] by (auto simp: st sticky_world_ok_def Let_def)
    then have "sticky_world_ok ?w" using resumes(3) reads by (simp add: st sticky_world_ok_def Let_def)
    then show ?thesis by (rule answered_ok) (use row(1) st(2) in simp)
  qed
next
  case (flushes w rows st)
  then show ?case by (fastforce simp: flush_rows_def sticky_world_ok_def Let_def)
next
  case (writes rows w repo)
  have "\<forall>(k, row) \<in> set (rp_sticky repo). row_of (wd_bound w) k row"
    using writes saved_rows[of _ _ rows "wd_repo w"] by (fastforce simp: sticky_world_ok_def Let_def)
  moreover have "set (remove1 rows (wd_writes w)) \<subseteq> set (wd_writes w)" by (rule set_remove1_subset)
  ultimately show ?case using writes(3) by (auto simp: sticky_world_ok_def Let_def)
next
  case (others repo w)
  have ok: "sticky_world_ok (w\<lparr>wd_bound := wd_bound w \<union> rows_bound repo\<rparr>)" by (rule sticky_world_ok_more[OF others(2)]) blast
  have "row_of (wd_bound w \<union> rows_bound repo) k row" if "(k, row) \<in> set (rp_sticky repo)" for k row
    using that others(1) unfolding row_of_def rows_bound_def whole_times_def by fastforce
  then show ?case using ok by (auto simp: sticky_world_ok_def Let_def)
qed

lemma sticky_reachable_ok: "sticky_reachable env w \<Longrightarrow> sticky_world_ok w"
proof (induction rule: rtranclp_induct)
  case base
  show ?case by (simp add: sticky_world_ok_def new_sticky_world_def new_sticky_store_def)
qed (rule sticky_step_ok)

text \<open>
  C39. A conversation is never answered with another conversation's account. However lookups, new bindings,
  reads and writes of the storage, failures of both and other processes interleave, every lookup that is
  answered with an account is answered with one that was bound to that very key, here or by another process,
  for a time that was not over when the lookup began. (It need not be the newest one: a lookup that waits for
  the storage while the key is bound anew answers with, and remembers, what the storage had.)
\<close>

theorem sticky_answers_are_bindings:
  assumes "sticky_reachable env w" "(k, now, a) \<in> set (wd_answers w)"
  shows "\<exists>e. (k, a, e) \<in> wd_bound w \<and> (\<forall>t. e = Some t \<longrightarrow> now < t)"
  using sticky_reachable_ok[OF assms(1)] assms(2) by (auto simp: sticky_world_ok_def Let_def answer_of_def)

theorem sticky_answers_are_bindings_witness:
  "\<exists>w. sticky_reachable (demo_sticky_env False) w \<and> wd_answers w = [(''k'', 5, ''b'')] \<and> (\<exists>e. (''k'', ''b'', e) \<in> wd_bound w \<and> (\<forall>t. e = Some t \<longrightarrow> (5 :: num) < t))"
proof -
  let ?env = "demo_sticky_env False"
  let ?w = "new_sticky_world\<lparr>wd_store := sticky_set ?env ''k'' ''b'' 0 (wd_store new_sticky_world),
    wd_bound := insert (''k'', ''b'', Some (0 + se_ttlMs ?env)) (wd_bound new_sticky_world)\<rparr>"
  have set_step: "sticky_reachable ?env ?w" by (rule r_into_rtranclp) (rule binds)
  have "sticky_lookup ?env ''k'' 5 (wd_store ?w) = Some (Some ''b'')"
    by (simp add: new_sticky_world_def new_sticky_store_def demo_sticky_env_def sticky_set_def sticky_lookup_def bounded_set_def
        bounded_get_def map_set_def map_delete_def Let_def)
  then have "sticky_step ?env ?w (answered ''k'' 5 (Some ''b'') ?w)" by (intro knows) simp_all
  with set_step have reach: "sticky_reachable ?env (answered ''k'' 5 (Some ''b'') ?w)" by (rule rtranclp.rtrancl_into_rtrancl)
  have answers: "wd_answers (answered ''k'' 5 (Some ''b'') ?w) = [(''k'', 5, ''b'')]" by (simp add: answered_def new_sticky_world_def)
  have "\<exists>e. (''k'', ''b'', e) \<in> wd_bound (answered ''k'' 5 (Some ''b'') ?w) \<and> (\<forall>t. e = Some t \<longrightarrow> 5 < t)"
    by (rule sticky_answers_are_bindings[OF reach]) (simp add: answered_def new_sticky_world_def)
  with answers reach show ?thesis by blast
qed

text \<open>
  A key is bound to one account, and to another one while a lookup waits for the storage: from then on the memory
  answers with the first.
\<close>

lemma newer_binding_forgotten:
  "\<exists>w. sticky_reachable (demo_sticky_env True) w \<and> (''k'', ''b'', Some 1001) \<in> wd_bound w \<and>
    sticky_lookup (demo_sticky_env True) ''k'' 2 (wd_store w) = Some (Some ''a'')"
proof -
  let ?env = "demo_sticky_env True"
  define row where "row = \<lparr>sb_keyHash = ''k'', sb_kind = ''THREAD'', sb_provider = ''CODEX'', sb_accountId = ''a'', sb_expiresAt = None\<rparr>"
  define repo where "repo = \<lparr>rp_accounts = [], rp_sticky = [(''k'', row)]\<rparr>"
  define w1 where "w1 = new_sticky_world\<lparr>wd_repo := repo, wd_bound := wd_bound new_sticky_world \<union> rows_bound repo\<rparr>"
  define w2 where "w2 = w1\<lparr>wd_reads := (''k'', 0, None) # wd_reads w1\<rparr>"
  define w3 where "w3 = w2\<lparr>wd_reads := (''k'', 0, Some (Some row)) # remove1 (''k'', 0, None) (wd_reads w2)\<rparr>"
  define w4 where "w4 = w3\<lparr>wd_store := sticky_set ?env ''k'' ''b'' 1 (wd_store w3),
    wd_bound := insert (''k'', ''b'', Some (1 + se_ttlMs ?env)) (wd_bound w3)\<rparr>"
  define st where "st = fst (sticky_resume ?env ''k'' 0 (Some row) (wd_store w4))"
  define w5 where "w5 = answered ''k'' 0 (Some ''a'') (w4\<lparr>wd_store := st,
    wd_reads := remove1 (''k'', 0, Some (Some row)) (wd_reads w4)\<rparr>)"
  have store: "wd_store w3 = new_sticky_store" "wd_reads w1 = []" "wd_repo w2 = repo" "wd_store w1 = new_sticky_store"
    "wd_reads w4 = [(''k'', 0, Some (Some row))]"
    by (simp_all add: w4_def w3_def w2_def w1_def new_sticky_world_def)
  have "sticky_step ?env new_sticky_world w1" unfolding w1_def by (rule others) (simp add: whole_times_def repo_def row_def)
  moreover have "sticky_step ?env w1 w2" unfolding w2_def
    by (rule asks) (simp_all add: store sticky_lookup_def new_sticky_store_def bounded_get_def recent_miss_def demo_sticky_env_def)
  moreover have "sticky_step ?env w2 w3" unfolding w3_def
    by (rule finds) (simp_all add: w2_def[symmetric] store repo_def find_sticky_binding_def row_def, simp add: w2_def)
  moreover have "sticky_step ?env w3 w4" unfolding w4_def by (rule binds)
  moreover have "sticky_resume ?env ''k'' 0 (Some row) (wd_store w4) = (st, Some ''a'')"
    by (simp add: st_def sticky_resume_def row_def)
  then have "sticky_step ?env w4 w5" unfolding w5_def by (rule resumes[rotated]) (simp add: store)
  ultimately have "sticky_reachable ?env w5" by (meson rtranclp.rtrancl_into_rtrancl rtranclp.rtrancl_refl)
  moreover have "wd_store w5 = st" "(''k'', ''b'', Some 1001) \<in> wd_bound w5"
    by (simp_all add: w5_def answered_def w4_def demo_sticky_env_def)
  moreover have "sticky_lookup ?env ''k'' 2 st = Some (Some ''a'')"
    by (simp add: st_def w4_def store sticky_resume_def sticky_lookup_def sticky_set_def new_sticky_store_def bounded_set_def bounded_get_def
        map_set_def map_delete_def Let_def row_def demo_sticky_env_def)
  ultimately show ?thesis by auto
qed

end
