(* ===== verification/Supervisor.thy ===== *)
theory Supervisor
  imports Prelude
begin

text \<open>
  The gateway's supervisor (\<open>packages/gateway/src/supervisor.ts\<close>): it holds the listening socket, runs the
  gateway as a cluster worker and hands over to a new one on \<open>SIGHUP\<close>. The state has the variables of
  \<open>startSupervisor\<close> and what \<open>node:cluster\<close> and the timers keep for it: the workers alive, which of them
  listen, the start timers armed (one per reload), the restart timers running, the drain messages sent
  and the workers killed. Each handler is a definition; \<open>sendOk\<close> says whether a message to a worker can
  be delivered. \<open>sup_step\<close> is the event loop, one handler per step, until the process exits.
\<close>

datatype drain_reason = Reload | StopReason

record supervisor =
  sv_current :: "nat option"
  sv_pending :: "nat option"
  sv_stopping :: bool
  sv_draining :: "nat set"
  sv_alive :: "nat set"
  sv_listening :: "nat set"
  sv_startTimers :: "nat set"
  sv_restartTimers :: nat
  sv_sent :: "(nat \<times> drain_reason) list"
  sv_killed :: "nat set"
  sv_nextWorker :: nat
  sv_exited :: bool

datatype sup_event = Sighup | WorkerListening nat | StartTimeout nat | WorkerExit nat | RestartDue | StopSignal

definition fork :: "supervisor \<Rightarrow> supervisor \<times> nat" where
  "fork s = (let w = sv_nextWorker s in (s\<lparr>sv_alive := insert w (sv_alive s), sv_nextWorker := Suc w\<rparr>, w))"

definition drain :: "(nat \<Rightarrow> bool) \<Rightarrow> drain_reason \<Rightarrow> nat \<Rightarrow> supervisor \<Rightarrow> supervisor" where
  "drain sendOk reason w s = (let s1 = s\<lparr>sv_draining := insert w (sv_draining s)\<rparr> in
     if sendOk w then s1\<lparr>sv_sent := sv_sent s1 @ [(w, reason)]\<rparr> else s1\<lparr>sv_killed := insert w (sv_killed s1)\<rparr>)"

definition launch_current :: "supervisor \<Rightarrow> supervisor" where
  "launch_current s = (let (s1, w) = fork s in s1\<lparr>sv_current := Some w\<rparr>)"

definition all_gone :: "supervisor \<Rightarrow> bool" where
  "all_gone s = (sv_current s = None \<and> sv_pending s = None \<and> sv_draining s = {})"

definition exit_if_gone :: "supervisor \<Rightarrow> supervisor" where
  "exit_if_gone s = (if sv_stopping s \<and> all_gone s then s\<lparr>sv_exited := True\<rparr> else s)"

text \<open>The listener of a worker's \<open>exit\<close>; the worker is gone when it runs.\<close>

definition on_exit :: "nat \<Rightarrow> supervisor \<Rightarrow> supervisor" where
  "on_exit w s0 =
     (let s = s0\<lparr>sv_alive := sv_alive s0 - {w}, sv_listening := sv_listening s0 - {w}, sv_draining := sv_draining s0 - {w}\<rparr>;
          s1 = (if sv_pending s = Some w then s\<lparr>sv_pending := None\<rparr>
            else if sv_current s = Some w
            then (if sv_stopping s then s\<lparr>sv_current := None\<rparr>
              else s\<lparr>sv_current := None, sv_restartTimers := sv_restartTimers s + 1\<rparr>)
            else s)
      in exit_if_gone s1)"

definition on_restart_due :: "supervisor \<Rightarrow> supervisor" where
  "on_restart_due s0 = (let s = s0\<lparr>sv_restartTimers := sv_restartTimers s0 - 1\<rparr> in
     if \<not> sv_stopping s \<and> sv_current s = None then launch_current s else s)"

definition on_sighup :: "supervisor \<Rightarrow> supervisor" where
  "on_sighup s =
     (if sv_stopping s \<or> sv_pending s \<noteq> None then s
      else if sv_current s = None then launch_current s
      else let (s1, nxt) = fork s in s1\<lparr>sv_pending := Some nxt, sv_startTimers := insert nxt (sv_startTimers s1)\<rparr>)"

definition on_start_timeout :: "nat \<Rightarrow> supervisor \<Rightarrow> supervisor" where
  "on_start_timeout nxt s0 = (let s = s0\<lparr>sv_startTimers := sv_startTimers s0 - {nxt}\<rparr> in
     if sv_pending s \<noteq> Some nxt then s
     else s\<lparr>sv_pending := None, sv_killed := insert nxt (sv_killed s)\<rparr>)"

text \<open>A worker starts to listen; only workers a reload launched have a listener for it.\<close>

definition on_listening :: "(nat \<Rightarrow> bool) \<Rightarrow> nat \<Rightarrow> supervisor \<Rightarrow> supervisor" where
  "on_listening sendOk nxt s0 =
     (let s = s0\<lparr>sv_listening := insert nxt (sv_listening s0), sv_startTimers := sv_startTimers s0 - {nxt}\<rparr> in
      if sv_pending s \<noteq> Some nxt then s
      else let s1 = s\<lparr>sv_pending := None, sv_current := Some nxt\<rparr>
        in case sv_current s of None \<Rightarrow> s1 | Some previous \<Rightarrow> drain sendOk Reload previous s1)"

definition to_stop :: "supervisor \<Rightarrow> nat list" where
  "to_stop s = (case sv_current s of None \<Rightarrow> [] | Some w \<Rightarrow> [w]) @ (case sv_pending s of None \<Rightarrow> [] | Some w \<Rightarrow> [w])
     @ sorted_list_of_set (sv_draining s)"

definition on_stop :: "(nat \<Rightarrow> bool) \<Rightarrow> supervisor \<Rightarrow> supervisor" where
  "on_stop sendOk s = (if sv_stopping s then s
     else let s1 = fold (drain sendOk StopReason) (to_stop s) (s\<lparr>sv_stopping := True\<rparr>)
       in if all_gone s1 then s1\<lparr>sv_exited := True\<rparr> else s1)"

definition start_supervisor :: supervisor where
  "start_supervisor = launch_current \<lparr>sv_current = None, sv_pending = None, sv_stopping = False, sv_draining = {},
     sv_alive = {}, sv_listening = {}, sv_startTimers = {}, sv_restartTimers = 0, sv_sent = [], sv_killed = {},
     sv_nextWorker = 0, sv_exited = False\<rparr>"

fun handle :: "(nat \<Rightarrow> bool) \<Rightarrow> sup_event \<Rightarrow> supervisor \<Rightarrow> supervisor" where
  "handle sendOk Sighup s = on_sighup s"
| "handle sendOk (WorkerListening w) s = on_listening sendOk w s"
| "handle sendOk (StartTimeout w) s = on_start_timeout w s"
| "handle sendOk (WorkerExit w) s = on_exit w s"
| "handle sendOk RestartDue s = on_restart_due s"
| "handle sendOk StopSignal s = on_stop sendOk s"

text \<open>What can happen: only living workers listen (once) or exit, only armed timers fire.\<close>

fun may_happen :: "sup_event \<Rightarrow> supervisor \<Rightarrow> bool" where
  "may_happen (WorkerListening w) s = (w \<in> sv_alive s \<and> w \<notin> sv_listening s)"
| "may_happen (StartTimeout w) s = (w \<in> sv_startTimers s)"
| "may_happen (WorkerExit w) s = (w \<in> sv_alive s)"
| "may_happen RestartDue s = (0 < sv_restartTimers s)"
| "may_happen _ s = True"

inductive sup_step :: "supervisor \<Rightarrow> sup_event \<Rightarrow> supervisor \<Rightarrow> bool" where
  "\<not> sv_exited s \<Longrightarrow> may_happen e s \<Longrightarrow> sup_step s e (handle sendOk e s)"

inductive_cases sup_stepE: "sup_step s e s'"
inductive_simps sup_step_iff: "sup_step s e s'"

inductive sup_reachable :: "supervisor \<Rightarrow> bool" where
  "sup_reachable start_supervisor"
| "sup_reachable s \<Longrightarrow> sup_step s e s' \<Longrightarrow> sup_reachable s'"

subsection \<open>The invariant\<close>

definition known :: "supervisor \<Rightarrow> nat set" where
  "known s = set_option (sv_current s) \<union> set_option (sv_pending s) \<union> sv_draining s"

definition sup_inv :: "supervisor \<Rightarrow> bool" where
  "sup_inv s \<longleftrightarrow> finite (sv_draining s) \<and> known s \<subseteq> sv_alive s \<and> sv_alive s \<subseteq> known s \<union> sv_killed s
     \<and> (\<forall>w \<in> sv_alive s. w < sv_nextWorker s)
     \<and> (sv_pending s \<noteq> None \<longrightarrow> sv_pending s \<noteq> sv_current s)
     \<and> (\<forall>w. sv_pending s = Some w \<longrightarrow> w \<notin> sv_listening s)
     \<and> (\<not> sv_stopping s \<longrightarrow> set_option (sv_current s) \<inter> sv_draining s = {} \<and> set_option (sv_pending s) \<inter> sv_draining s = {})
     \<and> (sv_stopping s \<longrightarrow> set_option (sv_current s) \<union> set_option (sv_pending s) \<subseteq> sv_draining s)
     \<and> (sv_exited s \<longrightarrow> sv_stopping s \<and> all_gone s)
     \<and> (\<forall>w \<in> sv_listening s. w < sv_nextWorker s)"

lemma drain_simps [simp]:
  "sv_current (drain ok r w s) = sv_current s" "sv_pending (drain ok r w s) = sv_pending s"
  "sv_stopping (drain ok r w s) = sv_stopping s" "sv_draining (drain ok r w s) = insert w (sv_draining s)"
  "sv_alive (drain ok r w s) = sv_alive s" "sv_listening (drain ok r w s) = sv_listening s"
  "sv_nextWorker (drain ok r w s) = sv_nextWorker s" "sv_exited (drain ok r w s) = sv_exited s"
  "sv_startTimers (drain ok r w s) = sv_startTimers s" "sv_restartTimers (drain ok r w s) = sv_restartTimers s"
  by (simp_all add: drain_def Let_def)

lemma drain_killed: "sv_killed s \<subseteq> sv_killed (drain ok r w s)"
  by (auto simp: drain_def Let_def)

lemma fold_drain_simps [simp]:
  "sv_current (fold (drain ok r) ws s) = sv_current s" "sv_pending (fold (drain ok r) ws s) = sv_pending s"
  "sv_stopping (fold (drain ok r) ws s) = sv_stopping s" "sv_draining (fold (drain ok r) ws s) = set ws \<union> sv_draining s"
  "sv_alive (fold (drain ok r) ws s) = sv_alive s" "sv_listening (fold (drain ok r) ws s) = sv_listening s"
  "sv_nextWorker (fold (drain ok r) ws s) = sv_nextWorker s" "sv_exited (fold (drain ok r) ws s) = sv_exited s"
  by (induction ws arbitrary: s) auto

lemma fold_drain_killed: "sv_killed s \<subseteq> sv_killed (fold (drain ok r) ws s)"
proof (induction ws arbitrary: s)
  case (Cons w ws)
  show ?case using drain_killed[of s ok r w] Cons.IH[of "drain ok r w s"] by auto
qed simp

lemma set_to_stop: "finite (sv_draining s) \<Longrightarrow> set (to_stop s) = known s"
  by (auto simp: to_stop_def known_def split: option.splits)

lemma start_inv: "sup_inv start_supervisor"
  by (simp add: start_supervisor_def launch_current_def fork_def Let_def sup_inv_def known_def)

lemma exit_if_gone_inv: "sup_inv s \<Longrightarrow> sup_inv (exit_if_gone s)"
  by (auto simp: exit_if_gone_def sup_inv_def known_def all_gone_def)

lemma launch_current_inv:
  "sup_inv s \<Longrightarrow> \<not> sv_exited s \<Longrightarrow> \<not> sv_stopping s \<Longrightarrow> sv_current s = None \<Longrightarrow> sup_inv (launch_current s)"
  unfolding sup_inv_def known_def launch_current_def fork_def Let_def
  by (intro conjI; auto simp: less_Suc_eq)

lemma on_exit_inv: "sup_inv s \<Longrightarrow> \<not> sv_exited s \<Longrightarrow> sup_inv (on_exit w s)"
  unfolding on_exit_def Let_def
  by (rule exit_if_gone_inv) (auto simp: sup_inv_def known_def)

lemma on_sighup_inv: "sup_inv s \<Longrightarrow> \<not> sv_exited s \<Longrightarrow> sup_inv (on_sighup s)"
proof (cases "sv_stopping s \<or> sv_pending s \<noteq> None \<or> sv_current s = None")
  case True
  then show "sup_inv s \<Longrightarrow> \<not> sv_exited s \<Longrightarrow> ?thesis" by (auto simp: on_sighup_def launch_current_inv)
next
  case False
  then show "sup_inv s \<Longrightarrow> \<not> sv_exited s \<Longrightarrow> ?thesis"
    by (auto simp: on_sighup_def fork_def Let_def sup_inv_def known_def)
qed

lemma on_start_timeout_inv: "sup_inv s \<Longrightarrow> \<not> sv_exited s \<Longrightarrow> sup_inv (on_start_timeout w s)"
  by (auto simp: on_start_timeout_def Let_def sup_inv_def known_def)

lemma on_restart_due_inv: "sup_inv s \<Longrightarrow> \<not> sv_exited s \<Longrightarrow> sup_inv (on_restart_due s)"
proof -
  assume a: "sup_inv s" "\<not> sv_exited s"
  have "sup_inv (s\<lparr>sv_restartTimers := n\<rparr>)" for n using a by (simp add: sup_inv_def known_def all_gone_def)
  then show ?thesis using a by (simp add: on_restart_due_def Let_def launch_current_inv)
qed

lemma on_listening_inv:
  assumes "sup_inv s" "\<not> sv_exited s" "w \<in> sv_alive s" "w \<notin> sv_listening s"
  shows "sup_inv (on_listening ok w s)"
proof (cases "sv_pending s = Some w")
  case False
  then show ?thesis using assms by (auto simp: on_listening_def Let_def sup_inv_def known_def)
next
  case True
  show ?thesis
  proof (cases "sv_current s")
    case None
    then show ?thesis using True assms by (auto simp: on_listening_def Let_def sup_inv_def known_def)
  next
    case (Some prev)
    define s1 where "s1 = s\<lparr>sv_listening := insert w (sv_listening s), sv_startTimers := sv_startTimers s - {w},
      sv_pending := None, sv_current := Some w\<rparr>"
    have eq: "on_listening ok w s = drain ok Reload prev s1"
      using True Some by (simp add: on_listening_def Let_def s1_def)
    have k: "sv_killed s \<subseteq> sv_killed (drain ok Reload prev s1)"
      using drain_killed[of s1] by (simp add: s1_def)
    show ?thesis
      unfolding eq using assms True Some k by (auto simp: sup_inv_def known_def s1_def)
  qed
qed

lemma on_stop_inv: "sup_inv s \<Longrightarrow> \<not> sv_exited s \<Longrightarrow> sup_inv (on_stop ok s)"
proof (cases "sv_stopping s")
  case False
  assume a: "sup_inv s" "\<not> sv_exited s"
  define s1 where "s1 = fold (drain ok StopReason) (to_stop s) (s\<lparr>sv_stopping := True\<rparr>)"
  have ts: "set (to_stop s) = known s" using a by (simp add: set_to_stop sup_inv_def)
  have k: "sv_killed s \<subseteq> sv_killed s1"
    using fold_drain_killed[of "s\<lparr>sv_stopping := True\<rparr>"] by (simp add: s1_def)
  have fields: "sv_current s1 = sv_current s" "sv_pending s1 = sv_pending s" "sv_draining s1 = known s"
    "sv_alive s1 = sv_alive s" "sv_listening s1 = sv_listening s" "sv_nextWorker s1 = sv_nextWorker s"
    "sv_stopping s1" "\<not> sv_exited s1"
    using a ts by (auto simp: s1_def known_def)
  have kn: "known s1 = known s" using fields by (auto simp: known_def)
  have fin: "finite (known s)" using a by (auto simp: sup_inv_def known_def)
  have "known s \<subseteq> sv_alive s" "sv_alive s \<subseteq> known s \<union> sv_killed s" "\<forall>w \<in> sv_alive s. w < sv_nextWorker s"
    "sv_pending s \<noteq> None \<longrightarrow> sv_pending s \<noteq> sv_current s" "\<forall>w. sv_pending s = Some w \<longrightarrow> w \<notin> sv_listening s"
    "\<forall>w \<in> sv_listening s. w < sv_nextWorker s" "set_option (sv_current s) \<union> set_option (sv_pending s) \<subseteq> known s"
    using a(1) unfolding sup_inv_def by (auto simp: known_def)
  then have inv: "sup_inv s1"
    using fin k fields(7,8) unfolding sup_inv_def kn fields(1-6) by blast
  then have "sup_inv (s1\<lparr>sv_exited := True\<rparr>)" if "all_gone s1"
    using that fields(7) by (simp add: sup_inv_def known_def all_gone_def)
  with inv show ?thesis using False by (simp add: on_stop_def Let_def s1_def)
qed (simp add: on_stop_def)

lemma sup_step_inv: "sup_step s e s' \<Longrightarrow> sup_inv s \<Longrightarrow> sup_inv s'"
  by (erule sup_stepE, cases e)
    (simp_all add: on_exit_inv on_sighup_inv on_start_timeout_inv on_restart_due_inv on_listening_inv on_stop_inv)

lemma sup_reachable_inv: "sup_reachable s \<Longrightarrow> sup_inv s"
  by (induction rule: sup_reachable.induct) (auto intro: start_inv sup_step_inv)

subsection \<open>Properties\<close>

text \<open>
  C36. No worker is lost. In every state the supervisor can reach, a living worker is the current one, the
  one being started, one that was told to finish, or one that was killed; and the supervisor exits only
  after a stop signal, when no worker is left but killed ones that have not died yet.
\<close>

theorem no_orphan_worker:
  assumes "sup_reachable s"
  shows "sv_alive s \<subseteq> set_option (sv_current s) \<union> set_option (sv_pending s) \<union> sv_draining s \<union> sv_killed s \<and>
    (sv_exited s \<longrightarrow> sv_stopping s \<and> sv_alive s \<subseteq> sv_killed s)"
  using sup_reachable_inv[OF assms] by (auto simp: sup_inv_def known_def all_gone_def)

theorem no_orphan_worker_witness:
  "sv_alive (on_sighup start_supervisor) \<subseteq> {0, 1}"
proof -
  have "sup_step start_supervisor Sighup (handle (\<lambda>_. True) Sighup start_supervisor)"
    by (rule sup_step.intros) (simp_all add: start_supervisor_def launch_current_def fork_def)
  then have "sup_reachable (on_sighup start_supervisor)" by (auto intro: sup_reachable.intros)
  from no_orphan_worker[OF this] show ?thesis
    by (auto simp: on_sighup_def start_supervisor_def launch_current_def fork_def Let_def)
qed

text \<open>
  C35. A reload never takes the gateway down. While the current worker listens, every event other than its
  own exit leaves a listening worker current: the same one, or the reloaded one once it listens; only in
  that last case is the old worker told to finish. A new worker that fails to start, exits early or is
  killed for being late changes nothing for the running one.
\<close>

theorem reload_keeps_serving:
  assumes "sup_reachable s" "sup_step s e s'" "sv_current s = Some w" "w \<in> sv_listening s" "e \<noteq> WorkerExit w"
  shows "\<exists>w'. sv_current s' = Some w' \<and> w' \<in> sv_listening s' \<and>
    (w' = w \<or> (sv_pending s = Some w' \<and> e = WorkerListening w' \<and> w \<in> sv_draining s')) \<and>
    (w \<in> sv_draining s' \<longrightarrow> w \<in> sv_draining s \<or> w' \<noteq> w \<or> e = StopSignal)"
proof -
  have inv: "sup_inv s" by (rule sup_reachable_inv[OF assms(1)])
  from assms(2) obtain ok where s': "s' = handle ok e s" by (rule sup_stepE)
  show ?thesis
  proof (cases e)
    case Sighup
    then show ?thesis using s' assms by (auto simp: on_sighup_def fork_def Let_def)
  next
    case (WorkerListening x)
    then show ?thesis using s' assms inv
      by (auto simp: on_listening_def Let_def sup_inv_def split: option.splits)
  next
    case (StartTimeout x)
    then show ?thesis using s' assms by (auto simp: on_start_timeout_def Let_def)
  next
    case (WorkerExit x)
    then show ?thesis using s' assms by (auto simp: on_exit_def exit_if_gone_def Let_def)
  next
    case RestartDue
    then show ?thesis using s' assms by (auto simp: on_restart_due_def Let_def)
  next
    case StopSignal
    then show ?thesis using s' assms by (auto simp: on_stop_def Let_def)
  qed
qed

theorem reload_keeps_serving_witness:
  "\<exists>w'. sv_current (on_sighup (on_listening (\<lambda>_. True) 0 start_supervisor)) = Some w' \<and>
     w' \<in> sv_listening (on_sighup (on_listening (\<lambda>_. True) 0 start_supervisor))"
proof -
  let ?s = "on_listening (\<lambda>_. True) 0 start_supervisor"
  have s: "sv_current ?s = Some 0" "0 \<in> sv_listening ?s" "\<not> sv_exited ?s"
    by (simp_all add: on_listening_def start_supervisor_def launch_current_def fork_def Let_def)
  have "sup_step start_supervisor (WorkerListening 0) (handle (\<lambda>_. True) (WorkerListening 0) start_supervisor)"
    by (rule sup_step.intros) (simp_all add: start_supervisor_def launch_current_def fork_def)
  then have r: "sup_reachable ?s" by (auto intro: sup_reachable.intros)
  have "sup_step ?s Sighup (handle (\<lambda>_. True) Sighup ?s)" by (rule sup_step.intros) (simp_all add: s)
  from reload_keeps_serving[OF r this s(1,2)] show ?thesis by auto
qed

end
