(* ===== verification/Plan_Execution.thy ===== *)
theory Plan_Execution
  imports Json
begin

text \<open>
  Managed plan executions: the data (\<open>packages/contracts/src/managed-plan-execution.ts\<close>) and the
  in-memory repository that stores them (\<open>packages/runtime/src/plan-execution-repository.ts\<close>), with
  its compare-and-set updates, controller leases and event outbox.

  Times are milliseconds (the code keeps them as ISO strings and parses them to compare). A field
  the schema lets be \<open>null\<close> is an \<open>option\<close>; a field a patch may leave out is one more \<open>option\<close>, so
  \<open>Some None\<close> writes \<open>null\<close>. Records are values the schema accepted: the checks of \<open>parse\<close> that a
  typed record can still fail (a plan without stages) are branches of the operations.
\<close>

subsection \<open>Data\<close>

record model_selection =
  ms_modelId :: string
  ms_reasoningEffort :: string

record plan_stage =
  sg_id :: string
  sg_order :: nat
  sg_title :: string
  sg_instructions :: string
  sg_completionCriteria :: "string list"
  sg_modelId :: string
  sg_reasoningEffort :: string

datatype stage_outcome = CONTINUE | STAGE_COMPLETED | STAGE_BLOCKED

record stage_evidence =
  ev_criterion :: string
  ev_result :: string

record stage_result =
  rs_outcome :: stage_outcome
  rs_summary :: string
  rs_evidence :: "stage_evidence list"

datatype plan_status = RUNNING | SWITCHING_MODEL | RESUMING_STAGE | WAITING_FOR_MODEL | WAITING_FOR_INPUT
  | PAUSED | BLOCKED | COMPLETED | FAILED

datatype attempt_status = ATTEMPT_PREPARED | ATTEMPT_RUNNING | ATTEMPT_COMPLETED | ATTEMPT_INTERRUPTED | ATTEMPT_FAILED

record actual_selection =
  as_modelId :: string
  as_reasoningEffort :: string
  as_threadId :: string
  as_turnId :: string
  as_commandId :: string

record attempt =
  at_id :: string
  at_stageId :: string
  at_commandId :: string
  at_turnId :: "string option"
  at_selection :: model_selection
  at_actualSelection :: "actual_selection option"
  at_status :: attempt_status
  at_startedAt :: int
  at_completedAt :: "int option"
  at_result :: "stage_result option"

datatype command_type = START | INTERRUPT | SETTINGS

datatype command_status = CMD_PREPARED | CMD_SENT | CMD_UNKNOWN

record command =
  cm_id :: string
  cm_type :: command_type
  cm_stageId :: string
  cm_turnId :: "string option"
  cm_selection :: model_selection
  cm_preparedAt :: int
  cm_status :: command_status
  cm_baselineTurnIds :: "string list"

datatype interrupt_reason = OVERRIDE | PAUSE

record plan_lease =
  le_owner :: string
  le_epoch :: nat
  le_expiresAt :: int

record outbox_entry =
  oe_revision :: nat
  oe_status :: plan_status
  oe_activeStageIndex :: nat
  oe_createdAt :: int

record plan_snapshot =
  sn_text :: string
  sn_title :: "string option"
  sn_stages :: "plan_stage list"

text \<open>\<open>CreateManagedPlanExecution\<close> picks the fields a new execution is made from; the rest follow.\<close>

record plan_input =
  ex_ownerUserId :: string
  ex_planId :: string
  ex_paneId :: string
  ex_sessionId :: string
  ex_threadId :: string
  ex_cwd :: string
  ex_requestId :: string
  ex_snapshot :: plan_snapshot

record execution = plan_input +
  ex_id :: string
  ex_status :: plan_status
  ex_activeStageIndex :: nat
  ex_revision :: nat
  ex_eventCursor :: int
  ex_events :: "outbox_entry list"
  ex_overrides :: "(string \<times> model_selection) list"
  ex_attempts :: "attempt list"
  ex_completedStageIds :: "string list"
  ex_checkpoint :: "string option"
  ex_correctionCount :: nat
  ex_pendingCommand :: "command option"
  ex_interruptCommand :: "command option"
  ex_commands :: "command list"
  ex_interruptReason :: "interrupt_reason option"
  ex_nextRetryAt :: "int option"
  ex_retryCount :: nat
  ex_statusReason :: "string option"
  ex_errorCode :: "string option"
  ex_lease :: "plan_lease option"
  ex_createdAt :: int
  ex_updatedAt :: int

record plan_patch =
  pt_status :: "plan_status option"
  pt_activeStageIndex :: "nat option"
  pt_overrides :: "(string \<times> model_selection) list option"
  pt_attempts :: "attempt list option"
  pt_completedStageIds :: "string list option"
  pt_checkpoint :: "string option option"
  pt_correctionCount :: "nat option"
  pt_pendingCommand :: "command option option"
  pt_interruptCommand :: "command option option"
  pt_interruptReason :: "interrupt_reason option option"
  pt_nextRetryAt :: "int option option"
  pt_retryCount :: "nat option"
  pt_statusReason :: "string option option"
  pt_errorCode :: "string option option"

definition no_patch :: plan_patch where
  "no_patch = \<lparr>pt_status = None, pt_activeStageIndex = None, pt_overrides = None, pt_attempts = None,
     pt_completedStageIds = None, pt_checkpoint = None, pt_correctionCount = None, pt_pendingCommand = None,
     pt_interruptCommand = None, pt_interruptReason = None, pt_nextRetryAt = None, pt_retryCount = None,
     pt_statusReason = None, pt_errorCode = None\<rparr>"

text \<open>Every error but the first two is a \<open>PlanExecutionConflictError\<close>.\<close>

datatype plan_error = InvalidExecution | ProjectionFailed | FinishedExecution | RequestIdReused | ActiveExecutionExists
  | ProjectionUnavailable | ExecutionNotFound | StaleRevision | StaleLease | OutOfOrderAck

subsection \<open>New executions and patches\<close>

definition is_plan_execution_active :: "execution \<Rightarrow> bool" where
  "is_plan_execution_active r = (ex_status r \<notin> {COMPLETED, FAILED})"

definition new_plan_execution :: "string \<Rightarrow> int \<Rightarrow> plan_input \<Rightarrow> plan_error + execution" where
  "new_plan_execution uuid now input =
     (if sn_stages (ex_snapshot input) = [] then Inl InvalidExecution
      else Inr (plan_input.extend input (execution.fields (''plan_execution:'' @ uuid) RUNNING 0 0 (- 1)
        [\<lparr>oe_revision = 0, oe_status = RUNNING, oe_activeStageIndex = 0, oe_createdAt = now\<rparr>]
        [] [] [] None 0 None None [] None None 0 None None None now now)))"

definition add_command :: "command option option \<Rightarrow> command list \<Rightarrow> command list" where
  "add_command cmd commands = (case cmd of
     Some (Some c) \<Rightarrow> filter (\<lambda>d. cm_id d \<noteq> cm_id c) commands @ [c] | _ \<Rightarrow> commands)"

definition patched :: "int \<Rightarrow> plan_patch \<Rightarrow> execution \<Rightarrow> execution" where
  "patched now p r = r\<lparr>
     ex_status := dflt (pt_status p) (ex_status r),
     ex_activeStageIndex := dflt (pt_activeStageIndex p) (ex_activeStageIndex r),
     ex_overrides := dflt (pt_overrides p) (ex_overrides r),
     ex_attempts := dflt (pt_attempts p) (ex_attempts r),
     ex_completedStageIds := dflt (pt_completedStageIds p) (ex_completedStageIds r),
     ex_checkpoint := dflt (pt_checkpoint p) (ex_checkpoint r),
     ex_correctionCount := dflt (pt_correctionCount p) (ex_correctionCount r),
     ex_pendingCommand := dflt (pt_pendingCommand p) (ex_pendingCommand r),
     ex_interruptCommand := dflt (pt_interruptCommand p) (ex_interruptCommand r),
     ex_interruptReason := dflt (pt_interruptReason p) (ex_interruptReason r),
     ex_nextRetryAt := dflt (pt_nextRetryAt p) (ex_nextRetryAt r),
     ex_retryCount := dflt (pt_retryCount p) (ex_retryCount r),
     ex_statusReason := dflt (pt_statusReason p) (ex_statusReason r),
     ex_errorCode := dflt (pt_errorCode p) (ex_errorCode r),
     ex_events := ex_events r @ [\<lparr>oe_revision = ex_revision r + 1, oe_status = dflt (pt_status p) (ex_status r),
       oe_activeStageIndex = dflt (pt_activeStageIndex p) (ex_activeStageIndex r), oe_createdAt = now\<rparr>],
     ex_commands := add_command (pt_interruptCommand p) (add_command (pt_pendingCommand p) (ex_commands r)),
     ex_revision := ex_revision r + 1,
     ex_updatedAt := now\<rparr>"

definition resumes_finished :: "plan_patch \<Rightarrow> execution \<Rightarrow> bool" where
  "resumes_finished p r = (\<not> is_plan_execution_active r \<and>
     (case pt_status p of None \<Rightarrow> False | Some s \<Rightarrow> s \<noteq> ex_status r))"

definition apply_plan_execution_patch :: "int \<Rightarrow> execution \<Rightarrow> plan_patch \<Rightarrow> plan_error + execution" where
  "apply_plan_execution_patch now r p = (if resumes_finished p r then Inl FinishedExecution else Inr (patched now p r))"

record plan_event =
  pe_id :: "string \<times> nat"
  pe_ownerUserId :: string
  pe_planId :: string
  pe_paneId :: string
  pe_entry :: outbox_entry

definition plan_execution_events :: "execution \<Rightarrow> plan_event list" where
  "plan_execution_events r = map (\<lambda>e. \<lparr>pe_id = (ex_id r, oe_revision e), pe_ownerUserId = ex_ownerUserId r,
       pe_planId = ex_planId r, pe_paneId = ex_paneId r, pe_entry = e\<rparr>)
     (filter (\<lambda>e. int (oe_revision e) > ex_eventCursor r) (ex_events r))"

subsection \<open>The in-memory repository\<close>

text \<open>
  \<open>project\<close> is the callback of the constructor: absent, or a function that returns (\<open>True\<close>) or
  throws; the executions it was called with are kept in \<open>ps_projected\<close>.
\<close>

type_synonym projection = "(execution \<Rightarrow> bool) option"

record plan_store =
  ps_records :: "(string \<times> execution) list"
  ps_projected :: "execution list"

definition empty_plan_store :: plan_store where
  "empty_plan_store = \<lparr>ps_records = [], ps_projected = []\<rparr>"

text \<open>The constructor's snapshot, and what the rest of the program asks.\<close>

definition restore_plans :: "execution list \<Rightarrow> plan_store" where
  "restore_plans snapshot = \<lparr>ps_records = fold (\<lambda>r. map_set (ex_id r) r) snapshot [], ps_projected = []\<rparr>"

definition has_managed_plan :: "string \<Rightarrow> string \<Rightarrow> plan_store \<Rightarrow> bool" where
  "has_managed_plan owner planId s = list_ex (\<lambda>r. ex_ownerUserId r = owner \<and> ex_planId r = planId) (map snd (ps_records s))"

definition plan_record :: "string \<Rightarrow> plan_store \<Rightarrow> execution option" where
  "plan_record i s = map_of (ps_records s) i"

definition put_record :: "string \<Rightarrow> execution \<Rightarrow> plan_store \<Rightarrow> plan_store" where
  "put_record i r s = s\<lparr>ps_records := map_set i r (ps_records s)\<rparr>"

text \<open>\<open>if (projectToPlan) { if (!this.project) throw ...; this.project(record); }\<close>\<close>

definition project_record :: "projection \<Rightarrow> bool \<Rightarrow> execution \<Rightarrow> plan_store \<Rightarrow> plan_error + plan_store" where
  "project_record project wanted r s =
     (if \<not> wanted then Inr s
      else case project of None \<Rightarrow> Inl ProjectionUnavailable
        | Some f \<Rightarrow> if f r then Inr (s\<lparr>ps_projected := ps_projected s @ [r]\<rparr>) else Inl ProjectionFailed)"

definition store_projected ::
  "projection \<Rightarrow> bool \<Rightarrow> string \<Rightarrow> execution \<Rightarrow> plan_store \<Rightarrow> plan_store \<times> (plan_error + execution)" where
  "store_projected project wanted i r s = (case project_record project wanted r s of
     Inl e \<Rightarrow> (s, Inl e) | Inr s' \<Rightarrow> (put_record i r s', Inr r))"

definition same_request :: "plan_input \<Rightarrow> execution \<Rightarrow> bool" where
  "same_request input r = (ex_ownerUserId r = ex_ownerUserId input \<and> ex_requestId r = ex_requestId input)"

definition same_target :: "plan_input \<Rightarrow> execution \<Rightarrow> bool" where
  "same_target input r =
     (ex_planId r = ex_planId input \<and> ex_paneId r = ex_paneId input \<and> ex_sessionId r = ex_sessionId input)"

definition create_execution ::
  "projection \<Rightarrow> string \<Rightarrow> int \<Rightarrow> plan_input \<Rightarrow> bool \<Rightarrow> plan_store \<Rightarrow> plan_store \<times> (plan_error + execution)" where
  "create_execution project uuid now input projectToPlan s =
     (case List.find (same_request input) (map snd (ps_records s)) of
        Some duplicate \<Rightarrow> if same_target input duplicate then (s, Inr duplicate) else (s, Inl RequestIdReused)
      | None \<Rightarrow>
          if \<exists>r \<in> set (map snd (ps_records s)). is_plan_execution_active r \<and>
               (ex_paneId r = ex_paneId input \<or> ex_planId r = ex_planId input)
          then (s, Inl ActiveExecutionExists)
          else case new_plan_execution uuid now input of
            Inl e \<Rightarrow> (s, Inl e)
          | Inr r \<Rightarrow> store_projected project projectToPlan (ex_id r) r s)"

definition project_current ::
  "projection \<Rightarrow> string \<Rightarrow> string \<Rightarrow> nat \<Rightarrow> plan_store \<Rightarrow> plan_store \<times> (plan_error + execution)" where
  "project_current project owner i revision s = (case plan_record i s of
     None \<Rightarrow> (s, Inl StaleRevision)
   | Some r \<Rightarrow> if ex_ownerUserId r \<noteq> owner \<or> ex_revision r \<noteq> revision then (s, Inl StaleRevision)
       else case project_record project True r s of Inl e \<Rightarrow> (s, Inl e) | Inr s' \<Rightarrow> (s', Inr r))"

definition get_execution :: "string \<Rightarrow> string \<Rightarrow> plan_store \<Rightarrow> execution option" where
  "get_execution owner i s = (case plan_record i s of
     Some r \<Rightarrow> if ex_ownerUserId r = owner then Some r else None | None \<Rightarrow> None)"

text \<open>Newest first; \<open>sort\<close> is stable, and ISO times compare as strings the way they compare as times.\<close>

definition find_for_pane :: "string \<Rightarrow> string \<Rightarrow> plan_store \<Rightarrow> execution option" where
  "find_for_pane owner paneId s =
     (let records = sort_key (\<lambda>r. - ex_createdAt r)
            (filter (\<lambda>r. ex_ownerUserId r = owner \<and> ex_paneId r = paneId) (map snd (ps_records s)))
      in or_else (List.find is_plan_execution_active records) (case records of [] \<Rightarrow> None | r # _ \<Rightarrow> Some r))"

definition list_active :: "plan_store \<Rightarrow> execution list" where
  "list_active s = filter is_plan_execution_active (map snd (ps_records s))"

definition list_pending_events :: "plan_store \<Rightarrow> plan_event list" where
  "list_pending_events s = concat (map plan_execution_events (map snd (ps_records s)))"

definition acknowledge_event :: "string \<Rightarrow> nat \<Rightarrow> plan_store \<Rightarrow> plan_store \<times> (plan_error + unit)" where
  "acknowledge_event i revision s = (case plan_record i s of
     None \<Rightarrow> (s, Inr ())
   | Some r \<Rightarrow> if ex_eventCursor r \<ge> int revision then (s, Inr ())
       else case plan_execution_events r of
         [] \<Rightarrow> (s, Inl OutOfOrderAck)
       | e # _ \<Rightarrow> if oe_revision (pe_entry e) \<noteq> revision then (s, Inl OutOfOrderAck)
           else (put_record i (r\<lparr>ex_eventCursor := int revision\<rparr>) s, Inr ()))"

definition stale_lease :: "int \<Rightarrow> execution \<Rightarrow> plan_lease \<Rightarrow> bool" where
  "stale_lease now r lease = (case ex_lease r of None \<Rightarrow> True
     | Some l \<Rightarrow> le_owner l \<noteq> le_owner lease \<or> le_epoch l \<noteq> le_epoch lease \<or> le_expiresAt l \<le> now)"

definition update_execution ::
  "projection \<Rightarrow> int \<Rightarrow> string \<Rightarrow> string \<Rightarrow> nat \<Rightarrow> plan_patch \<Rightarrow> plan_lease option \<Rightarrow> bool
   \<Rightarrow> plan_store \<Rightarrow> plan_store \<times> (plan_error + execution)" where
  "update_execution project now owner i revision p lease projectToPlan s = (case plan_record i s of
     None \<Rightarrow> (s, Inl ExecutionNotFound)
   | Some r \<Rightarrow>
       if ex_ownerUserId r \<noteq> owner then (s, Inl ExecutionNotFound)
       else if ex_revision r \<noteq> revision then (s, Inl StaleRevision)
       else if (case lease of None \<Rightarrow> False | Some l \<Rightarrow> stale_lease now r l) then (s, Inl StaleLease)
       else case apply_plan_execution_patch now r p of
         Inl e \<Rightarrow> (s, Inl e)
       | Inr r' \<Rightarrow> store_projected project projectToPlan i r' s)"

definition lease_running :: "execution \<Rightarrow> int \<Rightarrow> plan_lease option" where
  "lease_running r now = (case ex_lease r of
     None \<Rightarrow> None | Some l \<Rightarrow> if le_expiresAt l > now then Some l else None)"

definition claim_execution :: "string \<Rightarrow> string \<Rightarrow> int \<Rightarrow> int \<Rightarrow> plan_store \<Rightarrow> plan_store \<times> execution option" where
  "claim_execution i owner now durationMs s = (case plan_record i s of
     None \<Rightarrow> (s, None)
   | Some r \<Rightarrow>
       if \<not> is_plan_execution_active r then (s, None)
       else if (case lease_running r now of None \<Rightarrow> False | Some l \<Rightarrow> le_owner l \<noteq> owner) then (s, None)
       else let epoch = (case lease_running r now of
                  Some l \<Rightarrow> le_epoch l
                | None \<Rightarrow> (case ex_lease r of None \<Rightarrow> 0 | Some l \<Rightarrow> le_epoch l) + 1);
                r' = r\<lparr>ex_lease := Some \<lparr>le_owner = owner, le_epoch = epoch, le_expiresAt = now + durationMs\<rparr>\<rparr>
            in (put_record i r' s, Some r'))"

definition release_execution :: "string \<Rightarrow> plan_lease \<Rightarrow> plan_store \<Rightarrow> plan_store" where
  "release_execution i lease s = (case plan_record i s of
     None \<Rightarrow> s
   | Some r \<Rightarrow> (case ex_lease r of None \<Rightarrow> s
       | Some l \<Rightarrow> if le_owner l = le_owner lease \<and> le_epoch l = le_epoch lease
           then put_record i (r\<lparr>ex_lease := Some (l\<lparr>le_expiresAt := 0\<rparr>)\<rparr>) s else s))"

text \<open>The calls other parts of the program make, as operations on the store; \<open>plan_wins\<close> tells which
  revision of which execution a call replaces.\<close>

datatype plan_op =
    Create string plan_input bool
  | Update string string nat plan_patch "plan_lease option" bool
  | Claim string string int
  | Release string plan_lease
  | Acknowledge string nat
  | Project string string nat

fun plan_step :: "projection \<Rightarrow> int \<times> plan_op \<Rightarrow> plan_store \<Rightarrow> plan_store" where
  "plan_step project (now, Create uuid input projected) s = fst (create_execution project uuid now input projected s)"
| "plan_step project (now, Update owner i revision p lease projected) s =
     fst (update_execution project now owner i revision p lease projected s)"
| "plan_step project (now, Claim i owner durationMs) s = fst (claim_execution i owner now durationMs s)"
| "plan_step project (now, Release i lease) s = release_execution i lease s"
| "plan_step project (now, Acknowledge i revision) s = fst (acknowledge_event i revision s)"
| "plan_step project (now, Project owner i revision) s = fst (project_current project owner i revision s)"

fun plan_wins :: "projection \<Rightarrow> int \<times> plan_op \<Rightarrow> plan_store \<Rightarrow> (string \<times> nat) option" where
  "plan_wins project (now, Update owner i revision p lease projected) s =
     (case snd (update_execution project now owner i revision p lease projected s) of
        Inr _ \<Rightarrow> Some (i, revision) | Inl _ \<Rightarrow> None)"
| "plan_wins project _ s = None"

end
