(* ===== verification/Plan_Store.thy ===== *)
theory Plan_Store
  imports Plan_Execution
begin

text \<open>
  What the plan execution repository guarantees to the parts that share it. Two interfaces are stated
  as locales, over any store whose entries carry a version or a lease, and interpreted on the
  repository: \<open>versioned_store\<close> (compare and set) and \<open>lease_service\<close> (fencing tokens). Further
  lemmas show that a pane and a plan have one active execution, that the outbox is complete and in
  order, and that a running lease excludes other workers.
\<close>

subsection \<open>Runs of a store\<close>

fun legal_run :: "('o \<Rightarrow> 's \<Rightarrow> bool) \<Rightarrow> ('o \<Rightarrow> 's \<Rightarrow> 's) \<Rightarrow> 'o list \<Rightarrow> 's \<Rightarrow> bool" where
  "legal_run legal step [] s = True"
| "legal_run legal step (x # xs) s = (legal x s \<and> legal_run legal step xs (step x s))"

fun won :: "('o \<Rightarrow> 's \<Rightarrow> 's) \<Rightarrow> ('o \<Rightarrow> 's \<Rightarrow> ('k \<times> nat) option) \<Rightarrow> 'o list \<Rightarrow> 's \<Rightarrow> ('k \<times> nat) list" where
  "won step wins [] s = []"
| "won step wins (x # xs) s = (case wins x s of None \<Rightarrow> [] | Some w \<Rightarrow> [w]) @ won step wins xs (step x s)"

lemma legal_run_append:
  "legal_run legal step (xs @ ys) s \<longleftrightarrow> legal_run legal step xs s \<and> legal_run legal step ys (fold step xs s)"
  by (induction xs arbitrary: s) auto

text \<open>Compare and set: a commit names the version it replaces, and versions only grow.\<close>

locale versioned_store =
  fixes version :: "'k \<Rightarrow> 's \<Rightarrow> nat option"
    and legal :: "'o \<Rightarrow> 's \<Rightarrow> bool"
    and step :: "'o \<Rightarrow> 's \<Rightarrow> 's"
    and wins :: "'o \<Rightarrow> 's \<Rightarrow> ('k \<times> nat) option"
  assumes version_kept: "legal x s \<Longrightarrow> version k s = Some n \<Longrightarrow> \<exists>m \<ge> n. version k (step x s) = Some m"
    and wins_replaces: "legal x s \<Longrightarrow> wins x s = Some (k, n) \<Longrightarrow>
      version k s = Some n \<and> version k (step x s) = Some (Suc n)"
begin

lemma version_mono:
  "legal_run legal step xs s \<Longrightarrow> version k s = Some n \<Longrightarrow> \<exists>m \<ge> n. version k (fold step xs s) = Some m"
proof (induction xs arbitrary: s n)
  case (Cons x xs)
  then obtain m where "n \<le> m" "version k (step x s) = Some m" using version_kept[of x s k n] by auto
  moreover have "legal_run legal step xs (step x s)" using Cons.prems by simp
  ultimately show ?case using Cons.IH[of "step x s" m] by (metis fold_simps(2) le_trans)
qed auto

lemma later_wins: "legal_run legal step xs s \<Longrightarrow> version k s = Some n \<Longrightarrow> (k, m) \<in> set (won step wins xs s) \<Longrightarrow> n \<le> m"
proof (induction xs arbitrary: s n)
  case (Cons x xs)
  obtain n' where n': "n \<le> n'" "version k (step x s) = Some n'" using Cons.prems version_kept[of x s k n] by auto
  show ?case
  proof (cases "wins x s = Some (k, m)")
    case True
    then show ?thesis using Cons.prems wins_replaces[of x s k m] by auto
  next
    case False
    then have "(k, m) \<in> set (won step wins xs (step x s))" using Cons.prems by (auto split: option.splits)
    then show ?thesis using Cons.IH[of "step x s" n'] Cons.prems n' by auto
  qed
qed auto

lemma each_version_replaced_once: "legal_run legal step xs s \<Longrightarrow> distinct (won step wins xs s)"
proof (induction xs arbitrary: s)
  case (Cons x xs)
  then have IH: "distinct (won step wins xs (step x s))" by simp
  show ?case
  proof (cases "wins x s")
    case (Some w)
    obtain k n where w: "w = (k, n)" by fastforce
    then have "version k (step x s) = Some (Suc n)" using Some Cons.prems wins_replaces[of x s k n] by auto
    then have "(k, n) \<notin> set (won step wins xs (step x s))"
      using later_wins[of xs "step x s" k "Suc n" n] Cons.prems by auto
    then show ?thesis using Some w IH by simp
  qed (use IH in simp)
qed simp

end

text \<open>Leases: a change of the holder raises the epoch, so an epoch names one holder.\<close>

locale lease_service =
  fixes holder :: "'k \<Rightarrow> 's \<Rightarrow> ('w \<times> nat) option"
    and legal :: "'o \<Rightarrow> 's \<Rightarrow> bool"
    and step :: "'o \<Rightarrow> 's \<Rightarrow> 's"
  assumes holder_step: "legal x s \<Longrightarrow> holder k s = Some (w, e) \<Longrightarrow>
      \<exists>w' e'. holder k (step x s) = Some (w', e') \<and> (e < e' \<or> e' = e \<and> w' = w)"
begin

lemma holder_run:
  "legal_run legal step xs s \<Longrightarrow> holder k s = Some (w, e) \<Longrightarrow>
   \<exists>w' e'. holder k (fold step xs s) = Some (w', e') \<and> (e < e' \<or> e' = e \<and> w' = w)"
proof (induction xs arbitrary: s w e)
  case (Cons x xs)
  then obtain w' e' where h: "holder k (step x s) = Some (w', e')" "e < e' \<or> e' = e \<and> w' = w"
    using holder_step[of x s k w e] by auto
  show ?case using Cons.IH[OF _ h(1)] Cons.prems(1) h(2) by fastforce
qed auto

lemma old_holder_gone:
  assumes "legal_run legal step xs s" "holder k s = Some (w', e')" "e < e' \<or> (e = e' \<and> w \<noteq> w')"
  shows "holder k (fold step xs s) \<noteq> Some (w, e)"
  using holder_run[OF assms(1,2)] assms(3) by fastforce

end

subsection \<open>Records of the repository\<close>

lemma plan_record_put [simp]: "plan_record j (put_record i r s) = (if j = i then Some r else plan_record j s)"
  by (simp add: plan_record_def put_record_def)

lemma records_put: "distinct (map fst (ps_records s)) \<Longrightarrow> distinct (map fst (ps_records (put_record i r s)))"
  by (auto simp: put_record_def)

lemma project_recordD:
  "project_record project wanted r s = Inr s' \<Longrightarrow> ps_records s' = ps_records s \<and> plan_record i s' = plan_record i s"
  by (auto simp: project_record_def plan_record_def split: if_splits option.splits)

definition record_ok :: "string \<Rightarrow> execution \<Rightarrow> bool" where
  "record_ok i r = (ex_id r = i \<and> map oe_revision (ex_events r) = [0..<Suc (ex_revision r)] \<and>
     - 1 \<le> ex_eventCursor r \<and> ex_eventCursor r \<le> int (ex_revision r) \<and> sn_stages (ex_snapshot r) \<noteq> [])"

text \<open>Two executions that may not both exist: active on one pane or plan, or made by one request.\<close>

definition competes :: "execution \<Rightarrow> execution \<Rightarrow> bool" where
  "competes r q = (is_plan_execution_active r \<and> is_plan_execution_active q \<and>
       (ex_paneId r = ex_paneId q \<or> ex_planId r = ex_planId q)
     \<or> ex_ownerUserId r = ex_ownerUserId q \<and> ex_requestId r = ex_requestId q)"

definition plan_inv :: "plan_store \<Rightarrow> bool" where
  "plan_inv s = (distinct (map fst (ps_records s)) \<and>
     (\<forall>i r. plan_record i s = Some r \<longrightarrow> record_ok i r) \<and>
     (\<forall>i j r q. plan_record i s = Some r \<longrightarrow> plan_record j s = Some q \<longrightarrow> competes r q \<longrightarrow> i = j))"

lemma in_records:
  "distinct (map fst (ps_records s)) \<Longrightarrow> r \<in> set (map snd (ps_records s)) \<longleftrightarrow> (\<exists>i. plan_record i s = Some r)"
  by (force simp: plan_record_def)

lemma same_inputD:
  "plan_input.truncate r' = plan_input.truncate r \<Longrightarrow>
   ex_ownerUserId r' = ex_ownerUserId r \<and> ex_planId r' = ex_planId r \<and> ex_paneId r' = ex_paneId r \<and>
   ex_sessionId r' = ex_sessionId r \<and> ex_threadId r' = ex_threadId r \<and> ex_cwd r' = ex_cwd r \<and>
   ex_requestId r' = ex_requestId r \<and> ex_snapshot r' = ex_snapshot r"
  by (simp add: plan_input.truncate_def)

text \<open>The two ways records change: one is replaced by a version of itself, or a new one is added.\<close>

definition successor :: "execution \<Rightarrow> execution \<Rightarrow> bool" where
  "successor r r' = (plan_input.truncate r' = plan_input.truncate r \<and>
     (is_plan_execution_active r' \<longrightarrow> is_plan_execution_active r))"

lemma inv_replace:
  assumes "plan_inv s" "plan_record i s = Some r" "record_ok i r \<Longrightarrow> record_ok i r'" "successor r r'"
  shows "plan_inv (put_record i r' s)"
proof -
  have c: "competes r' q \<Longrightarrow> competes r q" "competes q r' \<Longrightarrow> competes q r" for q
    using assms(4) by (auto simp: competes_def successor_def dest: same_inputD)
  have "distinct (map fst (ps_records (put_record i r' s)))"
    using assms(1) by (intro records_put) (simp add: plan_inv_def)
  moreover have "record_ok j q" if "plan_record j (put_record i r' s) = Some q" for j q
    using assms(1-3) that by (simp add: plan_inv_def split: if_splits)
  moreover have "j = k" if "plan_record j (put_record i r' s) = Some q" "plan_record k (put_record i r' s) = Some q'"
      "competes q q'" for j k q q'
    using assms(1,2) that c unfolding plan_inv_def plan_record_put by (metis option.inject)
  ultimately show ?thesis unfolding plan_inv_def by blast
qed

lemma inv_same_records: "ps_records s' = ps_records s \<Longrightarrow> plan_inv s' = plan_inv s"
  by (simp add: plan_inv_def plan_record_def)

lemma patched_simps [simp]:
  "ex_id (patched now p r) = ex_id r" "plan_input.truncate (patched now p r) = plan_input.truncate r" "ex_paneId (patched now p r) = ex_paneId r"
  "ex_planId (patched now p r) = ex_planId r" "ex_ownerUserId (patched now p r) = ex_ownerUserId r"
  "ex_revision (patched now p r) = Suc (ex_revision r)" "ex_lease (patched now p r) = ex_lease r"
  "ex_eventCursor (patched now p r) = ex_eventCursor r" "ex_snapshot (patched now p r) = ex_snapshot r"
  "ex_status (patched now p r) = dflt (pt_status p) (ex_status r)"
  by (simp_all add: patched_def plan_input.truncate_def)

lemma record_ok_patched: "record_ok i r \<Longrightarrow> record_ok i (patched now p r)"
  by (simp add: record_ok_def) (simp add: patched_def)

lemma successor_patched: "\<not> resumes_finished p r \<Longrightarrow> successor r (patched now p r)"
  by (auto simp: successor_def resumes_finished_def is_plan_execution_active_def split: option.splits)

lemma apply_patchD: "apply_plan_execution_patch now r p = Inr r' \<Longrightarrow> r' = patched now p r \<and> \<not> resumes_finished p r"
  by (auto simp: apply_plan_execution_patch_def split: if_splits)

subsection \<open>What each operation does\<close>

lemma update_cases:
  assumes "update_execution project now owner i revision p lease wanted s = (s', res)"
  obtains (refused) e where "res = Inl e" "s' = s"
  | (done_) r t where "plan_record i s = Some r" "ex_ownerUserId r = owner" "ex_revision r = revision"
      "\<not> resumes_finished p r" "res = Inr (patched now p r)" "s' = put_record i (patched now p r) t"
      "ps_records t = ps_records s" "case lease of None \<Rightarrow> True | Some l \<Rightarrow> \<not> stale_lease now r l"
proof (cases res)
  case (Inl e)
  with assms have "s' = s"
    by (auto simp: update_execution_def store_projected_def split: option.splits if_splits sum.splits)
  with Inl refused show ?thesis by blast
next
  case (Inr q)
  with assms obtain r where r: "plan_record i s = Some r" "ex_ownerUserId r = owner" "ex_revision r = revision"
      "\<not> resumes_finished p r" "case lease of None \<Rightarrow> True | Some l \<Rightarrow> \<not> stale_lease now r l"
      "store_projected project wanted i (patched now p r) s = (s', Inr q)"
    by (auto simp: update_execution_def apply_plan_execution_patch_def split: option.splits if_splits)
  moreover from r(6) obtain t where "project_record project wanted (patched now p r) s = Inr t" "q = patched now p r"
      "s' = put_record i q t"
    by (auto simp: store_projected_def split: sum.splits)
  ultimately show ?thesis using Inr done_ project_recordD by metis
qed

lemma plan_record_same: "ps_records t = ps_records s \<Longrightarrow> plan_record j t = plan_record j s"
  by (simp add: plan_record_def)

lemma claim_cases:
  assumes "claim_execution i owner now d s = (s', res)"
  obtains (refused) "res = None" "s' = s"
  | (granted) r epoch where "plan_record i s = Some r" "is_plan_execution_active r"
      "res = Some (r\<lparr>ex_lease := Some \<lparr>le_owner = owner, le_epoch = epoch, le_expiresAt = now + d\<rparr>\<rparr>)"
      "s' = put_record i (r\<lparr>ex_lease := Some \<lparr>le_owner = owner, le_epoch = epoch, le_expiresAt = now + d\<rparr>\<rparr>) s"
      "\<forall>l. ex_lease r = Some l \<longrightarrow> le_epoch l < epoch \<or>
         (le_epoch l = epoch \<and> le_owner l = owner \<and> now < le_expiresAt l)"
      "\<forall>l. ex_lease r = Some l \<longrightarrow> now < le_expiresAt l \<longrightarrow> le_owner l = owner"
proof (cases "plan_record i s")
  case None
  then show ?thesis using assms refused by (simp add: claim_execution_def)
next
  case (Some r)
  show ?thesis
  proof (cases "is_plan_execution_active r \<and> (\<forall>l. lease_running r now = Some l \<longrightarrow> le_owner l = owner)")
    case False
    then show ?thesis using assms Some refused by (cases "lease_running r now") (auto simp: claim_execution_def split: if_splits)
  next
    case True
    define epoch where "epoch = (case lease_running r now of Some l \<Rightarrow> le_epoch l
      | None \<Rightarrow> (case ex_lease r of None \<Rightarrow> 0 | Some l \<Rightarrow> le_epoch l) + 1)"
    have "claim_execution i owner now d s =
      (put_record i (r\<lparr>ex_lease := Some \<lparr>le_owner = owner, le_epoch = epoch, le_expiresAt = now + d\<rparr>\<rparr>) s,
       Some (r\<lparr>ex_lease := Some \<lparr>le_owner = owner, le_epoch = epoch, le_expiresAt = now + d\<rparr>\<rparr>))"
      using True Some by (simp add: claim_execution_def epoch_def Let_def split: option.split)
    moreover have "\<forall>l. ex_lease r = Some l \<longrightarrow> le_epoch l < epoch \<or>
         (le_epoch l = epoch \<and> le_owner l = owner \<and> now < le_expiresAt l)"
        "\<forall>l. ex_lease r = Some l \<longrightarrow> now < le_expiresAt l \<longrightarrow> le_owner l = owner"
      using True by (auto simp: epoch_def lease_running_def)
    ultimately show ?thesis using granted[OF Some, of epoch] True assms by simp
  qed
qed

lemma release_cases:
  obtains (same) "release_execution i lease s = s"
  | (released) r l where "plan_record i s = Some r" "ex_lease r = Some l" "le_owner l = le_owner lease"
      "le_epoch l = le_epoch lease" "release_execution i lease s = put_record i (r\<lparr>ex_lease := Some (l\<lparr>le_expiresAt := 0\<rparr>)\<rparr>) s"
proof (cases "release_execution i lease s = s")
  case False
  then show ?thesis using released by (auto simp: release_execution_def split: option.splits if_splits)
qed (use same in blast)

lemma acknowledge_cases:
  assumes "acknowledge_event i revision s = (s', res)"
  obtains (same) "s' = s"
  | (acknowledged) r e es where "plan_record i s = Some r" "ex_eventCursor r < int revision"
      "plan_execution_events r = e # es" "oe_revision (pe_entry e) = revision"
      "s' = put_record i (r\<lparr>ex_eventCursor := int revision\<rparr>) s" "res = Inr ()"
  using assms by (auto simp: acknowledge_event_def split: option.splits if_splits list.splits)

lemma pending_revisions:
  assumes "record_ok i r"
  shows "map (\<lambda>e. oe_revision (pe_entry e)) (plan_execution_events r) = [nat (ex_eventCursor r + 1)..<Suc (ex_revision r)]"
proof -
  have "filter (\<lambda>n. c < int n) [0..<m] = [nat (c + 1)..<m]" if "- 1 \<le> c" "c < int m" for c m
    using that by (induction m) (auto simp: nat_le_iff)
  moreover have "map (\<lambda>e. oe_revision (pe_entry e)) (plan_execution_events r)
      = filter (\<lambda>n. ex_eventCursor r < int n) (map oe_revision (ex_events r))"
    by (simp add: plan_execution_events_def filter_map comp_def)
  ultimately show ?thesis using assms by (simp add: record_ok_def del: upt_Suc)
qed

lemma acknowledged_ok:
  assumes "record_ok i r" "plan_execution_events r = e # es" "oe_revision (pe_entry e) = n"
  shows "int n = ex_eventCursor r + 1 \<and> record_ok i (r\<lparr>ex_eventCursor := int n\<rparr>)"
proof -
  have "n # map (\<lambda>e. oe_revision (pe_entry e)) es = [nat (ex_eventCursor r + 1)..<Suc (ex_revision r)]"
    using pending_revisions[OF assms(1)] assms(2,3) by simp
  then have "n = nat (ex_eventCursor r + 1)" "n \<le> ex_revision r"
    by (auto simp: upt_eq_Cons_conv simp del: upt_Suc dest!: sym[of "_ # _"])
  then show ?thesis using assms(1) by (auto simp: record_ok_def)
qed

lemma create_cases:
  assumes "create_execution project uuid now input wanted s = (s', res)"
  obtains (refused) e where "res = Inl e" "s' = s"
  | (known) r where "res = Inr r" "s' = s" "r \<in> set (map snd (ps_records s))" "same_request input r" "same_target input r"
  | (created) r t where "new_plan_execution uuid now input = Inr r" "res = Inr r" "s' = put_record (ex_id r) r t"
      "ps_records t = ps_records s" "\<forall>q \<in> set (map snd (ps_records s)). \<not> competes r q"
      "\<forall>q \<in> set (map snd (ps_records s)). \<not> same_request input q"
proof (cases "List.find (same_request input) (map snd (ps_records s))")
  case (Some q)
  then show ?thesis using assms refused known find_SomeD[OF Some]
    by (auto simp: create_execution_def split: if_splits)
next
  case None
  then have nr: "\<forall>q \<in> set (map snd (ps_records s)). \<not> same_request input q" by (simp add: find_None_iff)
  show ?thesis
  proof (cases "res")
    case (Inl e)
    then have "s' = s" using assms None
      by (auto simp: create_execution_def store_projected_def split: if_splits sum.splits)
    then show ?thesis using Inl refused by blast
  next
    case (Inr r)
    with assms None have r: "\<not> (\<exists>r \<in> set (map snd (ps_records s)). is_plan_execution_active r \<and>
               (ex_paneId r = ex_paneId input \<or> ex_planId r = ex_planId input))"
        "new_plan_execution uuid now input = Inr r" "store_projected project wanted (ex_id r) r s = (s', Inr r)"
      by (auto simp: create_execution_def store_projected_def split: if_splits sum.splits)
    from r(3) obtain t where t: "project_record project wanted r s = Inr t" "s' = put_record (ex_id r) r t"
      by (auto simp: store_projected_def split: sum.splits)
    have "ex_paneId r = ex_paneId input" "ex_planId r = ex_planId input" "ex_ownerUserId r = ex_ownerUserId input"
      "ex_requestId r = ex_requestId input" using r(2) by (auto simp: new_plan_execution_def plan_input.defs execution.defs split: if_splits)
    then show ?thesis using r t Inr nr created[of r t] project_recordD[OF t(1)]
      by (force simp: competes_def same_request_def)
  qed
qed

lemma new_execution_ok:
  "new_plan_execution uuid now input = Inr r \<Longrightarrow>
   ex_id r = ''plan_execution:'' @ uuid \<and> record_ok (ex_id r) r \<and> ex_revision r = 0 \<and> ex_lease r = None \<and> ex_status r = RUNNING"
  by (auto simp: new_plan_execution_def record_ok_def plan_input.defs execution.defs split: if_splits)

subsection \<open>Steps\<close>

text \<open>\<open>randomUUID\<close> never repeats: a new execution gets an id no record has.\<close>

fun plan_legal :: "int \<times> plan_op \<Rightarrow> plan_store \<Rightarrow> bool" where
  "plan_legal (now, Create uuid input projected) s = (plan_record (''plan_execution:'' @ uuid) s = None)"
| "plan_legal _ s = True"

inductive plan_reachable :: "projection \<Rightarrow> plan_store \<Rightarrow> bool" for project where
  plan_start: "plan_reachable project empty_plan_store"
| plan_next: "plan_reachable project s \<Longrightarrow> plan_legal x s \<Longrightarrow> plan_reachable project (plan_step project x s)"

definition evolves :: "projection \<Rightarrow> int \<times> plan_op \<Rightarrow> plan_store \<Rightarrow> string \<Rightarrow> execution \<Rightarrow> execution \<Rightarrow> bool" where
  "evolves project x s i r r' =
     (r' = r \<or>
      (\<exists>now p. r' = patched now p r \<and> \<not> resumes_finished p r \<and> plan_wins project x s = Some (i, ex_revision r)) \<or>
      (\<exists>l. r' = r\<lparr>ex_lease := Some l\<rparr> \<and>
         (\<forall>l0. ex_lease r = Some l0 \<longrightarrow> le_epoch l0 < le_epoch l \<or> (le_epoch l0 = le_epoch l \<and> le_owner l0 = le_owner l))) \<or>
      (\<exists>e es. plan_execution_events r = e # es \<and> r' = r\<lparr>ex_eventCursor := int (oe_revision (pe_entry e))\<rparr>))"

lemma evolves_same: "evolves project x s i r r"
  by (simp add: evolves_def)

lemma evolves_patched:
  "\<not> resumes_finished p r \<Longrightarrow> plan_wins project x s = Some (i, ex_revision r) \<Longrightarrow> evolves project x s i r (patched now p r)"
  unfolding evolves_def by blast

lemma evolves_lease:
  "\<forall>l0. ex_lease r = Some l0 \<longrightarrow> le_epoch l0 < le_epoch l \<or> (le_epoch l0 = le_epoch l \<and> le_owner l0 = le_owner l) \<Longrightarrow>
   evolves project x s i r (r\<lparr>ex_lease := Some l\<rparr>)"
  unfolding evolves_def by blast

lemma evolves_acknowledged:
  "plan_execution_events r = e # es \<Longrightarrow> n = int (oe_revision (pe_entry e)) \<Longrightarrow>
   evolves project x s i r (r\<lparr>ex_eventCursor := n\<rparr>)"
  unfolding evolves_def by blast

lemma update_evolves:
  assumes "plan_record k s = Some r"
  shows "\<exists>r'. plan_record k (plan_step project (now, Update owner i revision p lease wanted) s) = Some r' \<and>
    evolves project (now, Update owner i revision p lease wanted) s k r r'"
proof -
  obtain s' res where u: "update_execution project now owner i revision p lease wanted s = (s', res)" by fastforce
  then show ?thesis
  proof (cases rule: update_cases)
    case (done_ q t)
    show ?thesis
    proof (cases "k = i")
      case True
      then have q: "q = r" using assms done_ by simp
      have "plan_wins project (now, Update owner i revision p lease wanted) s = Some (k, ex_revision r)"
        using u done_(3,5) True q by simp
      then show ?thesis using True done_(4,6) u q evolves_patched by auto
    next
      case False
      then show ?thesis using assms done_(6) u evolves_same plan_record_same[OF done_(7), of k] by simp
    qed
  qed (use assms u evolves_same in auto)
qed

lemma claim_evolves:
  assumes "plan_record k s = Some r"
  shows "\<exists>r'. plan_record k (plan_step project (now, Claim i owner d) s) = Some r' \<and>
    evolves project (now, Claim i owner d) s k r r'"
proof -
  obtain s' res where c: "claim_execution i owner now d s = (s', res)" by fastforce
  then show ?thesis
  proof (cases rule: claim_cases)
    case (granted q epoch)
    show ?thesis
    proof (cases "k = i")
      case True
      then have q: "q = r" using assms granted by simp
      have "\<forall>l0. ex_lease r = Some l0 \<longrightarrow> le_epoch l0 < epoch \<or> (le_epoch l0 = epoch \<and> le_owner l0 = owner)"
        using granted(5) q by blast
      then show ?thesis using True granted(4) c q by (auto intro!: evolves_lease)
    qed (use assms granted c evolves_same in auto)
  qed (use assms c evolves_same in auto)
qed

lemma release_evolves:
  assumes "plan_record k s = Some r"
  shows "\<exists>r'. plan_record k (plan_step project (now, Release i lease) s) = Some r' \<and>
    evolves project (now, Release i lease) s k r r'"
proof (cases i lease s rule: release_cases)
  case (released q l)
  show ?thesis
  proof (cases "k = i")
    case True
    then have q: "q = r" using assms released by simp
    then show ?thesis using True released(2,5) by (auto intro!: evolves_lease)
  qed (use assms released evolves_same in auto)
qed (use assms evolves_same in auto)

lemma acknowledge_evolves:
  assumes "plan_record k s = Some r"
  shows "\<exists>r'. plan_record k (plan_step project (now, Acknowledge i revision) s) = Some r' \<and>
    evolves project (now, Acknowledge i revision) s k r r'"
proof -
  obtain s' res where a: "acknowledge_event i revision s = (s', res)" by fastforce
  then show ?thesis
  proof (cases rule: acknowledge_cases)
    case (acknowledged q e es)
    show ?thesis
    proof (cases "k = i")
      case True
      then have q: "q = r" using assms acknowledged by simp
      then show ?thesis using True acknowledged(3,4,5) a by (auto intro!: evolves_acknowledged)
    qed (use assms acknowledged a evolves_same in auto)
  qed (use assms a evolves_same in auto)
qed

lemma project_current_records:
  "ps_records (fst (project_current project owner i revision s)) = ps_records s"
  by (auto simp: project_current_def dest: project_recordD split: option.splits sum.splits)

lemma plan_step_evolves:
  assumes "plan_legal x s" "plan_record k s = Some r"
  shows "\<exists>r'. plan_record k (plan_step project x s) = Some r' \<and> evolves project x s k r r'"
proof -
  obtain now a where x: "x = (now, a)" by fastforce
  show ?thesis
  proof (cases a)
    case (Create uuid input wanted)
    obtain s' res where c: "create_execution project uuid now input wanted s = (s', res)" by fastforce
    then have "plan_record k s' = Some r"
    proof (cases rule: create_cases)
      case (created q t)
      have "plan_record (ex_id q) s = None"
        using assms(1) x Create new_execution_ok[OF created(1)] by simp
      then show ?thesis using assms(2) created(3) plan_record_same[OF created(4), of k] by auto
    qed (use assms(2) in simp_all)
    then show ?thesis using x Create c evolves_same by auto
  next
    case (Project owner i revision)
    then show ?thesis
      using assms x evolves_same plan_record_same[OF project_current_records] by auto
  next
    case Update
    show ?thesis unfolding x Update by (rule update_evolves[OF assms(2)])
  next
    case Claim
    show ?thesis unfolding x Claim by (rule claim_evolves[OF assms(2)])
  next
    case Release
    show ?thesis unfolding x Release by (rule release_evolves[OF assms(2)])
  next
    case Acknowledge
    show ?thesis unfolding x Acknowledge by (rule acknowledge_evolves[OF assms(2)])
  qed
qed

lemma evolves_cases:
  assumes "evolves project x s i r r'"
  obtains (same) "r' = r"
  | (patch) now p where "r' = patched now p r" "\<not> resumes_finished p r" "plan_wins project x s = Some (i, ex_revision r)"
  | (lease) l where "r' = r\<lparr>ex_lease := Some l\<rparr>"
      "\<forall>l0. ex_lease r = Some l0 \<longrightarrow> le_epoch l0 < le_epoch l \<or> (le_epoch l0 = le_epoch l \<and> le_owner l0 = le_owner l)"
  | (ack) e es where "plan_execution_events r = e # es" "r' = r\<lparr>ex_eventCursor := int (oe_revision (pe_entry e))\<rparr>"
  using assms unfolding evolves_def by blast

lemma successor_fields: "successor r r" "successor r (r\<lparr>ex_lease := l\<rparr>)" "successor r (r\<lparr>ex_eventCursor := n\<rparr>)"
  by (simp_all add: successor_def is_plan_execution_active_def plan_input.truncate_def)

lemma record_ok_lease: "record_ok i (r\<lparr>ex_lease := l\<rparr>) = record_ok i r"
  by (simp add: record_ok_def)

lemma evolves_record_ok:
  assumes "evolves project x s i r r'" "record_ok i r"
  shows "record_ok i r'"
  using assms(1)
proof (cases rule: evolves_cases)
  case (ack e es)
  show ?thesis unfolding ack(2) using acknowledged_ok[OF assms(2) ack(1) refl] by blast
qed (use assms(2) in \<open>simp_all add: record_ok_patched record_ok_lease\<close>)

lemma evolves_successor: "evolves project x s i r r' \<Longrightarrow> successor r r'"
  by (cases rule: evolves_cases) (auto simp: successor_patched successor_fields)

lemma evolves_revision:
  assumes "evolves project x s i r r'"
  shows "ex_revision r' = ex_revision r \<or>
    (ex_revision r' = Suc (ex_revision r) \<and> plan_wins project x s = Some (i, ex_revision r))"
  using assms by (cases rule: evolves_cases) simp_all

lemma evolves_finished:
  assumes "evolves project x s i r r'" "\<not> is_plan_execution_active r"
  shows "ex_status r' = ex_status r"
  using assms(1) by (cases rule: evolves_cases) (use assms(2) in \<open>auto simp: resumes_finished_def split: option.splits\<close>)

text \<open>A record that appears is a new execution, which competes with no older one.\<close>

lemma plan_step_new:
  assumes "plan_legal x s" "plan_inv s" "plan_record k s = None" "plan_record k (plan_step project x s) = Some r"
  shows "record_ok k r \<and> (\<forall>j q. plan_record j s = Some q \<longrightarrow> \<not> competes r q) \<and>
    (\<forall>j. j \<noteq> k \<longrightarrow> plan_record j (plan_step project x s) = plan_record j s)"
proof -
  obtain now a where x: "x = (now, a)" by fastforce
  show ?thesis
  proof (cases a)
    case (Create uuid input wanted)
    obtain s' res where c: "create_execution project uuid now input wanted s = (s', res)" by fastforce
    then show ?thesis
    proof (cases rule: create_cases)
      case (created q t)
      have recs: "plan_record j t = plan_record j s" for j by (rule plan_record_same[OF created(4)])
      have "ex_id q = k" "q = r" using assms(3,4) x Create c created(3) recs by (auto split: if_splits)
      moreover have "\<not> competes r p" if "plan_record j s = Some p" for j p
        using created(5) in_records[of s p] assms(2) that \<open>q = r\<close> by (auto simp: plan_inv_def)
      ultimately show ?thesis using x Create c created(3) recs new_execution_ok[OF created(1)] by auto
    qed (use assms(3,4) x Create c in auto)
  next
    case (Update owner i revision p lease wanted)
    obtain s' res where u: "update_execution project now owner i revision p lease wanted s = (s', res)" by fastforce
    then have "plan_record k s' = None"
    proof (cases rule: update_cases)
      case (done_ q t)
      then show ?thesis using assms(3) plan_record_same[OF done_(7), of k] by auto
    qed (use assms(3) in simp)
    then show ?thesis using assms(4) x Update u by simp
  next
    case (Claim i owner d)
    obtain s' res where c: "claim_execution i owner now d s = (s', res)" by fastforce
    then have "plan_record k s' = None" by (cases rule: claim_cases) (use assms(3) in auto)
    then show ?thesis using assms(4) x Claim c by simp
  next
    case (Release i lease)
    have "plan_record k (release_execution i lease s) = None"
      by (cases i lease s rule: release_cases) (use assms(3) in auto)
    then show ?thesis using assms(4) x Release by simp
  next
    case (Acknowledge i revision)
    obtain s' res where c: "acknowledge_event i revision s = (s', res)" by fastforce
    then have "plan_record k s' = None" by (cases rule: acknowledge_cases) (use assms(3) in auto)
    then show ?thesis using assms(4) x Acknowledge c by simp
  next
    case Project
    then show ?thesis using assms(3,4) x plan_record_same[OF project_current_records] by simp
  qed
qed

lemma step_distinct: "distinct (map fst (ps_records s)) \<Longrightarrow> distinct (map fst (ps_records (plan_step project x s)))"
proof -
  assume d: "distinct (map fst (ps_records s))"
  obtain now a where x: "x = (now, a)" by fastforce
  show ?thesis
  proof (cases a)
    case (Create uuid input wanted)
    obtain s' res where c: "create_execution project uuid now input wanted s = (s', res)" by fastforce
    then have "distinct (map fst (ps_records s'))" by (cases rule: create_cases) (use d in \<open>simp_all add: records_put\<close>)
    then show ?thesis using x Create c by simp
  next
    case (Update owner i revision p lease wanted)
    obtain s' res where c: "update_execution project now owner i revision p lease wanted s = (s', res)" by fastforce
    then have "distinct (map fst (ps_records s'))" by (cases rule: update_cases) (use d in \<open>simp_all add: records_put\<close>)
    then show ?thesis using x Update c by simp
  next
    case (Claim i owner d')
    obtain s' res where c: "claim_execution i owner now d' s = (s', res)" by fastforce
    then have "distinct (map fst (ps_records s'))" by (cases rule: claim_cases) (use d in \<open>simp_all add: records_put\<close>)
    then show ?thesis using x Claim c by simp
  next
    case (Release i lease)
    then show ?thesis using x d by (cases i lease s rule: release_cases) (simp_all add: records_put)
  next
    case (Acknowledge i revision)
    obtain s' res where c: "acknowledge_event i revision s = (s', res)" by fastforce
    then have "distinct (map fst (ps_records s'))" by (cases rule: acknowledge_cases) (use d in \<open>simp_all add: records_put\<close>)
    then show ?thesis using x Acknowledge c by simp
  next
    case Project
    then show ?thesis using d x project_current_records by simp
  qed
qed

lemma competes_sym: "competes r q \<Longrightarrow> competes q r"
  by (auto simp: competes_def)

lemma successor_competes: "successor r r' \<Longrightarrow> successor q q' \<Longrightarrow> competes r' q' \<Longrightarrow> competes r q"
  by (auto simp: competes_def successor_def dest!: same_inputD)

lemma old_or_new:
  assumes "plan_legal x s" "plan_record k (plan_step project x s) = Some r'"
  obtains (old) r where "plan_record k s = Some r" "evolves project x s k r r'" | (fresh) "plan_record k s = None"
proof (cases "plan_record k s")
  case (Some r)
  from plan_step_evolves[OF assms(1) Some, of project] assms(2) show ?thesis using old[OF Some] by auto
qed (use fresh in blast)

lemma plan_inv_step [inv_intros]:
  assumes "plan_inv s" "plan_legal x s"
  shows "plan_inv (plan_step project x s)"
  unfolding plan_inv_def
proof (intro conjI allI impI)
  show "distinct (map fst (ps_records (plan_step project x s)))"
    using assms(1) by (intro step_distinct) (simp add: plan_inv_def)
next
  fix k r assume r: "plan_record k (plan_step project x s) = Some r"
  from assms(2) r show "record_ok k r"
  proof (cases rule: old_or_new)
    case (old r0)
    then have "record_ok k r0" using assms(1) by (simp add: plan_inv_def)
    then show ?thesis by (rule evolves_record_ok[OF old(2)])
  next
    case fresh
    show ?thesis using plan_step_new[OF assms(2,1) fresh r] by blast
  qed
next
  fix i j r q
  assume r: "plan_record i (plan_step project x s) = Some r" and q: "plan_record j (plan_step project x s) = Some q"
    and c: "competes r q"
  show "i = j"
  proof (rule ccontr)
    assume ij: "i \<noteq> j"
    from assms(2) r show False
    proof (cases rule: old_or_new)
      case r0: (old r0)
      from assms(2) q show False
      proof (cases rule: old_or_new)
        case q0: (old q0)
        then have "competes r0 q0" using c r0(2) evolves_successor successor_competes by blast
        then show False using assms(1) r0(1) q0(1) ij by (auto simp: plan_inv_def)
      next
        case fresh
        from plan_step_new[OF assms(2,1) fresh q] show False using r c ij competes_sym by metis
      qed
    next
      case fresh
      from plan_step_new[OF assms(2,1) fresh r] show False using q c ij by metis
    qed
  qed
qed

lemma plan_inv_empty: "plan_inv empty_plan_store"
  by (simp add: plan_inv_def empty_plan_store_def plan_record_def)

lemma plan_reachable_inv: "plan_reachable project s \<Longrightarrow> plan_inv s"
  by (induction rule: plan_reachable.induct) (auto intro: plan_inv_empty plan_inv_step)

subsection \<open>The repository as a versioned store and a lease service\<close>

definition plan_version :: "string \<Rightarrow> plan_store \<Rightarrow> nat option" where
  "plan_version i s = map_option ex_revision (plan_record i s)"

definition lease_holder :: "execution \<Rightarrow> (string \<times> nat) option" where
  "lease_holder r = map_option (\<lambda>l. (le_owner l, le_epoch l)) (ex_lease r)"

definition plan_holder :: "string \<Rightarrow> plan_store \<Rightarrow> (string \<times> nat) option" where
  "plan_holder i s = (case plan_record i s of None \<Rightarrow> None | Some r \<Rightarrow> lease_holder r)"

lemma wins_replaces_revision:
  assumes "plan_wins project x s = Some (k, n)"
  shows "plan_version k s = Some n \<and> plan_version k (plan_step project x s) = Some (Suc n)"
proof -
  obtain now owner p lease wanted where x: "x = (now, Update owner k n p lease wanted)"
    using assms by (cases "(project, x, s)" rule: plan_wins.cases) (auto split: sum.splits)
  obtain s' res where u: "update_execution project now owner k n p lease wanted s = (s', res)" by fastforce
  then show ?thesis
    by (cases rule: update_cases) (use assms x u in \<open>auto simp: plan_version_def\<close>)
qed

interpretation revisions: versioned_store plan_version plan_legal "plan_step project" "plan_wins project" for project
proof
  fix x s k n assume l: "plan_legal x s" and "plan_version k s = Some n"
  then obtain r where r: "plan_record k s = Some r" "ex_revision r = n" by (auto simp: plan_version_def)
  from plan_step_evolves[OF l r(1), of project] obtain r' where
    "plan_record k (plan_step project x s) = Some r'" "evolves project x s k r r'" by blast
  then show "\<exists>m \<ge> n. plan_version k (plan_step project x s) = Some m"
    using evolves_revision[of project x s k r r'] r(2) by (auto simp: plan_version_def)
qed (rule wins_replaces_revision)

lemma evolves_holder:
  assumes "evolves project x s i r r'" "lease_holder r = Some (w, e)"
  shows "\<exists>w' e'. lease_holder r' = Some (w', e') \<and> (e < e' \<or> e' = e \<and> w' = w)"
  using assms(1) by (cases rule: evolves_cases) (use assms(2) in \<open>auto simp: lease_holder_def\<close>)

interpretation leases: lease_service plan_holder plan_legal "plan_step project" for project
proof
  fix x s k w e assume l: "plan_legal x s" and "plan_holder k s = Some (w, e)"
  then obtain r where r: "plan_record k s = Some r" "lease_holder r = Some (w, e)"
    by (auto simp: plan_holder_def split: option.splits)
  from plan_step_evolves[OF l r(1), of project] obtain r' where
    "plan_record k (plan_step project x s) = Some r'" "evolves project x s k r r'" by blast
  then show "\<exists>w' e'. plan_holder k (plan_step project x s) = Some (w', e') \<and> (e < e' \<or> e' = e \<and> w' = w)"
    using evolves_holder[OF _ r(2)] by (simp add: plan_holder_def)
qed

subsection \<open>Properties\<close>

lemma reachable_run:
  "plan_reachable project s \<Longrightarrow> legal_run plan_legal (plan_step project) ops s \<Longrightarrow>
   plan_reachable project (fold (plan_step project) ops s)"
  by (induction ops arbitrary: s) (auto intro: plan_next)

lemma run_successor:
  "plan_record i s = Some r \<Longrightarrow> legal_run plan_legal (plan_step project) ops s \<Longrightarrow>
   \<exists>r'. plan_record i (fold (plan_step project) ops s) = Some r' \<and> successor r r' \<and> (ex_id r = i \<longrightarrow> ex_id r' = i) \<and>
     (\<not> is_plan_execution_active r \<longrightarrow> ex_status r' = ex_status r)"
proof (induction ops arbitrary: s r)
  case (Cons x ops)
  then obtain r1 where r1: "plan_record i (plan_step project x s) = Some r1" "evolves project x s i r r1"
    using plan_step_evolves[of x s i r project] by auto
  have ids: "ex_id r1 = ex_id r" using r1(2) by (cases rule: evolves_cases) simp_all
  obtain r' where r': "plan_record i (fold (plan_step project) ops (plan_step project x s)) = Some r'" "successor r1 r'"
      "ex_id r1 = i \<longrightarrow> ex_id r' = i" "\<not> is_plan_execution_active r1 \<longrightarrow> ex_status r' = ex_status r1"
    using Cons.IH[OF r1(1)] Cons.prems(2) by auto
  moreover have s1: "successor r r1" using r1(2) by (rule evolves_successor)
  ultimately have "successor r r'" by (simp add: successor_def)
  moreover have "ex_status r' = ex_status r" if "\<not> is_plan_execution_active r"
    using r'(4) evolves_finished[OF r1(2) that] that by (auto simp: is_plan_execution_active_def)
  ultimately show ?case using r' ids by auto
qed (auto simp: successor_fields)

definition demo_stage :: plan_stage where
  "demo_stage = \<lparr>sg_id = ''s1'', sg_order = 1, sg_title = ''Build'', sg_instructions = ''Build it.'',
     sg_completionCriteria = [''It builds''], sg_modelId = ''m'', sg_reasoningEffort = ''high''\<rparr>"

definition demo_input :: plan_input where
  "demo_input = \<lparr>ex_ownerUserId = ''u'', ex_planId = ''p'', ex_paneId = ''pane'', ex_sessionId = ''s'',
     ex_threadId = ''t'', ex_cwd = ''/w'', ex_requestId = ''r1'',
     ex_snapshot = \<lparr>sn_text = ''text'', sn_title = None, sn_stages = [demo_stage]\<rparr>\<rparr>"

definition demo_plans :: plan_store where
  "demo_plans = plan_step None (10, Create ''x'' demo_input False) empty_plan_store"

lemma demo_plans_reachable: "plan_reachable None demo_plans"
  unfolding demo_plans_def by (intro plan_next plan_start) code_simp

text \<open>
  C7. A pane and a plan have at most one active execution. In every state the repository can reach,
  two active executions of the same pane, or of the same plan, are the same one, and \<open>findForPane\<close>
  returns the active execution of its pane whatever older ones there are.
\<close>

theorem one_active_execution:
  assumes "plan_reachable project s" "r \<in> set (list_active s)"
  shows "(q \<in> set (list_active s) \<and> (ex_paneId q = ex_paneId r \<or> ex_planId q = ex_planId r) \<longrightarrow> q = r) \<and>
    find_for_pane (ex_ownerUserId r) (ex_paneId r) s = Some r"
proof -
  have inv: "plan_inv s" using assms(1) by (rule plan_reachable_inv)
  then have recs: "x \<in> set (map snd (ps_records s)) \<longleftrightarrow> (\<exists>i. plan_record i s = Some x)" for x
    by (intro in_records) (simp add: plan_inv_def)
  have uniq: "q = r" if "q \<in> set (map snd (ps_records s))" "is_plan_execution_active q"
      "ex_paneId q = ex_paneId r \<or> ex_planId q = ex_planId r" for q
  proof -
    from that(1) assms(2) obtain i j where "plan_record i s = Some q" "plan_record j s = Some r"
      using recs by (auto simp: list_active_def)
    moreover have "competes q r" using that assms(2) by (auto simp: competes_def list_active_def)
    ultimately show ?thesis using inv unfolding plan_inv_def by (metis option.inject)
  qed
  let ?rs = "sort_key (\<lambda>r. - ex_createdAt r)
    (filter (\<lambda>q. ex_ownerUserId q = ex_ownerUserId r \<and> ex_paneId q = ex_paneId r) (map snd (ps_records s)))"
  have "r \<in> set ?rs" "is_plan_execution_active r" using assms(2) by (auto simp: list_active_def)
  then obtain f where f: "List.find is_plan_execution_active ?rs = Some f" by (cases "List.find is_plan_execution_active ?rs")
      (auto simp: find_None_iff)
  then have "f = r" using find_SomeD[OF f] uniq[of f] by auto
  then show ?thesis using f uniq by (auto simp: find_for_pane_def Let_def list_active_def)
qed

theorem one_active_execution_witness:
  "map ex_paneId (list_active demo_plans) = [''pane''] \<and>
   map_option ex_paneId (find_for_pane ''u'' ''pane'' demo_plans) = Some ''pane''"
proof -
  have l: "list_active demo_plans \<noteq> []" "map ex_paneId (list_active demo_plans) = [''pane'']"
    "map ex_ownerUserId (list_active demo_plans) = [''u'']" by code_simp+
  then have "hd (list_active demo_plans) \<in> set (list_active demo_plans)" "ex_ownerUserId (hd (list_active demo_plans)) = ''u''"
    "ex_paneId (hd (list_active demo_plans)) = ''pane''" by (cases "list_active demo_plans"; simp)+
  then show ?thesis using one_active_execution[OF demo_plans_reachable] l(2) by fastforce
qed

text \<open>
  C10. No update is lost. Among all calls of any sequence of operations, each revision of an execution
  is replaced at most once, so of several writers that read the same revision one wins; and a call that
  succeeds is its patch applied to exactly the record it read, while a call that fails changes nothing.
\<close>

theorem no_lost_update:
  assumes "legal_run plan_legal (plan_step project) ops s"
  shows "distinct (won (plan_step project) (plan_wins project) ops s) \<and>
    (case update_execution project now owner i revision p lease wanted s of
       (s', Inl e) \<Rightarrow> s' = s
     | (s', Inr r') \<Rightarrow> \<exists>r. plan_record i s = Some r \<and> ex_revision r = revision \<and> r' = patched now p r \<and>
         plan_record i s' = Some r' \<and> (\<forall>j. j \<noteq> i \<longrightarrow> plan_record j s' = plan_record j s))"
proof -
  obtain s' res where u: "update_execution project now owner i revision p lease wanted s = (s', res)" by fastforce
  then have "case res of Inl e \<Rightarrow> s' = s
     | Inr r' \<Rightarrow> \<exists>r. plan_record i s = Some r \<and> ex_revision r = revision \<and> r' = patched now p r \<and>
         plan_record i s' = Some r' \<and> (\<forall>j. j \<noteq> i \<longrightarrow> plan_record j s' = plan_record j s)"
  proof (cases rule: update_cases)
    case (done_ r t)
    then show ?thesis using plan_record_same[OF done_(7)] by simp
  qed simp
  then show ?thesis using revisions.each_version_replaced_once[OF assms] u by (simp split: sum.splits)
qed

theorem no_lost_update_witness:
  "won (plan_step None) (plan_wins None)
     [(20, Update ''u'' ''plan_execution:x'' 0 no_patch None False), (21, Update ''u'' ''plan_execution:x'' 0 no_patch None False),
      (22, Update ''u'' ''plan_execution:x'' 1 no_patch None False)] demo_plans
   = [(''plan_execution:x'', 0), (''plan_execution:x'', 1)] \<and>
   distinct [(''plan_execution:x'', 0 :: nat), (''plan_execution:x'', 1)]"
proof -
  let ?ops = "[(20, Update ''u'' ''plan_execution:x'' 0 no_patch None False), (21, Update ''u'' ''plan_execution:x'' 0 no_patch None False),
      (22, Update ''u'' ''plan_execution:x'' 1 no_patch None False)]"
  have "won (plan_step None) (plan_wins None) ?ops demo_plans = [(''plan_execution:x'', 0), (''plan_execution:x'', 1)]"
    by code_simp
  moreover have l: "legal_run plan_legal (plan_step None) ?ops demo_plans" by simp
  moreover note no_lost_update[OF l, THEN conjunct1]
  ultimately show ?thesis by simp
qed

text \<open>
  The outbox is complete and in order. In every reachable state the events still to publish for an
  execution are exactly the revisions after the last acknowledged one, in order and without a gap;
  acknowledging the first of them moves on by one, repeating an old acknowledgment changes nothing, and
  anything else is refused, so every revision is published, none before its predecessor.
\<close>

theorem outbox_in_order:
  assumes "plan_reachable project s" "plan_record i s = Some r"
  shows "map (\<lambda>e. oe_revision (pe_entry e)) (plan_execution_events r) = [nat (ex_eventCursor r + 1)..<Suc (ex_revision r)] \<and>
    acknowledge_event i n s =
      (if int n \<le> ex_eventCursor r then (s, Inr ())
       else if int n = ex_eventCursor r + 1 \<and> n \<le> ex_revision r
         then (put_record i (r\<lparr>ex_eventCursor := int n\<rparr>) s, Inr ())
         else (s, Inl OutOfOrderAck))"
proof -
  have ok: "record_ok i r" using plan_reachable_inv[OF assms(1)] assms(2) by (simp add: plan_inv_def)
  let ?c = "nat (ex_eventCursor r + 1)"
  note p = pending_revisions[OF ok]
  have c: "- 1 \<le> ex_eventCursor r" using ok by (simp add: record_ok_def)
  have "acknowledge_event i n s =
      (if int n \<le> ex_eventCursor r then (s, Inr ())
       else if int n = ex_eventCursor r + 1 \<and> n \<le> ex_revision r
         then (put_record i (r\<lparr>ex_eventCursor := int n\<rparr>) s, Inr ())
         else (s, Inl OutOfOrderAck))"
  proof (cases "plan_execution_events r")
    case Nil
    then have "ex_revision r < ?c" using p by (simp split: if_splits)
    then show ?thesis using assms(2) Nil c by (auto simp: acknowledge_event_def)
  next
    case (Cons e es)
    then have e: "int (oe_revision (pe_entry e)) = ex_eventCursor r + 1" "?c \<le> ex_revision r"
      using acknowledged_ok[OF ok Cons refl] p by (auto simp del: upt_Suc simp: upt_eq_Cons_conv dest!: sym[of "_ # _"])
    then have "oe_revision (pe_entry e) = n \<longleftrightarrow> int n = ex_eventCursor r + 1" by linarith
    then show ?thesis using assms(2) Cons e c by (auto simp: acknowledge_event_def)
  qed
  with p show ?thesis by simp
qed

theorem outbox_in_order_witness:
  "snd (acknowledge_event ''plan_execution:x'' 0 demo_plans) = Inr () \<and>
   snd (acknowledge_event ''plan_execution:x'' 1 demo_plans) = Inl OutOfOrderAck"
proof -
  obtain r where r: "plan_record ''plan_execution:x'' demo_plans = Some r" "ex_eventCursor r = - 1" "ex_revision r = 0"
  proof -
    have "map_option (\<lambda>r. (ex_eventCursor r, ex_revision r)) (plan_record ''plan_execution:x'' demo_plans) = Some (- 1, 0)"
      by code_simp
    then show ?thesis using that by auto
  qed
  from outbox_in_order[OF demo_plans_reachable r(1), of 0] outbox_in_order[OF demo_plans_reachable r(1), of 1] r(2,3)
  show ?thesis by simp
qed

text \<open>
  A superseded controller cannot write. Once another worker claimed an execution, an update under
  the lease held before it is refused, now and after any further operations, whatever its revision.
\<close>

theorem superseded_lease_fenced:
  assumes "plan_holder i s = Some (le_owner l, le_epoch l)" "claim_execution i w now d s = (s', Some r)"
    and "w \<noteq> le_owner l" "legal_run plan_legal (plan_step project) ops s'"
  shows "\<exists>e. update_execution project later owner i revision p (Some l) wanted (fold (plan_step project) ops s')
    = (fold (plan_step project) ops s', Inl e)"
proof -
  obtain q epoch where q: "plan_record i s = Some q" "r = q\<lparr>ex_lease := Some \<lparr>le_owner = w, le_epoch = epoch, le_expiresAt = now + d\<rparr>\<rparr>"
      "s' = put_record i r s" "\<forall>l. ex_lease q = Some l \<longrightarrow> le_epoch l < epoch \<or>
         (le_epoch l = epoch \<and> le_owner l = w \<and> now < le_expiresAt l)"
    using assms(2)
  proof (cases rule: claim_cases)
    case (granted q e)
    from granted(3) have "r = q\<lparr>ex_lease := Some \<lparr>le_owner = w, le_epoch = e, le_expiresAt = now + d\<rparr>\<rparr>" by simp
    then show ?thesis using that[of q e] granted(1,4,5) by simp
  qed simp
  have "le_epoch l < epoch" using assms(1,3) q(1,4) by (auto simp: plan_holder_def lease_holder_def)
  moreover have "plan_holder i s' = Some (w, epoch)" using q(2,3) by (simp add: plan_holder_def lease_holder_def)
  ultimately have gone: "plan_holder i (fold (plan_step project) ops s') \<noteq> Some (le_owner l, le_epoch l)"
    using leases.old_holder_gone[OF assms(4)] by blast
  obtain t res where u: "update_execution project later owner i revision p (Some l) wanted (fold (plan_step project) ops s') = (t, res)"
    by fastforce
  then show ?thesis
  proof (cases rule: update_cases)
    case (done_ x y)
    then show ?thesis using gone by (auto simp: stale_lease_def plan_holder_def lease_holder_def split: option.splits)
  qed (use u in simp)
qed

theorem superseded_lease_fenced_witness:
  "\<exists>e. snd (update_execution None 200 ''u'' ''plan_execution:x'' 0 no_patch (Some \<lparr>le_owner = ''w1'', le_epoch = 1, le_expiresAt = 150\<rparr>) False
     (fst (claim_execution ''plan_execution:x'' ''w2'' 160 100 (fst (claim_execution ''plan_execution:x'' ''w1'' 50 100 demo_plans))))) = Inl e"
proof -
  let ?l = "\<lparr>le_owner = ''w1'', le_epoch = 1, le_expiresAt = 150\<rparr>"
  let ?s = "fst (claim_execution ''plan_execution:x'' ''w1'' 50 100 demo_plans)"
  have h: "plan_holder ''plan_execution:x'' ?s = Some (le_owner ?l, le_epoch ?l)" by code_simp
  obtain t r where c: "claim_execution ''plan_execution:x'' ''w2'' 160 100 ?s = (t, Some r)"
  proof -
    have "snd (claim_execution ''plan_execution:x'' ''w2'' 160 100 ?s) \<noteq> None" by code_simp
    then show ?thesis using that by (metis not_None_eq prod.collapse)
  qed
  have w: "''w2'' \<noteq> le_owner ?l" by simp
  have r: "legal_run plan_legal (plan_step None) [] t" by simp
  show ?thesis using superseded_lease_fenced[OF h c w r, where later = 200 and owner = "''u''" and revision = 0
      and p = no_patch and wanted = False] c by auto
qed

text \<open>What other workers may do to a lease: everything but claim as its owner or release it.\<close>

fun by_others :: "plan_lease \<Rightarrow> int \<times> plan_op \<Rightarrow> bool" where
  "by_others l (now, Claim i owner d) = (now < le_expiresAt l \<and> owner \<noteq> le_owner l)"
| "by_others l (now, Release i lease) = (le_owner lease \<noteq> le_owner l \<or> le_epoch lease \<noteq> le_epoch l)"
| "by_others l (now, op) = True"

lemma lease_kept_step:
  assumes "plan_legal x s" "plan_record i s = Some r" "ex_lease r = Some l" "by_others l x"
  shows "\<exists>r'. plan_record i (plan_step project x s) = Some r' \<and> ex_lease r' = Some l"
proof -
  obtain now a where x: "x = (now, a)" by fastforce
  consider (claim) j owner d where "a = Claim j owner d" | (release) j lease where "a = Release j lease"
    | (ack) j n where "a = Acknowledge j n" | (other) "\<forall>j owner d lease n. a \<noteq> Claim j owner d \<and> a \<noteq> Release j lease \<and> a \<noteq> Acknowledge j n"
    by blast
  then show ?thesis
  proof cases
    case claim
    obtain s' res where c: "claim_execution j owner now d s = (s', res)" by fastforce
    then have "plan_record i s' = Some r"
    proof (cases rule: claim_cases)
      case (granted q epoch)
      then show ?thesis using assms(2-4) x claim by (cases "i = j") auto
    qed (use assms(2) in simp)
    then show ?thesis using assms(3) c x claim by simp
  next
    case release
    have "plan_record i (release_execution j lease s) = Some r"
      by (cases j lease s rule: release_cases) (use assms(2-4) x release in auto)
    then show ?thesis using assms(3) x release by simp
  next
    case ack
    obtain s' res where c: "acknowledge_event j n s = (s', res)" by fastforce
    then show ?thesis
    proof (cases rule: acknowledge_cases)
      case (acknowledged q e es)
      then show ?thesis using assms(2,3) x ack c by (cases "i = j") auto
    qed (use assms(2,3) x ack c in simp)
  next
    case other
    from plan_step_evolves[OF assms(1,2), of project] obtain r' where
      r': "plan_record i (plan_step project x s) = Some r'" "evolves project x s i r r'" by blast
    have "ex_lease r' = Some l"
    proof (cases a)
      case (Update owner j revision p lease wanted)
      obtain s' res where u: "update_execution project now owner j revision p lease wanted s = (s', res)" by fastforce
      then show ?thesis
      proof (cases rule: update_cases)
        case (done_ q t)
        then show ?thesis using r'(1) assms(2,3) x Update u plan_record_same[OF done_(7), of i] by (cases "i = j") auto
      qed (use r'(1) assms(2,3) x Update u in simp)
    next
      case (Create uuid input wanted)
      obtain s' res where u: "create_execution project uuid now input wanted s = (s', res)" by fastforce
      then show ?thesis
      proof (cases rule: create_cases)
        case (created q t)
        have "plan_record (ex_id q) s = None" using assms(1) x Create new_execution_ok[OF created(1)] by simp
        then show ?thesis using r'(1) assms(2,3) x Create u created(3) plan_record_same[OF created(4), of i]
          by (cases "i = ex_id q") auto
      qed (use r'(1) assms(2,3) x Create u in simp_all)
    next
      case Project
      then show ?thesis using r'(1) assms(2,3) x plan_record_same[OF project_current_records] by simp
    qed (use other in blast)+
    then show ?thesis using r'(1) by blast
  qed
qed

lemma lease_kept_run:
  "legal_run plan_legal (plan_step project) ops s \<Longrightarrow> plan_record i s = Some r \<Longrightarrow> ex_lease r = Some l \<Longrightarrow>
   list_all (by_others l) ops \<Longrightarrow>
   \<exists>r'. plan_record i (fold (plan_step project) ops s) = Some r' \<and> ex_lease r' = Some l"
proof (induction ops arbitrary: s r)
  case (Cons x ops)
  then obtain r1 where "plan_record i (plan_step project x s) = Some r1" "ex_lease r1 = Some l"
    using lease_kept_step[of x s i r l project] by auto
  then show ?case using Cons.IH[of "plan_step project x s" r1] Cons.prems by simp
qed auto

text \<open>
  A running lease excludes every other worker. From a granted claim until its expiry, whatever the
  others do (updates, claims, releases, acknowledgments), a claim by another worker is refused, and the
  holder's own updates are never refused for their lease.
\<close>

theorem running_lease_exclusive:
  assumes "claim_execution i w now d s = (s', Some r)" "ex_lease r = Some l"
    and "legal_run plan_legal (plan_step project) ops s'" "list_all (by_others l) ops"
    and "later < le_expiresAt l" "w' \<noteq> w" "t = fold (plan_step project) ops s'"
  shows "claim_execution i w' later d' t = (t, None) \<and>
    snd (update_execution project later owner i revision p (Some l) wanted t) \<noteq> Inl StaleLease"
proof -
  obtain q where q: "s' = put_record i r s" "le_owner l = w"
    using assms(1,2) by (cases rule: claim_cases) auto
  obtain r' where r': "plan_record i t = Some r'" "ex_lease r' = Some l"
    using lease_kept_run[OF assms(3) _ assms(2,4), of i] q(1) assms(7) by auto
  have "lease_running r' later = Some l" using r'(2) assms(5) by (simp add: lease_running_def)
  then have "claim_execution i w' later d' t = (t, None)"
    using r'(1) q(2) assms(6) by (simp add: claim_execution_def)
  moreover have "\<not> stale_lease later r' l" using r'(2) assms(5) by (simp add: stale_lease_def)
  then have "snd (update_execution project later owner i revision p (Some l) wanted t) \<noteq> Inl StaleLease"
    using r'(1) by (simp add: update_execution_def apply_plan_execution_patch_def store_projected_def
        project_record_def split: option.split)
  ultimately show ?thesis by blast
qed

theorem running_lease_exclusive_witness:
  "snd (claim_execution ''plan_execution:x'' ''w2'' 100 50
     (plan_step None (60, Update ''u'' ''plan_execution:x'' 0 no_patch None False)
       (fst (claim_execution ''plan_execution:x'' ''w1'' 50 100 demo_plans)))) = None"
proof -
  obtain s' r where c: "claim_execution ''plan_execution:x'' ''w1'' 50 100 demo_plans = (s', Some r)"
    and l: "ex_lease r = Some \<lparr>le_owner = ''w1'', le_epoch = 1, le_expiresAt = 150\<rparr>"
  proof -
    have "map_option ex_lease (snd (claim_execution ''plan_execution:x'' ''w1'' 50 100 demo_plans))
      = Some (Some \<lparr>le_owner = ''w1'', le_epoch = 1, le_expiresAt = 150\<rparr>)" by code_simp
    then show ?thesis using that by (cases "claim_execution ''plan_execution:x'' ''w1'' 50 100 demo_plans") auto
  qed
  have "claim_execution ''plan_execution:x'' ''w2'' 100 50
      (fold (plan_step None) [(60, Update ''u'' ''plan_execution:x'' 0 no_patch None False)] s') =
    (fold (plan_step None) [(60, Update ''u'' ''plan_execution:x'' 0 no_patch None False)] s', None)"
    by (rule running_lease_exclusive[OF c l _ _ _ _ refl, THEN conjunct1]) simp_all
  then show ?thesis using c by simp
qed

text \<open>
  Creating is idempotent, and a finished execution stays finished. Repeating a request after any
  further operations returns the execution it made before, with its progress, and stores nothing new;
  an execution that completed or failed keeps that status for ever.
\<close>

theorem create_idempotent:
  assumes "plan_reachable project s" "plan_legal (now, Create uuid input wanted) s"
    and "create_execution project uuid now input wanted s = (s', Inr r)"
    and "legal_run plan_legal (plan_step project) ops s'" "t = fold (plan_step project) ops s'"
  shows "\<exists>r'. create_execution project uuid' later input wanted' t = (t, Inr r') \<and> ex_id r' = ex_id r \<and>
    plan_record (ex_id r) t = Some r' \<and> (ex_status r \<in> {COMPLETED, FAILED} \<longrightarrow> ex_status r' = ex_status r)"
proof -
  have reach: "plan_reachable project s'" using plan_next[OF assms(1,2)] assms(3) by simp
  have inv: "plan_inv s" using assms(1) by (rule plan_reachable_inv)
  have r: "plan_record (ex_id r) s' = Some r \<and> same_request input r \<and> same_target input r"
    using assms(3)
  proof (cases rule: create_cases)
    case (known q)
    then obtain i where "plan_record i s = Some q" using inv in_records[of s q] by (auto simp: plan_inv_def)
    then show ?thesis using known inv by (auto simp: plan_inv_def record_ok_def)
  next
    case (created q u)
    have "same_request input q \<and> same_target input q"
      using created(1) by (auto simp: new_plan_execution_def same_request_def same_target_def plan_input.defs execution.defs split: if_splits)
    then show ?thesis using created by simp
  qed simp
  obtain r' where r': "plan_record (ex_id r) t = Some r'" "successor r r'" "ex_id r' = ex_id r"
      "\<not> is_plan_execution_active r \<longrightarrow> ex_status r' = ex_status r"
    using run_successor[OF conjunct1[OF r] assms(4)] assms(5) by blast
  have tinv: "plan_inv t" using plan_reachable_inv[OF reachable_run[OF reach assms(4)]] assms(5) by simp
  have same: "same_request input r'" "same_target input r'"
    using r r'(2) by (auto simp: successor_def same_request_def same_target_def dest: same_inputD)
  have mem: "x \<in> set (map snd (ps_records t)) \<longleftrightarrow> (\<exists>i. plan_record i t = Some x)" for x
    using tinv by (intro in_records) (simp add: plan_inv_def)
  obtain f where f: "List.find (same_request input) (map snd (ps_records t)) = Some f"
    using mem[of r'] r'(1) same(1) by (cases "List.find (same_request input) (map snd (ps_records t))") (auto simp: find_None_iff)
  then obtain j where j: "plan_record j t = Some f" "same_request input f" using find_SomeD[OF f] mem by blast
  then have "competes f r'" using same(1) by (auto simp: competes_def same_request_def)
  then have "f = r'" using tinv j(1) r'(1) unfolding plan_inv_def by (metis option.inject)
  then have "create_execution project uuid' later input wanted' t = (t, Inr r')"
    using f same(2) by (simp add: create_execution_def)
  then show ?thesis using r' by (auto simp: is_plan_execution_active_def)
qed

theorem create_idempotent_witness:
  "\<exists>r'. snd (create_execution None ''y'' 99 demo_input True demo_plans) = Inr r' \<and> ex_id r' = ''plan_execution:x''"
proof -
  obtain s' r where c: "create_execution None ''x'' 10 demo_input False empty_plan_store = (s', Inr r)"
    and r: "ex_id r = ''plan_execution:x''" "s' = demo_plans"
  proof -
    have "(case snd (create_execution None ''x'' 10 demo_input False empty_plan_store) of Inl _ \<Rightarrow> False
      | Inr r \<Rightarrow> ex_id r = ''plan_execution:x'')" by code_simp
    then show ?thesis using that by (cases "create_execution None ''x'' 10 demo_input False empty_plan_store")
        (auto simp: demo_plans_def split: sum.splits)
  qed
  have "plan_legal (10, Create ''x'' demo_input False) empty_plan_store" by code_simp
  from create_idempotent[OF plan_start this c, of "[]" s' "''y''" 99 True] r show ?thesis by auto
qed

end
