(* ===== verification/Plan_Mutations.thy ===== *)
theory Plan_Mutations
  imports Plan_Store
begin

text \<open>
  What an operator may do to a running plan execution (\<open>apps/api/src/plan-execution-mutations.ts\<close>):
  pause, resume, and override the model of a stage. Each is a patch of the execution, applied with the
  repository's compare-and-set update. The native turn in progress is never forgotten: its \<open>START\<close>
  command stays until the turn is known to have stopped.

  \<open>uuid\<close> and \<open>now\<close> are what \<open>randomUUID()\<close> and \<open>Date\<close> return.
\<close>

subsection \<open>Patches\<close>

text \<open>The pending command, if it is a \<open>START\<close>.\<close>

definition pending_start :: "execution \<Rightarrow> command option" where
  "pending_start x = (case ex_pendingCommand x of Some c \<Rightarrow> if cm_type c = START then Some c else None | None \<Rightarrow> None)"

definition interrupt_patch :: "string \<Rightarrow> int \<Rightarrow> execution \<Rightarrow> interrupt_reason \<Rightarrow> plan_patch" where
  "interrupt_patch uuid now x reason = (case pending_start x of
     None \<Rightarrow> no_patch\<lparr>pt_pendingCommand := Some None, pt_interruptCommand := Some None, pt_interruptReason := Some None,
       pt_status := Some (if reason = PAUSE then PAUSED else if ex_status x = PAUSED then PAUSED else RESUMING_STAGE),
       pt_nextRetryAt := Some None, pt_statusReason := Some None\<rparr>
   | Some start \<Rightarrow> no_patch\<lparr>pt_interruptReason := Some (Some reason), pt_status := Some SWITCHING_MODEL,
       pt_statusReason := Some (Some (if reason = PAUSE then ''Waiting for the native turn to stop.''
         else ''Switching the stage model after native interruption.'')),
       pt_interruptCommand := Some (or_else (ex_interruptCommand x)
         (if cm_turnId start \<in> {None, Some []} then None
          else Some (start\<lparr>cm_id := uuid, cm_type := INTERRUPT, cm_status := CMD_PREPARED, cm_preparedAt := now\<rparr>)))\<rparr>)"

definition active_stage :: "execution \<Rightarrow> plan_stage option" where
  "active_stage x = (let stages = sn_stages (ex_snapshot x) in
     if ex_activeStageIndex x < length stages then Some (stages ! ex_activeStageIndex x) else None)"

definition stage_override_patch ::
  "string \<Rightarrow> int \<Rightarrow> execution \<Rightarrow> string \<Rightarrow> model_selection option \<Rightarrow> plan_error + plan_patch" where
  "stage_override_patch uuid now x stageId selection =
     (if ex_status x \<in> {COMPLETED, FAILED} \<or> stageId \<in> set (ex_completedStageIds x) then Inl FinishedExecution
      else let overrides = (case selection of Some s \<Rightarrow> map_set stageId s (ex_overrides x)
               | None \<Rightarrow> map_delete stageId (ex_overrides x));
             active = (map_option sg_id (active_stage x) = Some stageId);
             base = (if active \<and> ex_status x \<noteq> BLOCKED
               then interrupt_patch uuid now x (if ex_interruptReason x = Some PAUSE then PAUSE else OVERRIDE) else no_patch)
           in Inr (base\<lparr>pt_overrides := Some overrides\<rparr>))"

datatype control_action = PauseAction | ResumeAction

datatype control_error = ControlFinished | ReconciliationPending | NotPaused

definition execution_control_patch :: "string \<Rightarrow> int \<Rightarrow> execution \<Rightarrow> control_action \<Rightarrow> control_error + plan_patch" where
  "execution_control_patch uuid now x action =
     (if ex_status x \<in> {COMPLETED, FAILED} then Inl ControlFinished
      else if action = PauseAction then Inr (interrupt_patch uuid now x PAUSE)
      else if pending_start x \<noteq> None \<or> ex_interruptCommand x \<noteq> None
        \<or> ex_interruptReason x \<noteq> None then Inl ReconciliationPending
      else if ex_status x \<notin> {PAUSED, BLOCKED, WAITING_FOR_MODEL} then Inl NotPaused
      else Inr (no_patch\<lparr>pt_status := Some RESUMING_STAGE, pt_statusReason := Some None, pt_nextRetryAt := Some None,
             pt_interruptReason := Some None\<rparr>))"

end
