(* ===== verification/Plan_Progress.thy ===== *)
theory Plan_Progress
  imports Plan_Mutations
begin

text \<open>
  The result of a stage (\<open>managedPlanStageResultSchema\<close> and \<open>sameStageCriterion\<close> of
  \<open>packages/contracts/src/managed-plan-execution.ts\<close>), and the invariant of an execution's progress:
  stages complete in order, each by a verified turn with evidence for every criterion, within the
  budget of attempts. The operator's patches keep it.
\<close>

subsection \<open>Results\<close>

text \<open>\<open>text.replace(/\s+/g, " ")\<close>\<close>

function squeeze_spaces :: "string \<Rightarrow> string" where
  "squeeze_spaces [] = []"
| "squeeze_spaces (c # cs) = (if is_space c then CHR '' '' # squeeze_spaces (dropWhile is_space cs)
     else c # squeeze_spaces cs)"
  by pat_completeness auto
termination by (relation "measure length") (auto simp: length_dropWhile_le less_Suc_eq_le)

definition drop_period :: "string \<Rightarrow> string" where
  "drop_period s = (if s \<noteq> [] \<and> last s = CHR ''.'' then butlast s else s)"

definition stage_criterion_key :: "string \<Rightarrow> string" where
  "stage_criterion_key text = drop_period (squeeze_spaces (js_trim text))"

definition same_stage_criterion :: "string \<Rightarrow> string \<Rightarrow> bool" where
  "same_stage_criterion evidence criterion =
     (stage_criterion_key criterion \<noteq> [] \<and> stage_criterion_key evidence = stage_criterion_key criterion)"

text \<open>\<open>schema.parse\<close>: the value, or \<open>None\<close> where it throws. An object has no other keys than the named.\<close>

definition text_between :: "nat \<Rightarrow> json option \<Rightarrow> string option" where
  "text_between most v = (case v of Some (JStr s) \<Rightarrow> if 1 \<le> length s \<and> length s \<le> most then Some s else None | _ \<Rightarrow> None)"

definition trimmed_between :: "nat \<Rightarrow> json option \<Rightarrow> string option" where
  "trimmed_between most v = (case v of Some (JStr s) \<Rightarrow> text_between most (Some (JStr (js_trim s))) | _ \<Rightarrow> None)"

definition parse_evidence :: "json \<Rightarrow> stage_evidence option" where
  "parse_evidence v = (case v of
     JObj o' \<Rightarrow> if set (map fst o') \<subseteq> {''criterion'', ''result''}
       then (case (text_between 2000 (map_of o' ''criterion''), text_between 4000 (map_of o' ''result'')) of
         (Some c, Some r) \<Rightarrow> Some \<lparr>ev_criterion = c, ev_result = r\<rparr> | _ \<Rightarrow> None)
       else None
   | _ \<Rightarrow> None)"

fun parse_all :: "('a \<Rightarrow> 'b option) \<Rightarrow> 'a list \<Rightarrow> 'b list option" where
  "parse_all f [] = Some []"
| "parse_all f (x # xs) = (case (f x, parse_all f xs) of (Some y, Some ys) \<Rightarrow> Some (y # ys) | _ \<Rightarrow> None)"

definition parse_outcome :: "json option \<Rightarrow> stage_outcome option" where
  "parse_outcome v = (if v = Some (JStr ''CONTINUE'') then Some CONTINUE
     else if v = Some (JStr ''COMPLETED'') then Some STAGE_COMPLETED
     else if v = Some (JStr ''BLOCKED'') then Some STAGE_BLOCKED else None)"

definition parse_stage_result :: "json \<Rightarrow> stage_result option" where
  "parse_stage_result v = (case v of
     JObj o' \<Rightarrow> if set (map fst o') \<subseteq> {''outcome'', ''summary'', ''evidence''}
       then (case (parse_outcome (map_of o' ''outcome''), trimmed_between 4000 (map_of o' ''summary''), map_of o' ''evidence'') of
         (Some outcome, Some summary, Some (JArr vs)) \<Rightarrow>
           (case parse_all parse_evidence vs of
              Some evidence \<Rightarrow> if length evidence \<le> 30 \<and> \<not> (outcome = STAGE_COMPLETED \<and> evidence = [])
                then Some \<lparr>rs_outcome = outcome, rs_summary = summary, rs_evidence = evidence\<rparr> else None
            | None \<Rightarrow> None)
       | _ \<Rightarrow> None)
       else None
   | _ \<Rightarrow> None)"

text \<open>A completed result names every criterion of the stage with some evidence.\<close>

definition has_evidence :: "stage_result \<Rightarrow> string \<Rightarrow> bool" where
  "has_evidence r criterion = list_ex (\<lambda>e. same_stage_criterion (ev_criterion e) criterion \<and> js_trim (ev_result e) \<noteq> [])
     (rs_evidence r)"

definition sufficient_result :: "plan_stage \<Rightarrow> stage_result \<Rightarrow> bool" where
  "sufficient_result stage r =
     (rs_outcome r \<noteq> STAGE_COMPLETED \<or> list_all (has_evidence r) (sg_completionCriteria stage))"

subsection \<open>The invariant of an execution\<close>

text \<open>A stage is done by an attempt whose own turn the runtime verified and whose result suffices.\<close>

definition proves_stage :: "plan_stage \<Rightarrow> attempt \<Rightarrow> bool" where
  "proves_stage stage a = (at_stageId a = sg_id stage \<and> at_status a = ATTEMPT_COMPLETED \<and>
     (\<exists>r. at_result a = Some r \<and> rs_outcome r = STAGE_COMPLETED \<and> sufficient_result stage r) \<and>
     (\<exists>s. at_actualSelection a = Some s \<and> as_commandId s = at_commandId a \<and> at_turnId a = Some (as_turnId s) \<and>
        as_modelId s = ms_modelId (at_selection a) \<and> as_reasoningEffort s = ms_reasoningEffort (at_selection a)))"

definition in_progress_order :: "execution \<Rightarrow> bool" where
  "in_progress_order x = (let stages = sn_stages (ex_snapshot x); n = length (ex_completedStageIds x) in
     n \<le> length stages \<and>
     (\<forall>k < n. ex_completedStageIds x ! k = sg_id (stages ! k) \<and> (\<exists>a \<in> set (ex_attempts x). proves_stage (stages ! k) a)) \<and>
     (ex_status x = COMPLETED \<longleftrightarrow> n = length stages) \<and>
     (n < length stages \<longrightarrow> ex_activeStageIndex x = n))"

definition attempts_of :: "string \<Rightarrow> attempt list \<Rightarrow> nat" where
  "attempts_of stageId as = length (filter (\<lambda>a. at_stageId a = stageId) as)"

text \<open>The pending \<open>START\<close> belongs to the active stage, and its attempt is not over.\<close>

definition open_attempt :: "command \<Rightarrow> attempt \<Rightarrow> bool" where
  "open_attempt c a = (at_status a \<noteq> ATTEMPT_COMPLETED \<and> at_selection a = cm_selection c \<and> at_stageId a = cm_stageId c)"

definition open_start :: "execution \<Rightarrow> bool" where
  "open_start x = (\<forall>c. pending_start x = Some c \<longrightarrow> map_option sg_id (active_stage x) = Some (cm_stageId c) \<and>
     (\<forall>a \<in> set (ex_attempts x). at_commandId a = cm_id c \<longrightarrow> open_attempt c a))"

definition same_start :: "command \<Rightarrow> command \<Rightarrow> bool" where
  "same_start c d = (cm_id c = cm_id d \<and> cm_selection c = cm_selection d \<and> cm_stageId c = cm_stageId d)"

definition attempt_ids :: "execution \<Rightarrow> string set" where
  "attempt_ids x = at_id ` set (ex_attempts x) \<union> at_commandId ` set (ex_attempts x)"

text \<open>\<open>unused\<close> are the identifiers \<open>randomUUID\<close> will still produce.\<close>

definition good_execution :: "nat \<Rightarrow> string set \<Rightarrow> execution \<Rightarrow> bool" where
  "good_execution limit unused x = (in_progress_order x \<and> (\<forall>s. attempts_of s (ex_attempts x) \<le> limit) \<and>
     distinct (map at_id (ex_attempts x)) \<and> open_start x \<and> attempt_ids x \<inter> unused = {})"

lemma good_lease [simp]:
  "good_execution limit unused (x\<lparr>ex_lease := l\<rparr>) = good_execution limit unused x"
  "good_execution limit unused (x\<lparr>ex_eventCursor := n\<rparr>) = good_execution limit unused x"
  by (simp_all add: good_execution_def in_progress_order_def open_start_def pending_start_def attempt_ids_def active_stage_def Let_def)

lemma good_unused: "good_execution limit unused x \<Longrightarrow> unused' \<subseteq> unused \<Longrightarrow> good_execution limit unused' x"
  by (auto simp: good_execution_def)

text \<open>Patches that leave progress alone.\<close>

definition calm_patch :: "plan_patch \<Rightarrow> execution \<Rightarrow> bool" where
  "calm_patch p x = (pt_activeStageIndex p = None \<and> pt_completedStageIds p = None \<and> pt_attempts p = None \<and>
     (pt_status p = Some COMPLETED \<longrightarrow> ex_status x = COMPLETED) \<and>
     (pt_pendingCommand p = None \<or> (\<exists>c. pt_pendingCommand p = Some c \<and> (c = None \<or> cm_type (the c) \<noteq> START \<or>
        (\<exists>d. pending_start x = Some d \<and> same_start (the c) d)))))"

lemma patched_progress [simp]:
  "ex_attempts (patched now p x) = dflt (pt_attempts p) (ex_attempts x)"
  "ex_completedStageIds (patched now p x) = dflt (pt_completedStageIds p) (ex_completedStageIds x)"
  "ex_activeStageIndex (patched now p x) = dflt (pt_activeStageIndex p) (ex_activeStageIndex x)"
  "ex_pendingCommand (patched now p x) = dflt (pt_pendingCommand p) (ex_pendingCommand x)"
  by (simp_all add: patched_def)

lemma calm_status: "calm_patch p x \<Longrightarrow> \<not> resumes_finished p x \<Longrightarrow>
   dflt (pt_status p) (ex_status x) = COMPLETED \<longleftrightarrow> ex_status x = COMPLETED"
  by (auto simp: calm_patch_def resumes_finished_def is_plan_execution_active_def dflt_def split: option.splits)

lemma active_stage_patched [simp]:
  "pt_activeStageIndex p = None \<Longrightarrow> active_stage (patched now p x) = active_stage x"
  by (simp add: active_stage_def Let_def)

lemma open_start_same:
  assumes "open_start x" "ex_attempts y = ex_attempts x" "active_stage y = active_stage x"
    and "pending_start y = None \<or> (\<exists>c d. pending_start y = Some c \<and> pending_start x = Some d \<and> same_start c d)"
  shows "open_start y"
  using assms by (auto simp: open_start_def same_start_def open_attempt_def)

lemma calm_open_start:
  assumes "calm_patch p x" "open_start x"
  shows "open_start (patched now p x)"
proof (rule open_start_same[OF assms(2)])
  show "ex_attempts (patched now p x) = ex_attempts x" "active_stage (patched now p x) = active_stage x"
    using assms(1) by (simp_all add: calm_patch_def)
  show "pending_start (patched now p x) = None \<or>
      (\<exists>c d. pending_start (patched now p x) = Some c \<and> pending_start x = Some d \<and> same_start c d)"
    using assms(1) by (cases "pt_pendingCommand p")
      (auto simp: calm_patch_def pending_start_def same_start_def split: option.splits if_splits)
qed

lemma calm_good:
  assumes "calm_patch p x" "\<not> resumes_finished p x" "good_execution limit unused x"
  shows "good_execution limit unused (patched now p x)"
proof -
  have "in_progress_order (patched now p x)"
    using assms calm_status[OF assms(1,2)]
    by (simp add: good_execution_def in_progress_order_def calm_patch_def Let_def)
  then show ?thesis using assms calm_open_start[OF assms(1)]
    by (simp add: good_execution_def calm_patch_def attempt_ids_def)
qed

subsection \<open>The operator's patches\<close>

text \<open>Both kinds of request at once: an override of a stage, or pause and resume.\<close>

definition operator_patch :: "execution \<Rightarrow> plan_patch \<Rightarrow> bool" where
  "operator_patch x p = (\<exists>uuid now. (\<exists>stageId selection. stage_override_patch uuid now x stageId selection = Inr p) \<or>
     (\<exists>action. execution_control_patch uuid now x action = Inr p))"

lemma interrupt_calm: "calm_patch (interrupt_patch uuid now x reason) x"
  by (auto simp: interrupt_patch_def calm_patch_def no_patch_def split: option.splits)

lemma interrupt_pending_start:
  "dflt (pt_pendingCommand (interrupt_patch uuid now x reason)) (ex_pendingCommand x) =
     (if pending_start x = None then None else ex_pendingCommand x)"
  by (auto simp: interrupt_patch_def no_patch_def pending_start_def split: option.splits)

lemma interrupt_keeps_start: "pending_start (patched now (interrupt_patch uuid t0 x reason) x) = pending_start x"
  using interrupt_pending_start[of uuid t0 x reason] by (auto simp: pending_start_def[of "patched _ _ _"]) (auto simp: pending_start_def)

lemma calm_overrides: "calm_patch (p\<lparr>pt_overrides := o'\<rparr>) x = calm_patch p x"
  by (simp add: calm_patch_def)

lemma no_patch_calm: "calm_patch no_patch x"
  by (simp add: calm_patch_def no_patch_def)

lemma pending_start_overrides:
  "pending_start (patched now (p\<lparr>pt_overrides := o'\<rparr>) x) = pending_start (patched now p x)"
  by (simp add: pending_start_def)

lemma override_calm:
  assumes "stage_override_patch uuid t0 x stageId selection = Inr p"
  shows "calm_patch p x \<and> pending_start (patched now p x) = pending_start x"
proof -
  obtain base o' where "p = base\<lparr>pt_overrides := o'\<rparr>" "base = no_patch \<or> (\<exists>reason. base = interrupt_patch uuid t0 x reason)"
    using assms by (auto simp: stage_override_patch_def Let_def split: if_splits)
  moreover have "pending_start (patched now no_patch x) = pending_start x" by (simp add: pending_start_def no_patch_def)
  ultimately show ?thesis
    using interrupt_calm no_patch_calm interrupt_keeps_start by (auto simp: calm_overrides pending_start_overrides)
qed

lemma control_calm:
  assumes "execution_control_patch uuid t0 x action = Inr p"
  shows "calm_patch p x \<and> pending_start (patched now p x) = pending_start x"
proof (cases action)
  case PauseAction
  then have "p = interrupt_patch uuid t0 x PAUSE" using assms by (auto simp: execution_control_patch_def split: if_splits)
  then show ?thesis using interrupt_calm interrupt_keeps_start by simp
next
  case ResumeAction
  then show ?thesis using assms
    by (auto simp: execution_control_patch_def calm_patch_def no_patch_def pending_start_def split: if_splits)
qed

lemma operator_calm:
  "operator_patch x p \<Longrightarrow> calm_patch p x \<and> pending_start (patched now p x) = pending_start x"
  using override_calm control_calm by (auto simp: operator_patch_def)

lemma operator_active: "operator_patch x p \<Longrightarrow> is_plan_execution_active x"
  by (auto simp: operator_patch_def stage_override_patch_def execution_control_patch_def is_plan_execution_active_def split: if_splits)

text \<open>
  An operator's request never disturbs the work done or the turn in progress. An override, a pause or
  a resume is refused for a finished execution; otherwise it leaves the attempts, the completed stages
  and the active stage as they are, keeps the pending \<open>START\<close> command of a native turn, and preserves the
  invariant of the execution's progress.
\<close>

theorem operator_keeps_turn:
  assumes "operator_patch x p"
  shows "ex_status x \<notin> {COMPLETED, FAILED} \<and> pending_start (patched now p x) = pending_start x \<and>
    ex_attempts (patched now p x) = ex_attempts x \<and> ex_completedStageIds (patched now p x) = ex_completedStageIds x \<and>
    ex_activeStageIndex (patched now p x) = ex_activeStageIndex x \<and>
    (good_execution limit unused x \<longrightarrow> good_execution limit unused (patched now p x))"
proof -
  have c: "calm_patch p x" "pending_start (patched now p x) = pending_start x" using operator_calm[OF assms] by auto
  have a: "is_plan_execution_active x" using operator_active[OF assms] .
  then have "\<not> resumes_finished p x" by (simp add: resumes_finished_def)
  then show ?thesis using c a calm_good[OF c(1)] by (auto simp: calm_patch_def is_plan_execution_active_def)
qed

definition demo_execution :: execution where
  "demo_execution = (case new_plan_execution ''x'' 10 demo_input of Inr r \<Rightarrow> r)"

definition demo_start :: command where
  "demo_start = \<lparr>cm_id = ''c1'', cm_type = START, cm_stageId = ''s1'', cm_turnId = Some ''n1'',
     cm_selection = \<lparr>ms_modelId = ''m'', ms_reasoningEffort = ''high''\<rparr>, cm_preparedAt = 20, cm_status = CMD_SENT, cm_baselineTurnIds = []\<rparr>"

theorem operator_keeps_turn_witness:
  "pending_start (patched 30 (interrupt_patch ''i1'' 30 (demo_execution\<lparr>ex_pendingCommand := Some demo_start\<rparr>) PAUSE)
     (demo_execution\<lparr>ex_pendingCommand := Some demo_start\<rparr>)) = Some demo_start"
proof -
  let ?x = "demo_execution\<lparr>ex_pendingCommand := Some demo_start\<rparr>"
  have "execution_control_patch ''i1'' 30 ?x PauseAction = Inr (interrupt_patch ''i1'' 30 ?x PAUSE)" by code_simp
  then have "operator_patch ?x (interrupt_patch ''i1'' 30 ?x PAUSE)" unfolding operator_patch_def by blast
  from operator_keeps_turn[OF this, of 30] have
    "pending_start (patched 30 (interrupt_patch ''i1'' 30 ?x PAUSE) ?x) = pending_start ?x" by blast
  also have "\<dots> = Some demo_start" by code_simp
  finally show ?thesis .
qed

text \<open>An execution the operator paused: it rests, or its native turn is being stopped.\<close>

definition paused_by_operator :: "execution \<Rightarrow> bool" where
  "paused_by_operator x = (if pending_start x = None then ex_status x = PAUSED else ex_interruptReason x = Some PAUSE)"

lemma interrupt_paused:
  "pending_start x = None \<Longrightarrow> dflt (pt_status (interrupt_patch uuid t0 x reason)) (ex_status x)
     = (if reason = PAUSE \<or> ex_status x = PAUSED then PAUSED else RESUMING_STAGE)"
  "pending_start x \<noteq> None \<Longrightarrow> dflt (pt_interruptReason (interrupt_patch uuid t0 x reason)) (ex_interruptReason x) = Some reason"
  by (auto simp: interrupt_patch_def no_patch_def pending_start_def split: option.splits if_splits)

text \<open>
  A pause holds until the operator resumes. A pause request pauses; an override of any stage keeps
  the pause; and a resume request is refused while a native turn of the execution may still be running.
\<close>

theorem pause_holds:
  "(execution_control_patch uuid t0 x PauseAction = Inr p \<longrightarrow> paused_by_operator (patched now p x)) \<and>
   (paused_by_operator x \<longrightarrow> stage_override_patch uuid t0 x stageId selection = Inr p \<longrightarrow> paused_by_operator (patched now p x)) \<and>
   (pending_start x \<noteq> None \<longrightarrow> (\<exists>e. execution_control_patch uuid t0 x ResumeAction = Inl e))"
proof (intro conjI impI)
  have int: "paused_by_operator (patched now (interrupt_patch uuid t0 x PAUSE) x)"
    using interrupt_keeps_start[of now uuid t0 x PAUSE] interrupt_paused[of x uuid t0 PAUSE]
    by (simp add: paused_by_operator_def) (simp add: patched_def)
  then show "paused_by_operator (patched now p x)" if "execution_control_patch uuid t0 x PauseAction = Inr p"
    using that by (auto simp: execution_control_patch_def split: if_splits)
  show "paused_by_operator (patched now p x)"
    if paused: "paused_by_operator x" and overridden: "stage_override_patch uuid t0 x stageId selection = Inr p"
  proof -
    obtain base o' where p: "p = base\<lparr>pt_overrides := o'\<rparr>" "base = no_patch \<or>
        base = interrupt_patch uuid t0 x (if ex_interruptReason x = Some PAUSE then PAUSE else OVERRIDE)"
      using overridden by (auto simp: stage_override_patch_def Let_def split: if_splits)
    have ov: "paused_by_operator (patched now (b\<lparr>pt_overrides := o'\<rparr>) x) = paused_by_operator (patched now b x)" for b
      by (simp add: paused_by_operator_def pending_start_overrides) (simp add: patched_def)
    have "paused_by_operator (patched now no_patch x)"
      using paused by (simp add: paused_by_operator_def pending_start_def) (simp add: patched_def no_patch_def)
    moreover have "paused_by_operator (patched now (interrupt_patch uuid t0 x OVERRIDE) x)" if "ex_interruptReason x \<noteq> Some PAUSE"
      using that paused interrupt_keeps_start[of now uuid t0 x OVERRIDE] interrupt_paused[of x uuid t0 OVERRIDE]
      by (auto simp: paused_by_operator_def patched_def split: if_splits)
    ultimately show ?thesis using p int ov by (auto split: if_splits)
  qed
  show "\<exists>e. execution_control_patch uuid t0 x ResumeAction = Inl e" if "pending_start x \<noteq> None"
    using that by (auto simp: execution_control_patch_def pending_start_def split: option.splits if_splits)
qed

theorem pause_holds_witness:
  "(let x = demo_execution\<lparr>ex_pendingCommand := Some demo_start, ex_interruptReason := Some PAUSE, ex_status := SWITCHING_MODEL\<rparr> in
    \<exists>p. stage_override_patch ''i'' 40 x ''s1'' None = Inr p \<and> paused_by_operator (patched 41 p x))"
proof -
  let ?x = "demo_execution\<lparr>ex_pendingCommand := Some demo_start, ex_interruptReason := Some PAUSE, ex_status := SWITCHING_MODEL\<rparr>"
  have "case stage_override_patch ''i'' 40 ?x ''s1'' None of Inl _ \<Rightarrow> False | Inr p \<Rightarrow> True" "paused_by_operator ?x" by code_simp+
  then obtain p where "stage_override_patch ''i'' 40 ?x ''s1'' None = Inr p" by (auto split: sum.splits)
  with pause_holds[of "''i''" 40 ?x p 41 "''s1''" None] \<open>paused_by_operator ?x\<close> show ?thesis by (auto simp: Let_def)
qed

end
