(* ===== verification/Plan_Controller.thy ===== *)
theory Plan_Controller
  imports Plan_Progress
begin

text \<open>
  \<open>PlanExecutionController\<close> (\<open>apps/api/src/plan-execution-controller.ts\<close>): one advance of a managed plan
  execution, as the code runs it, await by await.

  A step of the controller is a program over a world: the shared repository, the local variable
  \<open>execution\<close>, the maps of the controller, the commands sent to the native runtime, and the number of
  awaits so far. Everything the controller does not decide itself comes from an environment, indexed by
  that number: the clock, \<open>randomUUID\<close>, the answers of the native driver, and what all other parts of
  the program did to the repository while it was suspended. An exception is an \<open>Inl\<close>.
\<close>

subsection \<open>The native runtime\<close>

datatype native_thread_status = IDLE | ACTIVE | NOT_LOADED | SYSTEM_ERROR

datatype native_turn_status = IN_PROGRESS | TURN_COMPLETED | TURN_INTERRUPTED | TURN_FAILED

record native_turn =
  tn_id :: string
  tn_status :: native_turn_status
  tn_clientUserMessageIds :: "string list"
  tn_userMessageCount :: "nat option"
  tn_resultText :: "string option"
  tn_itemsComplete :: bool
  tn_retryableFailure :: "int option option"

record native_thread =
  nt_id :: string
  nt_cwd :: string
  nt_modelId :: string
  nt_reasoningEffort :: string
  nt_status :: native_thread_status
  nt_activeFlags :: "string list"
  nt_turns :: "native_turn list"

record native_settings =
  ns_modelId :: string
  ns_reasoningEffort :: string
  ns_cwd :: string
  ns_isTurnActive :: bool

datatype turn_evidence = OBSERVING | VERIFIED actual_selection | INVALID

datatype delivery = NOT_SENT | REJECTED | DELIVERY_UNKNOWN

text \<open>\<open>retryableFailure?: { retryAfterMs?: number }\<close>\<close>

type_synonym retryable = "int option option"

datatype ctl_error = Conflict | OtherError | SettingsRejected retryable | DeliveryError delivery retryable

text \<open>
  A driver call that sends a command: it fails at once, or it calls \<open>beforeSend\<close> (whose exception it may
  report in its own way) and, when that returns, sends the command and answers.
\<close>

datatype 'r driver_call = FailsAtOnce ctl_error | CallsBack "ctl_error \<Rightarrow> ctl_error" "ctl_error + 'r"

record control =
  ct_inspects :: bool
  ct_starts :: bool

datatype native_command = NativeStart string string | NativeSettings model_selection | NativeInterrupt string

subsection \<open>Environment, world and programs\<close>

record ctl_env =
  ce_project :: projection
  ce_workerId :: string
  ce_leaseMs :: int
  ce_maxStageAttempts :: "int option"
  ce_closedTurnTimeoutMs :: int
  ce_parse :: "string \<Rightarrow> json option"
  ce_now :: "nat \<Rightarrow> int"
  ce_closed :: "nat \<Rightarrow> bool"
  ce_uuid :: "nat \<Rightarrow> nat \<Rightarrow> string"
  ce_others :: "nat \<Rightarrow> plan_store \<Rightarrow> plan_store"
  ce_resolve :: "nat \<Rightarrow> control option"
  ce_thread :: "nat \<Rightarrow> native_thread option"
  ce_settings :: "nat \<Rightarrow> native_settings option"
  ce_models :: "nat \<Rightarrow> (string \<times> string list) list option"
  ce_evidence :: "string \<Rightarrow> nat \<Rightarrow> turn_evidence"
  ce_updateSettings :: "nat \<Rightarrow> unit driver_call"
  ce_startTurn :: "nat \<Rightarrow> string driver_call"
  ce_interruptTurn :: "nat \<Rightarrow> unit driver_call"
  ce_publish :: "nat \<Rightarrow> plan_event \<Rightarrow> bool"
  ce_listFails :: "nat \<Rightarrow> bool"

record ctl_world =
  cw_store :: plan_store
  cw_execution :: execution
  cw_tick :: nat
  cw_acknowledged :: "(string \<times> string) list"
  cw_unaccepted :: "(string \<times> delivery \<times> retryable) list"
  cw_observations :: "string list"
  cw_closedAt :: "(string \<times> int) list"
  cw_sent :: "native_command list"
  cw_published :: "plan_event list"

type_synonym 'a prog = "ctl_world \<Rightarrow> ctl_world \<times> (ctl_error + 'a)"

definition ret :: "'a \<Rightarrow> 'a prog" where
  "ret x = (\<lambda>w. (w, Inr x))"

definition throw :: "ctl_error \<Rightarrow> 'a prog" where
  "throw e = (\<lambda>w. (w, Inl e))"

definition bnd :: "'a prog \<Rightarrow> ('a \<Rightarrow> 'b prog) \<Rightarrow> 'b prog" where
  "bnd m f = (\<lambda>w. case m w of (w', Inl e) \<Rightarrow> (w', Inl e) | (w', Inr x) \<Rightarrow> f x w')"

definition andthen :: "unit prog \<Rightarrow> 'b prog \<Rightarrow> 'b prog" where
  "andthen m k = bnd m (\<lambda>_. k)"

definition catch_with :: "'a prog \<Rightarrow> (ctl_error \<Rightarrow> 'a prog) \<Rightarrow> 'a prog" where
  "catch_with m h = (\<lambda>w. case m w of (w', Inl e) \<Rightarrow> h e w' | (w', Inr x) \<Rightarrow> (w', Inr x))"

definition finally_do :: "'a prog \<Rightarrow> unit prog \<Rightarrow> 'a prog" where
  "finally_do m f = (\<lambda>w. case m w of (w', r) \<Rightarrow> (case f w' of (w'', Inl e) \<Rightarrow> (w'', Inl e) | (w'', Inr _) \<Rightarrow> (w'', r)))"

definition require :: "bool \<Rightarrow> unit prog" where
  "require b = (if b then ret () else throw OtherError)"

definition look :: "(ctl_world \<Rightarrow> 'a) \<Rightarrow> 'a prog" where
  "look f = (\<lambda>w. (w, Inr (f w)))"

definition change :: "(ctl_world \<Rightarrow> ctl_world) \<Rightarrow> unit prog" where
  "change f = (\<lambda>w. (f w, Inr ()))"

definition now_execution :: "ctl_env \<Rightarrow> (int \<times> execution) prog" where
  "now_execution env = look (\<lambda>w. (ce_now env (cw_tick w), cw_execution w))"

text \<open>The repository answers, then the others run until the continuation does.\<close>

definition await_store :: "ctl_env \<Rightarrow> (int \<Rightarrow> plan_store \<Rightarrow> plan_store \<times> 'a) \<Rightarrow> 'a prog" where
  "await_store env f = (\<lambda>w. let (s, x) = f (ce_now env (cw_tick w)) (cw_store w)
     in (w\<lparr>cw_store := ce_others env (cw_tick w) s, cw_tick := Suc (cw_tick w)\<rparr>, Inr x))"

definition await_native :: "ctl_env \<Rightarrow> (nat \<Rightarrow> 'a) \<Rightarrow> 'a prog" where
  "await_native env f = (\<lambda>w. (w\<lparr>cw_store := ce_others env (cw_tick w) (cw_store w), cw_tick := Suc (cw_tick w)\<rparr>,
     Inr (f (cw_tick w))))"

definition await_answer :: "ctl_env \<Rightarrow> (nat \<Rightarrow> 'a option) \<Rightarrow> 'a prog" where
  "await_answer env f = bnd (await_native env f) (\<lambda>r. case r of None \<Rightarrow> throw OtherError | Some x \<Rightarrow> ret x)"

definition drive :: "ctl_env \<Rightarrow> (nat \<Rightarrow> 'r driver_call) \<Rightarrow> unit prog \<Rightarrow> native_command \<Rightarrow> 'r prog" where
  "drive env f beforeSend cmd = bnd (await_native env f) (\<lambda>call. case call of
     FailsAtOnce e \<Rightarrow> throw e
   | CallsBack wrap reply \<Rightarrow>
       andthen (catch_with beforeSend (\<lambda>e. throw (wrap e)))
         (andthen (change (\<lambda>w. w\<lparr>cw_sent := cw_sent w @ [cmd]\<rparr>))
           (bnd (await_native env (\<lambda>_. ())) (\<lambda>_. case reply of Inl e \<Rightarrow> throw e | Inr x \<Rightarrow> ret x))))"

definition store_error :: "plan_error \<Rightarrow> ctl_error" where
  "store_error e = (if e \<in> {InvalidExecution, ProjectionFailed} then OtherError else Conflict)"

subsection \<open>\<open>save\<close>, \<open>fence\<close>, \<open>resolve\<close> and \<open>read\<close>\<close>

definition save :: "ctl_env \<Rightarrow> string \<Rightarrow> plan_lease \<Rightarrow> plan_patch \<Rightarrow> unit prog" where
  "save env i lease p = bnd (look cw_execution) (\<lambda>x.
     bnd (await_store env (\<lambda>now. update_execution (ce_project env) now (ex_ownerUserId x) i (ex_revision x) p (Some lease) True))
       (\<lambda>r. case r of Inl e \<Rightarrow> throw (store_error e) | Inr x' \<Rightarrow> change (\<lambda>w. w\<lparr>cw_execution := x'\<rparr>)))"

definition still_ours :: "ctl_env \<Rightarrow> plan_lease \<Rightarrow> execution \<Rightarrow> ctl_world \<Rightarrow> bool" where
  "still_ours env lease current w = (case ex_lease current of None \<Rightarrow> False
     | Some l \<Rightarrow> le_epoch l = le_epoch lease \<and> ex_revision current = ex_revision (cw_execution w)
         \<and> le_expiresAt l > ce_now env (cw_tick w))"

definition fence :: "ctl_env \<Rightarrow> string \<Rightarrow> plan_lease \<Rightarrow> unit prog" where
  "fence env i lease = bnd (look (\<lambda>w. ce_closed env (cw_tick w))) (\<lambda>closed.
     if closed then throw Conflict
     else bnd (await_store env (\<lambda>now. claim_execution i (ce_workerId env) now (ce_leaseMs env)))
       (\<lambda>r w. case r of None \<Rightarrow> throw Conflict w
          | Some current \<Rightarrow> if still_ours env lease current w then (w\<lparr>cw_execution := current\<rparr>, Inr ()) else throw Conflict w))"

definition resolve_control :: "ctl_env \<Rightarrow> string \<Rightarrow> plan_lease \<Rightarrow> control prog" where
  "resolve_control env i lease = bnd (await_answer env (ce_resolve env)) (\<lambda>control.
     andthen (fence env i lease) (andthen (require (ct_inspects control)) (ret control)))"

definition read_thread :: "ctl_env \<Rightarrow> string \<Rightarrow> plan_lease \<Rightarrow> native_thread prog" where
  "read_thread env i lease = bnd (await_answer env (ce_thread env)) (\<lambda>thread.
     andthen (fence env i lease) (bnd (look cw_execution) (\<lambda>x.
       andthen (require (nt_id thread = ex_threadId x \<and> nt_cwd thread = ex_cwd x \<and>
           nt_status thread \<noteq> NOT_LOADED \<and> nt_status thread \<noteq> SYSTEM_ERROR)) (ret thread))))"

definition turn_in_progress :: "native_thread \<Rightarrow> bool" where
  "turn_in_progress thread = list_ex (\<lambda>t. tn_status t = IN_PROGRESS) (nt_turns thread)"

definition turn_ids :: "native_thread \<Rightarrow> string list" where
  "turn_ids thread = map tn_id (nt_turns thread)"

definition unchanged_since :: "string list \<Rightarrow> native_thread \<Rightarrow> bool" where
  "unchanged_since baseline thread = (nt_status thread = IDLE \<and> \<not> turn_in_progress thread \<and> turn_ids thread = baseline)"

text \<open>The fence of \<open>SETTINGS\<close> and \<open>START\<close>, run by the driver immediately before it sends.\<close>

definition before_send :: "ctl_env \<Rightarrow> string \<Rightarrow> plan_lease \<Rightarrow> string list \<Rightarrow> unit prog" where
  "before_send env i lease baseline = bnd (resolve_control env i lease) (\<lambda>_.
     bnd (read_thread env i lease) (\<lambda>latest.
       if \<not> unchanged_since baseline latest then throw Conflict
       else bnd (resolve_control env i lease) (\<lambda>_. fence env i lease)))"

subsection \<open>Patches of the controller\<close>

definition model_retry :: "int \<Rightarrow> execution \<Rightarrow> int option \<Rightarrow> plan_patch \<Rightarrow> plan_patch" where
  "model_retry now x retryAfterMs p =
     (let delay = max 1000 (dflt retryAfterMs (min 300000 (1000 * 2 ^ min (ex_retryCount x) 9)))
      in p\<lparr>pt_status := Some WAITING_FOR_MODEL, pt_statusReason := Some (Some ''The stage model is unavailable. Waiting to retry.''),
           pt_retryCount := Some (ex_retryCount x + 1), pt_nextRetryAt := Some (Some (now + delay))\<rparr>)"

definition block_patch :: "string \<Rightarrow> plan_patch" where
  "block_patch reason = no_patch\<lparr>pt_status := Some BLOCKED, pt_statusReason := Some (Some reason)\<rparr>"

definition release_commands :: "plan_patch \<Rightarrow> plan_patch" where
  "release_commands p = p\<lparr>pt_pendingCommand := Some None, pt_interruptCommand := Some None, pt_interruptReason := Some None\<rparr>"

definition replace_attempt :: "(attempt \<Rightarrow> bool) \<Rightarrow> (attempt \<Rightarrow> attempt) \<Rightarrow> execution \<Rightarrow> attempt list" where
  "replace_attempt P f x = map (\<lambda>a. if P a then f a else a) (ex_attempts x)"

definition unaccepted_patch :: "int \<Rightarrow> execution \<Rightarrow> string \<Rightarrow> delivery \<Rightarrow> retryable \<Rightarrow> plan_patch" where
  "unaccepted_patch now x commandId delivery retryable =
     (let paused = (ex_interruptReason x = Some PAUSE); overridden = (ex_interruptReason x = Some OVERRIDE);
          base = (release_commands no_patch)\<lparr>
            pt_status := Some (if paused then PAUSED else if overridden \<or> delivery = NOT_SENT then RESUMING_STAGE else BLOCKED),
            pt_statusReason := Some (Some ''The native command was not accepted.''),
            pt_attempts := Some (replace_attempt (\<lambda>a. at_commandId a = commandId)
              (\<lambda>a. a\<lparr>at_status := ATTEMPT_FAILED, at_completedAt := Some now\<rparr>) x)\<rparr>
      in if \<not> paused \<and> \<not> overridden \<and> retryable \<noteq> None then model_retry now x (the retryable) base else base)"

definition settle_unaccepted :: "ctl_env \<Rightarrow> string \<Rightarrow> plan_lease \<Rightarrow> string \<Rightarrow> delivery \<Rightarrow> retryable \<Rightarrow> unit prog" where
  "settle_unaccepted env i lease commandId delivery retryable = bnd (now_execution env) (\<lambda>(now, x).
     andthen (save env i lease (unaccepted_patch now x commandId delivery retryable))
       (change (\<lambda>w. w\<lparr>cw_unaccepted := map_delete commandId (cw_unaccepted w)\<rparr>)))"

subsection \<open>A pending \<open>START\<close>\<close>

definition claims_turn :: "command \<Rightarrow> native_turn \<Rightarrow> bool" where
  "claims_turn c t = (cm_id c \<in> set (tn_clientUserMessageIds t))"

text \<open>The one native turn the command started: the last one, the only new one, the only one with its id.\<close>

definition native_of :: "command \<Rightarrow> native_thread \<Rightarrow> native_turn option" where
  "native_of pending thread =
     (let turns = nt_turns thread; matches = filter (claims_turn pending) turns;
          native = (if cm_turnId pending \<in> {None, Some []} then (case matches of [] \<Rightarrow> None | t # _ \<Rightarrow> Some t)
            else List.find (\<lambda>t. Some (tn_id t) = cm_turnId pending) turns);
          newTurns = filter (\<lambda>t. tn_id t \<notin> set (cm_baselineTurnIds pending)) turns
      in case native of None \<Rightarrow> None
         | Some t \<Rightarrow> if map tn_id matches = [tn_id t] \<and> map tn_id newTurns = [tn_id t] \<and> tn_id (last turns) = tn_id t
             then Some t else None)"

definition selection_known :: "turn_evidence option \<Rightarrow> attempt \<Rightarrow> actual_selection option" where
  "selection_known evidence a = (case evidence of Some (VERIFIED s) \<Rightarrow> Some s | _ \<Rightarrow> at_actualSelection a)"

definition observed_attempt :: "attempt \<Rightarrow> native_turn \<Rightarrow> actual_selection option \<Rightarrow> attempt" where
  "observed_attempt a native actual = a\<lparr>at_turnId := Some (tn_id native), at_actualSelection := actual, at_status := ATTEMPT_RUNNING\<rparr>"

definition observation_missing :: "command \<Rightarrow> attempt \<Rightarrow> native_turn \<Rightarrow> actual_selection option \<Rightarrow> bool" where
  "observation_missing pending a native actual = (cm_turnId pending \<noteq> Some (tn_id native) \<or> cm_status pending \<noteq> CMD_SENT \<or>
     at_turnId a \<noteq> Some (tn_id native) \<or> at_status a \<noteq> ATTEMPT_RUNNING \<or> (actual \<noteq> None \<and> at_actualSelection a = None))"

definition reconcile_acknowledged :: "ctl_env \<Rightarrow> string \<Rightarrow> plan_lease \<Rightarrow> native_turn \<Rightarrow> unit prog" where
  "reconcile_acknowledged env i lease native = bnd (look id) (\<lambda>w. case ex_interruptCommand (cw_execution w) of
     None \<Rightarrow> ret ()
   | Some c \<Rightarrow> if cm_turnId c = Some (tn_id native) \<and> map_of (cw_acknowledged w) (cm_id c) = Some (tn_id native)
       then andthen (save env i lease (no_patch\<lparr>pt_interruptCommand := Some (Some (c\<lparr>cm_status := CMD_SENT\<rparr>))\<rparr>))
         (change (\<lambda>w. w\<lparr>cw_acknowledged := map_delete (cm_id c) (cw_acknowledged w)\<rparr>))
       else ret ())"

definition interrupt_callback :: "ctl_env \<Rightarrow> string \<Rightarrow> plan_lease \<Rightarrow> native_turn \<Rightarrow> command \<Rightarrow> unit prog" where
  "interrupt_callback env i lease native c = bnd (resolve_control env i lease) (\<lambda>_.
     bnd (read_thread env i lease) (\<lambda>latest.
       if (case nt_turns latest of [] \<Rightarrow> True
           | _ \<Rightarrow> tn_id (last (nt_turns latest)) \<noteq> tn_id native \<or> tn_status (last (nt_turns latest)) \<noteq> IN_PROGRESS)
       then throw Conflict
       else bnd (resolve_control env i lease) (\<lambda>_.
         andthen (save env i lease (no_patch\<lparr>pt_interruptCommand := Some (Some (c\<lparr>cm_status := CMD_UNKNOWN\<rparr>))\<rparr>))
           (fence env i lease))))"

definition send_interrupt :: "ctl_env \<Rightarrow> string \<Rightarrow> plan_lease \<Rightarrow> native_turn \<Rightarrow> command \<Rightarrow> unit prog" where
  "send_interrupt env i lease native c = bnd (resolve_control env i lease) (\<lambda>_.
     catch_with
       (andthen (drive env (ce_interruptTurn env) (interrupt_callback env i lease native c) (NativeInterrupt (tn_id native)))
         (andthen (change (\<lambda>w. w\<lparr>cw_acknowledged := map_set (cm_id c) (tn_id native) (cw_acknowledged w)\<rparr>))
           (andthen (fence env i lease)
             (andthen (save env i lease (no_patch\<lparr>pt_interruptCommand := Some (Some (c\<lparr>cm_status := CMD_SENT\<rparr>))\<rparr>))
               (change (\<lambda>w. w\<lparr>cw_acknowledged := map_delete (cm_id c) (cw_acknowledged w)\<rparr>))))))
       (\<lambda>e. if e = Conflict then throw Conflict else fence env i lease))"

definition interrupt_running ::
  "ctl_env \<Rightarrow> string \<Rightarrow> plan_lease \<Rightarrow> plan_stage \<Rightarrow> command \<Rightarrow> native_turn \<Rightarrow> unit prog" where
  "interrupt_running env i lease stage pending native =
     bnd (look (\<lambda>w. (ce_now env (cw_tick w), ce_uuid env (cw_tick w) 0, cw_execution w))) (\<lambda>(now, uuid, x).
       bnd (case ex_interruptCommand x of Some c \<Rightarrow> ret c
            | None \<Rightarrow> (let c = pending\<lparr>cm_id := uuid, cm_type := INTERRUPT, cm_turnId := Some (tn_id native),
                           cm_status := CMD_PREPARED, cm_preparedAt := now\<rparr>
                in andthen (save env i lease (no_patch\<lparr>pt_interruptCommand := Some (Some c)\<rparr>)) (ret c)))
         (\<lambda>intent. andthen (require (cm_turnId intent = Some (tn_id native) \<and> cm_stageId intent = sg_id stage))
           (if cm_status intent \<noteq> CMD_SENT then send_interrupt env i lease native intent else ret ())))"

definition observe_running ::
  "ctl_env \<Rightarrow> string \<Rightarrow> plan_lease \<Rightarrow> plan_stage \<Rightarrow> native_thread \<Rightarrow> command \<Rightarrow> native_turn \<Rightarrow> unit prog" where
  "observe_running env i lease stage thread pending native = bnd (look cw_execution) (\<lambda>x.
     if ex_interruptReason x \<noteq> None then interrupt_running env i lease stage pending native
     else if list_ex (\<lambda>f. f = ''waitingOnApproval'' \<or> f = ''waitingOnUserInput'') (nt_activeFlags thread)
       then (if ex_status x \<noteq> WAITING_FOR_INPUT
         then save env i lease (no_patch\<lparr>pt_status := Some WAITING_FOR_INPUT,
           pt_statusReason := Some (Some ''Native turn requires approval or input.'')\<rparr>) else ret ())
     else if ex_status x \<noteq> RUNNING
       then save env i lease (no_patch\<lparr>pt_status := Some RUNNING, pt_statusReason := Some None\<rparr>)
     else ret ())"

definition closure_awaited :: string where
  "closure_awaited = ''Waiting for the native turn closure notification.''"

definition await_closure :: "ctl_env \<Rightarrow> string \<Rightarrow> plan_lease \<Rightarrow> command \<Rightarrow> unit prog" where
  "await_closure env i lease pending = bnd (look id) (\<lambda>w.
     let now = ce_now env (cw_tick w); x = cw_execution w;
         firstClosedAt = dflt (map_of (cw_closedAt w) (cm_id pending)) now
     in andthen (change (\<lambda>w. w\<lparr>cw_closedAt := map_set (cm_id pending) firstClosedAt (cw_closedAt w)\<rparr>))
       (if now - firstClosedAt \<ge> ce_closedTurnTimeoutMs env
        then save env i lease (block_patch ''The native turn closed, but its closure notification was not observed before the deadline. Review before resuming.'')
        else if ex_status x \<noteq> RUNNING \<or> ex_statusReason x \<noteq> Some closure_awaited
        then save env i lease (no_patch\<lparr>pt_status := Some RUNNING, pt_statusReason := Some (Some closure_awaited)\<rparr>)
        else ret ()))"

definition selection_verified :: "execution \<Rightarrow> command \<Rightarrow> native_turn \<Rightarrow> actual_selection option \<Rightarrow> bool" where
  "selection_verified x pending native actual = (case actual of None \<Rightarrow> False
     | Some s \<Rightarrow> as_threadId s = ex_threadId x \<and> as_turnId s = tn_id native \<and> as_commandId s = cm_id pending \<and>
         as_modelId s = ms_modelId (cm_selection pending) \<and> as_reasoningEffort s = ms_reasoningEffort (cm_selection pending) \<and>
         tn_userMessageCount native = Some 1)"

definition stopped_patch :: "int \<Rightarrow> execution \<Rightarrow> native_turn \<Rightarrow> attempt \<Rightarrow> attempt \<Rightarrow> plan_patch" where
  "stopped_patch now x native a observed =
     (let controlled = (ex_interruptReason x = Some OVERRIDE \<and> (case ex_interruptCommand x of None \<Rightarrow> False
            | Some c \<Rightarrow> cm_status c = CMD_SENT \<and> cm_turnId c = Some (tn_id native)));
          base = (release_commands no_patch)\<lparr>
            pt_status := Some (if tn_status native = TURN_INTERRUPTED then (if controlled then RESUMING_STAGE else PAUSED) else BLOCKED),
            pt_statusReason := Some (Some ''Native turn stopped before stage completion.''),
            pt_attempts := Some (replace_attempt (\<lambda>b. at_id b = at_id a) (\<lambda>_. observed\<lparr>
              at_status := (if tn_status native = TURN_INTERRUPTED then ATTEMPT_INTERRUPTED else ATTEMPT_FAILED),
              at_completedAt := Some now\<rparr>) x)\<rparr>
      in if tn_status native = TURN_FAILED \<and> tn_retryableFailure native \<noteq> None \<and> ex_interruptReason x \<noteq> Some PAUSE
         then model_retry now x (the (tn_retryableFailure native)) base else base)"

definition turn_result :: "ctl_env \<Rightarrow> native_turn \<Rightarrow> stage_result option" where
  "turn_result env native = (case tn_resultText native of
     Some text \<Rightarrow> if tn_itemsComplete native \<and> text \<noteq> [] then Option.bind (ce_parse env text) parse_stage_result else None
   | None \<Rightarrow> None)"

definition completed_attempts :: "int \<Rightarrow> execution \<Rightarrow> attempt \<Rightarrow> attempt \<Rightarrow> stage_result option \<Rightarrow> attempt list" where
  "completed_attempts now x a observed result = replace_attempt (\<lambda>b. at_id b = at_id a)
     (\<lambda>_. observed\<lparr>at_status := ATTEMPT_COMPLETED, at_completedAt := Some now, at_result := result\<rparr>) x"

definition insufficient_patch :: "execution \<Rightarrow> attempt list \<Rightarrow> plan_patch" where
  "insufficient_patch x as = (release_commands no_patch)\<lparr>pt_attempts := Some as, pt_correctionCount := Some (ex_correctionCount x + 1),
     pt_status := Some (if ex_interruptReason x = Some PAUSE then PAUSED
       else if ex_correctionCount x = 0 then RESUMING_STAGE else BLOCKED),
     pt_statusReason := Some (Some ''Native result is incomplete or lacks criterion evidence.'')\<rparr>"

definition advanced_patch :: "execution \<Rightarrow> plan_stage \<Rightarrow> attempt list \<Rightarrow> stage_result \<Rightarrow> plan_patch" where
  "advanced_patch x stage as result =
     (let completed = (if rs_outcome result = STAGE_COMPLETED then ex_completedStageIds x @ [sg_id stage] else ex_completedStageIds x);
          finished = (length completed = length (sn_stages (ex_snapshot x)))
      in (release_commands no_patch)\<lparr>pt_attempts := Some as, pt_completedStageIds := Some completed,
        pt_checkpoint := Some (Some (rs_summary result)), pt_retryCount := Some 0, pt_nextRetryAt := Some None,
        pt_activeStageIndex := Some (if finished then ex_activeStageIndex x
          else ex_activeStageIndex x + (if rs_outcome result = STAGE_COMPLETED then 1 else 0)),
        pt_correctionCount := Some (if rs_outcome result = STAGE_COMPLETED then 0 else ex_correctionCount x),
        pt_status := Some (if rs_outcome result = STAGE_BLOCKED then BLOCKED else if finished then COMPLETED
          else if ex_interruptReason x = Some PAUSE then PAUSED else RESUMING_STAGE),
        pt_statusReason := Some (if rs_outcome result = STAGE_BLOCKED then Some (rs_summary result) else None)\<rparr>)"

definition close_turn ::
  "ctl_env \<Rightarrow> string \<Rightarrow> plan_lease \<Rightarrow> plan_stage \<Rightarrow> command \<Rightarrow> native_turn \<Rightarrow> attempt \<Rightarrow> actual_selection option \<Rightarrow> unit prog" where
  "close_turn env i lease stage pending native a actual = bnd (now_execution env) (\<lambda>(now, x).
     let observed = observed_attempt a native actual in
     if \<not> selection_verified x pending native actual
     then save env i lease (block_patch ''Native turn configuration could not be verified because its observation is missing or inconsistent. The START command will not be resent.'')
     else if tn_status native \<noteq> TURN_COMPLETED then save env i lease (stopped_patch now x native a observed)
     else let result = turn_result env native; as = completed_attempts now x a observed result in
       (case result of
          Some r \<Rightarrow> if sufficient_result stage r then save env i lease (advanced_patch x stage as r)
            else save env i lease (insufficient_patch x as)
        | None \<Rightarrow> save env i lease (insufficient_patch x as)))"

definition observe_turn ::
  "ctl_env \<Rightarrow> string \<Rightarrow> plan_lease \<Rightarrow> plan_stage \<Rightarrow> native_thread \<Rightarrow> command \<Rightarrow> native_turn \<Rightarrow> attempt \<Rightarrow> unit prog" where
  "observe_turn env i lease stage thread pending native a = bnd (look id) (\<lambda>w.
     let evidence = (if cm_id pending \<in> set (cw_observations w) then Some (ce_evidence env (cm_id pending) (cw_tick w)) else None);
         actual = selection_known evidence a; x = cw_execution w; observed = observed_attempt a native actual
     in andthen (if observation_missing pending a native actual
          then save env i lease (no_patch\<lparr>pt_pendingCommand := Some (Some (pending\<lparr>cm_status := CMD_SENT, cm_turnId := Some (tn_id native)\<rparr>)),
                 pt_attempts := Some (replace_attempt (\<lambda>b. at_id b = at_id a) (\<lambda>_. observed) x)\<rparr>)
          else ret ())
       (andthen (require (evidence \<noteq> Some INVALID))
         (if tn_status native = IN_PROGRESS then observe_running env i lease stage thread pending native
          else if actual = None \<and> evidence = Some OBSERVING then await_closure env i lease pending
          else close_turn env i lease stage pending native a actual)))"

definition observe_start ::
  "ctl_env \<Rightarrow> string \<Rightarrow> plan_lease \<Rightarrow> plan_stage \<Rightarrow> native_thread \<Rightarrow> command \<Rightarrow> unit prog" where
  "observe_start env i lease stage thread pending = bnd (look cw_unaccepted) (\<lambda>unaccepted.
     case map_of unaccepted (cm_id pending) of
       Some (delivery, retryable) \<Rightarrow>
         andthen (require (\<not> list_ex (claims_turn pending) (nt_turns thread)))
           (settle_unaccepted env i lease (cm_id pending) delivery retryable)
     | None \<Rightarrow> (case native_of pending thread of
         None \<Rightarrow> throw OtherError
       | Some native \<Rightarrow> andthen (reconcile_acknowledged env i lease native)
           (bnd (look cw_execution) (\<lambda>x. case List.find (\<lambda>a. at_commandId a = cm_id pending) (ex_attempts x) of
              None \<Rightarrow> throw OtherError
            | Some a \<Rightarrow> observe_turn env i lease stage thread pending native a))))"

subsection \<open>A stage without a pending \<open>START\<close>\<close>

definition newline2 :: string where
  "newline2 = [char_of (10 :: nat), char_of (10 :: nat)]"

definition stage_prompt :: "execution \<Rightarrow> plan_stage \<Rightarrow> string" where
  "stage_prompt x stage = join_with newline2 (filter (\<lambda>s. s \<noteq> [])
     [''Immutable whole-plan context (shared specification and constraints apply to this stage):'' @ take 1 newline2 @ sn_text (ex_snapshot x),
      ''Execute only stage '' @ show_nat (sg_order stage) @ '': '' @ sg_title stage
        @ ''. Do not execute other stages; their descriptions are context only.'',
      sg_instructions stage,
      ''Completion criteria (return each exact criterion with concrete evidence):'' @ take 1 newline2
        @ join_with (take 1 newline2) (sg_completionCriteria stage),
      (case ex_checkpoint x of Some (c # cs) \<Rightarrow> ''Previous checkpoint: '' @ c # cs | _ \<Rightarrow> []),
      (if list_ex (\<lambda>a. at_stageId a = sg_id stage \<and> at_status a \<in> {ATTEMPT_INTERRUPTED, ATTEMPT_FAILED}) (ex_attempts x)
       then ''Recovery: inspect the previous native turn and repository for partial actions and side effects before acting. Preserve completed work; never blindly repeat an unsafe action. If its outcome cannot be established, return BLOCKED and request input.'' else []),
      (if ex_correctionCount x \<noteq> 0
       then ''Correction: the previous result was incomplete. Return valid structured evidence; do not repeat completed actions.'' else []),
      ''Return CONTINUE for further work in this stage, COMPLETED only when every criterion is met, or BLOCKED for a real obstacle. Never mark progress via legacy PLAN APIs.''])"

definition max_stage_attempts :: "ctl_env \<Rightarrow> nat" where
  "max_stage_attempts env = nat (max 1 (dflt (ce_maxStageAttempts env) 20))"

definition stage_selection :: "execution \<Rightarrow> plan_stage \<Rightarrow> model_selection" where
  "stage_selection x stage = dflt (map_of (ex_overrides x) (sg_id stage))
     \<lparr>ms_modelId = sg_modelId stage, ms_reasoningEffort = sg_reasoningEffort stage\<rparr>"

definition advertised :: "(string \<times> string list) list \<Rightarrow> model_selection \<Rightarrow> bool" where
  "advertised models s = list_ex (\<lambda>(m, efforts). m = ms_modelId s \<and> ms_reasoningEffort s \<in> set efforts) models"

definition shows_selection :: "native_settings \<Rightarrow> model_selection \<Rightarrow> bool" where
  "shows_selection settings s = (ns_modelId settings = ms_modelId s \<and> ns_reasoningEffort settings = ms_reasoningEffort s)"

definition attempt_limit_patch :: "plan_stage \<Rightarrow> nat \<Rightarrow> plan_patch" where
  "attempt_limit_patch stage limit = no_patch\<lparr>pt_status := Some FAILED, pt_errorCode := Some (Some ''PLAN_STAGE_ATTEMPT_LIMIT''),
     pt_pendingCommand := Some None, pt_nextRetryAt := Some None,
     pt_statusReason := Some (Some (''Stage '' @ show_nat (sg_order stage) @ '' used its limit of '' @ show_nat limit
       @ '' native turns without completing. No further turn was sent. Review the stage, then start a new execution.''))\<rparr>"

definition rejected_settings_patch :: "int \<Rightarrow> execution \<Rightarrow> command \<Rightarrow> retryable \<Rightarrow> plan_patch" where
  "rejected_settings_patch now x c retryable = (case retryable of
     Some after' \<Rightarrow> model_retry now x after' (no_patch\<lparr>pt_pendingCommand := Some (Some (c\<lparr>cm_status := CMD_PREPARED\<rparr>))\<rparr>)
   | None \<Rightarrow> no_patch\<lparr>pt_pendingCommand := Some None, pt_status := Some BLOCKED,
       pt_statusReason := Some (Some ''Native thread settings were rejected. Review the stage selection before resuming.'')\<rparr>)"

definition unknown_settings_patch :: "command \<Rightarrow> plan_patch" where
  "unknown_settings_patch c = no_patch\<lparr>pt_pendingCommand := Some (Some (c\<lparr>cm_status := CMD_UNKNOWN\<rparr>)),
     pt_status := Some RESUMING_STAGE, pt_statusReason := Some (Some ''Reconciling native thread settings.'')\<rparr>"

definition prepared_attempt :: "string \<Rightarrow> plan_stage \<Rightarrow> command \<Rightarrow> attempt" where
  "prepared_attempt uuid stage start = \<lparr>at_id = uuid, at_stageId = sg_id stage, at_commandId = cm_id start, at_turnId = None,
     at_selection = cm_selection start, at_actualSelection = None, at_status = ATTEMPT_PREPARED,
     at_startedAt = cm_preparedAt start, at_completedAt = None, at_result = None\<rparr>"

definition started_patch :: "execution \<Rightarrow> command \<Rightarrow> string \<Rightarrow> plan_patch" where
  "started_patch x start turnId = no_patch\<lparr>pt_status := Some RUNNING, pt_nextRetryAt := Some None,
     pt_pendingCommand := Some (Some (start\<lparr>cm_status := CMD_SENT, cm_turnId := Some turnId\<rparr>)),
     pt_attempts := Some (replace_attempt (\<lambda>a. at_commandId a = cm_id start)
       (\<lambda>a. a\<lparr>at_status := ATTEMPT_RUNNING, at_turnId := Some turnId\<rparr>) x)\<rparr>"

definition failed_start ::
  "ctl_env \<Rightarrow> string \<Rightarrow> plan_lease \<Rightarrow> command \<Rightarrow> ctl_error \<Rightarrow> unit prog" where
  "failed_start env i lease start e =
     (let reconcile = save env i lease (no_patch\<lparr>pt_status := Some RUNNING,
            pt_pendingCommand := Some (Some (start\<lparr>cm_status := CMD_UNKNOWN\<rparr>)),
            pt_statusReason := Some (Some ''Reconciling native command acceptance.'')\<rparr>)
      in case e of
        Conflict \<Rightarrow> throw Conflict
      | DeliveryError delivery retryable \<Rightarrow>
          if delivery = DELIVERY_UNKNOWN then reconcile
          else andthen (change (\<lambda>w. w\<lparr>cw_unaccepted := map_set (cm_id start) (delivery, retryable) (cw_unaccepted w)\<rparr>))
            (bnd (resolve_control env i lease) (\<lambda>_. settle_unaccepted env i lease (cm_id start) delivery retryable))
      | _ \<Rightarrow> reconcile)"

definition send_start :: "ctl_env \<Rightarrow> string \<Rightarrow> plan_lease \<Rightarrow> string \<Rightarrow> command \<Rightarrow> unit prog" where
  "send_start env i lease prompt start = catch_with
     (bnd (drive env (ce_startTurn env) (before_send env i lease (cm_baselineTurnIds start)) (NativeStart (cm_id start) prompt))
       (\<lambda>turnId. andthen (change (\<lambda>w. w\<lparr>cw_observations := List.insert (cm_id start) (cw_observations w)\<rparr>))
         (andthen (fence env i lease)
           (bnd (look cw_execution) (\<lambda>x. save env i lease (started_patch x start turnId))))))
     (failed_start env i lease start)"

definition prepare_start ::
  "ctl_env \<Rightarrow> string \<Rightarrow> plan_lease \<Rightarrow> plan_stage \<Rightarrow> string \<Rightarrow> command \<Rightarrow> unit prog" where
  "prepare_start env i lease stage prompt c =
     bnd (look (\<lambda>w. (ce_now env (cw_tick w), ce_uuid env (cw_tick w) 0, ce_uuid env (cw_tick w) 1, cw_execution w)))
       (\<lambda>(now, startId, attemptId, x). let start = c\<lparr>cm_id := startId, cm_type := START, cm_preparedAt := now\<rparr> in
        andthen (save env i lease (no_patch\<lparr>pt_pendingCommand := Some (Some start),
            pt_attempts := Some (ex_attempts x @ [prepared_attempt attemptId stage start])\<rparr>))
          (bnd (resolve_control env i lease) (\<lambda>_. andthen (fence env i lease) (send_start env i lease prompt start))))"

definition confirm_settings ::
  "ctl_env \<Rightarrow> string \<Rightarrow> plan_lease \<Rightarrow> plan_stage \<Rightarrow> string \<Rightarrow> command \<Rightarrow> unit prog" where
  "confirm_settings env i lease stage prompt c = andthen (fence env i lease)
     (bnd (await_answer env (ce_settings env)) (\<lambda>settings. andthen (fence env i lease) (bnd (look cw_execution) (\<lambda>x.
       andthen (require (ns_cwd settings = ex_cwd x \<and> shows_selection settings (cm_selection c) \<and> \<not> ns_isTurnActive settings))
         (andthen (save env i lease (no_patch\<lparr>pt_pendingCommand := Some (Some (c\<lparr>cm_status := CMD_SENT\<rparr>))\<rparr>))
           (bnd (resolve_control env i lease) (\<lambda>_. bnd (read_thread env i lease) (\<lambda>thread.
             andthen (require (unchanged_since (cm_baselineTurnIds c) thread \<and> nt_modelId thread = ms_modelId (cm_selection c)
                 \<and> nt_reasoningEffort thread = ms_reasoningEffort (cm_selection c)))
               (prepare_start env i lease stage prompt c))))))))) "

definition failed_settings :: "ctl_env \<Rightarrow> string \<Rightarrow> plan_lease \<Rightarrow> command \<Rightarrow> ctl_error \<Rightarrow> bool prog" where
  "failed_settings env i lease c e = (if e = Conflict then throw Conflict
     else bnd (resolve_control env i lease) (\<lambda>_. bnd (now_execution env) (\<lambda>(now, x).
       andthen (save env i lease (case e of SettingsRejected retryable \<Rightarrow> rejected_settings_patch now x c retryable
           | _ \<Rightarrow> unknown_settings_patch c))
         (ret False))))"

text \<open>Writes the settings, unless an earlier intent already shows in them; \<open>False\<close> where the code returns.\<close>

definition write_settings ::
  "ctl_env \<Rightarrow> string \<Rightarrow> plan_lease \<Rightarrow> command option \<Rightarrow> command \<Rightarrow> native_settings \<Rightarrow> bool prog" where
  "write_settings env i lease pending c shown = (if pending = None \<or> \<not> shows_selection shown (cm_selection c)
     then catch_with (andthen (drive env (ce_updateSettings env) (before_send env i lease (cm_baselineTurnIds c))
         (NativeSettings (cm_selection c))) (ret True)) (failed_settings env i lease c)
     else ret True)"

definition apply_settings ::
  "ctl_env \<Rightarrow> string \<Rightarrow> plan_lease \<Rightarrow> plan_stage \<Rightarrow> string \<Rightarrow> command option \<Rightarrow> command \<Rightarrow> unit prog" where
  "apply_settings env i lease stage prompt pending c =
     bnd (resolve_control env i lease) (\<lambda>_. bnd (read_thread env i lease) (\<lambda>thread.
       andthen (require (unchanged_since (cm_baselineTurnIds c) thread))
         (andthen (fence env i lease) (bnd (await_answer env (ce_settings env)) (\<lambda>shown. andthen (fence env i lease)
           (bnd (look cw_execution) (\<lambda>x. andthen (require (ns_cwd shown = ex_cwd x \<and> \<not> ns_isTurnActive shown))
             (if map_option cm_status pending = Some CMD_UNKNOWN \<and> \<not> shows_selection shown (cm_selection c)
              then bnd (resolve_control env i lease) (\<lambda>_. bnd (now_execution env) (\<lambda>(now, x).
                save env i lease (model_retry now x None (no_patch\<lparr>pt_pendingCommand := Some (Some (c\<lparr>cm_status := CMD_PREPARED\<rparr>))\<rparr>))))
              else bnd (write_settings env i lease pending c shown)
                (\<lambda>go_on. if go_on then confirm_settings env i lease stage prompt c else ret ())))))))))"

definition settings_match :: "plan_stage \<Rightarrow> model_selection \<Rightarrow> command option \<Rightarrow> bool" where
  "settings_match stage selection pending = (case pending of None \<Rightarrow> True
     | Some c \<Rightarrow> cm_type c = SETTINGS \<and> cm_stageId c = sg_id stage \<and> cm_selection c = selection)"

definition settings_command :: "plan_stage \<Rightarrow> model_selection \<Rightarrow> native_thread \<Rightarrow> command option \<Rightarrow> int \<Rightarrow> string \<Rightarrow> command" where
  "settings_command stage selection thread pending now uuid = dflt pending
     \<lparr>cm_id = uuid, cm_type = SETTINGS, cm_stageId = sg_id stage, cm_turnId = None, cm_selection = selection,
      cm_preparedAt = now, cm_status = CMD_PREPARED, cm_baselineTurnIds = turn_ids thread\<rparr>"

definition switch_model ::
  "ctl_env \<Rightarrow> string \<Rightarrow> plan_lease \<Rightarrow> plan_stage \<Rightarrow> string \<Rightarrow> command option \<Rightarrow> command \<Rightarrow> unit prog" where
  "switch_model env i lease stage prompt pending c = andthen
     (if pending = None
      then save env i lease (no_patch\<lparr>pt_status := Some SWITCHING_MODEL, pt_pendingCommand := Some (Some c),
        pt_statusReason := Some None, pt_nextRetryAt := Some None\<rparr>) else ret ())
     (apply_settings env i lease stage prompt pending c)"

definition select_model ::
  "ctl_env \<Rightarrow> string \<Rightarrow> plan_lease \<Rightarrow> plan_stage \<Rightarrow> string \<Rightarrow> native_thread \<Rightarrow> model_selection \<Rightarrow> command option \<Rightarrow>
   (string \<times> string list) list \<Rightarrow> unit prog" where
  "select_model env i lease stage prompt thread selection pending models =
     (if \<not> advertised models selection
      then bnd (now_execution env) (\<lambda>(now, x). save env i lease (model_retry now x None no_patch))
      else andthen (require (settings_match stage selection pending))
        (bnd (look (\<lambda>w. (ce_now env (cw_tick w), ce_uuid env (cw_tick w) 0))) (\<lambda>(now, uuid).
          switch_model env i lease stage prompt pending (settings_command stage selection thread pending now uuid))))"

definition begin_stage ::
  "ctl_env \<Rightarrow> string \<Rightarrow> plan_lease \<Rightarrow> plan_stage \<Rightarrow> string \<Rightarrow> control \<Rightarrow> native_thread \<Rightarrow> unit prog" where
  "begin_stage env i lease stage prompt control thread =
     (if nt_status thread = ACTIVE \<or> turn_in_progress thread then ret ()
      else bnd (look cw_execution) (\<lambda>x.
        if length (filter (\<lambda>a. at_stageId a = sg_id stage) (ex_attempts x)) \<ge> max_stage_attempts env
        then save env i lease (attempt_limit_patch stage (max_stage_attempts env))
        else andthen (require (ct_starts control)) (bnd (await_answer env (ce_models env)) (\<lambda>models. andthen (fence env i lease)
          (select_model env i lease stage prompt thread (stage_selection x stage) (ex_pendingCommand x) models)))))"

subsection \<open>One advance\<close>

definition runnable :: "plan_status \<Rightarrow> bool" where
  "runnable s = (s \<in> {RUNNING, SWITCHING_MODEL, RESUMING_STAGE, WAITING_FOR_INPUT, WAITING_FOR_MODEL})"

definition advance_stage :: "ctl_env \<Rightarrow> string \<Rightarrow> plan_lease \<Rightarrow> control \<Rightarrow> native_thread \<Rightarrow> execution \<Rightarrow> unit prog" where
  "advance_stage env i lease control thread x = (case active_stage x of None \<Rightarrow> throw OtherError
     | Some stage \<Rightarrow> let prompt = stage_prompt x stage in
         if length (js_trim prompt) > 20000
         then save env i lease (block_patch ''The complete stage prompt, including whole-plan context, exceeds the 20,000 character native limit. Prepare a shorter plan with all required specifications and constraints before starting another execution.'')
         else (case pending_start x of
             Some pending \<Rightarrow> observe_start env i lease stage thread pending
           | None \<Rightarrow> begin_stage env i lease stage prompt control thread))"

definition advance_body :: "ctl_env \<Rightarrow> string \<Rightarrow> plan_lease \<Rightarrow> unit prog" where
  "advance_body env i lease = bnd (now_execution env) (\<lambda>(now, x).
     if \<not> runnable (ex_status x) then ret ()
     else if ex_status x = WAITING_FOR_MODEL \<and> (case ex_nextRetryAt x of None \<Rightarrow> False | Some t \<Rightarrow> t > now) then ret ()
     else bnd (resolve_control env i lease) (\<lambda>control. bnd (read_thread env i lease) (\<lambda>thread.
       bnd (look cw_execution) (advance_stage env i lease control thread))))"

definition forget_commands :: "execution \<Rightarrow> ctl_world \<Rightarrow> ctl_world" where
  "forget_commands x w =
     (let stopped = filter (\<lambda>c. cm_type c = INTERRUPT \<and>
            (Some (cm_id c) \<noteq> map_option cm_id (ex_interruptCommand x) \<or> \<not> runnable (ex_status x))) (ex_commands x);
          consumed = map at_commandId (filter (\<lambda>a. \<not> (runnable (ex_status x) \<and>
            map_option cm_id (ex_pendingCommand x) = Some (at_commandId a))) (ex_attempts x))
      in w\<lparr>cw_acknowledged := fold map_delete (map cm_id stopped) (cw_acknowledged w),
           cw_unaccepted := fold map_delete consumed (cw_unaccepted w),
           cw_observations := filter (\<lambda>c. c \<notin> set consumed) (cw_observations w),
           cw_closedAt := fold map_delete consumed (cw_closedAt w)\<rparr>)"

definition clean_up :: "ctl_env \<Rightarrow> string \<Rightarrow> plan_lease \<Rightarrow> unit prog" where
  "clean_up env i lease = bnd (look cw_execution) (\<lambda>x.
     bnd (await_store env (\<lambda>now s. (s, get_execution (ex_ownerUserId x) i s))) (\<lambda>latest.
       andthen (change (forget_commands (dflt latest x)))
         (await_store env (\<lambda>now s. (release_execution i lease s, ())))))"

definition advance :: "ctl_env \<Rightarrow> string \<Rightarrow> unit prog" where
  "advance env i = bnd (await_store env (\<lambda>now. claim_execution i (ce_workerId env) now (ce_leaseMs env))) (\<lambda>claimed.
     case claimed of None \<Rightarrow> ret () | Some x \<Rightarrow> (case ex_lease x of None \<Rightarrow> ret ()
       | Some lease \<Rightarrow> andthen (change (\<lambda>w. w\<lparr>cw_execution := x\<rparr>))
           (finally_do
             (catch_with (advance_body env i lease) (\<lambda>e. if e = Conflict then ret ()
                else save env i lease (block_patch ''Execution identity, authorization or native state could not be confirmed. Review before resuming.'')))
             (clean_up env i lease))))"

subsection \<open>One tick\<close>

text \<open>A list the repository is asked for; the promise may be rejected, as with a database that is away.\<close>

definition await_list :: "ctl_env \<Rightarrow> (plan_store \<Rightarrow> 'a list) \<Rightarrow> 'a list prog" where
  "await_list env f = bnd (await_store env (\<lambda>now s. (s, f s))) (\<lambda>xs.
     bnd (look (\<lambda>w. ce_listFails env (cw_tick w))) (\<lambda>fails. if fails then throw OtherError else ret xs))"

text \<open>\<open>flushEvents\<close> publishes the outbox in order and acknowledges what was published; an error ends it.\<close>

fun publish_all :: "ctl_env \<Rightarrow> plan_event list \<Rightarrow> unit prog" where
  "publish_all env [] = ret ()"
| "publish_all env (e # es) =
     bnd (await_answer env (\<lambda>n. if ce_publish env n e then Some () else None)) (\<lambda>_.
       andthen (change (\<lambda>w. w\<lparr>cw_published := cw_published w @ [e]\<rparr>))
         (bnd (await_store env (\<lambda>now. acknowledge_event (fst (pe_id e)) (oe_revision (pe_entry e)))) (\<lambda>r. case r of
            Inl err \<Rightarrow> throw (store_error err) | Inr _ \<Rightarrow> publish_all env es)))"

definition flush_events :: "ctl_env \<Rightarrow> unit prog" where
  "flush_events env = catch_with (bnd (await_list env list_pending_events) (publish_all env)) (\<lambda>_. ret ())"

fun advance_all :: "ctl_env \<Rightarrow> execution list \<Rightarrow> unit prog" where
  "advance_all env [] = ret ()"
| "advance_all env (x # xs) = bnd (look (\<lambda>w. ce_closed env (cw_tick w))) (\<lambda>closed.
     if closed then ret ()
     else andthen (if runnable (ex_status x) then catch_with (advance env (ex_id x)) (\<lambda>_. ret ()) else ret ())
       (advance_all env xs))"

text \<open>\<open>run\<close>: nothing catches a rejected \<open>listActive\<close>, so the tick raises it.\<close>

definition run_tick :: "ctl_env \<Rightarrow> unit prog" where
  "run_tick env = andthen (flush_events env)
     (bnd (await_list env list_active) (\<lambda>active.
       andthen (advance_all env active) (flush_events env)))"

end
