(* ===== verification/Plan_Logic.thy ===== *)
theory Plan_Logic
  imports Plan_Controller
begin

text \<open>
  A program logic for the controller: triples with a postcondition for values and one for exceptions,
  and an assertion that survives whatever the other parts of the program do to the repository at an
  await. What they may do is the rely condition \<open>environment_ok\<close>: revisions never go back, a revision
  names one state of an execution (what \<open>Plan_Store\<close> proves of the repository), and they keep the
  invariant of progress (what \<open>Plan_Progress\<close> proves of the operator's requests).
\<close>

subsection \<open>Triples\<close>

definition triple :: "(ctl_world \<Rightarrow> bool) \<Rightarrow> 'a prog \<Rightarrow> ('a \<Rightarrow> ctl_world \<Rightarrow> bool) \<Rightarrow> (ctl_world \<Rightarrow> bool) \<Rightarrow> bool" where
  "triple P m Q E = (\<forall>w. P w \<longrightarrow> (case m w of (w', Inl e) \<Rightarrow> E w' | (w', Inr x) \<Rightarrow> Q x w'))"

lemma tripleI: "(\<And>w. P w \<Longrightarrow> (case m w of (w', Inl e) \<Rightarrow> E w' | (w', Inr x) \<Rightarrow> Q x w')) \<Longrightarrow> triple P m Q E"
  by (simp add: triple_def)

lemma tripleD: "triple P m Q E \<Longrightarrow> P w \<Longrightarrow> (case m w of (w', Inl e) \<Rightarrow> E w' | (w', Inr x) \<Rightarrow> Q x w')"
  by (simp add: triple_def)

lemma triple_conseq:
  assumes "triple P m Q E" "\<And>w. P' w \<Longrightarrow> P w" "\<And>x w. Q x w \<Longrightarrow> Q' x w" "\<And>w. E w \<Longrightarrow> E' w"
  shows "triple P' m Q' E'"
proof (rule tripleI)
  fix w assume "P' w"
  with assms(1,2) have "case m w of (w', Inl e) \<Rightarrow> E w' | (w', Inr x) \<Rightarrow> Q x w'" by (simp add: triple_def)
  then show "case m w of (w', Inl e) \<Rightarrow> E' w' | (w', Inr x) \<Rightarrow> Q' x w'"
    using assms(3,4) by (auto split: prod.splits sum.splits)
qed

lemma triple_pre: "triple P m Q E \<Longrightarrow> (\<And>w. P' w \<Longrightarrow> P w) \<Longrightarrow> triple P' m Q E"
  by (rule triple_conseq)

lemma triple_post: "triple P m Q E \<Longrightarrow> (\<And>x w. Q x w \<Longrightarrow> Q' x w) \<Longrightarrow> triple P m Q' E"
  by (rule triple_conseq)

lemma triple_error: "triple P m Q E \<Longrightarrow> (\<And>w. E w \<Longrightarrow> E' w) \<Longrightarrow> triple P m Q E'"
  by (rule triple_conseq)

lemma triple_ret: "(\<And>w. P w \<Longrightarrow> Q x w) \<Longrightarrow> triple P (ret x) Q E"
  by (simp add: triple_def ret_def)

lemma triple_throw: "(\<And>w. P w \<Longrightarrow> E w) \<Longrightarrow> triple P (throw e) Q E"
  by (simp add: triple_def throw_def)

lemma triple_bnd:
  assumes "triple P m R E" "\<And>x. triple (R x) (f x) Q E"
  shows "triple P (bnd m f) Q E"
proof (rule tripleI)
  fix w assume "P w"
  from tripleD[OF assms(1) this] show "case bnd m f w of (w', Inl e) \<Rightarrow> E w' | (w', Inr x) \<Rightarrow> Q x w'"
    by (cases "m w") (auto simp: bnd_def split: sum.splits dest: tripleD[OF assms(2)])
qed

lemma triple_andthen: "triple P m (\<lambda>_. R) E \<Longrightarrow> triple R k Q E \<Longrightarrow> triple P (andthen m k) Q E"
  unfolding andthen_def by (rule triple_bnd)

lemma triple_catch:
  assumes "triple P m Q E'" "\<And>e. triple E' (h e) Q E"
  shows "triple P (catch_with m h) Q E"
proof (rule tripleI)
  fix w assume "P w"
  then have mw: "case m w of (w', Inl e) \<Rightarrow> E' w' | (w', Inr x) \<Rightarrow> Q x w'" by (rule tripleD[OF assms(1)])
  show "case catch_with m h w of (w', Inl e) \<Rightarrow> E w' | (w', Inr x) \<Rightarrow> Q x w'"
  proof (cases "m w")
    case (Pair w' r)
    then show ?thesis using mw tripleD[OF assms(2), of w'] by (cases r) (auto simp: catch_with_def)
  qed
qed

lemma triple_finally:
  assumes "triple P m (\<lambda>_. R) R" "triple R f (\<lambda>_. R') R'"
  shows "triple P (finally_do m f) (\<lambda>_. R') R'"
proof (rule tripleI)
  fix w assume "P w"
  from tripleD[OF assms(1) this] have "R (fst (m w))" by (cases "m w") (auto split: sum.splits)
  from tripleD[OF assms(2) this] show "case finally_do m f w of (w', Inl e) \<Rightarrow> R' w' | (w', Inr x) \<Rightarrow> R' w'"
    by (cases "m w") (auto simp: finally_do_def split: sum.splits prod.splits)
qed

lemma triple_require: "(\<And>w. P w \<Longrightarrow> b \<Longrightarrow> Q () w) \<Longrightarrow> (\<And>w. P w \<Longrightarrow> E w) \<Longrightarrow> triple P (require b) Q E"
  by (simp add: triple_def require_def ret_def throw_def)

lemma triple_look: "(\<And>w. P w \<Longrightarrow> Q (f w) w) \<Longrightarrow> triple P (look f) Q E"
  by (simp add: triple_def look_def)

lemma triple_change: "(\<And>w. P w \<Longrightarrow> Q () (f w)) \<Longrightarrow> triple P (change f) Q E"
  by (simp add: triple_def change_def)

lemma triple_if: "(b \<Longrightarrow> triple P m Q E) \<Longrightarrow> (\<not> b \<Longrightarrow> triple P n Q E) \<Longrightarrow> triple P (if b then m else n) Q E"
  by simp

lemma triple_fact: "(F \<Longrightarrow> triple P m Q E) \<Longrightarrow> triple (\<lambda>w. F \<and> P w) m Q E"
  by (auto simp: triple_def)

subsection \<open>What the others may do\<close>

text \<open>The state of an execution without its lease and its event cursor: what its revision names.\<close>

definition core :: "execution \<Rightarrow> execution" where
  "core x = x\<lparr>ex_lease := None, ex_eventCursor := 0\<rparr>"

definition command_ids :: "execution \<Rightarrow> string set" where
  "command_ids x = cm_id ` set (ex_commands x)"

definition may_follow :: "execution \<Rightarrow> execution \<Rightarrow> bool" where
  "may_follow x y = ((ex_revision x < ex_revision y \<or> (ex_revision x = ex_revision y \<and> core x = core y)) \<and>
     command_ids x \<subseteq> command_ids y)"

definition unused_ids :: "ctl_env \<Rightarrow> nat \<Rightarrow> string set" where
  "unused_ids env n = {ce_uuid env m k | m k. n \<le> m}"

definition good_store :: "ctl_env \<Rightarrow> nat \<Rightarrow> plan_store \<Rightarrow> bool" where
  "good_store env n s =
     (\<forall>i r. plan_record i s = Some r \<longrightarrow> good_execution (max_stage_attempts env) (unused_ids env n) r)"

definition environment_ok :: "ctl_env \<Rightarrow> bool" where
  "environment_ok env =
     ((\<forall>n k m j. ce_uuid env n k = ce_uuid env m j \<longrightarrow> n = m \<and> k = j) \<and>
      (\<forall>n s. good_store env (Suc n) s \<longrightarrow> good_store env (Suc n) (ce_others env n s)) \<and>
      (\<forall>n s i r. plan_record i s = Some r \<longrightarrow>
         (\<exists>r'. plan_record i (ce_others env n s) = Some r' \<and> may_follow r r')))"

lemma may_follow_refl [simp]: "may_follow x x"
  by (simp add: may_follow_def)

lemma may_follow_trans: "may_follow x y \<Longrightarrow> may_follow y z \<Longrightarrow> may_follow x z"
  by (auto simp: may_follow_def)

lemma core_simps [simp]:
  "core (x\<lparr>ex_lease := l\<rparr>) = core x" "core (x\<lparr>ex_eventCursor := c\<rparr>) = core x" "core (core x) = core x"
  by (simp_all add: core_def)

lemma core_fields:
  "ex_attempts (core x) = ex_attempts x" "ex_status (core x) = ex_status x" "ex_revision (core x) = ex_revision x"
  "ex_pendingCommand (core x) = ex_pendingCommand x" "ex_commands (core x) = ex_commands x"
  "ex_completedStageIds (core x) = ex_completedStageIds x" "ex_activeStageIndex (core x) = ex_activeStageIndex x"
  "ex_snapshot (core x) = ex_snapshot x" "ex_interruptReason (core x) = ex_interruptReason x"
  "ex_threadId (core x) = ex_threadId x" "pending_start (core x) = pending_start x" "active_stage (core x) = active_stage x"
  "command_ids (core x) = command_ids x"
  by (simp_all add: core_def pending_start_def active_stage_def command_ids_def Let_def)

lemma core_good [simp]: "good_execution limit unused (core x) = good_execution limit unused x"
  by (simp add: core_def)

lemma unused_mono: "n \<le> m \<Longrightarrow> unused_ids env m \<subseteq> unused_ids env n"
  by (auto simp: unused_ids_def)

lemma follow_lease: "may_follow x (x\<lparr>ex_lease := l\<rparr>)"
  by (simp add: may_follow_def command_ids_def)

lemma follow_cursor: "may_follow x (x\<lparr>ex_eventCursor := c\<rparr>)"
  by (simp add: may_follow_def command_ids_def)

lemma commands_patched: "command_ids x \<subseteq> command_ids (patched now p x)"
proof -
  have "cm_id ` set cs \<subseteq> cm_id ` set (add_command c cs)" for c cs
    by (auto simp: add_command_def image_iff split: option.splits)
  then have "cm_id ` set (ex_commands x)
      \<subseteq> cm_id ` set (add_command (pt_interruptCommand p) (add_command (pt_pendingCommand p) (ex_commands x)))"
    by (meson order_trans)
  then show ?thesis by (simp add: command_ids_def patched_def)
qed

lemma follow_patched: "may_follow x (patched now p x)"
  using commands_patched by (simp add: may_follow_def)

lemma follow_core: "may_follow x y \<Longrightarrow> core x = core x' \<Longrightarrow> may_follow x' y"
  unfolding may_follow_def by (metis core_fields(3,13))

text \<open>Every legal step of the repository is something the others may do, as far as revisions go.\<close>

lemma evolves_follows: "evolves project x s i r r' \<Longrightarrow> may_follow r r'"
  by (cases rule: evolves_cases) (auto simp: follow_patched follow_lease follow_cursor)

lemma legal_step_follows:
  "plan_legal x s \<Longrightarrow> plan_record i s = Some r \<Longrightarrow> \<exists>r'. plan_record i (plan_step project x s) = Some r' \<and> may_follow r r'"
  using plan_step_evolves evolves_follows by blast

subsection \<open>The assertion\<close>

text \<open>
  Execution \<open>i\<close> is stored, possibly further on than the copy in \<open>execution\<close>; everything stored is good;
  no \<open>START\<close> command was sent under an identifier still to come; \<open>Z\<close> holds of the copy and of the \<open>START\<close>
  commands sent so far; \<open>n0\<close> is where the run began.
\<close>

fun start_ids :: "native_command list \<Rightarrow> string list" where
  "start_ids [] = []"
| "start_ids (NativeStart c p # cs) = c # start_ids cs"
| "start_ids (_ # cs) = start_ids cs"

lemma start_ids_append [simp]: "start_ids (xs @ ys) = start_ids xs @ start_ids ys"
  by (induction xs rule: start_ids.induct) auto

definition holds :: "ctl_env \<Rightarrow> string \<Rightarrow> nat \<Rightarrow> (execution \<Rightarrow> string list \<Rightarrow> bool) \<Rightarrow> ctl_world \<Rightarrow> bool" where
  "holds env i n0 Z w = (n0 \<le> cw_tick w \<and> good_store env (cw_tick w) (cw_store w) \<and>
     good_execution (max_stage_attempts env) (unused_ids env (cw_tick w)) (cw_execution w) \<and>
     (\<exists>r. plan_record i (cw_store w) = Some r \<and> may_follow (cw_execution w) r) \<and>
     set (start_ids (cw_sent w)) \<inter> unused_ids env (cw_tick w) = {} \<and>
     Z (core (cw_execution w)) (start_ids (cw_sent w)))"

lemma holds_mono: "holds env i n0 Z w \<Longrightarrow> (\<And>x l. Z x l \<Longrightarrow> Z' x l) \<Longrightarrow> holds env i n0 Z' w"
  by (auto simp: holds_def)

lemma good_put:
  "good_store env n s \<Longrightarrow> good_execution (max_stage_attempts env) (unused_ids env n) r \<Longrightarrow> good_store env n (put_record i r s)"
  by (simp add: good_store_def)

lemma good_store_mono: "good_store env n s \<Longrightarrow> n \<le> m \<Longrightarrow> good_store env m s"
  unfolding good_store_def by (meson good_unused unused_mono)

lemma good_records: "ps_records t = ps_records s \<Longrightarrow> good_store env n t = good_store env n s"
  by (simp add: good_store_def plan_record_def)

text \<open>After an operation of our own at an await, the others run.\<close>

lemma holds_await:
  assumes "environment_ok env" "good_store env (Suc n) s" "plan_record i s = Some r" "may_follow x r"
    and "good_execution (max_stage_attempts env) (unused_ids env (Suc n)) x" "n0 \<le> n" "Z (core x) (start_ids (cw_sent w))"
    and "set (start_ids (cw_sent w)) \<inter> unused_ids env (Suc n) = {}"
  shows "holds env i n0 Z (w\<lparr>cw_store := ce_others env n s, cw_tick := Suc n, cw_execution := x\<rparr>)"
proof -
  obtain r' where "plan_record i (ce_others env n s) = Some r'" "may_follow r r'"
    using assms(1,3) unfolding environment_ok_def by blast
  moreover have "good_store env (Suc n) (ce_others env n s)" using assms(1,2) by (simp add: environment_ok_def)
  ultimately show ?thesis using assms(4-8) may_follow_trans[OF assms(4)] by (auto simp: holds_def)
qed

lemma holds_used:
  "holds env i n0 Z w \<Longrightarrow> n = cw_tick w \<Longrightarrow> set (start_ids (cw_sent w)) \<inter> unused_ids env (Suc n) = {}"
  using unused_mono[of n "Suc n" env] by (auto simp: holds_def)

lemma holds_await_same:
  assumes "environment_ok env" "holds env i n0 Z w" "n = cw_tick w"
  shows "holds env i n0 Z (w\<lparr>cw_store := ce_others env n (cw_store w), cw_tick := Suc n\<rparr>)"
proof -
  obtain r where r: "plan_record i (cw_store w) = Some r" "may_follow (cw_execution w) r" using assms(2) by (auto simp: holds_def)
  have "good_store env (Suc n) (cw_store w)" "n0 \<le> n" "Z (core (cw_execution w)) (start_ids (cw_sent w))"
      "good_execution (max_stage_attempts env) (unused_ids env (Suc n)) (cw_execution w)"
    using assms(2,3) good_store_mono[of env n "cw_store w" "Suc n"] good_unused[OF _ unused_mono[of n "Suc n" env]]
    by (auto simp: holds_def)
  moreover have "set (start_ids (cw_sent w)) \<inter> unused_ids env (Suc n) = {}"
    by (rule holds_used[OF assms(2,3)])
  ultimately show ?thesis using holds_await[where Z = Z and w = w, OF assms(1) _ r] by simp
qed

lemma triple_await_native:
  "environment_ok env \<Longrightarrow> triple (holds env i n0 Z) (await_native env f) (\<lambda>_. holds env i n0 Z) E"
  by (rule tripleI) (simp add: await_native_def holds_await_same)

lemma triple_await_answer:
  "environment_ok env \<Longrightarrow> triple (holds env i n0 Z) (await_answer env f) (\<lambda>_. holds env i n0 Z) (holds env i n0 Z)"
  unfolding await_answer_def
  by (rule triple_bnd[OF triple_await_native]) (auto intro: triple_throw triple_ret split: option.split)

subsection \<open>\<open>fence\<close>, \<open>resolve\<close>, \<open>read\<close> and driver calls\<close>

lemma triple_fence:
  assumes env: "environment_ok env"
  shows "triple (holds env i n0 Z) (fence env i lease) (\<lambda>_. holds env i n0 Z) (holds env i n0 Z)"
proof (rule tripleI)
  fix w assume h: "holds env i n0 Z w"
  let ?n = "cw_tick w" and ?limit = "max_stage_attempts env"
  obtain r where r: "plan_record i (cw_store w) = Some r" "may_follow (cw_execution w) r" using h by (auto simp: holds_def)
  have g: "good_store env (Suc ?n) (cw_store w)" "n0 \<le> ?n" "Z (core (cw_execution w)) (start_ids (cw_sent w))"
      "good_execution ?limit (unused_ids env (Suc ?n)) (cw_execution w)"
    using h good_store_mono[of env ?n "cw_store w" "Suc ?n"] good_unused[OF _ unused_mono[of ?n "Suc ?n" env]]
    by (auto simp: holds_def)
  have used: "set (start_ids (cw_sent w)) \<inter> unused_ids env (Suc ?n) = {}" by (rule holds_used[OF h refl])
  have gr: "good_execution ?limit (unused_ids env (Suc ?n)) r" using g(1) r(1) by (auto simp: good_store_def)
  obtain s' res where c: "claim_execution i (ce_workerId env) (ce_now env ?n) (ce_leaseMs env) (cw_store w) = (s', res)" by fastforce
  let ?w = "w\<lparr>cw_store := ce_others env ?n s', cw_tick := Suc ?n\<rparr>"
  show "case fence env i lease w of (w', Inl e) \<Rightarrow> holds env i n0 Z w' | (w', Inr x) \<Rightarrow> holds env i n0 Z w'"
  proof (cases "ce_closed env ?n")
    case True
    then show ?thesis using h by (simp add: fence_def bnd_def look_def throw_def)
  next
    case open_: False
    from c show ?thesis
    proof (cases rule: claim_cases)
      case refused
      then have "fence env i lease w = (?w, Inl Conflict)"
        using open_ c by (simp add: fence_def bnd_def look_def throw_def await_store_def)
      moreover have "holds env i n0 Z ?w" using holds_await_same[OF env h refl] refused by simp
      ultimately show ?thesis by simp
    next
      case (granted q epoch)
      let ?q = "r\<lparr>ex_lease := Some \<lparr>le_owner = ce_workerId env, le_epoch = epoch, le_expiresAt = ce_now env ?n + ce_leaseMs env\<rparr>\<rparr>"
      have q: "q = r" "res = Some ?q" "s' = put_record i ?q (cw_store w)" using granted(1,3,4) r(1) by simp_all
      have gs: "good_store env (Suc ?n) s'" unfolding q(3) using g(1) gr by (intro good_put) simp_all
      have rec: "plan_record i s' = Some ?q" by (simp add: q(3))
      have fol: "may_follow (cw_execution w) ?q" using r(2) follow_lease may_follow_trans by blast
      have same: "holds env i n0 Z ?w"
        using holds_await[where w = w and Z = Z, OF env gs rec fol g(4,2,3) used] by simp
      have taken: "holds env i n0 Z (?w\<lparr>cw_execution := ?q\<rparr>)" if "ex_revision ?q = ex_revision (cw_execution w)"
      proof -
        have "core ?q = core (cw_execution w)" using fol that by (auto simp: may_follow_def)
        then show ?thesis using holds_await[where w = w and Z = Z and x = ?q, OF env gs rec may_follow_refl _ g(2)] g(3) gr used by simp
      qed
      have "fence env i lease w = (if still_ours env lease ?q ?w then (?w\<lparr>cw_execution := ?q\<rparr>, Inr ()) else (?w, Inl Conflict))"
        using open_ c q(2) by (simp add: fence_def bnd_def look_def throw_def await_store_def)
      then show ?thesis using same taken by (auto simp: still_ours_def split: option.splits)
    qed
  qed
qed

lemma triple_resolve:
  assumes "environment_ok env"
  shows "triple (holds env i n0 Z) (resolve_control env i lease) (\<lambda>_. holds env i n0 Z) (holds env i n0 Z)"
  unfolding resolve_control_def
  by (rule triple_bnd[OF triple_await_answer[OF assms]], rule triple_andthen[OF triple_fence[OF assms]],
      rule triple_andthen, rule triple_require, assumption, assumption, rule triple_ret, assumption)

lemma triple_read:
  assumes "environment_ok env"
  shows "triple (holds env i n0 Z) (read_thread env i lease) (\<lambda>_. holds env i n0 Z) (holds env i n0 Z)"
  unfolding read_thread_def
  by (rule triple_bnd[OF triple_await_answer[OF assms]], rule triple_andthen[OF triple_fence[OF assms]],
      rule triple_bnd[OF triple_look[where Q = "\<lambda>_. holds env i n0 Z"]], assumption,
      rule triple_andthen, rule triple_require, assumption, assumption, rule triple_ret, assumption)

lemma triple_before_send:
  assumes "environment_ok env"
  shows "triple (holds env i n0 Z) (before_send env i lease baseline) (\<lambda>_. holds env i n0 Z) (holds env i n0 Z)"
  unfolding before_send_def
  by (rule triple_bnd[OF triple_resolve[OF assms]], rule triple_bnd[OF triple_read[OF assms]], rule triple_if,
      rule triple_throw, assumption, rule triple_bnd[OF triple_resolve[OF assms]], rule triple_fence[OF assms])

text \<open>A driver call: the command counts as sent once \<open>beforeSend\<close> returned.\<close>

definition sent_after :: "native_command \<Rightarrow> string list \<Rightarrow> string list" where
  "sent_after cmd l = l @ start_ids [cmd]"

lemma triple_drive:
  assumes env: "environment_ok env"
    and before: "triple (holds env i n0 Z) b (\<lambda>_. holds env i n0 Z1) (holds env i n0 Y)"
    and sent: "\<And>x l. Z1 x l \<Longrightarrow> Y x (sent_after cmd l) \<and> set (start_ids [cmd]) \<subseteq> attempt_ids x" and start: "\<And>x l. Z x l \<Longrightarrow> Y x l"
  shows "triple (holds env i n0 Z) (drive env f b cmd) (\<lambda>_. holds env i n0 Y) (holds env i n0 Y)"
proof -
  have reply: "triple (holds env i n0 Y) (bnd (await_native env (\<lambda>_. ())) (\<lambda>_. case reply of Inl e \<Rightarrow> throw e | Inr x \<Rightarrow> ret x))
      (\<lambda>_. holds env i n0 Y) (holds env i n0 Y)" for reply :: "ctl_error + 'a"
    by (rule triple_bnd[OF triple_await_native[OF env]]) (auto intro: triple_throw triple_ret split: sum.split)
  have log: "triple (holds env i n0 Z1) (change (\<lambda>w. w\<lparr>cw_sent := cw_sent w @ [cmd]\<rparr>)) (\<lambda>_. holds env i n0 Y) (holds env i n0 Y)"
  proof (rule triple_change)
    fix w assume h: "holds env i n0 Z1 w"
    then have "Y (core (cw_execution w)) (sent_after cmd (start_ids (cw_sent w)))"
        "set (start_ids [cmd]) \<subseteq> attempt_ids (core (cw_execution w))"
      using sent[of "core (cw_execution w)" "start_ids (cw_sent w)"] by (simp_all only: holds_def)
    moreover have "attempt_ids (core (cw_execution w)) \<inter> unused_ids env (cw_tick w) = {}"
      using h by (simp add: holds_def good_execution_def attempt_ids_def core_fields)
    ultimately show "holds env i n0 Y (w\<lparr>cw_sent := cw_sent w @ [cmd]\<rparr>)"
      using h by (auto simp: holds_def sent_after_def)
  qed
  have calls: "triple (holds env i n0 Z) (andthen (catch_with b (\<lambda>e. throw (wrap e)))
      (andthen (change (\<lambda>w. w\<lparr>cw_sent := cw_sent w @ [cmd]\<rparr>))
        (bnd (await_native env (\<lambda>_. ())) (\<lambda>_. case reply of Inl e \<Rightarrow> throw e | Inr x \<Rightarrow> ret x))))
      (\<lambda>_. holds env i n0 Y) (holds env i n0 Y)" for wrap and reply :: "ctl_error + 'a"
    by (rule triple_andthen, rule triple_catch[OF before], rule triple_throw, assumption, rule triple_andthen[OF log reply])
  show ?thesis unfolding drive_def
    by (rule triple_bnd[OF triple_await_native[OF env]])
      (auto intro!: triple_throw calls split: driver_call.split elim!: holds_mono intro: start)
qed

subsection \<open>\<open>save\<close>\<close>

text \<open>What a patch must keep, at the await \<open>n\<close> it is saved.\<close>

definition keeps_good :: "ctl_env \<Rightarrow> nat \<Rightarrow> (execution \<Rightarrow> string list \<Rightarrow> bool) \<Rightarrow> plan_patch \<Rightarrow> bool" where
  "keeps_good env n Z p = (\<forall>x l now. Z (core x) l \<longrightarrow>
     good_execution (max_stage_attempts env) (unused_ids env n) x \<longrightarrow> \<not> resumes_finished p x \<longrightarrow>
     good_execution (max_stage_attempts env) (unused_ids env (Suc n)) (patched now p x))"

definition saved :: "(execution \<Rightarrow> string list \<Rightarrow> bool) \<Rightarrow> plan_patch \<Rightarrow> execution \<Rightarrow> string list \<Rightarrow> bool" where
  "saved Z p y l = (\<exists>x now. Z x l \<and> core y = core (patched now p x))"

lemma core_patched:
  assumes "core x = core y"
  shows "core (patched now p x) = core (patched now p y)"
proof -
  have "core (patched now p z) = core (patched now p (core z))" for z by (simp add: core_def patched_def)
  then show ?thesis using assms by metis
qed

lemma triple_save_at:
  assumes env: "environment_ok env" and ok: "keeps_good env n Z p"
  shows "triple (\<lambda>w. cw_tick w = n \<and> holds env i n0 Z w) (save env i lease p) (\<lambda>_. holds env i n0 (saved Z p)) (holds env i n0 Z)"
proof (rule tripleI)
  fix w assume "cw_tick w = n \<and> holds env i n0 Z w"
  then have t: "cw_tick w = n" and h: "holds env i n0 Z w" by simp_all
  let ?x = "cw_execution w"
  obtain r where r: "plan_record i (cw_store w) = Some r" "may_follow ?x r" using h by (auto simp: holds_def)
  have g: "good_store env (Suc n) (cw_store w)" "n0 \<le> n" "Z (core ?x) (start_ids (cw_sent w))"
    "good_execution (max_stage_attempts env) (unused_ids env n) r"
    using h t r(1) good_store_mono[of env n "cw_store w" "Suc n"] by (auto simp: holds_def good_store_def)
  obtain s' res where u: "update_execution (ce_project env) (ce_now env n) (ex_ownerUserId ?x) i (ex_revision ?x) p (Some lease) True
      (cw_store w) = (s', res)" by fastforce
  let ?w = "w\<lparr>cw_store := ce_others env n s', cw_tick := Suc n\<rparr>"
  have run: "save env i lease p w = (case res of Inl e \<Rightarrow> (?w, Inl (store_error e)) | Inr x' \<Rightarrow> (?w\<lparr>cw_execution := x'\<rparr>, Inr ()))"
    using u t by (simp add: save_def bnd_def look_def await_store_def throw_def change_def split: sum.split)
  from u show "case save env i lease p w of (w', Inl e) \<Rightarrow> holds env i n0 Z w' | (w', Inr x) \<Rightarrow> holds env i n0 (saved Z p) w'"
  proof (cases rule: update_cases)
    case (refused e)
    then show ?thesis using run holds_await_same[OF env h t[symmetric]] by simp
  next
    case (done_ q s)
    let ?q = "patched (ce_now env n) p r"
    have q: "q = r" "core r = core ?x" using done_(1,3) r by (auto simp: may_follow_def)
    have gq: "good_execution (max_stage_attempts env) (unused_ids env (Suc n)) ?q"
      using ok g(3,4) q done_(4) unfolding keeps_good_def by metis
    have gs: "good_store env (Suc n) s'" unfolding done_(6) q(1)
      using g(1) gq good_records[OF done_(7), of env "Suc n"] by (intro good_put) simp_all
    have rec: "plan_record i s' = Some ?q" by (simp add: done_(6) q(1))
    have "saved Z p (core ?q) (start_ids (cw_sent w))"
      unfolding saved_def using g(3) core_patched[OF q(2)] core_patched[of "core ?x" ?x] by (metis core_simps(3))
    then have "holds env i n0 (saved Z p) (?w\<lparr>cw_execution := ?q\<rparr>)"
      using holds_await[where w = w and x = ?q and Z = "saved Z p", OF env gs rec may_follow_refl gq g(2)] holds_used[OF h t[symmetric]] by simp
    then show ?thesis using run done_(5) q(1) by simp
  qed
qed

lemma triple_save:
  assumes "environment_ok env" "\<And>n. keeps_good env n Z p"
  shows "triple (holds env i n0 Z) (save env i lease p) (\<lambda>_. holds env i n0 (saved Z p)) (holds env i n0 Z)"
  using triple_save_at[OF assms, of _ i n0 lease] by (simp add: triple_def)

subsection \<open>Reading the world\<close>

lemma triple_execution:
  assumes "\<And>x n. good_execution (max_stage_attempts env) (unused_ids env n) x \<Longrightarrow>
    triple (holds env i n0 (\<lambda>y l. Z y l \<and> y = core x)) (f x) Q E"
  shows "triple (holds env i n0 Z) (bnd (look cw_execution) f) Q E"
proof (rule tripleI)
  fix w assume h: "holds env i n0 Z w"
  then have "holds env i n0 (\<lambda>y l. Z y l \<and> y = core (cw_execution w)) w" by (simp add: holds_def)
  from tripleD[OF assms this, of "cw_tick w"] h
  show "case bnd (look cw_execution) f w of (w', Inl e) \<Rightarrow> E w' | (w', Inr x) \<Rightarrow> Q x w'"
    by (simp add: bnd_def look_def holds_def)
qed

lemma triple_now:
  assumes "\<And>now x. triple (holds env i n0 (\<lambda>y l. Z y l \<and> y = core x)) (f (now, x)) Q E"
  shows "triple (holds env i n0 Z) (bnd (now_execution env) f) Q E"
proof (rule tripleI)
  fix w assume "holds env i n0 Z w"
  then have "holds env i n0 (\<lambda>y l. Z y l \<and> y = core (cw_execution w)) w" by (simp add: holds_def)
  from tripleD[OF assms this, of "ce_now env (cw_tick w)"]
  show "case bnd (now_execution env) f w of (w', Inl e) \<Rightarrow> E w' | (w', Inr x) \<Rightarrow> Q x w'"
    by (simp add: bnd_def look_def now_execution_def)
qed

lemma triple_world:
  assumes "\<And>w0. triple (holds env i n0 (\<lambda>y l. Z y l \<and> y = core (cw_execution w0))) (f w0) Q E"
  shows "triple (holds env i n0 Z) (bnd (look id) f) Q E"
proof (rule tripleI)
  fix w assume "holds env i n0 Z w"
  then have "holds env i n0 (\<lambda>y l. Z y l \<and> y = core (cw_execution w)) w" by (simp add: holds_def)
  from tripleD[OF assms this] show "case bnd (look id) f w of (w', Inl e) \<Rightarrow> E w' | (w', Inr x) \<Rightarrow> Q x w'"
    by (simp add: bnd_def look_def)
qed

lemma triple_look_any: "(\<And>v. triple P (f v) Q E) \<Longrightarrow> triple P (bnd (look g) f) Q E"
  by (rule triple_bnd[where R = "\<lambda>_. P"], rule triple_look)

lemma triple_holds_pre: "triple (holds env i n0 Z) m Q E \<Longrightarrow> (\<And>x l. Z' x l \<Longrightarrow> Z x l) \<Longrightarrow> triple (holds env i n0 Z') m Q E"
  by (erule triple_pre) (erule holds_mono)

lemma triple_holds_fact:
  assumes "\<And>x l. Z x l \<Longrightarrow> F" "F \<Longrightarrow> triple (holds env i n0 Z) m Q E"
  shows "triple (holds env i n0 Z) m Q E"
proof (rule tripleI)
  fix w assume h: "holds env i n0 Z w"
  then have F using assms(1) unfolding holds_def by blast
  from tripleD[OF assms(2)[OF this] h] show "case m w of (w', Inl e) \<Rightarrow> E w' | (w', Inr x) \<Rightarrow> Q x w'" .
qed

text \<open>Facts about the commands sent, which later saves do not change.\<close>

definition lasting :: "(execution \<Rightarrow> string list \<Rightarrow> bool) \<Rightarrow> bool" where
  "lasting W = (\<forall>x y l. W x l \<longrightarrow> command_ids x \<subseteq> command_ids y \<longrightarrow> W y l)"

lemma saved_lasting:
  assumes "lasting W" "\<And>x l. Z x l \<Longrightarrow> W x l" "saved Z p y l"
  shows "W y l"
proof -
  obtain x now where "Z x l" "core y = core (patched now p x)" using assms(3) by (auto simp: saved_def)
  moreover from this have "command_ids x \<subseteq> command_ids y" using commands_patched core_fields(13) by metis
  ultimately show ?thesis using assms(1,2) unfolding lasting_def by blast
qed

lemma triple_save_last:
  assumes "environment_ok env" "\<And>n. keeps_good env n Z p" "lasting W" "\<And>x l. Z x l \<Longrightarrow> W x l"
  shows "triple (holds env i n0 Z) (save env i lease p) (\<lambda>_. holds env i n0 W) (holds env i n0 W)"
  by (rule triple_conseq[OF triple_save[OF assms(1,2)]])
    (use saved_lasting[OF assms(3,4)] assms(4) in \<open>auto elim!: holds_mono\<close>)

end
