(* ===== verification/Plan_Patches.thy ===== *)
theory Plan_Patches
  imports Plan_Logic
begin

text \<open>
  The patches the controller saves keep the invariant of an execution's progress: each is a calm patch,
  replaces attempts that are not over, adds one within the budget, or completes the active stage with
  the attempt that proves it.
\<close>

subsection \<open>Patches that keep the invariant\<close>

lemma patch_selectors:
  "pt_status no_patch = None" "pt_activeStageIndex no_patch = None" "pt_attempts no_patch = None"
  "pt_completedStageIds no_patch = None" "pt_pendingCommand no_patch = None"
  by (simp_all add: no_patch_def)

lemma retry_selectors:
  "pt_status (model_retry now x ra p) = Some WAITING_FOR_MODEL" "pt_activeStageIndex (model_retry now x ra p) = pt_activeStageIndex p"
  "pt_attempts (model_retry now x ra p) = pt_attempts p" "pt_completedStageIds (model_retry now x ra p) = pt_completedStageIds p"
  "pt_pendingCommand (model_retry now x ra p) = pt_pendingCommand p"
  by (simp_all add: model_retry_def Let_def)

lemmas patch_simps = patch_selectors retry_selectors release_commands_def block_patch_def

lemma status_kept:
  "pt_status p \<noteq> Some COMPLETED \<Longrightarrow> \<not> resumes_finished p x \<Longrightarrow>
   dflt (pt_status p) (ex_status x) = COMPLETED \<longleftrightarrow> ex_status x = COMPLETED"
  by (auto simp: resumes_finished_def is_plan_execution_active_def dflt_def split: option.splits)

lemma calm_keeps: "(\<And>x l. Z (core x) l \<Longrightarrow> calm_patch p x) \<Longrightarrow> keeps_good env n Z p"
  unfolding keeps_good_def using calm_good good_unused[OF _ unused_mono[of n "Suc n" env]] by (metis le_Suc_eq order_refl)

text \<open>Attempts that are not over may be replaced, under their identifiers.\<close>

definition same_attempt :: "attempt \<Rightarrow> attempt \<Rightarrow> bool" where
  "same_attempt a b = (at_id b = at_id a \<and> at_stageId b = at_stageId a \<and> at_commandId b = at_commandId a)"

definition replaceable :: "(attempt \<Rightarrow> bool) \<Rightarrow> (attempt \<Rightarrow> attempt) \<Rightarrow> attempt list \<Rightarrow> bool" where
  "replaceable P f as = (\<forall>a \<in> set as. P a \<longrightarrow> same_attempt a (f a) \<and> at_status a \<noteq> ATTEMPT_COMPLETED)"

lemma replaced_lists:
  assumes "replaceable P f as"
  shows "map at_id (map (\<lambda>a. if P a then f a else a) as) = map at_id as"
    and "map at_stageId (map (\<lambda>a. if P a then f a else a) as) = map at_stageId as"
    and "map at_commandId (map (\<lambda>a. if P a then f a else a) as) = map at_commandId as"
  using assms by (auto simp: replaceable_def same_attempt_def)

lemma attempts_of_map: "attempts_of s as = length (filter (\<lambda>t. t = s) (map at_stageId as))"
  by (induction as) (simp_all add: attempts_of_def)

lemma replaced_proof:
  "replaceable P f as \<Longrightarrow> a \<in> set as \<Longrightarrow> proves_stage st a \<Longrightarrow> a \<in> set (map (\<lambda>a. if P a then f a else a) as)"
  by (force simp: replaceable_def proves_stage_def)

lemma replaced_good:
  assumes "good_execution limit unused x" "\<not> resumes_finished p x" "replaceable P f (ex_attempts x)"
    and p: "pt_attempts p = Some (map (\<lambda>a. if P a then f a else a) (ex_attempts x))" "pt_completedStageIds p = None"
      "pt_activeStageIndex p = None" "pt_status p \<noteq> Some COMPLETED"
    and open_: "open_start (patched now p x)"
  shows "good_execution limit unused (patched now p x)"
proof -
  let ?as = "map (\<lambda>a. if P a then f a else a) (ex_attempts x)"
  note lists = replaced_lists[OF assms(3)]
  have "at_id ` set ?as = at_id ` set (ex_attempts x)" "at_commandId ` set ?as = at_commandId ` set (ex_attempts x)"
    using arg_cong[OF lists(1), of set] arg_cong[OF lists(3), of set] by (simp_all only: list.set_map)
  then have ids: "attempt_ids (patched now p x) = attempt_ids x" by (simp only: attempt_ids_def patched_progress p dflt_simps)
  have keep: "\<exists>a \<in> set ?as. proves_stage st a" if "\<exists>a \<in> set (ex_attempts x). proves_stage st a" for st
    using that replaced_proof[OF assms(3)] by blast
  have "in_progress_order x" using assms(1) by (simp add: good_execution_def)
  then have order: "in_progress_order (patched now p x)"
    unfolding in_progress_order_def Let_def patched_simps patched_progress p(1-3) dflt_simps status_kept[OF p(4) assms(2)]
    using keep by blast
  have "attempts_of s ?as = attempts_of s (ex_attempts x)" for s
    unfolding attempts_of_map lists(2) ..
  then show ?thesis using assms(1) open_ ids order unfolding good_execution_def patched_progress p(1) dflt_simps lists(1) by simp
qed

lemma no_start_open: "pending_start x = None \<Longrightarrow> open_start x"
  by (simp add: open_start_def)

lemma pending_cleared: "pt_pendingCommand p = Some None \<Longrightarrow> pending_start (patched now p x) = None"
  by (simp add: pending_start_def)

lemma pending_set: "pt_pendingCommand p = Some (Some c) \<Longrightarrow> cm_type c = START \<Longrightarrow> pending_start (patched now p x) = Some c"
  by (simp add: pending_start_def)

text \<open>The pending \<open>START\<close> of an execution, and its attempts.\<close>

definition waits_for :: "command \<Rightarrow> execution \<Rightarrow> bool" where
  "waits_for c x = (\<exists>d. pending_start x = Some d \<and> same_start d c)"

lemma waiting_attempts:
  "good_execution limit unused x \<Longrightarrow> waits_for c x \<Longrightarrow> a \<in> set (ex_attempts x) \<Longrightarrow> at_commandId a = cm_id c \<Longrightarrow> open_attempt c a"
  by (auto simp: good_execution_def open_start_def waits_for_def same_start_def open_attempt_def)

lemma waits_core [simp]: "waits_for c (core x) = waits_for c x"
  by (simp add: waits_for_def core_fields)

lemma replace_by_command:
  assumes "good_execution limit unused x" "waits_for c x" "\<And>a. same_attempt a (f a)"
  shows "replaceable (\<lambda>a. at_commandId a = cm_id c) f (ex_attempts x)"
  using waiting_attempts[OF assms(1,2)] assms(3) by (auto simp: replaceable_def open_attempt_def)

lemma unaccepted_keeps:
  assumes "\<And>y l. Z y l \<Longrightarrow> waits_for c y \<and> y = core x"
  shows "keeps_good env n Z (unaccepted_patch at0 x (cm_id c) d r)"
  unfolding keeps_good_def
proof (intro allI impI)
  fix y l now
  let ?p = "unaccepted_patch at0 x (cm_id c) d r" and ?f = "\<lambda>a. a\<lparr>at_status := ATTEMPT_FAILED, at_completedAt := Some at0\<rparr>"
  assume z: "Z (core y) l" and g: "good_execution (max_stage_attempts env) (unused_ids env n) y" and nr: "\<not> resumes_finished ?p y"
  have w: "waits_for c y" and as: "ex_attempts y = ex_attempts x" using assms[OF z] core_fields(1) by (metis waits_core)+
  have "good_execution (max_stage_attempts env) (unused_ids env n) (patched now ?p y)"
  proof (rule replaced_good[OF g nr replace_by_command[OF g w]])
    show "same_attempt a (?f a)" for a by (simp add: same_attempt_def)
    show "open_start (patched now ?p y)"
      by (rule no_start_open, rule pending_cleared) (simp add: unaccepted_patch_def Let_def patch_simps)
  qed (simp_all add: unaccepted_patch_def Let_def patch_simps replace_attempt_def as)
  then show "good_execution (max_stage_attempts env) (unused_ids env (Suc n)) (patched now ?p y)"
    by (rule good_unused) (simp add: unused_mono)
qed

text \<open>Replacing the one attempt with the identifier of \<open>a\<close>, which belongs to the pending command.\<close>

definition attempt_of :: "command \<Rightarrow> attempt \<Rightarrow> execution \<Rightarrow> bool" where
  "attempt_of c a x = (waits_for c x \<and> at_commandId a = cm_id c \<and>
     (\<exists>b \<in> set (ex_attempts x). at_id b = at_id a) \<and>
     (\<forall>b \<in> set (ex_attempts x). at_id b = at_id a \<longrightarrow> at_commandId b = cm_id c \<and> at_stageId b = at_stageId a) \<and>
     at_stageId a = cm_stageId c \<and> at_selection a = cm_selection c)"

lemma attempt_of_core [simp]: "attempt_of c a (core x) = attempt_of c a x"
  by (simp add: attempt_of_def core_fields)

lemma replace_by_id:
  assumes "good_execution limit unused x" "attempt_of c a x" "same_attempt a b"
  shows "replaceable (\<lambda>d. at_id d = at_id a) (\<lambda>_. b) (ex_attempts x)"
  using waiting_attempts[OF assms(1)] assms(2,3) by (auto simp: replaceable_def attempt_of_def same_attempt_def open_attempt_def)

lemma attempt_found:
  assumes "good_execution limit unused x" "waits_for c x" "List.find (\<lambda>a. at_commandId a = cm_id c) (ex_attempts x) = Some a"
  shows "attempt_of c a x"
proof -
  have a: "a \<in> set (ex_attempts x)" "at_commandId a = cm_id c" using find_SomeD[OF assms(3)] by auto
  have "b = a" if "b \<in> set (ex_attempts x)" "at_id b = at_id a" for b
    using assms(1) a(1) that by (auto simp: good_execution_def distinct_map dest: inj_onD)
  then show ?thesis using a assms(2) waiting_attempts[OF assms(1,2) a] by (auto simp: attempt_of_def open_attempt_def)
qed

lemma replaced_clears_keeps:
  assumes "\<And>y l. Z y l \<Longrightarrow> attempt_of c a y \<and> y = core x" "same_attempt a b"
    and "pt_attempts p = Some (replace_attempt (\<lambda>d. at_id d = at_id a) (\<lambda>_. b) x)" "pt_completedStageIds p = None"
      "pt_activeStageIndex p = None" "pt_status p \<noteq> Some COMPLETED" "pt_pendingCommand p = Some None"
  shows "keeps_good env n Z p"
  unfolding keeps_good_def
proof (intro allI impI)
  fix y l now
  assume z: "Z (core y) l" and g: "good_execution (max_stage_attempts env) (unused_ids env n) y" and nr: "\<not> resumes_finished p y"
  have w: "attempt_of c a y" and as: "ex_attempts y = ex_attempts x" using assms(1)[OF z] core_fields(1) by (metis attempt_of_core)+
  have "good_execution (max_stage_attempts env) (unused_ids env n) (patched now p y)"
    by (rule replaced_good[OF g nr replace_by_id[OF g w assms(2)]])
      (use assms as in \<open>simp_all add: replace_attempt_def no_start_open pending_cleared\<close>)
  then show "good_execution (max_stage_attempts env) (unused_ids env (Suc n)) (patched now p y)"
    by (rule good_unused) (simp add: unused_mono)
qed

lemma observed_keeps:
  assumes "\<And>y l. Z y l \<Longrightarrow> attempt_of c a y \<and> y = core x" "same_attempt a b" "at_status b \<noteq> ATTEMPT_COMPLETED"
    and "at_selection b = at_selection a" "cm_type d = START" "same_start d c"
    and "p = no_patch\<lparr>pt_pendingCommand := Some (Some d), pt_attempts := Some (replace_attempt (\<lambda>e. at_id e = at_id a) (\<lambda>_. b) x)\<rparr>"
  shows "keeps_good env n Z p"
  unfolding keeps_good_def
proof (intro allI impI)
  fix y l now
  assume z: "Z (core y) l" and g: "good_execution (max_stage_attempts env) (unused_ids env n) y" and nr: "\<not> resumes_finished p y"
  have w: "attempt_of c a y" and as: "ex_attempts y = ex_attempts x" using assms(1)[OF z] core_fields(1) by (metis attempt_of_core)+
  obtain e where e: "pending_start y = Some e" "same_start e c" using w by (auto simp: attempt_of_def waits_for_def)
  have act: "map_option sg_id (active_stage y) = Some (cm_stageId d)"
    using g e assms(6) by (auto simp: good_execution_def open_start_def same_start_def)
  have "open_attempt d f" if "f \<in> set (map (\<lambda>e. if at_id e = at_id a then b else e) (ex_attempts y))" "at_commandId f = cm_id d" for f
  proof (cases "f = b")
    case True
    then show ?thesis using assms(2-4,6) w by (auto simp: open_attempt_def attempt_of_def same_attempt_def same_start_def)
  next
    case False
    then have "f \<in> set (ex_attempts y)" using that(1) by (auto split: if_splits)
    then have "open_attempt c f" using waiting_attempts[OF g, of c f] w that(2) assms(6) by (simp add: attempt_of_def same_start_def)
    then show ?thesis using assms(6) by (simp add: open_attempt_def same_start_def)
  qed
  then have op: "open_start (patched now p y)"
    using act assms(5) by (simp add: open_start_def pending_set assms(7) patch_simps replace_attempt_def as)
  have "good_execution (max_stage_attempts env) (unused_ids env n) (patched now p y)"
    by (rule replaced_good[OF g nr replace_by_id[OF g w assms(2)]])
      (use op in \<open>simp_all add: assms(7) patch_simps replace_attempt_def as\<close>)
  then show "good_execution (max_stage_attempts env) (unused_ids env (Suc n)) (patched now p y)"
    by (rule good_unused) (simp add: unused_mono)
qed

lemma advanced_order:
  assumes "in_progress_order x" "active_stage x = Some stage" "ex_status x \<noteq> COMPLETED"
    and keep: "\<And>st. \<exists>a \<in> set (ex_attempts x). proves_stage st a \<Longrightarrow> \<exists>a \<in> set as. proves_stage st a"
    and proof': "rs_outcome r = STAGE_COMPLETED \<Longrightarrow> \<exists>a \<in> set as. proves_stage stage a"
    and x0: "ex_completedStageIds x0 = ex_completedStageIds x" "ex_snapshot x0 = ex_snapshot x"
      "ex_activeStageIndex x0 = ex_activeStageIndex x"
  shows "in_progress_order (patched now (advanced_patch x0 stage as r) x)"
proof -
  let ?p = "advanced_patch x0 stage as r" and ?stages = "sn_stages (ex_snapshot x)" and ?done = "ex_completedStageIds x"
  have o: "length ?done \<le> length ?stages" "ex_status x = COMPLETED \<longleftrightarrow> length ?done = length ?stages"
      "length ?done < length ?stages \<longrightarrow> ex_activeStageIndex x = length ?done"
      "\<forall>k < length ?done. ?done ! k = sg_id (?stages ! k) \<and> (\<exists>a \<in> set (ex_attempts x). proves_stage (?stages ! k) a)"
    using assms(1) by (auto simp: in_progress_order_def Let_def)
  then have n: "length ?done < length ?stages" "ex_activeStageIndex x = length ?done" using assms(3) by auto
  then have st: "?stages ! length ?done = stage" using assms(2) by (simp add: active_stage_def Let_def)
  have done': "\<forall>k < length ?done. ?done ! k = sg_id (?stages ! k) \<and> (\<exists>a \<in> set as. proves_stage (?stages ! k) a)"
    using o(4) keep by blast
  show ?thesis
  proof (cases "rs_outcome r = STAGE_COMPLETED")
    case True
    have "(?done @ [sg_id stage]) ! k = sg_id (?stages ! k) \<and> (\<exists>a \<in> set as. proves_stage (?stages ! k) a)"
      if "k < Suc (length ?done)" for k
      using done' proof'[OF True] st that by (cases "k < length ?done") (auto simp: nth_append less_Suc_eq)
    then show ?thesis using True n x0
      by (simp add: in_progress_order_def Let_def advanced_patch_def release_commands_def patch_selectors)
  next
    case False
    then show ?thesis using done' n x0
      by (simp add: in_progress_order_def Let_def advanced_patch_def release_commands_def patch_selectors)
  qed
qed

lemma advanced_keeps:
  assumes z: "\<And>y l. Z y l \<Longrightarrow> attempt_of c a y \<and> y = core x \<and> active_stage y = Some stage \<and> ex_status y \<noteq> COMPLETED"
    and sel: "selection_verified x c native actual" and suff: "sufficient_result stage r" "at_stageId a = sg_id stage"
    and as: "as = completed_attempts at0 x a (observed_attempt a native actual) (Some r)"
  shows "keeps_good env n Z (advanced_patch x stage as r)"
  unfolding keeps_good_def
proof (intro allI impI)
  fix y l now
  let ?p = "advanced_patch x stage as r" and ?limit = "max_stage_attempts env"
  define b where "b = observed_attempt a native actual\<lparr>at_status := ATTEMPT_COMPLETED, at_completedAt := Some at0, at_result := Some r\<rparr>"
  let ?P = "\<lambda>d. at_id d = at_id a"
  assume zy: "Z (core y) l" and g: "good_execution ?limit (unused_ids env n) y" and nr: "\<not> resumes_finished ?p y"
  have cy: "core y = core x" using z[OF zy] by simp
  have w: "attempt_of c a y" "active_stage y = Some stage" "ex_status y \<noteq> COMPLETED"
    using z[OF zy] core_fields by (metis attempt_of_core)+
  have same: "ex_attempts y = ex_attempts x" "ex_completedStageIds x = ex_completedStageIds y" "ex_snapshot x = ex_snapshot y"
      "ex_activeStageIndex x = ex_activeStageIndex y"
    using cy core_fields by metis+
  have ab: "same_attempt a b" by (simp add: b_def observed_attempt_def same_attempt_def)
  note repl = replace_by_id[OF g w(1) ab]
  have asb: "as = map (\<lambda>d. if ?P d then b else d) (ex_attempts y)"
    by (simp add: as completed_attempts_def replace_attempt_def b_def same(1))
  have "b \<in> set as" using w(1) by (auto simp: asb attempt_of_def)
  have proof': "proves_stage stage b" if "rs_outcome r = STAGE_COMPLETED"
    using that suff sel w(1) by (auto simp: proves_stage_def b_def observed_attempt_def selection_verified_def attempt_of_def
        split: option.splits)
  have fields: "pt_attempts ?p = Some as" "pt_pendingCommand ?p = Some None"
    by (simp_all add: advanced_patch_def Let_def patch_simps)
  have lists: "map at_id as = map at_id (ex_attempts y)" "map at_stageId as = map at_stageId (ex_attempts y)"
      "map at_commandId as = map at_commandId (ex_attempts y)"
    unfolding asb by (rule replaced_lists[OF repl])+
  have "attempt_ids (patched now ?p y) = attempt_ids y"
    using arg_cong[OF lists(1), of set] arg_cong[OF lists(3), of set]
    by (simp only: attempt_ids_def patched_progress fields dflt_simps list.set_map)
  moreover have "in_progress_order (patched now ?p y)"
  proof (rule advanced_order)
    show "\<exists>a \<in> set as. proves_stage st a" if "\<exists>a \<in> set (ex_attempts y). proves_stage st a" for st
      using that replaced_proof[OF repl] unfolding asb by blast
  qed (use g w same proof' \<open>b \<in> set as\<close> in \<open>auto simp: good_execution_def\<close>)
  moreover have "attempts_of s as = attempts_of s (ex_attempts y)" for s unfolding attempts_of_map lists(2) ..
  moreover have "open_start (patched now ?p y)" by (rule no_start_open, rule pending_cleared, rule fields(2))
  ultimately have "good_execution ?limit (unused_ids env n) (patched now ?p y)"
    using g unfolding good_execution_def patched_progress fields(1) dflt_simps lists(1) by simp
  then show "good_execution ?limit (unused_ids env (Suc n)) (patched now ?p y)"
    by (rule good_unused) (simp add: unused_mono)
qed

text \<open>A new attempt, for a stage below its budget, under identifiers never used.\<close>

lemma prepared_keeps:
  assumes inj: "\<forall>n k m j. ce_uuid env n k = ce_uuid env m j \<longrightarrow> n = m \<and> k = j"
    and z: "\<And>y l. Z y l \<Longrightarrow> y = core x \<and> active_stage y = Some stage \<and> attempts_of (sg_id stage) (ex_attempts y) < max_stage_attempts env"
    and start: "cm_id start = ce_uuid env n 0" "cm_type start = START" "cm_stageId start = sg_id stage"
    and p: "p = no_patch\<lparr>pt_pendingCommand := Some (Some start),
      pt_attempts := Some (ex_attempts x @ [prepared_attempt (ce_uuid env n 1) stage start])\<rparr>"
  shows "keeps_good env n Z p"
  unfolding keeps_good_def
proof (intro allI impI)
  fix y l now
  let ?limit = "max_stage_attempts env"
  define a0 where "a0 = prepared_attempt (ce_uuid env n 1) stage start"
  assume zy: "Z (core y) l" and g: "good_execution ?limit (unused_ids env n) y" and nr: "\<not> resumes_finished p y"
  have cy: "core y = core x" using z[OF zy] by simp
  have w: "active_stage y = Some stage" "attempts_of (sg_id stage) (ex_attempts y) < ?limit"
    using z[OF zy] core_fields by metis+
  have as: "ex_attempts y = ex_attempts x" using cy core_fields(1) by metis
  have a: "at_id a0 = ce_uuid env n 1" "at_commandId a0 = ce_uuid env n 0" "at_stageId a0 = sg_id stage"
      "at_status a0 = ATTEMPT_PREPARED" "at_selection a0 = cm_selection start"
    by (simp_all add: a0_def prepared_attempt_def start)
  have ids: "ce_uuid env n k \<notin> attempt_ids y" for k using g by (auto simp: good_execution_def unused_ids_def)
  have later: "ce_uuid env n k \<notin> unused_ids env (Suc n)" for k
  proof
    assume "ce_uuid env n k \<in> unused_ids env (Suc n)"
    then obtain m j where "ce_uuid env n k = ce_uuid env m j" "Suc n \<le> m" unfolding unused_ids_def by blast
    then show False using inj Suc_n_not_le_n by metis
  qed
  have fields: "ex_attempts (patched now p y) = ex_attempts y @ [a0]" "pending_start (patched now p y) = Some start"
      "active_stage (patched now p y) = active_stage y"
    using start(2) by (simp_all add: p as a0_def patch_selectors pending_start_def active_stage_def Let_def)
  have "attempt_ids (patched now p y) \<inter> unused_ids env (Suc n) = {}"
  proof -
    have "attempt_ids (patched now p y) = {ce_uuid env n 0, ce_uuid env n 1} \<union> attempt_ids y"
      unfolding attempt_ids_def fields(1) by (auto simp: a)
    moreover have "attempt_ids y \<inter> unused_ids env (Suc n) = {}"
      using good_unused[OF g unused_mono[of n "Suc n"]] by (simp add: good_execution_def)
    ultimately show ?thesis using later[of 0] later[of 1] by auto
  qed
  moreover have "distinct (map at_id (ex_attempts y @ [a0]))"
  proof -
    have "distinct (map at_id (ex_attempts y))" using g by (simp add: good_execution_def)
    moreover have "at_id a0 \<notin> set (map at_id (ex_attempts y))"
      unfolding a(1) using ids[of 1] by (simp only: attempt_ids_def set_map) blast
    ultimately show ?thesis by simp
  qed
  moreover have "open_start (patched now p y)"
  proof -
    have "open_attempt start f" if "f \<in> set (ex_attempts y @ [a0])" "at_commandId f = cm_id start" for f
    proof (cases "f = a0")
      case True
      then show ?thesis using a start by (simp add: open_attempt_def)
    next
      case False
      then have "at_commandId f \<in> attempt_ids y" using that(1) by (simp add: attempt_ids_def)
      then show ?thesis using ids[of 0] that(2) start(1) by simp
    qed
    then show ?thesis using w(1) start(3) by (simp only: open_start_def fields option.inject) auto
  qed
  moreover have "attempts_of s (ex_attempts y @ [a0]) \<le> ?limit" for s
    using g w(2) a(3) by (auto simp: attempts_of_def good_execution_def)
  moreover have "in_progress_order (patched now p y)"
  proof -
    have "in_progress_order y" using g by (simp add: good_execution_def)
    then show ?thesis unfolding in_progress_order_def Let_def patched_simps fields(1)
      by (simp add: p patch_selectors)
  qed
  ultimately show "good_execution ?limit (unused_ids env (Suc n)) (patched now p y)"
    unfolding good_execution_def fields(1) by blast
qed

lemma started_keeps:
  assumes "\<And>y l. Z y l \<Longrightarrow> waits_for start y \<and> y = core x" "cm_type start = START"
  shows "keeps_good env n Z (started_patch x start turnId)"
  unfolding keeps_good_def
proof (intro allI impI)
  fix y l now
  let ?p = "started_patch x start turnId" and ?f = "\<lambda>a. a\<lparr>at_status := ATTEMPT_RUNNING, at_turnId := Some turnId\<rparr>"
  let ?d = "start\<lparr>cm_status := CMD_SENT, cm_turnId := Some turnId\<rparr>"
  assume z: "Z (core y) l" and g: "good_execution (max_stage_attempts env) (unused_ids env n) y" and nr: "\<not> resumes_finished ?p y"
  have w: "waits_for start y" and as: "ex_attempts y = ex_attempts x" using assms(1)[OF z] core_fields(1) by (metis waits_core)+
  have act: "map_option sg_id (active_stage y) = Some (cm_stageId start)"
    using g w by (auto simp: good_execution_def open_start_def waits_for_def same_start_def)
  have "open_attempt ?d f" if f: "f \<in> set (map (\<lambda>a. if at_commandId a = cm_id start then ?f a else a) (ex_attempts y))"
      "at_commandId f = cm_id start" for f
  proof -
    obtain e where "e \<in> set (ex_attempts y)" "at_commandId e = cm_id start" "f = ?f e" using f by (auto split: if_splits)
    then show ?thesis using waiting_attempts[OF g w, of e] by (simp add: open_attempt_def)
  qed
  then have op: "open_start (patched now ?p y)"
    using act assms(2) by (simp add: open_start_def pending_set[where c = ?d] started_patch_def patch_simps replace_attempt_def as) blast
  have "good_execution (max_stage_attempts env) (unused_ids env n) (patched now ?p y)"
  proof (rule replaced_good[OF g nr replace_by_command[OF g w, of ?f]])
    show "same_attempt a (?f a)" for a by (simp add: same_attempt_def)
  qed (use op in \<open>simp_all add: started_patch_def patch_simps replace_attempt_def as\<close>)
  then show "good_execution (max_stage_attempts env) (unused_ids env (Suc n)) (patched now ?p y)"
    by (rule good_unused) (simp add: unused_mono)
qed

end
