(* ===== verification/Plan_Advance.thy ===== *)
theory Plan_Advance
  imports Plan_Patches
begin

text \<open>
  What one advance of the controller keeps, whatever the native runtime answers and the rest of the
  program does meanwhile: the progress of every execution stays good, and a \<open>START\<close> command is sent at
  most once, after it was stored, and never while another one is pending.
\<close>

subsection \<open>A pending \<open>START\<close>\<close>

definition sent_is :: "string list \<Rightarrow> execution \<Rightarrow> string list \<Rightarrow> bool" where
  "sent_is L x l = (l = L)"

definition observing :: "string list \<Rightarrow> plan_stage \<Rightarrow> command \<Rightarrow> execution \<Rightarrow> string list \<Rightarrow> bool" where
  "observing L stage c x l = (l = L \<and> waits_for c x \<and> active_stage x = Some stage \<and> ex_status x \<noteq> COMPLETED)"

definition observing_turn :: "string list \<Rightarrow> plan_stage \<Rightarrow> command \<Rightarrow> attempt \<Rightarrow> execution \<Rightarrow> string list \<Rightarrow> bool" where
  "observing_turn L stage c a x l = (observing L stage c x l \<and> attempt_of c a x)"

lemma sent_is_lasting: "lasting (sent_is L)"
  by (simp add: lasting_def sent_is_def)

lemma calm_simple:
  "pt_activeStageIndex p = None \<Longrightarrow> pt_completedStageIds p = None \<Longrightarrow> pt_attempts p = None \<Longrightarrow>
   pt_status p \<noteq> Some COMPLETED \<Longrightarrow> pt_pendingCommand p = None \<Longrightarrow> calm_patch p x"
  by (simp add: calm_patch_def)

lemma calm_settings:
  "pt_activeStageIndex p = None \<Longrightarrow> pt_completedStageIds p = None \<Longrightarrow> pt_attempts p = None \<Longrightarrow>
   pt_status p \<noteq> Some COMPLETED \<Longrightarrow> pt_pendingCommand p \<in> {None, Some None} \<or> (\<exists>c. pt_pendingCommand p = Some (Some c) \<and> cm_type c \<noteq> START)
   \<Longrightarrow> calm_patch p x"
  by (auto simp: calm_patch_def)

lemma triple_settle:
  assumes env: "environment_ok env" and z: "\<And>x l. Z x l \<Longrightarrow> waits_for c x" and W: "lasting W" "\<And>x l. Z x l \<Longrightarrow> W x l"
  shows "triple (holds env i n0 Z) (settle_unaccepted env i lease (cm_id c) d r) (\<lambda>_. holds env i n0 W) (holds env i n0 W)"
  unfolding settle_unaccepted_def
proof (rule triple_now, simp only: prod.case, rule triple_andthen)
  fix now x
  show "triple (holds env i n0 (\<lambda>y l. Z y l \<and> y = core x)) (save env i lease (unaccepted_patch now x (cm_id c) d r))
      (\<lambda>_. holds env i n0 W) (holds env i n0 W)"
  proof (rule triple_save_last[OF env unaccepted_keeps W(1)])
    show "waits_for c y \<and> y = core x" if "Z y l \<and> y = core x" for y l using z[of y l] that by blast
    show "W y l" if "Z y l \<and> y = core x" for y l using W(2)[of y l] that by blast
  qed
  show "triple (holds env i n0 W) (change (\<lambda>w. w\<lparr>cw_unaccepted := map_delete (cm_id c) (cw_unaccepted w)\<rparr>))
      (\<lambda>_. holds env i n0 W) (holds env i n0 W)"
    by (rule triple_change) (simp add: holds_def)
qed

lemma triple_save_sent:
  assumes "environment_ok env" "pt_activeStageIndex p = None" "pt_completedStageIds p = None" "pt_attempts p = None"
    "pt_status p \<noteq> Some COMPLETED" "pt_pendingCommand p = None"
  shows "triple (holds env i n0 (sent_is L)) (save env i lease p) (\<lambda>_. holds env i n0 (sent_is L)) (holds env i n0 (sent_is L))"
  by (rule triple_save_last[OF assms(1) calm_keeps sent_is_lasting]) (use assms calm_simple in auto)

lemma triple_keep_change:
  "(\<And>w. cw_store (f w) = cw_store w \<and> cw_execution (f w) = cw_execution w \<and> cw_tick (f w) = cw_tick w \<and> cw_sent (f w) = cw_sent w)
   \<Longrightarrow> triple (holds env i n0 Z) (change f) (\<lambda>_. holds env i n0 Z) E"
  by (rule triple_change) (simp add: holds_def)

lemma triple_interrupt_callback:
  assumes env: "environment_ok env"
  shows "triple (holds env i n0 (sent_is L)) (interrupt_callback env i lease native c)
    (\<lambda>_. holds env i n0 (sent_is L)) (holds env i n0 (sent_is L))"
  unfolding interrupt_callback_def
  by (rule triple_bnd[OF triple_resolve[OF env]], rule triple_bnd[OF triple_read[OF env]], rule triple_if,
      rule triple_throw, assumption, rule triple_bnd[OF triple_resolve[OF env]],
      rule triple_andthen[OF triple_save_sent[OF env] triple_fence[OF env]]) (simp_all add: patch_selectors)

lemma triple_send_interrupt:
  assumes env: "environment_ok env"
  shows "triple (holds env i n0 (sent_is L)) (send_interrupt env i lease native c)
    (\<lambda>_. holds env i n0 (sent_is L)) (holds env i n0 (sent_is L))"
  unfolding send_interrupt_def
proof (rule triple_bnd[OF triple_resolve[OF env]], rule triple_catch)
  show "triple (holds env i n0 (sent_is L))
     (andthen (drive env (ce_interruptTurn env) (interrupt_callback env i lease native c) (NativeInterrupt (tn_id native)))
       (andthen (change (\<lambda>w. w\<lparr>cw_acknowledged := map_set (cm_id c) (tn_id native) (cw_acknowledged w)\<rparr>))
         (andthen (fence env i lease)
           (andthen (save env i lease (no_patch\<lparr>pt_interruptCommand := Some (Some (c\<lparr>cm_status := CMD_SENT\<rparr>))\<rparr>))
             (change (\<lambda>w. w\<lparr>cw_acknowledged := map_delete (cm_id c) (cw_acknowledged w)\<rparr>))))))
     (\<lambda>_. holds env i n0 (sent_is L)) (holds env i n0 (sent_is L))"
    by (rule triple_andthen[OF triple_drive[OF env triple_interrupt_callback[OF env]]],
        simp add: sent_is_def sent_after_def, assumption, rule triple_andthen[OF triple_keep_change], simp,
        rule triple_andthen[OF triple_fence[OF env]], rule triple_andthen[OF triple_save_sent[OF env]])
      (simp_all add: patch_selectors triple_keep_change)
  show "triple (holds env i n0 (sent_is L)) (if e = Conflict then throw Conflict else fence env i lease)
     (\<lambda>_. holds env i n0 (sent_is L)) (holds env i n0 (sent_is L))" for e
    by (rule triple_if, rule triple_throw, assumption, rule triple_fence[OF env])
qed

lemma triple_interrupt_running:
  assumes env: "environment_ok env"
  shows "triple (holds env i n0 (sent_is L)) (interrupt_running env i lease stage pending native)
    (\<lambda>_. holds env i n0 (sent_is L)) (holds env i n0 (sent_is L))"
  unfolding interrupt_running_def
proof (rule triple_look_any)
  fix v :: "int \<times> string \<times> execution"
  obtain now uuid x where v: "v = (now, uuid, x)" by (cases v) blast
  let ?S = "holds env i n0 (sent_is L)"
  have intent: "triple ?S (case ex_interruptCommand x of Some c \<Rightarrow> ret c
      | None \<Rightarrow> (let c = pending\<lparr>cm_id := uuid, cm_type := INTERRUPT, cm_turnId := Some (tn_id native), cm_status := CMD_PREPARED, cm_preparedAt := now\<rparr>
        in andthen (save env i lease (no_patch\<lparr>pt_interruptCommand := Some (Some c)\<rparr>)) (ret c))) (\<lambda>_. ?S) ?S"
    unfolding Let_def
    by (cases "ex_interruptCommand x", simp only: option.case, rule triple_andthen[OF triple_save_sent[OF env]])
      (simp_all add: patch_selectors triple_ret)
  have send: "triple ?S (if cm_status c \<noteq> CMD_SENT then send_interrupt env i lease native c else ret ()) (\<lambda>_. ?S) ?S" for c
    by (rule triple_if[OF triple_send_interrupt[OF env] triple_ret])
  show "triple ?S (case v of (now, uuid, x) \<Rightarrow> bnd (case ex_interruptCommand x of Some c \<Rightarrow> ret c
      | None \<Rightarrow> (let c = pending\<lparr>cm_id := uuid, cm_type := INTERRUPT, cm_turnId := Some (tn_id native), cm_status := CMD_PREPARED, cm_preparedAt := now\<rparr>
        in andthen (save env i lease (no_patch\<lparr>pt_interruptCommand := Some (Some c)\<rparr>)) (ret c)))
     (\<lambda>intent. andthen (require (cm_turnId intent = Some (tn_id native) \<and> cm_stageId intent = sg_id stage))
       (if cm_status intent \<noteq> CMD_SENT then send_interrupt env i lease native intent else ret ()))) (\<lambda>_. ?S) ?S"
    unfolding v prod.case
    by (rule triple_bnd[OF intent], rule triple_andthen[OF triple_require send])
qed

lemma observing_sent: "observing L stage c x l \<Longrightarrow> sent_is L x l"
  by (simp add: observing_def sent_is_def)

lemma observing_turn_sent: "observing_turn L stage c a x l \<Longrightarrow> sent_is L x l"
  by (auto simp: observing_turn_def intro: observing_sent)

lemma observing_core: "observing L stage c (core x) l = observing L stage c x l"
  by (simp add: observing_def core_fields)

lemma observing_turn_core: "observing_turn L stage c a (core x) l = observing_turn L stage c a x l"
  by (simp add: observing_turn_def observing_core)

lemma kept_observing:
  assumes s: "saved Z p y l" and z: "\<And>x l. Z x l \<Longrightarrow> observing L stage c x l"
    and p: "pt_status p = None" "pt_activeStageIndex p = None"
      "pt_pendingCommand p = None \<or> (\<exists>d. pt_pendingCommand p = Some (Some d) \<and> cm_type d = START \<and> same_start d c)"
  shows "observing L stage c y l"
proof -
  obtain x now where x: "Z x l" "core y = core (patched now p x)" using s by (auto simp: saved_def)
  have o: "observing L stage c x l" by (rule z[OF x(1)])
  have "waits_for c (patched now p x)"
    using p(3)
  proof
    assume "pt_pendingCommand p = None"
    then have "pending_start (patched now p x) = pending_start x" by (simp add: pending_start_def)
    then show ?thesis using o by (simp add: observing_def waits_for_def)
  next
    assume "\<exists>d. pt_pendingCommand p = Some (Some d) \<and> cm_type d = START \<and> same_start d c"
    then show ?thesis using pending_set by (auto simp: waits_for_def)
  qed
  then have "observing L stage c (patched now p x) l" using o p(1,2) by (simp add: observing_def)
  then show ?thesis using x(2) by (metis observing_core)
qed

lemma replaced_attempt_of:
  assumes "attempt_of c a x" "same_attempt a b" "waits_for c y"
    and "ex_attempts y = replace_attempt (\<lambda>d. at_id d = at_id a) (\<lambda>_. b) x"
  shows "attempt_of c a y"
  using assms by (auto simp: attempt_of_def replace_attempt_def same_attempt_def)

lemma kept_attempt:
  assumes s: "saved Z p y l" and z: "\<And>x l. Z x l \<Longrightarrow> observing_turn L stage c a x l \<and> x = core x0"
    and p: "p = no_patch\<lparr>pt_pendingCommand := Some (Some d), pt_attempts := Some (replace_attempt (\<lambda>e. at_id e = at_id a) (\<lambda>_. b) x0)\<rparr>"
    and d: "cm_type d = START" "same_start d c" "same_attempt a b"
  shows "observing_turn L stage c a y l"
proof -
  have o: "observing L stage c y l"
    by (rule kept_observing[OF s]) (use z d in \<open>auto simp: observing_turn_def p patch_selectors\<close>)
  obtain x now where x: "Z x l" "core y = core (patched now p x)" using s by (auto simp: saved_def)
  have "ex_attempts y = replace_attempt (\<lambda>e. at_id e = at_id a) (\<lambda>_. b) x0"
    using arg_cong[OF x(2), of ex_attempts] by (simp add: core_fields p)
  moreover have "ex_attempts x0 = ex_attempts x" using z[OF x(1)] by (auto simp: core_fields)
  ultimately have "ex_attempts y = replace_attempt (\<lambda>e. at_id e = at_id a) (\<lambda>_. b) x" by (simp add: replace_attempt_def)
  then have "attempt_of c a y"
    using replaced_attempt_of[OF _ d(3)] z[OF x(1)] o by (auto simp: observing_turn_def observing_def)
  then show ?thesis using o by (simp add: observing_turn_def)
qed

lemma triple_observe_running:
  assumes env: "environment_ok env"
  shows "triple (holds env i n0 (sent_is L)) (observe_running env i lease stage thread pending native)
    (\<lambda>_. holds env i n0 (sent_is L)) (holds env i n0 (sent_is L))"
  unfolding observe_running_def
  by (rule triple_look_any, intro triple_if triple_interrupt_running triple_save_sent env triple_ret)
    (simp_all add: patch_selectors)

lemma triple_await_closure:
  assumes env: "environment_ok env"
  shows "triple (holds env i n0 (sent_is L)) (await_closure env i lease pending)
    (\<lambda>_. holds env i n0 (sent_is L)) (holds env i n0 (sent_is L))"
  unfolding await_closure_def Let_def
  by (rule triple_look_any, rule triple_andthen[OF triple_keep_change], simp, intro triple_if triple_save_sent env triple_ret)
    (simp_all add: patch_simps)

lemma triple_close_turn:
  assumes env: "environment_ok env" and c: "cm_stageId c = sg_id stage"
  shows "triple (holds env i n0 (observing_turn L stage c a)) (close_turn env i lease stage c native a actual)
    (\<lambda>_. holds env i n0 (sent_is L)) (holds env i n0 (sent_is L))"
  unfolding close_turn_def
proof (rule triple_now, simp only: prod.case Let_def)
  fix now x
  let ?Z = "\<lambda>y l. observing_turn L stage c a y l \<and> y = core x"
  let ?o = "observed_attempt a native actual" and ?r = "turn_result env native"
  let ?as = "completed_attempts now x a ?o ?r"
  have save: "triple (holds env i n0 ?Z) (save env i lease p) (\<lambda>_. holds env i n0 (sent_is L)) (holds env i n0 (sent_is L))"
    if "\<And>n. keeps_good env n ?Z p" for p
    by (rule triple_save_last[OF env that sent_is_lasting]) (auto simp: observing_turn_def observing_sent)
  have z: "attempt_of c a y \<and> y = core x" if "?Z y l" for y l using that unfolding observing_turn_def by blast
  have unverified: "keeps_good env n ?Z (block_patch reason)" for n reason
    by (rule calm_keeps, rule calm_simple) (simp_all add: patch_simps)
  have same: "same_attempt a (?o\<lparr>at_status := s, at_completedAt := t\<rparr>)" for s t by (simp add: same_attempt_def observed_attempt_def)
  have stopped: "keeps_good env n ?Z (stopped_patch now x native a ?o)" for n
    by (rule replaced_clears_keeps[OF z same[where s = "if tn_status native = TURN_INTERRUPTED then ATTEMPT_INTERRUPTED else ATTEMPT_FAILED" and t = "Some now"]])
      (simp_all add: stopped_patch_def Let_def patch_simps)
  have same2: "same_attempt a (?o\<lparr>at_status := s, at_completedAt := t, at_result := r\<rparr>)" for s t r
    by (simp add: same_attempt_def observed_attempt_def)
  have insufficient: "keeps_good env n ?Z (insufficient_patch x ?as)" for n
    by (rule replaced_clears_keeps[OF z same2[where s = ATTEMPT_COMPLETED and t = "Some now" and r = ?r]]) (simp_all add: insufficient_patch_def completed_attempts_def Let_def patch_simps)
  have advanced: "keeps_good env n ?Z (advanced_patch x stage ?as r)"
    if "?r = Some r" "sufficient_result stage r" "selection_verified x c native actual" for n r
  proof (cases "at_stageId a = sg_id stage")
    case True
    then show ?thesis using that
      by (intro advanced_keeps[where c = c and a = a]) (auto simp: observing_turn_def observing_def)
  next
    case False
    then show ?thesis using c by (auto simp: keeps_good_def observing_turn_def attempt_of_def core_fields)
  qed
  show "triple (holds env i n0 ?Z)
     (if \<not> selection_verified x c native actual
      then save env i lease (block_patch ''Native turn configuration could not be verified because its observation is missing or inconsistent. The START command will not be resent.'')
      else if tn_status native \<noteq> TURN_COMPLETED then save env i lease (stopped_patch now x native a ?o)
      else case ?r of None \<Rightarrow> save env i lease (insufficient_patch x ?as)
        | Some r \<Rightarrow> if sufficient_result stage r then save env i lease (advanced_patch x stage ?as r)
          else save env i lease (insufficient_patch x ?as))
     (\<lambda>_. holds env i n0 (sent_is L)) (holds env i n0 (sent_is L))"
  proof (intro triple_if)
    show "triple (holds env i n0 ?Z) (case ?r of None \<Rightarrow> save env i lease (insufficient_patch x ?as)
        | Some r \<Rightarrow> if sufficient_result stage r then save env i lease (advanced_patch x stage ?as r)
          else save env i lease (insufficient_patch x ?as))
       (\<lambda>_. holds env i n0 (sent_is L)) (holds env i n0 (sent_is L))"
      if "\<not> \<not> selection_verified x c native actual"
    proof (cases ?r)
      case None
      then show ?thesis using save[OF insufficient] by simp
    next
      case (Some r)
      then show ?thesis using save[OF insufficient] save[OF advanced[OF Some]] that by simp
    qed
  qed (rule save[OF unverified], rule save[OF stopped])
qed

lemma triple_observe_turn:
  assumes env: "environment_ok env" and c: "cm_stageId c = sg_id stage" "cm_type c = START"
  shows "triple (holds env i n0 (observing_turn L stage c a)) (observe_turn env i lease stage thread c native a)
    (\<lambda>_. holds env i n0 (sent_is L)) (holds env i n0 (sent_is L))"
  unfolding observe_turn_def Let_def
proof (rule triple_world, rule triple_andthen)
  fix w0
  let ?x = "cw_execution w0"
  let ?Z = "\<lambda>y l. observing_turn L stage c a y l \<and> y = core ?x" and ?Y = "observing_turn L stage c a"
  let ?e = "if cm_id c \<in> set (cw_observations w0) then Some (ce_evidence env (cm_id c) (cw_tick w0)) else None"
  let ?o = "observed_attempt a native (selection_known ?e a)" and ?d = "c\<lparr>cm_status := CMD_SENT, cm_turnId := Some (tn_id native)\<rparr>"
  let ?p = "no_patch\<lparr>pt_pendingCommand := Some (Some ?d), pt_attempts := Some (replace_attempt (\<lambda>b. at_id b = at_id a) (\<lambda>_. ?o) ?x)\<rparr>"
  have o: "same_attempt a ?o" "at_status ?o \<noteq> ATTEMPT_COMPLETED" "at_selection ?o = at_selection a"
    by (simp_all add: same_attempt_def observed_attempt_def)
  have d: "cm_type ?d = START" "same_start ?d c" by (simp_all add: same_start_def c)
  have keeps: "keeps_good env n ?Z ?p" for n
    by (rule observed_keeps[OF _ o(1,2,3) d refl]) (unfold observing_turn_def, blast)
  have "triple (holds env i n0 ?Z) (save env i lease ?p) (\<lambda>_. holds env i n0 ?Y) (holds env i n0 ?Z)"
    by (rule triple_post[OF triple_save[OF env keeps]], erule holds_mono, rule kept_attempt[OF _ _ refl d o(1)], assumption) simp
  then have save: "triple (holds env i n0 ?Z) (save env i lease ?p) (\<lambda>_. holds env i n0 ?Y) (holds env i n0 (sent_is L))"
    by (rule triple_error) (erule holds_mono, blast intro: observing_turn_sent)
  show "triple (holds env i n0 ?Z) (if observation_missing c a native (selection_known ?e a) then save env i lease ?p else ret ())
     (\<lambda>_. holds env i n0 ?Y) (holds env i n0 (sent_is L))"
    by (rule triple_if[OF save triple_ret]) (erule holds_mono, simp)
  have weaken: "holds env i n0 ?Y w \<Longrightarrow> holds env i n0 (sent_is L) w" for w
    by (erule holds_mono) (rule observing_turn_sent)
  show "triple (holds env i n0 ?Y) (andthen (require (?e \<noteq> Some INVALID))
       (if tn_status native = IN_PROGRESS then observe_running env i lease stage thread c native
        else if selection_known ?e a = None \<and> ?e = Some OBSERVING then await_closure env i lease c
        else close_turn env i lease stage c native a (selection_known ?e a)))
     (\<lambda>_. holds env i n0 (sent_is L)) (holds env i n0 (sent_is L))"
    by (rule triple_andthen[OF triple_require], assumption, rule weaken, assumption, intro triple_if)
      (rule triple_pre[OF triple_observe_running[OF env] weaken], assumption,
       rule triple_pre[OF triple_await_closure[OF env] weaken], assumption, rule triple_close_turn[OF env c(1)])
qed

lemma triple_reconcile:
  assumes env: "environment_ok env"
  shows "triple (holds env i n0 (observing L stage c)) (reconcile_acknowledged env i lease native)
    (\<lambda>_. holds env i n0 (observing L stage c)) (holds env i n0 (sent_is L))"
  unfolding reconcile_acknowledged_def
proof (rule triple_look_any)
  fix w0
  let ?Y = "observing L stage c"
  have weaken: "holds env i n0 ?Y w \<Longrightarrow> holds env i n0 (sent_is L) w" for w
    by (erule holds_mono) (simp add: observing_sent)
  have save: "triple (holds env i n0 ?Y) (save env i lease (no_patch\<lparr>pt_interruptCommand := Some (Some d)\<rparr>))
      (\<lambda>_. holds env i n0 ?Y) (holds env i n0 (sent_is L))" for d
  proof (rule triple_conseq[OF triple_save[OF env calm_keeps]])
    show "calm_patch (no_patch\<lparr>pt_interruptCommand := Some (Some d)\<rparr>) x" for x
      by (rule calm_simple) (simp_all add: patch_selectors)
    show "holds env i n0 ?Y w" if "holds env i n0 (saved ?Y (no_patch\<lparr>pt_interruptCommand := Some (Some d)\<rparr>)) w" for w
      using that by (rule holds_mono) (erule kept_observing, simp_all add: patch_selectors)
  qed (auto intro: weaken)
  show "triple (holds env i n0 ?Y) (case ex_interruptCommand (cw_execution w0) of None \<Rightarrow> ret ()
     | Some c \<Rightarrow> if cm_turnId c = Some (tn_id native) \<and> map_of (cw_acknowledged w0) (cm_id c) = Some (tn_id native)
         then andthen (save env i lease (no_patch\<lparr>pt_interruptCommand := Some (Some (c\<lparr>cm_status := CMD_SENT\<rparr>))\<rparr>))
           (change (\<lambda>w. w\<lparr>cw_acknowledged := map_delete (cm_id c) (cw_acknowledged w)\<rparr>))
         else ret ()) (\<lambda>_. holds env i n0 ?Y) (holds env i n0 (sent_is L))"
    by (cases "ex_interruptCommand (cw_execution w0)")
      (auto intro!: triple_ret triple_andthen[OF save] triple_keep_change)
qed

lemma triple_observe_start:
  assumes env: "environment_ok env" and c: "cm_stageId c = sg_id stage" "cm_type c = START"
  shows "triple (holds env i n0 (observing L stage c)) (observe_start env i lease stage thread c)
    (\<lambda>_. holds env i n0 (sent_is L)) (holds env i n0 (sent_is L))"
  unfolding observe_start_def
proof (rule triple_look_any)
  fix unaccepted
  let ?Y = "observing L stage c" and ?S = "holds env i n0 (sent_is L)"
  have weaken: "holds env i n0 ?Y w \<Longrightarrow> ?S w" for w by (erule holds_mono) (simp add: observing_sent)
  have settle: "triple (holds env i n0 ?Y) (settle_unaccepted env i lease (cm_id c) d r) (\<lambda>_. ?S) ?S" for d r
    by (rule triple_settle[OF env _ sent_is_lasting]) (simp_all add: observing_def sent_is_def)
  have found: "triple (holds env i n0 ?Y) (bnd (look cw_execution) (\<lambda>x. case List.find (\<lambda>a. at_commandId a = cm_id c) (ex_attempts x) of
      None \<Rightarrow> throw OtherError | Some a \<Rightarrow> observe_turn env i lease stage thread c native a)) (\<lambda>_. ?S) ?S" for native
  proof (rule triple_execution)
    fix x n assume g: "good_execution (max_stage_attempts env) (unused_ids env n) x"
    show "triple (holds env i n0 (\<lambda>y l. ?Y y l \<and> y = core x)) (case List.find (\<lambda>a. at_commandId a = cm_id c) (ex_attempts x) of
        None \<Rightarrow> throw OtherError | Some a \<Rightarrow> observe_turn env i lease stage thread c native a) (\<lambda>_. ?S) ?S"
    proof (cases "List.find (\<lambda>a. at_commandId a = cm_id c) (ex_attempts x)")
      case None
      then show ?thesis by simp (rule triple_throw, erule holds_mono, simp add: observing_sent)
    next
      case (Some a)
      have "observing_turn L stage c a y l" if "?Y y l \<and> y = core x" for y l
      proof -
        have "?Y x l" using that observing_core by blast
        then have "observing_turn L stage c a x l" using attempt_found[OF g _ Some] by (simp add: observing_turn_def observing_def)
        then show ?thesis using that observing_turn_core by blast
      qed
      then show ?thesis unfolding Some option.case by (rule triple_holds_pre[OF triple_observe_turn[OF env c]])
    qed
  qed
  show "triple (holds env i n0 ?Y) (case map_of unaccepted (cm_id c) of
       Some (delivery, retryable) \<Rightarrow>
         andthen (require (\<not> list_ex (claims_turn c) (nt_turns thread)))
           (settle_unaccepted env i lease (cm_id c) delivery retryable)
     | None \<Rightarrow> (case native_of c thread of
         None \<Rightarrow> throw OtherError
       | Some native \<Rightarrow> andthen (reconcile_acknowledged env i lease native)
           (bnd (look cw_execution) (\<lambda>x. case List.find (\<lambda>a. at_commandId a = cm_id c) (ex_attempts x) of
              None \<Rightarrow> throw OtherError
            | Some a \<Rightarrow> observe_turn env i lease stage thread c native a)))) (\<lambda>_. ?S) ?S"
  proof (cases "map_of unaccepted (cm_id c)")
    case None
    then show ?thesis
      by (cases "native_of c thread")
        (simp_all add: triple_throw weaken triple_andthen[OF triple_reconcile[OF env] found])
  next
    case (Some v)
    obtain d r where "v = (d, r)" by (cases v)
    then show ?thesis using Some triple_andthen[OF triple_require settle] weaken by simp
  qed
qed

subsection \<open>A stage without a pending \<open>START\<close>\<close>

text \<open>
  The stage may still be attempted; a \<open>START\<close> is stored and not sent; it is stored and possibly sent; at
  most one was sent, and it is stored.
\<close>

definition ready :: "ctl_env \<Rightarrow> string list \<Rightarrow> plan_stage \<Rightarrow> execution \<Rightarrow> string list \<Rightarrow> bool" where
  "ready env L stage x l = (l = L \<and> active_stage x = Some stage \<and>
     attempts_of (sg_id stage) (ex_attempts x) < max_stage_attempts env)"

definition stored_start :: "ctl_env \<Rightarrow> nat \<Rightarrow> command \<Rightarrow> execution \<Rightarrow> bool" where
  "stored_start env n0 start x = (waits_for start x \<and> cm_id start \<in> command_ids x \<and> cm_id start \<in> attempt_ids x \<and>
     (\<exists>n \<ge> n0. cm_id start = ce_uuid env n 0))"

definition starting :: "ctl_env \<Rightarrow> nat \<Rightarrow> string list \<Rightarrow> command \<Rightarrow> execution \<Rightarrow> string list \<Rightarrow> bool" where
  "starting env n0 L start x l = (l = L \<and> stored_start env n0 start x)"

definition launched :: "ctl_env \<Rightarrow> nat \<Rightarrow> string list \<Rightarrow> command \<Rightarrow> execution \<Rightarrow> string list \<Rightarrow> bool" where
  "launched env n0 L start x l = ((l = L \<or> l = L @ [cm_id start]) \<and> stored_start env n0 start x)"

definition sent_once :: "ctl_env \<Rightarrow> nat \<Rightarrow> string list \<Rightarrow> execution \<Rightarrow> string list \<Rightarrow> bool" where
  "sent_once env n0 L x l = (l = L \<or> (\<exists>n \<ge> n0. l = L @ [ce_uuid env n 0] \<and> ce_uuid env n 0 \<in> command_ids x))"

lemma sent_once_lasting: "lasting (sent_once env n0 L)"
  by (auto simp: lasting_def sent_once_def)

lemma ready_once: "ready env L stage x l \<Longrightarrow> sent_once env n0 L x l"
  by (simp add: ready_def sent_once_def)

lemma starting_launched: "starting env n0 L start x l \<Longrightarrow> launched env n0 L start x l"
  by (simp add: starting_def launched_def)

lemma launched_once: "launched env n0 L start x l \<Longrightarrow> sent_once env n0 L x l"
  unfolding launched_def sent_once_def stored_start_def by metis

lemma starting_once: "starting env n0 L start x l \<Longrightarrow> sent_once env n0 L x l"
  by (rule launched_once[OF starting_launched])

lemma ready_core: "ready env L stage (core x) l = ready env L stage x l"
  by (simp add: ready_def core_fields)

lemma attempt_ids_core: "attempt_ids (core x) = attempt_ids x"
  by (simp add: attempt_ids_def core_fields)

lemma stored_start_core: "stored_start env n0 start (core x) = stored_start env n0 start x"
  by (simp add: stored_start_def core_fields attempt_ids_core)

lemma start_claimed:
  assumes "pt_pendingCommand p = Some (Some c)"
  shows "cm_id c \<in> command_ids (patched now p x)"
  using assms by (auto simp: command_ids_def patched_def add_command_def image_iff list_ex_iff split: option.splits)

lemma kept_ready:
  assumes s: "saved (ready env L stage) p y l" and p: "pt_activeStageIndex p = None" "pt_attempts p = None"
  shows "ready env L stage y l"
proof -
  obtain x now where x: "ready env L stage x l" "core y = core (patched now p x)" using s by (auto simp: saved_def)
  have "ready env L stage (patched now p x) l" using x(1) p by (simp add: ready_def)
  then show ?thesis using x(2) by (metis ready_core)
qed

lemma triple_look_at:
  assumes "\<And>w0. n0 \<le> cw_tick w0 \<Longrightarrow>
    triple (\<lambda>w. cw_tick w = cw_tick w0 \<and> holds env i n0 (\<lambda>y l. Z y l \<and> y = core (cw_execution w0)) w) (f (g w0)) Q E"
  shows "triple (holds env i n0 Z) (bnd (look g) f) Q E"
proof (rule tripleI)
  fix w assume h: "holds env i n0 Z w"
  then have "cw_tick w = cw_tick w \<and> holds env i n0 (\<lambda>y l. Z y l \<and> y = core (cw_execution w)) w" "n0 \<le> cw_tick w"
    by (simp_all add: holds_def)
  from tripleD[OF assms[OF this(2)] this(1)] show "case bnd (look g) f w of (w', Inl e) \<Rightarrow> E w' | (w', Inr x) \<Rightarrow> Q x w'"
    by (simp add: bnd_def look_def)
qed

lemma triple_failed_start:
  assumes env: "environment_ok env" and start: "cm_type start = START"
  shows "triple (holds env i n0 (launched env n0 L start)) (failed_start env i lease start e)
    (\<lambda>_. holds env i n0 (sent_once env n0 L)) (holds env i n0 (sent_once env n0 L))"
proof -
  let ?Z = "launched env n0 L start" and ?S = "holds env i n0 (sent_once env n0 L)"
  let ?p = "no_patch\<lparr>pt_status := Some RUNNING, pt_pendingCommand := Some (Some (start\<lparr>cm_status := CMD_UNKNOWN\<rparr>)),
      pt_statusReason := Some (Some ''Reconciling native command acceptance.'')\<rparr>"
  have weaken: "holds env i n0 ?Z w \<Longrightarrow> ?S w" for w by (erule holds_mono) (rule launched_once)
  have "calm_patch ?p x" if "?Z (core x) l" for x l
  proof -
    have "waits_for start x" using that by (simp add: launched_def stored_start_def)
    then show ?thesis by (auto simp: waits_for_def calm_patch_def patch_selectors same_start_def)
  qed
  then have reconcile: "triple (holds env i n0 ?Z) (save env i lease ?p) (\<lambda>_. ?S) ?S"
    by (intro triple_save_last[OF env calm_keeps sent_once_lasting]) (auto intro: launched_once)
  have settle: "triple (holds env i n0 ?Z) (settle_unaccepted env i lease (cm_id start) d r) (\<lambda>_. ?S) ?S" for d r
    by (rule triple_settle[OF env _ sent_once_lasting launched_once]) (auto simp: launched_def stored_start_def)
  have refused: "triple (holds env i n0 ?Z)
      (andthen (change (\<lambda>w. w\<lparr>cw_unaccepted := map_set (cm_id start) (d, r) (cw_unaccepted w)\<rparr>))
        (bnd (resolve_control env i lease) (\<lambda>_. settle_unaccepted env i lease (cm_id start) d r))) (\<lambda>_. ?S) ?S" for d r
    by (rule triple_andthen[OF triple_keep_change], simp,
        rule triple_bnd[OF triple_error[OF triple_resolve[OF env]] settle], erule weaken)
  show ?thesis unfolding failed_start_def Let_def
    by (cases e) (auto intro!: reconcile refused triple_throw weaken)
qed

lemma triple_send_start:
  assumes env: "environment_ok env" and start: "cm_type start = START"
  shows "triple (holds env i n0 (starting env n0 L start)) (send_start env i lease prompt start)
    (\<lambda>_. holds env i n0 (sent_once env n0 L)) (holds env i n0 (sent_once env n0 L))"
  unfolding send_start_def
proof (rule triple_catch[OF _ triple_failed_start[OF env start]])
  let ?Z = "starting env n0 L start" and ?Y = "launched env n0 L start" and ?S = "holds env i n0 (sent_once env n0 L)"
  have drive: "triple (holds env i n0 ?Z)
      (drive env (ce_startTurn env) (before_send env i lease (cm_baselineTurnIds start)) (NativeStart (cm_id start) prompt))
      (\<lambda>_. holds env i n0 ?Y) (holds env i n0 ?Y)"
  proof (rule triple_drive[OF env, where ?Z1.0 = ?Z])
    show "triple (holds env i n0 ?Z) (before_send env i lease (cm_baselineTurnIds start)) (\<lambda>_. holds env i n0 ?Z) (holds env i n0 ?Y)"
      by (rule triple_error[OF triple_before_send[OF env]], erule holds_mono, rule starting_launched)
    show "?Y x (sent_after (NativeStart (cm_id start) prompt) l) \<and> set (start_ids [NativeStart (cm_id start) prompt]) \<subseteq> attempt_ids x"
      if "?Z x l" for x l using that by (simp add: starting_def launched_def sent_after_def stored_start_def)
  qed (rule starting_launched)
  have save: "triple (holds env i n0 ?Y) (bnd (look cw_execution) (\<lambda>x. save env i lease (started_patch x start turnId)))
      (\<lambda>_. ?S) (holds env i n0 ?Y)" for turnId
  proof (rule triple_execution)
    fix x
    let ?Z = "\<lambda>y l. ?Y y l \<and> y = core x"
    have keeps: "keeps_good env n ?Z (started_patch x start turnId)" for n
      by (rule started_keeps[OF _ start]) (auto simp: launched_def stored_start_def)
    show "triple (holds env i n0 ?Z) (save env i lease (started_patch x start turnId)) (\<lambda>_. ?S) (holds env i n0 ?Y)"
    proof (rule triple_conseq[OF triple_save[OF env keeps]])
      show "holds env i n0 (sent_once env n0 L) w" if "holds env i n0 (saved ?Z (started_patch x start turnId)) w" for w
        using that by (rule holds_mono) (erule saved_lasting[OF sent_once_lasting, rotated], blast intro: launched_once)
    qed (auto elim: holds_mono)
  qed
  show "triple (holds env i n0 ?Z)
     (bnd (drive env (ce_startTurn env) (before_send env i lease (cm_baselineTurnIds start)) (NativeStart (cm_id start) prompt))
       (\<lambda>turnId. andthen (change (\<lambda>w. w\<lparr>cw_observations := List.insert (cm_id start) (cw_observations w)\<rparr>))
         (andthen (fence env i lease)
           (bnd (look cw_execution) (\<lambda>x. save env i lease (started_patch x start turnId)))))) (\<lambda>_. ?S) (holds env i n0 ?Y)"
    by (rule triple_bnd[OF drive], rule triple_andthen[OF triple_keep_change], simp,
        rule triple_andthen[OF triple_fence[OF env] save])
qed

lemma triple_prepare_start:
  assumes env: "environment_ok env" and c: "cm_stageId c = sg_id stage"
  shows "triple (holds env i n0 (ready env L stage)) (prepare_start env i lease stage prompt c)
    (\<lambda>_. holds env i n0 (sent_once env n0 L)) (holds env i n0 (sent_once env n0 L))"
  unfolding prepare_start_def
proof (rule triple_look_at, simp only: prod.case Let_def, rule triple_andthen)
  fix w0 assume n0: "n0 \<le> cw_tick w0"
  let ?n = "cw_tick w0" and ?x = "cw_execution w0"
  let ?Z = "\<lambda>y l. ready env L stage y l \<and> y = core ?x" and ?S = "holds env i n0 (sent_once env n0 L)"
  let ?start = "c\<lparr>cm_id := ce_uuid env ?n 0, cm_type := START, cm_preparedAt := ce_now env ?n\<rparr>"
  let ?p = "no_patch\<lparr>pt_pendingCommand := Some (Some ?start),
      pt_attempts := Some (ex_attempts ?x @ [prepared_attempt (ce_uuid env ?n 1) stage ?start])\<rparr>"
  have inj: "\<forall>n k m j. ce_uuid env n k = ce_uuid env m j \<longrightarrow> n = m \<and> k = j" using env unfolding environment_ok_def by blast
  have keeps: "keeps_good env ?n ?Z ?p"
    by (rule prepared_keeps[OF inj _ _ _ _ refl]) (use c in \<open>auto simp: ready_def\<close>)
  have starts: "starting env n0 L ?start y l" if "saved ?Z ?p y l" for y l
  proof -
    obtain x now where x: "?Z x l" "core y = core (patched now ?p x)" using \<open>saved ?Z ?p y l\<close> unfolding saved_def by blast
    have "pending_start (patched now ?p x) = Some ?start" by (rule pending_set) simp_all
    then have "waits_for ?start (patched now ?p x)" by (simp add: waits_for_def same_start_def)
    moreover have "cm_id ?start \<in> command_ids (patched now ?p x)" by (rule start_claimed) simp
    moreover have "cm_id ?start \<in> attempt_ids (patched now ?p x)" by (simp add: attempt_ids_def prepared_attempt_def)
    ultimately have "stored_start env n0 ?start (patched now ?p x)" using n0 by (auto simp: stored_start_def)
    then have "stored_start env n0 ?start y" using x(2) by (metis stored_start_core)
    then show ?thesis using x(1) by (simp add: starting_def ready_def)
  qed
  show "triple (\<lambda>w. cw_tick w = ?n \<and> holds env i n0 ?Z w) (save env i lease ?p) (\<lambda>_. holds env i n0 (starting env n0 L ?start)) ?S"
    by (rule triple_conseq[OF triple_save_at[OF env keeps]]) (auto elim!: holds_mono intro: starts ready_once)
  have weaken: "holds env i n0 (starting env n0 L ?start) w \<Longrightarrow> ?S w" for w by (erule holds_mono) (rule starting_once)
  show "triple (holds env i n0 (starting env n0 L ?start))
     (bnd (resolve_control env i lease) (\<lambda>_. andthen (fence env i lease) (send_start env i lease prompt ?start))) (\<lambda>_. ?S) ?S"
    by (rule triple_bnd[OF triple_error[OF triple_resolve[OF env] weaken]], assumption,
        rule triple_andthen[OF triple_error[OF triple_fence[OF env] weaken]], assumption, rule triple_send_start[OF env]) simp
qed

lemma ready_weaken: "holds env i n0 (ready env L stage) w \<Longrightarrow> holds env i n0 (sent_once env n0 L) w"
  by (erule holds_mono) (rule ready_once)

text \<open>The calls that come before, with the postcondition of the whole.\<close>

lemmas ready_steps =
  triple_error[OF triple_fence ready_weaken] triple_error[OF triple_resolve ready_weaken]
  triple_error[OF triple_read ready_weaken] triple_error[OF triple_await_answer ready_weaken]

lemma triple_ready_save:
  assumes "environment_ok env" "\<And>x. calm_patch p x"
  shows "triple (holds env i n0 (ready env L stage)) (save env i lease p)
    (\<lambda>_. holds env i n0 (ready env L stage)) (holds env i n0 (ready env L stage))"
  by (rule triple_post[OF triple_save[OF assms(1) calm_keeps]], rule assms(2), erule holds_mono, erule kept_ready)
    (use assms(2) in \<open>auto simp: calm_patch_def\<close>)

lemma triple_confirm_settings:
  assumes env: "environment_ok env" and c: "cm_stageId c = sg_id stage" "cm_type c = SETTINGS"
  shows "triple (holds env i n0 (ready env L stage)) (confirm_settings env i lease stage prompt c)
    (\<lambda>_. holds env i n0 (sent_once env n0 L)) (holds env i n0 (sent_once env n0 L))"
  unfolding confirm_settings_def
proof (rule triple_andthen[OF ready_steps(1)[OF env]], assumption, rule triple_bnd[OF ready_steps(4)[OF env]], assumption,
    rule triple_andthen[OF ready_steps(1)[OF env]], assumption, rule triple_look_any, rule triple_andthen[OF triple_require],
    assumption, erule ready_weaken, rule triple_andthen)
  show "triple (holds env i n0 (ready env L stage)) (save env i lease (no_patch\<lparr>pt_pendingCommand := Some (Some (c\<lparr>cm_status := CMD_SENT\<rparr>))\<rparr>))
      (\<lambda>_. holds env i n0 (ready env L stage)) (holds env i n0 (sent_once env n0 L))"
    by (rule triple_error[OF triple_ready_save[OF env] ready_weaken], rule calm_settings) (simp_all add: patch_selectors c)
qed (rule triple_bnd[OF ready_steps(2)[OF env]], assumption, rule triple_bnd[OF ready_steps(3)[OF env]], assumption,
  rule triple_andthen[OF triple_require], assumption, erule ready_weaken, rule triple_prepare_start[OF env c(1)])

lemma triple_ready_end:
  assumes "environment_ok env" "\<And>x. calm_patch p x"
  shows "triple (holds env i n0 (ready env L stage)) (save env i lease p)
    (\<lambda>_. holds env i n0 (sent_once env n0 L)) (holds env i n0 (sent_once env n0 L))"
  by (rule triple_save_last[OF assms(1) calm_keeps[OF assms(2)] sent_once_lasting ready_once])

lemma triple_ready_now:
  assumes "environment_ok env" "\<And>now x y. calm_patch (p now x) y"
  shows "triple (holds env i n0 (ready env L stage)) (bnd (now_execution env) (\<lambda>(now, x). save env i lease (p now x)))
    (\<lambda>_. holds env i n0 (sent_once env n0 L)) (holds env i n0 (sent_once env n0 L))"
  unfolding now_execution_def
  by (rule triple_look_any) (simp add: split_beta triple_ready_end[OF assms])

definition written :: "ctl_env \<Rightarrow> string \<Rightarrow> nat \<Rightarrow> string list \<Rightarrow> plan_stage \<Rightarrow> bool \<Rightarrow> ctl_world \<Rightarrow> bool" where
  "written env i n0 L stage go_on = (if go_on then holds env i n0 (ready env L stage) else holds env i n0 (sent_once env n0 L))"

lemma triple_failed_settings:
  assumes env: "environment_ok env" and c: "cm_type c = SETTINGS"
  shows "triple (holds env i n0 (ready env L stage)) (failed_settings env i lease c e)
    (written env i n0 L stage) (holds env i n0 (sent_once env n0 L))"
proof -
  let ?S = "holds env i n0 (sent_once env n0 L)"
  have calm: "calm_patch (case e of SettingsRejected retryable \<Rightarrow> rejected_settings_patch now x c retryable
      | _ \<Rightarrow> unknown_settings_patch c) y" for now x y
    by (rule calm_settings)
      (auto simp: rejected_settings_patch_def unknown_settings_patch_def patch_simps c split: ctl_error.split option.split)
  have save: "triple (holds env i n0 (ready env L stage)) (bnd (now_execution env) (\<lambda>(now, x).
      andthen (save env i lease (case e of SettingsRejected retryable \<Rightarrow> rejected_settings_patch now x c retryable
        | _ \<Rightarrow> unknown_settings_patch c)) (ret False))) (written env i n0 L stage) ?S"
    unfolding now_execution_def
    by (rule triple_look_any)
      (simp only: split_beta, rule triple_andthen[OF triple_ready_end[OF env calm]], rule triple_ret, simp add: written_def)
  show ?thesis unfolding failed_settings_def
    by (rule triple_if, rule triple_throw, erule ready_weaken, rule triple_bnd[OF ready_steps(2)[OF env] save], assumption)
qed

lemma triple_write_settings:
  assumes env: "environment_ok env" and c: "cm_type c = SETTINGS"
  shows "triple (holds env i n0 (ready env L stage)) (write_settings env i lease pending c shown)
    (written env i n0 L stage) (holds env i n0 (sent_once env n0 L))"
proof -
  have goes: "triple (holds env i n0 (ready env L stage)) (ret True) (written env i n0 L stage) E" for E
    by (rule triple_ret) (simp add: written_def)
  have drive: "triple (holds env i n0 (ready env L stage)) (drive env (ce_updateSettings env)
      (before_send env i lease (cm_baselineTurnIds c)) (NativeSettings (cm_selection c)))
      (\<lambda>_. holds env i n0 (ready env L stage)) (holds env i n0 (ready env L stage))"
    by (rule triple_drive[OF env triple_before_send[OF env]]) (simp_all add: sent_after_def)
  show ?thesis unfolding write_settings_def
    by (rule triple_if, rule triple_catch[OF triple_andthen[OF drive goes] triple_failed_settings[OF env c]], rule goes)
qed

lemma triple_apply_settings:
  assumes env: "environment_ok env" and c: "cm_stageId c = sg_id stage" "cm_type c = SETTINGS"
  shows "triple (holds env i n0 (ready env L stage)) (apply_settings env i lease stage prompt pending c)
    (\<lambda>_. holds env i n0 (sent_once env n0 L)) (holds env i n0 (sent_once env n0 L))"
  unfolding apply_settings_def
proof (rule triple_bnd[OF ready_steps(2)[OF env]], assumption, rule triple_bnd[OF ready_steps(3)[OF env]], assumption,
    rule triple_andthen[OF triple_require], assumption, erule ready_weaken, rule triple_andthen[OF ready_steps(1)[OF env]],
    assumption, rule triple_bnd[OF ready_steps(4)[OF env]], assumption, rule triple_andthen[OF ready_steps(1)[OF env]], assumption,
    rule triple_look_any, rule triple_andthen[OF triple_require], assumption, erule ready_weaken, rule triple_if)
  let ?S = "holds env i n0 (sent_once env n0 L)"
  have again: "triple (holds env i n0 (ready env L stage)) (bnd (now_execution env) (\<lambda>(now, x).
      save env i lease (model_retry now x None (no_patch\<lparr>pt_pendingCommand := Some (Some (c\<lparr>cm_status := CMD_PREPARED\<rparr>))\<rparr>)))) (\<lambda>_. ?S) ?S"
    by (rule triple_ready_now[OF env], rule calm_settings) (simp_all add: patch_simps c)
  show "triple (holds env i n0 (ready env L stage)) (bnd (resolve_control env i lease) (\<lambda>_. bnd (now_execution env) (\<lambda>(now, x).
      save env i lease (model_retry now x None (no_patch\<lparr>pt_pendingCommand := Some (Some (c\<lparr>cm_status := CMD_PREPARED\<rparr>))\<rparr>)))))
      (\<lambda>_. ?S) ?S"
    by (rule triple_bnd[OF ready_steps(2)[OF env] again])
  show "triple (holds env i n0 (ready env L stage)) (bnd (write_settings env i lease pending c shown)
      (\<lambda>go_on. if go_on then confirm_settings env i lease stage prompt c else ret ())) (\<lambda>_. ?S) ?S" for shown
    by (rule triple_bnd[OF triple_write_settings[OF env c(2)]])
      (simp add: written_def triple_confirm_settings[OF env c] triple_ret)
qed

lemma triple_switch_model:
  assumes env: "environment_ok env" and c: "cm_stageId c = sg_id stage" "cm_type c = SETTINGS"
  shows "triple (holds env i n0 (ready env L stage)) (switch_model env i lease stage prompt pending c)
    (\<lambda>_. holds env i n0 (sent_once env n0 L)) (holds env i n0 (sent_once env n0 L))"
  unfolding switch_model_def
  by (rule triple_andthen[OF triple_if[OF triple_error[OF triple_ready_save[OF env] ready_weaken] triple_ret]
        triple_apply_settings[OF env c]], rule calm_settings) (simp_all add: patch_selectors c)

lemma triple_select_model:
  assumes env: "environment_ok env"
  shows "triple (holds env i n0 (ready env L stage)) (select_model env i lease stage prompt thread selection pending models)
    (\<lambda>_. holds env i n0 (sent_once env n0 L)) (holds env i n0 (sent_once env n0 L))"
  unfolding select_model_def
proof (rule triple_if)
  let ?R = "holds env i n0 (ready env L stage)" and ?S = "holds env i n0 (sent_once env n0 L)"
  show "triple ?R (bnd (now_execution env) (\<lambda>(now, x). save env i lease (model_retry now x None no_patch))) (\<lambda>_. ?S) ?S"
    by (rule triple_ready_now[OF env], rule calm_settings) (simp_all add: patch_simps)
  have c: "cm_stageId (settings_command stage selection thread pending now uuid) = sg_id stage"
      "cm_type (settings_command stage selection thread pending now uuid) = SETTINGS"
    if "settings_match stage selection pending" for now uuid
    using that by (auto simp: settings_command_def settings_match_def split: option.splits)
  show "triple ?R (andthen (require (settings_match stage selection pending))
      (bnd (look (\<lambda>w. (ce_now env (cw_tick w), ce_uuid env (cw_tick w) 0))) (\<lambda>(now, uuid).
        switch_model env i lease stage prompt pending (settings_command stage selection thread pending now uuid)))) (\<lambda>_. ?S) ?S"
    by (rule triple_andthen[OF triple_require[where Q = "\<lambda>_ w. settings_match stage selection pending \<and> ?R w"]], blast,
        erule ready_weaken, rule triple_fact, rule triple_look_any)
      (simp only: split_beta, rule triple_switch_model[OF env c])
qed

definition beginning :: "string list \<Rightarrow> plan_stage \<Rightarrow> execution \<Rightarrow> string list \<Rightarrow> bool" where
  "beginning L stage x l = (l = L \<and> active_stage x = Some stage)"

lemma beginning_once: "beginning L stage x l \<Longrightarrow> sent_once env n0 L x l"
  by (simp add: beginning_def sent_once_def)

lemma triple_begin_stage:
  assumes env: "environment_ok env"
  shows "triple (holds env i n0 (beginning L stage)) (begin_stage env i lease stage prompt control thread)
    (\<lambda>_. holds env i n0 (sent_once env n0 L)) (holds env i n0 (sent_once env n0 L))"
  unfolding begin_stage_def
proof (rule triple_if, rule triple_ret, erule holds_mono, rule beginning_once, assumption, rule triple_execution, rule triple_if)
  fix x
  let ?Z = "\<lambda>y l. beginning L stage y l \<and> y = core x" and ?S = "holds env i n0 (sent_once env n0 L)"
  let ?limit = "max_stage_attempts env"
  show "triple (holds env i n0 ?Z) (save env i lease (attempt_limit_patch stage ?limit)) (\<lambda>_. ?S) ?S"
    by (rule triple_save_last[OF env calm_keeps sent_once_lasting], rule calm_settings)
      (auto simp: attempt_limit_patch_def patch_selectors intro: beginning_once)
  assume "\<not> ?limit \<le> length (filter (\<lambda>a. at_stageId a = sg_id stage) (ex_attempts x))"
  then have "ready env L stage y l" if "?Z y l" for y l
    using that by (auto simp: ready_def beginning_def core_fields attempts_of_def)
  note ready_pre = triple_holds_pre[OF _ this]
  show "triple (holds env i n0 ?Z) (andthen (require (ct_starts control)) (bnd (await_answer env (ce_models env)) (\<lambda>models.
      andthen (fence env i lease)
        (select_model env i lease stage prompt thread (stage_selection x stage) (ex_pendingCommand x) models)))) (\<lambda>_. ?S) ?S"
    by (rule ready_pre, rule triple_andthen[OF triple_require], assumption, erule ready_weaken,
        rule triple_bnd[OF ready_steps(4)[OF env]], assumption,
        rule triple_andthen[OF ready_steps(1)[OF env] triple_select_model[OF env]])
qed

subsection \<open>One advance\<close>

text \<open>\<open>p\<close>: a \<open>START\<close> is pending, and none may be sent.\<close>

definition sent_at_most :: "ctl_env \<Rightarrow> nat \<Rightarrow> string list \<Rightarrow> bool \<Rightarrow> execution \<Rightarrow> string list \<Rightarrow> bool" where
  "sent_at_most env n0 L p x l = (if p then sent_is L x l else sent_once env n0 L x l)"

definition claimed_as :: "string list \<Rightarrow> bool \<Rightarrow> execution \<Rightarrow> string list \<Rightarrow> bool" where
  "claimed_as L p x l = (l = L \<and> (p \<longrightarrow> pending_start x \<noteq> None))"

lemma sent_at_most_lasting: "lasting (sent_at_most env n0 L p)"
  using sent_is_lasting[of L] sent_once_lasting[of env n0 L] by (auto simp: lasting_def sent_at_most_def)

lemma claimed_sent: "claimed_as L p x l \<Longrightarrow> sent_at_most env n0 L p x l"
  by (simp add: claimed_as_def sent_at_most_def sent_is_def sent_once_def)

lemma sent_is_at_most: "sent_is L x l \<Longrightarrow> sent_at_most env n0 L p x l"
  by (simp add: sent_at_most_def sent_is_def sent_once_def)

definition staged :: "string list \<Rightarrow> bool \<Rightarrow> execution \<Rightarrow> string list \<Rightarrow> bool" where
  "staged L p x l = (claimed_as L p x l \<and> runnable (ex_status x))"

lemma staged_sent: "staged L p x l \<Longrightarrow> sent_at_most env n0 L p x l"
  by (simp add: staged_def claimed_sent)

lemma triple_advance_stage:
  assumes env: "environment_ok env" and g: "good_execution (max_stage_attempts env) (unused_ids env n) x"
  shows "triple (holds env i n0 (\<lambda>y l. staged L p y l \<and> y = core x)) (advance_stage env i lease control thread x)
    (\<lambda>_. holds env i n0 (sent_at_most env n0 L p)) (holds env i n0 (sent_at_most env n0 L p))"
proof (cases "active_stage x")
  case None
  then show ?thesis unfolding advance_stage_def None option.case by (intro triple_throw) (auto elim!: holds_mono intro: staged_sent)
next
  case (Some stage)
  let ?Z = "\<lambda>y l. staged L p y l \<and> y = core x" and ?S = "holds env i n0 (sent_at_most env n0 L p)"
  have blocked: "triple (holds env i n0 ?Z) (save env i lease (block_patch reason)) (\<lambda>_. ?S) ?S" for reason
    by (rule triple_save_last[OF env calm_keeps sent_at_most_lasting], rule calm_simple)
      (auto simp: patch_simps intro: staged_sent)
  have begins: "triple (holds env i n0 ?Z) (begin_stage env i lease stage prompt control thread) (\<lambda>_. ?S) ?S"
    if "pending_start x = None" for prompt
  proof (cases p)
    case True
    then have False if "?Z y l" for y l using that \<open>pending_start x = None\<close> by (auto simp: staged_def claimed_as_def core_fields)
    then show ?thesis by (rule triple_holds_fact) simp_all
  next
    case False
    then show ?thesis using Some
      by (intro triple_conseq[OF triple_begin_stage[OF env, of i n0 L stage]])
        (auto elim!: holds_mono simp: staged_def claimed_as_def beginning_def core_fields sent_at_most_def)
  qed
  have observes: "triple (holds env i n0 ?Z) (observe_start env i lease stage thread c) (\<lambda>_. ?S) ?S"
    if "pending_start x = Some c" for c
  proof -
    have c: "cm_stageId c = sg_id stage" using g that Some by (auto simp: good_execution_def open_start_def)
    have "cm_type c = START" using that by (auto simp: pending_start_def split: option.splits if_splits)
    moreover have "observing L stage c y l" if "?Z y l" for y l
      using that \<open>pending_start x = Some c\<close> Some
      by (auto simp: staged_def claimed_as_def observing_def core_fields waits_for_def same_start_def runnable_def)
    ultimately show ?thesis
      by (intro triple_conseq[OF triple_observe_start[OF env c, of i n0 L]]) (auto elim!: holds_mono intro: sent_is_at_most)
  qed
  show ?thesis unfolding advance_stage_def Some option.case Let_def
    by (rule triple_if[OF blocked]) (cases "pending_start x", simp_all add: begins observes)
qed

lemma triple_advance_body:
  assumes env: "environment_ok env"
  shows "triple (holds env i n0 (claimed_as L p)) (advance_body env i lease)
    (\<lambda>_. holds env i n0 (sent_at_most env n0 L p)) (holds env i n0 (sent_at_most env n0 L p))"
  unfolding advance_body_def
proof (rule triple_now, simp only: prod.case, intro triple_if)
  fix now x
  let ?Z = "\<lambda>y l. claimed_as L p y l \<and> y = core x" and ?S = "holds env i n0 (sent_at_most env n0 L p)"
  have rest: "triple (holds env i n0 ?Z) (ret ()) (\<lambda>_. ?S) ?S"
    by (rule triple_ret) (erule holds_mono, blast intro: claimed_sent)
  then show "triple (holds env i n0 ?Z) (ret ()) (\<lambda>_. ?S) ?S" "triple (holds env i n0 ?Z) (ret ()) (\<lambda>_. ?S) ?S" by this+
  have weaken: "holds env i n0 (staged L p) w \<Longrightarrow> ?S w" for w by (erule holds_mono) (rule staged_sent)
  assume "\<not> \<not> runnable (ex_status x)"
  then have "staged L p y l" if "?Z y l" for y l using that by (auto simp: staged_def core_fields)
  note pre = triple_holds_pre[OF _ this]
  show "triple (holds env i n0 ?Z) (bnd (resolve_control env i lease) (\<lambda>control. bnd (read_thread env i lease) (\<lambda>thread.
       bnd (look cw_execution) (advance_stage env i lease control thread)))) (\<lambda>_. ?S) ?S"
    by (rule pre, rule triple_bnd[OF triple_error[OF triple_resolve[OF env] weaken]], assumption,
        rule triple_bnd[OF triple_error[OF triple_read[OF env] weaken]], assumption,
        rule triple_execution[OF triple_advance_stage[OF env]])
qed

lemma triple_await_quiet:
  assumes env: "environment_ok env" and good: "\<And>now n s. good_store env n s \<Longrightarrow> good_store env n (fst (f now s))"
    and follow: "\<And>now s r. plan_record i s = Some r \<Longrightarrow> \<exists>r'. plan_record i (fst (f now s)) = Some r' \<and> may_follow r r'"
  shows "triple (holds env i n0 Z) (await_store env f) (\<lambda>_. holds env i n0 Z) E"
proof (rule tripleI)
  fix w assume h: "holds env i n0 Z w"
  let ?n = "cw_tick w"
  obtain s v where f: "f (ce_now env ?n) (cw_store w) = (s, v)" by fastforce
  have g: "good_store env (Suc ?n) (cw_store w)" "n0 \<le> ?n" "Z (core (cw_execution w)) (start_ids (cw_sent w))"
      "good_execution (max_stage_attempts env) (unused_ids env (Suc ?n)) (cw_execution w)"
    using h good_store_mono[of env ?n "cw_store w" "Suc ?n"] good_unused[OF _ unused_mono[of ?n "Suc ?n" env]]
    by (auto simp: holds_def)
  obtain r r' where r: "may_follow (cw_execution w) r" "plan_record i s = Some r'" "may_follow r r'"
    using h follow[of "cw_store w" _ "ce_now env ?n"] f by (auto simp: holds_def)
  have "good_store env (Suc ?n) s" using good[OF g(1), of "ce_now env ?n"] f by simp
  from holds_await[where w = w and Z = Z, OF env this r(2) may_follow_trans[OF r(1,3)] g(4,2,3) holds_used[OF h refl]]
  have "holds env i n0 Z (w\<lparr>cw_store := ce_others env ?n s, cw_tick := Suc ?n\<rparr>)" by simp
  then show "case await_store env f w of (w', Inl e) \<Rightarrow> E w' | (w', Inr x) \<Rightarrow> holds env i n0 Z w'"
    by (simp add: await_store_def f)
qed

lemma release_good: "good_store env n s \<Longrightarrow> good_store env n (release_execution i lease s)"
  by (cases i lease s rule: release_cases) (auto intro!: good_put simp: good_store_def)

lemma release_follows:
  "plan_record i s = Some r \<Longrightarrow> \<exists>r'. plan_record i (release_execution i lease s) = Some r' \<and> may_follow r r'"
  by (cases i lease s rule: release_cases) (auto simp: follow_lease)

lemma triple_clean_up:
  assumes env: "environment_ok env"
  shows "triple (holds env i n0 Z) (clean_up env i lease) (\<lambda>_. holds env i n0 Z) (holds env i n0 Z)"
  unfolding clean_up_def
proof (rule triple_look_any, rule triple_bnd[OF triple_await_quiet[OF env]], simp, simp, rule triple_andthen[OF triple_keep_change])
  show "triple (holds env i n0 Z) (await_store env (\<lambda>now s. (release_execution i lease s, ()))) (\<lambda>_. holds env i n0 Z) (holds env i n0 Z)"
    by (rule triple_await_quiet[OF env]) (simp_all add: release_good release_follows)
qed (simp add: forget_commands_def Let_def)

text \<open>What an advance leaves behind, from the tick \<open>n0\<close> and the identifiers \<open>L\<close> sent before.\<close>

definition fresh_sent :: "ctl_env \<Rightarrow> ctl_world \<Rightarrow> bool" where
  "fresh_sent env w = (set (start_ids (cw_sent w)) \<inter> unused_ids env (cw_tick w) = {})"

definition advanced :: "ctl_env \<Rightarrow> string \<Rightarrow> nat \<Rightarrow> string list \<Rightarrow> bool \<Rightarrow> ctl_world \<Rightarrow> bool" where
  "advanced env i n0 L p w = (good_store env (cw_tick w) (cw_store w) \<and> fresh_sent env w \<and>
     (start_ids (cw_sent w) = L \<or> (\<not> p \<and> (\<exists>n r. n0 \<le> n \<and> start_ids (cw_sent w) = L @ [ce_uuid env n 0] \<and>
        plan_record i (cw_store w) = Some r \<and> ce_uuid env n 0 \<in> command_ids r))))"

lemma holds_advanced:
  assumes "holds env i n0 (sent_at_most env n0 L p) w"
  shows "advanced env i n0 L p w"
proof -
  obtain r where "plan_record i (cw_store w) = Some r" "command_ids (cw_execution w) \<subseteq> command_ids r"
    using assms by (auto simp: holds_def may_follow_def)
  then show ?thesis using assms
    by (auto simp: holds_def advanced_def fresh_sent_def sent_at_most_def sent_is_def sent_once_def core_fields split: if_splits)
qed

lemma others_good:
  "environment_ok env \<Longrightarrow> good_store env n s \<Longrightarrow> good_store env (Suc n) (ce_others env n s)"
  using good_store_mono[of env n s "Suc n"] by (simp add: environment_ok_def)

lemma unused_next: "A \<inter> unused_ids env n = {} \<Longrightarrow> A \<inter> unused_ids env (Suc n) = {}"
  using unused_mono[of n "Suc n" env] by auto

lemma triple_claim:
  assumes env: "environment_ok env"
  shows "triple (\<lambda>w. cw_tick w = n0 \<and> good_store env n0 (cw_store w) \<and> fresh_sent env w \<and> start_ids (cw_sent w) = L \<and>
       (p \<longrightarrow> (\<exists>r. plan_record i (cw_store w) = Some r \<and> pending_start r \<noteq> None)))
     (await_store env (\<lambda>now. claim_execution i owner now d))
     (\<lambda>claimed w. case claimed of None \<Rightarrow> advanced env i n0 L p w
        | Some x \<Rightarrow> advanced env i n0 L p w \<and> holds env i n0 (claimed_as L p) (w\<lparr>cw_execution := x\<rparr>)) E"
proof (rule tripleI)
  fix w
  assume w: "cw_tick w = n0 \<and> good_store env n0 (cw_store w) \<and> fresh_sent env w \<and> start_ids (cw_sent w) = L \<and>
       (p \<longrightarrow> (\<exists>r. plan_record i (cw_store w) = Some r \<and> pending_start r \<noteq> None))"
  obtain s' res where c: "claim_execution i owner (ce_now env n0) d (cw_store w) = (s', res)" by fastforce
  let ?w = "w\<lparr>cw_store := ce_others env n0 s', cw_tick := Suc n0\<rparr>"
  have run: "await_store env (\<lambda>now. claim_execution i owner now d) w = (?w, Inr res)"
    using w c by (simp add: await_store_def)
  have used: "set (start_ids (cw_sent w)) \<inter> unused_ids env (Suc n0) = {}"
    using w unused_next by (auto simp: fresh_sent_def)
  have adv: "advanced env i n0 L p ?w" if "good_store env n0 s'"
    using others_good[OF env that] used w by (auto simp: advanced_def fresh_sent_def)
  from c have "case res of None \<Rightarrow> advanced env i n0 L p ?w
      | Some x \<Rightarrow> advanced env i n0 L p ?w \<and> holds env i n0 (claimed_as L p) (?w\<lparr>cw_execution := x\<rparr>)"
  proof (cases rule: claim_cases)
    case refused
    then show ?thesis using adv w by simp
  next
    case (granted r epoch)
    let ?q = "r\<lparr>ex_lease := Some \<lparr>le_owner = owner, le_epoch = epoch, le_expiresAt = ce_now env n0 + d\<rparr>\<rparr>"
    have gr: "good_execution (max_stage_attempts env) (unused_ids env n0) r" using w granted(1) by (auto simp: good_store_def)
    have gs: "good_store env n0 s'" unfolding granted(4) by (rule good_put) (use w gr in simp_all)
    have "good_execution (max_stage_attempts env) (unused_ids env (Suc n0)) ?q"
      using good_unused[OF gr unused_mono[of n0 "Suc n0"]] by simp
    moreover have "claimed_as L p (core ?q) (start_ids (cw_sent w))"
      using w granted(1) by (auto simp: claimed_as_def core_fields pending_start_def)
    moreover have "plan_record i s' = Some ?q" by (simp add: granted(4))
    ultimately have "holds env i n0 (claimed_as L p) (w\<lparr>cw_store := ce_others env n0 s', cw_tick := Suc n0, cw_execution := ?q\<rparr>)"
      using used good_store_mono[OF gs, of "Suc n0"] by (intro holds_await[OF env _ _ may_follow_refl]) simp_all
    then show ?thesis using adv[OF gs] granted(3) by simp
  qed
  then show "case await_store env (\<lambda>now. claim_execution i owner now d) w of (w', Inl e) \<Rightarrow> E w'
      | (w', Inr claimed) \<Rightarrow> (case claimed of None \<Rightarrow> advanced env i n0 L p w'
        | Some x \<Rightarrow> advanced env i n0 L p w' \<and> holds env i n0 (claimed_as L p) (w'\<lparr>cw_execution := x\<rparr>))"
    by (simp add: run)
qed

lemma triple_advance:
  assumes env: "environment_ok env"
  shows "triple (\<lambda>w. cw_tick w = n0 \<and> good_store env n0 (cw_store w) \<and> fresh_sent env w \<and> start_ids (cw_sent w) = L \<and>
       (p \<longrightarrow> (\<exists>r. plan_record i (cw_store w) = Some r \<and> pending_start r \<noteq> None)))
     (advance env i) (\<lambda>_. advanced env i n0 L p) (advanced env i n0 L p)"
  unfolding advance_def
proof (rule triple_bnd[OF triple_claim[OF env]])
  let ?S = "holds env i n0 (sent_at_most env n0 L p)"
  fix claimed :: "execution option"
  have blocked: "triple ?S (save env i lease (block_patch reason)) (\<lambda>_. ?S) ?S" for lease reason
    by (rule triple_save_last[OF env calm_keeps sent_at_most_lasting], rule calm_simple) (simp_all add: patch_simps)
  have body: "triple (holds env i n0 (claimed_as L p)) (finally_do
       (catch_with (advance_body env i lease) (\<lambda>e. if e = Conflict then ret ()
          else save env i lease (block_patch reason))) (clean_up env i lease)) (\<lambda>_. advanced env i n0 L p) (advanced env i n0 L p)"
    for lease reason
    by (rule triple_conseq[OF triple_finally[OF triple_catch[OF triple_advance_body[OF env] triple_if[OF triple_ret blocked]]
          triple_clean_up[OF env]]]) (auto intro: holds_advanced)
  show "triple (\<lambda>w. case claimed of None \<Rightarrow> advanced env i n0 L p w
        | Some x \<Rightarrow> advanced env i n0 L p w \<and> holds env i n0 (claimed_as L p) (w\<lparr>cw_execution := x\<rparr>))
     (case claimed of None \<Rightarrow> ret () | Some x \<Rightarrow> (case ex_lease x of None \<Rightarrow> ret ()
       | Some lease \<Rightarrow> andthen (change (\<lambda>w. w\<lparr>cw_execution := x\<rparr>))
           (finally_do
             (catch_with (advance_body env i lease) (\<lambda>e. if e = Conflict then ret ()
                else save env i lease (block_patch ''Execution identity, authorization or native state could not be confirmed. Review before resuming.'')))
             (clean_up env i lease)))) (\<lambda>_. advanced env i n0 L p) (advanced env i n0 L p)"
  proof (cases claimed)
    case None
    then show ?thesis by (simp add: triple_ret)
  next
    case (Some x)
    then show ?thesis
      by (cases "ex_lease x") (auto intro!: triple_ret triple_andthen[OF triple_change body])
  qed
qed

end
