(* ===== verification/Plan_Tick.thy ===== *)
theory Plan_Tick
  imports Plan_Advance
begin

text \<open>
  The properties of the controller: what one advance, and any number of ticks, guarantee for every
  execution, whatever the native runtime answers and the other parts of the program do at each await.
\<close>

subsection \<open>Ticks\<close>

definition sound :: "ctl_env \<Rightarrow> ctl_world \<Rightarrow> bool" where
  "sound env w = (good_store env (cw_tick w) (cw_store w) \<and> fresh_sent env w \<and> distinct (start_ids (cw_sent w)))"

lemma triple_sound_await:
  assumes env: "environment_ok env" and good: "\<And>now n s. good_store env n s \<Longrightarrow> good_store env n (fst (f now s))"
  shows "triple (sound env) (await_store env f) (\<lambda>_. sound env) E"
proof (rule tripleI)
  fix w assume w: "sound env w"
  obtain s v where f: "f (ce_now env (cw_tick w)) (cw_store w) = (s, v)" by fastforce
  have "good_store env (cw_tick w) (fst (f (ce_now env (cw_tick w)) (cw_store w)))"
    by (rule good) (use w in \<open>simp add: sound_def\<close>)
  then have "good_store env (cw_tick w) s" by (simp add: f)
  then have "sound env (w\<lparr>cw_store := ce_others env (cw_tick w) s, cw_tick := Suc (cw_tick w)\<rparr>)"
    using w others_good[OF env] unused_next by (auto simp: sound_def fresh_sent_def)
  then show "case await_store env f w of (w', Inl e) \<Rightarrow> E w' | (w', Inr x) \<Rightarrow> sound env w'"
    by (simp add: await_store_def f)
qed

lemma acknowledge_good: "good_store env n s \<Longrightarrow> good_store env n (fst (acknowledge_event i revision s))"
proof -
  assume g: "good_store env n s"
  obtain s' res where a: "acknowledge_event i revision s = (s', res)" by fastforce
  then show ?thesis
    by (cases rule: acknowledge_cases) (use a g in \<open>auto intro!: good_put simp: good_store_def\<close>)
qed

lemma triple_publish_all:
  assumes env: "environment_ok env"
  shows "triple (sound env) (publish_all env es) (\<lambda>_. sound env) (sound env)"
proof (induction es)
  case (Cons e es)
  have published: "triple (sound env) (await_answer env f) (\<lambda>_. sound env) (sound env)" for f :: "nat \<Rightarrow> unit option"
    unfolding await_answer_def
  proof (rule triple_bnd)
    show "triple (sound env) (await_native env f) (\<lambda>_. sound env) (sound env)"
      using triple_sound_await[OF env, where f = "\<lambda>now s. (s, ())"] by (simp add: triple_def await_native_def await_store_def)
  qed (auto intro: triple_throw triple_ret split: option.split)
  have logged: "triple (sound env) (change (\<lambda>w. w\<lparr>cw_published := cw_published w @ [e]\<rparr>)) (\<lambda>_. sound env) (sound env)"
    by (rule triple_change) (simp add: sound_def fresh_sent_def)
  have rest: "triple (sound env) (case r of Inl err \<Rightarrow> throw (store_error err) | Inr _ \<Rightarrow> publish_all env es)
      (\<lambda>_. sound env) (sound env)" for r :: "plan_error + unit"
    by (cases r) (simp_all add: triple_throw Cons.IH)
  show ?case unfolding publish_all.simps
    by (rule triple_bnd[OF published], rule triple_andthen[OF logged], rule triple_bnd[OF triple_sound_await[OF env] rest])
      (rule acknowledge_good)
qed (simp add: triple_ret)

lemma triple_list:
  assumes env: "environment_ok env"
  shows "triple (sound env) (await_list env f) (\<lambda>_. sound env) (sound env)"
  unfolding await_list_def
  by (rule triple_bnd[OF triple_sound_await[OF env]], simp, rule triple_look_any) (auto intro: triple_throw triple_ret)

lemma triple_flush:
  assumes env: "environment_ok env"
  shows "triple (sound env) (flush_events env) (\<lambda>_. sound env) E"
  unfolding flush_events_def
  by (rule triple_catch[OF triple_bnd[OF triple_list[OF env] triple_publish_all[OF env]] triple_ret])

lemma advanced_sound:
  assumes env: "environment_ok env" and w: "distinct L" "set L \<inter> unused_ids env n0 = {}" and adv: "advanced env i n0 L p w"
  shows "sound env w"
proof -
  have "ce_uuid env n 0 \<notin> set L" if "n0 \<le> n" for n using w(2) that unfolding unused_ids_def by blast
  then show ?thesis using adv w(1) by (auto simp: advanced_def sound_def)
qed

lemma triple_advance_sound:
  assumes env: "environment_ok env"
  shows "triple (sound env) (advance env i) (\<lambda>_. sound env) (sound env)"
proof (rule tripleI)
  fix w assume w: "sound env w"
  let ?L = "start_ids (cw_sent w)"
  have "case advance env i w of (w', Inl e) \<Rightarrow> advanced env i (cw_tick w) ?L False w'
      | (w', Inr x) \<Rightarrow> advanced env i (cw_tick w) ?L False w'"
    by (rule tripleD[OF triple_advance[OF env]]) (use w in \<open>simp add: sound_def\<close>)
  moreover have "distinct ?L" "set ?L \<inter> unused_ids env (cw_tick w) = {}" using w by (simp_all add: sound_def fresh_sent_def)
  ultimately show "case advance env i w of (w', Inl e) \<Rightarrow> sound env w' | (w', Inr x) \<Rightarrow> sound env w'"
    using advanced_sound[OF env] by (auto split: prod.splits sum.splits)
qed

lemma triple_advance_all:
  assumes env: "environment_ok env"
  shows "triple (sound env) (advance_all env xs) (\<lambda>_. sound env) E"
proof (induction xs)
  case (Cons x xs)
  have "triple (sound env) (catch_with (advance env (ex_id x)) (\<lambda>_. ret ())) (\<lambda>_. sound env) E"
    by (rule triple_catch[OF triple_advance_sound[OF env] triple_ret])
  then show ?case unfolding advance_all.simps
    by (intro triple_look_any triple_if[OF triple_ret] triple_andthen[OF triple_if[OF _ triple_ret] Cons.IH])
qed (simp add: triple_ret)

lemma triple_tick:
  assumes env: "environment_ok env"
  shows "triple (sound env) (run_tick env) (\<lambda>_. sound env) (sound env)"
  unfolding run_tick_def
  by (rule triple_andthen[OF triple_flush[OF env]], rule triple_bnd[OF triple_list[OF env]],
      rule triple_andthen[OF triple_advance_all[OF env] triple_flush[OF env]])

text \<open>The world after \<open>k\<close> ticks; after one that failed, \<open>start\<close> schedules the next.\<close>

primrec after_ticks :: "ctl_env \<Rightarrow> nat \<Rightarrow> ctl_world \<Rightarrow> ctl_world" where
  "after_ticks env 0 w = w"
| "after_ticks env (Suc k) w = after_ticks env k (fst (run_tick env w))"

lemma tick_sound: "environment_ok env \<Longrightarrow> sound env w \<Longrightarrow> sound env (fst (run_tick env w))"
  using tripleD[OF triple_tick, of env w] by (auto split: prod.splits sum.splits)

lemma ticks_sound: "environment_ok env \<Longrightarrow> sound env w \<Longrightarrow> sound env (after_ticks env k w)"
  by (induction k arbitrary: w) (simp_all add: tick_sound)

subsection \<open>Sending nothing\<close>

abbreviation sent_stays :: "native_command list \<Rightarrow> ctl_world \<Rightarrow> bool" where
  "sent_stays S w \<equiv> cw_sent w = S"

lemma triple_sent_store: "triple (sent_stays S) (await_store env f) (\<lambda>_. sent_stays S) E"
  by (simp add: triple_def await_store_def split_beta)

lemma triple_sent_clean: "triple (sent_stays S) (clean_up env i lease) (\<lambda>_. sent_stays S) (sent_stays S)"
  unfolding clean_up_def
  by (rule triple_look_any, rule triple_bnd[OF triple_sent_store], rule triple_andthen[OF triple_change triple_sent_store])
    (simp add: forget_commands_def Let_def)

text \<open>An execution an advance leaves alone: paused, blocked or over, or waiting for its next retry.\<close>

definition resting :: "ctl_env \<Rightarrow> nat \<Rightarrow> execution \<Rightarrow> bool" where
  "resting env n x = (\<not> runnable (ex_status x) \<or>
     (ex_status x = WAITING_FOR_MODEL \<and> (case ex_nextRetryAt x of None \<Rightarrow> False | Some t \<Rightarrow> t > ce_now env (Suc n))))"

text \<open>
  An execution that rests is left alone. When an advance finds a paused, blocked, failed or completed
  execution, or one whose retry is not due, it sends no command of any kind to the native runtime: no
  settings, no \<open>START\<close>, no interrupt.
\<close>

theorem resting_sends_nothing:
  assumes "plan_record i (cw_store w) = Some r" "resting env (cw_tick w) r"
  shows "cw_sent (fst (advance env i w)) = cw_sent w"
proof -
  let ?S = "sent_stays (cw_sent w)" and ?n = "cw_tick w"
  obtain s' res where c: "claim_execution i (ce_workerId env) (ce_now env ?n) (ce_leaseMs env) (cw_store w) = (s', res)" by fastforce
  let ?w = "w\<lparr>cw_store := ce_others env ?n s', cw_tick := Suc ?n\<rparr>"
  have run: "advance env i w = (case res of None \<Rightarrow> ret () ?w | Some x \<Rightarrow> (case ex_lease x of None \<Rightarrow> ret () ?w
      | Some lease \<Rightarrow> finally_do (catch_with (advance_body env i lease) (\<lambda>e. if e = Conflict then ret ()
          else save env i lease (block_patch ''Execution identity, authorization or native state could not be confirmed. Review before resuming.'')))
        (clean_up env i lease) (?w\<lparr>cw_execution := x\<rparr>)))"
    by (simp add: advance_def bnd_def await_store_def c andthen_def change_def split: option.split)
  show ?thesis
  proof (cases res)
    case None
    then show ?thesis by (simp add: run ret_def)
  next
    case (Some x)
    from c have x: "ex_status x = ex_status r \<and> ex_nextRetryAt x = ex_nextRetryAt r"
      by (cases rule: claim_cases) (use Some assms(1) in auto)
    have body: "advance_body env i lease (?w\<lparr>cw_execution := x\<rparr>) = (?w\<lparr>cw_execution := x\<rparr>, Inr ())" for lease
      using assms(2) x by (auto simp: advance_body_def bnd_def now_execution_def look_def ret_def resting_def split: option.splits)
    have "cw_sent w1 = cw_sent w" if "clean_up env i lease (?w\<lparr>cw_execution := x\<rparr>) = (w1, v)" for lease w1 v
      using tripleD[OF triple_sent_clean, of "?w\<lparr>cw_execution := x\<rparr>" "cw_sent w" env i lease] that
      by (auto split: sum.splits)
    then show ?thesis
      by (auto simp: run Some ret_def finally_do_def catch_with_def body split: option.splits prod.splits sum.splits)
  qed
qed

text \<open>The world after the listed executions were advanced in turn, whatever each advance raised.\<close>

fun after_advances :: "ctl_env \<Rightarrow> execution list \<Rightarrow> ctl_world \<Rightarrow> ctl_world" where
  "after_advances env [] w = w"
| "after_advances env (x # xs) w = (if ce_closed env (cw_tick w) then w
     else after_advances env xs (if runnable (ex_status x) then fst (advance env (ex_id x) w) else w))"

lemma advance_all_goes_on: "advance_all env xs w = (after_advances env xs w, Inr ())"
proof (induction xs arbitrary: w)
  case (Cons x xs)
  have "catch_with (advance env (ex_id x)) (\<lambda>_. ret ()) w = (fst (advance env (ex_id x) w), Inr ())" for w
    by (auto simp: catch_with_def ret_def split: prod.splits sum.splits)
  then show ?case by (simp add: bnd_def andthen_def look_def ret_def Cons.IH)
qed (simp add: ret_def)

lemma flush_absorbs: "flush_events env w = (fst (flush_events env w), Inr ())"
  by (auto simp: flush_events_def catch_with_def ret_def split: prod.splits sum.splits)

text \<open>
  C40. One failing execution never stops the others. A tick flushes the outbox, asks the repository for the
  active executions, advances each runnable one of the list in turn, whatever the advances before it raised,
  until the controller is closed, and flushes again. It raises no error but one: when the repository refuses
  the list, the tick ends with that error before any execution is advanced. A flush raises nothing.
\<close>

theorem tick_absorbs_errors:
  "run_tick env w = (case await_list env list_active (fst (flush_events env w)) of
       (w', Inl e) \<Rightarrow> (w', Inl e)
     | (w', Inr active) \<Rightarrow> (fst (flush_events env (after_advances env active w')), Inr ())) \<and>
   snd (flush_events env w) = Inr ()"
proof
  have flush: "flush_events env w' = (fst (flush_events env w'), Inr ())" for w' by (rule flush_absorbs)
  show "snd (flush_events env w) = Inr ()" by (subst flush) simp
  have later: "andthen (advance_all env active) (flush_events env) w' = (fst (flush_events env (after_advances env active w')), Inr ())"
    for active w'
    by (simp add: andthen_def bnd_def advance_all_goes_on) (rule flush)
  have "run_tick env w = bnd (await_list env list_active) (\<lambda>active. andthen (advance_all env active) (flush_events env)) (fst (flush_events env w))"
    unfolding run_tick_def andthen_def[of "flush_events env"] bnd_def[of "flush_events env"] by (subst flush) simp
  then show "run_tick env w = (case await_list env list_active (fst (flush_events env w)) of
       (w', Inl e) \<Rightarrow> (w', Inl e)
     | (w', Inr active) \<Rightarrow> (fst (flush_events env (after_advances env active w')), Inr ()))"
    by (simp add: bnd_def later split: prod.splits sum.splits)
qed

subsection \<open>Progress and commands\<close>

text \<open>
  C2. Progress is earned. However the controller's ticks interleave with the other parts of the program
  and whatever the native runtime answers, every stored execution completes its stages in their order;
  each completed stage has an attempt of its own whose native turn was verified to have run the
  selection asked for and whose result gives evidence for every criterion; an execution is completed
  exactly when all its stages are; and no stage gets more attempts than the limit.
\<close>

theorem progress_is_earned:
  assumes "environment_ok env" "good_store env (cw_tick w) (cw_store w)" "fresh_sent env w" "distinct (start_ids (cw_sent w))"
    and "plan_record i (cw_store (after_ticks env k w)) = Some x"
  shows "(let stages = sn_stages (ex_snapshot x); n = length (ex_completedStageIds x) in
      n \<le> length stages \<and>
      (\<forall>k < n. ex_completedStageIds x ! k = sg_id (stages ! k) \<and> (\<exists>a \<in> set (ex_attempts x). proves_stage (stages ! k) a)) \<and>
      (ex_status x = COMPLETED \<longleftrightarrow> n = length stages) \<and> (n < length stages \<longrightarrow> ex_activeStageIndex x = n)) \<and>
    attempts_of stageId (ex_attempts x) \<le> max_stage_attempts env"
proof -
  have "sound env (after_ticks env k w)" using assms by (intro ticks_sound) (simp_all add: sound_def)
  then have "good_execution (max_stage_attempts env) (unused_ids env (cw_tick (after_ticks env k w))) x"
    using assms(5) by (auto simp: sound_def good_store_def)
  then show ?thesis by (simp add: good_execution_def in_progress_order_def)
qed

text \<open>
  C1. No \<open>START\<close> is ever sent twice. However many ticks run, and whatever fails, times out or is
  answered in between, the \<open>START\<close> commands handed to the native runtime have distinct identifiers.
\<close>

theorem start_sent_once:
  assumes "environment_ok env" "good_store env (cw_tick w) (cw_store w)" "fresh_sent env w" "distinct (start_ids (cw_sent w))"
  shows "distinct (start_ids (cw_sent (after_ticks env k w)))"
proof -
  have "sound env (after_ticks env k w)" using assms by (intro ticks_sound) (simp_all add: sound_def)
  then show ?thesis by (simp add: sound_def)
qed

text \<open>
  C17. A \<open>START\<close> is stored before it is sent, and one at a time. While the stored execution has a pending
  \<open>START\<close>, an advance sends none; otherwise it sends at most one, under an identifier never sent before
  and that the stored execution lists among its commands.
\<close>

theorem start_stored_first:
  assumes "environment_ok env" "good_store env (cw_tick w) (cw_store w)" "fresh_sent env w"
    and "plan_record i (cw_store w) = Some r"
  shows "start_ids (cw_sent (fst (advance env i w))) = start_ids (cw_sent w) \<or>
    (pending_start r = None \<and>
     (\<exists>c x. start_ids (cw_sent (fst (advance env i w))) = start_ids (cw_sent w) @ [c] \<and> c \<notin> set (start_ids (cw_sent w)) \<and>
        plan_record i (cw_store (fst (advance env i w))) = Some x \<and> c \<in> command_ids x))"
proof -
  let ?L = "start_ids (cw_sent w)" and ?p = "pending_start r \<noteq> None"
  have "case advance env i w of (w', Inl e) \<Rightarrow> advanced env i (cw_tick w) ?L ?p w'
      | (w', Inr x) \<Rightarrow> advanced env i (cw_tick w) ?L ?p w'"
    by (rule tripleD[OF triple_advance[OF assms(1)]]) (use assms in simp)
  then have "advanced env i (cw_tick w) ?L ?p (fst (advance env i w))" by (auto split: prod.splits sum.splits)
  moreover have "ce_uuid env n 0 \<notin> set ?L" if "cw_tick w \<le> n" for n
    using assms(3) that unfolding fresh_sent_def unused_ids_def by blast
  ultimately show ?thesis unfolding advanced_def by auto
qed

subsection \<open>A run\<close>

text \<open>A native runtime that accepts every command and has finished its turn by the await 62, alone with the repository.\<close>

definition demo_uuid :: "nat \<Rightarrow> nat \<Rightarrow> string" where
  "demo_uuid n k = replicate n CHR ''a'' @ replicate k CHR ''b''"

definition demo_ctl_env :: ctl_env where
  "demo_ctl_env = \<lparr>ce_project = Some (\<lambda>_. True), ce_workerId = ''w1'', ce_leaseMs = 60000, ce_maxStageAttempts = Some 3,
     ce_closedTurnTimeoutMs = 1000, ce_parse = (\<lambda>_. Some (JObj [(''outcome'', JStr ''COMPLETED''), (''summary'', JStr ''ok''),
       (''evidence'', JArr [JObj [(''criterion'', JStr ''It builds.''), (''result'', JStr ''yes'')]])])), ce_now = (\<lambda>n. 100 + int n), ce_closed = (\<lambda>_. False),
     ce_uuid = demo_uuid, ce_others = (\<lambda>_ s. s), ce_resolve = (\<lambda>_. Some \<lparr>ct_inspects = True, ct_starts = True\<rparr>),
     ce_thread = (\<lambda>n. Some \<lparr>nt_id = ''t'', nt_cwd = ''/w'', nt_modelId = ''m'', nt_reasoningEffort = ''high'', nt_status = IDLE,
       nt_activeFlags = [], nt_turns = (if n < 62 then [] else [\<lparr>tn_id = ''n1'', tn_status = TURN_COMPLETED,
         tn_clientUserMessageIds = [demo_uuid 36 0], tn_userMessageCount = Some 1, tn_resultText = Some ''r'', tn_itemsComplete = True,
         tn_retryableFailure = None\<rparr>])\<rparr>),
     ce_settings = (\<lambda>_. Some \<lparr>ns_modelId = ''m'', ns_reasoningEffort = ''high'', ns_cwd = ''/w'', ns_isTurnActive = False\<rparr>),
     ce_models = (\<lambda>_. Some [(''m'', [''high''])]), ce_evidence = (\<lambda>c _. VERIFIED \<lparr>as_modelId = ''m'',
       as_reasoningEffort = ''high'', as_threadId = ''t'', as_turnId = ''n1'', as_commandId = c\<rparr>),
     ce_updateSettings = (\<lambda>_. CallsBack id (Inr ())), ce_startTurn = (\<lambda>_. CallsBack id (Inr ''n1'')),
     ce_interruptTurn = (\<lambda>_. CallsBack id (Inr ())), ce_publish = (\<lambda>_ _. True), ce_listFails = (\<lambda>_. False)\<rparr>"

definition demo_world :: "plan_store \<Rightarrow> ctl_world" where
  "demo_world s = \<lparr>cw_store = s, cw_execution = demo_execution, cw_tick = 0, cw_acknowledged = [], cw_unaccepted = [],
     cw_observations = [], cw_closedAt = [], cw_sent = [], cw_published = []\<rparr>"

lemma demo_uuid_inj: "demo_uuid n k = demo_uuid m j \<longleftrightarrow> n = m \<and> k = j"
proof
  assume eq: "demo_uuid n k = demo_uuid m j"
  have "length (filter (\<lambda>c. c = CHR ''a'') (demo_uuid n k)) = n" for n k by (simp add: demo_uuid_def)
  then have "n = m" using eq by metis
  moreover have "length (demo_uuid n k) = n + k" for n k by (simp add: demo_uuid_def)
  ultimately show "n = m \<and> k = j" using eq by (metis add_left_cancel)
qed simp

lemma demo_environment: "environment_ok demo_ctl_env"
  by (auto simp: environment_ok_def demo_ctl_env_def demo_uuid_inj)

lemma demo_record: "plan_record i demo_plans = Some r \<longleftrightarrow> i = ''plan_execution:x'' \<and> r = demo_execution"
proof -
  have "ps_records demo_plans = [(''plan_execution:x'', demo_execution)]" by code_simp
  then show ?thesis by (auto simp: plan_record_def)
qed

lemma demo_good: "good_store demo_ctl_env n demo_plans"
proof -
  have "ex_completedStageIds demo_execution = []" "ex_status demo_execution \<noteq> COMPLETED" "ex_activeStageIndex demo_execution = 0"
    "length (sn_stages (ex_snapshot demo_execution)) = 1" by code_simp+
  then have "in_progress_order demo_execution" by (auto simp: in_progress_order_def Let_def)
  moreover have "ex_attempts demo_execution = []" "pending_start demo_execution = None" by code_simp+
  ultimately have "good_execution limit unused demo_execution" for limit unused
    by (simp add: good_execution_def attempts_of_def open_start_def attempt_ids_def)
  then show ?thesis by (simp add: good_store_def demo_record)
qed


lemma demo_world_facts:
  "good_store demo_ctl_env (cw_tick (demo_world demo_plans)) (cw_store (demo_world demo_plans))" "fresh_sent demo_ctl_env (demo_world demo_plans)"
  "distinct (start_ids (cw_sent (demo_world demo_plans)))" "cw_store (demo_world demo_plans) = demo_plans"
  "start_ids (cw_sent (demo_world demo_plans)) = []"
  by (simp_all add: demo_world_def demo_good fresh_sent_def)

text \<open>The first tick sends the \<open>START\<close>; the second finds its turn finished.\<close>

definition demo_outcome :: "ctl_world \<Rightarrow> (plan_status \<times> nat \<times> plan_stage list) option \<times> nat" where
  "demo_outcome w = (map_option (\<lambda>x. (ex_status x, length (ex_completedStageIds x), sn_stages (ex_snapshot x)))
     (plan_record ''plan_execution:x'' (cw_store w)), length (start_ids (cw_sent w)))"

lemma demo_run: "demo_outcome (after_ticks demo_ctl_env 2 (demo_world demo_plans)) = (Some (COMPLETED, Suc 0, [demo_stage]), Suc 0)"
  by code_simp

theorem progress_is_earned_witness:
  "\<exists>x. plan_record ''plan_execution:x'' (cw_store (after_ticks demo_ctl_env 2 (demo_world demo_plans))) = Some x \<and>
     ex_status x = COMPLETED \<and> (\<exists>a \<in> set (ex_attempts x). proves_stage demo_stage a)"
proof -
  let ?s = "cw_store (after_ticks demo_ctl_env 2 (demo_world demo_plans))"
  obtain x where x: "plan_record ''plan_execution:x'' ?s = Some x" "ex_status x = COMPLETED"
    "length (ex_completedStageIds x) = Suc 0" "sn_stages (ex_snapshot x) = [demo_stage]"
    using demo_run by (auto simp: demo_outcome_def)
  from progress_is_earned[OF demo_environment _ _ _ x(1)] x demo_world_facts show ?thesis by (auto simp: Let_def)
qed

theorem start_sent_once_witness:
  "distinct (start_ids (cw_sent (after_ticks demo_ctl_env 2 (demo_world demo_plans)))) \<and>
   length (start_ids (cw_sent (after_ticks demo_ctl_env 2 (demo_world demo_plans)))) = 1"
proof -
  have "length (start_ids (cw_sent (after_ticks demo_ctl_env 2 (demo_world demo_plans)))) = 1" using demo_run by (simp add: demo_outcome_def)
  with start_sent_once[OF demo_environment demo_world_facts(1-3)] show ?thesis by blast
qed

theorem start_stored_first_witness:
  "\<exists>c x. start_ids (cw_sent (fst (advance demo_ctl_env ''plan_execution:x'' (demo_world demo_plans)))) = [c] \<and>
     plan_record ''plan_execution:x'' (cw_store (fst (advance demo_ctl_env ''plan_execution:x'' (demo_world demo_plans)))) = Some x \<and>
     c \<in> command_ids x"
proof -
  have "start_ids (cw_sent (fst (advance demo_ctl_env ''plan_execution:x'' (demo_world demo_plans)))) \<noteq> []" by code_simp
  with start_stored_first[OF demo_environment demo_world_facts(1,2), of "''plan_execution:x''" demo_execution]
  show ?thesis by (auto simp: demo_world_facts demo_record)
qed

theorem resting_sends_nothing_witness:
  "cw_sent (fst (advance demo_ctl_env ''e'' (demo_world \<lparr>ps_records = [(''e'', demo_execution\<lparr>ex_status := PAUSED\<rparr>)], ps_projected = []\<rparr>))) = []"
proof -
  let ?x = "demo_execution\<lparr>ex_status := PAUSED\<rparr>"
  let ?w = "demo_world \<lparr>ps_records = [(''e'', ?x)], ps_projected = []\<rparr>"
  have "plan_record ''e'' (cw_store ?w) = Some ?x" by (simp add: plan_record_def demo_world_def)
  moreover have "resting demo_ctl_env (cw_tick ?w) ?x" by (simp add: resting_def runnable_def)
  ultimately have "cw_sent (fst (advance demo_ctl_env ''e'' ?w)) = cw_sent ?w" by (rule resting_sends_nothing)
  then show ?thesis by (simp add: demo_world_def)
qed

end
