(* ===== verification/Chess_Board.thy ===== *)
theory Chess_Board
  imports Json
begin

text \<open>
  Boards, positions and FEN of \<open>apps/api/src/chess/chess-rules.ts\<close>. A board is a list of 64 strings,
  index \<open>rank * 8 + file\<close>: the empty string, or one letter, upper case for White. JavaScript numbers are
  \<open>nat\<close> and \<open>int\<close> here: squares are below 64 and the move counters far below \<open>2^53\<close>, where doubles are exact.
\<close>

subsection \<open>Data\<close>

datatype chess_color = White | Black

type_synonym board = "string list"

record position =
  po_board :: board
  po_turn :: chess_color
  po_castling :: string
  po_ep :: "nat option"
  po_halfmove :: nat
  po_fullmove :: nat

datatype castle_side = KingSide | QueenSide

record chess_move =
  mv_from :: nat
  mv_to :: nat
  mv_piece :: string
  mv_captured :: "string option"
  mv_promotion :: "string option"
  mv_castle :: "castle_side option"
  mv_enPassant :: bool

datatype fen_error = FewFields | NotEightRanks | InvalidBoard | InvalidRankLength | NotOneKing | InvalidSide
  | InvalidCastling | InvalidEnPassant

subsection \<open>Pieces and squares\<close>

definition is_upper :: "char \<Rightarrow> bool" where
  "is_upper c = (let n = of_char c :: nat in 65 \<le> n \<and> n \<le> 90)"

definition is_lower :: "char \<Rightarrow> bool" where
  "is_lower c = (let n = of_char c :: nat in 97 \<le> n \<and> n \<le> 122)"

definition upper_char :: "char \<Rightarrow> char" where
  "upper_char c = (if is_lower c then char_of (of_char c - 32 :: nat) else c)"

definition lower_char :: "char \<Rightarrow> char" where
  "lower_char c = (if is_upper c then char_of (of_char c + 32 :: nat) else c)"

definition to_upper :: "string \<Rightarrow> string" where
  "to_upper s = map upper_char s"

definition to_lower :: "string \<Rightarrow> string" where
  "to_lower s = map lower_char s"

definition color_of :: "string \<Rightarrow> chess_color" where
  "color_of piece = (if piece = to_upper piece then White else Black)"

fun opposite :: "chess_color \<Rightarrow> chess_color" where
  "opposite White = Black"
| "opposite Black = White"

definition own :: "string \<Rightarrow> chess_color \<Rightarrow> string" where
  "own piece color = (if color = White then to_upper piece else to_lower piece)"

definition square_at :: "int \<Rightarrow> int \<Rightarrow> nat option" where
  "square_at file rank = (if file \<ge> 0 \<and> file < 8 \<and> rank \<ge> 0 \<and> rank < 8 then Some (nat (rank * 8 + file)) else None)"

definition file_of :: "nat \<Rightarrow> nat" where
  "file_of square = square mod 8"

definition rank_of :: "nat \<Rightarrow> nat" where
  "rank_of square = square div 8"

definition file_names :: string where
  "file_names = ''abcdefgh''"

definition square_name :: "nat \<Rightarrow> string" where
  "square_name square = file_names ! file_of square # show_nat (rank_of square + 1)"

text \<open>\<open>indexOf\<close> of a character that is there.\<close>

fun index_of :: "'a \<Rightarrow> 'a list \<Rightarrow> nat option" where
  "index_of x [] = None"
| "index_of x (y # ys) = (if x = y then Some 0 else map_option Suc (index_of x ys))"

definition digit_of :: "char \<Rightarrow> nat" where
  "digit_of c = of_char c - 48"

definition is_digit :: "char \<Rightarrow> bool" where
  "is_digit c = (let n = of_char c :: nat in 48 \<le> n \<and> n \<le> 57)"

definition is_rank_digit :: "char \<Rightarrow> bool" where
  "is_rank_digit c = (is_digit c \<and> 1 \<le> digit_of c \<and> digit_of c \<le> 8)"

definition parse_square :: "string \<Rightarrow> nat option" where
  "parse_square name = (case name of
     [f, r] \<Rightarrow> if is_rank_digit r then map_option (\<lambda>file. (digit_of r - 1) * 8 + file) (index_of f file_names) else None
   | _ \<Rightarrow> None)"

subsection \<open>FEN\<close>

text \<open>\<open>split("/")\<close>, and \<open>split\<close> at runs of white space.\<close>

fun split_on :: "char \<Rightarrow> string \<Rightarrow> string list" where
  "split_on c [] = [[]]"
| "split_on c (d # s) = (if d = c then [] # split_on c s
     else (case split_on c s of w # ws \<Rightarrow> (d # w) # ws | [] \<Rightarrow> [[d]]))"

function split_spaces :: "string \<Rightarrow> string list" where
  "split_spaces s = (case dropWhile (\<lambda>c. \<not> is_space c) s of
     [] \<Rightarrow> [s]
   | rest \<Rightarrow> takeWhile (\<lambda>c. \<not> is_space c) s # split_spaces (dropWhile is_space rest))"
  by pat_completeness auto
termination
proof (relation "measure length", simp)
  fix s :: string and c cs
  assume d: "dropWhile (\<lambda>c. \<not> is_space c) s = c # cs"
  have "hd (dropWhile (\<lambda>c. \<not> is_space c) s) = c" by (simp add: d)
  then have "is_space c" using hd_dropWhile[of "\<lambda>c. \<not> is_space c" s] d by auto
  then have "length (dropWhile is_space (c # cs)) < length (c # cs)" by (simp add: length_dropWhile_le less_Suc_eq_le)
  also have "\<dots> \<le> length s" using length_dropWhile_le[of "\<lambda>c. \<not> is_space c" s] by (simp add: d)
  finally show "(dropWhile is_space (c # cs), s) \<in> measure length" by simp
qed

declare split_spaces.simps [simp del]

definition is_piece :: "char \<Rightarrow> bool" where
  "is_piece c = (c \<in> set ''pnbrqkPNBRQK'')"

text \<open>The loop over the characters of a rank: the file reached, and the board.\<close>

fun place_row :: "nat \<Rightarrow> nat \<Rightarrow> board \<Rightarrow> string \<Rightarrow> fen_error + board" where
  "place_row rank file board [] = (if file \<noteq> 8 then Inl InvalidRankLength else Inr board)"
| "place_row rank file board (c # cs) =
     (if is_rank_digit c then place_row rank (file + digit_of c) board cs
      else if is_piece c \<and> file < 8 then place_row rank (file + 1) (board[rank * 8 + file := [c]]) cs
      else Inl InvalidBoard)"

fun place_rows :: "nat \<Rightarrow> board \<Rightarrow> string list \<Rightarrow> fen_error + board" where
  "place_rows index board [] = Inr board"
| "place_rows index board (row # rows) = (case place_row (7 - index) 0 board row of
     Inl e \<Rightarrow> Inl e | Inr board' \<Rightarrow> place_rows (index + 1) board' rows)"

text \<open>\<open>Number.parseInt(s, 10)\<close>; \<open>None\<close> is \<open>NaN\<close>.\<close>

definition digits_value :: "string \<Rightarrow> nat" where
  "digits_value ds = foldl (\<lambda>n c. 10 * n + digit_of c) 0 ds"

definition parse_int :: "string \<Rightarrow> int option" where
  "parse_int s0 = (let s = dropWhile is_space s0;
       ds = takeWhile is_digit (if s \<noteq> [] \<and> hd s \<in> set ''+-'' then tl s else s)
     in if ds = [] then None else Some ((if hd s = CHR ''-'' then -1 else 1) * int (digits_value ds)))"

definition counter :: "int \<Rightarrow> int option \<Rightarrow> nat" where
  "counter least n = (case n of Some k \<Rightarrow> if k \<ge> least then nat k else nat least | None \<Rightarrow> nat least)"

text \<open>The element at an index, if there is one.\<close>

definition field :: "string list \<Rightarrow> nat \<Rightarrow> string \<Rightarrow> string" where
  "field parts k other = (if k < length parts then parts ! k else other)"

definition all_rights :: string where
  "all_rights = ''KQkq''"

definition parse_fen :: "string \<Rightarrow> fen_error + position" where
  "parse_fen fen = (let parts = split_spaces (js_trim fen) in
     if length parts < 4 then Inl FewFields
     else let rows = split_on CHR ''/'' (parts ! 0) in
     if length rows \<noteq> 8 then Inl NotEightRanks
     else case place_rows 0 (replicate 64 []) rows of
       Inl e \<Rightarrow> Inl e
     | Inr board \<Rightarrow>
         if count_list board ''K'' \<noteq> 1 \<or> count_list board ''k'' \<noteq> 1 then Inl NotOneKing
         else if parts ! 1 \<noteq> ''w'' \<and> parts ! 1 \<noteq> ''b'' then Inl InvalidSide
         else let rights = parts ! 2; ep = (if parts ! 3 = ''-'' then None else parse_square (parts ! 3)) in
         if rights \<noteq> ''-'' \<and> \<not> (1 \<le> length rights \<and> length rights \<le> 4 \<and> list_all (\<lambda>c. c \<in> set all_rights) rights)
         then Inl InvalidCastling
         else if parts ! 3 \<noteq> ''-'' \<and> ep = None then Inl InvalidEnPassant
         else Inr \<lparr>po_board = board, po_turn = (if parts ! 1 = ''w'' then White else Black),
           po_castling = filter (\<lambda>right. right \<in> set rights) all_rights, po_ep = ep,
           po_halfmove = counter 0 (parse_int (field parts 4 ''0'')), po_fullmove = counter 1 (parse_int (field parts 5 ''1''))\<rparr>)"

fun fen_row :: "nat \<Rightarrow> string list \<Rightarrow> string" where
  "fen_row gap [] = (if gap \<noteq> 0 then show_nat gap else [])"
| "fen_row gap (piece # pieces) = (if piece = [] then fen_row (gap + 1) pieces
     else (if gap \<noteq> 0 then show_nat gap else []) @ piece @ fen_row 0 pieces)"

definition board_row :: "board \<Rightarrow> nat \<Rightarrow> string list" where
  "board_row board rank = map (\<lambda>file. board ! (rank * 8 + file)) [0..<8]"

definition turn_name :: "chess_color \<Rightarrow> string" where
  "turn_name color = (if color = White then ''w'' else ''b'')"

definition to_fen :: "position \<Rightarrow> string" where
  "to_fen p = join_with '' ''
     [join_with ''/'' (map (\<lambda>rank. fen_row 0 (board_row (po_board p) rank)) (rev [0..<8])),
      turn_name (po_turn p),
      (if po_castling p = [] then ''-'' else po_castling p),
      (case po_ep p of None \<Rightarrow> ''-'' | Some square \<Rightarrow> square_name square),
      show_nat (po_halfmove p),
      show_nat (po_fullmove p)]"

definition start_fen :: string where
  "start_fen = ''rnbqkbnr/pppppppp/8/8/8/8/PPPPPPPP/RNBQKBNR w KQkq - 0 1''"

end
