(* ===== verification/Chess_Moves.thy ===== *)
theory Chess_Moves
  imports Chess_Board
begin

text \<open>
  Attacks, move generation, \<open>makeMove\<close>, the end of a game and \<open>perft\<close> of
  \<open>apps/api/src/chess/chess-rules.ts\<close>. The loops over directions and steps are recursions over the lists
  they run through.
\<close>

subsection \<open>Attacks\<close>

definition knight_steps :: "(int \<times> int) list" where
  "knight_steps = [(1, 2), (2, 1), (2, -1), (1, -2), (-1, -2), (-2, -1), (-2, 1), (-1, 2)]"

definition king_steps :: "(int \<times> int) list" where
  "king_steps = [(1, 0), (1, 1), (0, 1), (-1, 1), (-1, 0), (-1, -1), (0, -1), (1, -1)]"

definition bishop_dirs :: "(int \<times> int) list" where
  "bishop_dirs = [(1, 1), (1, -1), (-1, 1), (-1, -1)]"

definition rook_dirs :: "(int \<times> int) list" where
  "rook_dirs = [(1, 0), (-1, 0), (0, 1), (0, -1)]"

definition promotions :: "string list" where
  "promotions = [''q'', ''r'', ''b'', ''n'']"

definition steps :: "int list" where
  "steps = [1, 2, 3, 4, 5, 6, 7]"

definition stands :: "board \<Rightarrow> int \<Rightarrow> int \<Rightarrow> string \<Rightarrow> bool" where
  "stands board file rank piece = (case square_at file rank of None \<Rightarrow> False | Some from \<Rightarrow> board ! from = piece)"

text \<open>One direction of \<open>slides\<close>, from a step on.\<close>

fun slide_hits :: "board \<Rightarrow> string list \<Rightarrow> int \<Rightarrow> int \<Rightarrow> int \<times> int \<Rightarrow> int list \<Rightarrow> bool" where
  "slide_hits board pieces file rank d [] = False"
| "slide_hits board pieces file rank d (step # ss) = (case square_at (file + fst d * step) (rank + snd d * step) of
     None \<Rightarrow> False
   | Some from \<Rightarrow> if board ! from = [] then slide_hits board pieces file rank d ss else board ! from \<in> set pieces)"

definition is_square_attacked :: "board \<Rightarrow> nat \<Rightarrow> chess_color \<Rightarrow> bool" where
  "is_square_attacked board square by_color =
     (let file = int (file_of square); rank = int (rank_of square);
          pawnRank = (if by_color = White then rank - 1 else rank + 1);
          step_hits = (\<lambda>ds piece. list_ex (\<lambda>(df, dr). stands board (file + df) (rank + dr) (own piece by_color)) ds);
          slides = (\<lambda>ds pieces. list_ex (\<lambda>d. slide_hits board pieces file rank d steps) ds)
      in list_ex (\<lambda>df. stands board (file + df) pawnRank (own ''p'' by_color)) [-1, 1] \<or>
         step_hits knight_steps ''n'' \<or> step_hits king_steps ''k'' \<or>
         slides bishop_dirs [own ''b'' by_color, own ''q'' by_color] \<or>
         slides rook_dirs [own ''r'' by_color, own ''q'' by_color])"

definition is_in_check :: "position \<Rightarrow> chess_color \<Rightarrow> bool" where
  "is_in_check p color = (case index_of (own ''k'' color) (po_board p) of None \<Rightarrow> False
     | Some king \<Rightarrow> is_square_attacked (po_board p) king (opposite color))"

subsection \<open>Move generation\<close>

definition plain_move :: "nat \<Rightarrow> nat \<Rightarrow> string \<Rightarrow> string option \<Rightarrow> chess_move" where
  "plain_move from to' piece captured = \<lparr>mv_from = from, mv_to = to', mv_piece = piece, mv_captured = captured,
     mv_promotion = None, mv_castle = None, mv_enPassant = False\<rparr>"

definition add_pawn_move :: "chess_move \<Rightarrow> chess_move list" where
  "add_pawn_move m = (if rank_of (mv_to m) = 0 \<or> rank_of (mv_to m) = 7
     then map (\<lambda>promotion. m\<lparr>mv_promotion := Some promotion\<rparr>) promotions else [m])"

definition pawn_dir :: "chess_color \<Rightarrow> int" where
  "pawn_dir turn = (if turn = White then 1 else -1)"

definition pawn_pushes :: "position \<Rightarrow> nat \<Rightarrow> string \<Rightarrow> chess_move list" where
  "pawn_pushes p from piece =
     (let board = po_board p; file = int (file_of from); rank = int (rank_of from); dir = pawn_dir (po_turn p);
          startRank = (if po_turn p = White then 1 else 6)
      in case square_at file (rank + dir) of None \<Rightarrow> []
       | Some one \<Rightarrow> if board ! one \<noteq> [] then []
           else add_pawn_move (plain_move from one piece None) @
             (case square_at file (rank + 2 * dir) of None \<Rightarrow> []
              | Some two \<Rightarrow> if rank = startRank \<and> board ! two = [] then [plain_move from two piece None] else []))"

definition pawn_captures :: "position \<Rightarrow> nat \<Rightarrow> string \<Rightarrow> int \<Rightarrow> chess_move list" where
  "pawn_captures p from piece df =
     (let board = po_board p; file = int (file_of from); rank = int (rank_of from); enemy = opposite (po_turn p)
      in case square_at (file + df) (rank + pawn_dir (po_turn p)) of None \<Rightarrow> []
       | Some to' \<Rightarrow> let target = board ! to' in
           if target \<noteq> [] \<and> color_of target = enemy then add_pawn_move (plain_move from to' piece (Some target))
           else if target = [] \<and> po_ep p = Some to'
             then [(plain_move from to' piece (Some (own ''p'' enemy)))\<lparr>mv_enPassant := True\<rparr>] else [])"

definition step_move :: "position \<Rightarrow> nat \<Rightarrow> string \<Rightarrow> int \<times> int \<Rightarrow> chess_move list" where
  "step_move p from piece d =
     (case square_at (int (file_of from) + fst d) (int (rank_of from) + snd d) of None \<Rightarrow> []
      | Some to' \<Rightarrow> let target = po_board p ! to' in
          if target = [] then [plain_move from to' piece None]
          else if color_of target = opposite (po_turn p) then [plain_move from to' piece (Some target)] else [])"

fun slide_moves :: "position \<Rightarrow> nat \<Rightarrow> string \<Rightarrow> int \<times> int \<Rightarrow> int list \<Rightarrow> chess_move list" where
  "slide_moves p from piece d [] = []"
| "slide_moves p from piece d (step # ss) =
     (case square_at (int (file_of from) + fst d * step) (int (rank_of from) + snd d * step) of None \<Rightarrow> []
      | Some to' \<Rightarrow> let target = po_board p ! to' in
          if target = [] then plain_move from to' piece None # slide_moves p from piece d ss
          else if color_of target = opposite (po_turn p) then [plain_move from to' piece (Some target)] else [])"

definition castle_moves :: "position \<Rightarrow> nat \<Rightarrow> string \<Rightarrow> chess_move list" where
  "castle_moves p from piece =
     (let board = po_board p; turn = po_turn p; enemy = opposite turn;
          home = (if turn = White then 4 else 60);
          kingSide = (if turn = White then CHR ''K'' else CHR ''k''); queenSide = (if turn = White then CHR ''Q'' else CHR ''q'')
      in if from = home \<and> \<not> is_square_attacked board home enemy
         then (if kingSide \<in> set (po_castling p) \<and> board ! (home + 1) = [] \<and> board ! (home + 2) = [] \<and>
                 board ! (home + 3) = own ''r'' turn \<and>
                 \<not> is_square_attacked board (home + 1) enemy \<and> \<not> is_square_attacked board (home + 2) enemy
               then [(plain_move from (home + 2) piece None)\<lparr>mv_castle := Some KingSide\<rparr>] else []) @
              (if queenSide \<in> set (po_castling p) \<and> board ! (home - 1) = [] \<and> board ! (home - 2) = [] \<and> board ! (home - 3) = [] \<and>
                 board ! (home - 4) = own ''r'' turn \<and>
                 \<not> is_square_attacked board (home - 1) enemy \<and> \<not> is_square_attacked board (home - 2) enemy
               then [(plain_move from (home - 2) piece None)\<lparr>mv_castle := Some QueenSide\<rparr>] else [])
         else [])"

definition moves_from :: "position \<Rightarrow> nat \<Rightarrow> chess_move list" where
  "moves_from p from =
     (let piece = po_board p ! from; type = to_lower piece in
      if piece = [] \<or> color_of piece \<noteq> po_turn p then []
      else if type = ''p'' then pawn_pushes p from piece @ concat (map (pawn_captures p from piece) [-1, 1])
      else (if type = ''n'' then concat (map (step_move p from piece) knight_steps)
            else if type = ''k'' then concat (map (step_move p from piece) king_steps)
            else concat (map (\<lambda>d. slide_moves p from piece d steps)
              (if type = ''b'' then bishop_dirs else if type = ''r'' then rook_dirs else bishop_dirs @ rook_dirs))) @
           (if type = ''k'' then castle_moves p from piece else []))"

definition pseudo_legal_moves :: "position \<Rightarrow> chess_move list" where
  "pseudo_legal_moves p = concat (map (moves_from p) [0..<64])"

subsection \<open>Making a move\<close>

definition corner_rights :: "nat \<Rightarrow> char option" where
  "corner_rights square = map_of [(0, CHR ''Q''), (7, CHR ''K''), (56, CHR ''q''), (63, CHR ''k'')] square"

definition drop_right :: "nat \<Rightarrow> string \<Rightarrow> string" where
  "drop_right square castling = (case corner_rights square of None \<Rightarrow> castling | Some right \<Rightarrow> remove1 right castling)"

definition moved_board :: "position \<Rightarrow> chess_move \<Rightarrow> board" where
  "moved_board p m =
     (let b0 = po_board p; piece = b0 ! mv_from m; turn = po_turn p;
          b1 = b0[mv_from m := []];
          b2 = (if mv_enPassant m then b1[nat (int (mv_to m) - 8 * pawn_dir turn) := []] else b1);
          b3 = b2[mv_to m := (case mv_promotion m of Some q \<Rightarrow> own q turn | None \<Rightarrow> piece)]
      in case mv_castle m of None \<Rightarrow> b3
       | Some KingSide \<Rightarrow> b3[mv_from m + 1 := b3 ! (mv_from m + 3), mv_from m + 3 := []]
       | Some QueenSide \<Rightarrow> b3[mv_from m - 1 := b3 ! (mv_from m - 4), mv_from m - 4 := []])"

definition moved_castling :: "position \<Rightarrow> chess_move \<Rightarrow> string" where
  "moved_castling p m =
     (let piece = po_board p ! mv_from m;
          c1 = (if piece = ''K'' then filter (\<lambda>c. c \<notin> set ''KQ'') (po_castling p) else po_castling p);
          c2 = (if piece = ''k'' then filter (\<lambda>c. c \<notin> set ''kq'') c1 else c1)
      in drop_right (mv_to m) (drop_right (mv_from m) c2))"

definition make_move :: "position \<Rightarrow> chess_move \<Rightarrow> position" where
  "make_move p m =
     (let piece = po_board p ! mv_from m; turn = po_turn p; isPawn = (to_lower piece = ''p'') in
      \<lparr>po_board = moved_board p m, po_turn = opposite turn, po_castling = moved_castling p m,
       po_ep = (if isPawn \<and> \<bar>int (mv_to m) - int (mv_from m)\<bar> = 16 then Some (nat (int (mv_from m) + 8 * pawn_dir turn)) else None),
       po_halfmove = (if isPawn \<or> mv_captured m \<noteq> None then 0 else po_halfmove p + 1),
       po_fullmove = (if turn = Black then po_fullmove p + 1 else po_fullmove p)\<rparr>)"

definition legal_moves :: "position \<Rightarrow> chess_move list" where
  "legal_moves p = filter (\<lambda>m. \<not> is_in_check (make_move p m) (po_turn p)) (pseudo_legal_moves p)"

subsection \<open>The end of a game\<close>

datatype chess_result = WhiteWins | BlackWins | Draw

datatype end_reason = Checkmate | Stalemate | Threefold | FiftyMove | InsufficientMaterial

definition pieces_besides_kings :: "board \<Rightarrow> (string \<times> nat) list" where
  "pieces_besides_kings board = map (\<lambda>(piece, square). (to_lower piece, square))
     (filter (\<lambda>(piece, square). piece \<noteq> [] \<and> to_lower piece \<noteq> ''k'') (zip board [0..<length board]))"

definition shade :: "nat \<Rightarrow> nat" where
  "shade square = (file_of square + rank_of square) mod 2"

definition has_insufficient_material :: "position \<Rightarrow> bool" where
  "has_insufficient_material p = (let pieces = pieces_besides_kings (po_board p) in
     if pieces = [] then True
     else if list_ex (\<lambda>(type, _). type \<in> {''p'', ''r'', ''q''}) pieces then False
     else if length pieces = 1 then True
     else if list_all (\<lambda>(type, _). type = ''b'') pieces
       then list_all (\<lambda>(_, square). shade square = shade (snd (hd pieces))) pieces
     else False)"

definition piece_value :: "string \<Rightarrow> int" where
  "piece_value type = (case map_of [(''p'', 1), (''n'', 3), (''b'', 3), (''r'', 5), (''q'', 9), (''k'', 0)] type of
     Some v \<Rightarrow> v | None \<Rightarrow> 0)"

definition material_balance :: "position \<Rightarrow> int" where
  "material_balance p = foldl (\<lambda>sum piece. if piece = [] then sum
     else sum + (if color_of piece = White then piece_value (to_lower piece) else - piece_value (to_lower piece))) 0 (po_board p)"

definition game_outcome :: "position \<Rightarrow> nat \<Rightarrow> chess_move list \<Rightarrow> (chess_result \<times> end_reason) option" where
  "game_outcome p repetitions legal =
     (if legal = [] then (if is_in_check p (po_turn p)
        then Some (if po_turn p = White then BlackWins else WhiteWins, Checkmate) else Some (Draw, Stalemate))
      else if has_insufficient_material p then Some (Draw, InsufficientMaterial)
      else if repetitions \<ge> 3 then Some (Draw, Threefold)
      else if po_halfmove p \<ge> 100 then Some (Draw, FiftyMove) else None)"

text \<open>\<open>nodes\<close> is summed in a loop over the moves.\<close>

fun perft :: "position \<Rightarrow> nat \<Rightarrow> nat" where
  "perft p 0 = 1"
| "perft p (Suc 0) = length (legal_moves p)"
| "perft p (Suc (Suc depth)) = foldl (\<lambda>nodes m. nodes + perft (make_move p m) (Suc depth)) 0 (legal_moves p)"

end
