(* ===== verification/Chess_Attack.thy ===== *)
theory Chess_Attack
  imports Chess_Moves
begin

text \<open>
  The geometry of the board, and that \<open>isSquareAttacked\<close>, which looks outwards from a square, agrees with
  move generation, which looks outwards from every piece.
\<close>

subsection \<open>Pieces\<close>

definition valid_piece :: "string \<Rightarrow> bool" where
  "valid_piece s = (s = [] \<or> (\<exists>c. is_piece c \<and> s = [c]))"

definition piece_types :: "string list" where
  "piece_types = [''p'', ''n'', ''b'', ''r'', ''q'', ''k'']"

lemma piece_table:
  "list_all (\<lambda>c. to_lower [c] \<in> set piece_types \<and> list_all (\<lambda>t. list_all (\<lambda>color.
     ([c] = own t color) = (to_lower [c] = t \<and> color_of [c] = color)) [White, Black]) piece_types) ''pnbrqkPNBRQK''"
  by code_simp

lemma own_iff:
  assumes "valid_piece s" "s \<noteq> []" "t \<in> set piece_types"
  shows "s = own t color \<longleftrightarrow> to_lower s = t \<and> color_of s = color"
proof -
  obtain c where "is_piece c" "s = [c]" using assms by (auto simp: valid_piece_def)
  then have "list_all (\<lambda>t. list_all (\<lambda>color. (s = own t color) = (to_lower s = t \<and> color_of s = color)) [White, Black]) piece_types"
    using piece_table by (simp only: list_all_iff is_piece_def) blast
  then have "list_all (\<lambda>color. (s = own t color) = (to_lower s = t \<and> color_of s = color)) [White, Black]"
    using assms(3) by (simp only: list_all_iff) blast
  then show ?thesis by (cases color) simp_all
qed

lemma type_known:
  assumes "valid_piece s" "s \<noteq> []"
  shows "to_lower s \<in> set piece_types"
proof -
  obtain c where "is_piece c" "s = [c]" using assms by (auto simp: valid_piece_def)
  then show ?thesis using piece_table by (simp only: list_all_iff is_piece_def)
qed

lemma own_facts: "t \<in> set piece_types \<Longrightarrow> valid_piece (own t color) \<and> own t color \<noteq> [] \<and> to_lower (own t color) = t \<and> color_of (own t color) = color"
proof -
  assume t: "t \<in> set piece_types"
  have table: "list_all (\<lambda>t. list_all (\<lambda>color. length (own t color) = 1 \<and> is_piece (hd (own t color)) \<and> to_lower (own t color) = t \<and>
      color_of (own t color) = color) [White, Black]) piece_types" by code_simp
  have "color \<in> set [White, Black]" by (cases color) auto
  then have "length (own t color) = 1 \<and> is_piece (hd (own t color)) \<and> to_lower (own t color) = t \<and> color_of (own t color) = color"
    using table t unfolding list_all_iff by blast
  then show ?thesis unfolding valid_piece_def by (cases "own t color") auto
qed

lemma opposite_simps [simp]: "opposite (opposite c) = c" "opposite c \<noteq> c" "c \<noteq> opposite c" "(c \<noteq> d) = (c = opposite d)"
  by (cases c; cases d; simp)+

lemma own_types [simp]: "''p'' \<in> set piece_types" "''n'' \<in> set piece_types" "''b'' \<in> set piece_types" "''r'' \<in> set piece_types"
  "''q'' \<in> set piece_types" "''k'' \<in> set piece_types"
  by (simp_all add: piece_types_def)

subsection \<open>Squares\<close>

lemma square_at_iff: "square_at f r = Some s \<longleftrightarrow> s < 64 \<and> int (file_of s) = f \<and> int (rank_of s) = r"
proof
  assume "square_at f r = Some s"
  then have fr: "0 \<le> f" "f < 8" "0 \<le> r" "r < 8" "s = nat (r * 8 + f)" by (auto simp: square_at_def split: if_splits)
  then obtain fn rn where n: "f = int fn" "r = int rn" by (metis nonneg_int_cases)
  then have "s = rn * 8 + fn" using fr(5) by (simp add: nat_eq_iff)
  then show "s < 64 \<and> int (file_of s) = f \<and> int (rank_of s) = r" using fr n by (simp add: file_of_def rank_of_def)
next
  assume "s < 64 \<and> int (file_of s) = f \<and> int (rank_of s) = r"
  moreover have "int (s div 8) * 8 + int (s mod 8) = int s" using div_mult_mod_eq[of s 8] by (metis of_nat_add of_nat_mult of_nat_numeral)
  ultimately show "square_at f r = Some s" by (auto simp: square_at_def file_of_def rank_of_def nat_eq_iff)
qed

lemma same_square: "a < 64 \<Longrightarrow> file_of a = file_of b \<Longrightarrow> rank_of a = rank_of b \<Longrightarrow> a = b"
  unfolding file_of_def rank_of_def by (metis div_mult_mod_eq)

text \<open>\<open>b\<close> is where \<open>k\<close> times the step \<open>d\<close> leads from \<open>a\<close>.\<close>

definition reach :: "nat \<Rightarrow> int \<Rightarrow> int \<times> int \<Rightarrow> nat \<Rightarrow> bool" where
  "reach a k d b = (b < 64 \<and> int (file_of b) = int (file_of a) + fst d * k \<and> int (rank_of b) = int (rank_of a) + snd d * k)"

lemma square_at_reach: "square_at (int (file_of a) + fst d * k) (int (rank_of a) + snd d * k) = Some b \<longleftrightarrow> reach a k d b"
  by (auto simp: square_at_iff reach_def)

lemma square_at_reach1: "square_at (int (file_of a) + fst d) (int (rank_of a) + snd d) = Some b \<longleftrightarrow> reach a 1 d b"
  by (auto simp: square_at_iff reach_def)

lemma reach_unique: "reach a k d b \<Longrightarrow> reach a k d c \<Longrightarrow> b = c"
  unfolding reach_def by (metis of_nat_eq_iff same_square)

definition flip :: "int \<times> int \<Rightarrow> int \<times> int" where
  "flip d = (- fst d, - snd d)"

lemma flip_flip [simp]: "flip (flip d) = d"
  by (simp add: flip_def)

lemma reach_flip: "a < 64 \<Longrightarrow> reach a k d b \<Longrightarrow> reach b k (flip d) a"
  by (auto simp: reach_def flip_def)

lemma dirs_flip:
  "d \<in> set knight_steps \<Longrightarrow> flip d \<in> set knight_steps" "d \<in> set king_steps \<Longrightarrow> flip d \<in> set king_steps"
  "d \<in> set bishop_dirs \<Longrightarrow> flip d \<in> set bishop_dirs" "d \<in> set rook_dirs \<Longrightarrow> flip d \<in> set rook_dirs"
proof -
  have "\<forall>ds \<in> set [knight_steps, king_steps, bishop_dirs, rook_dirs]. list_all (\<lambda>d. flip d \<in> set ds) ds" by code_simp
  then show "d \<in> set knight_steps \<Longrightarrow> flip d \<in> set knight_steps" "d \<in> set king_steps \<Longrightarrow> flip d \<in> set king_steps"
    "d \<in> set bishop_dirs \<Longrightarrow> flip d \<in> set bishop_dirs" "d \<in> set rook_dirs \<Longrightarrow> flip d \<in> set rook_dirs"
    by (simp_all only: list.set ball_simps list_all_iff)
qed

text \<open>A line of \<open>k\<close> steps with nothing between its ends.\<close>

definition clear_line :: "board \<Rightarrow> nat \<Rightarrow> int \<times> int \<Rightarrow> nat \<Rightarrow> bool" where
  "clear_line board a d b = (\<exists>k::nat. 1 \<le> k \<and> k < 8 \<and> reach a (int k) d b \<and>
     (\<forall>j::nat. 1 \<le> j \<and> j < k \<longrightarrow> (\<exists>s. reach a (int j) d s \<and> board ! s = [])))"

lemma reach_between:
  assumes "reach a (int k) d b" "reach a (int j) d s" "j \<le> k"
  shows "reach b (int (k - j)) (flip d) s"
proof -
  have "x * int (k - j) = x * int k - x * int j" for x :: int using assms(3) by (simp add: of_nat_diff right_diff_distrib)
  then show ?thesis using assms(1,2) by (simp add: reach_def flip_def)
qed

lemma clear_line_flip:
  assumes "a < 64" "clear_line board a d b"
  shows "clear_line board b (flip d) a"
proof -
  obtain k :: nat where k: "1 \<le> k" "k < 8" "reach a (int k) d b"
      "\<forall>j::nat. 1 \<le> j \<and> j < k \<longrightarrow> (\<exists>s. reach a (int j) d s \<and> board ! s = [])"
    using assms(2) by (auto simp: clear_line_def)
  have "\<exists>s. reach b (int j) (flip d) s \<and> board ! s = []" if j: "1 \<le> j" "j < k" for j :: nat
  proof -
    have "1 \<le> k - j" "k - j < k" using j by auto
    then obtain s where "reach a (int (k - j)) d s" "board ! s = []" using k(4) by blast
    then show ?thesis using reach_between[OF k(3), of "k - j" s] j by auto
  qed
  then show ?thesis using k(1,2) reach_flip[OF assms(1) k(3)] unfolding clear_line_def by blast
qed

subsection \<open>The loops over a direction\<close>

lemma steps_upt: "steps = map int [Suc 0..<8]"
  by (simp add: steps_def upt_rec)

lemma suffix_steps: "i < 8 \<Longrightarrow> map int [i..<8] = int i # map int [Suc i..<8]"
  by (simp add: upt_conv_Cons)

text \<open>The squares a loop finds from a step \<open>i\<close> on: the first occupied one ends it.\<close>

definition found_from :: "board \<Rightarrow> nat \<Rightarrow> int \<times> int \<Rightarrow> nat \<Rightarrow> nat \<Rightarrow> bool" where
  "found_from board a d i b = (\<exists>k::nat. i \<le> k \<and> k < 8 \<and> reach a (int k) d b \<and>
     (\<forall>j::nat. i \<le> j \<and> j < k \<longrightarrow> (\<exists>s. reach a (int j) d s \<and> board ! s = [])))"

lemma found_step:
  assumes "i < 8"
  shows "found_from board a d i b \<longleftrightarrow> reach a (int i) d b \<or>
    (\<exists>s. reach a (int i) d s \<and> board ! s = [] \<and> found_from board a d (Suc i) b)"
proof
  assume "found_from board a d i b"
  then obtain k where k: "i \<le> k" "k < 8" "reach a (int k) d b"
      "\<forall>j::nat. i \<le> j \<and> j < k \<longrightarrow> (\<exists>s. reach a (int j) d s \<and> board ! s = [])" by (auto simp: found_from_def)
  show "reach a (int i) d b \<or> (\<exists>s. reach a (int i) d s \<and> board ! s = [] \<and> found_from board a d (Suc i) b)"
  proof (cases "k = i")
    case False
    then have "\<exists>s. reach a (int i) d s \<and> board ! s = []" using k(1,4) by auto
    moreover have "found_from board a d (Suc i) b" unfolding found_from_def using False k by (intro exI[of _ k]) auto
    ultimately show ?thesis by blast
  qed (use k in simp)
next
  assume r: "reach a (int i) d b \<or> (\<exists>s. reach a (int i) d s \<and> board ! s = [] \<and> found_from board a d (Suc i) b)"
  then show "found_from board a d i b"
  proof
    assume "reach a (int i) d b"
    then show ?thesis using assms by (auto simp: found_from_def intro!: exI[of _ i])
  next
    assume "\<exists>s. reach a (int i) d s \<and> board ! s = [] \<and> found_from board a d (Suc i) b"
    then obtain s k where s: "reach a (int i) d s" "board ! s = []" "Suc i \<le> k" "k < 8" "reach a (int k) d b"
      "\<forall>j::nat. Suc i \<le> j \<and> j < k \<longrightarrow> (\<exists>s. reach a (int j) d s \<and> board ! s = [])" by (auto simp: found_from_def)
    have "\<exists>t. reach a (int j) d t \<and> board ! t = []" if "i \<le> j" "j < k" for j
      using s(1,2,6) that by (cases "j = i") auto
    then show ?thesis unfolding found_from_def using s(3-5) by (intro exI[of _ k]) auto
  qed
qed

lemma found_all: "found_from board a d (Suc 0) b = clear_line board a d b"
  by (simp add: found_from_def clear_line_def)

lemma found_none: "\<not> found_from board a d 8 b"
  by (auto simp: found_from_def)

lemma slide_hits_from:
  assumes "[] \<notin> set pieces" "i \<le> 8"
  shows "slide_hits board pieces (int (file_of a)) (int (rank_of a)) d (map int [i..<8]) \<longleftrightarrow>
    (\<exists>b. found_from board a d i b \<and> board ! b \<in> set pieces)"
  using assms(2)
proof (induction i rule: inc_induct)
  case base
  then show ?case by (simp add: found_none)
next
  case (step i)
  show ?case
  proof (cases "square_at (int (file_of a) + fst d * int i) (int (rank_of a) + snd d * int i)")
    case None
    then have "\<not> reach a (int i) d s" for s using square_at_reach[of a d "int i" s] by simp
    then show ?thesis using None step(1,2) by (simp add: suffix_steps found_step)
  next
    case (Some s)
    then have s: "reach a (int i) d s" using square_at_reach by simp
    then have u: "reach a (int i) d t \<longleftrightarrow> t = s" for t using reach_unique by blast
    show ?thesis using Some step assms(1) by (auto simp: suffix_steps found_step u)
  qed
qed

lemma slide_hits_iff:
  "[] \<notin> set pieces \<Longrightarrow> slide_hits board pieces (int (file_of a)) (int (rank_of a)) d steps \<longleftrightarrow>
     (\<exists>b. clear_line board a d b \<and> board ! b \<in> set pieces)"
  unfolding steps_upt by (subst slide_hits_from) (auto simp: found_all)

text \<open>The move to a square a piece can go to: empty, or taken by the enemy.\<close>

definition goes_to :: "position \<Rightarrow> nat \<Rightarrow> string \<Rightarrow> nat \<Rightarrow> chess_move \<Rightarrow> bool" where
  "goes_to p a piece b m = (if po_board p ! b = [] then m = plain_move a b piece None
     else color_of (po_board p ! b) = opposite (po_turn p) \<and> m = plain_move a b piece (Some (po_board p ! b)))"

lemma slide_moves_from:
  assumes "i \<le> 8"
  shows "m \<in> set (slide_moves p a piece d (map int [i..<8])) \<longleftrightarrow>
    (\<exists>b. found_from (po_board p) a d i b \<and> goes_to p a piece b m)"
  using assms
proof (induction i rule: inc_induct)
  case base
  then show ?case by (simp add: found_none)
next
  case (step i)
  show ?case
  proof (cases "square_at (int (file_of a) + fst d * int i) (int (rank_of a) + snd d * int i)")
    case None
    then have "\<not> reach a (int i) d s" for s using square_at_reach[of a d "int i" s] by simp
    then show ?thesis using None step(1,2) by (simp add: suffix_steps found_step)
  next
    case (Some s)
    then have s: "reach a (int i) d s" using square_at_reach by simp
    then have u: "reach a (int i) d t \<longleftrightarrow> t = s" for t using reach_unique by blast
    show ?thesis using Some step by (auto simp: suffix_steps found_step u Let_def goes_to_def)
  qed
qed

lemma slide_moves_iff:
  "m \<in> set (slide_moves p a piece d steps) \<longleftrightarrow> (\<exists>b. clear_line (po_board p) a d b \<and> goes_to p a piece b m)"
  unfolding steps_upt by (subst slide_moves_from) (auto simp: found_all)

lemma step_move_iff: "m \<in> set (step_move p a piece d) \<longleftrightarrow> (\<exists>b. reach a 1 d b \<and> goes_to p a piece b m)"
proof (cases "square_at (int (file_of a) + fst d) (int (rank_of a) + snd d)")
  case None
  then have "\<not> reach a 1 d b" for b using square_at_reach1[of a d b] by simp
  then show ?thesis using None by (simp add: step_move_def)
next
  case (Some s)
  then have s: "reach a 1 d s" using square_at_reach1 by simp
  then have u: "reach a 1 d t \<longleftrightarrow> t = s" for t using reach_unique by blast
  show ?thesis using Some by (auto simp: step_move_def u Let_def goes_to_def)
qed

lemma stands_iff: "stands board (int (file_of a) + fst d) (int (rank_of a) + snd d) piece \<longleftrightarrow> (\<exists>b. reach a 1 d b \<and> board ! b = piece)"
proof (cases "square_at (int (file_of a) + fst d) (int (rank_of a) + snd d)")
  case None
  then have "\<not> reach a 1 d b" for b using square_at_reach1[of a d b] by simp
  then show ?thesis using None by (simp add: stands_def)
next
  case (Some s)
  then have s: "reach a 1 d s" using square_at_reach1 by simp
  then have u: "reach a 1 d t \<longleftrightarrow> t = s" for t using reach_unique by blast
  show ?thesis using Some by (auto simp: stands_def u)
qed

subsection \<open>Attack and aim\<close>

definition valid_board :: "board \<Rightarrow> bool" where
  "valid_board board = (length board = 64 \<and> (\<forall>s \<in> set board. valid_piece s))"

text \<open>The piece on \<open>a\<close> could take on \<open>b\<close>.\<close>

definition aims :: "board \<Rightarrow> nat \<Rightarrow> nat \<Rightarrow> bool" where
  "aims board a b = (let t = to_lower (board ! a); c = color_of (board ! a) in
     (t = ''p'' \<and> (\<exists>df \<in> {-1, 1}. reach a 1 (df, pawn_dir c) b)) \<or>
     (t = ''n'' \<and> (\<exists>d \<in> set knight_steps. reach a 1 d b)) \<or> (t = ''k'' \<and> (\<exists>d \<in> set king_steps. reach a 1 d b)) \<or>
     (t \<in> {''b'', ''q''} \<and> (\<exists>d \<in> set bishop_dirs. clear_line board a d b)) \<or>
     (t \<in> {''r'', ''q''} \<and> (\<exists>d \<in> set rook_dirs. clear_line board a d b)))"

lemma valid_at: "valid_board board \<Longrightarrow> a < 64 \<Longrightarrow> valid_piece (board ! a)"
  by (simp add: valid_board_def)

lemma piece_at:
  assumes "valid_board board" "a < 64" "t \<in> set piece_types"
  shows "board ! a = own t c \<longleftrightarrow> board ! a \<noteq> [] \<and> to_lower (board ! a) = t \<and> color_of (board ! a) = c"
proof (cases "board ! a = []")
  case True
  then show ?thesis using own_facts[OF assms(3), of c] by auto
next
  case False
  then show ?thesis using own_iff[OF valid_at[OF assms(1,2)] False assms(3)] by simp
qed

lemma reach_bound: "reach a k d b \<Longrightarrow> b < 64"
  by (simp add: reach_def)

lemma line_bound: "clear_line board a d b \<Longrightarrow> b < 64"
  by (auto simp: clear_line_def reach_def)

lemma leap_attack:
  assumes board: "valid_board board" "sq < 64" and t: "t \<in> set piece_types" and flips: "\<And>d. d \<in> set ds \<Longrightarrow> flip d \<in> set ds"
  shows "list_ex (\<lambda>(df, dr). stands board (int (file_of sq) + df) (int (rank_of sq) + dr) (own t c)) ds \<longleftrightarrow>
    (\<exists>a < 64. board ! a \<noteq> [] \<and> color_of (board ! a) = c \<and> to_lower (board ! a) = t \<and> (\<exists>d \<in> set ds. reach a 1 d sq))"
proof -
  have "list_ex (\<lambda>(df, dr). stands board (int (file_of sq) + df) (int (rank_of sq) + dr) (own t c)) ds \<longleftrightarrow>
      (\<exists>d \<in> set ds. \<exists>a. reach sq 1 d a \<and> board ! a = own t c)"
    using stands_iff[of board sq _ "own t c"] by (auto simp: list_ex_iff split_beta)
  also have "\<dots> \<longleftrightarrow> (\<exists>a < 64. board ! a = own t c \<and> (\<exists>d \<in> set ds. reach a 1 d sq))"
    using reach_flip[OF board(2), of 1] reach_flip[of _ 1 _ sq] reach_bound flips by (metis flip_flip)
  also have "\<dots> \<longleftrightarrow> (\<exists>a < 64. board ! a \<noteq> [] \<and> color_of (board ! a) = c \<and> to_lower (board ! a) = t \<and> (\<exists>d \<in> set ds. reach a 1 d sq))"
    using piece_at[OF board(1) _ t] by blast
  finally show ?thesis .
qed

lemma line_attack:
  assumes board: "valid_board board" "sq < 64" and t: "set ts \<subseteq> set piece_types" and flips: "\<And>d. d \<in> set ds \<Longrightarrow> flip d \<in> set ds"
  shows "list_ex (\<lambda>d. slide_hits board (map (\<lambda>t. own t c) ts) (int (file_of sq)) (int (rank_of sq)) d steps) ds \<longleftrightarrow>
    (\<exists>a < 64. board ! a \<noteq> [] \<and> color_of (board ! a) = c \<and> to_lower (board ! a) \<in> set ts \<and> (\<exists>d \<in> set ds. clear_line board a d sq))"
proof -
  have "own t c \<noteq> []" if "t \<in> set ts" for t using t that own_facts by blast
  then have "[] \<notin> set (map (\<lambda>t. own t c) ts)" by (simp add: image_iff) metis
  then have "list_ex (\<lambda>d. slide_hits board (map (\<lambda>t. own t c) ts) (int (file_of sq)) (int (rank_of sq)) d steps) ds \<longleftrightarrow>
      (\<exists>d \<in> set ds. \<exists>a. clear_line board sq d a \<and> (\<exists>t \<in> set ts. board ! a = own t c))"
    by (simp add: list_ex_iff slide_hits_iff image_iff)
  also have "\<dots> \<longleftrightarrow> (\<exists>a < 64. (\<exists>t \<in> set ts. board ! a = own t c) \<and> (\<exists>d \<in> set ds. clear_line board a d sq))"
    using clear_line_flip[OF board(2)] clear_line_flip[of _ board _ sq] line_bound flips by (metis flip_flip)
  also have "\<dots> \<longleftrightarrow> (\<exists>a < 64. board ! a \<noteq> [] \<and> color_of (board ! a) = c \<and> to_lower (board ! a) \<in> set ts \<and>
      (\<exists>d \<in> set ds. clear_line board a d sq))"
    using piece_at[OF board(1)] t by blast
  finally show ?thesis .
qed

lemma pawn_attack:
  assumes board: "valid_board board" "sq < 64"
  shows "list_ex (\<lambda>df. stands board (int (file_of sq) + df) (if c = White then int (rank_of sq) - 1 else int (rank_of sq) + 1) (own ''p'' c)) [-1, 1]
    \<longleftrightarrow> (\<exists>a < 64. board ! a \<noteq> [] \<and> color_of (board ! a) = c \<and> to_lower (board ! a) = ''p'' \<and>
      (\<exists>df \<in> {-1, 1}. reach a 1 (df, pawn_dir c) sq))"
proof -
  have rank: "(if c = White then int (rank_of sq) - 1 else int (rank_of sq) + 1) = int (rank_of sq) + - pawn_dir c"
    by (simp add: pawn_dir_def)
  have "stands board (int (file_of sq) + df) (int (rank_of sq) + - pawn_dir c) (own ''p'' c) \<longleftrightarrow>
      (\<exists>a. reach sq 1 (df, - pawn_dir c) a \<and> board ! a = own ''p'' c)" for df
    using stands_iff[of board sq "(df, - pawn_dir c)"] by simp
  moreover have "reach sq 1 (df, - pawn_dir c) a \<longleftrightarrow> a < 64 \<and> reach a 1 (- df, pawn_dir c) sq" for df a
    using board(2) by (auto simp: reach_def)
  ultimately have "list_ex (\<lambda>df. stands board (int (file_of sq) + df) (int (rank_of sq) + - pawn_dir c) (own ''p'' c)) [-1, 1] \<longleftrightarrow>
      (\<exists>a < 64. board ! a = own ''p'' c \<and> (\<exists>df \<in> {-1, 1}. reach a 1 (df, pawn_dir c) sq))"
    by auto
  then show ?thesis unfolding rank using piece_at[OF board(1) _ own_types(1)] by auto
qed

lemma attacked_iff:
  assumes "valid_board board" "sq < 64"
  shows "is_square_attacked board sq c \<longleftrightarrow> (\<exists>a < 64. board ! a \<noteq> [] \<and> color_of (board ! a) = c \<and> aims board a sq)"
proof -
  have pieces: "[own ''b'' c, own ''q'' c] = map (\<lambda>t. own t c) [''b'', ''q'']" "[own ''r'' c, own ''q'' c] = map (\<lambda>t. own t c) [''r'', ''q'']"
    by simp_all
  note leaps = leap_attack[OF assms own_types(2), OF dirs_flip(1), where c = c] leap_attack[OF assms own_types(6), OF dirs_flip(2), where c = c]
  note lines = line_attack[OF assms, where ts = "[''b'', ''q'']" and ds = bishop_dirs, OF _ dirs_flip(3), where c = c]
    line_attack[OF assms, where ts = "[''r'', ''q'']" and ds = rook_dirs, OF _ dirs_flip(4), where c = c]
  have "is_square_attacked board sq c \<longleftrightarrow>
      (\<exists>a < 64. board ! a \<noteq> [] \<and> color_of (board ! a) = c \<and> to_lower (board ! a) = ''p'' \<and> (\<exists>df \<in> {-1, 1}. reach a 1 (df, pawn_dir c) sq)) \<or>
      (\<exists>a < 64. board ! a \<noteq> [] \<and> color_of (board ! a) = c \<and> to_lower (board ! a) = ''n'' \<and> (\<exists>d \<in> set knight_steps. reach a 1 d sq)) \<or>
      (\<exists>a < 64. board ! a \<noteq> [] \<and> color_of (board ! a) = c \<and> to_lower (board ! a) = ''k'' \<and> (\<exists>d \<in> set king_steps. reach a 1 d sq)) \<or>
      (\<exists>a < 64. board ! a \<noteq> [] \<and> color_of (board ! a) = c \<and> to_lower (board ! a) \<in> set [''b'', ''q''] \<and> (\<exists>d \<in> set bishop_dirs. clear_line board a d sq)) \<or>
      (\<exists>a < 64. board ! a \<noteq> [] \<and> color_of (board ! a) = c \<and> to_lower (board ! a) \<in> set [''r'', ''q''] \<and> (\<exists>d \<in> set rook_dirs. clear_line board a d sq))"
    unfolding is_square_attacked_def Let_def pieces
    using pawn_attack[OF assms, of c] leaps lines by (simp add: piece_types_def)
  also have "\<dots> \<longleftrightarrow> (\<exists>a < 64. board ! a \<noteq> [] \<and> color_of (board ! a) = c \<and> aims board a sq)"
    unfolding aims_def Let_def by auto
  finally show ?thesis .
qed

end
