(* ===== verification/Chess_Play.thy ===== *)
theory Chess_Play
  imports Chess_Attack
begin

text \<open>
  Every legal move of a proper position leads to a proper position: 64 squares, one king on each side,
  castling rights that are rights, an en passant square behind a pawn that just moved, and the side that
  moved not in check.
\<close>

subsection \<open>The moves of a piece\<close>

lemma reach_diff: "reach a 1 d b \<Longrightarrow> int b = int a + fst d + 8 * snd d"
proof -
  assume r: "reach a 1 d b"
  have split: "int s = int (file_of s) + 8 * int (rank_of s)" for s
    using div_mult_mod_eq[of s 8] unfolding file_of_def rank_of_def by linarith
  show ?thesis unfolding split[of a] split[of b] using r by (simp add: reach_def algebra_simps)
qed

lemma steps_nonzero:
  "d \<in> set knight_steps \<Longrightarrow> d \<noteq> (0, 0)" "d \<in> set king_steps \<Longrightarrow> d \<noteq> (0, 0)"
  "d \<in> set bishop_dirs \<Longrightarrow> d \<noteq> (0, 0)" "d \<in> set rook_dirs \<Longrightarrow> d \<noteq> (0, 0)"
proof -
  have "\<forall>ds \<in> set [knight_steps, king_steps, bishop_dirs, rook_dirs]. list_all (\<lambda>d. d \<noteq> (0, 0)) ds" by code_simp
  then show "d \<in> set knight_steps \<Longrightarrow> d \<noteq> (0, 0)" "d \<in> set king_steps \<Longrightarrow> d \<noteq> (0, 0)"
    "d \<in> set bishop_dirs \<Longrightarrow> d \<noteq> (0, 0)" "d \<in> set rook_dirs \<Longrightarrow> d \<noteq> (0, 0)"
    by (simp_all only: list.set ball_simps list_all_iff) blast+
qed

lemma reach_moves: "reach a k d b \<Longrightarrow> k \<noteq> 0 \<Longrightarrow> d \<noteq> (0, 0) \<Longrightarrow> a \<noteq> b"
  by (cases d) (auto simp: reach_def)

lemma line_moves: "clear_line board a d b \<Longrightarrow> d \<noteq> (0, 0) \<Longrightarrow> a \<noteq> b"
  unfolding clear_line_def using reach_moves by fastforce

lemma aims_moves: "aims board a b \<Longrightarrow> a \<noteq> b \<and> b < 64"
proof -
  assume "aims board a b"
  then consider df where "df \<in> {-1, 1}" "reach a 1 (df, pawn_dir (color_of (board ! a))) b"
    | d where "d \<in> set knight_steps \<union> set king_steps" "reach a 1 d b"
    | d where "d \<in> set bishop_dirs \<union> set rook_dirs" "clear_line board a d b"
    unfolding aims_def Let_def by blast
  then have "\<exists>d. d \<noteq> (0, 0) \<and> (reach a 1 d b \<or> clear_line board a d b)"
  proof cases
    case (1 df)
    then have "(df, pawn_dir (color_of (board ! a))) \<noteq> (0, 0)" by auto
    then show ?thesis using 1 by blast
  qed (use steps_nonzero in blast)+
  then obtain d where "d \<noteq> (0, 0)" "reach a 1 d b \<or> clear_line board a d b" by blast
  then show ?thesis using reach_moves[of a 1 d b] line_moves[of board a d b] reach_bound[of a 1 d b] line_bound[of board a d b] by auto
qed

definition home :: "chess_color \<Rightarrow> nat" where
  "home turn = (if turn = White then 4 else 60)"

lemma square_at_up: "square_at (int (file_of a)) (int (rank_of a) + r) = Some b \<longleftrightarrow> reach a 1 (0, r) b"
  by (auto simp: square_at_iff reach_def)

lemma square_at_none: "square_at f r = None \<Longrightarrow> square_at f r = Some b \<longleftrightarrow> False"
  by simp

definition pawn_start :: "chess_color \<Rightarrow> nat" where
  "pawn_start turn = (if turn = White then 1 else 6)"

lemma pawn_pushes_iff:
  "m \<in> set (pawn_pushes p a piece) \<longleftrightarrow> (\<exists>e. reach a 1 (0, pawn_dir (po_turn p)) e \<and> po_board p ! e = [] \<and>
     (m \<in> set (add_pawn_move (plain_move a e piece None)) \<or>
      (\<exists>b. reach a 1 (0, 2 * pawn_dir (po_turn p)) b \<and> po_board p ! b = [] \<and> rank_of a = pawn_start (po_turn p) \<and>
         m = plain_move a b piece None)))"
proof (cases "square_at (int (file_of a)) (int (rank_of a) + pawn_dir (po_turn p))")
  case None
  then show ?thesis unfolding pawn_pushes_def Let_def by (simp flip: square_at_up)
next
  case (Some e)
  have rank: "int (rank_of a) = (if po_turn p = White then 1 else 6) \<longleftrightarrow> rank_of a = pawn_start (po_turn p)"
    by (auto simp: pawn_start_def)
  have e: "reach a 1 (0, pawn_dir (po_turn p)) f \<longleftrightarrow> f = e" for f using Some square_at_up reach_unique by blast
  show ?thesis
  proof (cases "square_at (int (file_of a)) (int (rank_of a) + 2 * pawn_dir (po_turn p))")
    case None
    then have "\<not> reach a 1 (0, 2 * pawn_dir (po_turn p)) b" for b by (simp flip: square_at_up)
    then show ?thesis using None Some by (simp add: pawn_pushes_def Let_def e)
  next
    case (Some b)
    then have "reach a 1 (0, 2 * pawn_dir (po_turn p)) f \<longleftrightarrow> f = b" for f using square_at_up reach_unique by blast
    then show ?thesis using Some \<open>square_at (int (file_of a)) (int (rank_of a) + pawn_dir (po_turn p)) = Some e\<close>
      by (auto simp: pawn_pushes_def Let_def e rank)
  qed
qed

lemma pawn_captures_iff:
  "m \<in> set (pawn_captures p a piece df) \<longleftrightarrow> (\<exists>b. reach a 1 (df, pawn_dir (po_turn p)) b \<and>
     ((po_board p ! b \<noteq> [] \<and> color_of (po_board p ! b) = opposite (po_turn p) \<and>
         m \<in> set (add_pawn_move (plain_move a b piece (Some (po_board p ! b))))) \<or>
      (po_board p ! b = [] \<and> po_ep p = Some b \<and>
         m = (plain_move a b piece (Some (own ''p'' (opposite (po_turn p)))))\<lparr>mv_enPassant := True\<rparr>)))"
proof (cases "square_at (int (file_of a) + df) (int (rank_of a) + pawn_dir (po_turn p))")
  case None
  then have "\<not> reach a 1 (df, pawn_dir (po_turn p)) b" for b using square_at_reach1[of a "(df, pawn_dir (po_turn p))" b] by simp
  then show ?thesis using None by (simp add: pawn_captures_def Let_def)
next
  case (Some b)
  then have "reach a 1 (df, pawn_dir (po_turn p)) b" using square_at_reach1[of a "(df, pawn_dir (po_turn p))" b] by simp
  then have "reach a 1 (df, pawn_dir (po_turn p)) f \<longleftrightarrow> f = b" for f using reach_unique by blast
  then show ?thesis using Some by (auto simp: pawn_captures_def Let_def)
qed

lemma castle_moves_cases:
  assumes "m \<in> set (castle_moves p a piece)"
  shows "a = home (po_turn p) \<and>
    ((m = (plain_move a (a + 2) piece None)\<lparr>mv_castle := Some KingSide\<rparr> \<and> po_board p ! (a + 1) = [] \<and> po_board p ! (a + 2) = [] \<and>
        po_board p ! (a + 3) = own ''r'' (po_turn p)) \<or>
     (m = (plain_move a (a - 2) piece None)\<lparr>mv_castle := Some QueenSide\<rparr> \<and> po_board p ! (a - 1) = [] \<and> po_board p ! (a - 2) = [] \<and>
        po_board p ! (a - 3) = [] \<and> po_board p ! (a - 4) = own ''r'' (po_turn p)))"
  using assms by (auto simp: castle_moves_def Let_def home_def split: if_splits)

definition line_dirs :: "string \<Rightarrow> (int \<times> int) list" where
  "line_dirs t = (if t = ''b'' then bishop_dirs else if t = ''r'' then rook_dirs else bishop_dirs @ rook_dirs)"

lemma officer_moves:
  assumes "valid_piece (po_board p ! a)" "po_board p ! a \<noteq> []" "to_lower (po_board p ! a) = t" "t \<noteq> ''p''"
  shows "(\<exists>b. aims (po_board p) a b \<and> goes_to p a piece b m) \<longleftrightarrow>
    m \<in> set (if t = ''n'' then concat (map (step_move p a piece) knight_steps)
      else if t = ''k'' then concat (map (step_move p a piece) king_steps)
      else concat (map (\<lambda>d. slide_moves p a piece d steps) (line_dirs t)))"
proof -
  have "t \<in> set piece_types" using type_known[OF assms(1,2)] assms(3) by simp
  then consider "t = ''n''" | "t = ''k''" | "t = ''b''" | "t = ''r''" | "t = ''q''" using assms(4) by (auto simp: piece_types_def)
  then show ?thesis
    by cases (auto simp: aims_def assms(3) step_move_iff slide_moves_iff line_dirs_def Bex_def simp del: split_paired_Ex)
qed

lemma moves_from_officer:
  assumes "po_board p ! a = piece" "piece \<noteq> []" "color_of piece = po_turn p" "to_lower piece = t" "t \<noteq> ''p''"
  shows "set (moves_from p a) = set (if t = ''n'' then concat (map (step_move p a piece) knight_steps)
      else if t = ''k'' then concat (map (step_move p a piece) king_steps)
      else concat (map (\<lambda>d. slide_moves p a piece d steps) (line_dirs t))) \<union> (if t = ''k'' then set (castle_moves p a piece) else {})"
  using assms by (simp add: moves_from_def line_dirs_def Let_def)

lemma moves_from_own: "m \<in> set (moves_from p a) \<Longrightarrow> po_board p ! a \<noteq> [] \<and> color_of (po_board p ! a) = po_turn p"
  by (auto simp: moves_from_def Let_def split: if_splits)

lemma moves_from_cases:
  assumes "m \<in> set (moves_from p a)" and valid: "valid_piece (po_board p ! a)"
  defines "board \<equiv> po_board p" and "piece \<equiv> po_board p ! a" and "turn \<equiv> po_turn p"
  obtains (goes) b where "to_lower piece \<noteq> ''p''" "aims board a b" "goes_to p a piece b m"
  | (push) b where "to_lower piece = ''p''" "reach a 1 (0, pawn_dir turn) b" "board ! b = []"
      "m \<in> set (add_pawn_move (plain_move a b piece None))"
  | (double) b e where "to_lower piece = ''p''" "reach a 1 (0, pawn_dir turn) e" "reach a 1 (0, 2 * pawn_dir turn) b"
      "board ! e = []" "board ! b = []" "rank_of a = pawn_start turn" "m = plain_move a b piece None"
  | (take) b where "to_lower piece = ''p''" "aims board a b" "board ! b \<noteq> []" "color_of (board ! b) = opposite turn"
      "m \<in> set (add_pawn_move (plain_move a b piece (Some (board ! b))))" "\<exists>df \<in> {-1, 1}. reach a 1 (df, pawn_dir turn) b"
  | (passing) b where "to_lower piece = ''p''" "board ! b = []" "po_ep p = Some b"
      "m = (plain_move a b piece (Some (own ''p'' (opposite turn))))\<lparr>mv_enPassant := True\<rparr>" "\<exists>df \<in> {-1, 1}. reach a 1 (df, pawn_dir turn) b"
  | (king_side) "to_lower piece = ''k''" "a = home turn" "m = (plain_move a (a + 2) piece None)\<lparr>mv_castle := Some KingSide\<rparr>"
      "board ! (a + 1) = []" "board ! (a + 2) = []" "board ! (a + 3) = own ''r'' turn"
  | (queen_side) "to_lower piece = ''k''" "a = home turn" "m = (plain_move a (a - 2) piece None)\<lparr>mv_castle := Some QueenSide\<rparr>"
      "board ! (a - 1) = []" "board ! (a - 2) = []" "board ! (a - 3) = []" "board ! (a - 4) = own ''r'' turn"
proof (cases "to_lower piece = ''p''")
  case True
  have turn: "color_of piece = turn" using moves_from_own[OF assms(1)] by (simp add: piece_def turn_def)
  have "m \<in> set (pawn_pushes p a piece) \<or> (\<exists>df \<in> {-1, 1}. m \<in> set (pawn_captures p a piece df))"
    using assms(1) True by (auto simp: moves_from_def Let_def piece_def split: if_splits)
  then show ?thesis
  proof
    assume "m \<in> set (pawn_pushes p a piece)"
    then show ?thesis using True push double unfolding pawn_pushes_iff board_def turn_def by blast
  next
    assume "\<exists>df \<in> {-1, 1}. m \<in> set (pawn_captures p a piece df)"
    then obtain df b where df: "df \<in> {-1, 1}" "reach a 1 (df, pawn_dir turn) b"
        "(board ! b \<noteq> [] \<and> color_of (board ! b) = opposite turn \<and> m \<in> set (add_pawn_move (plain_move a b piece (Some (board ! b))))) \<or>
         (board ! b = [] \<and> po_ep p = Some b \<and> m = (plain_move a b piece (Some (own ''p'' (opposite turn))))\<lparr>mv_enPassant := True\<rparr>)"
      unfolding pawn_captures_iff board_def turn_def by blast
    then have r: "\<exists>df \<in> {-1, 1}. reach a 1 (df, pawn_dir turn) b" by blast
    then have "aims board a b" using True turn by (simp add: aims_def piece_def board_def)
    then show ?thesis using df(3) r True take passing by blast
  qed
next
  case False
  have piece: "piece \<noteq> []" "color_of piece = turn" using moves_from_own[OF assms(1)] by (simp_all add: piece_def turn_def)
  have pb: "po_board p ! a = piece" by (simp add: piece_def)
  note set' = moves_from_officer[OF pb piece(1) piece(2)[unfolded turn_def] refl False]
  consider "m \<in> set (if to_lower piece = ''n'' then concat (map (step_move p a piece) knight_steps)
      else if to_lower piece = ''k'' then concat (map (step_move p a piece) king_steps)
      else concat (map (\<lambda>d. slide_moves p a piece d steps) (line_dirs (to_lower piece))))"
    | "to_lower piece = ''k''" "m \<in> set (castle_moves p a piece)"
    using assms(1) unfolding set' by (cases "to_lower piece = ''k''") auto
  then show ?thesis
  proof cases
    case 1
    then obtain b where "aims board a b" "goes_to p a piece b m"
      using officer_moves[OF valid _ refl, of piece m] piece False unfolding board_def piece_def by blast
    then show ?thesis using goes False by blast
  next
    case 2
    then show ?thesis using castle_moves_cases[OF 2(2)] king_side queen_side unfolding board_def turn_def by blast
  qed
qed

subsection \<open>Attacks are captures\<close>

lemma pawn_move_fields:
  assumes "m \<in> set (add_pawn_move (plain_move a b piece captured))"
  shows "mv_from m = a \<and> mv_to m = b \<and> mv_piece m = piece \<and> mv_captured m = captured \<and> mv_castle m = None \<and> \<not> mv_enPassant m \<and>
    (mv_promotion m = None \<or> (\<exists>q \<in> set promotions. mv_promotion m = Some q))"
  using assms by (auto simp: add_pawn_move_def plain_move_def split: if_splits)

lemma pawn_move_exists: "\<exists>m. m \<in> set (add_pawn_move m0)"
  by (auto simp: add_pawn_move_def promotions_def)

lemma goes_to_fields:
  "goes_to p a piece b m \<Longrightarrow> mv_from m = a \<and> mv_to m = b \<and> mv_piece m = piece \<and> mv_castle m = None \<and> \<not> mv_enPassant m \<and> mv_promotion m = None \<and>
    mv_captured m = (if po_board p ! b = [] then None else Some (po_board p ! b)) \<and>
    (po_board p ! b \<noteq> [] \<longrightarrow> color_of (po_board p ! b) = opposite (po_turn p))"
  by (auto simp: goes_to_def plain_move_def split: if_splits)

lemma take_needs_aim:
  assumes board: "valid_board (po_board p)" "a < 64" and m: "m \<in> set (moves_from p a)" and target: "po_board p ! mv_to m \<noteq> []"
  shows "aims (po_board p) a (mv_to m) \<and> mv_captured m = Some (po_board p ! mv_to m) \<and>
    color_of (po_board p ! mv_to m) = opposite (po_turn p)"
  using m valid_at[OF board]
proof (cases rule: moves_from_cases)
  case (goes b)
  then show ?thesis using goes_to_fields[OF goes(3)] target by auto
next
  case (take b)
  then show ?thesis using pawn_move_fields[OF take(5)] by simp
next
  case (push b)
  then show ?thesis using pawn_move_fields[OF push(4)] target by simp
qed (use target in \<open>simp_all add: plain_move_def\<close>)

lemma aim_gives_take:
  assumes board: "valid_board (po_board p)" "a < 64" and piece: "po_board p ! a \<noteq> []" "color_of (po_board p ! a) = po_turn p"
    and aim: "aims (po_board p) a b" and target: "po_board p ! b \<noteq> []" "color_of (po_board p ! b) = opposite (po_turn p)"
  shows "\<exists>m \<in> set (moves_from p a). mv_to m = b"
proof (cases "to_lower (po_board p ! a) = ''p''")
  case True
  then obtain df where df: "df \<in> {-1, 1}" "reach a 1 (df, pawn_dir (po_turn p)) b"
    using aim piece(2) by (auto simp: aims_def Let_def)
  obtain m where m: "m \<in> set (add_pawn_move (plain_move a b (po_board p ! a) (Some (po_board p ! b))))" using pawn_move_exists by blast
  then have "m \<in> set (pawn_captures p a (po_board p ! a) df)" unfolding pawn_captures_iff using df(2) target by blast
  then have "m \<in> set (moves_from p a)" using df(1) piece True by (auto simp: moves_from_def Let_def)
  then show ?thesis using pawn_move_fields[OF m] by blast
next
  case False
  let ?m = "plain_move a b (po_board p ! a) (Some (po_board p ! b))"
  have "goes_to p a (po_board p ! a) b ?m" using target by (simp add: goes_to_def)
  then have "?m \<in> set (moves_from p a)"
    using officer_moves[OF valid_at[OF board] piece(1) refl False, of "po_board p ! a" ?m] aim
    unfolding moves_from_officer[OF refl piece refl False] by blast
  moreover have "mv_to ?m = b" by (simp add: plain_move_def)
  ultimately show ?thesis by blast
qed

text \<open>
  C11. Attacks are captures. On any board, a square that holds an enemy piece is attacked by the side to
  move, as \<open>isSquareAttacked\<close> looks outwards from the square, exactly when move generation, which looks
  outwards from every piece, finds a move to it.
\<close>

theorem attack_is_capture:
  assumes "valid_board (po_board p)" "sq < 64" "po_board p ! sq \<noteq> []" "color_of (po_board p ! sq) = opposite (po_turn p)"
  shows "is_square_attacked (po_board p) sq (po_turn p) \<longleftrightarrow> (\<exists>m \<in> set (pseudo_legal_moves p). mv_to m = sq)"
proof
  assume "is_square_attacked (po_board p) sq (po_turn p)"
  then obtain a where "a < 64" "po_board p ! a \<noteq> []" "color_of (po_board p ! a) = po_turn p" "aims (po_board p) a sq"
    using attacked_iff[OF assms(1,2)] by blast
  from aim_gives_take[OF assms(1) this assms(3,4)] \<open>a < 64\<close>
  show "\<exists>m \<in> set (pseudo_legal_moves p). mv_to m = sq" by (auto simp: pseudo_legal_moves_def)
next
  assume "\<exists>m \<in> set (pseudo_legal_moves p). mv_to m = sq"
  then obtain m a where m: "a < 64" "m \<in> set (moves_from p a)" "mv_to m = sq" by (auto simp: pseudo_legal_moves_def)
  then show "is_square_attacked (po_board p) sq (po_turn p)"
    using take_needs_aim[OF assms(1) m(1,2)] assms(3) moves_from_own[OF m(2)] attacked_iff[OF assms(1,2)] by blast
qed

subsection \<open>Proper positions\<close>

definition proper_board :: "board \<Rightarrow> bool" where
  "proper_board board = (valid_board board \<and> (\<forall>c. count_list board (own ''k'' c) = 1))"

definition proper_passing :: "position \<Rightarrow> bool" where
  "proper_passing p = (\<forall>e. po_ep p = Some e \<longrightarrow> e < 64 \<and> rank_of e = (if po_turn p = White then 5 else 2) \<and> po_board p ! e = [] \<and>
     po_board p ! nat (int e - 8 * pawn_dir (po_turn p)) = own ''p'' (opposite (po_turn p)))"

definition proper_castling :: "string \<Rightarrow> bool" where
  "proper_castling castling = (\<exists>P. castling = filter P all_rights)"

definition proper :: "position \<Rightarrow> bool" where
  "proper p = (proper_board (po_board p) \<and> proper_passing p \<and> proper_castling (po_castling p) \<and> 1 \<le> po_fullmove p \<and>
     \<not> is_in_check p (opposite (po_turn p)))"

lemma index_of_unique:
  "count_list xs x = 1 \<Longrightarrow> i < length xs \<Longrightarrow> xs ! i = x \<Longrightarrow> index_of x xs = Some i"
proof (induction xs arbitrary: i)
  case (Cons y ys)
  show ?case
  proof (cases i)
    case (Suc j)
    then have j: "j < length ys" "ys ! j = x" using Cons.prems(2,3) by simp_all
    then have "x \<in> set ys" by auto
    then have "count_list ys x \<noteq> 0" by (simp add: count_list_0_iff)
    then have "x \<noteq> y" "count_list ys x = 1" using Cons.prems(1) by (auto split: if_splits)
    then show ?thesis using Cons.IH[OF _ j] Suc by simp
  qed (use Cons.prems in simp)
qed simp

lemma king_safe:
  assumes "proper p" "a < 64" "po_board p ! a \<noteq> []" "color_of (po_board p ! a) = po_turn p" "aims (po_board p) a b"
  shows "po_board p ! b \<noteq> own ''k'' (opposite (po_turn p))"
proof
  let ?c = "opposite (po_turn p)"
  assume k: "po_board p ! b = own ''k'' ?c"
  have valid: "valid_board (po_board p)" and one: "count_list (po_board p) (own ''k'' ?c) = 1"
    using assms(1) by (simp_all add: proper_def proper_board_def)
  have b: "b < 64" using aims_moves[OF assms(5)] by simp
  then have "index_of (own ''k'' ?c) (po_board p) = Some b"
    using index_of_unique[OF one _ k] valid by (simp add: valid_board_def)
  moreover have "is_square_attacked (po_board p) b (po_turn p)" using attacked_iff[OF valid b] assms(2-5) by blast
  ultimately show False using assms(1) by (simp add: proper_def is_in_check_def)
qed

lemma count_update:
  assumes "i < length xs"
  shows "count_list (xs[i := y]) z + (if xs ! i = z then 1 else 0) = count_list xs z + (if y = z then 1 else 0)"
  using assms
proof (induction xs arbitrary: i)
  case (Cons x xs)
  show ?case
  proof (cases i)
    case (Suc j)
    then show ?thesis using Cons.IH[of j] Cons.prems by (auto split: if_splits)
  qed simp
qed simp

lemma count_keep:
  "i < length xs \<Longrightarrow> xs ! i \<noteq> z \<Longrightarrow> y \<noteq> z \<Longrightarrow> count_list (xs[i := y]) z = count_list xs z"
  using count_update[of i xs y z] by simp

lemma count_swap:
  assumes "i < length xs" "j < length xs" "i \<noteq> j" "xs ! j \<noteq> z" "y \<noteq> z"
  shows "count_list (xs[i := y, j := xs ! i]) z = count_list xs z"
proof -
  have "count_list (xs[i := y, j := xs ! i]) z + 0 = count_list (xs[i := y]) z + (if xs ! i = z then 1 else 0)"
    using count_update[of j "xs[i := y]" "xs ! i" z] assms by simp
  moreover have "count_list (xs[i := y]) z + (if xs ! i = z then 1 else 0) = count_list xs z"
    using count_update[of i xs y z] assms by simp
  ultimately show ?thesis by simp
qed

subsection \<open>Legal moves keep a position proper\<close>

lemma valid_update: "valid_board board \<Longrightarrow> valid_piece x \<Longrightarrow> valid_board (board[i := x])"
  using set_update_subset_insert[of board i x] by (auto simp: valid_board_def)

lemma valid_empty [simp]: "valid_piece []"
  by (simp add: valid_piece_def)

lemma own_king [simp]: "own ''k'' c \<noteq> []" "[] \<noteq> own ''k'' c"
  using own_facts[OF own_types(6), of c] by auto

lemma not_king: "to_lower s \<noteq> ''k'' \<Longrightarrow> s \<noteq> own ''k'' c"
  using own_facts[OF own_types(6), of c] by auto

lemma promotion_facts: "q \<in> set promotions \<Longrightarrow> valid_piece (own q c) \<and> own q c \<noteq> own ''k'' d"
proof -
  assume "q \<in> set promotions"
  then have "q \<in> set piece_types" "q \<noteq> ''k''" by (auto simp: promotions_def piece_types_def)
  then show ?thesis using own_facts[of q c] not_king[of "own q c" d] by auto
qed

lemma proper_update:
  assumes "proper_board board" "i < 64" "valid_piece x" "\<And>c. board ! i \<noteq> own ''k'' c" "\<And>c. x \<noteq> own ''k'' c"
  shows "proper_board (board[i := x])"
proof -
  have board: "valid_board board" "length board = 64" using assms(1) by (simp_all add: proper_board_def valid_board_def)
  have "count_list (board[i := x]) (own ''k'' c) = count_list board (own ''k'' c)" for c
    by (rule count_keep) (use assms board in simp_all)
  then show ?thesis using assms(1) valid_update[OF board(1) assms(3)] by (simp add: proper_board_def)
qed

lemma proper_swap:
  assumes board: "proper_board board" "a < 64" "b < 64" "a \<noteq> b" and target: "\<And>c. board ! b \<noteq> own ''k'' c"
  shows "proper_board (board[a := [], b := board ! a])"
proof -
  have valid: "valid_board board" using board(1) by (simp add: proper_board_def)
  then have "valid_board (board[a := [], b := board ! a])" using valid_at[OF valid board(2)] by (intro valid_update) simp_all
  moreover have "length board = 64" using valid by (simp add: valid_board_def)
  ultimately show ?thesis using count_swap[of a board b _ "[]"] board target by (simp add: proper_board_def)
qed

lemma proper_move:
  assumes board: "proper_board board" "a < 64" "b < 64" "a \<noteq> b" and target: "\<And>c. board ! b \<noteq> own ''k'' c"
    and x: "x = board ! a \<or> (to_lower (board ! a) = ''p'' \<and> (\<exists>q \<in> set promotions. x = own q turn))"
  shows "proper_board (board[a := [], b := x])"
  using x
proof
  assume "x = board ! a"
  then show ?thesis using proper_swap[OF board target] by simp
next
  assume p: "to_lower (board ! a) = ''p'' \<and> (\<exists>q \<in> set promotions. x = own q turn)"
  then have "board ! a \<noteq> own ''k'' c" for c by (intro not_king) simp
  then have "proper_board (board[a := []])" by (intro proper_update[OF board(1,2)]) simp_all
  moreover obtain q where "q \<in> set promotions" "x = own q turn" using p by blast
  moreover from this have "valid_piece x" "x \<noteq> own ''k'' c" for c using promotion_facts by simp_all
  ultimately show ?thesis using board(3,4) target by (intro proper_update[of "board[a := []]" b x]) simp_all
qed

lemma moved_plain:
  "mv_castle m = None \<Longrightarrow> \<not> mv_enPassant m \<Longrightarrow> moved_board p m = (po_board p)[mv_from m := [], mv_to m :=
     (case mv_promotion m of Some q \<Rightarrow> own q (po_turn p) | None \<Rightarrow> po_board p ! mv_from m)]"
  by (simp add: moved_board_def Let_def)

text \<open>What is on the target square is never a king.\<close>

lemma target_safe:
  assumes "proper p" "a < 64" "po_board p ! a \<noteq> []" "color_of (po_board p ! a) = po_turn p" "aims (po_board p) a b"
    "color_of (po_board p ! b) = opposite (po_turn p)"
  shows "po_board p ! b \<noteq> own ''k'' c"
proof (cases "c = po_turn p")
  case True
  have "color_of (own ''k'' c) = c" using own_facts[OF own_types(6)] by blast
  then show ?thesis using assms(6) True by auto
next
  case False
  then show ?thesis using king_safe[OF assms(1-5)] by simp
qed

lemma pawn_dir_opposite [simp]: "pawn_dir (opposite c) = - pawn_dir c"
  by (cases c) (simp_all add: pawn_dir_def)

lemma passing_none: "po_ep p = None \<Longrightarrow> proper_passing p"
  by (simp add: proper_passing_def)

text \<open>Moves that do not open an en passant square: all but the double step.\<close>

lemma make_move_passing:
  "to_lower (po_board p ! mv_from m) \<noteq> ''p'' \<or> \<bar>int (mv_to m) - int (mv_from m)\<bar> \<noteq> 16 \<Longrightarrow> proper_passing (make_move p m)"
  by (rule passing_none) (auto simp: make_move_def Let_def)

lemma step_small:
  assumes "\<exists>df \<in> {-1, 0, 1}. reach a 1 (df, pawn_dir c) b"
  shows "\<bar>int b - int a\<bar> \<noteq> 16 \<and> a \<noteq> b \<and> b < 64"
proof -
  obtain df where "df \<in> {-1, 0, 1}" "reach a 1 (df, pawn_dir c) b" using assms by blast
  then show ?thesis using reach_diff[of a "(df, pawn_dir c)" b] reach_bound by (auto simp: pawn_dir_def split: if_splits)
qed

lemma pawn_reach0: "reach a 1 (0, pawn_dir c) b \<Longrightarrow> \<exists>df \<in> {-1, 0, 1}. reach a 1 (df, pawn_dir c) b"
  by blast

lemma pawn_reach1: "\<exists>df \<in> {-1, 1}. reach a 1 (df, pawn_dir c) b \<Longrightarrow> \<exists>df \<in> {-1, 0, 1}. reach a 1 (df, pawn_dir c) b"
  by blast

definition keeps_board :: "position \<Rightarrow> chess_move \<Rightarrow> bool" where
  "keeps_board p m = (proper_board (moved_board p m) \<and> proper_passing (make_move p m))"

lemma empty_no_king: "board ! b = [] \<Longrightarrow> board ! b \<noteq> own ''k'' c"
  by simp

lemma keeps_plain:
  assumes board: "proper_board (po_board p)" "a < 64" "b < 64" "a \<noteq> b" and target: "\<And>c. po_board p ! b \<noteq> own ''k'' c"
    and m: "mv_from m = a" "mv_to m = b" "mv_castle m = None" "\<not> mv_enPassant m"
    and promo: "mv_promotion m = None \<or> (to_lower (po_board p ! a) = ''p'' \<and> (\<exists>q \<in> set promotions. mv_promotion m = Some q))"
  shows "proper_board (moved_board p m)"
proof -
  have "(case mv_promotion m of Some q \<Rightarrow> own q (po_turn p) | None \<Rightarrow> po_board p ! a) = po_board p ! a \<or>
      (to_lower (po_board p ! a) = ''p'' \<and> (\<exists>q \<in> set promotions. (case mv_promotion m of Some q \<Rightarrow> own q (po_turn p) | None \<Rightarrow> po_board p ! a)
        = own q (po_turn p)))"
    using promo by auto
  from proper_move[OF board target this] show ?thesis unfolding moved_plain[OF m(3,4)] m(1,2) .
qed

lemma keeps_double:
  assumes p: "proper_board (po_board p)" "a < 64" "po_board p ! a = own ''p'' (po_turn p)"
    and e: "reach a 1 (0, pawn_dir (po_turn p)) e" "reach a 1 (0, 2 * pawn_dir (po_turn p)) b" "po_board p ! e = []"
      "rank_of a = pawn_start (po_turn p)"
    and m: "m = plain_move a b (po_board p ! a) None"
  shows "proper_passing (make_move p m)"
proof -
  have len: "length (po_board p) = 64" using p(1) by (simp add: proper_board_def valid_board_def)
  have d: "int e = int a + 8 * pawn_dir (po_turn p)" "int b = int a + 16 * pawn_dir (po_turn p)"
    using reach_diff[OF e(1)] reach_diff[OF e(2)] by simp_all
  have ne: "e \<noteq> a" "e \<noteq> b" "e < 64" "b < 64"
    using d reach_bound[OF e(1)] reach_bound[OF e(2)] by (auto simp: pawn_dir_def split: if_splits)
  have abs: "\<bar>int b - int a\<bar> = 16" using d by (auto simp: pawn_dir_def)
  have ep: "po_ep (make_move p m) = Some e"
    using abs d(1) own_facts[OF own_types(1), of "po_turn p"] p(3) by (auto simp: make_move_def Let_def m plain_move_def)
  have turn: "po_turn (make_move p m) = opposite (po_turn p)" by (simp add: make_move_def Let_def)
  have board: "po_board (make_move p m) = (po_board p)[a := [], b := po_board p ! a]"
    by (simp add: make_move_def Let_def m plain_move_def moved_board_def)
  have rank: "rank_of e = (if opposite (po_turn p) = White then 5 else 2)"
    using e(1,4) by (cases "po_turn p") (auto simp: reach_def pawn_start_def pawn_dir_def)
  have behind: "nat (int e + 8 * pawn_dir (po_turn p)) = b" using d by simp
  show ?thesis unfolding proper_passing_def ep turn board using ne len e(3) p(2,3) rank behind by auto
qed

lemma keeps_passing:
  assumes p: "proper_board (po_board p)" "proper_passing p" "a < 64" "po_board p ! a = own ''p'' (po_turn p)" "po_ep p = Some b"
    "a \<noteq> b" "b < 64" and m: "m = (plain_move a b (po_board p ! a) (Some captured))\<lparr>mv_enPassant := True\<rparr>"
  shows "proper_board (moved_board p m)"
proof -
  let ?board = "po_board p" and ?v = "nat (int b - 8 * pawn_dir (po_turn p))"
  have b: "?board ! b = []" "rank_of b = (if po_turn p = White then 5 else 2)" "?board ! ?v = own ''p'' (opposite (po_turn p))"
    using p(2,5) by (simp_all add: proper_passing_def)
  have colors: "color_of (own ''p'' c) = c" "own ''p'' c \<noteq> []" "to_lower (own ''p'' c) = ''p''" for c using own_facts[OF own_types(1)] by blast+
  have v: "?v < 64" using b(2) p(7) by (auto simp: pawn_dir_def rank_of_def split: if_splits)
  have va: "?v \<noteq> a" using b(3) p(4) colors(1) by (metis opposite_simps(2))
  have vb: "?v \<noteq> b" using b(1,3) colors(2) by metis
  have king: "own ''p'' c \<noteq> own ''k'' d" for c d by (rule not_king) (simp add: colors(3))
  have cleared: "proper_board (?board[?v := []])"
    by (rule proper_update[OF p(1) v]) (simp_all add: b(3) king)
  have held: "?board[?v := []] ! a = ?board ! a" "?board[?v := []] ! b = []" using va vb b(1) by simp_all
  have "proper_board (?board[?v := [], a := [], b := ?board ! a])"
    using proper_swap[OF cleared p(3) p(7) p(6)] held by simp
  moreover have "moved_board p m = ?board[?v := [], a := [], b := ?board ! a]"
    using va by (simp add: moved_board_def Let_def m plain_move_def list_update_swap)
  ultimately show ?thesis by simp
qed

lemma keeps_castle:
  assumes p: "proper_board (po_board p)" "to_lower (po_board p ! a) = ''k''"
    and to': "a < 64" "b < 64" "r < 64" "t < 64" "a \<noteq> b" "r \<noteq> a" "r \<noteq> b" "t \<noteq> a" "t \<noteq> b" "r \<noteq> t" "po_board p ! b = []" "po_board p ! t = []"
      "po_board p ! r = own ''r'' (po_turn p)"
  shows "proper_board ((po_board p)[a := [], b := po_board p ! a, t := (po_board p)[a := [], b := po_board p ! a] ! r, r := []])"
proof -
  let ?board = "(po_board p)[a := [], b := po_board p ! a]" and ?rook = "own ''r'' (po_turn p)"
  have rook: "valid_piece ?rook" "?rook \<noteq> own ''k'' c" for c
    using own_facts[OF own_types(4), of "po_turn p"] by (simp, intro not_king, simp)
  have swap: "proper_board ?board" by (rule proper_swap[OF p(1)]) (use to' in simp_all)
  have held: "?board ! r = ?rook" "?board ! t = []" using to' by simp_all
  have "proper_board (?board[t := ?rook])" by (rule proper_update[OF swap]) (use to' held rook in simp_all)
  then have "proper_board (?board[t := ?rook, r := []])" by (rule proper_update) (use to' held rook in simp_all)
  then show ?thesis by (simp only: held(1))
qed

lemma home_bounds: "home c = 4 \<or> home c = 60"
  by (simp add: home_def)

lemma pawn_is_own: "valid_piece s \<Longrightarrow> s \<noteq> [] \<Longrightarrow> to_lower s = ''p'' \<Longrightarrow> color_of s = c \<Longrightarrow> s = own ''p'' c"
  using own_iff[OF _ _ own_types(1)] by blast

lemma pseudo_keeps:
  assumes p: "proper p" and a: "a < 64" and m: "m \<in> set (moves_from p a)"
  shows "proper_board (moved_board p m) \<and> proper_passing (make_move p m)"
proof -
  let ?piece = "po_board p ! a" and ?c = "po_turn p"
  have board: "proper_board (po_board p)" "valid_board (po_board p)" using p by (simp_all add: proper_def proper_board_def)
  have piece: "?piece \<noteq> []" "color_of ?piece = ?c" using moves_from_own[OF m] by auto
  note valid = valid_at[OF board(2) a]
  note enemy = target_safe[OF p a piece]
  from m valid show ?thesis
  proof (cases rule: moves_from_cases)
    case (goes b)
    note f = goes_to_fields[OF goes(3)] and ab = aims_moves[OF goes(2)]
    have "po_board p ! b \<noteq> own ''k'' c" for c using enemy[OF goes(2)] f by (cases "po_board p ! b = []") auto
    then have "proper_board (moved_board p m)" using keeps_plain[OF board(1) a] ab f by blast
    moreover have "proper_passing (make_move p m)" by (rule make_move_passing) (use goes(1) f in simp)
    ultimately show ?thesis by blast
  next
    case (push b)
    note f = pawn_move_fields[OF push(4)] and ab = step_small[OF pawn_reach0[OF push(2)]]
    have "proper_board (moved_board p m)" using keeps_plain[OF board(1) a] empty_no_king[OF push(3)] ab f push(1) by blast
    moreover have "proper_passing (make_move p m)" by (rule make_move_passing) (use ab f in simp)
    ultimately show ?thesis by blast
  next
    case (double b e)
    have f: "mv_from m = a" "mv_to m = b" "mv_castle m = None" "\<not> mv_enPassant m" "mv_promotion m = None"
      by (simp_all add: double(7) plain_move_def)
    have "int b = int a + 16 * pawn_dir ?c" using reach_diff[OF double(3)] by simp
    then have "a \<noteq> b" by (auto simp: pawn_dir_def split: if_splits)
    then have "proper_board (moved_board p m)"
      using keeps_plain[OF board(1) a] empty_no_king[OF double(5)] reach_bound[OF double(3)] f by blast
    moreover have "?piece = own ''p'' ?c" by (rule pawn_is_own[OF valid piece(1) double(1) piece(2)])
    ultimately show ?thesis using keeps_double[OF board(1) a _ double(2,3,4,6,7)] by blast
  next
    case (take b)
    note f = pawn_move_fields[OF take(5)] and ab = step_small[OF pawn_reach1[OF take(6)]]
    have "proper_board (moved_board p m)" using keeps_plain[OF board(1) a] enemy[OF take(2,4)] ab f take(1) by blast
    moreover have "proper_passing (make_move p m)" by (rule make_move_passing) (use ab f in simp)
    ultimately show ?thesis by blast
  next
    case (passing b)
    note ab = step_small[OF pawn_reach1[OF passing(5)]]
    have "?piece = own ''p'' ?c" by (rule pawn_is_own[OF valid piece(1) passing(1) piece(2)])
    then have "proper_board (moved_board p m)"
      using keeps_passing[OF board(1) _ a _ passing(3) _ _ passing(4)] ab p by (simp add: proper_def)
    moreover have "proper_passing (make_move p m)" by (rule make_move_passing) (use ab in \<open>simp add: passing(4) plain_move_def\<close>)
    ultimately show ?thesis by blast
  next
    case king_side
    have sq: "a < 64" "a + 2 < 64" "a + 3 < 64" "a + 1 < 64" using king_side(2) home_bounds[of ?c] by auto
    have "moved_board p m = (po_board p)[a := [], a + 2 := ?piece, a + 1 := (po_board p)[a := [], a + 2 := ?piece] ! (a + 3), a + 3 := []]"
      by (simp add: moved_board_def Let_def king_side(3) plain_move_def)
    then have "proper_board (moved_board p m)"
      using keeps_castle[OF board(1) king_side(1) sq(1,2,3,4)] king_side(4-6) by simp
    moreover have "proper_passing (make_move p m)"
      by (rule make_move_passing) (use king_side(1) in \<open>simp add: king_side(3) plain_move_def\<close>)
    ultimately show ?thesis by blast
  next
    case queen_side
    have sq: "a < 64" "a - 2 < 64" "a - 4 < 64" "a - 1 < 64" "4 \<le> a" using queen_side(2) home_bounds[of ?c] by auto
    have "moved_board p m = (po_board p)[a := [], a - 2 := ?piece, a - 1 := (po_board p)[a := [], a - 2 := ?piece] ! (a - 4), a - 4 := []]"
      by (simp add: moved_board_def Let_def queen_side(3) plain_move_def)
    then have "proper_board (moved_board p m)"
      using keeps_castle[OF board(1) queen_side(1) sq(1,2,3,4)] queen_side(4-7) sq(5) by simp
    moreover have "proper_passing (make_move p m)"
      by (rule make_move_passing) (use queen_side(1) in \<open>simp add: queen_side(3) plain_move_def\<close>)
    ultimately show ?thesis by blast
  qed
qed

lemma castling_filter: "proper_castling s \<Longrightarrow> proper_castling (filter P s)"
  by (auto simp: proper_castling_def)

lemma castling_drop: "proper_castling s \<Longrightarrow> proper_castling (drop_right square s)"
proof -
  assume s: "proper_castling s"
  have "distinct all_rights" by (simp add: all_rights_def)
  then have "distinct s" using s by (auto simp: proper_castling_def)
  then have "remove1 c s = filter (\<lambda>d. d \<noteq> c) s" for c by (auto simp: distinct_remove1_removeAll removeAll_filter_not_eq intro: filter_cong)
  then show ?thesis using s castling_filter by (auto simp: drop_right_def split: option.splits)
qed

lemma moved_castling_proper: "proper_castling (po_castling p) \<Longrightarrow> proper_castling (moved_castling p m)"
  unfolding moved_castling_def Let_def by (intro castling_drop) (simp add: castling_filter)

lemma legal_keeps_proper:
  assumes p: "proper p" and m: "m \<in> set (legal_moves p)"
  shows "proper (make_move p m)"
proof -
  obtain a where a: "a < 64" "m \<in> set (moves_from p a)" using m by (auto simp: legal_moves_def pseudo_legal_moves_def)
  have "\<not> is_in_check (make_move p m) (po_turn p)" using m by (simp add: legal_moves_def)
  moreover have "proper_castling (moved_castling p m)" using p by (intro moved_castling_proper) (simp add: proper_def)
  ultimately show ?thesis using pseudo_keeps[OF p a] p by (simp add: proper_def make_move_def Let_def)
qed

subsection \<open>Play\<close>

text \<open>The positions a game can reach: from the start, one legal move after the other.\<close>

inductive played :: "position \<Rightarrow> position \<Rightarrow> bool" for p0 where
  begins: "played p0 p0"
| moves: "played p0 p \<Longrightarrow> m \<in> set (legal_moves p) \<Longrightarrow> played p0 (make_move p m)"

text \<open>
  C6. Every game stays proper. After any number of legal moves the board has 64 squares with one king of
  each colour; the castling rights are a part of \<open>KQkq\<close> in that order; an en passant square is empty and
  lies behind an enemy pawn; and the side that just moved is not in check, so no king is ever taken.
\<close>

theorem play_stays_proper:
  assumes "proper p0" "played p0 p"
  shows "length (po_board p) = 64 \<and> (\<forall>s \<in> set (po_board p). valid_piece s) \<and> (\<forall>c. count_list (po_board p) (own ''k'' c) = 1) \<and>
    (\<exists>P. po_castling p = filter P all_rights) \<and> \<not> is_in_check p (opposite (po_turn p)) \<and>
    (\<forall>e. po_ep p = Some e \<longrightarrow> e < 64 \<and> po_board p ! e = [] \<and>
       po_board p ! nat (int e - 8 * pawn_dir (po_turn p)) = own ''p'' (opposite (po_turn p)))"
proof -
  have "proper p" using assms(2,1) by induction (auto intro: legal_keeps_proper)
  then show ?thesis by (auto simp: proper_def proper_board_def valid_board_def proper_passing_def proper_castling_def)
qed

text \<open>The start position, and its first move.\<close>

definition start_position :: position where
  "start_position = (case parse_fen start_fen of Inr p \<Rightarrow> p)"

lemma start_proper: "proper start_position"
proof -
  have "list_all (\<lambda>s. s = [] \<or> (length s = 1 \<and> is_piece (hd s))) (po_board start_position)" "length (po_board start_position) = 64"
    "count_list (po_board start_position) (own ''k'' White) = 1" "count_list (po_board start_position) (own ''k'' Black) = 1"
    "po_castling start_position = all_rights" "po_ep start_position = None" "1 \<le> po_fullmove start_position"
    "\<not> is_in_check start_position (opposite (po_turn start_position))" by code_simp+
  moreover have "valid_piece s" if "s = [] \<or> (length s = 1 \<and> is_piece (hd s))" for s
    using that by (cases s) (auto simp: valid_piece_def)
  moreover have "\<exists>P. all_rights = filter P all_rights" by (rule exI[of _ "\<lambda>_. True"]) simp
  moreover have "(\<forall>c. Q c) \<longleftrightarrow> Q White \<and> Q Black" for Q using chess_color.exhaust by metis
  ultimately show ?thesis
    by (auto simp: proper_def proper_board_def valid_board_def proper_passing_def proper_castling_def list_all_iff)
qed

definition e4 :: chess_move where
  "e4 = plain_move 12 28 ''P'' None"

lemma e4_legal: "e4 \<in> set (legal_moves start_position)"
proof -
  have "e4 \<in> set (moves_from start_position 12)" "\<not> is_in_check (make_move start_position e4) (po_turn start_position)" by code_simp+
  then show ?thesis by (auto simp: legal_moves_def pseudo_legal_moves_def intro!: bexI[of _ 12])
qed

theorem play_stays_proper_witness:
  "po_ep (make_move start_position e4) = Some 20 \<and> po_board (make_move start_position e4) ! 20 = []"
proof -
  have "po_ep (make_move start_position e4) = Some 20" by code_simp
  with play_stays_proper[OF start_proper moves[OF begins e4_legal]] show ?thesis by blast
qed

theorem attack_is_capture_witness:
  "case parse_fen ''k7/8/8/8/8/8/r7/R6K w - - 0 1'' of Inl e \<Rightarrow> False
   | Inr p \<Rightarrow> \<exists>m \<in> set (pseudo_legal_moves p). mv_to m = 8"
proof -
  have "case parse_fen ''k7/8/8/8/8/8/r7/R6K w - - 0 1'' of Inl e \<Rightarrow> False
     | Inr p \<Rightarrow> length (po_board p) = 64 \<and> list_all (\<lambda>s. s = [] \<or> (length s = 1 \<and> is_piece (hd s))) (po_board p) \<and>
         po_board p ! 8 \<noteq> [] \<and> color_of (po_board p ! 8) = opposite (po_turn p) \<and> is_square_attacked (po_board p) 8 (po_turn p)" by code_simp
  then obtain p where p: "parse_fen ''k7/8/8/8/8/8/r7/R6K w - - 0 1'' = Inr p" "length (po_board p) = 64"
      "list_all (\<lambda>s. s = [] \<or> (length s = 1 \<and> is_piece (hd s))) (po_board p)" "po_board p ! 8 \<noteq> []"
      "color_of (po_board p ! 8) = opposite (po_turn p)" "is_square_attacked (po_board p) 8 (po_turn p)"
    by (auto split: sum.splits)
  have "valid_piece s" if "s = [] \<or> (length s = 1 \<and> is_piece (hd s))" for s
    using that by (cases s) (auto simp: valid_piece_def)
  then have "valid_board (po_board p)" using p(2,3) by (auto simp: valid_board_def list_all_iff)
  from attack_is_capture[OF this _ p(4,5)] p(1,6) show ?thesis by simp
qed

end
