(* ===== verification/Chess_Fen.thy ===== *)
theory Chess_Fen
  imports Chess_Play
begin

text \<open>Reading a FEN that was printed gives the position back.\<close>

subsection \<open>Numbers and words\<close>

lemma digit_char: "d < 10 \<Longrightarrow> digit_of (char_of (48 + d)) = d \<and> is_digit (char_of (48 + d))"
  by (simp add: digit_of_def is_digit_def Let_def)

lemma show_digits: "show_nat n \<noteq> [] \<and> list_all is_digit (show_nat n) \<and> digits_value (show_nat n) = n"
proof (induction n rule: show_nat.induct)
  case (1 n)
  show ?case
  proof (cases "n < 10")
    case True
    then show ?thesis using digit_char[of n] by (subst (1 2 3) show_nat.simps) (simp add: digits_value_def)
  next
    case False
    then have ih: "list_all is_digit (show_nat (n div 10))" "digits_value (show_nat (n div 10)) = n div 10" using 1 by simp_all
    have d: "digit_of (char_of (48 + n mod 10)) = n mod 10" "is_digit (char_of (48 + n mod 10))" using digit_char[of "n mod 10"] by simp_all
    have "show_nat n = show_nat (n div 10) @ [char_of (48 + n mod 10)]" using False by (subst show_nat.simps) simp
    then show ?thesis using ih d by (simp add: digits_value_def)
  qed
qed

lemma digit_not: "is_digit c \<Longrightarrow> \<not> is_space c \<and> c \<notin> set ''+-/''"
proof -
  assume "is_digit c"
  then have "48 \<le> (of_char c :: nat)" "(of_char c :: nat) \<le> 57" by (simp_all add: is_digit_def Let_def)
  moreover have "(of_char (CHR ''+'') :: nat) = 43" "(of_char (CHR ''-'') :: nat) = 45" "(of_char (CHR ''/'') :: nat) = 47" by code_simp+
  ultimately show ?thesis by (auto simp: is_space_def Let_def)
qed

lemma parse_shown: "parse_int (show_nat n) = Some (int n)"
proof -
  obtain c cs where s: "show_nat n = c # cs" using show_digits[of n] by (cases "show_nat n") auto
  have all: "list_all is_digit (c # cs)" "digits_value (c # cs) = n" using show_digits[of n] s by simp_all
  have c: "\<not> is_space c" "c \<noteq> CHR ''+''" "c \<noteq> CHR ''-''" using digit_not[of c] all(1) by auto
  have "takeWhile is_digit (c # cs) = c # cs" using all(1) unfolding list_all_iff by (intro takeWhile_eq_all_conv[THEN iffD2]) blast
  then show ?thesis using all(2) c by (simp add: parse_int_def s Let_def)
qed

lemma counter_shown: "least \<le> int n \<Longrightarrow> counter least (parse_int (show_nat n)) = n"
  by (simp add: counter_def parse_shown)

definition word :: "string \<Rightarrow> bool" where
  "word w = (w \<noteq> [] \<and> (\<forall>c \<in> set w. \<not> is_space c))"

lemma shown_word: "word (show_nat n)"
  using show_digits[of n] digit_not by (auto simp: word_def list_all_iff)

lemma split_word: "word w \<Longrightarrow> split_spaces w = [w]"
  by (subst split_spaces.simps) (simp add: word_def dropWhile_eq_Nil_conv[THEN iffD2])

lemma split_cons:
  assumes "word w" "rest \<noteq> []" "\<not> is_space (hd rest)"
  shows "split_spaces (w @ CHR '' '' # rest) = w # split_spaces rest"
proof -
  have sp: "is_space (CHR '' '')" by code_simp
  have "dropWhile (\<lambda>c. \<not> is_space c) (w @ CHR '' '' # rest) = CHR '' '' # rest"
      "takeWhile (\<lambda>c. \<not> is_space c) (w @ CHR '' '' # rest) = w"
    using assms(1) sp by (auto simp: word_def dropWhile_append3 takeWhile_append2)
  moreover have "dropWhile is_space (CHR '' '' # rest) = rest" using sp assms(2,3) by (cases rest) auto
  ultimately show ?thesis by (subst split_spaces.simps) simp
qed

lemma join_head: "word w \<Longrightarrow> join_with '' '' (w # ws) \<noteq> [] \<and> \<not> is_space (hd (join_with '' '' (w # ws)))"
  by (cases ws; cases w) (auto simp: word_def)

lemma split_joined: "ws \<noteq> [] \<Longrightarrow> \<forall>w \<in> set ws. word w \<Longrightarrow> split_spaces (join_with '' '' ws) = ws"
proof (induction "'' ''" ws rule: join_with.induct)
  case (3 w v ws)
  then show ?case using split_cons[of w "join_with '' '' (v # ws)"] join_head[of v ws] by simp
qed (auto intro: split_word)

lemma join_last: "ws \<noteq> [] \<Longrightarrow> \<forall>w \<in> set ws. word w \<Longrightarrow> join_with '' '' ws \<noteq> [] \<and> \<not> is_space (last (join_with '' '' ws))"
  by (induction "'' ''" ws rule: join_with.induct) (auto simp: word_def)

lemma trim_word: "s \<noteq> [] \<Longrightarrow> \<not> is_space (hd s) \<Longrightarrow> \<not> is_space (last s) \<Longrightarrow> js_trim s = s"
proof -
  assume s: "s \<noteq> []" "\<not> is_space (hd s)" "\<not> is_space (last s)"
  then have "dropWhile is_space s = s" by (cases s) auto
  moreover have "dropWhile is_space (rev s) = rev s" using s by (cases "rev s") (auto simp: last_conv_nth hd_rev[symmetric] hd_conv_nth)
  ultimately show ?thesis by (simp add: js_trim_def)
qed

lemma trim_joined: "ws \<noteq> [] \<Longrightarrow> \<forall>w \<in> set ws. word w \<Longrightarrow> js_trim (join_with '' '' ws) = join_with '' '' ws"
proof -
  assume ws: "ws \<noteq> []" "\<forall>w \<in> set ws. word w"
  then obtain v vs where "ws = v # vs" "word v" by (cases ws) auto
  then show ?thesis using join_head[of v vs] join_last[OF ws] by (intro trim_word) auto
qed

lemma split_on_word: "c \<notin> set w \<Longrightarrow> split_on c w = [w]"
  by (induction w) auto

lemma split_on_cons: "c \<notin> set w \<Longrightarrow> split_on c (w @ c # s) = w # split_on c s"
  by (induction w) auto

lemma split_on_joined: "ws \<noteq> [] \<Longrightarrow> \<forall>w \<in> set ws. c \<notin> set w \<Longrightarrow> split_on c (join_with [c] ws) = ws"
proof (induction "[c]" ws rule: join_with.induct)
  case (3 w v ws)
  then show ?case using split_on_cons[of c w] by simp
qed (auto intro: split_on_word)

subsection \<open>Ranks\<close>

lemma small_digit: "0 < g \<Longrightarrow> g \<le> 8 \<Longrightarrow> \<exists>c. show_nat g = [c] \<and> is_rank_digit c \<and> digit_of c = g"
  using digit_char[of g] by (subst show_nat.simps) (simp add: is_rank_digit_def)

lemma piece_chars: "is_piece c \<Longrightarrow> \<not> is_digit c \<and> \<not> is_rank_digit c \<and> \<not> is_space c \<and> c \<noteq> CHR ''/''"
proof -
  have "list_all (\<lambda>c. \<not> is_digit c \<and> \<not> is_rank_digit c \<and> \<not> is_space c \<and> c \<noteq> CHR ''/'') ''pnbrqkPNBRQK''" by code_simp
  then show "is_piece c \<Longrightarrow> ?thesis" unfolding list_all_iff is_piece_def by blast
qed

lemma place_gap:
  "g \<le> 8 \<Longrightarrow> place_row rank file board ((if g \<noteq> 0 then show_nat g else []) @ s) = place_row rank (file + g) board s"
  using small_digit[of g] by (cases "g = 0") auto

lemma place_fen_row:
  assumes "f + length ps = 8" "g \<le> f" "\<forall>s \<in> set ps. valid_piece s" "rank < 8" "length board = 64"
    "\<forall>j < length ps. board ! (rank * 8 + f + j) = []"
  shows "place_row rank (f - g) board (fen_row g ps) = Inr (take (rank * 8 + f) board @ ps @ drop (rank * 8 + 8) board)"
  using assms
proof (induction ps arbitrary: f g board)
  case Nil
  then have "place_row rank (f - g) board (fen_row g []) = place_row rank 8 board []"
    using place_gap[of g rank "f - g" board "[]"] by simp
  then show ?case using Nil by simp
next
  case (Cons s ps)
  let ?k = "rank * 8 + f"
  have k: "?k < 64" "?k < length board" using Cons.prems by auto
  have "board ! (?k + 0) = []" using Cons.prems(6) by blast
  then have b0: "board ! ?k = []" by simp
  have later: "\<forall>j < length ps. board ! (rank * 8 + Suc f + j) = []"
  proof (intro allI impI)
    fix j assume "j < length ps"
    then have "Suc j < length (s # ps)" by simp
    then have "board ! (?k + Suc j) = []" using Cons.prems(6) by blast
    then show "board ! (rank * 8 + Suc f + j) = []" by simp
  qed
  show ?case
  proof (cases s)
    case Nil
    have "place_row rank (Suc f - Suc g) board (fen_row (Suc g) ps) = Inr (take (rank * 8 + Suc f) board @ ps @ drop (rank * 8 + 8) board)"
      by (rule Cons.IH) (use Cons.prems later in auto)
    moreover have "take (Suc ?k) board = take ?k board @ [[]]" using k b0 by (simp add: take_Suc_conv_app_nth)
    ultimately show ?thesis using Nil by simp
  next
    case (Cons c cs)
    then have c: "s = [c]" "is_piece c" using Cons.prems(3) by (auto simp: valid_piece_def)
    let ?board = "board[?k := [c]]"
    have "place_row rank (Suc f - 0) ?board (fen_row 0 ps) = Inr (take (rank * 8 + Suc f) ?board @ ps @ drop (rank * 8 + 8) ?board)"
      by (rule Cons.IH) (use Cons.prems later in auto)
    moreover have "take (Suc ?k) ?board = take ?k board @ [[c]]" using k by (simp add: take_Suc_conv_app_nth)
    moreover have "drop (rank * 8 + 8) ?board = drop (rank * 8 + 8) board" using Cons.prems(1) by (intro drop_update_cancel) simp
    moreover have "place_row rank (f - g) board (fen_row g (s # ps)) = place_row rank (f - g + g) board ([c] @ fen_row 0 ps)"
      using place_gap[of g rank "f - g" board "[c] @ fen_row 0 ps"] c(1) Cons.prems(1,2) by simp
    ultimately show ?thesis using c piece_chars[OF c(2)] Cons.prems(1,2) by simp
  qed
qed

lemma board_row_drop: "length b = 64 \<Longrightarrow> r < 8 \<Longrightarrow> board_row b r @ drop (8 * Suc r) b = drop (8 * r) b"
proof -
  assume b: "length b = 64" "r < 8"
  have "board_row b r = take 8 (drop (8 * r) b)" by (rule nth_equalityI) (use b in \<open>auto simp: board_row_def algebra_simps\<close>)
  moreover have "take 8 (drop (8 * r) b) @ drop 8 (drop (8 * r) b) = drop (8 * r) b" by (rule append_take_drop_id)
  ultimately show ?thesis by (simp add: add.commute)
qed

lemma place_printed:
  assumes "valid_board b" "n \<le> 8"
  shows "place_rows (8 - n) (replicate (8 * n) [] @ drop (8 * n) b) (map (\<lambda>rank. fen_row 0 (board_row b rank)) (rev [0..<n])) = Inr b"
  using assms(2)
proof (induction n)
  case (Suc n)
  have b: "length b = 64" using assms(1) by (simp add: valid_board_def)
  let ?board = "replicate (8 * Suc n) [] @ drop (8 * Suc n) b"
  have "place_row n (0 - 0) ?board (fen_row 0 (board_row b n)) = Inr (take (n * 8 + 0) ?board @ board_row b n @ drop (n * 8 + 8) ?board)"
  proof (rule place_fen_row)
    have "set (board_row b n) \<subseteq> set b" using b Suc.prems by (auto simp: board_row_def)
    then show "\<forall>s \<in> set (board_row b n). valid_piece s" using assms(1) by (auto simp: valid_board_def)
    show "\<forall>j < length (board_row b n). ?board ! (n * 8 + 0 + j) = []" by (auto simp: board_row_def nth_append)
  qed (use b Suc.prems in \<open>auto simp: board_row_def\<close>)
  moreover have "take (n * 8) ?board = replicate (8 * n) []" by (simp add: min_def)
  moreover have "drop (n * 8 + 8) ?board = drop (8 * Suc n) b" by simp
  ultimately have "place_row n 0 ?board (fen_row 0 (board_row b n)) = Inr (replicate (8 * n) [] @ drop (8 * n) b)"
    using board_row_drop[OF b, of n] Suc.prems by simp
  moreover have "7 - (8 - Suc n) = n" "8 - Suc n + 1 = 8 - n" using Suc.prems by auto
  ultimately show ?case using Suc.IH Suc.prems by simp
qed simp

subsection \<open>Fields\<close>

lemma printed_chars:
  assumes "\<forall>s \<in> set ps. valid_piece s" "c \<in> set (fen_row g ps)"
  shows "\<not> is_space c \<and> c \<noteq> CHR ''/''"
  using assms
proof (induction ps arbitrary: g)
  case Nil
  then show ?case using show_digits[of g] digit_not by (auto simp: list_all_iff split: if_splits)
next
  case (Cons s ps)
  have "\<not> is_space d \<and> d \<noteq> CHR ''/''" if "d \<in> set (show_nat g)" for d
    using show_digits[of g] digit_not[of d] that by (auto simp: list_all_iff)
  moreover have "\<not> is_space d \<and> d \<noteq> CHR ''/''" if "d \<in> set s" for d
    using that Cons.prems(1) piece_chars[of d] by (auto simp: valid_piece_def)
  ultimately show ?case using Cons by (auto split: if_splits)
qed

lemma printed_nonempty: "g + length ps \<noteq> 0 \<Longrightarrow> fen_row g ps \<noteq> []"
  using show_digits by (induction ps arbitrary: g) auto

definition printed_rows :: "board \<Rightarrow> string list" where
  "printed_rows b = map (\<lambda>rank. fen_row 0 (board_row b rank)) (rev [0..<8])"

lemma row_valid: "valid_board b \<Longrightarrow> r < 8 \<Longrightarrow> s \<in> set (board_row b r) \<Longrightarrow> valid_piece s"
  by (auto simp: board_row_def valid_board_def)

lemma printed_row_chars: "valid_board b \<Longrightarrow> w \<in> set (printed_rows b) \<Longrightarrow> c \<in> set w \<Longrightarrow> \<not> is_space c \<and> c \<noteq> CHR ''/''"
  using printed_chars row_valid by (fastforce simp: printed_rows_def)

lemma join_chars: "c \<in> set (join_with sep ws) \<Longrightarrow> c \<in> set sep \<or> (\<exists>w \<in> set ws. c \<in> set w)"
  by (induction sep ws rule: join_with.induct) auto

lemma join_nonempty: "w \<noteq> [] \<Longrightarrow> join_with sep (w # ws) \<noteq> []"
  by (cases ws) auto

lemma board_word:
  assumes "valid_board b"
  shows "word (join_with ''/'' (printed_rows b))"
proof -
  have "rev [0..<8] = 7 # rev [0..<7::nat]" by code_simp
  then have "printed_rows b = fen_row 0 (board_row b 7) # map (\<lambda>rank. fen_row 0 (board_row b rank)) (rev [0..<7])"
    by (simp only: printed_rows_def list.map)
  moreover have "fen_row 0 (board_row b 7) \<noteq> []" by (rule printed_nonempty) (simp add: board_row_def)
  ultimately have "join_with ''/'' (printed_rows b) \<noteq> []"
    using join_nonempty by metis
  moreover have "\<not> is_space CHR ''/''" by code_simp
  ultimately show ?thesis using join_chars[of _ "''/''" "printed_rows b"] printed_row_chars[OF assms] by (auto simp: word_def)
qed

lemma split_board: "valid_board b \<Longrightarrow> split_on CHR ''/'' (join_with ''/'' (printed_rows b)) = printed_rows b"
  using printed_row_chars by (intro split_on_joined) (auto simp: printed_rows_def)

lemma place_board: "valid_board b \<Longrightarrow> place_rows 0 (replicate 64 []) (printed_rows b) = Inr b"
  using place_printed[of b 8] by (simp add: printed_rows_def valid_board_def)

lemma name_table: "list_all (\<lambda>e. parse_square (square_name e) = Some e \<and> length (square_name e) = 2 \<and>
    list_all (\<lambda>c. \<not> is_space c) (square_name e)) [0..<64]"
  by code_simp

lemma square_named: "e < 64 \<Longrightarrow> parse_square (square_name e) = Some e \<and> square_name e \<noteq> ''-'' \<and> word (square_name e)"
proof -
  assume "e < 64"
  then have "parse_square (square_name e) = Some e" "length (square_name e) = 2" "\<forall>c \<in> set (square_name e). \<not> is_space c"
    using name_table by (simp_all add: list_all_iff)
  then show ?thesis by (auto simp: word_def)
qed

lemma rights_table: "list_all (\<lambda>s. (s \<noteq> [] \<longrightarrow> word s \<and> s \<noteq> ''-'' \<and> length s \<le> 4 \<and> list_all (\<lambda>c. c \<in> set all_rights) s) \<and>
    filter (\<lambda>right. right \<in> set (if s = [] then ''-'' else s)) all_rights = s) (subseqs all_rights)"
  by code_simp

lemma filter_subseq: "filter P xs \<in> set (subseqs xs)"
  by (induction xs) (auto simp: Let_def)

lemma rights_printed:
  assumes "proper_castling s"
  shows "(s \<noteq> [] \<longrightarrow> word s \<and> s \<noteq> ''-'' \<and> length s \<le> 4 \<and> list_all (\<lambda>c. c \<in> set all_rights) s) \<and>
    filter (\<lambda>right. right \<in> set (if s = [] then ''-'' else s)) all_rights = s"
proof -
  have "s \<in> set (subseqs all_rights)" using assms filter_subseq by (auto simp: proper_castling_def)
  then show ?thesis using rights_table unfolding list_all_iff by blast
qed

lemma parse_fields:
  assumes "split_spaces (js_trim fen) = [rows, t, rights, e, h, f]" "length (split_on CHR ''/'' rows) = 8"
    and "place_rows 0 (replicate 64 []) (split_on CHR ''/'' rows) = Inr b" "count_list b ''K'' = 1" "count_list b ''k'' = 1"
    and "t = turn_name c"
    and "rights = ''-'' \<or> (1 \<le> length rights \<and> length rights \<le> 4 \<and> list_all (\<lambda>c. c \<in> set all_rights) rights)"
    and "(if e = ''-'' then None else parse_square e) = ep" "e = ''-'' \<or> ep \<noteq> None"
  shows "parse_fen fen = Inr \<lparr>po_board = b, po_turn = c, po_castling = filter (\<lambda>right. right \<in> set rights) all_rights, po_ep = ep,
    po_halfmove = counter 0 (parse_int h), po_fullmove = counter 1 (parse_int f)\<rparr>"
proof -
  have "t = ''w'' \<or> t = ''b''" "(if t = ''w'' then White else Black) = c" using assms(6) by (cases c; simp add: turn_name_def)+
  moreover have "(rights \<noteq> ''-'' \<and> \<not> (1 \<le> length rights \<and> length rights \<le> 4 \<and> list_all (\<lambda>c. c \<in> set all_rights) rights)) = False"
    "(e \<noteq> ''-'' \<and> ep = None) = False" using assms(7,9) by blast+
  moreover have "[rows, t, rights, e, h, f] ! 0 = rows" "[rows, t, rights, e, h, f] ! 1 = t" "[rows, t, rights, e, h, f] ! 2 = rights"
    "[rows, t, rights, e, h, f] ! 3 = e" "field [rows, t, rights, e, h, f] 4 ''0'' = h" "field [rows, t, rights, e, h, f] 5 ''1'' = f"
    "\<not> length [rows, t, rights, e, h, f] < 4" by (simp_all add: field_def)
  ultimately show ?thesis unfolding parse_fen_def assms(1) Let_def
    using assms(2-5,8) by (simp only: sum.case if_False not_False_eq_True simp_thms) metis
qed

text \<open>
  C19. FEN is a faithful record. Reading what \<open>toFen\<close> prints of a proper position gives back that very
  position: board, side to move, castling rights, en passant square and both counters.
\<close>

theorem fen_roundtrip:
  assumes "proper p"
  shows "parse_fen (to_fen p) = Inr p"
proof -
  have b: "valid_board (po_board p)" "count_list (po_board p) ''K'' = 1" "count_list (po_board p) ''k'' = 1"
  proof -
    have "own ''k'' White = ''K''" "own ''k'' Black = ''k''" by code_simp+
    then show "valid_board (po_board p)" "count_list (po_board p) ''K'' = 1" "count_list (po_board p) ''k'' = 1"
      using assms unfolding proper_def proper_board_def by (auto, metis+)
  qed
  let ?rows = "join_with ''/'' (printed_rows (po_board p))" and ?rights = "if po_castling p = [] then ''-'' else po_castling p"
  let ?ep = "case po_ep p of None \<Rightarrow> ''-'' | Some square \<Rightarrow> square_name square"
  let ?fields = "[?rows, turn_name (po_turn p), ?rights, ?ep, show_nat (po_halfmove p), show_nat (po_fullmove p)]"
  have castling: "proper_castling (po_castling p)" using assms by (simp add: proper_def)
  note rights = rights_printed[OF castling]
  have ep: "(if ?ep = ''-'' then None else parse_square ?ep) = po_ep p" "?ep \<noteq> ''-'' \<longrightarrow> po_ep p \<noteq> None" "word ?ep"
    using assms square_named by (auto simp: proper_def proper_passing_def word_def is_space_def split: option.splits)
  have "word ''-''" "word ''w''" "word ''b''" by code_simp+
  then have words: "\<forall>w \<in> set ?fields. word w"
    using board_word[OF b(1)] rights ep(3) shown_word by (auto simp: turn_name_def)
  have parts: "split_spaces (js_trim (to_fen p)) = ?fields"
    using trim_joined[OF _ words] split_joined[OF _ words] by (simp add: to_fen_def printed_rows_def)
  have one: "1 \<le> po_fullmove p" using assms by (simp add: proper_def)
  have rows: "length (split_on CHR ''/'' ?rows) = 8" "place_rows 0 (replicate 64 []) (split_on CHR ''/'' ?rows) = Inr (po_board p)"
    using split_board[OF b(1)] place_board[OF b(1)] by (simp_all add: printed_rows_def)
  have fields: "?rights = ''-'' \<or> (1 \<le> length ?rights \<and> length ?rights \<le> 4 \<and> list_all (\<lambda>c. c \<in> set all_rights) ?rights)"
    using rights by (cases "po_castling p") auto
  have "parse_fen (to_fen p) = Inr \<lparr>po_board = po_board p, po_turn = po_turn p,
      po_castling = filter (\<lambda>right. right \<in> set ?rights) all_rights, po_ep = po_ep p,
      po_halfmove = counter 0 (parse_int (show_nat (po_halfmove p))), po_fullmove = counter 1 (parse_int (show_nat (po_fullmove p)))\<rparr>"
    by (rule parse_fields[OF parts rows b(2,3) refl fields ep(1)]) (use ep(2) in blast)
  moreover have "counter 0 (parse_int (show_nat (po_halfmove p))) = po_halfmove p" "counter 1 (parse_int (show_nat (po_fullmove p))) = po_fullmove p"
    using one by (simp_all add: counter_shown)
  ultimately show ?thesis using rights by simp
qed

theorem fen_roundtrip_witness:
  "parse_fen (to_fen (make_move start_position e4)) = Inr (make_move start_position e4)"
proof -
  have "proper (make_move start_position e4)" by (rule legal_keeps_proper[OF start_proper e4_legal])
  then show ?thesis by (rule fen_roundtrip)
qed

end
