(* ===== verification/Chess_Text.thy ===== *)
theory Chess_Text
  imports Chess_Fen
begin

text \<open>
  Notation and the reading of a move from a model's answer (\<open>moveToUci\<close>, \<open>moveToSan\<close>, \<open>positionKey\<close>,
  \<open>findMoveInText\<close> of \<open>apps/api/src/chess/chess-rules.ts\<close>). Each regular expression is a function that
  matches it at one place; texts are ASCII.
\<close>

subsection \<open>Notation\<close>

definition move_to_uci :: "chess_move \<Rightarrow> string" where
  "move_to_uci m = square_name (mv_from m) @ square_name (mv_to m) @ (case mv_promotion m of None \<Rightarrow> [] | Some q \<Rightarrow> q)"

definition disambiguation :: "chess_move \<Rightarrow> chess_move list \<Rightarrow> string" where
  "disambiguation m legal =
     (let rivals = filter (\<lambda>other. mv_piece other = mv_piece m \<and> mv_to other = mv_to m \<and> mv_from other \<noteq> mv_from m) legal;
          sameFile = list_ex (\<lambda>other. file_of (mv_from other) = file_of (mv_from m)) rivals;
          sameRank = list_ex (\<lambda>other. rank_of (mv_from other) = rank_of (mv_from m)) rivals
      in if rivals = [] then []
         else if \<not> sameFile then [file_names ! file_of (mv_from m)]
         else if \<not> sameRank then show_nat (rank_of (mv_from m) + 1)
         else square_name (mv_from m))"

definition san_body :: "chess_move \<Rightarrow> chess_move list \<Rightarrow> string" where
  "san_body m legal = (case mv_castle m of
     Some side \<Rightarrow> if side = KingSide then ''O-O'' else ''O-O-O''
   | None \<Rightarrow> let type = to_lower (mv_piece m); target = square_name (mv_to m); takes = (mv_captured m \<noteq> None) in
       if type = ''p'' then (if takes then [file_names ! file_of (mv_from m)] @ ''x'' @ target else target) @
         (case mv_promotion m of None \<Rightarrow> [] | Some q \<Rightarrow> ''='' @ to_upper q)
       else to_upper type @ disambiguation m legal @ (if takes then ''x'' else []) @ target)"

definition move_to_san :: "position \<Rightarrow> chess_move \<Rightarrow> chess_move list \<Rightarrow> string" where
  "move_to_san p m legal = (let next' = make_move p m in
     san_body m legal @ (if is_in_check next' (po_turn next') then (if legal_moves next' = [] then ''#'' else ''+'') else []))"

definition position_key :: "position \<Rightarrow> string" where
  "position_key p = (let fields = split_on CHR '' '' (to_fen p);
       epUsable = (po_ep p \<noteq> None \<and> list_ex mv_enPassant (pseudo_legal_moves p))
     in join_with '' '' [fields ! 0, fields ! 1, fields ! 2, if epUsable then fields ! 3 else ''-''])"

subsection \<open>Tokens\<close>

definition is_file :: "char \<Rightarrow> bool" where
  "is_file c = (c \<in> set file_names)"

definition is_promotion :: "char \<Rightarrow> bool" where
  "is_promotion c = (c \<in> set ''qrbnQRBN'')"

definition is_word :: "char \<Rightarrow> bool" where
  "is_word c = (is_upper c \<or> is_lower c \<or> is_digit c \<or> c = CHR ''_'')"

definition drop_char :: "char \<Rightarrow> string \<Rightarrow> string" where
  "drop_char c s = (case s of d # ds \<Rightarrow> if d = c then ds else s | [] \<Rightarrow> [])"

text \<open>\<open>([a-h][1-8])-?([a-h][1-8])\<close>: both names, and what follows.\<close>

definition two_squares :: "string \<Rightarrow> (string \<times> string \<times> string) option" where
  "two_squares s = (case s of
     f # r # s' \<Rightarrow> if is_file f \<and> is_rank_digit r
       then (case drop_char CHR ''-'' s' of
          g # q # rest \<Rightarrow> if is_file g \<and> is_rank_digit q then Some ([f, r], [g, q], rest) else None
        | _ \<Rightarrow> None)
       else None
   | _ \<Rightarrow> None)"

type_synonym uci_token = "string \<times> string \<times> string option"

text \<open>\<open>/^([a-h][1-8])-?([a-h][1-8])=?([qrbnQRBN])?$/\<close>\<close>

definition whole_uci :: "string \<Rightarrow> uci_token option" where
  "whole_uci token = (case two_squares token of None \<Rightarrow> None
   | Some (from, to', rest) \<Rightarrow> (case drop_char CHR ''='' rest of
        [] \<Rightarrow> Some (from, to', None)
      | [q] \<Rightarrow> if is_promotion q then Some (from, to', Some [q]) else None
      | _ \<Rightarrow> None))"

definition ends_word :: "string \<Rightarrow> bool" where
  "ends_word rest = (case rest of [] \<Rightarrow> True | c # _ \<Rightarrow> \<not> is_word c)"

text \<open>\<open>/\b([a-h][1-8])-?([a-h][1-8])(?:=?([qrbnQRBN]))?\b/\<close> here, after a word character or not.\<close>

definition uci_here :: "bool \<Rightarrow> string \<Rightarrow> (uci_token \<times> string) option" where
  "uci_here afterWord s = (if afterWord then None else case two_squares s of None \<Rightarrow> None
   | Some (from, to', rest) \<Rightarrow> (case drop_char CHR ''='' rest of
        q # rest' \<Rightarrow> if is_promotion q \<and> ends_word rest' then Some ((from, to', Some [q]), rest')
          else if ends_word rest then Some ((from, to', None), rest) else None
      | [] \<Rightarrow> if ends_word rest then Some ((from, to', None), rest) else None))"

lemma drop_char_length: "length (drop_char c s) \<le> length s"
  by (cases s) (auto simp: drop_char_def)

lemma two_squares_shorter: "two_squares s = Some (a, b, rest) \<Longrightarrow> length rest < length s"
proof -
  assume t: "two_squares s = Some (a, b, rest)"
  then obtain f r s' where s: "s = f # r # s'" by (auto simp: two_squares_def split: list.splits)
  then obtain g q where "drop_char CHR ''-'' s' = g # q # rest" using t by (auto simp: two_squares_def split: list.splits if_splits)
  then show ?thesis using drop_char_length[of "CHR ''-''" s'] s by simp
qed

lemma uci_here_shorter: "uci_here w s = Some (t, rest) \<Longrightarrow> length rest < length s"
proof -
  assume u: "uci_here w s = Some (t, rest)"
  then obtain a b r where r: "two_squares s = Some (a, b, r)" by (auto simp: uci_here_def split: if_splits option.splits)
  have "rest = r \<or> (\<exists>q. drop_char CHR ''='' r = q # rest)"
    using u r by (auto simp: uci_here_def split: if_splits list.splits)
  then show ?thesis using two_squares_shorter[OF r] drop_char_length[of "CHR ''=''" r] by auto
qed

text \<open>\<open>text.matchAll(UCI_PATTERN)\<close>\<close>

function uci_matches :: "bool \<Rightarrow> string \<Rightarrow> uci_token list" where
  "uci_matches afterWord s = (case uci_here afterWord s of
     Some (token, rest) \<Rightarrow> token # uci_matches True rest
   | None \<Rightarrow> (case s of [] \<Rightarrow> [] | c # cs \<Rightarrow> uci_matches (is_word c) cs))"
  by pat_completeness auto
termination by (relation "measure (length \<circ> snd)") (auto dest: uci_here_shorter)

declare uci_matches.simps [simp del]

text \<open>\<open>/"move"\s*:\s*"([^"]{1,16})"/i\<close> here, and at its first place.\<close>

definition quote_char :: char where
  "quote_char = char_of (34 :: nat)"

definition move_key :: string where
  "move_key = quote_char # ''move'' @ [quote_char]"

definition json_here :: "string \<Rightarrow> string option" where
  "json_here s = (if to_lower (take 6 s) = move_key
     then (case dropWhile is_space (drop 6 s) of
        c # s1 \<Rightarrow> if c \<noteq> CHR '':'' then None
          else (case dropWhile is_space s1 of
             q # s2 \<Rightarrow> let value = takeWhile (\<lambda>c. c \<noteq> quote_char) s2 in
               if q = quote_char \<and> 1 \<le> length value \<and> length value \<le> 16 \<and> length value < length s2 then Some value else None
           | [] \<Rightarrow> None)
      | [] \<Rightarrow> None)
     else None)"

fun json_move :: "string \<Rightarrow> string option" where
  "json_move [] = None"
| "json_move (c # s) = (case json_here (c # s) of Some v \<Rightarrow> Some v | None \<Rightarrow> json_move s)"

subsection \<open>Finding the move\<close>

text \<open>\<open>replace(/[+#!?]+$/g, "").replace(/0/g, "O").replace(/=/g, "")\<close>\<close>

definition strip_san :: "string \<Rightarrow> string" where
  "strip_san value = filter (\<lambda>c. c \<noteq> CHR ''='') (map (\<lambda>c. if c = CHR ''0'' then CHR ''O'' else c)
     (rev (dropWhile (\<lambda>c. c \<in> set ''+#!?'') (rev value))))"

definition by_uci :: "chess_move list \<Rightarrow> uci_token \<Rightarrow> chess_move option" where
  "by_uci legal token = (case token of (from, to', promotion) \<Rightarrow>
     (let matches = filter (\<lambda>m. square_name (mv_from m) = from \<and> square_name (mv_to m) = to') legal in
      case matches of [] \<Rightarrow> None
      | [m] \<Rightarrow> Some m
      | _ \<Rightarrow> List.find (\<lambda>m. mv_promotion m = Some (case promotion of Some q \<Rightarrow> to_lower q | None \<Rightarrow> ''q'')) matches))"

definition san_map :: "position \<Rightarrow> chess_move list \<Rightarrow> (string \<times> chess_move) list" where
  "san_map p legal = rev (map (\<lambda>m. (strip_san (move_to_san p m legal), m)) legal)"

definition resolve_token :: "position \<Rightarrow> chess_move list \<Rightarrow> string \<Rightarrow> chess_move option" where
  "resolve_token p legal token = (case whole_uci token of
     Some uci \<Rightarrow> by_uci legal uci
   | None \<Rightarrow> map_of (san_map p legal) (strip_san token))"

fun first_some :: "('a \<Rightarrow> 'b option) \<Rightarrow> 'a list \<Rightarrow> 'b option" where
  "first_some f [] = None"
| "first_some f (x # xs) = (case f x of Some y \<Rightarrow> Some y | None \<Rightarrow> first_some f xs)"

definition find_move_in_text :: "position \<Rightarrow> string \<Rightarrow> chess_move list \<Rightarrow> chess_move option" where
  "find_move_in_text p answer legal =
     (let bareText = js_trim answer;
          candidates = (case json_move answer of Some v \<Rightarrow> [js_trim v] | None \<Rightarrow> []) @ (if length bareText \<le> 16 then [bareText] else [])
      in case first_some (resolve_token p legal) candidates of
           Some m \<Rightarrow> Some m
         | None \<Rightarrow> first_some (by_uci legal) (uci_matches False answer))"

lemma first_some_in: "first_some f xs = Some y \<Longrightarrow> \<exists>x \<in> set xs. f x = Some y"
  by (induction xs) (auto split: option.splits)

lemma by_uci_legal: "by_uci legal token = Some m \<Longrightarrow> m \<in> set legal"
proof -
  assume b: "by_uci legal token = Some m"
  obtain f to' promotion where t: "token = (f, to', promotion)" by (cases token) auto
  let ?ms = "filter (\<lambda>m. square_name (mv_from m) = f \<and> square_name (mv_to m) = to') legal"
  have "m \<in> set ?ms"
  proof (cases ?ms)
    case (Cons x xs)
    then show ?thesis using b by (cases xs) (auto simp: by_uci_def t Let_def dest: find_SomeD split: if_splits)
  qed (use b t in \<open>simp add: by_uci_def\<close>)
  then show ?thesis by simp
qed

lemma resolve_legal: "resolve_token p legal token = Some m \<Longrightarrow> m \<in> set legal"
  by (auto simp: resolve_token_def san_map_def dest: by_uci_legal map_of_SomeD split: option.splits)

text \<open>
  A model's answer is only ever matched against the rules. Whatever text a model returns, the move
  \<open>findMoveInText\<close> reads from it is a legal move of the position, and making it leads to a proper
  position in which the side that moved is not in check.
\<close>

theorem answers_obey_rules:
  assumes "find_move_in_text p answer (legal_moves p) = Some m"
  shows "m \<in> set (legal_moves p) \<and> \<not> is_in_check (make_move p m) (po_turn p) \<and> (proper p \<longrightarrow> proper (make_move p m))"
proof -
  have "m \<in> set (legal_moves p)" using assms
    by (auto simp: find_move_in_text_def Let_def dest!: first_some_in dest: by_uci_legal resolve_legal split: option.splits)
  then show ?thesis using legal_keeps_proper by (auto simp: legal_moves_def)
qed

text \<open>A king move named in a sentence, with its squares in coordinates.\<close>

definition king_ending :: position where
  "king_ending = (case parse_fen ''k7/8/8/8/8/8/8/7K w - - 0 1'' of Inr p \<Rightarrow> p)"

definition king_step :: chess_move where
  "king_step = plain_move 7 14 ''K'' None"

theorem answers_obey_rules_witness:
  "find_move_in_text king_ending ''I will play h1-g2.'' (legal_moves king_ending) = Some king_step \<and>
   king_step \<in> set (legal_moves king_ending)"
proof -
  have found: "find_move_in_text king_ending ''I will play h1-g2.'' (legal_moves king_ending) = Some king_step" by code_simp
  with answers_obey_rules[OF found] show ?thesis by blast
qed

end
