(* ===== verification/Chess_End.thy ===== *)
theory Chess_End
  imports Chess_Text
begin

text \<open>
  Games end. The pieces carry a potential: an officer 1, a pawn 2 and one more for every rank it has still to
  go. A move that resets the halfmove clock lowers it and no other move changes it, so the fifty-move rule of
  \<open>gameOutcome\<close> stops every game.
\<close>

subsection \<open>The potential of a board\<close>

definition worth :: "nat \<Rightarrow> string \<Rightarrow> nat" where
  "worth square piece = (if piece = [] then 0 else if piece = ''P'' then 9 - rank_of square
     else if piece = ''p'' then 2 + rank_of square else 1)"

definition potential :: "board \<Rightarrow> nat" where
  "potential board = sum_list (map (\<lambda>i. worth i (board ! i)) [0..<64])"

lemma sum_list_change:
  fixes f g :: "'a \<Rightarrow> nat"
  assumes "distinct xs" "x \<in> set xs" "\<And>y. y \<in> set xs \<Longrightarrow> y \<noteq> x \<Longrightarrow> f y = g y"
  shows "sum_list (map f xs) + g x = sum_list (map g xs) + f x"
  using assms
proof (induction xs)
  case (Cons y ys)
  show ?case
  proof (cases "y = x")
    case True
    then have "sum_list (map f ys) = sum_list (map g ys)" using Cons.prems by (intro arg_cong[where f = sum_list] map_cong) auto
    then show ?thesis using True by simp
  qed (use Cons in auto)
qed simp

lemma potential_update:
  assumes "length board = 64" "i < 64"
  shows "potential (board[i := x]) + worth i (board ! i) = potential board + worth i x"
  using sum_list_change[of "[0..<64]" i "\<lambda>j. worth j (board[i := x] ! j)" "\<lambda>j. worth j (board ! j)"] assms
  by (simp add: potential_def)

lemma worth_none [simp]: "worth square [] = 0"
  by (simp add: worth_def)

lemma potential_move:
  assumes "length board = 64" "a < 64" "b < 64" "a \<noteq> b"
  shows "potential (board[a := [], b := x]) + worth a (board ! a) + worth b (board ! b) = potential board + worth b x"
  using potential_update[of "board[a := []]" b x] potential_update[of board a "[]"] assms by simp

lemma worth_positive: "rank_of square \<le> 7 \<Longrightarrow> piece \<noteq> [] \<Longrightarrow> 0 < worth square piece"
  by (auto simp: worth_def)

lemma worth_officer: "piece \<noteq> [] \<Longrightarrow> to_lower piece \<noteq> ''p'' \<Longrightarrow> worth square piece = 1"
proof -
  assume p: "piece \<noteq> []" "to_lower piece \<noteq> ''p''"
  have "to_lower ''P'' = ''p''" "to_lower ''p'' = ''p''" by code_simp+
  then show ?thesis using p by (auto simp: worth_def)
qed

lemma worth_pawn: "worth square (own ''p'' c) = (if c = White then 9 - rank_of square else 2 + rank_of square)"
proof -
  have "own ''p'' White = ''P''" "own ''p'' Black = ''p''" by code_simp+
  then show ?thesis by (cases c) (simp_all add: worth_def)
qed

lemma worth_promoted: "q \<in> set promotions \<Longrightarrow> worth square (own q c) = 1"
proof -
  assume q: "q \<in> set promotions"
  then have "q \<in> set piece_types" "q \<noteq> ''p''" by (auto simp: promotions_def piece_types_def)
  then show ?thesis using own_facts[of q c] worth_officer[of "own q c"] by auto
qed

lemma rank_bound: "b < 64 \<Longrightarrow> rank_of b \<le> 7"
  by (simp add: rank_of_def)

text \<open>A pawn that advances, promoted or not, is worth less.\<close>

lemma worth_advance:
  assumes "reach a 1 (df, k * pawn_dir c) b" "1 \<le> k" "a < 64" "x = own ''p'' c \<or> (\<exists>q \<in> set promotions. x = own q c)"
  shows "worth b x < worth a (own ''p'' c)"
proof -
  have r: "int (rank_of b) = int (rank_of a) + k * pawn_dir c" "rank_of b \<le> 7" "rank_of a \<le> 7"
    using assms(1,3) rank_bound[of b] rank_bound[of a] by (simp_all add: reach_def)
  from assms(4) show ?thesis
  proof
    assume "x = own ''p'' c"
    then show ?thesis using r assms(2) by (cases c) (auto simp: worth_pawn pawn_dir_def)
  next
    assume "\<exists>q \<in> set promotions. x = own q c"
    then show ?thesis using r worth_promoted[of _ b c] by (auto simp: worth_pawn)
  qed
qed

subsection \<open>What a move does to the potential and the clock\<close>

definition steadies :: "position \<Rightarrow> position \<Rightarrow> bool" where
  "steadies p q = (if po_halfmove q = 0 then potential (po_board q) < potential (po_board p)
     else potential (po_board q) = potential (po_board p) \<and> po_halfmove q = po_halfmove p + 1)"

lemma halfmove_after: "po_halfmove (make_move p m) = (if to_lower (po_board p ! mv_from m) = ''p'' \<or> mv_captured m \<noteq> None then 0 else po_halfmove p + 1)"
  by (simp add: make_move_def Let_def)

lemma board_after: "po_board (make_move p m) = moved_board p m"
  by (simp add: make_move_def Let_def)

lemma pawn_lowers:
  assumes board: "length (po_board p) = 64" "a < 64" "po_board p ! a = own ''p'' (po_turn p)"
    and ab: "reach a 1 (df, k * pawn_dir (po_turn p)) b" "1 \<le> k"
    and f: "mv_from m = a" "mv_to m = b" "mv_castle m = None" "\<not> mv_enPassant m"
      "mv_promotion m = None \<or> (\<exists>q \<in> set promotions. mv_promotion m = Some q)"
  shows "steadies p (make_move p m)"
proof -
  let ?x = "case mv_promotion m of Some q \<Rightarrow> own q (po_turn p) | None \<Rightarrow> po_board p ! a"
  have x: "?x = own ''p'' (po_turn p) \<or> (\<exists>q \<in> set promotions. ?x = own q (po_turn p))" using f(5) board(3) by auto
  have less: "worth b ?x < worth a (po_board p ! a)" using worth_advance[OF ab board(2) x] board(3) by simp
  have b: "b < 64" "a \<noteq> b" using reach_bound[OF ab(1)] ab by (auto simp: reach_def pawn_dir_def split: if_splits)
  have "to_lower (po_board p ! a) = ''p''" using own_facts[OF own_types(1), of "po_turn p"] board(3) by simp
  moreover have "potential (moved_board p m) < potential (po_board p)"
    using potential_move[OF board(1,2) b, of ?x] less unfolding moved_plain[OF f(3,4), of p, unfolded f(1,2)] by linarith
  ultimately show ?thesis using f(1) by (simp add: steadies_def halfmove_after board_after)
qed

lemma passing_lowers:
  assumes board: "length (po_board p) = 64" "a < 64" "po_board p ! a = own ''p'' (po_turn p)"
    and ab: "reach a 1 (df, pawn_dir (po_turn p)) b" "po_board p ! b = []"
    and m: "m = (plain_move a b (po_board p ! a) (Some captured))\<lparr>mv_enPassant := True\<rparr>"
  shows "steadies p (make_move p m)"
proof -
  let ?v = "nat (int b - 8 * pawn_dir (po_turn p))" and ?pawn = "po_board p ! a"
  have "worth b ?pawn < worth a ?pawn"
    using worth_advance[of a df 1 "po_turn p" b ?pawn] ab(1) board(2,3) by simp
  moreover have b: "b < 64" "a \<noteq> b" using reach_bound[OF ab(1)] ab by (auto simp: reach_def pawn_dir_def split: if_splits)
  moreover have v: "?v < 64 \<and> ?v \<noteq> b"
  proof (cases "po_turn p")
    case Black
    then have "b div 8 \<le> 6" using ab(1) rank_bound[OF board(2)] by (simp add: reach_def pawn_dir_def rank_of_def)
    then have "b < 56" by simp
    moreover have "?v = b + 8" using Black by (simp add: pawn_dir_def nat_eq_iff)
    ultimately show ?thesis by simp
  next
    case White
    then have "1 \<le> b div 8" using ab(1) by (simp add: reach_def pawn_dir_def rank_of_def)
    then have "8 \<le> b" by simp
    moreover from this have "?v = b - 8" using White by (simp add: pawn_dir_def nat_eq_iff)
    ultimately show ?thesis using b(1) by linarith
  qed
  moreover have "potential ((po_board p)[a := [], ?v := []]) \<le> potential (po_board p) - worth a ?pawn"
    using potential_update[of "(po_board p)[a := []]" ?v "[]"] potential_update[OF board(1,2), of "[]"] v board by simp
  moreover have "worth a ?pawn \<le> potential (po_board p)" using potential_update[OF board(1,2), of "[]"] by simp
  moreover have "(po_board p)[a := [], ?v := []] ! b = []" using v b ab(2) by simp
  ultimately have "potential (moved_board p m) < potential (po_board p)"
    using potential_update[of "(po_board p)[a := [], ?v := []]" b ?pawn] board(1)
    by (simp add: moved_board_def Let_def m plain_move_def)
  then show ?thesis by (simp add: steadies_def halfmove_after board_after m plain_move_def)
qed

lemma officer_steadies:
  assumes board: "length (po_board p) = 64" "a < 64" "b < 64" "a \<noteq> b" "po_board p ! a \<noteq> []" "to_lower (po_board p ! a) \<noteq> ''p''"
    and f: "mv_from m = a" "mv_to m = b" "mv_castle m = None" "\<not> mv_enPassant m" "mv_promotion m = None"
      "mv_captured m = (if po_board p ! b = [] then None else Some (po_board p ! b))"
  shows "steadies p (make_move p m)"
proof -
  have "moved_board p m = (po_board p)[a := [], b := po_board p ! a]" using moved_plain[OF f(3,4), of p] f by simp
  moreover have "worth a (po_board p ! a) = worth b (po_board p ! a)" using worth_officer[OF board(5,6)] by simp
  moreover have "po_board p ! b \<noteq> [] \<Longrightarrow> 0 < worth b (po_board p ! b)" using worth_positive[OF rank_bound[OF board(3)]] by blast
  ultimately show ?thesis using potential_move[OF board(1-4), of "po_board p ! a"] f board(6)
    by (auto simp: steadies_def halfmove_after board_after split: if_splits)
qed

lemma castle_steady:
  assumes p: "length board = 64" "to_lower (board ! a) = ''k''" "a < 64" "b < 64" "r < 64" "t < 64"
      "a \<noteq> b" "r \<noteq> a" "r \<noteq> b" "t \<noteq> a" "t \<noteq> b" "r \<noteq> t" "board ! b = []" "board ! t = []" "board ! r = own ''r'' c"
  shows "potential (board[a := [], b := board ! a, t := board[a := [], b := board ! a] ! r, r := []]) = potential board"
proof -
  let ?b = "board[a := [], b := board ! a]"
  have "board ! a \<noteq> []" using p(2) by (auto simp: to_lower_def)
  then have king: "worth s (board ! a) = 1" for s using worth_officer p(2) by simp
  have "board ! r \<noteq> []" "to_lower (board ! r) \<noteq> ''p''" using own_facts[OF own_types(4), of c] p(15) by simp_all
  then have rook: "worth s (board ! r) = 1" for s using worth_officer by blast
  have held: "?b ! r = board ! r" "?b ! t = []" "?b[t := board ! r] ! r = board ! r" using p by simp_all
  have "potential ?b = potential board" using potential_move[OF p(1,3,4,7), of "board ! a"] king p(13) by simp
  moreover have "potential (?b[t := board ! r]) = potential ?b + 1"
    using potential_update[of ?b t "board ! r"] held(2) rook p(1,6) by simp
  moreover have "potential (?b[t := board ! r, r := []]) + 1 = potential (?b[t := board ! r])"
    using potential_update[of "?b[t := board ! r]" r "[]"] held(3) rook p(1,5) by simp
  ultimately show ?thesis by (simp only: held(1))
qed

lemma pseudo_steadies:
  assumes board: "valid_board (po_board p)" and a: "a < 64" and m: "m \<in> set (moves_from p a)"
  shows "steadies p (make_move p m)"
proof -
  let ?piece = "po_board p ! a" and ?c = "po_turn p"
  have len: "length (po_board p) = 64" using board by (simp add: valid_board_def)
  have piece: "?piece \<noteq> []" "color_of ?piece = ?c" using moves_from_own[OF m] by auto
  note valid = valid_at[OF board a]
  have pawn: "to_lower ?piece = ''p'' \<Longrightarrow> ?piece = own ''p'' ?c" using pawn_is_own[OF valid piece(1) _ piece(2)] .
  from m valid show ?thesis
  proof (cases rule: moves_from_cases)
    case (goes b)
    then show ?thesis using officer_steadies[OF len a _ _ piece(1)] goes_to_fields[OF goes(3)] aims_moves[OF goes(2)] by blast
  next
    case (push b)
    then show ?thesis using pawn_lowers[OF len a pawn, of 0 1 b m] pawn_move_fields[OF push(4)] by simp
  next
    case (double b e)
    then show ?thesis using pawn_lowers[OF len a pawn, of 0 2 b m] by (simp add: plain_move_def)
  next
    case (take b)
    then obtain df where "reach a 1 (df, pawn_dir ?c) b" by blast
    then show ?thesis using pawn_lowers[OF len a pawn, of df 1 b m] take(1) pawn_move_fields[OF take(5)] by simp
  next
    case (passing b)
    then show ?thesis using passing_lowers[OF len a pawn] by blast
  next
    case king_side
    have sq: "a + 2 < 64" "a + 3 < 64" "a + 1 < 64" using king_side(2) home_bounds[of ?c] by auto
    have "moved_board p m = (po_board p)[a := [], a + 2 := ?piece, a + 1 := (po_board p)[a := [], a + 2 := ?piece] ! (a + 3), a + 3 := []]"
      by (simp add: moved_board_def Let_def king_side(3) plain_move_def)
    then have "potential (moved_board p m) = potential (po_board p)"
      using castle_steady[OF len king_side(1) a sq(1-3)] king_side(4-6) by simp
    then show ?thesis using king_side(1,3) by (simp add: steadies_def halfmove_after board_after plain_move_def)
  next
    case queen_side
    have sq: "a - 2 < 64" "a - 4 < 64" "a - 1 < 64" "4 \<le> a" using queen_side(2) home_bounds[of ?c] by auto
    have "moved_board p m = (po_board p)[a := [], a - 2 := ?piece, a - 1 := (po_board p)[a := [], a - 2 := ?piece] ! (a - 4), a - 4 := []]"
      by (simp add: moved_board_def Let_def queen_side(3) plain_move_def)
    then have "potential (moved_board p m) = potential (po_board p)"
      using castle_steady[OF len queen_side(1) a sq(1-3)] queen_side(4-7) sq(4) by simp
    then show ?thesis using queen_side(1,3) by (simp add: steadies_def halfmove_after board_after plain_move_def)
  qed
qed

subsection \<open>Games\<close>

text \<open>A game: legal moves, each made where \<open>gameOutcome\<close>, whatever the repetitions, has not ended the game.\<close>

fun game :: "position \<Rightarrow> chess_move list \<Rightarrow> bool" where
  "game p [] = True"
| "game p (m # ms) = ((\<exists>repetitions. game_outcome p repetitions (legal_moves p) = None) \<and> m \<in> set (legal_moves p) \<and> game (make_move p m) ms)"

lemma goes_on: "game_outcome p repetitions legal = None \<Longrightarrow> po_halfmove p < 100"
  by (auto simp: game_outcome_def split: if_splits)

text \<open>
  C8. Every game ends. From a proper position, a game in which no move is made after
  \<open>gameOutcome\<close> has declared its end has at most 101 times the potential of the board moves, and one for
  every halfmove left on the clock; from the start position that is 14,644 moves.
\<close>

theorem game_ends:
  assumes "proper p" "game p ms"
  shows "length ms \<le> 101 * potential (po_board p) + (100 - po_halfmove p)"
  using assms
proof (induction ms arbitrary: p)
  case (Cons m ms)
  let ?q = "make_move p m"
  have m: "m \<in> set (legal_moves p)" "po_halfmove p < 100" "game ?q ms" using Cons.prems(2) goes_on by auto
  then obtain a where "a < 64" "m \<in> set (moves_from p a)" by (auto simp: legal_moves_def pseudo_legal_moves_def)
  then have "steadies p ?q" using Cons.prems(1) by (intro pseudo_steadies) (simp_all add: proper_def proper_board_def)
  moreover have "length ms \<le> 101 * potential (po_board ?q) + (100 - po_halfmove ?q)"
    using Cons.IH legal_keeps_proper[OF Cons.prems(1) m(1)] m(3) by blast
  ultimately show ?case using m(2) by (auto simp: steadies_def split: if_splits)
qed simp

theorem game_ends_witness: "game start_position [e4] \<and> length [e4] \<le> 14644"
proof -
  have "\<not> has_insufficient_material start_position" "po_halfmove start_position = 0" by code_simp+
  moreover have "legal_moves start_position \<noteq> []" using e4_legal by auto
  ultimately have "game_outcome start_position 1 (legal_moves start_position) = None" by (simp add: game_outcome_def)
  then have "game start_position [e4]" using e4_legal by auto
  moreover have "101 * potential (po_board start_position) + (100 - po_halfmove start_position) = 14644" by code_simp
  ultimately show ?thesis using game_ends[OF start_proper, of "[e4]"] by simp
qed

end
