(* ===== verification/Chess_Perft.thy ===== *)
theory Chess_Perft
  imports Chess_Text
begin

text \<open>
  What \<open>perft\<close> counts. Move generation finds every move once, so the number is that of the legal
  sequences of moves, and the sum over the moves counts no sequence twice.
\<close>

subsection \<open>Every move is found once\<close>

lemma step_move_goes: "m \<in> set (step_move p a piece d) \<Longrightarrow> mv_from m = a \<and> mv_castle m = None \<and> reach a 1 d (mv_to m)"
  unfolding step_move_iff using goes_to_fields by blast

lemma step_move_distinct: "distinct (step_move p a piece d)"
  by (simp add: step_move_def Let_def split: option.splits)

lemma slide_moves_goes:
  "m \<in> set (slide_moves p a piece d ss) \<Longrightarrow> mv_from m = a \<and> mv_castle m = None \<and> (\<exists>k \<in> set ss. reach a k d (mv_to m))"
proof (induction ss)
  case (Cons k ss)
  show ?case
  proof (cases "square_at (int (file_of a) + fst d * k) (int (rank_of a) + snd d * k)")
    case (Some b)
    then have "reach a k d b" by (simp add: square_at_reach)
    moreover have "(mv_from m = a \<and> mv_to m = b \<and> mv_castle m = None) \<or> m \<in> set (slide_moves p a piece d ss)"
      using Cons.prems Some by (auto simp: Let_def plain_move_def split: if_splits)
    ultimately show ?thesis using Cons.IH by auto
  qed (use Cons.prems in simp)
qed simp

lemma reach_same_step: "reach a k d b \<Longrightarrow> reach a l d b \<Longrightarrow> d \<noteq> (0, 0) \<Longrightarrow> k = l"
  by (cases d) (auto simp: reach_def)

lemma slide_moves_distinct: "distinct ss \<Longrightarrow> d \<noteq> (0, 0) \<Longrightarrow> distinct (slide_moves p a piece d ss)"
proof (induction ss)
  case (Cons k ss)
  show ?case
  proof (cases "square_at (int (file_of a) + fst d * k) (int (rank_of a) + snd d * k)")
    case (Some b)
    have "plain_move a b piece None \<notin> set (slide_moves p a piece d ss)"
    proof
      assume "plain_move a b piece None \<in> set (slide_moves p a piece d ss)"
      then obtain l where "l \<in> set ss" "reach a l d b" using slide_moves_goes[of _ p a piece d ss] by (fastforce simp: plain_move_def)
      then show False using reach_same_step[of a k d b l] Some Cons.prems by (auto simp: square_at_reach)
    qed
    then show ?thesis using Some Cons by (auto simp: Let_def)
  qed simp
qed simp

definition unit_dir :: "int \<times> int \<Rightarrow> bool" where
  "unit_dir d = (d \<noteq> (0, 0) \<and> \<bar>fst d\<bar> \<le> 1 \<and> \<bar>snd d\<bar> \<le> 1)"

lemma line_dirs_facts: "distinct (line_dirs t) \<and> (\<forall>d \<in> set (line_dirs t). unit_dir d)"
proof -
  have "list_all (\<lambda>ds. distinct ds \<and> list_all unit_dir ds) [bishop_dirs, rook_dirs, bishop_dirs @ rook_dirs]" by code_simp
  then show ?thesis by (simp add: line_dirs_def list_all_iff)
qed

lemma steps_facts: "distinct knight_steps" "distinct king_steps" "distinct steps" "\<forall>k \<in> set steps. 1 \<le> k"
proof -
  have "distinct knight_steps" "distinct king_steps" "distinct steps" "list_all (\<lambda>k. 1 \<le> k) steps" by code_simp+
  then show "distinct knight_steps" "distinct king_steps" "distinct steps" "\<forall>k \<in> set steps. 1 \<le> k" by (simp_all only: list_all_iff)
qed

lemma unit_sgn: "\<bar>x\<bar> \<le> 1 \<Longrightarrow> 1 \<le> k \<Longrightarrow> sgn (x * k) = (x :: int)"
  by (cases "x = 0"; cases "x = 1"; cases "x = -1") (auto simp: sgn_mult)

lemma reach_same_dir:
  assumes "reach a k d b" "reach a l e b" "unit_dir d" "unit_dir e" "1 \<le> k" "1 \<le> l"
  shows "d = e"
proof -
  have "fst d * k = fst e * l" "snd d * k = snd e * l" using assms(1,2) by (simp_all add: reach_def)
  then have "sgn (fst d * k) = sgn (fst e * l)" "sgn (snd d * k) = sgn (snd e * l)" by simp_all
  then show ?thesis using assms(3-6) by (simp add: unit_dir_def unit_sgn prod_eq_iff)
qed

lemma reach1_same: "reach a 1 d b \<Longrightarrow> reach a 1 e b \<Longrightarrow> d = e"
  by (auto simp: reach_def prod_eq_iff)

lemma steps_distinct: "distinct ds \<Longrightarrow> distinct (concat (map (step_move p a piece) ds))"
  by (rule distinct_labelled) (auto simp: step_move_distinct dest: step_move_goes reach1_same)

lemma slides_distinct: "distinct (concat (map (\<lambda>d. slide_moves p a piece d steps) (line_dirs t)))"
proof (rule distinct_labelled)
  show "distinct (line_dirs t)" using line_dirs_facts by blast
  show "distinct (slide_moves p a piece d steps)" if "d \<in> set (line_dirs t)" for d
    using slide_moves_distinct[OF steps_facts(3)] line_dirs_facts that by (auto simp: unit_dir_def)
  show "d = e" if d: "d \<in> set (line_dirs t)" "e \<in> set (line_dirs t)"
    and m: "m \<in> set (slide_moves p a piece d steps)" "m \<in> set (slide_moves p a piece e steps)" for d e m
  proof -
    obtain k l where "k \<in> set steps" "reach a k d (mv_to m)" "l \<in> set steps" "reach a l e (mv_to m)"
      using slide_moves_goes[OF m(1)] slide_moves_goes[OF m(2)] by blast
    then show ?thesis using reach_same_dir[of a k d "mv_to m" l e] line_dirs_facts d steps_facts(4) by blast
  qed
qed

lemma add_pawn_distinct: "distinct (add_pawn_move m)"
proof -
  have "distinct promotions" by code_simp
  moreover have "inj (\<lambda>q. m\<lparr>mv_promotion := Some q\<rparr>)"
  proof (rule injI)
    fix q r assume "m\<lparr>mv_promotion := Some q\<rparr> = m\<lparr>mv_promotion := Some r\<rparr>"
    then have "mv_promotion (m\<lparr>mv_promotion := Some q\<rparr>) = mv_promotion (m\<lparr>mv_promotion := Some r\<rparr>)" by (rule arg_cong)
    then show "q = r" by simp
  qed
  ultimately show ?thesis by (simp add: add_pawn_move_def distinct_map inj_on_subset)
qed

lemma pawn_pushes_goes: "m \<in> set (pawn_pushes p a piece) \<Longrightarrow> mv_from m = a \<and> file_of (mv_to m) = file_of a"
proof -
  assume "m \<in> set (pawn_pushes p a piece)"
  then obtain k b where "reach a 1 (0, k) b" "m \<in> set (add_pawn_move (plain_move a b piece None)) \<or> m = plain_move a b piece None"
    unfolding pawn_pushes_iff by blast
  then show ?thesis using pawn_move_fields[of m a b piece None] by (auto simp: reach_def plain_move_def)
qed

lemma pawn_pushes_distinct: "distinct (pawn_pushes p a piece)"
proof -
  have "plain_move a two piece None \<notin> set (add_pawn_move (plain_move a one piece None))"
    if "square_at (int (file_of a)) (int (rank_of a) + pawn_dir (po_turn p)) = Some one"
       "square_at (int (file_of a)) (int (rank_of a) + 2 * pawn_dir (po_turn p)) = Some two" for one two
  proof
    assume "plain_move a two piece None \<in> set (add_pawn_move (plain_move a one piece None))"
    then have "two = one" using pawn_move_fields by (fastforce simp: plain_move_def)
    then show False using that by (auto simp: square_at_iff pawn_dir_def split: if_splits)
  qed
  then show ?thesis using add_pawn_distinct by (auto simp: pawn_pushes_def Let_def split: option.splits)
qed

lemma pawn_captures_goes: "m \<in> set (pawn_captures p a piece df) \<Longrightarrow> mv_from m = a \<and> reach a 1 (df, pawn_dir (po_turn p)) (mv_to m)"
proof -
  assume "m \<in> set (pawn_captures p a piece df)"
  then obtain b captured where b: "reach a 1 (df, pawn_dir (po_turn p)) b"
      "m \<in> set (add_pawn_move (plain_move a b piece (Some captured))) \<or> m = (plain_move a b piece (Some captured))\<lparr>mv_enPassant := True\<rparr>"
    unfolding pawn_captures_iff by blast
  then have "mv_from m = a \<and> mv_to m = b" using pawn_move_fields[of m a b piece] by (auto simp: plain_move_def)
  then show ?thesis using b(1) by simp
qed

lemma pawn_captures_distinct: "distinct (pawn_captures p a piece df)"
  using add_pawn_distinct by (simp add: pawn_captures_def Let_def split: option.splits)

lemma pawn_moves_distinct: "distinct (pawn_pushes p a piece @ concat (map (pawn_captures p a piece) [-1, 1]))"
proof -
  have "distinct (concat (map (pawn_captures p a piece) [-1, 1]))"
    by (rule distinct_labelled) (auto simp: pawn_captures_distinct dest!: pawn_captures_goes dest: reach1_same)
  moreover have "m \<notin> set (pawn_captures p a piece df)" if "m \<in> set (pawn_pushes p a piece)" "df \<noteq> 0" for m df
    using pawn_pushes_goes[OF that(1)] pawn_captures_goes[of m p a piece df] that(2) by (auto simp: reach_def)
  ultimately show ?thesis using pawn_pushes_distinct[of p a piece] by auto
qed

lemma castle_moves_goes: "m \<in> set (castle_moves p a piece) \<Longrightarrow> mv_from m = a \<and> mv_castle m \<noteq> None"
  using castle_moves_cases by (fastforce simp: plain_move_def)

lemma castle_moves_distinct: "distinct (castle_moves p a piece)"
proof -
  have pair: "distinct ((if P then [x] else []) @ (if Q then [y] else []))" if "x \<noteq> y" for P Q and x y :: chess_move
    using that by simp
  have guard: "distinct (if C then xs else [])" if "distinct xs" for C and xs :: "chess_move list"
    using that by simp
  show ?thesis unfolding castle_moves_def Let_def by (rule guard, rule pair) (simp add: plain_move_def)
qed

lemma moves_from_goes: "m \<in> set (moves_from p a) \<Longrightarrow> mv_from m = a"
  by (auto simp: moves_from_def Let_def split: if_splits
      dest: pawn_pushes_goes pawn_captures_goes step_move_goes slide_moves_goes castle_moves_goes)

lemma moves_from_distinct: "distinct (moves_from p a)"
proof -
  let ?piece = "po_board p ! a" and ?t = "to_lower (po_board p ! a)"
  let ?walk = "if ?t = ''n'' then concat (map (step_move p a ?piece) knight_steps)
      else if ?t = ''k'' then concat (map (step_move p a ?piece) king_steps)
      else concat (map (\<lambda>d. slide_moves p a ?piece d steps) (line_dirs ?t))"
  have walk: "distinct ?walk" using steps_distinct steps_facts(1,2) slides_distinct by simp
  have "mv_castle m = None" if "m \<in> set ?walk" for m
    using that by (auto split: if_splits dest: step_move_goes slide_moves_goes)
  then have "distinct (?walk @ (if ?t = ''k'' then castle_moves p a ?piece else []))"
    using walk castle_moves_distinct[of p a ?piece] castle_moves_goes[of _ p a ?piece] by fastforce
  then show ?thesis using pawn_moves_distinct[of p a ?piece] unfolding moves_from_def Let_def line_dirs_def by simp
qed

lemma legal_moves_distinct: "distinct (legal_moves p)"
proof -
  have "distinct (pseudo_legal_moves p)" unfolding pseudo_legal_moves_def
    by (rule distinct_labelled) (auto simp: moves_from_distinct dest: moves_from_goes)
  then show ?thesis by (simp add: legal_moves_def)
qed

subsection \<open>Counting\<close>

fun legal_line :: "position \<Rightarrow> chess_move list \<Rightarrow> bool" where
  "legal_line p [] = True"
| "legal_line p (m # ms) = (m \<in> set (legal_moves p) \<and> legal_line (make_move p m) ms)"

definition legal_lines :: "position \<Rightarrow> nat \<Rightarrow> chess_move list set" where
  "legal_lines p depth = {ms. length ms = depth \<and> legal_line p ms}"

lemma lines_none: "legal_lines p 0 = {[]}"
  by (auto simp: legal_lines_def)

lemma lines_more: "legal_lines p (Suc depth) = (\<Union>m \<in> set (legal_moves p). (#) m ` legal_lines (make_move p m) depth)"
proof -
  have "ms \<in> legal_lines p (Suc depth) \<longleftrightarrow> (\<exists>m ns. ms = m # ns \<and> m \<in> set (legal_moves p) \<and> ns \<in> legal_lines (make_move p m) depth)" for ms
    by (cases ms) (auto simp: legal_lines_def)
  then show ?thesis by blast
qed

lemma lines_finite: "finite (legal_lines p depth)"
  by (induction depth arbitrary: p) (simp_all add: lines_none lines_more)

lemma card_lines_more: "card (legal_lines p (Suc depth)) = sum_list (map (\<lambda>m. card (legal_lines (make_move p m) depth)) (legal_moves p))"
proof -
  have "card (legal_lines p (Suc depth)) = (\<Sum>m \<in> set (legal_moves p). card ((#) m ` legal_lines (make_move p m) depth))"
    unfolding lines_more by (rule card_UN_disjoint) (auto simp: lines_finite)
  also have "\<dots> = (\<Sum>m \<in> set (legal_moves p). card (legal_lines (make_move p m) depth))" by (simp add: card_image)
  finally show ?thesis by (simp add: sum_list_distinct_conv_sum_set[OF legal_moves_distinct])
qed

text \<open>
  C20. \<open>perft\<close> counts what it is meant to count: the number of different sequences of legal moves of the
  given length, for every position and depth, also where it takes its shortcut at depth 1.
\<close>

theorem perft_counts: "perft p depth = card {ms. length ms = depth \<and> legal_line p ms}"
proof -
  have nodes: "foldl (\<lambda>nodes m. nodes + f m) n ms = n + sum_list (map f ms)" for f :: "chess_move \<Rightarrow> nat" and n ms
    by (induction ms arbitrary: n) simp_all
  have "perft p depth = card (legal_lines p depth)"
  proof (induction p depth rule: perft.induct)
    case (3 p depth)
    then have "map (\<lambda>m. perft (make_move p m) (Suc depth)) (legal_moves p) = map (\<lambda>m. card (legal_lines (make_move p m) (Suc depth))) (legal_moves p)"
      by simp
    then show ?case by (simp only: perft.simps nodes card_lines_more[of p "Suc depth"] add_0)
  qed (simp_all add: lines_none card_lines_more[of _ 0] sum_list_triv)
  then show ?thesis by (simp add: legal_lines_def)
qed

end
