(* ===== verification/Tournament_Schedule.thy ===== *)
theory Tournament_Schedule
  imports Prelude
begin

text \<open>
  The round-robin schedule of the chess tournament (\<open>roundRobinSchedule\<close> of
  \<open>apps/api/src/chess/chess-tournament.ts\<close>): the circle method. One place of the ring is fixed and the
  others move on by one each round; the two players in opposite places meet.
\<close>

subsection \<open>The schedule\<close>

type_synonym player = string

text \<open>\<open>!left\<close> on a place of the ring: no player (\<open>null\<close>), or an empty name.\<close>

definition vacant :: "player option \<Rightarrow> bool" where
  "vacant place = (place = None \<or> place = Some [])"

definition ring_of :: "player list \<Rightarrow> player option list" where
  "ring_of ids = map Some ids @ (if length ids mod 2 = 1 then [None] else [])"

definition table_pair :: "player option list \<Rightarrow> nat \<Rightarrow> nat \<Rightarrow> (player \<times> player) list" where
  "table_pair order rnd index = (let left = order ! index; right = order ! (length order - 1 - index) in
     if vacant left \<or> vacant right then []
     else if (index + rnd) mod 2 = 0 then [(the left, the right)] else [(the right, the left)])"

definition round_pairs :: "player option list \<Rightarrow> nat \<Rightarrow> (player \<times> player) list" where
  "round_pairs order rnd = concat (map (table_pair order rnd) [0..<length order div 2])"

definition turn_ring :: "'a list \<Rightarrow> 'a list" where
  "turn_ring order = order ! 0 # order ! (length order - 1) # take (length order - 2) (drop 1 order)"

fun play_rounds :: "nat \<Rightarrow> nat \<Rightarrow> player option list \<Rightarrow> (player \<times> player) list list" where
  "play_rounds 0 rnd order = []"
| "play_rounds (Suc n) rnd order = round_pairs order rnd # play_rounds n (rnd + 1) (turn_ring order)"

definition round_robin_schedule :: "player list \<Rightarrow> (player \<times> player) list list" where
  "round_robin_schedule ids = (let ring = ring_of ids in play_rounds (length ring - 1) 0 ring)"

text \<open>\<open>Math.ceil(Math.log2(players))\<close> of a number of players.\<close>

fun ceil_log2 :: "nat \<Rightarrow> nat" where
  "ceil_log2 n = (if n \<le> 1 then 0 else Suc (ceil_log2 ((n + 1) div 2)))"

declare ceil_log2.simps [simp del]

definition default_swiss_rounds :: "nat \<Rightarrow> nat" where
  "default_swiss_rounds players = (if players < 2 then 1 else max 1 (min (players - 1) (ceil_log2 players + 1)))"

subsection \<open>Places\<close>

text \<open>Where the player of place \<open>e\<close> sits in round \<open>r\<close>, in a ring of \<open>m + 1\<close> places.\<close>

definition seat :: "nat \<Rightarrow> nat \<Rightarrow> nat \<Rightarrow> nat" where
  "seat m r e = (if e = 0 then 0 else 1 + (e - 1 + r) mod m)"

lemma turn_ring_nth:
  assumes "length order = Suc m" "0 < m" "e < m"
  shows "turn_ring order ! 0 = order ! 0" "turn_ring order ! (1 + (e + 1) mod m) = order ! (1 + e)"
proof -
  show "turn_ring order ! 0 = order ! 0" by (simp add: turn_ring_def)
  show "turn_ring order ! (1 + (e + 1) mod m) = order ! (1 + e)"
  proof (cases "e + 1 = m")
    case True
    then show ?thesis using assms by (simp add: turn_ring_def)
  next
    case False
    then have "e + 1 < m" using assms by simp
    then show ?thesis using assms by (simp add: turn_ring_def)
  qed
qed

lemma turn_ring_length: "2 \<le> length order \<Longrightarrow> length (turn_ring order) = length order"
  by (simp add: turn_ring_def)

definition turned :: "nat \<Rightarrow> 'a list \<Rightarrow> 'a list" where
  "turned r order = (turn_ring ^^ r) order"

lemma turned_length: "2 \<le> length order \<Longrightarrow> length (turned r order) = length order"
  by (induction r) (simp_all add: turned_def turn_ring_length)

lemma turned_seat:
  assumes "length order = Suc m" "0 < m" "e \<le> m"
  shows "turned r order ! seat m r e = order ! e"
proof (induction r)
  case 0
  have "seat m 0 e = e" using assms by (auto simp: seat_def)
  then show ?case by (simp add: turned_def)
next
  case (Suc r)
  have len: "length (turned r order) = Suc m" using turned_length[of order r] assms(1,2) by simp
  have turn: "turned (Suc r) order = turn_ring (turned r order)" by (simp add: turned_def)
  show ?case
  proof (cases "e = 0")
    case True
    then show ?thesis using Suc turn_ring_nth(1)[OF len assms(2,2)] turn_ring_nth(1)[of "turned r order" m 0] len assms(2)
      by (simp add: turn seat_def)
  next
    case False
    let ?k = "(e - 1 + r) mod m"
    have "seat m (Suc r) e = 1 + (?k + 1) mod m" using False by (simp add: seat_def mod_Suc_eq)
    moreover have "turned (Suc r) order ! (1 + (?k + 1) mod m) = turned r order ! (1 + ?k)"
      unfolding turn by (rule turn_ring_nth(2)[OF len assms(2)]) (simp add: assms(2))
    ultimately show ?thesis using Suc False by (simp add: seat_def)
  qed
qed

lemma seat_bound: "0 < m \<Longrightarrow> seat m r e \<le> m"
  using mod_less_divisor[of m "e - 1 + r"] by (auto simp: seat_def Suc_le_eq)

lemma seat_inj:
  assumes "0 < m" "e \<le> m" "f \<le> m" "seat m r e = seat m r f"
  shows "e = f"
proof (cases "e = 0 \<or> f = 0")
  case False
  then have "(e - 1 + r) mod m = (f - 1 + r) mod m" using assms(4) by (simp add: seat_def)
  then have "(e - 1) mod m = (f - 1) mod m" by (simp add: nat_mod_eq_iff)
  then have "e - 1 = f - 1" using False assms(1-3) by simp
  then show ?thesis using False by linarith
qed (use assms in \<open>auto simp: seat_def split: if_splits\<close>)

lemma mod_cancel: "(a + r) mod m = (a + s) mod m \<Longrightarrow> r < m \<Longrightarrow> s < m \<Longrightarrow> r = (s :: nat)"
proof -
  assume "(a + r) mod m = (a + s) mod m" "r < m" "s < m"
  moreover from this(1) have "r mod m = s mod m" unfolding nat_mod_eq_iff by (metis add.assoc add_left_cancel)
  ultimately show ?thesis by simp
qed

lemma halves:
  fixes c m :: nat
  assumes "odd m" "c < m"
  shows "\<exists>!r. r < m \<and> (c + 2 * r) mod m = 0"
proof (rule ex_ex1I)
  obtain r where r: "r < m" "(c + 2 * r) mod m = 0"
  proof (cases "odd c")
    case True
    then have "c + 2 * ((m - c) div 2) = m" using assms by simp
    then show ?thesis using that[of "(m - c) div 2"] assms by simp
  next
    case False
    then show ?thesis
    proof (cases "c = 0")
      case False
      then have "c + 2 * (m - c div 2) = 2 * m" "m - c div 2 < m" using \<open>\<not> odd c\<close> assms by (auto elim!: evenE)
      then show ?thesis using that[of "m - c div 2"] by simp
    qed (use that[of 0] assms in auto)
  qed
  show "\<exists>r. r < m \<and> (c + 2 * r) mod m = 0" using r by (intro exI[of _ r] conjI)
next
  fix r s assume "r < m \<and> (c + 2 * r) mod m = 0" "s < m \<and> (c + 2 * s) mod m = 0"
  then have r: "r < m" "(c + 2 * r) mod m = 0" and s: "s < m" "(c + 2 * s) mod m = 0" by blast+
  show "r = s"
  proof -
    obtain i j where i: "c + 2 * r = m * i" and j: "c + 2 * s = m * j" using r(2) s(2) by (auto simp: mod_eq_0_iff_dvd dvd_def)
    have "m * i < m * 3" "m * j < m * 3" using i j r(1) s(1) assms(2) by linarith+
    then have "i < 3" "j < 3" by simp_all
    moreover have "even (m * i) \<longleftrightarrow> even (m * j)" unfolding i[symmetric] j[symmetric] by simp
    then have "even i \<longleftrightarrow> even j" using assms(1) by simp
    ultimately have "i = j \<or> (i = 0 \<and> j = 2) \<or> (i = 2 \<and> j = 0)" by presburger
    then consider "i = j" | "i = 0" "j = 2" | "i = 2" "j = 0" by blast
    then show ?thesis
    proof cases
      case 1
      then have "c + 2 * r = c + 2 * s" using i j by simp
      then show ?thesis by simp
    next
      case 2
      then have "c = 0" "c + 2 * s = 2 * m" using i j by simp_all
      then show ?thesis using s(1) by simp
    next
      case 3
      then have "c = 0" "c + 2 * r = 2 * m" using i j by simp_all
      then show ?thesis using r(1) by simp
    qed
  qed
qed

lemma meet_once:
  assumes "odd m" "e \<le> m" "f \<le> m" "e \<noteq> f"
  shows "\<exists>!r. r < m \<and> seat m r e + seat m r f = m"
proof -
  have m: "0 < m" using assms(1) by (cases m) auto
  have fixed: "\<exists>!r. r < m \<and> seat m r 0 + seat m r g = m" if g: "0 < g" "g \<le> m" for g
  proof -
    have "(g - 1 + (m - g)) mod m = m - 1" using g by simp
    moreover have "r = s" if "r < m" "(g - 1 + r) mod m = m - 1" "s < m" "(g - 1 + s) mod m = m - 1" for r s
      using that mod_cancel[of "g - 1" r m s] by simp
    moreover have "seat m r 0 + seat m r g = m \<longleftrightarrow> (g - 1 + r) mod m = m - 1" for r using g m by (auto simp: seat_def)
    moreover have "m - g < m" using g m by simp
    ultimately show ?thesis by blast
  qed
  consider "e = 0" "0 < f" | "f = 0" "0 < e" | "0 < e" "0 < f" using assms(4) by linarith
  then show ?thesis
  proof cases
    case 1
    then show ?thesis using fixed[of f] assms(3) by simp
  next
    case 2
    then show ?thesis using fixed[of e] assms(2) by (simp add: add.commute)
  next
    case 3
    let ?a = "e - 1" and ?b = "f - 1" and ?c = "(e + f) mod m"
    have "seat m r e + seat m r f = m \<longleftrightarrow> (?c + 2 * r) mod m = 0" if "r < m" for r
    proof -
      let ?x = "(?a + r) mod m" and ?y = "(?b + r) mod m"
      have xy: "?x \<noteq> ?y" "?x < m" "?y < m" using seat_inj[OF m assms(2,3), of r] assms(4) 3 m by (auto simp: seat_def)
      have "(?x + ?y + 2) mod m = (?a + r + (?b + r) + 2) mod m" by (metis mod_add_eq mod_add_left_eq)
      also have "?a + r + (?b + r) + 2 = e + f + 2 * r" using 3 by simp
      finally have "(?x + ?y + 2) mod m = (?c + 2 * r) mod m" by (simp add: mod_add_left_eq)
      moreover have "(?x + ?y + 2) mod m = 0 \<longleftrightarrow> ?x + ?y + 2 = m"
      proof
        assume "(?x + ?y + 2) mod m = 0"
        then obtain i where i: "?x + ?y + 2 = m * i" by (auto simp: mod_eq_0_iff_dvd dvd_def)
        have "?x + ?y + 2 < 2 * m" using xy by linarith
        then have "m * i < m * 2" using i by simp
        then have "i = 0 \<or> i = 1" by auto
        then show "?x + ?y + 2 = m" using i by auto
      qed simp
      ultimately show ?thesis using 3 by (simp add: seat_def)
    qed
    then show ?thesis using halves[of m ?c] assms(1) m by (metis (no_types, lifting) mod_less_divisor)
  qed
qed

subsection \<open>Rounds\<close>

lemma turn_ring_distinct: "2 \<le> length order \<Longrightarrow> distinct order \<Longrightarrow> distinct (turn_ring order) \<and> set (turn_ring order) = set order"
proof -
  assume order: "2 \<le> length order" "distinct order"
  then obtain a zs where a: "order = a # zs" "zs \<noteq> []" by (cases order rule: remdups_adj.cases) auto
  then obtain mid z where "zs = mid @ [z]" by (cases zs rule: rev_cases) auto
  then show ?thesis using a order(2) by (auto simp: turn_ring_def nth_append)
qed

lemma turned_distinct: "2 \<le> length order \<Longrightarrow> distinct order \<Longrightarrow> distinct (turned r order) \<and> set (turned r order) = set order"
  by (induction r) (simp_all add: turned_def[of "Suc _"] turned_def[symmetric] turn_ring_distinct turned_length, simp add: turned_def)

lemma play_rounds_nth: "r < n \<Longrightarrow> play_rounds n rnd order ! r = round_pairs (turned r order) (rnd + r)"
proof (induction n arbitrary: r rnd order)
  case (Suc n)
  show ?case
  proof (cases r)
    case (Suc k)
    then show ?thesis using Suc.IH[of k "rnd + 1" "turn_ring order"] Suc.prems by (simp add: turned_def funpow_swap1)
  qed (simp add: turned_def)
qed simp

lemma play_rounds_length [simp]: "length (play_rounds n rnd order) = n"
  by (induction n arbitrary: rnd order) auto

lemma table_pair_players:
  "(x, y) \<in> set (table_pair order rnd i) \<Longrightarrow>
   (order ! i = Some x \<and> order ! (length order - 1 - i) = Some y) \<or> (order ! i = Some y \<and> order ! (length order - 1 - i) = Some x)"
  by (auto simp: table_pair_def Let_def vacant_def split: if_splits)

lemma round_pairs_iff:
  assumes len: "length order = Suc m" "odd m" and xy: "x \<noteq> []" "y \<noteq> []"
  shows "(x, y) \<in> set (round_pairs order rnd) \<or> (y, x) \<in> set (round_pairs order rnd) \<longleftrightarrow>
    (\<exists>p q. p + q = m \<and> order ! p = Some x \<and> order ! q = Some y)"
proof
  assume "(x, y) \<in> set (round_pairs order rnd) \<or> (y, x) \<in> set (round_pairs order rnd)"
  then obtain i where "i < Suc m div 2" "(x, y) \<in> set (table_pair order rnd i) \<or> (y, x) \<in> set (table_pair order rnd i)"
    using len(1) by (auto simp: round_pairs_def)
  moreover from this(1) have "i + (m - i) = m" by simp
  ultimately show "\<exists>p q. p + q = m \<and> order ! p = Some x \<and> order ! q = Some y"
    using table_pair_players[of x y order rnd i] table_pair_players[of y x order rnd i] len(1)
    by (metis add.commute diff_Suc_1)
next
  assume "\<exists>p q. p + q = m \<and> order ! p = Some x \<and> order ! q = Some y"
  then obtain p q where pq: "p + q = m" "order ! p = Some x" "order ! q = Some y" by blast
  have table: "(u, v) \<in> set (table_pair order rnd i) \<or> (v, u) \<in> set (table_pair order rnd i)"
    if "order ! i = Some u" "order ! (m - i) = Some v" "u \<noteq> []" "v \<noteq> []" for i u v
    using that len(1) by (simp add: table_pair_def Let_def vacant_def)
  have "p \<noteq> q" using pq(1) len(2) by auto
  then consider "p < Suc m div 2" | "q < Suc m div 2" using pq(1) by linarith
  then show "(x, y) \<in> set (round_pairs order rnd) \<or> (y, x) \<in> set (round_pairs order rnd)"
  proof cases
    case 1
    have "(x, y) \<in> set (table_pair order rnd p) \<or> (y, x) \<in> set (table_pair order rnd p)"
      using table[of p x y] pq xy by auto
    then show ?thesis using 1 len(1) by (auto simp: round_pairs_def)
  next
    case 2
    have "(y, x) \<in> set (table_pair order rnd q) \<or> (x, y) \<in> set (table_pair order rnd q)"
      using table[of q y x] pq xy by auto
    then show ?thesis using 2 len(1) by (auto simp: round_pairs_def)
  qed
qed

lemma round_pairs_distinct:
  assumes len: "length order = Suc m" "odd m" and order: "distinct order"
  shows "distinct (concat (map (\<lambda>(a, b). [a, b]) (round_pairs order rnd)))"
proof -
  let ?f = "\<lambda>i. concat (map (\<lambda>(a, b). [a, b]) (table_pair order rnd i))"
  have seats: "\<exists>p \<in> {i, m - i}. order ! p = Some x" if "x \<in> set (?f i)" for x i
    using that len(1) by (auto dest!: table_pair_players split: if_splits)
  have "distinct (concat (map ?f [0..<Suc m div 2]))"
  proof (rule distinct_labelled)
    fix i assume "i \<in> set [0..<Suc m div 2]"
    then have i: "i < Suc m div 2" by simp
    then have "i \<noteq> m - i" "i < Suc m" "m - i < Suc m" using len(2) by (auto elim!: oddE)
    then have "order ! i \<noteq> order ! (m - i)" using order len(1) by (simp add: nth_eq_iff_index_eq)
    then show "distinct (?f i)" using len(1) by (auto simp: table_pair_def Let_def vacant_def)
  next
    fix i j x assume "i \<in> set [0..<Suc m div 2]" "j \<in> set [0..<Suc m div 2]" "x \<in> set (?f i)" "x \<in> set (?f j)"
    moreover from this(3,4) obtain p q where pq: "p \<in> {i, m - i}" "q \<in> {j, m - j}" "order ! p = order ! q"
      using seats by metis
    ultimately have "i < Suc m div 2" "j < Suc m div 2" by simp_all
    moreover from this pq(1,2) have "p < Suc m" "q < Suc m" by auto
    then have "p = q" using pq(3) order len(1) by (simp add: nth_eq_iff_index_eq)
    ultimately show "i = j" using pq(1,2) len(2) by (auto elim!: oddE)
  qed simp
  moreover have "concat (map g (concat (map h xs))) = concat (map (\<lambda>x. concat (map g (h x))) xs)" for g :: "_ \<Rightarrow> player list" and h xs
    by (induction xs) auto
  then have "concat (map (\<lambda>(a, b). [a, b]) (round_pairs order rnd)) = concat (map ?f [0..<Suc m div 2])"
    unfolding round_pairs_def len(1) .
  ultimately show ?thesis by simp
qed

text \<open>Two players meet in the rounds in which their seats face each other.\<close>

lemma faces_iff_seats:
  assumes len: "length (ring_of ids) = Suc m" and odd: "odd m" and dist: "distinct ids" and names: "x \<noteq> []" "y \<noteq> []"
    and e: "e \<le> m" "ring_of ids ! e = Some x" and f: "f \<le> m" "ring_of ids ! f = Some y"
  shows "(x, y) \<in> set (round_pairs (turned r (ring_of ids)) r) \<or> (y, x) \<in> set (round_pairs (turned r (ring_of ids)) r) \<longleftrightarrow>
    seat m r e + seat m r f = m"
proof -
  let ?order = "turned r (ring_of ids)"
  have m: "0 < m" using odd by (cases m) auto
  have order: "length ?order = Suc m" "distinct ?order"
    using len m turned_length[of "ring_of ids" r] turned_distinct[of "ring_of ids" r] dist by (auto simp: ring_of_def distinct_map)
  have sat: "?order ! seat m r e = Some x" "?order ! seat m r f = Some y"
    using turned_seat[OF len m e(1), of r] turned_seat[OF len m f(1), of r] e f by simp_all
  have seated: "p = seat m r g" if "?order ! p = ring_of ids ! g" "p \<le> m" "g \<le> m" for p g
    using that turned_seat[OF len m that(3), of r] order seat_bound[OF m, of r g] by (metis less_Suc_eq_le nth_eq_iff_index_eq)
  have "(\<exists>p q. p + q = m \<and> ?order ! p = Some x \<and> ?order ! q = Some y) \<longleftrightarrow> seat m r e + seat m r f = m"
  proof
    assume "\<exists>p q. p + q = m \<and> ?order ! p = Some x \<and> ?order ! q = Some y"
    then obtain p q where "p + q = m" "?order ! p = Some x" "?order ! q = Some y" by blast
    then show "seat m r e + seat m r f = m" using seated[of p e] seated[of q f] e f by simp
  qed (use sat in blast)
  then show ?thesis using round_pairs_iff[OF order(1) odd names, of r] by simp
qed

text \<open>The rounds of a schedule: one for every seat but one, of the ring turned so often.\<close>

lemma schedule_rounds:
  assumes "length (ring_of ids) = Suc m"
  shows "odd m" "length (round_robin_schedule ids) = m"
    "r < m \<Longrightarrow> round_robin_schedule ids ! r = round_pairs (turned r (ring_of ids)) r"
  using assms by (simp_all add: round_robin_schedule_def Let_def play_rounds_nth) (auto simp: ring_of_def split: if_splits)

lemma schedule_fair:
  assumes "distinct ids" "pairs \<in> set (round_robin_schedule ids)"
  shows "distinct (concat (map (\<lambda>(a, b). [a, b]) pairs)) \<and> (\<forall>(a, b) \<in> set pairs. a \<in> set ids \<and> b \<in> set ids)"
proof (cases "length (ring_of ids)")
  case 0
  then show ?thesis using assms(2) by (auto simp: round_robin_schedule_def)
next
  case (Suc m)
  note S = schedule_rounds[OF Suc]
  then have m: "0 < m" by (cases m) auto
  obtain r where r: "r < m" "pairs = round_pairs (turned r (ring_of ids)) r"
    using assms(2) S by (metis in_set_conv_nth)
  have order: "length (turned r (ring_of ids)) = Suc m" "distinct (turned r (ring_of ids))" "set (turned r (ring_of ids)) = set (ring_of ids)"
    using Suc m turned_length[of "ring_of ids" r] turned_distinct[of "ring_of ids" r] assms(1) by (auto simp: ring_of_def distinct_map)
  have "a \<in> set ids \<and> b \<in> set ids" if ab: "(a, b) \<in> set pairs" for a b
  proof -
    obtain i where "i < Suc m div 2" "(a, b) \<in> set (table_pair (turned r (ring_of ids)) r i)"
      using ab r(2) order(1) by (auto simp: round_pairs_def)
    moreover from this(1) have "i < Suc m" "Suc m - 1 - i < Suc m" by linarith+
    ultimately obtain p q where "p < Suc m" "q < Suc m" "turned r (ring_of ids) ! p = Some a" "turned r (ring_of ids) ! q = Some b"
      using table_pair_players[of a b "turned r (ring_of ids)" r i] order(1) by metis
    then have "Some a \<in> set (ring_of ids)" "Some b \<in> set (ring_of ids)" using order nth_mem[of _ "turned r (ring_of ids)"] by metis+
    then show ?thesis by (auto simp: ring_of_def split: if_splits)
  qed
  then show ?thesis using round_pairs_distinct[OF order(1) S(1) order(2)] r(2) by auto
qed

text \<open>
  C9. Everybody meets everybody once. In the schedule of a round robin, for players with different, non-empty
  names and for odd and even fields alike, every two players meet in exactly one round, nobody plays twice in
  a round, and only the players given play.
\<close>

theorem round_robin_complete:
  assumes "distinct ids" "[] \<notin> set ids"
  shows "(\<forall>x \<in> set ids. \<forall>y \<in> set ids. x \<noteq> y \<longrightarrow>
      (\<exists>!r. r < length (round_robin_schedule ids) \<and>
        ((x, y) \<in> set (round_robin_schedule ids ! r) \<or> (y, x) \<in> set (round_robin_schedule ids ! r)))) \<and>
    (\<forall>pairs \<in> set (round_robin_schedule ids). distinct (concat (map (\<lambda>(a, b). [a, b]) pairs)) \<and>
      (\<forall>(a, b) \<in> set pairs. a \<in> set ids \<and> b \<in> set ids))"
proof -
  let ?ring = "ring_of ids" and ?S = "round_robin_schedule ids"
  have "\<exists>!r. r < length ?S \<and> ((x, y) \<in> set (?S ! r) \<or> (y, x) \<in> set (?S ! r))"
    if xy: "x \<in> set ids" "y \<in> set ids" "x \<noteq> y" for x y
  proof -
    have ring: "Some x \<in> set ?ring" "Some y \<in> set ?ring" using xy by (auto simp: ring_of_def)
    then obtain m where m: "length ?ring = Suc m" by (cases "length ?ring") auto
    obtain e f where ef: "e \<le> m" "?ring ! e = Some x" "f \<le> m" "?ring ! f = Some y"
      using ring m by (metis in_set_conv_nth less_Suc_eq_le)
    note S = schedule_rounds[OF m]
    have "x \<noteq> []" "y \<noteq> []" using xy assms(2) by auto
    then have "((x, y) \<in> set (?S ! r) \<or> (y, x) \<in> set (?S ! r)) \<longleftrightarrow> seat m r e + seat m r f = m" if "r < m" for r
      using faces_iff_seats[OF m S(1) assms(1) _ _ ef] S(3)[OF that] by simp
    moreover have "e \<noteq> f" using ef xy(3) by auto
    ultimately show ?thesis using meet_once[OF S(1) ef(1,3)] S(2) by (metis (no_types, lifting))
  qed
  then show ?thesis using schedule_fair[OF assms(1)] by blast
qed

theorem round_robin_complete_witness:
  "round_robin_schedule [''a'', ''b'', ''c''] = [[(''c'', ''b'')], [(''c'', ''a'')], [(''a'', ''b'')]] \<and>
   (\<exists>!r. r < length (round_robin_schedule [''a'', ''b'', ''c'']) \<and>
     ((''a'', ''b'') \<in> set (round_robin_schedule [''a'', ''b'', ''c''] ! r) \<or>
      (''b'', ''a'') \<in> set (round_robin_schedule [''a'', ''b'', ''c''] ! r)))"
proof
  show "round_robin_schedule [''a'', ''b'', ''c''] = [[(''c'', ''b'')], [(''c'', ''a'')], [(''a'', ''b'')]]" by code_simp
  have "distinct [''a'', ''b'', ''c'']" "[] \<notin> set [''a'', ''b'', ''c'']" by simp_all
  from conjunct1[OF round_robin_complete[OF this], rule_format, of "''a''" "''b''"]
  show "\<exists>!r. r < length (round_robin_schedule [''a'', ''b'', ''c'']) \<and>
     ((''a'', ''b'') \<in> set (round_robin_schedule [''a'', ''b'', ''c''] ! r) \<or>
      (''b'', ''a'') \<in> set (round_robin_schedule [''a'', ''b'', ''c''] ! r))" by simp
qed

end
