(* ===== verification/Tournament_Game.thy ===== *)
theory Tournament_Game
  imports Chess_End Chess_Perft Tournament_Schedule "HOL-Library.Word"
begin

unbundle bit_operations_syntax

text \<open>
  One game of the chess tournament (\<open>apps/api/src/chess/chess-tournament.ts\<close>): the prompt, the choice of a
  move (\<open>chooseMove\<close>), the loop of \<open>playGame\<close> ply by ply, and the replay of a paused game. What a provider
  answers, and when, is an environment; times are milliseconds. Writing the state to its file is left out.
\<close>

subsection \<open>Data\<close>

datatype game_status = GamePending | GameRunning | GameFinished

datatype game_end_reason = ByRules end_reason | Adjudication | Forfeit | Bye

record side_stats =
  ss_modelMoves :: nat
  ss_illegalReplies :: nat
  ss_fallbackMoves :: nat
  ss_totalLatencyMs :: real
  ss_tokens :: nat

definition empty_side_stats :: side_stats where
  "empty_side_stats = \<lparr>ss_modelMoves = 0, ss_illegalReplies = 0, ss_fallbackMoves = 0, ss_totalLatencyMs = 0, ss_tokens = 0\<rparr>"

record chess_game =
  cg_id :: string
  cg_round :: nat
  cg_white :: player
  cg_black :: "player option"
  cg_status :: game_status
  cg_result :: "chess_result option"
  cg_reason :: "game_end_reason option"
  cg_fen :: string
  cg_san :: "string list"
  cg_uci :: "string list"
  cg_thinking :: "chess_color option"
  cg_queued :: bool
  cg_strikes :: "chess_color \<Rightarrow> nat"
  cg_lastNote :: "string option"
  cg_startedAt :: "real option"
  cg_finishedAt :: "real option"
  cg_stats :: "(chess_color \<Rightarrow> side_stats) option"

definition MAX_STRIKES :: nat where
  "MAX_STRIKES = 3"

definition ADJUDICATION_MARGIN :: int where
  "ADJUDICATION_MARGIN = 3"

definition LIVE_SAN :: nat where
  "LIVE_SAN = 24"

definition PROVIDER_RETRY_DELAY_MS :: real where
  "PROVIDER_RETRY_DELAY_MS = 750"

definition new_game :: "string \<Rightarrow> nat \<Rightarrow> player \<Rightarrow> player option \<Rightarrow> chess_game" where
  "new_game ident rnd white black = \<lparr>cg_id = ident, cg_round = rnd, cg_white = white, cg_black = black, cg_status = GamePending,
     cg_result = None, cg_reason = None, cg_fen = start_fen, cg_san = [], cg_uci = [], cg_thinking = None, cg_queued = False,
     cg_strikes = (\<lambda>_. 0), cg_lastNote = None, cg_startedAt = None, cg_finishedAt = None, cg_stats = None\<rparr>"

definition reset_game :: "chess_game \<Rightarrow> chess_game" where
  "reset_game g = new_game (cg_id g) (cg_round g) (cg_white g) (cg_black g)"

definition pause_game :: "chess_game \<Rightarrow> chess_game" where
  "pause_game g = g\<lparr>cg_status := GamePending, cg_thinking := None, cg_queued := False\<rparr>"

subsection \<open>Replay\<close>

type_synonym seen_positions = "(string \<times> nat) list"

definition note_position :: "position \<Rightarrow> seen_positions \<Rightarrow> seen_positions" where
  "note_position p seen = map_set (position_key p) (dflt (map_of seen (position_key p)) 0 + 1) seen"

definition kick_off :: "position \<times> seen_positions" where
  "kick_off = (start_position, [(position_key start_position, 1)])"

fun replay_moves :: "position \<times> seen_positions \<Rightarrow> string list \<Rightarrow> (position \<times> seen_positions) option" where
  "replay_moves (p, seen) [] = Some (p, seen)"
| "replay_moves (p, seen) (uci # ucis) = (case List.find (\<lambda>m. move_to_uci m = uci) (legal_moves p) of
     None \<Rightarrow> None
   | Some m \<Rightarrow> let q = make_move p m in replay_moves (q, note_position q seen) ucis)"

definition replay_game :: "chess_game \<Rightarrow> (position \<times> seen_positions) option" where
  "replay_game g = (case replay_moves kick_off (cg_uci g) of None \<Rightarrow> None
   | Some st \<Rightarrow> if length (cg_san g) = length (cg_uci g) then Some st else None)"

subsection \<open>Numbers that look random\<close>

text \<open>\<open>Math.imul\<close>, \<open>^\<close> and \<open>>>>\<close> work on 32 bits.\<close>

definition stable_hash :: "string \<Rightarrow> 32 word" where
  "stable_hash s = foldl (\<lambda>value c. (value XOR of_nat (of_char c)) * 16777619) 2166136261 s"

definition next_state :: "32 word \<Rightarrow> 32 word" where
  "next_state state = (let s = (state XOR drop_bit 15 state) * (1 OR state) in s XOR (s + (s XOR drop_bit 7 s) * (61 OR s)))"

definition random_draw :: "32 word \<Rightarrow> real" where
  "random_draw state = of_int (uint (state XOR drop_bit 14 state)) / 4294967296"

subsection \<open>The prompt\<close>

definition san_part :: "nat \<Rightarrow> string list \<Rightarrow> nat \<Rightarrow> string" where
  "san_part start san index = (let number = show_nat (index div 2 + 1) in
     if index mod 2 = 0 then number @ ''. '' @ san ! index
     else if index = start then number @ ''... '' @ san ! index else san ! index)"

definition recent_move_text :: "string list \<Rightarrow> string" where
  "recent_move_text san = (if san = [] then ''(none)''
     else let start = length san - LIVE_SAN in join_with '' '' (map (san_part start san) [start..<length san]))"

definition printable :: "char \<Rightarrow> char" where
  "printable c = (let n = of_char c :: nat in if n < 32 \<or> 126 < n then CHR '' '' else if n = 34 then char_of (39 :: nat) else c)"

definition shown_answer :: "string \<Rightarrow> string" where
  "shown_answer answer = (let shown = take 60 (js_trim (map printable answer)) in if shown = [] then ''(empty)'' else shown)"

definition quoted :: "string \<Rightarrow> string" where
  "quoted s = quote_char # s @ [quote_char]"

definition build_move_prompt :: "position \<Rightarrow> chess_move list \<Rightarrow> string list \<Rightarrow> string option \<Rightarrow> string" where
  "build_move_prompt p legal san previousAnswer = join_with [char_of (10 :: nat)]
     ([''You play '' @ (if po_turn p = White then ''White'' else ''Black'') @ ''.'',
       ''Position (FEN): '' @ to_fen p,
       ''Moves so far (SAN): '' @ recent_move_text san,
       ''Legal moves (UCI): '' @ join_with '' '' (map move_to_uci legal)] @
      (case previousAnswer of None \<Rightarrow> []
       | Some answer \<Rightarrow> [''Your previous answer '' @ quoted (shown_answer answer) @
           '' was not a legal move. Choose exactly one move from the legal list.'']) @
      [''Answer: {'' @ quoted ''move'' @ '':'' @ quoted ''<uci>'' @ ''}''])"

subsection \<open>Choosing a move\<close>

text \<open>
  How a request ends: with a text and perhaps a count of tokens; by the move's time-out; by an error of the
  provider; or because the run was stopped (the outer signal).
\<close>

datatype request_end = Answered string "nat option" | TimedOut | ProviderError | RunStopped

record move_env =
  me_slots :: bool \<comment> \<open>\<open>acquireSlots\<close> gave the slots, it did not throw\<close>
  me_started :: real
  me_now :: "nat \<Rightarrow> real" \<comment> \<open>the clock before an attempt\<close>
  me_request :: "nat \<Rightarrow> string \<Rightarrow> request_end" \<comment> \<open>what comes of an attempt with a prompt\<close>
  me_later :: "nat \<Rightarrow> real" \<comment> \<open>the clock after an attempt failed\<close>
  me_slept :: bool \<comment> \<open>the pause before a retry was not cut short\<close>
  me_ended :: real

record attempts =
  at_illegal :: nat
  at_retries :: nat
  at_tokens :: nat
  at_previous :: "string option"
  at_failure :: string

definition first_attempt :: attempts where
  "first_attempt = \<lparr>at_illegal = 0, at_retries = 0, at_tokens = 0, at_previous = None, at_failure = ''gave no legal move''\<rparr>"

datatype attempts_end = Chose chess_move attempts | GaveUp attempts | Interrupted

text \<open>The loop over the attempts: those left, and the number of this one.\<close>

fun try_moves :: "move_env \<Rightarrow> position \<Rightarrow> chess_move list \<Rightarrow> string list \<Rightarrow> real \<Rightarrow> nat \<Rightarrow> nat \<Rightarrow> attempts \<Rightarrow> attempts_end" where
  "try_moves env p legal san deadline 0 attempt st = GaveUp st"
| "try_moves env p legal san deadline (Suc n) attempt st =
     (if attempt > 0 \<and> deadline - me_now env attempt < 1000 then GaveUp st
      else (case me_request env attempt (build_move_prompt p legal san (at_previous st)) of
        Answered answer tokens \<Rightarrow>
          (let st1 = st\<lparr>at_tokens := at_tokens st + dflt tokens 0\<rparr> in
           case find_move_in_text p answer legal of
             Some m \<Rightarrow> Chose m st1
           | None \<Rightarrow>
               (let st2 = st1\<lparr>at_illegal := at_illegal st + 1, at_previous := Some answer, at_failure := ''gave no legal move''\<rparr> in
                if at_illegal st2 > 1 then GaveUp st2 else try_moves env p legal san deadline n (attempt + 1) st2))
      | RunStopped \<Rightarrow> Interrupted
      | TimedOut \<Rightarrow> GaveUp (st\<lparr>at_failure := ''timed out''\<rparr>)
      | ProviderError \<Rightarrow>
          (let st1 = st\<lparr>at_failure := ''provider error''\<rparr> in
           if at_retries st > 0 \<or> deadline - me_later env attempt < PROVIDER_RETRY_DELAY_MS + 1000 then GaveUp st1
           else if me_slept env then try_moves env p legal san deadline n (attempt + 1) (st1\<lparr>at_retries := at_retries st + 1\<rparr>)
           else Interrupted)))"

record choice =
  ch_move :: chess_move
  ch_fallback :: "string option"
  ch_illegal :: nat
  ch_latencyMs :: real
  ch_tokens :: nat

definition random_move :: "chess_move list \<Rightarrow> 32 word \<Rightarrow> chess_move" where
  "random_move legal state = legal ! nat \<lfloor>random_draw state * real (length legal)\<rfloor>"

text \<open>\<open>chooseMove\<close>: nothing when the run was stopped; the random generator moves on when it is used.\<close>

definition choose_move ::
  "real \<Rightarrow> move_env \<Rightarrow> position \<Rightarrow> chess_move list \<Rightarrow> string list \<Rightarrow> 32 word \<Rightarrow> (choice \<times> 32 word) option" where
  "choose_move moveTimeoutMs env p legal san state =
     (if \<not> me_slots env then None
      else case try_moves env p legal san (me_started env + moveTimeoutMs) 3 0 first_attempt of
        Interrupted \<Rightarrow> None
      | Chose m st \<Rightarrow> Some (\<lparr>ch_move = m, ch_fallback = None, ch_illegal = at_illegal st,
            ch_latencyMs = me_ended env - me_started env, ch_tokens = at_tokens st\<rparr>, state)
      | GaveUp st \<Rightarrow> Some (\<lparr>ch_move = random_move legal (next_state state), ch_fallback = Some (at_failure st), ch_illegal = at_illegal st,
            ch_latencyMs = me_ended env - me_started env, ch_tokens = at_tokens st\<rparr>, next_state state))"

subsection \<open>Playing\<close>

record game_settings =
  gs_moveTimeoutMs :: real
  gs_maxPlies :: nat

record play_state =
  ps_game :: chess_game
  ps_position :: position
  ps_seen :: seen_positions
  ps_random :: "32 word"

datatype play_end = PlayOver chess_result game_end_reason "chess_color option" play_state | PlayPaused chess_game | PlayOn play_state

definition color_name :: "chess_color \<Rightarrow> string" where
  "color_name side = (if side = White then ''White'' else ''Black'')"

definition game_stats :: "chess_game \<Rightarrow> chess_color \<Rightarrow> side_stats" where
  "game_stats g = dflt (cg_stats g) (\<lambda>_. empty_side_stats)"

definition adjudicate :: "position \<Rightarrow> chess_result" where
  "adjudicate p = (let balance = material_balance p in
     if balance \<ge> ADJUDICATION_MARGIN then WhiteWins else if balance \<le> - ADJUDICATION_MARGIN then BlackWins else Draw)"

definition loser_result :: "chess_color \<Rightarrow> chess_result" where
  "loser_result side = (if side = White then BlackWins else WhiteWins)"

definition count_choice :: "choice \<Rightarrow> side_stats \<Rightarrow> side_stats" where
  "count_choice c s = (let s1 = s\<lparr>ss_illegalReplies := ss_illegalReplies s + ch_illegal c,
        ss_totalLatencyMs := ss_totalLatencyMs s + ch_latencyMs c, ss_tokens := ss_tokens s + ch_tokens c\<rparr> in
     if ch_fallback c = None then s1\<lparr>ss_modelMoves := ss_modelMoves s + 1\<rparr> else s1\<lparr>ss_fallbackMoves := ss_fallbackMoves s + 1\<rparr>)"

definition strike_note :: "chess_color \<Rightarrow> string \<Rightarrow> nat \<Rightarrow> string" where
  "strike_note side failure strikes = color_name side @ '' '' @ failure @ '': random legal move (strike '' @ show_nat strikes @ ''/'' @
     show_nat MAX_STRIKES @ '')''"

definition count_in_game :: "chess_color \<Rightarrow> choice \<Rightarrow> chess_game \<Rightarrow> chess_game" where
  "count_in_game side c g =
     (let g1 = g\<lparr>cg_stats := Some ((game_stats g)(side := count_choice c (game_stats g side)))\<rparr> in
      case ch_fallback c of None \<Rightarrow> g1
      | Some failure \<Rightarrow> let strikes = cg_strikes g side + 1 in
          g1\<lparr>cg_strikes := (cg_strikes g)(side := strikes), cg_lastNote := Some (strike_note side failure strikes)\<rparr>)"

definition push_move :: "chess_move \<Rightarrow> chess_move list \<Rightarrow> play_state \<Rightarrow> play_state" where
  "push_move m legal st = (let p = ps_position st; q = make_move p m; g = ps_game st in
     st\<lparr>ps_game := g\<lparr>cg_san := cg_san g @ [move_to_san p m legal], cg_uci := cg_uci g @ [move_to_uci m], cg_fen := to_fen q\<rparr>,
        ps_position := q, ps_seen := note_position q (ps_seen st)\<rparr>)"

text \<open>One turn of the loop of \<open>playGame\<close>; \<open>stopped\<close> is the signal at its start.\<close>

definition play_ply :: "game_settings \<Rightarrow> bool \<Rightarrow> move_env \<Rightarrow> play_state \<Rightarrow> play_end" where
  "play_ply settings stopped env st =
     (if stopped then PlayPaused (pause_game (ps_game st))
      else let p = ps_position st; legal = legal_moves p; g = ps_game st in
      case game_outcome p (dflt (map_of (ps_seen st) (position_key p)) 1) legal of
        Some (result, reason) \<Rightarrow> PlayOver result (ByRules reason) None st
      | None \<Rightarrow>
          if length (cg_uci g) \<ge> gs_maxPlies settings then PlayOver (adjudicate p) Adjudication None st
          else let side = po_turn p in
          case choose_move (gs_moveTimeoutMs settings) env p legal (cg_san g) (ps_random st) of
            None \<Rightarrow> PlayPaused (pause_game (g\<lparr>cg_thinking := Some side\<rparr>))
          | Some (c, random) \<Rightarrow>
              let g1 = count_in_game side c (g\<lparr>cg_thinking := Some side\<rparr>); st1 = st\<lparr>ps_game := g1, ps_random := random\<rparr> in
              if ch_fallback c \<noteq> None \<and> cg_strikes g1 side \<ge> MAX_STRIKES
              then PlayOver (loser_result side) Forfeit (Some side) st1
              else PlayOn (push_move (ch_move c) legal st1))"

text \<open>The start of \<open>playGame\<close>: a game with moves is replayed, any other starts anew.\<close>

definition sit_down :: "string \<Rightarrow> real \<Rightarrow> chess_game \<Rightarrow> play_state" where
  "sit_down tournament now g =
     (let resumed = (if cg_uci g \<noteq> [] then replay_game g else None);
          g1 = (if resumed = None then reset_game g else g);
          g2 = g1\<lparr>cg_stats := Some (game_stats g1), cg_status := GameRunning, cg_startedAt := Some (dflt (cg_startedAt g1) now)\<rparr>;
          place = dflt resumed kick_off
      in \<lparr>ps_game = g2, ps_position = fst place, ps_seen = snd place,
          ps_random = stable_hash (tournament @ '':'' @ cg_id g @ '':'' @ show_nat (length (cg_uci g)))\<rparr>)"

text \<open>The loop, by the number of the ply; a ply is played only while fewer than \<open>maxPlies\<close> were.\<close>

function play_on :: "game_settings \<Rightarrow> (nat \<Rightarrow> bool) \<Rightarrow> (nat \<Rightarrow> move_env) \<Rightarrow> play_state \<Rightarrow> play_end" where
  "play_on settings stops envs st =
     (let ply = length (cg_uci (ps_game st)) in
      case play_ply settings (stops ply) (envs ply) st of
        PlayOn st' \<Rightarrow> play_on settings stops envs st'
      | over \<Rightarrow> over)"
  by pat_completeness auto

lemma ply_counts:
  "play_ply settings stopped env st = PlayOn st' \<Longrightarrow>
   length (cg_uci (ps_game st')) = Suc (length (cg_uci (ps_game st))) \<and> length (cg_uci (ps_game st)) < gs_maxPlies settings"
  by (auto simp: play_ply_def Let_def push_move_def count_in_game_def split: if_splits option.splits prod.splits)

termination play_on
  by (relation "measure (\<lambda>(settings, _, _, st). gs_maxPlies settings - length (cg_uci (ps_game st)))") (auto dest!: ply_counts)

declare play_on.simps [simp del]

definition play_game :: "game_settings \<Rightarrow> string \<Rightarrow> real \<Rightarrow> (nat \<Rightarrow> bool) \<Rightarrow> (nat \<Rightarrow> move_env) \<Rightarrow> chess_game \<Rightarrow> play_end" where
  "play_game settings tournament now stops envs g = play_on settings stops envs (sit_down tournament now g)"

end
