(* ===== verification/Tournament_Play.thy ===== *)
theory Tournament_Play
  imports Tournament_Game
begin

text \<open>
  What a game of the tournament keeps: coordinates name a legal move unambiguously, so the moves a game has
  stored replay to its position and its count of repetitions; and every game that is not stopped ends, with
  the result its end calls for.
\<close>

subsection \<open>Coordinates name one legal move\<close>

text \<open>The move from \<open>a\<close> to \<open>b\<close>, read off the position.\<close>

definition the_move :: "position \<Rightarrow> nat \<Rightarrow> nat \<Rightarrow> string option \<Rightarrow> chess_move" where
  "the_move p a b promotion =
     (let piece = po_board p ! a; target = po_board p ! b; king = (to_lower piece = ''k'');
          passing = (to_lower piece = ''p'' \<and> file_of b \<noteq> file_of a \<and> target = [])
      in \<lparr>mv_from = a, mv_to = b, mv_piece = piece,
          mv_captured = (if passing then Some (own ''p'' (opposite (po_turn p))) else if target = [] then None else Some target),
          mv_promotion = promotion,
          mv_castle = (if king \<and> b = a + 2 then Some KingSide else if king \<and> a = b + 2 then Some QueenSide else None),
          mv_enPassant = passing\<rparr>)"

lemma king_step_small: "d \<in> set king_steps \<Longrightarrow> reach a 1 d b \<Longrightarrow> b \<noteq> a + 2 \<and> a \<noteq> b + 2"
proof -
  assume d: "d \<in> set king_steps" "reach a 1 d b"
  have "list_all (\<lambda>d. fst d + 8 * snd d \<noteq> 2 \<and> fst d + 8 * snd d \<noteq> -2) king_steps" by code_simp
  then have "fst d + 8 * snd d \<noteq> 2 \<and> fst d + 8 * snd d \<noteq> -2" using d(1) unfolding list_all_iff by blast
  then show ?thesis using reach_diff[OF d(2)] by auto
qed

lemma pawn_move_eq:
  assumes "m \<in> set (add_pawn_move (plain_move a b piece captured))"
  shows "m = (plain_move a b piece captured)\<lparr>mv_promotion := mv_promotion m\<rparr>"
  using assms by (auto simp: add_pawn_move_def plain_move_def split: if_splits)

lemma move_determined:
  assumes board: "valid_board (po_board p)" "a < 64" and m: "m \<in> set (moves_from p a)"
  shows "m = the_move p a (mv_to m) (mv_promotion m)"
  using m valid_at[OF board]
proof (cases rule: moves_from_cases)
  case (goes b)
  have "to_lower (po_board p ! a) = ''k'' \<Longrightarrow> b \<noteq> a + 2 \<and> a \<noteq> b + 2"
    using goes(2) king_step_small by (auto simp: aims_def Let_def)
  then show ?thesis using goes(1) goes_to_fields[OF goes(3)] by (intro chess_move.equality) (auto simp: the_move_def Let_def)
next
  case (push b)
  then have "file_of b = file_of a" by (simp add: reach_def)
  moreover have "mv_to m = b" using pawn_move_fields[OF push(4)] by simp
  ultimately show ?thesis using push(1,3) by (subst pawn_move_eq[OF push(4)]) (simp add: the_move_def plain_move_def)
next
  case (double b e)
  then have "file_of b = file_of a" by (simp add: reach_def)
  then show ?thesis using double(1,5) by (simp add: double(7) the_move_def plain_move_def)
next
  case (take b)
  have "mv_to m = b" using pawn_move_fields[OF take(5)] by simp
  then show ?thesis using take(1,3) by (subst pawn_move_eq[OF take(5)]) (simp add: the_move_def plain_move_def)
next
  case (passing b)
  then have "file_of b \<noteq> file_of a" by (auto simp: reach_def)
  then show ?thesis using passing(1,2) by (simp add: passing(4) the_move_def plain_move_def)
next
  case king_side
  then show ?thesis by (simp add: the_move_def plain_move_def)
next
  case queen_side
  then have "2 \<le> a" using home_bounds[of "po_turn p"] by auto
  then show ?thesis using queen_side by (simp add: the_move_def plain_move_def)
qed

lemma legal_from:
  assumes "m \<in> set (legal_moves p)"
  obtains a where "a < 64" "m \<in> set (moves_from p a)" "mv_from m = a"
  using assms moves_from_goes by (auto simp: legal_moves_def pseudo_legal_moves_def)

lemma legal_bounds:
  assumes "proper p" "m \<in> set (legal_moves p)"
  shows "mv_from m < 64 \<and> mv_to m < 64 \<and> (mv_promotion m = None \<or> (\<exists>q \<in> set promotions. mv_promotion m = Some q))"
proof -
  obtain a where a: "a < 64" "m \<in> set (moves_from p a)" "mv_from m = a" by (rule legal_from[OF assms(2)])
  have valid: "valid_piece (po_board p ! a)" using assms(1) a(1) valid_at by (simp add: proper_def proper_board_def)
  from a(2) valid show ?thesis
  proof (cases rule: moves_from_cases)
    case (goes b)
    then show ?thesis using a goes_to_fields[OF goes(3)] aims_moves[OF goes(2)] by auto
  next
    case (push b)
    then show ?thesis using a pawn_move_fields[OF push(4)] reach_bound[OF push(2)] by auto
  next
    case (double b e)
    then show ?thesis using a reach_bound[OF double(3)] by (simp add: plain_move_def)
  next
    case (take b)
    then show ?thesis using a pawn_move_fields[OF take(5)] aims_moves[OF take(2)] by auto
  next
    case (passing b)
    then show ?thesis using a reach_bound by (auto simp: plain_move_def)
  qed (use a home_bounds[of "po_turn p"] in \<open>auto simp: plain_move_def\<close>)
qed

lemma square_names: "a < 64 \<Longrightarrow> length (square_name a) = 2" "a < 64 \<Longrightarrow> b < 64 \<Longrightarrow> square_name a = square_name b \<Longrightarrow> a = b"
proof -
  have table: "list_all (\<lambda>a. length (square_name a) = 2) [0..<64]" "distinct (map square_name [0..<64])" by code_simp+
  show "a < 64 \<Longrightarrow> length (square_name a) = 2" using table(1) by (simp add: list_all_iff)
  show "a < 64 \<Longrightarrow> b < 64 \<Longrightarrow> square_name a = square_name b \<Longrightarrow> a = b"
    using table(2) by (auto simp: distinct_map inj_on_def)
qed

lemma uci_identifies:
  assumes p: "proper p" and m: "m \<in> set (legal_moves p)" "n \<in> set (legal_moves p)" and same: "move_to_uci m = move_to_uci n"
  shows "m = n"
proof -
  note b = legal_bounds[OF p m(1)] legal_bounds[OF p m(2)]
  have split: "take 2 (move_to_uci k) = square_name (mv_from k)" "take 2 (drop 2 (move_to_uci k)) = square_name (mv_to k)"
    "drop 4 (move_to_uci k) = (case mv_promotion k of None \<Rightarrow> [] | Some q \<Rightarrow> q)" if "mv_from k < 64" "mv_to k < 64" for k
    using square_names(1)[OF that(1)] square_names(1)[OF that(2)] by (simp_all add: move_to_uci_def)
  have squares: "mv_from m = mv_from n" "mv_to m = mv_to n"
    using split[of m] split[of n] b same square_names(2) by auto
  have "(case mv_promotion m of None \<Rightarrow> [] | Some q \<Rightarrow> q) = (case mv_promotion n of None \<Rightarrow> [] | Some q \<Rightarrow> q)"
    using split[of m] split[of n] b same by simp
  moreover have "q \<in> set promotions \<Longrightarrow> q \<noteq> []" for q by (auto simp: promotions_def)
  ultimately have promotion: "mv_promotion m = mv_promotion n" using b by (auto split: option.splits)
  obtain a where a: "a < 64" "m \<in> set (moves_from p a)" "mv_from m = a" by (rule legal_from[OF m(1)])
  obtain a' where a': "a' < 64" "n \<in> set (moves_from p a')" "mv_from n = a'" by (rule legal_from[OF m(2)])
  have "valid_board (po_board p)" using p by (simp add: proper_def proper_board_def)
  then show ?thesis using move_determined[of p a m] move_determined[of p a' n] a a' squares promotion by metis
qed

lemma uci_found:
  assumes "proper p" "m \<in> set (legal_moves p)"
  shows "List.find (\<lambda>n. move_to_uci n = move_to_uci m) (legal_moves p) = Some m"
proof -
  obtain n where n: "List.find (\<lambda>n. move_to_uci n = move_to_uci m) (legal_moves p) = Some n"
    using assms(2) by (cases "List.find (\<lambda>n. move_to_uci n = move_to_uci m) (legal_moves p)") (auto simp: find_None_iff)
  then show ?thesis using find_SomeD[OF n] uci_identifies[OF assms(1) _ assms(2)] by auto
qed

subsection \<open>Choosing\<close>

lemma draw_below_one: "0 \<le> random_draw s \<and> random_draw s < 1"
proof -
  obtain u where u: "uint (s XOR drop_bit 14 s) = u" by blast
  then have "0 \<le> u \<and> u < 4294967296"
    using unsigned_less[of "s XOR drop_bit 14 s", where ?'a = int] unsigned_greater_eq[of "s XOR drop_bit 14 s", where ?'a = int] by simp
  moreover have "random_draw s = of_int u / 4294967296" by (simp only: random_draw_def u)
  ultimately show ?thesis by simp
qed

lemma random_move_legal: "legal \<noteq> [] \<Longrightarrow> random_move legal s \<in> set legal"
proof -
  assume "legal \<noteq> []"
  then have "0 \<le> random_draw s * real (length legal)" "random_draw s * real (length legal) < real (length legal)"
    using draw_below_one[of s] by simp_all
  then have "nat \<lfloor>random_draw s * real (length legal)\<rfloor> < length legal" by linarith
  then show ?thesis by (simp add: random_move_def)
qed

lemma try_moves_legal:
  "try_moves env p legal san deadline n attempt st = Chose m st' \<Longrightarrow> \<exists>answer. find_move_in_text p answer legal = Some m"
  by (induction n arbitrary: attempt st)
    (auto simp: Let_def split: if_splits request_end.splits option.splits)

lemma found_is_legal: "find_move_in_text p answer legal = Some m \<Longrightarrow> m \<in> set legal"
  by (auto simp: find_move_in_text_def Let_def dest!: first_some_in dest: by_uci_legal resolve_legal split: option.splits)

lemma choose_move_legal: "choose_move limit env p legal san s = Some (c, s') \<Longrightarrow> legal \<noteq> [] \<Longrightarrow> ch_move c \<in> set legal"
  by (auto simp: choose_move_def random_move_legal split: if_splits attempts_end.splits dest!: try_moves_legal found_is_legal)

definition uninterrupted :: "move_env \<Rightarrow> bool" where
  "uninterrupted env = (me_slots env \<and> me_slept env \<and> (\<forall>attempt prompt. me_request env attempt prompt \<noteq> RunStopped))"

lemma try_moves_ends: "uninterrupted env \<Longrightarrow> try_moves env p legal san deadline n attempt st \<noteq> Interrupted"
  by (induction n arbitrary: attempt st) (auto simp: uninterrupted_def Let_def split: request_end.splits option.splits)

lemma choose_move_ends: "uninterrupted env \<Longrightarrow> \<exists>c s'. choose_move limit env p legal san s = Some (c, s')"
  using try_moves_ends[of env] by (auto simp: choose_move_def uninterrupted_def split: attempts_end.splits)

subsection \<open>Games in play\<close>

text \<open>
  Every state of a game that can come up: begun, ply after ply, and taken up again after the run was stopped
  or the program was restarted in the middle of it.
\<close>

inductive in_play :: "game_settings \<Rightarrow> string \<Rightarrow> play_state \<Rightarrow> bool" for settings tournament where
  begins: "cg_uci g = [] \<Longrightarrow> in_play settings tournament (sit_down tournament now g)"
| plays: "in_play settings tournament st \<Longrightarrow> play_ply settings stopped env st = PlayOn st' \<Longrightarrow> in_play settings tournament st'"
| resumes: "in_play settings tournament st \<Longrightarrow> play_ply settings stopped env st = PlayPaused g \<Longrightarrow>
    in_play settings tournament (sit_down tournament now g)"
| restarts: "in_play settings tournament st \<Longrightarrow> in_play settings tournament (sit_down tournament now (pause_game (ps_game st)))"

definition faithful :: "play_state \<Rightarrow> bool" where
  "faithful st = (replay_moves kick_off (cg_uci (ps_game st)) = Some (ps_position st, ps_seen st) \<and>
     length (cg_san (ps_game st)) = length (cg_uci (ps_game st)) \<and> cg_fen (ps_game st) = to_fen (ps_position st) \<and>
     played start_position (ps_position st) \<and> (\<forall>side. cg_strikes (ps_game st) side < MAX_STRIKES) \<and>
     (cg_uci (ps_game st) = [] \<longrightarrow> cg_strikes (ps_game st) = (\<lambda>_. 0)))"

lemma replay_none [simp]: "replay_moves at0 [] = Some at0"
  by (cases at0) simp

lemma replay_snoc: "replay_moves at0 ucis = Some (p, seen) \<Longrightarrow> List.find (\<lambda>m. move_to_uci m = uci) (legal_moves p) = Some m \<Longrightarrow>
    replay_moves at0 (ucis @ [uci]) = Some (make_move p m, note_position (make_move p m) seen)"
  by (induction at0 ucis rule: replay_moves.induct) (auto simp: Let_def split: option.splits)

lemma played_proper: "played start_position p \<Longrightarrow> proper p"
  by (induction rule: played.induct) (auto intro: start_proper legal_keeps_proper)

lemma start_fen_position: "to_fen start_position = start_fen"
  by code_simp

lemma begin_faithful: "cg_uci g = [] \<Longrightarrow> faithful (sit_down tournament now g)"
  by (simp add: sit_down_def faithful_def reset_game_def new_game_def kick_off_def start_fen_position MAX_STRIKES_def played.begins)

lemma ply_faithful:
  assumes st: "faithful st" and ply: "play_ply settings stopped env st = PlayOn st'"
  shows "faithful st'"
proof -
  let ?p = "ps_position st" and ?g = "ps_game st" and ?side = "po_turn (ps_position st)" and ?legal = "legal_moves (ps_position st)"
  have p: "proper ?p" "played start_position ?p" using st played_proper by (auto simp: faithful_def)
  obtain c s where c: "choose_move (gs_moveTimeoutMs settings) env ?p ?legal (cg_san ?g) (ps_random st) = Some (c, s)"
    and over: "game_outcome ?p (dflt (map_of (ps_seen st) (position_key ?p)) 1) ?legal = None"
    and strikes: "ch_fallback c = None \<or> cg_strikes (count_in_game ?side c (?g\<lparr>cg_thinking := Some ?side\<rparr>)) ?side < MAX_STRIKES"
    and st': "st' = push_move (ch_move c) ?legal (st\<lparr>ps_game := count_in_game ?side c (?g\<lparr>cg_thinking := Some ?side\<rparr>), ps_random := s\<rparr>)"
    using ply by (auto simp: play_ply_def Let_def split: if_splits option.splits)
  have "?legal \<noteq> []" using over by (auto simp: game_outcome_def split: if_splits)
  then have m: "ch_move c \<in> set ?legal" by (rule choose_move_legal[OF c])
  let ?g1 = "count_in_game ?side c (?g\<lparr>cg_thinking := Some ?side\<rparr>)"
  have g1: "cg_uci ?g1 = cg_uci ?g" "cg_san ?g1 = cg_san ?g" by (simp_all add: count_in_game_def Let_def split: option.splits)
  have small: "cg_strikes ?g1 side < MAX_STRIKES" for side
  proof (cases "ch_fallback c = None \<or> side \<noteq> ?side")
    case True
    then have "cg_strikes ?g1 side = cg_strikes ?g side" by (auto simp: count_in_game_def Let_def split: option.splits)
    then show ?thesis using st by (simp add: faithful_def)
  next
    case False
    then have "side = ?side" by blast
    then show ?thesis using strikes False by auto
  qed
  have "replay_moves kick_off (cg_uci ?g @ [move_to_uci (ch_move c)]) =
      Some (make_move ?p (ch_move c), note_position (make_move ?p (ch_move c)) (ps_seen st))"
    using st by (intro replay_snoc uci_found[OF p(1) m]) (simp add: faithful_def)
  moreover have "played start_position (make_move ?p (ch_move c))" by (rule played.moves[OF p(2) m])
  ultimately show ?thesis using st small g1 by (simp add: faithful_def st' push_move_def Let_def)
qed

text \<open>A game taken up again has its position, its repetitions, its moves and its strikes.\<close>

lemma taken_up:
  fixes tournament :: string and now :: real
  assumes st: "faithful st" and g: "cg_uci g = cg_uci (ps_game st)" "cg_san g = cg_san (ps_game st)" "cg_strikes g = cg_strikes (ps_game st)"
    "cg_fen g = cg_fen (ps_game st)"
  defines "st' \<equiv> sit_down tournament now g"
  shows "ps_position st' = ps_position st" "ps_seen st' = ps_seen st" "cg_uci (ps_game st') = cg_uci (ps_game st)"
    "cg_san (ps_game st') = cg_san (ps_game st)" "cg_strikes (ps_game st') = cg_strikes (ps_game st)" "cg_fen (ps_game st') = cg_fen (ps_game st)"
proof -
  have r: "replay_game g = Some (ps_position st, ps_seen st)" using st g by (simp add: replay_game_def faithful_def)
  have "ps_position st' = ps_position st \<and> ps_seen st' = ps_seen st \<and> cg_uci (ps_game st') = cg_uci (ps_game st) \<and>
    cg_san (ps_game st') = cg_san (ps_game st) \<and> cg_strikes (ps_game st') = cg_strikes (ps_game st) \<and> cg_fen (ps_game st') = cg_fen (ps_game st)"
  proof (cases "cg_uci g = []")
    case True
    then have "cg_san g = []" "cg_strikes g = (\<lambda>_. 0)" "(ps_position st, ps_seen st) = kick_off" "cg_fen g = to_fen (ps_position st)"
      using st g by (auto simp: faithful_def)
    then show ?thesis using True g start_fen_position
      by (auto simp: st'_def sit_down_def Let_def reset_game_def new_game_def kick_off_def)
  next
    case False
    then show ?thesis using r g by (simp add: st'_def sit_down_def Let_def)
  qed
  then show "ps_position st' = ps_position st" "ps_seen st' = ps_seen st" "cg_uci (ps_game st') = cg_uci (ps_game st)"
    "cg_san (ps_game st') = cg_san (ps_game st)" "cg_strikes (ps_game st') = cg_strikes (ps_game st)" "cg_fen (ps_game st') = cg_fen (ps_game st)"
    by blast+
qed

lemma taken_up_faithful:
  assumes "faithful st" "cg_uci g = cg_uci (ps_game st)" "cg_san g = cg_san (ps_game st)" "cg_strikes g = cg_strikes (ps_game st)"
    "cg_fen g = cg_fen (ps_game st)"
  shows "faithful (sit_down tournament now g)"
  using assms(1) taken_up[OF assms] by (simp add: faithful_def)

lemma paused_fields:
  "play_ply settings stopped env st = PlayPaused g \<Longrightarrow> cg_uci g = cg_uci (ps_game st) \<and> cg_san g = cg_san (ps_game st) \<and>
     cg_strikes g = cg_strikes (ps_game st) \<and> cg_fen g = cg_fen (ps_game st)"
  by (auto simp: play_ply_def Let_def pause_game_def split: if_splits option.splits)

lemma in_play_faithful: "in_play settings tournament st \<Longrightarrow> faithful st"
proof (induction rule: in_play.induct)
  case (resumes st stopped env g now)
  then show ?case using taken_up_faithful paused_fields by metis
next
  case (restarts st now)
  then show ?case using taken_up_faithful[of st "pause_game (ps_game st)"] by (simp add: pause_game_def)
qed (auto intro: begin_faithful ply_faithful)

text \<open>The positions of a game, and how often each has come up.\<close>

fun trail :: "position \<Rightarrow> string list \<Rightarrow> position list" where
  "trail p [] = [p]"
| "trail p (uci # ucis) = p # (case List.find (\<lambda>m. move_to_uci m = uci) (legal_moves p) of None \<Rightarrow> [] | Some m \<Rightarrow> trail (make_move p m) ucis)"

lemma trail_hd: "trail p ucis = p # tl (trail p ucis)"
  by (cases ucis) auto

lemma replay_counts:
  "replay_moves (p, seen) ucis = Some (q, seen') \<Longrightarrow>
   dflt (map_of seen' key) 0 = dflt (map_of seen key) 0 + count_list (map position_key (tl (trail p ucis))) key"
proof (induction ucis arbitrary: p seen)
  case (Cons uci ucis)
  then obtain m where m: "List.find (\<lambda>m. move_to_uci m = uci) (legal_moves p) = Some m"
      "replay_moves (make_move p m, note_position (make_move p m) seen) ucis = Some (q, seen')"
    by (auto simp: Let_def split: option.splits)
  have "tl (trail p (uci # ucis)) = make_move p m # tl (trail (make_move p m) ucis)" using m(1) trail_hd by simp
  moreover have "dflt (map_of (note_position (make_move p m) seen) key) 0 =
      dflt (map_of seen key) 0 + (if position_key (make_move p m) = key then 1 else 0)" by (simp add: note_position_def)
  ultimately show ?case using Cons.IH[OF m(2)] by simp
qed simp

text \<open>
  C12. A stopped game goes on where it was. However often a game was stopped, or the program restarted, the
  moves it stores replay to its position, the count of every position is how often the game has had it, its
  position comes from the start by legal moves, and taking it up again gives the same position, counts,
  moves and strikes.
\<close>

theorem paused_games_resume:
  assumes "in_play settings tournament st"
  shows "replay_game (ps_game st) = Some (ps_position st, ps_seen st) \<and>
    (\<forall>key. dflt (map_of (ps_seen st) key) 0 = count_list (map position_key (trail start_position (cg_uci (ps_game st)))) key) \<and>
    played start_position (ps_position st) \<and> cg_fen (ps_game st) = to_fen (ps_position st) \<and>
    (\<forall>now. let again = sit_down tournament now (pause_game (ps_game st)) in
       ps_position again = ps_position st \<and> ps_seen again = ps_seen st \<and> cg_uci (ps_game again) = cg_uci (ps_game st) \<and>
       cg_san (ps_game again) = cg_san (ps_game st) \<and> cg_strikes (ps_game again) = cg_strikes (ps_game st))"
proof -
  have st: "faithful st" by (rule in_play_faithful[OF assms])
  then have r: "replay_moves kick_off (cg_uci (ps_game st)) = Some (ps_position st, ps_seen st)" by (simp add: faithful_def)
  have "dflt (map_of (ps_seen st) key) 0 = count_list (map position_key (trail start_position (cg_uci (ps_game st)))) key" for key
    using replay_counts[OF r[unfolded kick_off_def], of key] by (subst trail_hd) simp
  moreover have "replay_game (ps_game st) = Some (ps_position st, ps_seen st)" using st by (simp add: replay_game_def faithful_def)
  moreover note taken_up[OF st, of "pause_game (ps_game st)" tournament]
  ultimately show ?thesis using st by (simp add: Let_def faithful_def pause_game_def)
qed

subsection \<open>Games end\<close>

definition ending :: "game_settings \<Rightarrow> chess_result \<Rightarrow> game_end_reason \<Rightarrow> chess_color option \<Rightarrow> play_state \<Rightarrow> bool" where
  "ending settings result reason loser st = (case reason of
     ByRules r \<Rightarrow> loser = None \<and>
       game_outcome (ps_position st) (dflt (map_of (ps_seen st) (position_key (ps_position st))) 1) (legal_moves (ps_position st)) = Some (result, r)
   | Adjudication \<Rightarrow> loser = None \<and> length (cg_uci (ps_game st)) \<ge> gs_maxPlies settings \<and> result = adjudicate (ps_position st)
   | Forfeit \<Rightarrow> (\<exists>side. loser = Some side \<and> cg_strikes (ps_game st) side \<ge> MAX_STRIKES \<and> result = loser_result side)
   | Bye \<Rightarrow> False)"

lemma ply_over:
  "play_ply settings stopped env st = PlayOver result reason loser st' \<Longrightarrow>
   ending settings result reason loser st' \<and> cg_uci (ps_game st') = cg_uci (ps_game st)"
  by (auto simp: play_ply_def Let_def ending_def count_in_game_def split: if_splits option.splits)

lemma ply_not_paused: "uninterrupted env \<Longrightarrow> play_ply settings False env st \<noteq> PlayPaused g"
proof -
  assume "uninterrupted env"
  then obtain c s where "choose_move (gs_moveTimeoutMs settings) env (ps_position st) (legal_moves (ps_position st)) (cg_san (ps_game st))
      (ps_random st) = Some (c, s)" using choose_move_ends by blast
  then show ?thesis by (simp add: play_ply_def Let_def split: option.splits)
qed

lemma play_on_ends:
  assumes "\<And>ply. \<not> stops ply" "\<And>ply. uninterrupted (envs ply)"
  shows "\<exists>result reason loser st'. play_on settings stops envs st = PlayOver result reason loser st' \<and>
    ending settings result reason loser st' \<and>
    length (cg_uci (ps_game st')) \<le> max (gs_maxPlies settings) (length (cg_uci (ps_game st)))"
  using assms
proof (induction settings stops envs st rule: play_on.induct)
  case (1 settings stops envs st)
  let ?ply = "length (cg_uci (ps_game st))"
  show ?case
  proof (cases "play_ply settings (stops ?ply) (envs ?ply) st")
    case (PlayOver result reason loser st')
    then show ?thesis using ply_over[OF PlayOver] by (simp add: play_on.simps[of settings stops envs st])
  next
    case (PlayPaused g)
    then show ?thesis using ply_not_paused 1(2,3) by auto
  next
    case (PlayOn st')
    then show ?thesis using 1(1)[OF refl PlayOn 1(2,3)] ply_counts[OF PlayOn]
      by (simp add: play_on.simps[of settings stops envs st])
  qed
qed

text \<open>
  C25. Games end as they should. A game that nobody stops ends, whatever the providers answer and however late,
  within the cap of plies: by the rules exactly as \<open>gameOutcome\<close> says of the last position and its
  repetitions; by adjudication at the cap, on the material; or by forfeit of a side with three strikes.
\<close>

theorem games_finish:
  assumes "cg_uci g = []" "\<And>ply. \<not> stops ply" "\<And>ply. uninterrupted (envs ply)"
  shows "\<exists>result reason loser st. play_game settings tournament now stops envs g = PlayOver result reason loser st \<and>
    ending settings result reason loser st \<and> length (cg_uci (ps_game st)) \<le> gs_maxPlies settings"
proof -
  have "cg_uci (ps_game (sit_down tournament now g)) = []" using assms(1) by (simp add: sit_down_def Let_def reset_game_def new_game_def)
  then show ?thesis using play_on_ends[OF assms(2,3), where settings = settings and st = "sit_down tournament now g"] by (auto simp: play_game_def)
qed

text \<open>A game against a provider that always times out, and the start of one that was stopped at once.\<close>

definition late_env :: move_env where
  "late_env = \<lparr>me_slots = True, me_started = 0, me_now = (\<lambda>_. 0), me_request = (\<lambda>_ _. TimedOut), me_later = (\<lambda>_. 0),
     me_slept = True, me_ended = 0\<rparr>"

definition demo_settings :: game_settings where
  "demo_settings = \<lparr>gs_moveTimeoutMs = 60000, gs_maxPlies = 120\<rparr>"

definition demo_game :: chess_game where
  "demo_game = new_game ''r1-g1'' 1 ''a@low'' (Some ''b@low'')"

theorem games_finish_witness:
  "\<exists>result reason loser st. play_game demo_settings ''chess-1'' 0 (\<lambda>_. False) (\<lambda>_. late_env) demo_game = PlayOver result reason loser st \<and>
    length (cg_uci (ps_game st)) \<le> 120"
proof -
  have "cg_uci demo_game = []" "uninterrupted late_env" by (simp_all add: demo_game_def new_game_def uninterrupted_def late_env_def)
  moreover have "gs_maxPlies demo_settings = 120" by (simp add: demo_settings_def)
  ultimately show ?thesis using games_finish[of demo_game "\<lambda>_. False" "\<lambda>_. late_env" demo_settings "''chess-1''" 0] by auto
qed

theorem paused_games_resume_witness:
  "replay_game (ps_game (sit_down ''chess-1'' 0 demo_game)) = Some kick_off"
proof -
  have g: "cg_uci demo_game = []" by (simp add: demo_game_def new_game_def)
  have "(ps_position (sit_down ''chess-1'' 0 demo_game), ps_seen (sit_down ''chess-1'' 0 demo_game)) = kick_off"
    using g by (simp add: sit_down_def Let_def)
  with paused_games_resume[OF begins[OF g, of demo_settings "''chess-1''" 0]] show ?thesis by simp
qed

end
