(* ===== verification/Tournament_Swiss.thy ===== *)
theory Tournament_Swiss
  imports Tournament_Schedule Ordered_Keys
begin

text \<open>
  Standings and the Swiss pairing of the chess tournament (\<open>compareStandings\<close> and \<open>swissPairings\<close> of
  \<open>apps/api/src/chess/chess-tournament.ts\<close>). The backtracking search counts down a budget that its inner
  calls share; it is threaded through here. Points, ratings and times are reals, counters natural numbers.
\<close>

subsection \<open>Standings\<close>

text \<open>A row of the table, and with the opponents met; the view of the page omits these.\<close>

record standing_row =
  cs_id :: player
  cs_seed :: nat
  cs_points :: real
  cs_wins :: nat
  cs_draws :: nat
  cs_losses :: nat
  cs_byes :: nat
  cs_games :: nat
  cs_elo :: real
  cs_buchholz :: real
  cs_whiteGames :: nat
  cs_blackGames :: nat
  cs_modelMoves :: nat
  cs_illegalReplies :: nat
  cs_fallbackMoves :: nat
  cs_forfeits :: nat
  cs_totalLatencyMs :: real
  cs_tokens :: nat

record chess_standing = standing_row +
  cs_opponents :: "player list"

definition ELO_START :: real where
  "ELO_START = 1500"

definition empty_standing :: "player \<Rightarrow> nat \<Rightarrow> chess_standing" where
  "empty_standing name seed = \<lparr>cs_id = name, cs_seed = seed, cs_points = 0, cs_wins = 0, cs_draws = 0, cs_losses = 0, cs_byes = 0,
     cs_games = 0, cs_elo = ELO_START, cs_buchholz = 0, cs_whiteGames = 0, cs_blackGames = 0, cs_modelMoves = 0,
     cs_illegalReplies = 0, cs_fallbackMoves = 0, cs_forfeits = 0, cs_totalLatencyMs = 0, cs_tokens = 0, cs_opponents = []\<rparr>"

text \<open>The sign of \<open>x - y\<close>, and the first difference that is not 0 of a chain of \<open>||\<close>.\<close>

definition difference :: "real \<Rightarrow> real \<Rightarrow> int" where
  "difference x y = (if x < y then -1 else if y < x then 1 else 0)"

fun first_difference :: "int list \<Rightarrow> int" where
  "first_difference [] = 0"
| "first_difference (d # ds) = (if d \<noteq> 0 then d else first_difference ds)"

definition compare_standings :: "chess_standing \<Rightarrow> chess_standing \<Rightarrow> int" where
  "compare_standings left right = first_difference
     [difference (cs_points right) (cs_points left), difference (cs_buchholz right) (cs_buchholz left),
      difference (cs_wins right) (cs_wins left), difference (cs_elo right) (cs_elo left),
      difference (cs_fallbackMoves left) (cs_fallbackMoves right), difference (cs_seed left) (cs_seed right)]"

definition compare_for_pairing :: "(player \<Rightarrow> int) \<Rightarrow> chess_standing \<Rightarrow> chess_standing \<Rightarrow> int" where
  "compare_for_pairing tiebreak left right = first_difference
     [difference (cs_points right) (cs_points left), difference (cs_elo right) (cs_elo left),
      difference (tiebreak (cs_id left)) (tiebreak (cs_id right)), difference (cs_seed left) (cs_seed right)]"

subsection \<open>Pairing\<close>

definition PAIRING_BUDGET :: int where
  "PAIRING_BUDGET = 50000"

definition pair_key :: "player \<Rightarrow> player \<Rightarrow> string" where
  "pair_key left right = (if left < right then left @ ''|'' @ right else right @ ''|'' @ left)"

text \<open>
  \<open>solve\<close>: the pairs, or none, and the budget left. The loop over the partners of the first player has the
  players tried before and those after.
\<close>

function solve :: "string list \<Rightarrow> int \<Rightarrow> player list \<Rightarrow> (player \<times> player) list option \<times> int"
  and try_partners :: "string list \<Rightarrow> int \<Rightarrow> player \<Rightarrow> player list \<Rightarrow> player list \<Rightarrow> (player \<times> player) list option \<times> int" where
  "solve played budget [] = (Some [], budget)"
| "solve played budget (first # rest) = try_partners played budget first [] rest"
| "try_partners played budget first tried [] = (None, budget)"
| "try_partners played budget first tried (second # after) =
     (let budget' = budget - 1 in
      if budget' < 0 then (None, budget')
      else if pair_key first second \<in> set played then try_partners played budget' first (tried @ [second]) after
      else (case solve played budget' (tried @ after) of
          (Some tail, budget'') \<Rightarrow> (Some ((first, second) # tail), budget'')
        | (None, budget'') \<Rightarrow> try_partners played budget'' first (tried @ [second]) after))"
  by pat_completeness auto
termination
  by (relation "measures [case_sum (\<lambda>(_, _, xs). length xs) (\<lambda>(_, _, _, ts, xs). Suc (length ts + length xs)),
        case_sum (\<lambda>(_, _, xs). Suc (length xs)) (\<lambda>(_, _, _, ts, xs). length xs)]") auto

fun pair_up :: "player list \<Rightarrow> (player \<times> player) list" where
  "pair_up (a # b # rest) = (a, b) # pair_up rest"
| "pair_up _ = []"

definition standing_of :: "chess_standing list \<Rightarrow> player \<Rightarrow> chess_standing" where
  "standing_of standings name = the (List.find (\<lambda>s. cs_id s = name) standings)"

definition color_balance :: "chess_standing list \<Rightarrow> player \<Rightarrow> int" where
  "color_balance standings name = int (cs_whiteGames (standing_of standings name)) - int (cs_blackGames (standing_of standings name))"

definition choose_bye :: "chess_standing list \<Rightarrow> player list \<Rightarrow> player option" where
  "choose_bye standings pool = (if length pool mod 2 = 1
     then Some (case List.find (\<lambda>name. cs_byes (standing_of standings name) = 0) (rev pool) of Some name \<Rightarrow> name | None \<Rightarrow> last pool)
     else None)"

definition orient :: "chess_standing list \<Rightarrow> nat \<Rightarrow> player \<times> player \<Rightarrow> player \<times> player" where
  "orient standings rnd pair = (let (higher, lower) = pair; h = color_balance standings higher; l = color_balance standings lower in
     if h < l then (higher, lower) else if h > l then (lower, higher)
     else if rnd mod 2 = 1 then (higher, lower) else (lower, higher))"

definition ranked_players :: "(player \<Rightarrow> int) \<Rightarrow> chess_standing list \<Rightarrow> player list" where
  "ranked_players tiebreak standings = map cs_id (js_sort (compare_for_pairing tiebreak) standings)"

definition players_to_pair :: "(player \<Rightarrow> int) \<Rightarrow> chess_standing list \<Rightarrow> player list" where
  "players_to_pair tiebreak standings = (let ids = ranked_players tiebreak standings in
     case choose_bye standings ids of None \<Rightarrow> ids | Some bye \<Rightarrow> filter (\<lambda>name. name \<noteq> bye) ids)"

definition swiss_pairings ::
  "chess_standing list \<Rightarrow> string list \<Rightarrow> nat \<Rightarrow> (player \<Rightarrow> int) \<Rightarrow> (player \<times> player) list \<times> player option" where
  "swiss_pairings standings played rnd tiebreak =
     (let pool = players_to_pair tiebreak standings;
          pairs = (case fst (solve played PAIRING_BUDGET pool) of Some ps \<Rightarrow> ps | None \<Rightarrow> pair_up pool)
      in (map (orient standings rnd) pairs, choose_bye standings (ranked_players tiebreak standings)))"

subsection \<open>The search\<close>

text \<open>All ways to pair a field, in the order the search tries them, without looking at who met before.\<close>

function all_pairings :: "player list \<Rightarrow> (player \<times> player) list list"
  and pairings_of :: "player \<Rightarrow> player list \<Rightarrow> player list \<Rightarrow> (player \<times> player) list list" where
  "all_pairings [] = [[]]"
| "all_pairings (first # rest) = pairings_of first [] rest"
| "pairings_of first tried [] = []"
| "pairings_of first tried (second # after) =
     map ((#) (first, second)) (all_pairings (tried @ after)) @ pairings_of first (tried @ [second]) after"
  by pat_completeness auto
termination
  by (relation "measures [case_sum length (\<lambda>(_, ts, xs). Suc (length ts + length xs)),
        case_sum (\<lambda>xs. Suc (length xs)) (\<lambda>(_, ts, xs). length xs)]") auto

definition fresh_pairs :: "string list \<Rightarrow> (player \<times> player) list \<Rightarrow> bool" where
  "fresh_pairs played ps = list_all (\<lambda>(a, b). pair_key a b \<notin> set played) ps"

definition players_of :: "(player \<times> player) list \<Rightarrow> player list" where
  "players_of ps = concat (map (\<lambda>(a, b). [a, b]) ps)"

lemma players_of_simps [simp]: "players_of [] = []" "players_of (p # ps) = fst p # snd p # players_of ps"
  by (simp_all add: players_of_def split: prod.splits)

lemma fresh_simps [simp]: "fresh_pairs played []"
  "fresh_pairs played (p # ps) = (pair_key (fst p) (snd p) \<notin> set played \<and> fresh_pairs played ps)"
  by (simp_all add: fresh_pairs_def split: prod.splits)

lemma find_append: "List.find P (xs @ ys) = (case List.find P xs of Some x \<Rightarrow> Some x | None \<Rightarrow> List.find P ys)"
  by (induction xs) auto

lemma find_fresh_Cons:
  "List.find (fresh_pairs played) (map ((#) (a, b)) pss) =
   (if pair_key a b \<in> set played then None else map_option ((#) (a, b)) (List.find (fresh_pairs played) pss))"
  by (induction pss) auto

lemma search_exact:
  "(\<And>found left. solve played budget xs = (found, left) \<Longrightarrow> 0 \<le> budget \<Longrightarrow>
      left \<le> budget \<and> found = (if left < 0 then None else List.find (fresh_pairs played) (all_pairings xs)))"
  "(\<And>found left. try_partners played budget first tried after = (found, left) \<Longrightarrow>
      left \<le> budget \<and> found = (if left < 0 then None else List.find (fresh_pairs played) (pairings_of first tried after)))"
proof (induction played budget xs and played budget first tried after rule: solve_try_partners.induct)
  case (1 played budget)
  then show ?case by (auto simp: fresh_pairs_def)
next
  case (2 played budget first rest)
  then show ?case by simp
next
  case (3 played budget first tried)
  then show ?case by auto
next
  case (4 played budget first tried second after)
  show ?case
  proof (cases "budget - 1 < 0")
    case True
    then show ?thesis using 4(4) by auto
  next
    case False
    note budget = this
    show ?thesis
    proof (cases "pair_key first second \<in> set played")
      case True
      then have "try_partners played (budget - 1) first (tried @ [second]) after = (found, left)" using 4(4) budget by simp
      then show ?thesis using 4(1)[OF refl budget True] True by (auto simp: find_append find_fresh_Cons)
    next
      case False
      obtain r b where sub: "solve played (budget - 1) (tried @ after) = (r, b)" by fastforce
      note ih = 4(2)[OF refl budget False sub]
      show ?thesis
      proof (cases r)
        case (Some tail)
        then have result: "found = Some ((first, second) # tail)" "left = b" using 4(4) budget False sub by simp_all
        have "List.find (fresh_pairs played) (all_pairings (tried @ after)) = Some tail" "0 \<le> b" "b \<le> budget - 1"
          using ih budget Some by (auto split: if_splits)
        then show ?thesis using result False by (simp add: find_append find_fresh_Cons)
      next
        case None
        then have rest: "try_partners played b first (tried @ [second]) after = (found, left)" using 4(4) budget False sub by simp
        show ?thesis using 4(3)[OF refl budget False sub[symmetric] None rest] ih budget False None
          by (auto simp: find_append find_fresh_Cons split: if_splits)
      qed
    qed
  qed
qed

lemma pairings_players:
  "ps \<in> set (all_pairings xs) \<Longrightarrow> mset (players_of ps) = mset xs"
  "ps \<in> set (pairings_of first tried after) \<Longrightarrow> mset (players_of ps) = add_mset first (mset (tried @ after))"
  by (induction xs and first tried after arbitrary: ps and ps rule: all_pairings_pairings_of.induct) fastforce+

lemma pair_key_sym: "pair_key a b = pair_key b a"
  by (auto simp: pair_key_def)

lemma pairings_of_split: "(#) (first, y) ` set (all_pairings (tried @ us @ vs)) \<subseteq> set (pairings_of first tried (us @ y # vs))"
proof (induction us arbitrary: tried)
  case (Cons u us)
  then show ?case using Cons.IH[of "tried @ [u]"] by auto
qed auto

lemma fresh_append [simp]: "fresh_pairs played (ps @ qs) = (fresh_pairs played ps \<and> fresh_pairs played qs)"
  by (simp add: fresh_pairs_def)

lemma players_append [simp]: "players_of (ps @ qs) = players_of ps @ players_of qs"
  by (simp add: players_of_def)

text \<open>Every way to pair the field without a rematch is among those the search tries, up to the order within pairs.\<close>

lemma all_pairings_complete:
  assumes "mset (players_of ps) = mset xs" "fresh_pairs played ps"
  shows "\<exists>qs \<in> set (all_pairings xs). fresh_pairs played qs"
  using assms
proof (induction "length xs" arbitrary: xs ps rule: less_induct)
  case less
  show ?case
  proof (cases xs)
    case (Cons x rest)
    then have "x \<in> set (players_of ps)" using less.prems(1) by (metis list.set_intros(1) set_mset_mset)
    then obtain p where p: "p \<in> set ps" "x = fst p \<or> x = snd p" by (auto simp: players_of_def split: prod.splits)
    then obtain us vs where ps: "ps = us @ p # vs" by (meson split_list)
    obtain y where y: "p = (x, y) \<or> p = (y, x)" using p(2) by (cases p) auto
    have rest: "mset rest = add_mset y (mset (players_of (us @ vs)))" using less.prems(1) Cons ps y by auto
    then have "y \<in> set rest" by (metis set_mset_mset union_single_eq_member)
    then obtain ts as where ts: "rest = ts @ y # as" by (meson split_list)
    have "mset (players_of (us @ vs)) = mset (ts @ as)" using rest ts by simp
    moreover have "fresh_pairs played (us @ vs)" using less.prems(2) ps by simp
    moreover have "length (ts @ as) < length xs" using Cons ts by simp
    ultimately obtain qs where qs: "qs \<in> set (all_pairings (ts @ as))" "fresh_pairs played qs" using less.hyps by blast
    have "(x, y) # qs \<in> set (all_pairings xs)" using pairings_of_split[of x y "[]" ts as] qs(1) Cons ts by auto
    moreover have "fresh_pairs played ((x, y) # qs)" using qs(2) less.prems(2) ps y pair_key_sym[of x y] by auto
    ultimately show ?thesis by blast
  qed simp
qed

lemma orient_players: "fst (orient standings rnd p) = fst p \<and> snd (orient standings rnd p) = snd p \<or>
    fst (orient standings rnd p) = snd p \<and> snd (orient standings rnd p) = fst p"
  by (auto simp: orient_def Let_def split: prod.splits)

lemma orient_balance: "color_balance standings (fst (orient standings rnd p)) \<le> color_balance standings (snd (orient standings rnd p))"
  by (auto simp: orient_def Let_def split: prod.splits)

lemma oriented_players: "mset (players_of (map (orient standings rnd) ps)) = mset (players_of ps)"
proof (induction ps)
  case (Cons p ps)
  then show ?case using orient_players[of standings rnd p] by auto
qed simp

lemma oriented_fresh: "fresh_pairs played (map (orient standings rnd) ps) = fresh_pairs played ps"
proof (induction ps)
  case (Cons p ps)
  then show ?case using orient_players[of standings rnd p] pair_key_sym[of "fst p" "snd p"] by auto
qed simp

lemma pair_up_players: "even (length xs) \<Longrightarrow> players_of (pair_up xs) = xs"
  by (induction xs rule: pair_up.induct) auto

lemma ranked_mset: "mset (ranked_players tiebreak standings) = mset (map cs_id standings)"
  by (simp add: ranked_players_def)

lemma choose_bye_mem: "choose_bye standings pool = Some bye \<Longrightarrow> bye \<in> set pool \<and> odd (length pool)"
  by (cases "pool = []") (auto simp: choose_bye_def split: if_splits option.splits dest: find_SomeD)

lemma choose_bye_even: "choose_bye standings pool = None \<longleftrightarrow> even (length pool)"
  by (auto simp: choose_bye_def)

text \<open>The field of a round: those to pair, and the bye.\<close>

lemma field_split:
  assumes "distinct (map cs_id standings)" "bye = choose_bye standings (ranked_players tiebreak standings)"
  shows "mset (players_to_pair tiebreak standings) + (case bye of None \<Rightarrow> {#} | Some b \<Rightarrow> {#b#}) = mset (map cs_id standings)"
    "bye = None \<longleftrightarrow> even (length standings)" "even (length (players_to_pair tiebreak standings))"
proof -
  let ?ids = "ranked_players tiebreak standings" and ?pool = "players_to_pair tiebreak standings"
  have ids: "mset ?ids = mset (map cs_id standings)" by (rule ranked_mset)
  then have len: "length ?ids = length standings" and dist: "distinct ?ids"
    using assms(1) by (metis length_map mset_eq_length, metis mset_eq_imp_distinct_iff)
  show none: "bye = None \<longleftrightarrow> even (length standings)" using assms(2) choose_bye_even len by metis
  have "mset ?pool + (case bye of None \<Rightarrow> {#} | Some b \<Rightarrow> {#b#}) = mset ?ids"
  proof (cases bye)
    case (Some b)
    then have "b \<in> set ?ids" using assms(2) choose_bye_mem by metis
    moreover have "filter (\<lambda>name. name \<noteq> b) ?ids = remove1 b ?ids" using dist by (simp add: distinct_remove1_removeAll removeAll_filter_not_eq eq_commute)
    ultimately show ?thesis using Some assms(2) by (simp add: players_to_pair_def Let_def)
  qed (use assms(2) in \<open>simp add: players_to_pair_def Let_def\<close>)
  then show split: "mset ?pool + (case bye of None \<Rightarrow> {#} | Some b \<Rightarrow> {#b#}) = mset (map cs_id standings)" using ids by simp
  have "length ?pool + (if bye = None then 0 else 1) = length standings"
    using arg_cong[OF split, of size] by (simp split: option.splits)
  then show "even (length ?pool)" using none by (cases "bye = None") (simp, presburger)
qed

lemma swiss_seats:
  assumes "distinct (map cs_id standings)" "swiss_pairings standings played rnd tiebreak = (pairs, bye)"
  shows "mset (players_of pairs) + (case bye of None \<Rightarrow> {#} | Some b \<Rightarrow> {#b#}) = mset (map cs_id standings)"
    "bye = choose_bye standings (ranked_players tiebreak standings)" "\<exists>ps. pairs = map (orient standings rnd) ps"
proof -
  let ?pool = "players_to_pair tiebreak standings"
  show bye: "bye = choose_bye standings (ranked_players tiebreak standings)" using assms(2) by (simp add: swiss_pairings_def Let_def)
  note field = field_split[OF assms(1) this]
  obtain ps where ps: "pairs = map (orient standings rnd) ps" "mset (players_of ps) = mset ?pool"
  proof (cases "fst (solve played PAIRING_BUDGET ?pool)")
    case None
    then show ?thesis using that[of "pair_up ?pool"] assms(2) pair_up_players[OF field(3)] by (simp add: swiss_pairings_def Let_def)
  next
    case (Some found)
    obtain left where "solve played PAIRING_BUDGET ?pool = (Some found, left)" using Some by (cases "solve played PAIRING_BUDGET ?pool") auto
    from search_exact(1)[OF this] have "Some found = List.find (fresh_pairs played) (all_pairings ?pool)"
      by (auto simp: PAIRING_BUDGET_def split: if_splits)
    then have "found \<in> set (all_pairings ?pool)" using find_SomeD by metis
    then show ?thesis using that[of found] assms(2) Some pairings_players(1) by (simp add: swiss_pairings_def Let_def)
  qed
  then show "\<exists>ps. pairs = map (orient standings rnd) ps" by blast
  show "mset (players_of pairs) + (case bye of None \<Rightarrow> {#} | Some b \<Rightarrow> {#b#}) = mset (map cs_id standings)"
    using field(1) unfolding ps(1) oriented_players ps(2) .
qed

lemma bye_is_due:
  assumes "distinct (map cs_id standings)" "Some b = choose_bye standings (ranked_players tiebreak standings)"
    and s: "s \<in> set standings" "cs_byes s = 0"
  shows "cs_byes (standing_of standings b) = 0"
proof -
  let ?ids = "ranked_players tiebreak standings"
  have "standing_of standings (cs_id s) = s" using assms(1) s(1)
    by (induction standings) (auto simp: standing_of_def)
  moreover have "cs_id s \<in> set ?ids" using ranked_mset[of tiebreak standings] s(1) by (metis image_eqI list.set_map set_mset_mset)
  ultimately have "List.find (\<lambda>name. cs_byes (standing_of standings name) = 0) (rev ?ids) \<noteq> None"
    using s(2) by (auto simp: find_None_iff)
  then show ?thesis using assms(2) by (auto simp: choose_bye_def split: if_splits dest: find_SomeD)
qed

text \<open>
  C37. Swiss pairing seats the whole field. Every player is paired exactly once or, in an odd field, exactly
  one has the bye, and it is a player without a bye before if there is one; and of two opponents the one who
  had White less often (against Black) is White.
\<close>

theorem swiss_pairs_field:
  assumes "distinct (map cs_id standings)" "swiss_pairings standings played rnd tiebreak = (pairs, bye)"
  shows "mset (players_of pairs) + (case bye of None \<Rightarrow> {#} | Some b \<Rightarrow> {#b#}) = mset (map cs_id standings) \<and>
    (bye = None \<longleftrightarrow> even (length standings)) \<and>
    (\<forall>b. bye = Some b \<longrightarrow> (\<exists>s \<in> set standings. cs_byes s = 0) \<longrightarrow> cs_byes (standing_of standings b) = 0) \<and>
    (\<forall>(white, black) \<in> set pairs. color_balance standings white \<le> color_balance standings black)"
proof -
  note seats = swiss_seats[OF assms]
  obtain ps where "pairs = map (orient standings rnd) ps" using seats(3) by blast
  then have "\<forall>(white, black) \<in> set pairs. color_balance standings white \<le> color_balance standings black"
    by (simp add: orient_balance case_prod_unfold)
  moreover have "\<forall>b. bye = Some b \<longrightarrow> (\<exists>s \<in> set standings. cs_byes s = 0) \<longrightarrow> cs_byes (standing_of standings b) = 0"
  proof (intro allI impI)
    fix b
    assume b: "bye = Some b" and "\<exists>s \<in> set standings. cs_byes s = 0"
    then obtain s where "s \<in> set standings" "cs_byes s = 0" by blast
    then show "cs_byes (standing_of standings b) = 0" by (rule bye_is_due[OF assms(1) trans[OF b[symmetric] seats(2)]])
  qed
  ultimately show ?thesis by (intro conjI seats(1) field_split(2)[OF assms(1) seats(2)])
qed

text \<open>
  C18. Swiss pairing finds a round without rematches when there is one. As long as the search stays within its
  budget, its pruned backtracking gives the first pairing without a rematch in the order of the ranks, just as
  trying all pairings would; so if the field can be paired without a rematch at all, nobody meets again.
\<close>

theorem swiss_avoids_rematches:
  assumes "0 \<le> snd (solve played PAIRING_BUDGET (players_to_pair tiebreak standings))"
    "mset (players_of ps) = mset (players_to_pair tiebreak standings)" "fresh_pairs played ps"
    "swiss_pairings standings played rnd tiebreak = (pairs, bye)"
  shows "\<exists>first. List.find (fresh_pairs played) (all_pairings (players_to_pair tiebreak standings)) = Some first \<and>
    pairs = map (orient standings rnd) first \<and> fresh_pairs played pairs"
proof -
  let ?pool = "players_to_pair tiebreak standings"
  obtain found left where s: "solve played PAIRING_BUDGET ?pool = (found, left)" by fastforce
  have "found = List.find (fresh_pairs played) (all_pairings ?pool)"
    using search_exact(1)[OF s] assms(1) s by (auto simp: PAIRING_BUDGET_def split: if_splits)
  moreover obtain first where first: "List.find (fresh_pairs played) (all_pairings ?pool) = Some first"
    using all_pairings_complete[OF assms(2,3)] by (metis find_None_iff not_None_eq)
  ultimately have "pairs = map (orient standings rnd) first" using assms(4) s by (simp add: swiss_pairings_def Let_def)
  then show ?thesis using first find_SomeD[OF first] by (simp add: oriented_fresh)
qed

text \<open>A field of three in the second round.\<close>

definition demo_standings :: "chess_standing list" where
  "demo_standings = [(empty_standing ''a'' 0)\<lparr>cs_points := 1, cs_whiteGames := 1\<rparr>,
     (empty_standing ''b'' 1)\<lparr>cs_blackGames := 1\<rparr>, (empty_standing ''c'' 2)\<lparr>cs_points := 1, cs_byes := 1\<rparr>]"

lemma demo_pairing: "swiss_pairings demo_standings [''a|b''] 2 (\<lambda>_. 0) = ([(''c'', ''a'')], Some ''b'')"
  by code_simp

theorem swiss_pairs_field_witness:
  "swiss_pairings demo_standings [''a|b''] 2 (\<lambda>_. 0) = ([(''c'', ''a'')], Some ''b'') \<and>
   mset (players_of [(''c'', ''a'')]) + {#''b''#} = mset (map cs_id demo_standings)"
proof -
  have "distinct (map cs_id demo_standings)" by code_simp
  from swiss_pairs_field[OF this demo_pairing] show ?thesis using demo_pairing by simp
qed

theorem swiss_avoids_rematches_witness:
  "\<exists>first. List.find (fresh_pairs [''a|b'']) (all_pairings [''a'', ''c'']) = Some first \<and>
    [(''c'', ''a'')] = map (orient demo_standings 2) first"
proof -
  have pool: "players_to_pair (\<lambda>_. 0) demo_standings = [''a'', ''c'']" by code_simp
  have budget: "0 \<le> snd (solve [''a|b''] PAIRING_BUDGET [''a'', ''c''])" by code_simp
  have fresh: "fresh_pairs [''a|b''] [(''c'', ''a'')]" by code_simp
  have field: "mset (players_of [(''c'', ''a'')]) = mset [''a'', ''c'']" by simp
  from swiss_avoids_rematches[of "[''a|b'']" "\<lambda>_. 0" demo_standings, unfolded pool, OF budget field fresh demo_pairing]
  show ?thesis by (elim exE conjE) (intro exI conjI)
qed

end
