(* ===== verification/Tournament_Runner.thy ===== *)
theory Tournament_Runner
  imports Tournament_Play Tournament_Swiss
begin

text \<open>
  \<open>ChessTournamentRunner\<close> (\<open>apps/api/src/chess/chess-tournament.ts\<close>): starting, pausing and resuming a
  tournament, the rounds, the games in play at once, and what a finished game does to the standings. A game is
  known by its place in the list of games (the code mutates the objects of that list). The workers of a pool
  interleave at every await, so a step of the runner is a ply of any game in play; which waiting game a free
  worker takes is left open. The calls of the routes are split at their awaits. Logging is left out.
\<close>

subsection \<open>State\<close>

datatype tournament_format = Swiss | RoundRobin

datatype tournament_status = TournamentRunning | TournamentStopped | TournamentInterrupted | TournamentCompleted

record tournament_settings = game_settings +
  ts_format :: tournament_format
  ts_rounds :: nat
  ts_concurrency :: nat

record contestant =
  ct_id :: player
  ct_modelId :: string
  ct_providerId :: string
  ct_modelName :: string
  ct_reasoningEffort :: string
  ct_displayName :: string

record tournament =
  tn_id :: string
  tn_status :: tournament_status
  tn_completedAt :: "real option"
  tn_settings :: tournament_settings
  tn_contestants :: "contestant list"
  tn_standings :: "(player \<times> chess_standing) list"
  tn_round :: nat
  tn_totalRounds :: nat
  tn_games :: "chess_game list"
  tn_error :: "string option"

datatype tournament_error = AlreadyRunning | TooFewContestants | NothingToResume | StopFirst

definition game_name :: "nat \<Rightarrow> nat \<Rightarrow> string" where
  "game_name rnd index = ''r'' @ show_nat rnd @ ''-g'' @ show_nat (index + 1)"

text \<open>The games of a round, from its pairs; \<open>forEach\<close> numbers them.\<close>

definition games_of_round :: "nat \<Rightarrow> (player \<times> player) list \<Rightarrow> chess_game list" where
  "games_of_round rnd pairs = map (\<lambda>(index, white, black). new_game (game_name rnd index) rnd white (Some black)) (zip [0..<length pairs] pairs)"

definition new_standings :: "player list \<Rightarrow> (player \<times> chess_standing) list" where
  "new_standings ids = map (\<lambda>(seed, name). (name, empty_standing name seed)) (zip [0..<length ids] ids)"

definition start_state :: "string \<Rightarrow> tournament_settings \<Rightarrow> contestant list \<Rightarrow> tournament" where
  "start_state ident settings contestants =
     (let ids = map ct_id contestants; schedule = round_robin_schedule ids;
          total = (if ts_format settings = RoundRobin then length schedule else ts_rounds settings)
      in \<lparr>tn_id = ident, tn_status = TournamentRunning, tn_completedAt = None, tn_settings = settings, tn_contestants = contestants,
          tn_standings = new_standings ids,
          tn_round = (if ts_format settings = RoundRobin then total else 0), tn_totalRounds = total,
          tn_games = (if ts_format settings = RoundRobin
            then concat (map (\<lambda>(i, pairs). games_of_round (i + 1) pairs) (zip [0..<length schedule] schedule)) else []),
          tn_error = None\<rparr>)"

subsection \<open>Ratings and results\<close>

definition ELO_K :: real where
  "ELO_K = 24"

definition elo_after :: "real \<Rightarrow> real \<Rightarrow> real \<Rightarrow> real" where
  "elo_after rating opponent score = rating + ELO_K * (score - 1 / (1 + 10 powr ((opponent - rating) / 400)))"

definition white_score :: "chess_result \<Rightarrow> real" where
  "white_score result = (case result of WhiteWins \<Rightarrow> 1 | BlackWins \<Rightarrow> 0 | Draw \<Rightarrow> 1 / 2)"

definition apply_result ::
  "real \<Rightarrow> player \<Rightarrow> chess_color \<Rightarrow> real \<Rightarrow> real \<Rightarrow> side_stats \<Rightarrow> bool \<Rightarrow> chess_standing \<Rightarrow> chess_standing" where
  "apply_result score opponent side own_elo other_elo stats forfeited s =
     s\<lparr>cs_points := cs_points s + score,
       cs_games := cs_games s + 1,
       cs_wins := (if score = 1 then cs_wins s + 1 else cs_wins s),
       cs_losses := (if score \<noteq> 1 \<and> score = 0 then cs_losses s + 1 else cs_losses s),
       cs_draws := (if score \<noteq> 1 \<and> score \<noteq> 0 then cs_draws s + 1 else cs_draws s),
       cs_whiteGames := (if side = White then cs_whiteGames s + 1 else cs_whiteGames s),
       cs_blackGames := (if side = White then cs_blackGames s else cs_blackGames s + 1),
       cs_opponents := cs_opponents s @ [opponent],
       cs_elo := js_round (elo_after own_elo other_elo score * 10) / 10,
       cs_modelMoves := cs_modelMoves s + ss_modelMoves stats,
       cs_illegalReplies := cs_illegalReplies s + ss_illegalReplies stats,
       cs_fallbackMoves := cs_fallbackMoves s + ss_fallbackMoves stats,
       cs_totalLatencyMs := cs_totalLatencyMs s + ss_totalLatencyMs stats,
       cs_tokens := cs_tokens s + ss_tokens stats,
       cs_forfeits := (if forfeited then cs_forfeits s + 1 else cs_forfeits s)\<rparr>"

text \<open>\<open>state.standings[id]\<close>, and a change of that object.\<close>

definition standing_at :: "(player \<times> chess_standing) list \<Rightarrow> player \<Rightarrow> chess_standing" where
  "standing_at standings name = the (map_of standings name)"

definition change_standing ::
  "player \<Rightarrow> (chess_standing \<Rightarrow> chess_standing) \<Rightarrow> (player \<times> chess_standing) list \<Rightarrow> (player \<times> chess_standing) list" where
  "change_standing name f standings = map (\<lambda>(k, s). (k, if k = name then f s else s)) standings"

definition opponent_points :: "(player \<times> chess_standing) list \<Rightarrow> player list \<Rightarrow> real" where
  "opponent_points standings opponents =
     foldl (\<lambda>sum name. sum + (case map_of standings name of Some s \<Rightarrow> cs_points s | None \<Rightarrow> 0)) 0 opponents"

definition recompute_buchholz :: "(player \<times> chess_standing) list \<Rightarrow> (player \<times> chess_standing) list" where
  "recompute_buchholz standings = map (\<lambda>(k, s). (k, s\<lparr>cs_buchholz := opponent_points standings (cs_opponents s)\<rparr>)) standings"

definition finished_game :: "real \<Rightarrow> chess_result \<Rightarrow> game_end_reason \<Rightarrow> chess_game \<Rightarrow> chess_game" where
  "finished_game now result reason g = g\<lparr>cg_status := GameFinished, cg_result := Some result, cg_reason := Some reason,
     cg_thinking := None, cg_queued := False, cg_finishedAt := Some now, cg_stats := None\<rparr>"

definition finish_game :: "real \<Rightarrow> nat \<Rightarrow> chess_result \<Rightarrow> game_end_reason \<Rightarrow> chess_color option \<Rightarrow> chess_game \<Rightarrow> tournament \<Rightarrow> tournament" where
  "finish_game now i result reason forfeitedBy g t =
     (let stats = game_stats g; white = cg_white g; black = the (cg_black g);
          whiteElo = cs_elo (standing_at (tn_standings t) white); blackElo = cs_elo (standing_at (tn_standings t) black);
          score = white_score result;
          s1 = change_standing white (apply_result score black White whiteElo blackElo (stats White) (forfeitedBy = Some White)) (tn_standings t);
          s2 = change_standing black (apply_result (1 - score) white Black blackElo whiteElo (stats Black) (forfeitedBy = Some Black)) s1
      in t\<lparr>tn_games := (tn_games t)[i := finished_game now result reason g], tn_standings := recompute_buchholz s2\<rparr>)"

subsection \<open>Rounds\<close>

definition played_pairs :: "chess_game list \<Rightarrow> string list" where
  "played_pairs games = concat (map (\<lambda>g. case cg_black g of None \<Rightarrow> [] | Some black \<Rightarrow> [pair_key (cg_white g) black]) games)"

definition bye_game :: "real \<Rightarrow> nat \<Rightarrow> player \<Rightarrow> chess_game" where
  "bye_game now rnd bye = (new_game (''r'' @ show_nat rnd @ ''-bye'') rnd bye None)\<lparr>cg_status := GameFinished,
     cg_result := Some WhiteWins, cg_reason := Some Bye, cg_finishedAt := Some now\<rparr>"

definition pair_next_swiss_round :: "real \<Rightarrow> tournament \<Rightarrow> tournament" where
  "pair_next_swiss_round now t =
     (let rnd = tn_round t + 1;
          (pairs, bye) = swiss_pairings (map snd (tn_standings t)) (played_pairs (tn_games t)) rnd
            (\<lambda>name. uint (stable_hash (tn_id t @ '':'' @ name)));
          games = tn_games t @ games_of_round rnd pairs
      in case bye of
           None \<Rightarrow> t\<lparr>tn_games := games, tn_round := rnd\<rparr>
         | Some b \<Rightarrow> t\<lparr>tn_games := games @ [bye_game now rnd b], tn_round := rnd,
             tn_standings := recompute_buchholz (change_standing b (\<lambda>s. s\<lparr>cs_points := cs_points s + 1, cs_byes := cs_byes s + 1\<rparr>) (tn_standings t))\<rparr>)"

subsection \<open>The runner\<close>

text \<open>
  What the runner keeps: how far \<open>load\<close> has read the state file, the state, the file, the copies of the state
  that \<open>persist\<close> has yet to write (\<open>saving\<close>), the games in play (their places in the list and their local
  variables), whether a run is active (\<open>loop !== null\<close>) and told to end (\<open>controller\<close>). \<open>start\<close>, \<open>resume\<close> and
  \<open>reset\<close> wait twice: for \<open>load\<close> before their guard (\<open>rn_calls\<close> such calls do), and after it for the file
  (\<open>rn_accepted\<close>); only then \<open>start\<close> and \<open>resume\<close> launch the run. \<open>rn_stops\<close> are the calls of \<open>stop\<close> that wait
  for the run to end.

  Nothing keeps a second call from passing its guard while a first one is on its way, and two runs may then
  share one tournament. \<open>rn_overlapped\<close>, which the code does not have, records that this happened.
\<close>

datatype load_phase = Unread | Reading | Loaded

datatype accepted_call = Launching | Removing

record runner =
  rn_load :: load_phase
  rn_state :: "tournament option"
  rn_saved :: "tournament option"
  rn_saving :: "tournament list"
  rn_tables :: "(nat \<times> play_state) list"
  rn_active :: bool
  rn_aborted :: bool
  rn_calls :: nat
  rn_accepted :: "accepted_call option"
  rn_stops :: "tournament_status list"
  rn_overlapped :: bool

definition new_runner :: runner where
  "new_runner = \<lparr>rn_load = Unread, rn_state = None, rn_saved = None, rn_saving = [], rn_tables = [], rn_active = False,
     rn_aborted = False, rn_calls = 0, rn_accepted = None, rn_stops = [], rn_overlapped = False\<rparr>"

text \<open>A call passes its guard. It is alone if no other call, \<open>stop\<close> included, is under way and the file has been read.\<close>

definition accept :: "accepted_call \<Rightarrow> runner \<Rightarrow> runner" where
  "accept call r = r\<lparr>rn_accepted := Some call, rn_calls := rn_calls r - 1,
     rn_overlapped := (rn_overlapped r \<or> 1 < rn_calls r \<or> rn_accepted r \<noteq> None \<or> rn_stops r \<noteq> [] \<or> rn_load r \<noteq> Loaded)\<rparr>"

text \<open>\<open>persist\<close> copies the state now (\<open>JSON.stringify\<close>) and has it written after the copies before it.\<close>

definition persist :: "runner \<Rightarrow> runner" where
  "persist r = (case rn_state r of None \<Rightarrow> r | Some t \<Rightarrow> r\<lparr>rn_saving := rn_saving r @ [t]\<rparr>)"

text \<open>\<open>start\<close>, \<open>resume\<close> and \<open>reset\<close> from their guard to the next \<open>await\<close>.\<close>

definition start_tournament :: "string \<Rightarrow> tournament_settings \<Rightarrow> contestant list \<Rightarrow> runner \<Rightarrow> tournament_error + runner" where
  "start_tournament ident settings contestants r = (if rn_active r then Inl AlreadyRunning
     else if length contestants < 2 then Inl TooFewContestants
     else Inr (persist (accept Launching (r\<lparr>rn_state := Some (start_state ident settings contestants)\<rparr>))))"

definition resume_tournament :: "runner \<Rightarrow> tournament_error + runner" where
  "resume_tournament r = (if rn_active r then Inl AlreadyRunning
     else case rn_state r of None \<Rightarrow> Inl NothingToResume
     | Some t \<Rightarrow> if tn_status t = TournamentCompleted then Inl NothingToResume
         else Inr (persist (accept Launching (r\<lparr>rn_state := Some (t\<lparr>tn_status := TournamentRunning, tn_error := None\<rparr>)\<rparr>))))"

definition reset_tournament :: "runner \<Rightarrow> tournament_error + runner" where
  "reset_tournament r = (if rn_active r then Inl StopFirst else Inr (accept Removing (r\<lparr>rn_state := None\<rparr>)))"

text \<open>What follows the \<open>await\<close>: the run is launched, or the file removed (or not, when that fails).\<close>

definition launch :: "runner \<Rightarrow> runner" where
  "launch r = r\<lparr>rn_accepted := None, rn_active := True, rn_aborted := False\<rparr>"

definition remove_file :: "bool \<Rightarrow> runner \<Rightarrow> runner" where
  "remove_file unlinked r = r\<lparr>rn_accepted := None, rn_saved := (if unlinked then None else rn_saved r)\<rparr>"

text \<open>\<open>stop\<close>, until it waits for the run, and once that has ended.\<close>

definition abort_run :: "tournament_status \<Rightarrow> runner \<Rightarrow> runner" where
  "abort_run status r = (if rn_active r then r\<lparr>rn_aborted := True, rn_stops := rn_stops r @ [status]\<rparr> else r)"

definition stop_tournament :: "tournament_status \<Rightarrow> runner \<Rightarrow> runner" where
  "stop_tournament status r = (case rn_state r of None \<Rightarrow> r
     | Some t \<Rightarrow> if tn_status t = TournamentRunning then persist (r\<lparr>rn_state := Some (t\<lparr>tn_status := status\<rparr>)\<rparr>) else r)"

text \<open>\<open>load\<close>, in a new process: what was running is interrupted, and its games wait.\<close>

definition interrupt_state :: "tournament \<Rightarrow> tournament" where
  "interrupt_state t = t\<lparr>tn_status := (if tn_status t = TournamentRunning then TournamentInterrupted else tn_status t),
     tn_games := map (\<lambda>g. if cg_status g = GameRunning then pause_game g else g) (tn_games t)\<rparr>"

definition finish_load :: "runner \<Rightarrow> runner" where
  "finish_load r = r\<lparr>rn_load := Loaded, rn_state := map_option interrupt_state (rn_saved r)\<rparr>"

definition restart_process :: "runner \<Rightarrow> runner" where
  "restart_process r = new_runner\<lparr>rn_saved := rn_saved r, rn_overlapped := rn_overlapped r\<rparr>"

definition AUTO_RESUME_WINDOW_MS :: real where
  "AUTO_RESUME_WINDOW_MS = 24 * 60 * 60 * 1000"

text \<open>\<open>resumeIfInterrupted\<close>: whether it goes on to call \<open>resume\<close>.\<close>

definition resume_if_interrupted :: "real \<Rightarrow> real \<Rightarrow> runner \<Rightarrow> runner \<times> bool" where
  "resume_if_interrupted now updatedAt r = (case rn_state r of None \<Rightarrow> (r, False)
     | Some t \<Rightarrow> if tn_status t \<noteq> TournamentInterrupted \<or> rn_active r \<or> now - updatedAt > AUTO_RESUME_WINDOW_MS then (r, False)
         else (r\<lparr>rn_calls := Suc (rn_calls r)\<rparr>, True))"

definition put_game :: "nat \<Rightarrow> chess_game \<Rightarrow> tournament \<Rightarrow> tournament" where
  "put_game i g t = t\<lparr>tn_games := (tn_games t)[i := g]\<rparr>"

definition pending_games :: "tournament \<Rightarrow> nat list" where
  "pending_games t = filter (\<lambda>i. cg_status (tn_games t ! i) = GamePending) [0..<length (tn_games t)]"

definition leave_table :: "nat \<Rightarrow> (nat \<times> play_state) list \<Rightarrow> (nat \<times> play_state) list" where
  "leave_table i tables = filter (\<lambda>(j, _). j \<noteq> i) tables"

text \<open>One ply at a table: the game moves on, or ends, or is paused.\<close>

definition table_ply :: "real \<Rightarrow> bool \<Rightarrow> move_env \<Rightarrow> nat \<Rightarrow> play_state \<Rightarrow> tournament \<Rightarrow> runner \<Rightarrow> runner" where
  "table_ply now stopped env i st t r =
     (let others = leave_table i (rn_tables r) in case play_ply (game_settings.truncate (tn_settings t)) stopped env st of
        PlayOn st' \<Rightarrow> r\<lparr>rn_state := Some (put_game i (ps_game st') t), rn_tables := (i, st') # others\<rparr>
      | PlayPaused g \<Rightarrow> r\<lparr>rn_state := Some (put_game i g t), rn_tables := others\<rparr>
      | PlayOver result reason loser st' \<Rightarrow>
          r\<lparr>rn_state := Some (finish_game now i result reason loser (ps_game st') t), rn_tables := others\<rparr>)"

text \<open>The end of a turn of \<open>run\<close>'s loop, when nothing is left to play: the next round, or the end.\<close>

definition next_round :: "real \<Rightarrow> tournament \<Rightarrow> tournament" where
  "next_round now t = (if ts_format (tn_settings t) = Swiss \<and> tn_round t < tn_totalRounds t then pair_next_swiss_round now t
     else t\<lparr>tn_status := TournamentCompleted, tn_completedAt := Some now\<rparr>)"

text \<open>
  The steps while at most one run uses the tournament. \<open>persist\<close> is called in many places; here it may be called
  at any time. What throws in a run is not a step: with one run on the tournament, every player has his entry
  and his row, and the answers of the models are caught where they are asked for.
\<close>

inductive single_step :: "runner \<Rightarrow> runner \<Rightarrow> bool" where
  opens: "rn_load r = Unread \<Longrightarrow> single_step r (r\<lparr>rn_load := Reading\<rparr>)"
| reads: "rn_load r = Reading \<Longrightarrow> single_step r (finish_load r)"
| unreadable: "rn_load r = Reading \<Longrightarrow> single_step r (r\<lparr>rn_load := Loaded, rn_state := None\<rparr>)"
| calls: "single_step r (r\<lparr>rn_calls := Suc (rn_calls r)\<rparr>)"
| starts: "0 < rn_calls r \<Longrightarrow> start_tournament ident settings contestants r = Inr r' \<Longrightarrow>
    distinct (map ct_id contestants) \<Longrightarrow> [] \<notin> ct_id ` set contestants \<Longrightarrow> single_step r r'"
| resumes: "0 < rn_calls r \<Longrightarrow> resume_tournament r = Inr r' \<Longrightarrow> single_step r r'"
| resets: "0 < rn_calls r \<Longrightarrow> reset_tournament r = Inr r' \<Longrightarrow> single_step r r'"
| refuses: "0 < rn_calls r \<Longrightarrow> start_tournament ident settings contestants r = Inl e \<or> resume_tournament r = Inl e \<or>
    reset_tournament r = Inl e \<Longrightarrow> single_step r (r\<lparr>rn_calls := rn_calls r - 1\<rparr>)"
| launches: "rn_accepted r = Some Launching \<Longrightarrow> single_step r (launch r)"
| removes: "rn_accepted r = Some Removing \<Longrightarrow> rn_saving r = [] \<Longrightarrow> single_step r (remove_file unlinked r)"
| sits: "rn_active r \<Longrightarrow> \<not> rn_aborted r \<Longrightarrow> rn_state r = Some t \<Longrightarrow> i \<in> set (pending_games t) \<Longrightarrow>
    length (rn_tables r) < max 1 (ts_concurrency (tn_settings t)) \<Longrightarrow> st = sit_down (tn_id t) now (tn_games t ! i) \<Longrightarrow>
    single_step r (r\<lparr>rn_state := Some (put_game i (ps_game st) t), rn_tables := (i, st) # rn_tables r\<rparr>)"
| plies: "rn_active r \<Longrightarrow> rn_state r = Some t \<Longrightarrow> (i, st) \<in> set (rn_tables r) \<Longrightarrow> stopped \<longrightarrow> rn_aborted r \<Longrightarrow>
    single_step r (table_ply now stopped env i st t r)"
| rounds: "rn_active r \<Longrightarrow> \<not> rn_aborted r \<Longrightarrow> rn_state r = Some t \<Longrightarrow> tn_status t \<noteq> TournamentCompleted \<Longrightarrow> rn_tables r = [] \<Longrightarrow>
    pending_games t = [] \<Longrightarrow> single_step r (r\<lparr>rn_state := Some (next_round now t)\<rparr>)"
| ends: "rn_active r \<Longrightarrow> rn_state r = Some t \<Longrightarrow> rn_tables r = [] \<Longrightarrow> rn_aborted r \<or> tn_status t = TournamentCompleted \<Longrightarrow>
    single_step r (r\<lparr>rn_active := False\<rparr>)"
| aborts: "status \<in> {TournamentStopped, TournamentInterrupted} \<Longrightarrow> single_step r (abort_run status r)"
| stops: "\<not> rn_active r \<Longrightarrow> rn_stops r = status # rest \<Longrightarrow> single_step r (stop_tournament status (r\<lparr>rn_stops := rest\<rparr>))"
| persists: "single_step r (persist r)"
| writes: "rn_saving r = t # rest \<Longrightarrow> single_step r (r\<lparr>rn_saved := Some t, rn_saving := rest\<rparr>)"
| write_fails: "rn_saving r = t # rest \<Longrightarrow> single_step r (r\<lparr>rn_saving := rest\<rparr>)"
| restarts: "single_step r (restart_process r)"

text \<open>
  Once calls have overlapped, several runs may play on one tournament, and one may still hold a tournament that
  was replaced. What that does to games and standings is left open: the places, players and rounds of the games
  stay, and new games come from pairing a round or from \<open>start\<close>. These are all tournaments in memory, in the
  file or on the way to it.
\<close>

definition seats_of :: "chess_game \<Rightarrow> player \<times> player option \<times> nat" where
  "seats_of g = (cg_white g, cg_black g, cg_round g)"

definition rows_of :: "(player \<times> chess_standing) list \<Rightarrow> (player \<times> player) list" where
  "rows_of standings = map (\<lambda>(k, s). (k, cs_id s)) standings"

inductive derived :: "tournament \<Rightarrow> tournament \<Rightarrow> bool" for t where
  unchanged: "derived t t"
| results: "derived t t1 \<Longrightarrow> map seats_of (tn_games t2) = map seats_of (tn_games t1) \<Longrightarrow>
    rows_of (tn_standings t2) = rows_of (tn_standings t1) \<Longrightarrow> tn_settings t2 = tn_settings t1 \<Longrightarrow>
    tn_round t2 = tn_round t1 \<Longrightarrow> derived t t2"
| paired: "derived t t1 \<Longrightarrow> derived t (pair_next_swiss_round now t1)"

definition tournaments :: "runner \<Rightarrow> tournament set" where
  "tournaments r = set_option (rn_state r) \<union> set_option (rn_saved r) \<union> set (rn_saving r)"

definition begun :: "tournament set" where
  "begun = {start_state ident settings contestants | ident settings contestants. distinct (map ct_id contestants)}"

inductive runner_step :: "runner \<Rightarrow> runner \<Rightarrow> bool" where
  alone: "\<not> rn_overlapped r \<Longrightarrow> single_step r r' \<Longrightarrow> runner_step r r'"
| together: "rn_overlapped r \<Longrightarrow> rn_overlapped r' \<Longrightarrow> \<forall>t' \<in> tournaments r'. \<exists>t \<in> tournaments r \<union> begun. derived t t' \<Longrightarrow>
    runner_step r r'"

inductive runner_reachable :: "runner \<Rightarrow> bool" where
  idle: "runner_reachable new_runner"
| steps: "runner_reachable r \<Longrightarrow> runner_step r r' \<Longrightarrow> runner_reachable r'"

end
