(* ===== verification/Tournament_Standings.thy ===== *)
theory Tournament_Standings
  imports Tournament_Runner
begin

text \<open>
  The standings of a tournament are what its finished games make them, and its rounds are fair: the abstract
  specification (\<open>earned\<close>) gives for every game, player and column what the game is worth, and the
  incremental updates of the runner implement its sum.
\<close>

subsection \<open>What a game is worth\<close>

datatype column = Points | Wins | Draws | Losses | Byes | Games | WhiteGames | BlackGames

fun column_of :: "column \<Rightarrow> chess_standing \<Rightarrow> real" where
  "column_of Points s = cs_points s"
| "column_of Wins s = real (cs_wins s)"
| "column_of Draws s = real (cs_draws s)"
| "column_of Losses s = real (cs_losses s)"
| "column_of Byes s = real (cs_byes s)"
| "column_of Games s = real (cs_games s)"
| "column_of WhiteGames s = real (cs_whiteGames s)"
| "column_of BlackGames s = real (cs_blackGames s)"

fun worth_to :: "column \<Rightarrow> chess_color \<Rightarrow> real \<Rightarrow> real" where
  "worth_to Points side score = score"
| "worth_to Wins side score = (if score = 1 then 1 else 0)"
| "worth_to Draws side score = (if score \<noteq> 1 \<and> score \<noteq> 0 then 1 else 0)"
| "worth_to Losses side score = (if score = 0 then 1 else 0)"
| "worth_to Byes side score = 0"
| "worth_to Games side score = 1"
| "worth_to WhiteGames side score = (if side = White then 1 else 0)"
| "worth_to BlackGames side score = (if side = White then 0 else 1)"

definition earned :: "column \<Rightarrow> player \<Rightarrow> chess_game \<Rightarrow> real" where
  "earned c k g = (if cg_status g \<noteq> GameFinished then 0
     else case cg_black g of
       None \<Rightarrow> if k = cg_white g \<and> (c = Points \<or> c = Byes) then 1 else 0
     | Some black \<Rightarrow> let score = white_score (the (cg_result g)) in
         if k = cg_white g then worth_to c White score else if k = black then worth_to c Black (1 - score) else 0)"

definition opponents_in :: "player \<Rightarrow> chess_game \<Rightarrow> player list" where
  "opponents_in k g = (if cg_status g \<noteq> GameFinished then []
     else case cg_black g of None \<Rightarrow> [] | Some black \<Rightarrow> if k = cg_white g then [black] else if k = black then [cg_white g] else [])"

definition players_in :: "chess_game \<Rightarrow> player list" where
  "players_in g = cg_white g # (case cg_black g of None \<Rightarrow> [] | Some black \<Rightarrow> [black])"

definition round_players :: "nat \<Rightarrow> chess_game list \<Rightarrow> player list" where
  "round_players rnd games = concat (map players_in (filter (\<lambda>g. cg_round g = rnd) games))"

subsection \<open>The invariant\<close>

type_synonym standings = "(player \<times> chess_standing) list"

definition game_ok :: "player set \<Rightarrow> chess_game \<Rightarrow> bool" where
  "game_ok ids g = (cg_white g \<in> ids \<and> (case cg_black g of None \<Rightarrow> cg_status g = GameFinished | Some black \<Rightarrow> black \<in> ids \<and> black \<noteq> cg_white g))"

definition standings_ok :: "standings \<Rightarrow> chess_game list \<Rightarrow> bool" where
  "standings_ok standings games = (distinct (map fst standings) \<and>
     (\<forall>(k, s) \<in> set standings. cs_id s = k \<and> (\<forall>c. column_of c s = sum_list (map (earned c k) games)) \<and>
        mset (cs_opponents s) = mset (concat (map (opponents_in k) games)) \<and>
        cs_buchholz s = opponent_points standings (cs_opponents s)))"

definition rounds_ok :: "tournament \<Rightarrow> bool" where
  "rounds_ok t = ((\<forall>g \<in> set (tn_games t). 1 \<le> cg_round g \<and> cg_round g \<le> tn_round t) \<and>
     (\<forall>rnd. distinct (round_players rnd (tn_games t))) \<and>
     (ts_format (tn_settings t) = Swiss \<longrightarrow>
        (\<forall>rnd. 1 \<le> rnd \<and> rnd \<le> tn_round t \<longrightarrow> mset (round_players rnd (tn_games t)) = mset (map fst (tn_standings t)))))"

text \<open>The table lists the contestants.\<close>

definition entered :: "tournament \<Rightarrow> bool" where
  "entered t = (map fst (tn_standings t) = map ct_id (tn_contestants t))"

definition tournament_ok :: "tournament \<Rightarrow> bool" where
  "tournament_ok t = (standings_ok (tn_standings t) (tn_games t) \<and> rounds_ok t \<and> entered t \<and>
     (\<forall>g \<in> set (tn_games t). game_ok (fst ` set (tn_standings t)) g))"

subsection \<open>Standings\<close>

lemma sum_list_replace: "i < length xs \<Longrightarrow> sum_list (map f (xs[i := y])) = sum_list (map f xs) - f (xs ! i) + (f y :: real)"
proof (induction xs arbitrary: i)
  case (Cons x xs)
  then show ?case by (cases i) (auto simp: algebra_simps)
qed simp

lemma mset_replace:
  assumes "i < length xs" "f (xs ! i) = []"
  shows "mset (concat (map f (xs[i := y]))) = mset (concat (map f xs)) + mset (f y)"
  using assms
proof (induction xs arbitrary: i)
  case (Cons x xs)
  then show ?case by (cases i) auto
qed simp

lemma apply_result_columns:
  "column_of c (apply_result score opponent side own_elo other_elo stats forfeited s) = column_of c s + worth_to c side score"
  by (cases c) (simp_all add: apply_result_def)

lemma apply_result_fields:
  "cs_id (apply_result score opponent side own_elo other_elo stats forfeited s) = cs_id s"
  "cs_opponents (apply_result score opponent side own_elo other_elo stats forfeited s) = cs_opponents s @ [opponent]"
  by (simp_all add: apply_result_def)

lemma change_keys [simp]: "map fst (change_standing k f standings) = map fst standings"
  by (induction standings) (auto simp: change_standing_def)

lemma change_set: "set (change_standing k f standings) = (\<lambda>(k', s). (k', if k' = k then f s else s)) ` set standings"
  by (simp add: change_standing_def)

lemma buchholz_keys [simp]: "map fst (recompute_buchholz standings) = map fst standings"
  by (induction standings) (auto simp: recompute_buchholz_def)

lemma keys_image [simp]: "fst ` set (change_standing k f standings) = fst ` set standings"
  "fst ` set (recompute_buchholz standings) = fst ` set standings"
  by (metis change_keys list.set_map, metis buchholz_keys list.set_map)

lemma map_of_buchholz: "map_of (recompute_buchholz standings) k =
    map_option (\<lambda>s. s\<lparr>cs_buchholz := opponent_points standings (cs_opponents s)\<rparr>) (map_of standings k)"
proof -
  have "map_of (map (\<lambda>(k, s). (k, f s)) xs) k = map_option f (map_of xs k)" for f :: "chess_standing \<Rightarrow> chess_standing" and xs
    by (induction xs) auto
  then show ?thesis by (simp add: recompute_buchholz_def)
qed

lemma buchholz_points: "opponent_points (recompute_buchholz standings) opponents = opponent_points standings opponents"
proof -
  have "(case map_of (recompute_buchholz standings) k of Some s \<Rightarrow> cs_points s | None \<Rightarrow> 0) =
      (case map_of standings k of Some s \<Rightarrow> cs_points s | None \<Rightarrow> 0)" for k
    by (simp add: map_of_buchholz split: option.splits)
  then show ?thesis by (simp add: opponent_points_def)
qed

text \<open>Counts that are right become right again by recomputing the last column.\<close>

definition counts_ok :: "standings \<Rightarrow> chess_game list \<Rightarrow> bool" where
  "counts_ok standings games = (distinct (map fst standings) \<and>
     (\<forall>(k, s) \<in> set standings. cs_id s = k \<and> (\<forall>c. column_of c s = sum_list (map (earned c k) games)) \<and>
        mset (cs_opponents s) = mset (concat (map (opponents_in k) games))))"

lemma standings_counts: "standings_ok standings games \<Longrightarrow> counts_ok standings games"
  by (auto simp: standings_ok_def counts_ok_def)

lemma recomputed: "counts_ok standings games \<Longrightarrow> standings_ok (recompute_buchholz standings) games"
proof -
  assume ok: "counts_ok standings games"
  have column: "column_of c (s\<lparr>cs_buchholz := x\<rparr>) = column_of c s" for c s x by (cases c) simp_all
  have "cs_id s = k \<and> (\<forall>c. column_of c s = sum_list (map (earned c k) games)) \<and>
      mset (cs_opponents s) = mset (concat (map (opponents_in k) games)) \<and> cs_buchholz s = opponent_points standings (cs_opponents s)"
    if "(k, s) \<in> set (recompute_buchholz standings)" for k s
    using that ok column by (auto simp: recompute_buchholz_def counts_ok_def)
  then show ?thesis using ok by (auto simp: standings_ok_def counts_ok_def buchholz_points)
qed

lemma finished_counts:
  assumes counts: "counts_ok standings games" and i: "i < length games" "cg_status (games ! i) \<noteq> GameFinished"
    and g: "cg_status g = GameFinished" "cg_white g = white" "cg_black g = Some black" "cg_result g = Some result" "white \<noteq> black"
  shows "counts_ok (change_standing black (apply_result (1 - white_score result) white Black o1 o2 st1 f1)
      (change_standing white (apply_result (white_score result) black White o3 o4 st2 f2) standings)) (games[i := g])"
proof -
  let ?score = "white_score result" and ?games = "games[i := g]"
  let ?w = "apply_result ?score black White o3 o4 st2 f2" and ?b = "apply_result (1 - ?score) white Black o1 o2 st1 f1"
  have sum: "sum_list (map (earned c k) ?games) = sum_list (map (earned c k) games) + earned c k g" for c k
    using sum_list_replace[OF i(1), of "earned c k" g] i(2) by (simp add: earned_def)
  have opp: "mset (concat (map (opponents_in k) ?games)) = mset (concat (map (opponents_in k) games)) + mset (opponents_in k g)" for k
    using mset_replace[OF i(1), of "opponents_in k" g] i(2) by (simp add: opponents_in_def)
  have gain: "earned c k g = (if k = white then worth_to c White ?score else if k = black then worth_to c Black (1 - ?score) else 0)" for c k
    by (simp add: earned_def g Let_def)
  have met: "opponents_in k g = (if k = white then [black] else if k = black then [white] else [])" for k
    by (simp add: opponents_in_def g)
  have "cs_id s = k \<and> (\<forall>c. column_of c s = sum_list (map (earned c k) ?games)) \<and>
      mset (cs_opponents s) = mset (concat (map (opponents_in k) ?games))"
    if ks: "(k, s) \<in> set (change_standing black ?b (change_standing white ?w standings))" for k s
  proof -
    obtain s0 where s0: "(k, s0) \<in> set standings" "s = (if k = black then ?b s0 else if k = white then ?w s0 else s0)"
      using ks g(5) by (auto simp: change_set split: if_splits)
    have old: "cs_id s0 = k" "\<And>c. column_of c s0 = sum_list (map (earned c k) games)"
      "mset (cs_opponents s0) = mset (concat (map (opponents_in k) games))" using counts s0(1) by (auto simp: counts_ok_def)
    then show ?thesis using s0(2) g(5) by (auto simp: sum opp gain met apply_result_columns apply_result_fields)
  qed
  then show ?thesis using counts by (auto simp: counts_ok_def)
qed

text \<open>A game that is not finished counts nothing, whatever its state.\<close>

lemma unfinished_same:
  assumes "i < length games" "cg_status (games ! i) \<noteq> GameFinished" "cg_status g \<noteq> GameFinished" "standings_ok standings games"
  shows "standings_ok standings (games[i := g])"
proof -
  have "sum_list (map (earned c k) (games[i := g])) = sum_list (map (earned c k) games)" for c k
    using sum_list_replace[OF assms(1), of "earned c k" g] assms(2,3) by (simp add: earned_def)
  moreover have "mset (concat (map (opponents_in k) (games[i := g]))) = mset (concat (map (opponents_in k) games))" for k
    using mset_replace[OF assms(1), of "opponents_in k" g] assms(2,3) by (simp add: opponents_in_def)
  ultimately show ?thesis using assms(4) by (simp add: standings_ok_def)
qed

lemma new_games_same:
  assumes "\<forall>g \<in> set new. cg_status g \<noteq> GameFinished" "counts_ok standings games"
  shows "counts_ok standings (games @ new)"
proof -
  have same: "sum_list (map (earned c k) (games @ new)) = sum_list (map (earned c k) games)"
    "mset (concat (map (opponents_in k) (games @ new))) = mset (concat (map (opponents_in k) games))" for c k
    using assms(1) by (induction new) (auto simp: earned_def opponents_in_def)
  show ?thesis using assms(2) unfolding counts_ok_def same .
qed

subsection \<open>Games keep their players\<close>

definition same_seats :: "chess_game \<Rightarrow> chess_game \<Rightarrow> bool" where
  "same_seats g g' = (cg_white g' = cg_white g \<and> cg_black g' = cg_black g \<and> cg_round g' = cg_round g)"

lemma same_seats_trans: "same_seats g g' \<Longrightarrow> same_seats g' g'' \<Longrightarrow> same_seats g g''"
  by (simp add: same_seats_def)

lemma sit_down_seats: "same_seats g (ps_game (sit_down tournament now g)) \<and> cg_status (ps_game (sit_down tournament now g)) = GameRunning"
  by (auto simp: sit_down_def Let_def same_seats_def reset_game_def new_game_def)

lemma counted_seats: "same_seats g (count_in_game side c g) \<and> cg_status (count_in_game side c g) = cg_status g"
  by (simp add: count_in_game_def Let_def same_seats_def split: option.splits)

lemma push_seats: "same_seats (ps_game st) (ps_game (push_move m legal st)) \<and> cg_status (ps_game (push_move m legal st)) = cg_status (ps_game st)"
  by (simp add: push_move_def Let_def same_seats_def)

lemma thinking_seats: "same_seats g (g\<lparr>cg_thinking := x\<rparr>) \<and> cg_status (g\<lparr>cg_thinking := x\<rparr>) = cg_status g"
  by (simp add: same_seats_def)

lemma ply_seats:
  "play_ply settings stopped env st = PlayOn st' \<Longrightarrow> same_seats (ps_game st) (ps_game st') \<and> cg_status (ps_game st') = cg_status (ps_game st)"
  "play_ply settings stopped env st = PlayPaused g \<Longrightarrow> same_seats (ps_game st) g \<and> cg_status g = GamePending"
  "play_ply settings stopped env st = PlayOver result reason loser st' \<Longrightarrow>
     same_seats (ps_game st) (ps_game st') \<and> cg_status (ps_game st') = cg_status (ps_game st)"
proof -
  show "play_ply settings stopped env st = PlayPaused g \<Longrightarrow> same_seats (ps_game st) g \<and> cg_status g = GamePending"
    by (auto simp: play_ply_def Let_def pause_game_def same_seats_def split: if_splits option.splits)
  have counted: "same_seats (ps_game st) (count_in_game side c (ps_game st\<lparr>cg_thinking := x\<rparr>)) \<and>
      cg_status (count_in_game side c (ps_game st\<lparr>cg_thinking := x\<rparr>)) = cg_status (ps_game st)" for side c x
    using counted_seats thinking_seats same_seats_trans by metis
  show "play_ply settings stopped env st = PlayOver result reason loser st' \<Longrightarrow>
     same_seats (ps_game st) (ps_game st') \<and> cg_status (ps_game st') = cg_status (ps_game st)"
    using counted by (auto simp: play_ply_def Let_def same_seats_def split: if_splits option.splits)
  assume "play_ply settings stopped env st = PlayOn st'"
  then obtain m legal side c x st1 where "st' = push_move m legal st1" "ps_game st1 = count_in_game side c (ps_game st\<lparr>cg_thinking := x\<rparr>)"
    by (auto simp: play_ply_def Let_def split: if_splits option.splits)
  then show "same_seats (ps_game st) (ps_game st') \<and> cg_status (ps_game st') = cg_status (ps_game st)"
    using counted push_seats same_seats_trans by metis
qed

subsection \<open>Rounds\<close>

lemma round_players_alt: "round_players rnd games = concat (map (\<lambda>g. if cg_round g = rnd then players_in g else []) games)"
  by (induction games) (auto simp: round_players_def)

lemma round_players_append [simp]: "round_players rnd (xs @ ys) = round_players rnd xs @ round_players rnd ys"
  by (simp add: round_players_def)

lemma round_players_same:
  assumes "i < length games" "same_seats (games ! i) g"
  shows "round_players rnd (games[i := g]) = round_players rnd games"
proof -
  let ?f = "\<lambda>g. if cg_round g = rnd then players_in g else []"
  have "?f g = ?f (games ! i)" using assms(2) by (simp add: same_seats_def players_in_def)
  then have "map ?f (games[i := g]) = map ?f games" using assms(1) by (simp add: map_update list_update_same_conv)
  then show ?thesis unfolding round_players_alt by (rule arg_cong)
qed

lemma round_players_new: "round_players rnd (games_of_round r pairs) = (if r = rnd then players_of pairs else [])"
proof -
  have "concat (map players_in (map (\<lambda>(index, white, black). new_game (game_name r index) r white (Some black)) (zip is pairs))) = players_of pairs"
    if "length is = length pairs" for "is"
    using that by (induction "is" pairs rule: list_induct2) (auto simp: players_in_def new_game_def)
  from this[of "[0..<length pairs]"] have "concat (map players_in (games_of_round r pairs)) = players_of pairs"
    by (simp only: games_of_round_def length_upt diff_zero)
  moreover have "cg_round g = r" if "g \<in> set (games_of_round r pairs)" for g using that by (auto simp: games_of_round_def new_game_def)
  then have "filter (\<lambda>g. cg_round g = rnd) (games_of_round r pairs) = (if r = rnd then games_of_round r pairs else [])"
    by (auto simp: filter_id_conv filter_empty_conv)
  ultimately show ?thesis by (cases "r = rnd") (simp_all add: round_players_def)
qed

lemma new_games: "g \<in> set (games_of_round r pairs) \<Longrightarrow>
    cg_status g = GamePending \<and> cg_round g = r \<and> (\<exists>black. cg_black g = Some black \<and> (cg_white g, black) \<in> set pairs)"
  by (auto simp: games_of_round_def new_game_def dest: set_zip_rightD)

lemma ok_put:
  assumes t: "tournament_ok t" and i: "i < length (tn_games t)" "cg_status (tn_games t ! i) \<noteq> GameFinished"
    and g: "cg_status g \<noteq> GameFinished" "same_seats (tn_games t ! i) g"
  shows "tournament_ok (put_game i g t)"
proof -
  have "game_ok ids (tn_games t ! i) \<Longrightarrow> game_ok ids g" for ids using g i(2) by (auto simp: game_ok_def same_seats_def split: option.splits)
  moreover have "cg_round g = cg_round (tn_games t ! i)" using g(2) by (simp add: same_seats_def)
  moreover have "set ((tn_games t)[i := g]) \<subseteq> insert g (set (tn_games t))" by (rule set_update_subset_insert)
  moreover have "tn_games t ! i \<in> set (tn_games t)" using i(1) by simp
  moreover have "entered (put_game i g t) = entered t" by (simp add: entered_def put_game_def)
  ultimately show ?thesis
    using t unfinished_same[OF i g(1)] round_players_same[OF i(1) g(2)] by (auto simp: tournament_ok_def rounds_ok_def put_game_def)
qed

lemma ok_finish:
  assumes t: "tournament_ok t" and i: "i < length (tn_games t)" "cg_status (tn_games t ! i) \<noteq> GameFinished"
    and g: "same_seats (tn_games t ! i) g"
  shows "tournament_ok (finish_game now i result reason loser g t)"
proof -
  let ?g = "finished_game now result reason g" and ?t = "finish_game now i result reason loser g t"
  have at: "tn_games t ! i \<in> set (tn_games t)" using i(1) by simp
  then obtain black where seats: "cg_black g = Some black" "cg_white g \<noteq> black" "cg_white g \<in> fst ` set (tn_standings t)" "black \<in> fst ` set (tn_standings t)"
    using t i(2) g by (auto simp: tournament_ok_def game_ok_def same_seats_def split: option.splits)
  have f: "cg_status ?g = GameFinished" "cg_white ?g = cg_white g" "cg_black ?g = Some black" "cg_result ?g = Some result"
    using seats by (simp_all add: finished_game_def)
  have seat: "same_seats (tn_games t ! i) ?g" using g by (simp add: same_seats_def finished_game_def)
  have "counts_ok (tn_standings t) (tn_games t)" using t standings_counts by (simp add: tournament_ok_def)
  note counts = finished_counts[OF this i f seats(2)]
  have "standings_ok (tn_standings ?t) (tn_games ?t)"
    using recomputed[OF counts] seats(1) by (simp add: finish_game_def Let_def)
  moreover have keys: "map fst (tn_standings ?t) = map fst (tn_standings t)" "tn_games ?t = (tn_games t)[i := ?g]" "tn_round ?t = tn_round t"
    "tn_settings ?t = tn_settings t" "tn_contestants ?t = tn_contestants t" by (simp_all add: finish_game_def Let_def)
  moreover have "entered ?t = entered t" unfolding entered_def keys ..
  moreover have "fst ` set (tn_standings ?t) = fst ` set (tn_standings t)" using keys(1) by (metis list.set_map)
  moreover have "game_ok (fst ` set (tn_standings t)) ?g" using seats f by (simp add: game_ok_def)
  moreover have "set ((tn_games t)[i := ?g]) \<subseteq> insert ?g (set (tn_games t))" by (rule set_update_subset_insert)
  moreover have "cg_round ?g = cg_round (tn_games t ! i)" using seat by (simp add: same_seats_def)
  ultimately show ?thesis using t at round_players_same[OF i(1) seat] by (auto simp: tournament_ok_def rounds_ok_def)
qed

subsection \<open>Starting and restarting\<close>

lemma ok_interrupt: "tournament_ok t \<Longrightarrow> tournament_ok (interrupt_state t)"
proof -
  assume t: "tournament_ok t"
  define f where "f = (\<lambda>g. if cg_status g = GameRunning then pause_game g else g)"
  have same: "earned c k (f g) = earned c k g" "opponents_in k (f g) = opponents_in k g" "players_in (f g) = players_in g"
    "cg_round (f g) = cg_round g" "game_ok ids (f g) = game_ok ids g" for c k g ids
    by (auto simp: f_def pause_game_def earned_def opponents_in_def players_in_def game_ok_def split: option.splits)
  have maps: "map (earned c k \<circ> f) gs = map (earned c k) gs" "map (opponents_in k \<circ> f) gs = map (opponents_in k) gs" for c k gs
    by (simp_all add: same)
  have rounds: "round_players rnd (map f gs) = round_players rnd gs" for rnd gs
    by (induction gs) (simp_all add: round_players_def same)
  have state: "tn_games (interrupt_state t) = map f (tn_games t)" "tn_standings (interrupt_state t) = tn_standings t"
    "tn_round (interrupt_state t) = tn_round t" "tn_settings (interrupt_state t) = tn_settings t"
    "tn_contestants (interrupt_state t) = tn_contestants t"
    by (simp_all add: interrupt_state_def f_def)
  have "standings_ok (tn_standings t) (map f (tn_games t))"
    using t unfolding tournament_ok_def standings_ok_def list.map_comp maps by (rule conjunct1)
  moreover have "entered (interrupt_state t) = entered t" unfolding entered_def state ..
  ultimately show ?thesis using t by (simp add: tournament_ok_def rounds_ok_def state rounds same)
qed

lemma new_standings_keys: "map fst (new_standings ids) = ids"
  unfolding new_standings_def by (rule nth_equalityI) simp_all

lemma new_standings_ok: "distinct ids \<Longrightarrow> \<forall>g \<in> set games. cg_status g \<noteq> GameFinished \<Longrightarrow> standings_ok (new_standings ids) games"
proof -
  assume ids: "distinct ids" and games: "\<forall>g \<in> set games. cg_status g \<noteq> GameFinished"
  have column: "column_of c (empty_standing k seed) = 0" for c k seed by (cases c) (simp_all add: empty_standing_def)
  have fresh: "cs_id s = k \<and> (\<forall>c. column_of c s = 0) \<and> cs_opponents s = []" if "(k, s) \<in> set (new_standings ids)" for k s
  proof -
    obtain seed where "s = empty_standing k seed" using \<open>(k, s) \<in> _\<close> by (auto simp: new_standings_def)
    then show ?thesis using column by (simp add: empty_standing_def)
  qed
  then have "counts_ok (new_standings ids) []" using ids by (fastforce simp: counts_ok_def new_standings_keys)
  from new_games_same[OF games this] have counts: "counts_ok (new_standings ids) games" by simp
  have points: "\<forall>x \<in> set (new_standings ids). cs_buchholz (snd x) = opponent_points (new_standings ids) (cs_opponents (snd x))"
    by (auto simp: new_standings_def empty_standing_def opponent_points_def)
  show ?thesis unfolding standings_ok_def using counts[unfolded counts_ok_def] points by (simp add: case_prod_unfold)
qed

definition all_rounds :: "nat \<Rightarrow> (player \<times> player) list list \<Rightarrow> chess_game list" where
  "all_rounds k sched = concat (map (\<lambda>(i, pairs). games_of_round (i + 1) pairs) (zip [k..<k + length sched] sched))"

lemma all_rounds_Cons: "all_rounds k (pairs # sched) = games_of_round (Suc k) pairs @ all_rounds (Suc k) sched"
proof -
  have "[k..<k + length (pairs # sched)] = k # [Suc k..<Suc k + length sched]" by (simp add: upt_rec)
  then show ?thesis by (simp add: all_rounds_def del: upt_Suc)
qed

lemma all_rounds_mem: "g \<in> set (all_rounds k sched) \<Longrightarrow> cg_status g = GamePending \<and> k < cg_round g \<and> cg_round g \<le> k + length sched \<and>
    (\<exists>pairs \<in> set sched. \<exists>black. cg_black g = Some black \<and> (cg_white g, black) \<in> set pairs)"
proof (induction sched arbitrary: k)
  case (Cons pairs sched)
  show ?case
  proof (cases "g \<in> set (games_of_round (Suc k) pairs)")
    case True
    then show ?thesis using new_games[of g "Suc k" pairs] by auto
  next
    case False
    then have "g \<in> set (all_rounds (Suc k) sched)" using Cons.prems by (simp add: all_rounds_Cons)
    from Cons.IH[OF this] show ?thesis by auto
  qed
qed (simp add: all_rounds_def)

lemma all_rounds_players:
  "\<exists>pairs. (pairs = [] \<or> pairs \<in> set sched) \<and> round_players rnd (all_rounds k sched) = players_of pairs"
proof (induction sched arbitrary: k)
  case Nil
  then show ?case by (auto simp: all_rounds_def round_players_def intro: exI[of _ "[]"])
next
  case (Cons pairs sched)
  show ?case
  proof (cases "rnd = Suc k")
    case True
    then have "filter (\<lambda>g. cg_round g = rnd) (all_rounds (Suc k) sched) = []" by (auto simp: filter_empty_conv dest: all_rounds_mem)
    then have "round_players rnd (all_rounds (Suc k) sched) = []" by (simp add: round_players_def)
    then show ?thesis using True by (auto simp: all_rounds_Cons round_players_new)
  next
    case False
    then show ?thesis using Cons.IH[of "Suc k"] by (auto simp: all_rounds_Cons round_players_new)
  qed
qed

lemma distinct_pair: "distinct (players_of ps) \<Longrightarrow> (a, b) \<in> set ps \<Longrightarrow> a \<noteq> b"
  by (induction ps) auto

lemma players_mem: "(a, b) \<in> set ps \<Longrightarrow> a \<in> set (players_of ps) \<and> b \<in> set (players_of ps)"
  by (induction ps) auto

lemma start_fields:
  "tn_standings (start_state ident settings contestants) = new_standings (map ct_id contestants)"
  "tn_settings (start_state ident settings contestants) = settings"
  "tn_contestants (start_state ident settings contestants) = contestants"
  "tn_status (start_state ident settings contestants) = TournamentRunning"
  "tn_round (start_state ident settings contestants) =
    (if ts_format settings = RoundRobin then length (round_robin_schedule (map ct_id contestants)) else 0)"
  "tn_games (start_state ident settings contestants) =
    (if ts_format settings = RoundRobin then all_rounds 0 (round_robin_schedule (map ct_id contestants)) else [])"
  by (simp_all add: start_state_def Let_def all_rounds_def)

lemma ok_start:
  assumes "distinct (map ct_id contestants)"
  shows "tournament_ok (start_state ident settings contestants) \<and>
    (\<forall>g \<in> set (tn_games (start_state ident settings contestants)). cg_status g = GamePending)"
proof -
  let ?ids = "map ct_id contestants" and ?t = "start_state ident settings contestants"
  let ?S = "round_robin_schedule ?ids"
  have pending: "\<forall>g \<in> set (tn_games ?t). cg_status g = GamePending" using all_rounds_mem by (auto simp: start_fields)
  then have standings: "standings_ok (tn_standings ?t) (tn_games ?t)" using new_standings_ok[OF assms] by (simp add: start_fields)
  have fair: "distinct (players_of pairs) \<and> (\<forall>(a, b) \<in> set pairs. a \<in> set ?ids \<and> b \<in> set ?ids)" if "pairs \<in> set ?S" for pairs
    using schedule_fair[OF assms that] by (simp add: players_of_def)
  have rounds: "distinct (round_players rnd (all_rounds 0 ?S))" for rnd
    using all_rounds_players[of ?S rnd 0] fair by auto
  have ids: "fst ` set (new_standings ?ids) = set ?ids" using new_standings_keys by (metis list.set_map)
  have "game_ok (set ?ids) g" if g: "g \<in> set (all_rounds 0 ?S)" for g
  proof -
    obtain pairs black where "pairs \<in> set ?S" "cg_black g = Some black" "(cg_white g, black) \<in> set pairs"
      using all_rounds_mem[OF g] by blast
    then show ?thesis using fair[of pairs] distinct_pair[of pairs "cg_white g" black] by (auto simp: game_ok_def)
  qed
  moreover have "1 \<le> cg_round g \<and> cg_round g \<le> length ?S" if "g \<in> set (all_rounds 0 ?S)" for g
    using all_rounds_mem[OF that] by simp
  ultimately have games: "\<forall>g \<in> set (tn_games ?t). game_ok (fst ` set (tn_standings ?t)) g \<and> 1 \<le> cg_round g \<and> cg_round g \<le> tn_round ?t"
    unfolding start_fields ids by simp
  have "distinct (round_players rnd (tn_games ?t))" for rnd using rounds by (simp add: start_fields round_players_def)
  then have "rounds_ok ?t" using games by (auto simp: rounds_ok_def start_fields)
  moreover have "entered ?t" by (simp add: entered_def start_fields new_standings_keys)
  ultimately show ?thesis using pending standings games by (simp add: tournament_ok_def)
qed

end
