(* ===== verification/Tournament_Props.thy ===== *)
theory Tournament_Props
  imports Tournament_Standings
begin

text \<open>
  What holds of a tournament in every state its runner can reach: the standings add up, the rounds are fair,
  no game is forgotten, and a completed tournament is complete. The rounds stay fair even when calls overlap.
\<close>

subsection \<open>The next round\<close>

lemma bye_counts:
  assumes counts: "counts_ok standings games" and g: "cg_status g = GameFinished" "cg_white g = b" "cg_black g = None"
  shows "counts_ok (change_standing b (\<lambda>s. s\<lparr>cs_points := cs_points s + 1, cs_byes := cs_byes s + 1\<rparr>) standings) (games @ [g])"
proof -
  let ?f = "\<lambda>s. s\<lparr>cs_points := cs_points s + 1, cs_byes := cs_byes s + 1\<rparr>"
  have gain: "column_of c (?f s) = column_of c s + earned c b g" for c s
    by (cases c) (simp_all add: earned_def g)
  have others: "earned c k g = 0" if "k \<noteq> b" for c k using that by (simp add: earned_def g)
  have "opponents_in k g = []" for k by (simp add: opponents_in_def g)
  moreover have "cs_id s = k \<and> (\<forall>c. column_of c s = sum_list (map (earned c k) games) + earned c k g) \<and>
      mset (cs_opponents s) = mset (concat (map (opponents_in k) games))"
    if ks: "(k, s) \<in> set (change_standing b ?f standings)" for k s
  proof -
    obtain s0 where s0: "(k, s0) \<in> set standings" "s = (if k = b then ?f s0 else s0)"
      using ks by (auto simp: change_set)
    have old: "cs_id s0 = k" "\<And>c. column_of c s0 = sum_list (map (earned c k) games)"
      "mset (cs_opponents s0) = mset (concat (map (opponents_in k) games))" using counts s0(1) by (auto simp: counts_ok_def)
    show ?thesis
    proof (cases "k = b")
      case True
      then show ?thesis using s0(2) old gain by (simp add: gain)
    next
      case False
      then show ?thesis using s0(2) old others[OF False] by simp
    qed
  qed
  ultimately show ?thesis using counts by (auto simp: counts_ok_def)
qed

lemma next_fields:
  "tn_round (pair_next_swiss_round now t) = Suc (tn_round t)"
  "tn_settings (pair_next_swiss_round now t) = tn_settings t"
  "tn_contestants (pair_next_swiss_round now t) = tn_contestants t"
  "tn_status (pair_next_swiss_round now t) = tn_status t"
  "tn_totalRounds (pair_next_swiss_round now t) = tn_totalRounds t"
  "map fst (tn_standings (pair_next_swiss_round now t)) = map fst (tn_standings t)"
  by (simp_all add: pair_next_swiss_round_def Let_def split: prod.splits option.splits)

text \<open>The games of the next round: those of the pairs, and the bye.\<close>

definition next_games :: "real \<Rightarrow> nat \<Rightarrow> (player \<times> player) list \<Rightarrow> player option \<Rightarrow> chess_game list" where
  "next_games now rnd pairs bye = games_of_round rnd pairs @ (case bye of None \<Rightarrow> [] | Some b \<Rightarrow> [bye_game now rnd b])"

lemma bye_game_fields: "cg_status (bye_game now rnd b) = GameFinished" "cg_white (bye_game now rnd b) = b"
  "cg_black (bye_game now rnd b) = None" "cg_round (bye_game now rnd b) = rnd"
  by (simp_all add: bye_game_def new_game_def)

lemma next_games_facts:
  assumes "distinct (players_of pairs)"
  shows "round_players r (next_games now rnd pairs bye) =
      (if r = rnd then players_of pairs @ (case bye of None \<Rightarrow> [] | Some b \<Rightarrow> [b]) else [])"
    "g \<in> set (next_games now rnd pairs bye) \<Longrightarrow> cg_round g = rnd"
    "g \<in> set (next_games now rnd pairs bye) \<Longrightarrow> cg_status g \<noteq> GameRunning"
    "g \<in> set (next_games now rnd pairs bye) \<Longrightarrow> set (players_of pairs) \<union> set_option bye \<subseteq> ids \<Longrightarrow> game_ok ids g"
proof -
  show "round_players r (next_games now rnd pairs bye) =
      (if r = rnd then players_of pairs @ (case bye of None \<Rightarrow> [] | Some b \<Rightarrow> [b]) else [])"
    by (cases bye) (simp_all add: next_games_def round_players_new, simp add: round_players_def players_in_def bye_game_fields)
  show "g \<in> set (next_games now rnd pairs bye) \<Longrightarrow> cg_round g = rnd"
    using new_games[of g rnd pairs] by (auto simp: next_games_def bye_game_fields split: option.splits)
  show "g \<in> set (next_games now rnd pairs bye) \<Longrightarrow> cg_status g \<noteq> GameRunning"
    using new_games[of g rnd pairs] by (auto simp: next_games_def bye_game_fields split: option.splits)
  assume g: "g \<in> set (next_games now rnd pairs bye)" and ids: "set (players_of pairs) \<union> set_option bye \<subseteq> ids"
  show "game_ok ids g"
  proof (cases "g \<in> set (games_of_round rnd pairs)")
    case True
    then obtain black where "cg_black g = Some black" "(cg_white g, black) \<in> set pairs" using new_games[OF True] by blast
    then show ?thesis using distinct_pair[OF assms] players_mem[of "cg_white g" black pairs] ids by (auto simp: game_ok_def)
  next
    case False
    then obtain b where "bye = Some b" "g = bye_game now rnd b" using g by (auto simp: next_games_def split: option.splits)
    then show ?thesis using ids by (simp add: game_ok_def bye_game_fields)
  qed
qed

lemma next_round_splits:
  assumes "distinct (map fst (tn_standings t))" "\<forall>(k, s) \<in> set (tn_standings t). cs_id s = k"
  obtains pairs bye where "swiss_pairings (map snd (tn_standings t)) (played_pairs (tn_games t)) (Suc (tn_round t))
      (\<lambda>name. uint (stable_hash (tn_id t @ '':'' @ name))) = (pairs, bye)"
    and "mset (players_of pairs @ (case bye of None \<Rightarrow> [] | Some b \<Rightarrow> [b])) = mset (map fst (tn_standings t))"
    and "distinct (players_of pairs @ (case bye of None \<Rightarrow> [] | Some b \<Rightarrow> [b]))"
    and "tn_games (pair_next_swiss_round now t) = tn_games t @ next_games now (Suc (tn_round t)) pairs bye"
proof -
  let ?keys = "map fst (tn_standings t)"
  obtain pairs bye where sw: "swiss_pairings (map snd (tn_standings t)) (played_pairs (tn_games t)) (Suc (tn_round t))
      (\<lambda>name. uint (stable_hash (tn_id t @ '':'' @ name))) = (pairs, bye)" by fastforce
  have ids: "map cs_id (map snd (tn_standings t)) = ?keys" using assms(2) by auto
  have field: "mset (players_of pairs @ (case bye of None \<Rightarrow> [] | Some b \<Rightarrow> [b])) = mset ?keys"
    using swiss_seats(1)[OF _ sw, unfolded ids, OF assms(1)] by (cases bye) simp_all
  have "tn_games (pair_next_swiss_round now t) = tn_games t @ next_games now (Suc (tn_round t)) pairs bye"
    using sw by (simp add: pair_next_swiss_round_def next_games_def split: option.splits)
  moreover have "distinct (players_of pairs @ (case bye of None \<Rightarrow> [] | Some b \<Rightarrow> [b]))"
    using field assms(1) mset_eq_imp_distinct_iff by blast
  ultimately show ?thesis using that sw field by blast
qed

lemma next_rows: "rows_of (tn_standings (pair_next_swiss_round now t)) = rows_of (tn_standings t)"
proof -
  have same: "rows_of (recompute_buchholz standings) = rows_of standings" for standings
    by (simp add: rows_of_def recompute_buchholz_def case_prod_unfold)
  have "rows_of (change_standing b (\<lambda>s. s\<lparr>cs_points := cs_points s + 1, cs_byes := cs_byes s + 1\<rparr>) standings) = rows_of standings" for b standings
    by (simp add: rows_of_def change_standing_def case_prod_unfold)
  with same show ?thesis by (simp add: pair_next_swiss_round_def Let_def split: prod.splits option.splits)
qed

subsection \<open>Fair tournaments\<close>

text \<open>
  What makes the rounds fair needs nothing of results: the rows are those of the players, everyone in a game is
  one of them, and the rounds seat them as they should. So it survives whatever runs that share a tournament
  make of its results.
\<close>

definition seat_ok :: "player set \<Rightarrow> chess_game \<Rightarrow> bool" where
  "seat_ok ids g = (cg_white g \<in> ids \<and> (case cg_black g of None \<Rightarrow> True | Some black \<Rightarrow> black \<in> ids \<and> black \<noteq> cg_white g))"

definition fair :: "tournament \<Rightarrow> bool" where
  "fair t = (distinct (map fst (tn_standings t)) \<and> (\<forall>(k, s) \<in> set (tn_standings t). cs_id s = k) \<and> rounds_ok t \<and>
     (\<forall>g \<in> set (tn_games t). seat_ok (fst ` set (tn_standings t)) g))"

lemma game_seat: "game_ok ids g \<longleftrightarrow> seat_ok ids g \<and> (cg_black g = None \<longrightarrow> cg_status g = GameFinished)"
  by (auto simp: game_ok_def seat_ok_def split: option.splits)

lemma ok_fair: "tournament_ok t \<Longrightarrow> fair t"
  by (auto simp: tournament_ok_def fair_def standings_ok_def game_seat)

lemma rows_keys: "rows_of s = rows_of s' \<Longrightarrow> map fst s = map fst s'"
proof -
  have "map fst (rows_of x) = map fst x" for x by (simp add: rows_of_def case_prod_unfold comp_def)
  then show "rows_of s = rows_of s' \<Longrightarrow> map fst s = map fst s'" by metis
qed

lemma rows_ids: "(\<forall>(k, s) \<in> set standings. cs_id s = k) \<longleftrightarrow> (\<forall>(k, i) \<in> set (rows_of standings). i = k)"
  by (auto simp: rows_of_def)

lemma seats_players: "round_players rnd games = concat (map (\<lambda>(w, b, r). if r = rnd then w # (case b of None \<Rightarrow> [] | Some black \<Rightarrow> [black]) else [])
    (map seats_of games))"
  unfolding round_players_alt by (simp add: seats_of_def players_in_def comp_def cong: if_cong)

lemma fair_results:
  assumes t: "fair t" and same: "map seats_of (tn_games t') = map seats_of (tn_games t)"
    "rows_of (tn_standings t') = rows_of (tn_standings t)" "tn_settings t' = tn_settings t" "tn_round t' = tn_round t"
  shows "fair t'"
proof -
  have keys: "map fst (tn_standings t') = map fst (tn_standings t)" using rows_keys[OF same(2)] .
  then have key_set: "fst ` set (tn_standings t') = fst ` set (tn_standings t)" by (metis list.set_map)
  have players: "round_players rnd (tn_games t') = round_players rnd (tn_games t)" for rnd
    unfolding seats_players same(1) ..
  have each: "\<exists>g' \<in> set (tn_games t). seats_of g' = seats_of g" if "g \<in> set (tn_games t')" for g
  proof -
    have "seats_of g \<in> set (map seats_of (tn_games t'))" using that by simp
    then show ?thesis unfolding same(1) by auto
  qed
  have "seat_ok (fst ` set (tn_standings t)) g" if g: "g \<in> set (tn_games t')" for g
  proof -
    obtain g' where "g' \<in> set (tn_games t)" and seats: "seats_of g' = seats_of g" using each[OF g] by blast
    then have "seat_ok (fst ` set (tn_standings t)) g'" using t by (simp add: fair_def)
    then show ?thesis using seats by (simp add: seat_ok_def seats_of_def split: option.splits)
  qed
  moreover have "1 \<le> cg_round g \<and> cg_round g \<le> tn_round t" if "g \<in> set (tn_games t')" for g
    using each[OF that] t by (auto simp: fair_def rounds_ok_def seats_of_def)
  moreover have "\<forall>(k, s) \<in> set (tn_standings t'). cs_id s = k" using t unfolding fair_def rows_ids same(2) by blast
  ultimately show ?thesis using t unfolding fair_def rounds_ok_def key_set keys players same(3,4) by blast
qed

lemma fair_next:
  assumes t: "fair t"
  shows "fair (pair_next_swiss_round now t)"
proof -
  let ?rnd = "Suc (tn_round t)" and ?keys = "map fst (tn_standings t)" and ?t = "pair_next_swiss_round now t"
  obtain pairs bye where field: "mset (players_of pairs @ (case bye of None \<Rightarrow> [] | Some b \<Rightarrow> [b])) = mset ?keys"
    and players: "distinct (players_of pairs @ (case bye of None \<Rightarrow> [] | Some b \<Rightarrow> [b]))"
    and games: "tn_games ?t = tn_games t @ next_games now ?rnd pairs bye"
    using next_round_splits[of t now] t unfolding fair_def by metis
  have pairs: "distinct (players_of pairs)" using players by simp
  note new = next_games_facts[OF pairs]
  have old: "cg_round g \<le> tn_round t" if "g \<in> set (tn_games t)" for g using t that by (auto simp: fair_def rounds_ok_def)
  then have "round_players ?rnd (tn_games t) = []" by (force simp: round_players_def filter_empty_conv)
  then have rounds: "round_players rnd (tn_games ?t) = (if rnd = ?rnd then players_of pairs @ (case bye of None \<Rightarrow> [] | Some b \<Rightarrow> [b])
      else round_players rnd (tn_games t))" for rnd
    by (simp add: games new(1))
  have keys: "map fst (tn_standings ?t) = ?keys" by (rule next_fields)
  then have key_set: "fst ` set (tn_standings ?t) = fst ` set (tn_standings t)" by (metis list.set_map)
  have "set (players_of pairs @ (case bye of None \<Rightarrow> [] | Some b \<Rightarrow> [b])) = set ?keys" using field mset_eq_setD by blast
  then have "set (players_of pairs) \<union> set_option bye \<subseteq> fst ` set (tn_standings t)" by (auto split: option.splits)
  then have "\<forall>g \<in> set (tn_games ?t). seat_ok (fst ` set (tn_standings ?t)) g"
    using t new(4) unfolding key_set games by (auto simp: fair_def game_seat)
  moreover have "1 \<le> cg_round g \<and> cg_round g \<le> tn_round ?t" if "g \<in> set (tn_games ?t)" for g
    using that t new(2)[of g] by (auto simp: games next_fields fair_def rounds_ok_def)
  moreover have "mset (round_players rnd (tn_games ?t)) = mset (map fst (tn_standings ?t))"
    if "ts_format (tn_settings ?t) = Swiss" "1 \<le> rnd \<and> rnd \<le> tn_round ?t" for rnd
    using that t field unfolding rounds keys next_fields by (auto simp: fair_def rounds_ok_def)
  moreover have "distinct (round_players rnd (tn_games ?t))" for rnd using t players unfolding rounds by (auto simp: fair_def rounds_ok_def)
  moreover have "\<forall>(k, s) \<in> set (tn_standings ?t). cs_id s = k" using t unfolding fair_def rows_ids next_rows by blast
  ultimately show ?thesis using t keys by (simp add: fair_def rounds_ok_def)
qed

lemma derived_fair: "derived t t' \<Longrightarrow> fair t \<Longrightarrow> fair t'"
  by (induction rule: derived.induct) (auto intro: fair_next elim: fair_results)

lemma ok_next_round:
  assumes t: "tournament_ok t"
  shows "tournament_ok (pair_next_swiss_round now t)"
    "\<exists>new. tn_games (pair_next_swiss_round now t) = tn_games t @ new \<and> (\<forall>g \<in> set new. cg_status g \<noteq> GameRunning)"
proof -
  let ?rnd = "Suc (tn_round t)" and ?t = "pair_next_swiss_round now t"
  have ok: "standings_ok (tn_standings t) (tn_games t)" using t by (simp add: tournament_ok_def)
  obtain pairs bye where sw: "swiss_pairings (map snd (tn_standings t)) (played_pairs (tn_games t)) ?rnd
      (\<lambda>name. uint (stable_hash (tn_id t @ '':'' @ name))) = (pairs, bye)"
    and players: "distinct (players_of pairs @ (case bye of None \<Rightarrow> [] | Some b \<Rightarrow> [b]))"
    and games: "tn_games ?t = tn_games t @ next_games now ?rnd pairs bye"
    using next_round_splits[of t now] ok_fair[OF t] unfolding fair_def by metis
  then have pairs: "distinct (players_of pairs)" by simp
  note new = next_games_facts[OF pairs]
  show "\<exists>new. tn_games ?t = tn_games t @ new \<and> (\<forall>g \<in> set new. cg_status g \<noteq> GameRunning)" using games new(3) by blast
  have fresh: "\<forall>g \<in> set (games_of_round ?rnd pairs). cg_status g \<noteq> GameFinished" using new_games by fastforce
  note counts = new_games_same[OF fresh standings_counts[OF ok]]
  have standings: "standings_ok (tn_standings ?t) (tn_games ?t)"
  proof (cases bye)
    case None
    have "cs_buchholz s = opponent_points (tn_standings t) (cs_opponents s)" if "(k, s) \<in> set (tn_standings t)" for k s
      using ok that by (auto simp: standings_ok_def)
    then show ?thesis using counts None sw by (auto simp: standings_ok_def counts_ok_def pair_next_swiss_round_def)
  next
    case (Some b)
    then show ?thesis using recomputed[OF bye_counts[OF counts bye_game_fields(1-3)]] sw by (simp add: pair_next_swiss_round_def)
  qed
  have byes: "cg_status g = GameFinished" if "g \<in> set (tn_games ?t)" "cg_black g = None" for g
    using that t new_games[of g ?rnd pairs]
    by (auto simp: games next_games_def tournament_ok_def game_seat bye_game_fields split: option.splits)
  have "entered ?t = entered t" unfolding entered_def next_fields ..
  then show "tournament_ok ?t"
    using t standings fair_next[OF ok_fair[OF t], of now] byes by (simp add: tournament_ok_def fair_def game_seat)
qed

subsection \<open>The runner\<close>

text \<open>
  A tournament with the tables at which it is played: a game runs exactly if it is at a table, and when the
  tournament is completed everything is played.
\<close>

definition tables_ok :: "tournament \<Rightarrow> (nat \<times> play_state) list \<Rightarrow> bool" where
  "tables_ok t tables = (distinct (map fst tables) \<and>
     (\<forall>(i, st) \<in> set tables. i < length (tn_games t) \<and> tn_games t ! i = ps_game st) \<and>
     (\<forall>i < length (tn_games t). cg_status (tn_games t ! i) = GameRunning \<longleftrightarrow> i \<in> fst ` set tables))"

definition all_played :: "tournament \<Rightarrow> bool" where
  "all_played t = ((\<forall>g \<in> set (tn_games t). cg_status g = GameFinished) \<and>
     (ts_format (tn_settings t) = Swiss \<longrightarrow> tn_totalRounds t \<le> tn_round t))"

definition tournament_sound :: "tournament \<Rightarrow> bool" where
  "tournament_sound t = (tournament_ok t \<and> (tn_status t = TournamentCompleted \<longrightarrow> all_played t))"

definition runner_ok :: "runner \<Rightarrow> bool" where
  "runner_ok r = ((\<forall>t \<in> tournaments r. tournament_sound t) \<and>
     (rn_load r \<noteq> Loaded \<longrightarrow> rn_state r = None \<and> rn_accepted r = None) \<and>
     set (rn_stops r) \<subseteq> {TournamentStopped, TournamentInterrupted} \<and>
     (rn_active r \<longrightarrow> rn_accepted r = None) \<and> (\<not> rn_active r \<longrightarrow> rn_tables r = []) \<and>
     (case rn_state r of None \<Rightarrow> \<not> rn_active r \<and> rn_accepted r \<noteq> Some Launching
      | Some t \<Rightarrow> tables_ok t (rn_tables r) \<and> length (rn_tables r) \<le> max 1 (ts_concurrency (tn_settings t))))"

lemma tables_leave:
  assumes "tables_ok t tables" "i < length (tn_games t)" "cg_status g \<noteq> GameRunning"
  shows "tables_ok (put_game i g t) (leave_table i tables)"
proof -
  have keys: "fst ` set (leave_table i tables) = fst ` set tables - {i}" by (force simp: leave_table_def)
  have "distinct (map fst (leave_table i tables))" using assms(1) by (simp add: tables_ok_def leave_table_def distinct_map_filter)
  then show ?thesis using assms keys by (auto simp: tables_ok_def put_game_def nth_list_update leave_table_def)
qed

lemma tables_move:
  assumes "tables_ok t tables" "i < length (tn_games t)" "cg_status (ps_game st) = GameRunning"
  shows "tables_ok (put_game i (ps_game st) t) ((i, st) # leave_table i tables)"
proof -
  have keys: "fst ` set (leave_table i tables) = fst ` set tables - {i}" by (force simp: leave_table_def)
  have "distinct (map fst (leave_table i tables))" using assms(1) by (simp add: tables_ok_def leave_table_def distinct_map_filter)
  then show ?thesis using assms keys by (auto simp: tables_ok_def put_game_def nth_list_update leave_table_def)
qed

lemma leave_absent: "i \<notin> fst ` set tables \<Longrightarrow> leave_table i tables = tables"
  by (force simp: leave_table_def filter_id_conv)

lemma leave_shorter: "(i, st) \<in> set tables \<Longrightarrow> length (leave_table i tables) < length tables"
  unfolding leave_table_def by (rule length_filter_less) auto

text \<open>A step at a table keeps the tournament running and sound.\<close>

lemma active_ok: "runner_ok r \<Longrightarrow> rn_state r = Some t \<Longrightarrow>
    tournament_ok t \<and> (tn_status t = TournamentCompleted \<longrightarrow> all_played t) \<and> tables_ok t (rn_tables r) \<and>
    length (rn_tables r) \<le> max 1 (ts_concurrency (tn_settings t))"
  by (simp add: runner_ok_def tournament_sound_def tournaments_def)

lemma runner_okI: "runner_ok r \<Longrightarrow> rn_active r \<Longrightarrow> rn_state r = Some t \<Longrightarrow> tournament_sound t' \<Longrightarrow> tables_ok t' tables \<Longrightarrow>
    length tables \<le> max 1 (ts_concurrency (tn_settings t')) \<Longrightarrow> runner_ok (r\<lparr>rn_state := Some t', rn_tables := tables\<rparr>)"
  by (auto simp: runner_ok_def tournaments_def)

text \<open>A completed tournament has no game left that waits or runs.\<close>

lemma unplayed: "g \<in> set (tn_games t) \<Longrightarrow> cg_status g \<noteq> GameFinished \<Longrightarrow> (tn_status t = TournamentCompleted \<longrightarrow> all_played t) \<Longrightarrow>
    tn_status t \<noteq> TournamentCompleted"
  by (auto simp: all_played_def)

lemma put_fields: "tn_status (put_game i g t) = tn_status t" "tn_settings (put_game i g t) = tn_settings t"
  by (simp_all add: put_game_def)

lemma finish_fields: "tn_status (finish_game now i result reason loser g t) = tn_status t"
  "tn_settings (finish_game now i result reason loser g t) = tn_settings t"
  "tn_games (finish_game now i result reason loser g t) = (tn_games t)[i := finished_game now result reason g]"
  by (simp_all add: finish_game_def Let_def)

lemma pending_iff: "i \<in> set (pending_games t) \<longleftrightarrow> i < length (tn_games t) \<and> cg_status (tn_games t ! i) = GamePending"
  by (auto simp: pending_games_def)

lemma ok_sits:
  assumes r: "runner_ok r" "rn_active r" "rn_state r = Some t" and i: "i \<in> set (pending_games t)"
    and room: "length (rn_tables r) < max 1 (ts_concurrency (tn_settings t))" and st: "st = sit_down (tn_id t) now (tn_games t ! i)"
  shows "runner_ok (r\<lparr>rn_state := Some (put_game i (ps_game st) t), rn_tables := (i, st) # rn_tables r\<rparr>)"
proof -
  note ok = active_ok[OF r(1,3)]
  have at: "i < length (tn_games t)" "cg_status (tn_games t ! i) = GamePending" using i by (simp_all add: pending_iff)
  then have "tn_status t \<noteq> TournamentCompleted" using unplayed[of "tn_games t ! i" t] ok by simp
  moreover have seated: "same_seats (tn_games t ! i) (ps_game st)" "cg_status (ps_game st) = GameRunning" using sit_down_seats st by simp_all
  moreover have "tournament_ok (put_game i (ps_game st) t)" using ok_put[of t i "ps_game st"] ok at seated by simp
  ultimately have "tournament_sound (put_game i (ps_game st) t)" by (simp add: tournament_sound_def put_fields)
  moreover have "i \<notin> fst ` set (rn_tables r)" using ok at by (auto simp: tables_ok_def)
  then have "tables_ok (put_game i (ps_game st) t) ((i, st) # rn_tables r)"
    using tables_move[of t "rn_tables r" i st] ok at seated by (simp add: leave_absent)
  ultimately show ?thesis using room by (intro runner_okI[OF r]) (simp_all add: put_fields)
qed

lemma ok_plies:
  assumes r: "runner_ok r" "rn_active r" "rn_state r = Some t" and i: "(i, st) \<in> set (rn_tables r)"
  shows "runner_ok (table_ply now stopped env i st t r)"
proof -
  note ok = active_ok[OF r(1,3)]
  have at: "i < length (tn_games t)" "tn_games t ! i = ps_game st" "cg_status (ps_game st) = GameRunning"
    using ok i by (force simp: tables_ok_def)+
  then have running: "tn_status t \<noteq> TournamentCompleted" using unplayed[OF nth_mem[OF at(1)]] ok by simp
  have room: "length (leave_table i (rn_tables r)) < max 1 (ts_concurrency (tn_settings t))"
    using leave_shorter[OF i] ok by linarith
  show ?thesis
  proof (cases "play_ply (game_settings.truncate (tn_settings t)) stopped env st")
    case (PlayOn st')
    note seats = ply_seats(1)[OF this]
    then have "tournament_sound (put_game i (ps_game st') t)" using ok_put[of t i "ps_game st'"] ok at running
      by (simp add: tournament_sound_def put_fields)
    moreover have "tables_ok (put_game i (ps_game st') t) ((i, st') # leave_table i (rn_tables r))"
      using tables_move[of t "rn_tables r" i st'] ok at seats by simp
    ultimately show ?thesis using room PlayOn
      by (simp add: table_ply_def Let_def) (intro runner_okI[OF r], simp_all add: put_fields)
  next
    case (PlayPaused g)
    note seats = ply_seats(2)[OF this]
    then have "tournament_sound (put_game i g t)" using ok_put[of t i g] ok at running by (simp add: tournament_sound_def put_fields)
    moreover have "tables_ok (put_game i g t) (leave_table i (rn_tables r))"
      using tables_leave[of t "rn_tables r" i g] ok at seats by simp
    ultimately show ?thesis using room PlayPaused
      by (simp add: table_ply_def Let_def) (intro runner_okI[OF r], simp_all add: put_fields)
  next
    case (PlayOver result reason loser st')
    note seats = ply_seats(3)[OF this]
    let ?t = "finish_game now i result reason loser (ps_game st') t"
    have "tournament_sound ?t" using ok_finish[of t i "ps_game st'"] ok at seats running by (simp add: tournament_sound_def finish_fields)
    moreover have "tables_ok (put_game i (finished_game now result reason (ps_game st')) t) (leave_table i (rn_tables r))"
      using tables_leave[of t "rn_tables r" i] ok at by (simp add: finished_game_def)
    then have "tables_ok ?t (leave_table i (rn_tables r))" by (simp add: tables_ok_def finish_fields put_game_def)
    ultimately show ?thesis using room PlayOver
      by (simp add: table_ply_def Let_def) (intro runner_okI[OF r], simp_all add: finish_fields)
  qed
qed

lemma idle_games: "tables_ok t [] \<longleftrightarrow> (\<forall>g \<in> set (tn_games t). cg_status g \<noteq> GameRunning)"
  by (simp add: tables_ok_def all_set_conv_all_nth)

lemma none_pending: "pending_games t = [] \<longleftrightarrow> (\<forall>g \<in> set (tn_games t). cg_status g \<noteq> GamePending)"
  by (auto simp: pending_games_def filter_empty_conv all_set_conv_all_nth)

lemma ok_status: "tournament_ok (t\<lparr>tn_status := status\<rparr>) = tournament_ok t" "tournament_ok (t\<lparr>tn_completedAt := when\<rparr>) = tournament_ok t"
  "tournament_ok (t\<lparr>tn_error := error\<rparr>) = tournament_ok t" "tables_ok (t\<lparr>tn_status := status\<rparr>) tables = tables_ok t tables"
  "tables_ok (t\<lparr>tn_completedAt := when\<rparr>) tables = tables_ok t tables" "tables_ok (t\<lparr>tn_error := error\<rparr>) tables = tables_ok t tables"
  by (simp_all add: tournament_ok_def rounds_ok_def tables_ok_def entered_def)

lemma ok_rounds:
  assumes r: "runner_ok r" "rn_active r" "rn_state r = Some t" "rn_tables r = []" and pending: "pending_games t = []"
    and running: "tn_status t \<noteq> TournamentCompleted"
  shows "runner_ok (r\<lparr>rn_state := Some (next_round now t)\<rparr>)"
proof -
  note ok = active_ok[OF r(1,3)]
  have idle: "\<forall>g \<in> set (tn_games t). cg_status g \<noteq> GameRunning" using ok r(4) idle_games by simp
  have "tournament_sound (next_round now t) \<and> tables_ok (next_round now t) [] \<and> tn_settings (next_round now t) = tn_settings t"
  proof (cases "ts_format (tn_settings t) = Swiss \<and> tn_round t < tn_totalRounds t")
    case True
    note new = ok_next_round[of t now]
    obtain games where "tn_games (pair_next_swiss_round now t) = tn_games t @ games" "\<forall>g \<in> set games. cg_status g \<noteq> GameRunning"
      using new(2) ok by blast
    then have "tables_ok (pair_next_swiss_round now t) []" using idle by (auto simp: idle_games)
    then show ?thesis using True ok new(1) running by (simp add: next_round_def tournament_sound_def next_fields)
  next
    case False
    have "cg_status g = GameFinished" if "g \<in> set (tn_games t)" for g
      using idle pending that by (cases "cg_status g") (auto simp: none_pending)
    then have "all_played t" using False by (auto simp: all_played_def)
    moreover have "next_round now t = t\<lparr>tn_status := TournamentCompleted, tn_completedAt := Some now\<rparr>"
      unfolding next_round_def using False by (rule if_not_P)
    ultimately show ?thesis using ok r(4) by (simp add: tournament_sound_def ok_status all_played_def)
  qed
  then show ?thesis using r(1-4) by (auto simp: runner_ok_def tournaments_def)
qed

lemma sound_interrupt: "tournament_sound t \<Longrightarrow> tournament_sound (interrupt_state t) \<and> tables_ok (interrupt_state t) []"
proof -
  assume t: "tournament_sound t"
  have played: "all_played t \<Longrightarrow> all_played (interrupt_state t)" by (auto simp: all_played_def interrupt_state_def)
  have "tables_ok (interrupt_state t) []" by (auto simp: idle_games interrupt_state_def pause_game_def)
  moreover have "tn_status (interrupt_state t) = TournamentCompleted \<Longrightarrow> tn_status t = TournamentCompleted"
    by (simp add: interrupt_state_def split: if_splits)
  ultimately show ?thesis using t ok_interrupt[of t] played by (simp add: tournament_sound_def)
qed

lemma ok_persist: "runner_ok (persist r) = runner_ok r" "tournaments (persist r) = tournaments r"
  "rn_overlapped (persist r) = rn_overlapped r" "rn_state (persist r) = rn_state r"
  by (auto simp: persist_def runner_ok_def tournaments_def split: option.splits)

text \<open>A call that passes its guard alone finds no run and no other call.\<close>

lemma alone_iff: "\<not> rn_overlapped (accept c r) \<longleftrightarrow>
    \<not> rn_overlapped r \<and> rn_calls r \<le> 1 \<and> rn_accepted r = None \<and> rn_stops r = [] \<and> rn_load r = Loaded"
  by (auto simp: accept_def)

lemma ok_launching:
  assumes r: "runner_ok r" "\<not> rn_active r" and t: "tournament_sound t" "tables_ok t []"
    and alone: "\<not> rn_overlapped (accept Launching (r\<lparr>rn_state := Some t\<rparr>))"
  shows "runner_ok (accept Launching (r\<lparr>rn_state := Some t\<rparr>))"
  using assms unfolding alone_iff by (auto simp: runner_ok_def tournaments_def accept_def)

lemma single_stays_ok: "single_step r r' \<Longrightarrow> runner_ok r \<Longrightarrow> \<not> rn_overlapped r' \<Longrightarrow> runner_ok r'"
proof (induction rule: single_step.induct)
  case (reads r)
  then have "tournament_sound t" if "rn_saved r = Some t" for t using that by (simp add: runner_ok_def tournaments_def)
  then have "tournament_sound (interrupt_state t) \<and> tables_ok (interrupt_state t) []" if "rn_saved r = Some t" for t
    using that sound_interrupt by blast
  then show ?case using reads by (auto simp: runner_ok_def tournaments_def finish_load_def split: option.splits)
next
  case (starts r ident settings contestants r')
  let ?t = "start_state ident settings contestants"
  have r': "\<not> rn_active r" "r' = persist (accept Launching (r\<lparr>rn_state := Some ?t\<rparr>))"
    using starts(2) by (auto simp: start_tournament_def split: if_splits)
  have "tables_ok ?t []" unfolding idle_games using ok_start[OF starts(3), of ident settings] by (metis game_status.distinct(1))
  moreover have "tournament_sound ?t" using ok_start[OF starts(3)] by (simp add: tournament_sound_def start_fields)
  ultimately show ?case using ok_launching starts(5,6) r' by (simp add: ok_persist)
next
  case (resumes r r')
  then obtain t where r': "\<not> rn_active r" "rn_state r = Some t" "tn_status t \<noteq> TournamentCompleted"
    "r' = persist (accept Launching (r\<lparr>rn_state := Some (t\<lparr>tn_status := TournamentRunning, tn_error := None\<rparr>)\<rparr>))"
    by (auto simp: resume_tournament_def split: if_splits option.splits)
  have "tournament_ok t" "tables_ok t []" using active_ok[OF resumes(3) r'(2)] resumes(3) r'(1) by (simp_all add: runner_ok_def)
  then show ?case using ok_launching[OF resumes(3) r'(1)] resumes(4) r'(4)
    by (simp add: ok_persist tournament_sound_def ok_status)
next
  case (resets r r')
  then show ?case by (auto simp: reset_tournament_def runner_ok_def tournaments_def accept_def split: if_splits option.splits)
next
  case (launches r)
  then show ?case by (auto simp: launch_def runner_ok_def tournaments_def split: option.splits)
next
  case (removes r unlinked)
  then show ?case by (auto simp: remove_file_def runner_ok_def tournaments_def split: option.splits)
next
  case (sits r t i st now)
  then show ?case by (intro ok_sits)
next
  case (plies r t i st stopped now env)
  then show ?case by (intro ok_plies)
next
  case (rounds r t now)
  then show ?case by (intro ok_rounds)
next
  case (stops r status rest)
  show ?case
  proof (cases "rn_state r")
    case None
    then show ?thesis using stops by (auto simp: stop_tournament_def runner_ok_def tournaments_def)
  next
    case (Some t)
    have "status \<noteq> TournamentCompleted" "tournament_sound t" "tables_ok t (rn_tables r)"
      using stops Some by (auto simp: runner_ok_def tournaments_def)
    then have "tournament_sound (t\<lparr>tn_status := status\<rparr>)" "tables_ok (t\<lparr>tn_status := status\<rparr>) (rn_tables r)"
      by (simp_all add: tournament_sound_def ok_status)
    then show ?thesis using stops Some by (auto simp: stop_tournament_def ok_persist) (auto simp: runner_ok_def tournaments_def)
  qed
next
  case (persists r)
  then show ?case by (simp add: ok_persist)
next
  case (writes r t rest)
  then show ?case by (auto simp: runner_ok_def tournaments_def split: option.splits)
next
  case (write_fails r t rest)
  then show ?case by (auto simp: runner_ok_def tournaments_def split: option.splits)
next
  case (restarts r)
  then show ?case by (auto simp: restart_process_def new_runner_def runner_ok_def tournaments_def)
qed (auto simp: runner_ok_def tournaments_def abort_run_def split: option.splits)

text \<open>Only a call that passes its guard beside another one lets runs overlap, and every tournament is fair then.\<close>

lemma begun_fair: "t \<in> begun \<Longrightarrow> fair t"
  using ok_start ok_fair by (auto simp: begun_def)

lemma single_overlaps:
  assumes "single_step r r'" "runner_ok r" "\<not> rn_overlapped r" "rn_overlapped r'"
  shows "\<forall>t \<in> tournaments r'. fair t"
proof -
  have sound: "tournament_ok t" if "t \<in> tournaments r" for t using assms(2) that by (simp add: runner_ok_def tournament_sound_def)
  from assms(1) show ?thesis
  proof cases
    case (starts ident settings contestants)
    then have "r' = persist (accept Launching (r\<lparr>rn_state := Some (start_state ident settings contestants)\<rparr>))"
      by (auto simp: start_tournament_def split: if_splits)
    then have "tournaments r' = tournaments (accept Launching (r\<lparr>rn_state := Some (start_state ident settings contestants)\<rparr>))"
      by (simp only: ok_persist)
    then have "tournaments r' \<subseteq> insert (start_state ident settings contestants) (tournaments r)"
      by (auto simp: tournaments_def accept_def)
    then show ?thesis using sound ok_fair conjunct1[OF ok_start[OF starts(3)]] by blast
  next
    case resumes
    then obtain t where t: "rn_state r = Some t"
      "r' = persist (accept Launching (r\<lparr>rn_state := Some (t\<lparr>tn_status := TournamentRunning, tn_error := None\<rparr>)\<rparr>))"
      by (auto simp: resume_tournament_def split: if_splits option.splits)
    then have "tournaments r' = tournaments (accept Launching (r\<lparr>rn_state := Some (t\<lparr>tn_status := TournamentRunning, tn_error := None\<rparr>)\<rparr>))"
      by (simp only: ok_persist)
    then have "tournaments r' \<subseteq> insert (t\<lparr>tn_status := TournamentRunning, tn_error := None\<rparr>) (tournaments r)" "t \<in> tournaments r"
      using t(1) by (auto simp: tournaments_def accept_def)
    then show ?thesis using sound ok_fair ok_status by blast
  next
    case resets
    then have "tournaments r' \<subseteq> tournaments r"
      by (auto simp: reset_tournament_def tournaments_def accept_def split: if_splits)
    then show ?thesis using sound ok_fair by blast
  next
    case (plies t i st stopped now env)
    have "rn_overlapped (table_ply now stopped env i st t r) = rn_overlapped r"
      by (simp add: table_ply_def Let_def split: play_end.splits)
    then show ?thesis using plies assms(3,4) by simp
  next
    case (stops status rest)
    have "rn_overlapped (stop_tournament status (r\<lparr>rn_stops := rest\<rparr>)) = rn_overlapped r"
      by (simp add: stop_tournament_def ok_persist split: option.splits)
    then show ?thesis using stops assms(3,4) by simp
  qed (use assms(3,4) in \<open>simp_all add: finish_load_def launch_def remove_file_def abort_run_def ok_persist restart_process_def split: if_splits\<close>)
qed

definition runner_inv :: "runner \<Rightarrow> bool" where
  "runner_inv r = ((\<forall>t \<in> tournaments r. fair t) \<and> (\<not> rn_overlapped r \<longrightarrow> runner_ok r))"

lemma ok_inv: "runner_ok r \<Longrightarrow> runner_inv r"
  using ok_fair by (auto simp: runner_inv_def runner_ok_def tournament_sound_def)

lemma runner_stays_ok: "runner_step r r' \<Longrightarrow> runner_inv r \<Longrightarrow> runner_inv r'"
proof (induction rule: runner_step.induct)
  case (alone r r')
  then have r: "runner_ok r" by (simp add: runner_inv_def)
  show ?case
  proof (cases "rn_overlapped r'")
    case True
    then show ?thesis using single_overlaps[OF alone(2) r alone(1)] by (simp add: runner_inv_def)
  next
    case False
    then show ?thesis using single_stays_ok[OF alone(2) r] ok_inv by blast
  qed
next
  case (together r r')
  then show ?case using derived_fair begun_fair unfolding runner_inv_def by blast
qed

lemma runner_always_ok: "runner_reachable r \<Longrightarrow> runner_inv r"
proof (induction rule: runner_reachable.induct)
  case idle
  show ?case by (simp add: runner_inv_def runner_ok_def tournaments_def new_runner_def)
qed (rule runner_stays_ok)

lemma reachable_fair: "runner_reachable r \<Longrightarrow> rn_state r = Some t \<Longrightarrow> fair t"
  using runner_always_ok by (simp add: runner_inv_def tournaments_def)

lemma reachable_sound:
  assumes "runner_reachable r" "\<not> rn_overlapped r" "rn_state r = Some t \<or> rn_saved r = Some t"
  shows "tournament_sound t"
  using runner_always_ok[OF assms(1)] assms(2,3) by (auto simp: runner_inv_def runner_ok_def tournaments_def)

subsection \<open>Properties\<close>

text \<open>A finished game hands out one point.\<close>

lemma game_point:
  assumes "game_ok (set ids) g" "distinct ids"
  shows "(\<Sum>k \<leftarrow> ids. earned Points k g) = (if cg_status g = GameFinished then 1 else 0)"
proof -
  have one: "(\<Sum>k \<leftarrow> ks. if k = a then x else 0) = (if a \<in> set ks then x else 0)" if "distinct ks" for ks :: "player list" and a and x :: real
    using that by (induction ks) auto
  show ?thesis
  proof (cases "cg_status g = GameFinished")
    case True
    show ?thesis
    proof (cases "cg_black g")
      case None
      then show ?thesis using True assms one[OF assms(2), of "cg_white g" 1] by (simp add: earned_def game_ok_def)
    next
      case (Some black)
      let ?score = "white_score (the (cg_result g))"
      have seats: "cg_white g \<in> set ids" "black \<in> set ids" "black \<noteq> cg_white g" using assms(1) Some by (auto simp: game_ok_def)
      have "earned Points k g = (if k = cg_white g then ?score else 0) + (if k = black then 1 - ?score else 0)" for k
        using True Some seats(3) by (simp add: earned_def Let_def)
      then show ?thesis using True seats one[OF assms(2)] by (simp add: sum_list_addf)
    qed
  qed (simp add: earned_def)
qed

lemma points_of_games:
  assumes "\<forall>g \<in> set games. game_ok (set ids) g" "distinct ids"
  shows "(\<Sum>k \<leftarrow> ids. sum_list (map (earned Points k) games)) = real (length (filter (\<lambda>g. cg_status g = GameFinished) games))"
  using assms(1)
proof (induction games)
  case (Cons g games)
  then show ?case using game_point[OF _ assms(2), of g] by (simp add: sum_list_addf)
qed simp

text \<open>
  C3. The standings are what the finished games make them. Whatever is started, played, paused, restarted and
  resumed, as long as no call of \<open>start\<close>, \<open>resume\<close> or \<open>reset\<close> passed its guard while another one, a \<open>stop\<close> or the
  reading of the state file was under way (two runs on one tournament may finish a game twice), every column of every player's standing equals the sum of what the finished games are worth to the
  player in that column, the opponents listed are those met in finished games, Buchholz is the sum of the
  points these have now, and all points together are one for every finished game.
\<close>

theorem standings_refine_results:
  assumes "runner_reachable r" "\<not> rn_overlapped r" "rn_state r = Some t"
  shows "(\<forall>(k, s) \<in> set (tn_standings t). cs_id s = k \<and> (\<forall>c. column_of c s = sum_list (map (earned c k) (tn_games t))) \<and>
      mset (cs_opponents s) = mset (concat (map (opponents_in k) (tn_games t))) \<and>
      cs_buchholz s = opponent_points (tn_standings t) (cs_opponents s)) \<and>
    (\<Sum>(k, s) \<leftarrow> tn_standings t. cs_points s) = real (length (filter (\<lambda>g. cg_status g = GameFinished) (tn_games t)))"
proof -
  have t: "tournament_ok t" using reachable_sound[OF assms(1,2)] assms(3) by (simp add: tournament_sound_def)
  then have ok: "standings_ok (tn_standings t) (tn_games t)" by (simp add: tournament_ok_def)
  have "(\<Sum>(k, s) \<leftarrow> tn_standings t. cs_points s) = (\<Sum>x \<leftarrow> tn_standings t. sum_list (map (earned Points (fst x)) (tn_games t)))"
  proof (rule arg_cong[where f = sum_list], rule map_cong[OF refl])
    fix x
    assume "x \<in> set (tn_standings t)"
    then have "\<forall>c. column_of c (snd x) = sum_list (map (earned c (fst x)) (tn_games t))"
      using ok by (auto simp: standings_ok_def)
    from this[rule_format, of Points] show "(case x of (k, s) \<Rightarrow> cs_points s) = sum_list (map (earned Points (fst x)) (tn_games t))" by (simp add: case_prod_unfold)
  qed
  also have "\<dots> = (\<Sum>k \<leftarrow> map fst (tn_standings t). sum_list (map (earned Points k) (tn_games t)))" by (simp add: comp_def)
  also have "\<dots> = real (length (filter (\<lambda>g. cg_status g = GameFinished) (tn_games t)))"
    using t ok by (intro points_of_games) (auto simp: tournament_ok_def standings_ok_def)
  finally show ?thesis using ok by (simp add: standings_ok_def)
qed

text \<open>
  C23. Rounds are fair. In every reachable state nobody sits at two games of one round, nobody plays against
  himself, and in every round of a Swiss tournament that was paired every contestant has a game or the bye. That
  holds even where overlapping calls made several runs share the tournament.
\<close>

theorem rounds_fair:
  assumes "runner_reachable r" "rn_state r = Some t"
  shows "distinct (round_players rnd (tn_games t)) \<and>
    (\<forall>g \<in> set (tn_games t). cg_black g \<noteq> Some (cg_white g) \<and> set (players_in g) \<subseteq> fst ` set (tn_standings t)) \<and>
    (ts_format (tn_settings t) = Swiss \<and> 1 \<le> rnd \<and> rnd \<le> tn_round t \<longrightarrow>
      mset (round_players rnd (tn_games t)) = mset (map fst (tn_standings t)))"
proof -
  note t = reachable_fair[OF assms]
  have "cg_black g \<noteq> Some (cg_white g) \<and> set (players_in g) \<subseteq> fst ` set (tn_standings t)" if "g \<in> set (tn_games t)" for g
    using t that by (auto simp: fair_def seat_ok_def players_in_def split: option.splits)
  moreover have "distinct (round_players rnd (tn_games t))" using t by (simp add: fair_def rounds_ok_def)
  moreover have "mset (round_players rnd (tn_games t)) = mset (map fst (tn_standings t))"
    if "ts_format (tn_settings t) = Swiss \<and> 1 \<le> rnd \<and> rnd \<le> tn_round t" using t that by (simp add: fair_def rounds_ok_def)
  ultimately show ?thesis by (intro conjI ballI impI) simp_all
qed

text \<open>
  C24. No game is forgotten. In every state reached without a call of \<open>start\<close>, \<open>resume\<close> or \<open>reset\<close> passing its
  guard while another one, a \<open>stop\<close> or the reading of the state file was under way, a game is running exactly if it is at a table of the run, no game is
  at two tables, and there are never more tables than the settings allow; when no run is active all
  unfinished games wait to be played; and when the tournament is completed every game is finished and every
  round of a Swiss tournament was played.
\<close>

theorem no_game_forgotten:
  assumes "runner_reachable r" "\<not> rn_overlapped r" "rn_state r = Some t"
  shows "distinct (map fst (rn_tables r)) \<and> length (rn_tables r) \<le> max 1 (ts_concurrency (tn_settings t)) \<and>
    (\<forall>i < length (tn_games t). cg_status (tn_games t ! i) = GameRunning \<longleftrightarrow> i \<in> fst ` set (rn_tables r)) \<and>
    (\<not> rn_active r \<longrightarrow> (\<forall>g \<in> set (tn_games t). cg_status g \<in> {GamePending, GameFinished})) \<and>
    (tn_status t = TournamentCompleted \<longrightarrow> (\<forall>g \<in> set (tn_games t). cg_status g = GameFinished) \<and>
      (ts_format (tn_settings t) = Swiss \<longrightarrow> tn_totalRounds t \<le> tn_round t))"
proof -
  have r: "runner_ok r" using runner_always_ok[OF assms(1)] assms(2) by (simp add: runner_inv_def)
  then have tables: "tables_ok t (rn_tables r)" "tournament_sound t" "length (rn_tables r) \<le> max 1 (ts_concurrency (tn_settings t))"
    using assms(3) by (simp_all add: runner_ok_def tournaments_def)
  have "cg_status g \<in> {GamePending, GameFinished}" if "\<not> rn_active r" "g \<in> set (tn_games t)" for g
  proof -
    have "tables_ok t []" using r assms(3) that(1) by (auto simp: runner_ok_def)
    then show ?thesis using that(2) by (cases "cg_status g") (auto simp: idle_games)
  qed
  then show ?thesis using tables by (simp add: tables_ok_def tournament_sound_def all_played_def)
qed

subsection \<open>A Swiss tournament of three, in its first round\<close>

definition demo_swiss :: tournament_settings where
  "demo_swiss = \<lparr>gs_moveTimeoutMs = 60000, gs_maxPlies = 300, ts_format = Swiss, ts_rounds = 2, ts_concurrency = 2\<rparr>"

definition demo_field :: "contestant list" where
  "demo_field = map (\<lambda>name. \<lparr>ct_id = name, ct_modelId = name, ct_providerId = ''claude'', ct_modelName = name,
     ct_reasoningEffort = ''low'', ct_displayName = name\<rparr>) [''a'', ''b'', ''c'']"

definition demo_started :: tournament where
  "demo_started = start_state ''t'' demo_swiss demo_field"

definition demo_paired :: tournament where
  "demo_paired = pair_next_swiss_round 0 demo_started"

definition demo_seated :: tournament where
  "demo_seated = put_game 0 (ps_game (sit_down ''t'' 0 (tn_games demo_paired ! 0))) demo_paired"

text \<open>The runner with a tournament, running or not yet.\<close>

definition demo_at :: "bool \<Rightarrow> tournament \<Rightarrow> (nat \<times> play_state) list \<Rightarrow> runner" where
  "demo_at active t tables = new_runner\<lparr>rn_load := Loaded, rn_state := Some t, rn_saving := [demo_started], rn_tables := tables,
     rn_active := active, rn_accepted := (if active then None else Some Launching)\<rparr>"

definition demo_runner :: runner where
  "demo_runner = demo_at True demo_seated [(0, sit_down ''t'' 0 (tn_games demo_paired ! 0))]"

lemma demo_started_runner: "runner_reachable (demo_at False demo_started [])"
proof -
  let ?r1 = "new_runner\<lparr>rn_load := Reading\<rparr>"
  let ?r2 = "finish_load ?r1"
  let ?r3 = "?r2\<lparr>rn_calls := Suc (rn_calls ?r2)\<rparr>"
  have next_step: "runner_reachable r \<Longrightarrow> \<not> rn_overlapped r \<Longrightarrow> single_step r r' \<Longrightarrow> runner_reachable r'" for r r'
    using runner_reachable.steps alone by blast
  have r1: "runner_reachable ?r1" by (rule next_step[OF idle _ opens]) (simp_all add: new_runner_def)
  have r2: "runner_reachable ?r2" by (rule next_step[OF r1 _ reads]) (simp_all add: new_runner_def)
  have r3: "runner_reachable ?r3" by (rule next_step[OF r2 _ calls]) (simp_all add: new_runner_def finish_load_def)
  have "start_tournament ''t'' demo_swiss demo_field ?r3 = Inr (demo_at False demo_started [])"
    by (simp add: start_tournament_def demo_field_def persist_def accept_def finish_load_def new_runner_def demo_at_def demo_started_def)
  then have "single_step ?r3 (demo_at False demo_started [])"
    by (rule starts[rotated]) (simp_all add: demo_field_def new_runner_def finish_load_def)
  then show ?thesis by (rule next_step[OF r3, rotated]) (simp add: new_runner_def finish_load_def)
qed

lemma demo_reachable: "runner_reachable demo_runner"
proof -
  have alone: "\<not> rn_overlapped (demo_at active t tables)" for active t tables by (simp add: demo_at_def new_runner_def)
  have next_step: "runner_reachable (demo_at active t tables) \<Longrightarrow> single_step (demo_at active t tables) r' \<Longrightarrow> runner_reachable r'"
    for active t tables r'
    using runner_reachable.steps runner_step.alone alone by blast
  have "launch (demo_at False demo_started []) = demo_at True demo_started []" by (simp add: launch_def demo_at_def new_runner_def)
  then have "single_step (demo_at False demo_started []) (demo_at True demo_started [])"
    using launches[of "demo_at False demo_started []"] by (simp add: demo_at_def)
  then have r1: "runner_reachable (demo_at True demo_started [])" by (rule next_step[OF demo_started_runner])
  have "next_round 0 demo_started = demo_paired"
    by (simp add: next_round_def demo_paired_def) (simp add: demo_started_def start_state_def Let_def demo_swiss_def)
  moreover have "pending_games demo_started = []" by code_simp
  moreover have "tn_status demo_started = TournamentRunning" by (simp add: demo_started_def start_fields)
  ultimately have "single_step (demo_at True demo_started []) (demo_at True demo_paired [])"
    using rounds[of "demo_at True demo_started []" demo_started 0] by (simp add: demo_at_def new_runner_def)
  then have r2: "runner_reachable (demo_at True demo_paired [])" by (rule next_step[OF r1])
  have "0 \<in> set (pending_games demo_paired)" by code_simp
  moreover have "tn_id demo_paired = ''t''" "ts_concurrency (tn_settings demo_paired) = 2" by code_simp+
  ultimately have "single_step (demo_at True demo_paired []) demo_runner"
    using sits[of "demo_at True demo_paired []" demo_paired 0 _ 0] by (simp add: demo_runner_def demo_seated_def demo_at_def new_runner_def)
  then show ?thesis by (rule next_step[OF r2])
qed

text \<open>A second \<open>start\<close> passes the guard while the first one waits for the file.\<close>

lemma calls_may_overlap: "\<exists>r. runner_reachable r \<and> rn_overlapped r \<and> rn_accepted r = Some Launching"
proof -
  let ?r1 = "demo_at False demo_started []"
  let ?r2 = "?r1\<lparr>rn_calls := Suc (rn_calls ?r1)\<rparr>"
  have next_step: "runner_reachable r \<Longrightarrow> \<not> rn_overlapped r \<Longrightarrow> single_step r r' \<Longrightarrow> runner_reachable r'" for r r'
    using runner_reachable.steps alone by blast
  have r2: "runner_reachable ?r2" by (rule next_step[OF demo_started_runner _ calls]) (simp add: demo_at_def new_runner_def)
  obtain r3 where r3: "start_tournament ''t'' demo_swiss demo_field ?r2 = Inr r3" "rn_overlapped r3" "rn_accepted r3 = Some Launching"
    by (simp add: start_tournament_def demo_field_def persist_def accept_def new_runner_def demo_at_def)
  have "single_step ?r2 r3" by (rule starts[OF _ r3(1)]) (simp_all add: demo_field_def demo_at_def new_runner_def)
  then have "runner_reachable r3" by (rule next_step[OF r2, rotated]) (simp add: demo_at_def new_runner_def)
  then show ?thesis using r3 by blast
qed

lemma demo_alone: "\<not> rn_overlapped demo_runner" "rn_tables demo_runner = [(0, sit_down ''t'' 0 (tn_games demo_paired ! 0))]"
  by (simp_all add: demo_runner_def demo_at_def new_runner_def)

lemma demo_state: "rn_state demo_runner = Some demo_seated"
  by (simp add: demo_runner_def demo_at_def)

theorem standings_refine_results_witness:
  "map (\<lambda>(k, s). (k, cs_points s)) (tn_standings demo_seated) = [(''a'', 1), (''b'', 0), (''c'', 0)] \<and>
   (\<Sum>(k, s) \<leftarrow> tn_standings demo_seated. cs_points s) = real (length (filter (\<lambda>g. cg_status g = GameFinished) (tn_games demo_seated)))"
proof
  show "map (\<lambda>(k, s). (k, cs_points s)) (tn_standings demo_seated) = [(''a'', 1), (''b'', 0), (''c'', 0)]" by code_simp
qed (rule conjunct2[OF standings_refine_results[OF demo_reachable demo_alone(1) demo_state]])

theorem rounds_fair_witness:
  "round_players 1 (tn_games demo_seated) = [''c'', ''b'', ''a''] \<and> mset (round_players 1 (tn_games demo_seated)) = mset (map fst (tn_standings demo_seated))"
proof
  show "round_players 1 (tn_games demo_seated) = [''c'', ''b'', ''a'']" by code_simp
  have "ts_format (tn_settings demo_seated) = Swiss \<and> 1 \<le> (1 :: nat) \<and> 1 \<le> tn_round demo_seated" by code_simp
  then show "mset (round_players 1 (tn_games demo_seated)) = mset (map fst (tn_standings demo_seated))"
    using rounds_fair[OF demo_reachable demo_state, of 1] by blast
qed

theorem no_game_forgotten_witness:
  "map fst (rn_tables demo_runner) = [0] \<and> 0 < length (tn_games demo_seated) \<and> cg_status (tn_games demo_seated ! 0) = GameRunning"
proof (intro conjI)
  show "map fst (rn_tables demo_runner) = [0]" by (simp add: demo_alone)
  show *: "0 < length (tn_games demo_seated)" by code_simp
  show "cg_status (tn_games demo_seated ! 0) = GameRunning"
    using no_game_forgotten[OF demo_reachable demo_alone(1) demo_state] * by (simp add: demo_alone)
qed

end
