(* ===== verification/Provider_Slots.thy ===== *)
theory Provider_Slots
  imports Prelude
begin

text \<open>
  The slots a move request waits for (\<open>ProviderSlots\<close> and \<open>acquireSlots\<close> of
  \<open>apps/api/src/chess/chess-tournament.ts\<close>): first one of its provider, then, for a provider run as a
  command-line process, one of the group all of those share. The locale \<open>slot_service\<close> is what the requests
  rely on in one group of slots: nobody loses a slot but by releasing it, nobody waits while nobody holds
  one. That every request is served rests on these laws alone, and on the fixed order of the two groups.
\<close>

subsection \<open>One group\<close>

text \<open>
  The fields of \<open>ProviderSlots\<close>, and what its promises and closures remember: the calls of \<open>acquire\<close> whose
  promise was fulfilled, and the calls of a release function so far (its \<open>released\<close>).
\<close>

record slots =
  sl_limit :: nat
  sl_active :: nat
  sl_waiters :: "nat list"
  sl_granted :: "nat set"
  sl_released :: "nat set"

definition new_slots :: "nat \<Rightarrow> slots" where
  "new_slots limit = \<lparr>sl_limit = limit, sl_active = 0, sl_waiters = [], sl_granted = {}, sl_released = {}\<rparr>"

text \<open>\<open>acquire\<close> throws (\<open>None\<close>), or gives a slot at once, or waits.\<close>

definition acquire :: "bool \<Rightarrow> nat \<Rightarrow> slots \<Rightarrow> slots option" where
  "acquire aborted r s = (if aborted then None
     else if sl_active s < sl_limit s then Some (s\<lparr>sl_active := sl_active s + 1, sl_granted := insert r (sl_granted s)\<rparr>)
     else Some (s\<lparr>sl_waiters := sl_waiters s @ [r]\<rparr>))"

definition on_abort :: "nat \<Rightarrow> slots \<Rightarrow> slots" where
  "on_abort r s = s\<lparr>sl_waiters := remove1 r (sl_waiters s)\<rparr>"

definition release :: "nat \<Rightarrow> slots \<Rightarrow> slots" where
  "release r s = (if r \<in> sl_released s then s
     else let s' = s\<lparr>sl_released := insert r (sl_released s)\<rparr> in
       case sl_waiters s of
         nxt # rest \<Rightarrow> s'\<lparr>sl_waiters := rest, sl_granted := insert nxt (sl_granted s)\<rparr>
       | [] \<Rightarrow> s'\<lparr>sl_active := sl_active s - 1\<rparr>)"

definition holders :: "slots \<Rightarrow> nat set" where
  "holders s = sl_granted s - sl_released s"

definition waiting :: "slots \<Rightarrow> nat set" where
  "waiting s = set (sl_waiters s)"

definition asked :: "slots \<Rightarrow> nat set" where
  "asked s = sl_granted s \<union> set (sl_waiters s)"

definition slots_ok :: "slots \<Rightarrow> bool" where
  "slots_ok s = (1 \<le> sl_limit s \<and> finite (sl_granted s) \<and> sl_released s \<subseteq> sl_granted s \<and> sl_active s = card (holders s) \<and>
     sl_active s \<le> sl_limit s \<and> distinct (sl_waiters s) \<and> waiting s \<inter> sl_granted s = {} \<and>
     (sl_waiters s \<noteq> [] \<longrightarrow> sl_active s = sl_limit s))"

subsection \<open>What a group of slots promises\<close>

text \<open>How far a request is in \<open>acquireSlots\<close>: the first call of \<open>acquire\<close> made, the second, and how it ended.\<close>

datatype request_pc = Fresh | AtProvider | AtCli | Served | GivenUp

locale slot_service =
  fixes ok :: "'s \<Rightarrow> bool" and held :: "'s \<Rightarrow> nat set" and queued :: "'s \<Rightarrow> nat set" and seen :: "'s \<Rightarrow> nat set"
    and ask :: "nat \<Rightarrow> 's \<Rightarrow> 's" and leave :: "nat \<Rightarrow> 's \<Rightarrow> 's" and give :: "nat \<Rightarrow> 's \<Rightarrow> 's"
  assumes asked: "ok s \<Longrightarrow> r \<notin> seen s \<Longrightarrow> ok (ask r s) \<and> seen (ask r s) = insert r (seen s) \<and>
      held s \<subseteq> held (ask r s) \<and> held (ask r s) \<union> queued (ask r s) = insert r (held s \<union> queued s)"
    and left: "ok s \<Longrightarrow> r \<in> queued s \<Longrightarrow> ok (leave r s) \<and> seen (leave r s) \<subseteq> seen s \<and>
      held (leave r s) = held s \<and> queued (leave r s) = queued s - {r}"
    and given: "ok s \<Longrightarrow> r \<in> held s \<Longrightarrow> ok (give r s) \<and> seen (give r s) = seen s \<and>
      held s - {r} \<subseteq> held (give r s) \<and> held (give r s) \<union> queued (give r s) = (held s \<union> queued s) - {r}"
    and no_lost_slot: "ok s \<Longrightarrow> queued s \<noteq> {} \<Longrightarrow> held s \<noteq> {}"
    and apart: "ok s \<Longrightarrow> held s \<inter> queued s = {}"
    and members_seen: "ok s \<Longrightarrow> held s \<union> queued s \<subseteq> seen s"
begin

text \<open>Requests that take a slot of their own group and then, if they need it, one of a shared group.\<close>

definition inside :: "'s \<Rightarrow> nat \<Rightarrow> bool" where
  "inside s r = (r \<in> held s \<or> r \<in> queued s)"

definition place :: "'g \<Rightarrow> 'g \<Rightarrow> ('g \<Rightarrow> 's) \<Rightarrow> request_pc \<Rightarrow> nat \<Rightarrow> bool" where
  "place own_group shared G pc r = (case pc of
     Fresh \<Rightarrow> \<forall>g. r \<notin> seen (G g)
   | AtProvider \<Rightarrow> (\<forall>g. inside (G g) r \<longleftrightarrow> g = own_group) \<and> r \<notin> seen (G shared)
   | AtCli \<Rightarrow> (\<forall>g. inside (G g) r \<longleftrightarrow> g = own_group \<or> g = shared) \<and> r \<in> held (G own_group)
   | _ \<Rightarrow> \<forall>g. \<not> inside (G g) r)"

definition orderly :: "(nat \<Rightarrow> 'g) \<Rightarrow> 'g \<Rightarrow> ('g \<Rightarrow> 's) \<Rightarrow> (nat \<Rightarrow> request_pc) \<Rightarrow> bool" where
  "orderly own_group shared G pc = ((\<forall>g. ok (G g)) \<and> (\<forall>r. place (own_group r) shared G (pc r) r))"

text \<open>Whoever waits, somebody has all it needs: there is no deadlock.\<close>

lemma inside_place: "place own_group shared G pc r \<Longrightarrow> ok (G g) \<Longrightarrow> inside (G g) r \<Longrightarrow>
    (g = own_group \<and> pc = AtProvider) \<or> (pc = AtCli \<and> (g = own_group \<or> g = shared))"
  using members_seen[of "G g"] by (auto simp: place_def inside_def split: request_pc.splits)

lemma somebody_at_shared:
  assumes order: "orderly own_group shared G pc" "\<And>r. own_group r \<noteq> shared" and q: "pc q = AtCli"
  shows "\<exists>q. pc q = AtCli \<and> q \<in> held (G shared)"
proof (cases "q \<in> held (G shared)")
  case False
  have ok: "ok (G g)" and at: "place (own_group q) shared G (pc q) q" for g q using order(1) by (simp_all add: orderly_def)
  from False have "queued (G shared) \<noteq> {}" using at[of q] q by (auto simp: place_def inside_def)
  then obtain h where h: "h \<in> held (G shared)" using no_lost_slot[OF ok] by blast
  then show ?thesis using inside_place[OF at ok, of shared h] order(2)[of h] by (auto simp: inside_def)
qed (use q in blast)

lemma somebody_proceeds:
  assumes order: "orderly own_group shared G pc" "\<And>r. own_group r \<noteq> shared" and r: "pc r = AtProvider \<or> pc r = AtCli"
  shows "\<exists>q. (pc q = AtProvider \<and> q \<in> held (G (own_group q))) \<or> (pc q = AtCli \<and> q \<in> held (G shared))"
proof -
  have ok: "ok (G g)" and at: "place (own_group q) shared G (pc q) q" for g q using order(1) by (simp_all add: orderly_def)
  note shared = somebody_at_shared[OF order]
  show ?thesis
  proof (cases "pc r = AtProvider \<and> r \<notin> held (G (own_group r))")
    case True
    then have "queued (G (own_group r)) \<noteq> {}" using at[of r] by (auto simp: place_def inside_def)
    then obtain h where h: "h \<in> held (G (own_group r))" using no_lost_slot[OF ok] by blast
    then have "own_group h = own_group r" "pc h = AtProvider \<or> pc h = AtCli"
      using inside_place[OF at ok, of "own_group r" h] order(2)[of r] by (auto simp: inside_def)
    then show ?thesis using h shared[of h] by metis
  qed (use r shared in blast)
qed

text \<open>A step of one request leaves the places of the others as they are, or hands them a slot.\<close>

definition same_for :: "nat \<Rightarrow> 's \<Rightarrow> 's \<Rightarrow> bool" where
  "same_for r s s' = (inside s' r = inside s r \<and> (r \<in> held s \<longrightarrow> r \<in> held s') \<and> (r \<in> seen s' \<longrightarrow> r \<in> seen s))"

lemma same_refl [simp]: "same_for r s s"
  by (simp add: same_for_def)

lemma same_asked: "ok s \<Longrightarrow> r \<notin> seen s \<Longrightarrow> q \<noteq> r \<Longrightarrow> same_for q s (ask r s)"
  using asked[of s r] unfolding same_for_def inside_def by blast

lemma same_left: "ok s \<Longrightarrow> r \<in> queued s \<Longrightarrow> q \<noteq> r \<Longrightarrow> same_for q s (leave r s)"
  using left[of s r] unfolding same_for_def inside_def by blast

lemma same_given: "ok s \<Longrightarrow> r \<in> held s \<Longrightarrow> q \<noteq> r \<Longrightarrow> same_for q s (give r s)"
  using given[of s r] unfolding same_for_def inside_def by blast

lemma place_same: "place own_group shared G pc r \<Longrightarrow> (\<And>g. same_for r (G g) (G' g)) \<Longrightarrow> place own_group shared G' pc r"
  unfolding place_def same_for_def by (cases pc) auto

lemma orderly_step:
  assumes "orderly own_group shared G pc" "\<And>g. ok (G' g)" "\<And>q g. q \<noteq> r \<Longrightarrow> same_for q (G g) (G' g)"
    "place (own_group r) shared G' pc' r"
  shows "orderly own_group shared G' (pc(r := pc'))"
proof -
  have "place (own_group q) shared G' ((pc(r := pc')) q) q" for q
    using assms(1,3,4) place_same[of "own_group q" shared G "pc q" q G'] by (cases "q = r") (simp_all add: orderly_def)
  then show ?thesis using assms(2) by (simp add: orderly_def)
qed

lemma orderly_asked:
  assumes o: "orderly own_group shared G pc" "own_group r \<noteq> shared" "pc r = Fresh"
  shows "orderly own_group shared (G(own_group r := ask r (G (own_group r)))) (pc(r := AtProvider))"
proof -
  have g: "ok (G g)" "r \<notin> seen (G g)" "\<not> inside (G g) r" for g
  proof -
    show "ok (G g)" "r \<notin> seen (G g)" using o(1,3) spec[of "\<lambda>r. place (own_group r) shared G (pc r) r" r]
      by (simp_all add: orderly_def place_def)
    then show "\<not> inside (G g) r" using members_seen by (auto simp: inside_def)
  qed
  have a: "ok (ask r (G (own_group r)))" "inside (ask r (G (own_group r))) r" using asked[OF g(1,2)] by (auto simp: inside_def)
  show ?thesis
    by (rule orderly_step[OF o(1)]) (use a g o(2) same_asked[OF g(1,2)] in \<open>auto simp: place_def\<close>)
qed

lemma at_provider:
  assumes "orderly own_group shared G pc" "pc r = AtProvider"
  shows "ok (G g)" "inside (G g) r \<longleftrightarrow> g = own_group r" "r \<notin> seen (G shared)"
  using assms spec[of "\<lambda>r. place (own_group r) shared G (pc r) r" r] by (simp_all add: orderly_def place_def)

lemma at_cli:
  assumes "orderly own_group shared G pc" "pc r = AtCli"
  shows "ok (G g)" "inside (G g) r \<longleftrightarrow> g = own_group r \<or> g = shared" "r \<in> held (G (own_group r))"
  using assms spec[of "\<lambda>r. place (own_group r) shared G (pc r) r" r] by (simp_all add: orderly_def place_def)

lemma orderly_shared:
  assumes o: "orderly own_group shared G pc" "own_group r \<noteq> shared" "pc r = AtProvider" "r \<in> held (G (own_group r))"
  shows "orderly own_group shared (G(shared := ask r (G shared))) (pc(r := AtCli))"
proof -
  note p = at_provider[OF o(1,3)]
  have a: "ok (ask r (G shared))" "inside (ask r (G shared)) r" using asked[OF p(1,3)] by (auto simp: inside_def)
  show ?thesis
    by (rule orderly_step[OF o(1)]) (use a p o(2,4) same_asked[OF p(1,3)] in \<open>auto simp: place_def\<close>)
qed

lemma over_place: "pc = Served \<or> pc = GivenUp \<Longrightarrow> place own_group shared G pc r \<longleftrightarrow> (\<forall>g. \<not> inside (G g) r)"
  by (auto simp: place_def)

lemma orderly_refused:
  assumes o: "orderly own_group shared G pc" "pc r = Fresh"
  shows "orderly own_group shared G (pc(r := GivenUp))"
proof -
  have "\<not> inside (G g) r" for g
    using o spec[of "\<lambda>r. place (own_group r) shared G (pc r) r" r] members_seen[of "G g"]
    by (auto simp: orderly_def place_def inside_def)
  then show ?thesis using orderly_step[OF o(1), of G r GivenUp] o(1) by (simp add: over_place orderly_def)
qed

lemma orderly_given:
  assumes o: "orderly own_group shared G pc" "pc r = AtProvider" "r \<in> held (G (own_group r))" "pc' = Served \<or> pc' = GivenUp"
  shows "orderly own_group shared (G(own_group r := give r (G (own_group r)))) (pc(r := pc'))"
proof -
  note p = at_provider[OF o(1,2)]
  have a: "ok (give r (G (own_group r)))" "\<not> inside (give r (G (own_group r))) r" using given[OF p(1) o(3)] by (auto simp: inside_def)
  show ?thesis
    by (rule orderly_step[OF o(1)]) (use a p o(4) same_given[OF p(1) o(3)] in \<open>auto simp: over_place\<close>)
qed

lemma orderly_left:
  assumes o: "orderly own_group shared G pc" "pc r = AtProvider" "r \<in> queued (G (own_group r))"
  shows "orderly own_group shared (G(own_group r := leave r (G (own_group r)))) (pc(r := GivenUp))"
proof -
  note p = at_provider[OF o(1,2)]
  have a: "ok (leave r (G (own_group r)))" "\<not> inside (leave r (G (own_group r))) r"
    using left[OF p(1) o(3)] apart[OF p(1)] o(3) by (auto simp: inside_def)
  show ?thesis
    by (rule orderly_step[OF o(1)]) (use a p same_left[OF p(1) o(3)] in \<open>auto simp: over_place\<close>)
qed

lemma orderly_returned:
  assumes o: "orderly own_group shared G pc" "own_group r \<noteq> shared" "pc r = AtCli"
    and s: "ok s" "\<not> inside s r" "\<And>q. q \<noteq> r \<Longrightarrow> same_for q (G shared) s" and over: "pc' = Served \<or> pc' = GivenUp"
  shows "orderly own_group shared (G(shared := s, own_group r := give r (G (own_group r)))) (pc(r := pc'))"
proof -
  note p = at_cli[OF o(1,3)]
  have a: "ok (give r (G (own_group r)))" "\<not> inside (give r (G (own_group r))) r" using given[OF p(1,3)] by (auto simp: inside_def)
  show ?thesis
    by (rule orderly_step[OF o(1)]) (use a p s over same_given[OF p(1,3)] o(2) in \<open>auto simp: over_place\<close>)
qed

lemma orderly_given_both:
  assumes o: "orderly own_group shared G pc" "own_group r \<noteq> shared" "pc r = AtCli" "r \<in> held (G shared)"
  shows "orderly own_group shared (G(shared := give r (G shared), own_group r := give r (G (own_group r)))) (pc(r := Served))"
proof -
  note p = at_cli(1)[OF o(1,3)]
  show ?thesis by (rule orderly_returned[OF o(1-3)]) (use given[OF p o(4)] same_given[OF p o(4)] in \<open>auto simp: inside_def\<close>)
qed

lemma orderly_left_both:
  assumes o: "orderly own_group shared G pc" "own_group r \<noteq> shared" "pc r = AtCli" "r \<in> queued (G shared)"
  shows "orderly own_group shared (G(shared := leave r (G shared), own_group r := give r (G (own_group r)))) (pc(r := GivenUp))"
proof -
  note p = at_cli(1)[OF o(1,3)]
  show ?thesis
    by (rule orderly_returned[OF o(1-3)])
      (use left[OF p o(4)] apart[OF p] o(4) same_left[OF p o(4)] in \<open>auto simp: inside_def\<close>)
qed

end

lemma slots_acquired:
  assumes "slots_ok s" "r \<notin> asked s" "acquire False r s = Some s'"
  shows "slots_ok s' \<and> asked s' = insert r (asked s) \<and> holders s \<subseteq> holders s' \<and>
    holders s' \<union> waiting s' = insert r (holders s \<union> waiting s)"
proof (cases "sl_active s < sl_limit s")
  case True
  then have s': "s' = s\<lparr>sl_active := sl_active s + 1, sl_granted := insert r (sl_granted s)\<rparr>"
    using assms(3) by (simp add: acquire_def)
  have "r \<notin> sl_released s" "r \<notin> sl_granted s" using assms(1,2) by (auto simp: slots_ok_def asked_def)
  then have h: "holders s' = insert r (holders s)" by (auto simp: s' holders_def)
  moreover have "r \<notin> holders s" "finite (holders s)" using \<open>r \<notin> sl_granted s\<close> assms(1) by (auto simp: holders_def slots_ok_def)
  moreover have "sl_waiters s = []" using True assms(1) by (auto simp: slots_ok_def)
  ultimately show ?thesis using assms(1) True by (auto simp: slots_ok_def asked_def waiting_def s' holders_def)
next
  case False
  then have s': "s' = s\<lparr>sl_waiters := sl_waiters s @ [r]\<rparr>" using assms(3) by (simp add: acquire_def)
  then show ?thesis using False assms(1,2) by (auto simp: slots_ok_def asked_def waiting_def holders_def)
qed

lemma slots_aborted:
  assumes "slots_ok s" "r \<in> waiting s"
  shows "slots_ok (on_abort r s) \<and> asked (on_abort r s) \<subseteq> asked s \<and> holders (on_abort r s) = holders s \<and>
    waiting (on_abort r s) = waiting s - {r}"
  using assms set_remove1_subset[of r "sl_waiters s"]
  by (auto simp: slots_ok_def asked_def waiting_def holders_def on_abort_def)

lemma slots_released:
  assumes "slots_ok s" "r \<in> holders s"
  shows "slots_ok (release r s) \<and> asked (release r s) = asked s \<and> holders s - {r} \<subseteq> holders (release r s) \<and>
    holders (release r s) \<union> waiting (release r s) = (holders s \<union> waiting s) - {r}"
proof -
  have r: "r \<in> sl_granted s" "r \<notin> sl_released s" "finite (holders s)" using assms by (auto simp: holders_def slots_ok_def)
  show ?thesis
  proof (cases "sl_waiters s")
    case Nil
    let ?s = "release r s"
    have s': "?s = s\<lparr>sl_released := insert r (sl_released s), sl_active := sl_active s - 1\<rparr>" using r Nil by (simp add: release_def)
    have "holders ?s = holders s - {r}" by (auto simp: s' holders_def)
    moreover have "card (holders s - {r}) = card (holders s) - 1" using assms(2) r(3) by simp
    ultimately show ?thesis using assms(1) r(1) Nil by (auto simp: slots_ok_def asked_def waiting_def s')
  next
    case (Cons n ws)
    let ?s = "release r s"
    have s': "?s = s\<lparr>sl_released := insert r (sl_released s), sl_waiters := ws, sl_granted := insert n (sl_granted s)\<rparr>"
      using r Cons by (simp add: release_def)
    have n: "n \<notin> sl_granted s" "n \<noteq> r" "n \<notin> sl_released s" using assms(1) Cons r(1) by (auto simp: slots_ok_def waiting_def)
    have h: "holders ?s = insert n (holders s - {r})" using n by (auto simp: s' holders_def)
    moreover have "n \<notin> holders s - {r}" using n(1) by (simp add: holders_def)
    then have "card (insert n (holders s - {r})) = card (holders s)"
      using card_Suc_Diff1[OF r(3) assms(2)] r(3) by simp
    moreover have "sl_active s = sl_limit s" using assms(1) Cons by (simp add: slots_ok_def)
    ultimately have "slots_ok ?s" using assms(1) r(1) Cons n by (auto simp: slots_ok_def waiting_def s')
    moreover have "r \<notin> waiting s" using assms(1) r(1) by (auto simp: slots_ok_def)
    ultimately show ?thesis using h Cons n by (auto simp: asked_def waiting_def s')
  qed
qed

lemma slots_never_idle: "slots_ok s \<Longrightarrow> waiting s \<noteq> {} \<Longrightarrow> holders s \<noteq> {}"
proof
  assume s: "slots_ok s" "waiting s \<noteq> {}" "holders s = {}"
  then have "sl_active s = 0" "sl_active s = sl_limit s" "1 \<le> sl_limit s" by (auto simp: slots_ok_def waiting_def)
  then show False by simp
qed

definition enter_queue :: "nat \<Rightarrow> slots \<Rightarrow> slots" where
  "enter_queue r s = the (acquire False r s)"

interpretation group: slot_service slots_ok holders waiting asked enter_queue on_abort release
proof
  fix s r
  assume s: "slots_ok s" "r \<notin> asked s"
  obtain s' where a: "acquire False r s = Some s'" by (cases "acquire False r s") (auto simp: acquire_def split: if_splits)
  have e: "enter_queue r s = s'" by (simp add: enter_queue_def a)
  show "slots_ok (enter_queue r s) \<and> asked (enter_queue r s) = insert r (asked s) \<and> holders s \<subseteq> holders (enter_queue r s) \<and>
    holders (enter_queue r s) \<union> waiting (enter_queue r s) = insert r (holders s \<union> waiting s)"
    unfolding e by (rule slots_acquired[OF s a])
next
  show "slots_ok s \<Longrightarrow> r \<in> waiting s \<Longrightarrow> slots_ok (on_abort r s) \<and> asked (on_abort r s) \<subseteq> asked s \<and>
      holders (on_abort r s) = holders s \<and> waiting (on_abort r s) = waiting s - {r}" for s r by (rule slots_aborted)
  show "slots_ok s \<Longrightarrow> r \<in> holders s \<Longrightarrow> slots_ok (release r s) \<and> asked (release r s) = asked s \<and>
      holders s - {r} \<subseteq> holders (release r s) \<and> holders (release r s) \<union> waiting (release r s) = holders s \<union> waiting s - {r}" for s r
    by (rule slots_released)
  show "slots_ok s \<Longrightarrow> waiting s \<noteq> {} \<Longrightarrow> holders s \<noteq> {}" for s by (rule slots_never_idle)
  show "slots_ok s \<Longrightarrow> holders s \<inter> waiting s = {}" for s by (auto simp: slots_ok_def holders_def)
  show "slots_ok s \<Longrightarrow> holders s \<union> waiting s \<subseteq> asked s" for s by (auto simp: holders_def waiting_def asked_def)
qed

subsection \<open>The two groups of a request\<close>

text \<open>
  \<open>providerSlots\<close> makes a group when it is first asked for, with the configured limit, the known one or 2, and
  never less than 1; here every group is there from the start.
\<close>

definition FALLBACK_PROVIDER_LIMIT :: nat where
  "FALLBACK_PROVIDER_LIMIT = 2"

definition CLI_SLOT_GROUP :: string where
  "CLI_SLOT_GROUP = ''cli''"

definition CLI_CONCURRENCY_LIMIT :: nat where
  "CLI_CONCURRENCY_LIMIT = 6"

definition group_limit :: "(string \<Rightarrow> nat option) \<Rightarrow> (string \<Rightarrow> nat option) \<Rightarrow> string \<Rightarrow> nat" where
  "group_limit configured request_limits g =
     max 1 (dflt (or_else (configured g) (if g = CLI_SLOT_GROUP then Some CLI_CONCURRENCY_LIMIT else request_limits g)) FALLBACK_PROVIDER_LIMIT)"

record desk =
  dk_groups :: "string \<Rightarrow> slots"
  dk_pc :: "nat \<Rightarrow> request_pc"

record desk_env =
  de_provider :: "nat \<Rightarrow> string"
  de_is_cli :: "string \<Rightarrow> bool"
  de_limit :: "string \<Rightarrow> nat"

definition open_desk :: "desk_env \<Rightarrow> desk" where
  "open_desk env = \<lparr>dk_groups = \<lambda>g. new_slots (de_limit env g), dk_pc = \<lambda>_. Fresh\<rparr>"

definition put_group :: "string \<Rightarrow> slots \<Rightarrow> desk \<Rightarrow> desk" where
  "put_group g s d = d\<lparr>dk_groups := (dk_groups d)(g := s)\<rparr>"

definition goto :: "nat \<Rightarrow> request_pc \<Rightarrow> desk \<Rightarrow> desk" where
  "goto r pc d = d\<lparr>dk_pc := (dk_pc d)(r := pc)\<rparr>"

definition give_back :: "string \<Rightarrow> nat \<Rightarrow> desk \<Rightarrow> desk" where
  "give_back g r d = put_group g (release r (dk_groups d g)) d"

text \<open>\<open>await this.providerSlots(providerId).acquire(signal)\<close>, and then the same for the shared group, or else back.\<close>

definition ask_provider :: "desk_env \<Rightarrow> bool \<Rightarrow> nat \<Rightarrow> desk \<Rightarrow> desk" where
  "ask_provider env aborted r d = (let p = de_provider env r in
     case acquire aborted r (dk_groups d p) of None \<Rightarrow> goto r GivenUp d | Some s \<Rightarrow> goto r AtProvider (put_group p s d))"

definition ask_cli :: "desk_env \<Rightarrow> bool \<Rightarrow> nat \<Rightarrow> desk \<Rightarrow> desk" where
  "ask_cli env aborted r d = (case acquire aborted r (dk_groups d CLI_SLOT_GROUP) of
     None \<Rightarrow> goto r GivenUp (give_back (de_provider env r) r d)
   | Some s \<Rightarrow> goto r AtCli (put_group CLI_SLOT_GROUP s d))"

text \<open>The function \<open>acquireSlots\<close> returns, called by \<open>chooseMove\<close> when the answer is there or the request has failed.\<close>

definition let_go :: "desk_env \<Rightarrow> nat \<Rightarrow> desk \<Rightarrow> desk" where
  "let_go env r d = goto r Served (give_back (de_provider env r) r
     (if de_is_cli env (de_provider env r) then give_back CLI_SLOT_GROUP r d else d))"

text \<open>The signal while the request waits: the promise is rejected, and a provider's slot goes back.\<close>

definition quit_waiting :: "desk_env \<Rightarrow> nat \<Rightarrow> desk \<Rightarrow> desk" where
  "quit_waiting env r d = goto r GivenUp (if dk_pc d r = AtCli
     then give_back (de_provider env r) r (put_group CLI_SLOT_GROUP (on_abort r (dk_groups d CLI_SLOT_GROUP)) d)
     else put_group (de_provider env r) (on_abort r (dk_groups d (de_provider env r))) d)"

text \<open>A request that has its provider's slot, and one that has all it needs.\<close>

definition has_provider :: "desk_env \<Rightarrow> nat \<Rightarrow> desk \<Rightarrow> bool" where
  "has_provider env r d = (dk_pc d r = AtProvider \<and> r \<in> holders (dk_groups d (de_provider env r)))"

definition has_all :: "desk_env \<Rightarrow> nat \<Rightarrow> desk \<Rightarrow> bool" where
  "has_all env r d = (if de_is_cli env (de_provider env r) then dk_pc d r = AtCli \<and> r \<in> holders (dk_groups d CLI_SLOT_GROUP)
     else has_provider env r d)"

definition still_waits :: "desk_env \<Rightarrow> nat \<Rightarrow> desk \<Rightarrow> bool" where
  "still_waits env r d = (case dk_pc d r of AtProvider \<Rightarrow> r \<in> waiting (dk_groups d (de_provider env r))
     | AtCli \<Rightarrow> r \<in> waiting (dk_groups d CLI_SLOT_GROUP) | _ \<Rightarrow> False)"

inductive desk_step :: "desk_env \<Rightarrow> desk \<Rightarrow> desk \<Rightarrow> bool" for env where
  asks: "dk_pc d r = Fresh \<Longrightarrow> desk_step env d (ask_provider env aborted r d)"
| asks_cli: "has_provider env r d \<Longrightarrow> de_is_cli env (de_provider env r) \<Longrightarrow> desk_step env d (ask_cli env aborted r d)"
| lets_go: "has_all env r d \<Longrightarrow> desk_step env d (let_go env r d)"
| quits: "still_waits env r d \<Longrightarrow> desk_step env d (quit_waiting env r d)"

inductive desk_reachable :: "desk_env \<Rightarrow> desk \<Rightarrow> bool" for env where
  opened: "desk_reachable env (open_desk env)"
| stepped: "desk_reachable env d \<Longrightarrow> desk_step env d d' \<Longrightarrow> desk_reachable env d'"

definition desk_ok :: "desk_env \<Rightarrow> bool" where
  "desk_ok env = ((\<forall>g. 1 \<le> de_limit env g) \<and> (\<forall>r. de_provider env r \<noteq> CLI_SLOT_GROUP))"

definition desk_inv :: "desk_env \<Rightarrow> desk \<Rightarrow> bool" where
  "desk_inv env d = (group.orderly (de_provider env) CLI_SLOT_GROUP (dk_groups d) (dk_pc d) \<and>
     (\<forall>r. dk_pc d r = AtCli \<longrightarrow> de_is_cli env (de_provider env r)) \<and> (\<forall>g. sl_limit (dk_groups d g) = de_limit env g))"

lemmas desk_defs = ask_provider_def ask_cli_def let_go_def quit_waiting_def give_back_def put_group_def goto_def Let_def

lemma limits_kept: "acquire aborted r s = Some s' \<Longrightarrow> sl_limit s' = sl_limit s" "sl_limit (release r s) = sl_limit s"
  "sl_limit (on_abort r s) = sl_limit s"
  by (auto simp: acquire_def release_def on_abort_def Let_def split: if_splits list.splits)

lemma acquired_queue: "acquire aborted r s = Some s' \<Longrightarrow> s' = enter_queue r s"
  by (auto simp: acquire_def enter_queue_def split: if_splits)

lemma desk_step_inv:
  assumes env: "desk_ok env" and inv: "desk_inv env d" and step: "desk_step env d d'"
  shows "desk_inv env d'"
proof -
  let ?p = "de_provider env" and ?G = "dk_groups d"
  have o: "group.orderly ?p CLI_SLOT_GROUP ?G (dk_pc d)" and cli: "\<And>r. dk_pc d r = AtCli \<Longrightarrow> de_is_cli env (?p r)"
    and lim: "\<And>g. sl_limit (?G g) = de_limit env g" using inv by (simp_all add: desk_inv_def)
  have p: "?p r \<noteq> CLI_SLOT_GROUP" for r using env by (simp add: desk_ok_def)
  from step show ?thesis
  proof cases
    case (asks r aborted)
    show ?thesis
    proof (cases "acquire aborted r (?G (?p r))")
      case None
      then show ?thesis using group.orderly_refused[OF o asks(2)] cli lim asks by (auto simp: desk_inv_def desk_defs)
    next
      case (Some s)
      then show ?thesis using group.orderly_asked[OF o p asks(2)] cli lim asks limits_kept(1)[OF Some] acquired_queue[OF Some]
        by (auto simp: desk_inv_def desk_defs)
    qed
  next
    case (asks_cli r aborted)
    have h: "dk_pc d r = AtProvider" "r \<in> holders (?G (?p r))" using asks_cli(2) by (simp_all add: has_provider_def)
    show ?thesis
    proof (cases "acquire aborted r (?G CLI_SLOT_GROUP)")
      case None
      then show ?thesis using group.orderly_given[OF o h, of GivenUp] cli lim limits_kept asks_cli by (auto simp: desk_inv_def desk_defs)
    next
      case (Some s)
      then show ?thesis using group.orderly_shared[OF o p h] cli lim asks_cli limits_kept(1)[OF Some] acquired_queue[OF Some]
        by (auto simp: desk_inv_def desk_defs)
    qed
  next
    case (lets_go r)
    show ?thesis
    proof (cases "de_is_cli env (?p r)")
      case True
      then have h: "dk_pc d r = AtCli" "r \<in> holders (?G CLI_SLOT_GROUP)" using lets_go(2) by (simp_all add: has_all_def)
      show ?thesis using group.orderly_given_both[OF o p h] True cli lim limits_kept lets_go(1) p by (auto simp: desk_inv_def desk_defs)
    next
      case False
      then have h: "dk_pc d r = AtProvider" "r \<in> holders (?G (?p r))" using lets_go(2) by (simp_all add: has_all_def has_provider_def)
      show ?thesis using group.orderly_given[OF o h, of Served] False cli lim limits_kept lets_go(1) by (auto simp: desk_inv_def desk_defs)
    qed
  next
    case (quits r)
    show ?thesis
    proof (cases "dk_pc d r = AtCli")
      case True
      then have h: "r \<in> waiting (?G CLI_SLOT_GROUP)" using quits(2) by (simp add: still_waits_def)
      show ?thesis using group.orderly_left_both[OF o p True h] True cli lim limits_kept quits(1) p by (auto simp: desk_inv_def desk_defs)
    next
      case False
      then have h: "dk_pc d r = AtProvider" "r \<in> waiting (?G (?p r))" using quits(2) by (auto simp: still_waits_def split: request_pc.splits)
      show ?thesis using group.orderly_left[OF o h] False cli lim limits_kept quits(1) by (auto simp: desk_inv_def desk_defs)
    qed
  qed
qed

lemma desk_open_inv: "desk_ok env \<Longrightarrow> desk_inv env (open_desk env)"
  by (auto simp: desk_inv_def open_desk_def group.orderly_def group.place_def desk_ok_def new_slots_def slots_ok_def
      holders_def waiting_def asked_def)

lemma desk_reachable_inv: "desk_ok env \<Longrightarrow> desk_reachable env d \<Longrightarrow> desk_inv env d"
  by (rotate_tac 1, induction rule: desk_reachable.induct) (auto intro: desk_open_inv desk_step_inv)

text \<open>
  C29. Requests never exceed their slots and never idle. Whatever requests ask, finish or are aborted, in every
  group the number of requests that hold a slot is the \<open>active\<close> counter and never above the limit; while one
  waits, all slots are taken; and releasing twice is releasing once.
\<close>

theorem slots_bounded:
  assumes "desk_ok env" "desk_reachable env d"
  shows "card (holders (dk_groups d g)) = sl_active (dk_groups d g) \<and> card (holders (dk_groups d g)) \<le> de_limit env g \<and>
    (waiting (dk_groups d g) \<noteq> {} \<longrightarrow> card (holders (dk_groups d g)) = de_limit env g) \<and>
    release r (release r (dk_groups d g)) = release r (dk_groups d g)"
proof -
  have "desk_inv env d" by (rule desk_reachable_inv[OF assms])
  then have "slots_ok (dk_groups d g)" "sl_limit (dk_groups d g) = de_limit env g"
    by (simp_all add: desk_inv_def group.orderly_def)
  moreover have "r \<in> sl_released (release r s)" for s by (simp add: release_def Let_def split: list.splits)
  then have "release r (release r s) = release r s" for s by (simp add: release_def[of r "release r s"])
  ultimately show ?thesis by (auto simp: slots_ok_def waiting_def)
qed

text \<open>Whenever a request waits or works, one can go on: it can ask for the shared slot, or it has all it needs.\<close>

lemma somebody_goes_on:
  assumes "desk_ok env" "desk_inv env d" "dk_pc d r = AtProvider \<or> dk_pc d r = AtCli"
  obtains q where "has_provider env q d" "de_is_cli env (de_provider env q)" | q where "has_all env q d"
proof -
  have "group.orderly (de_provider env) CLI_SLOT_GROUP (dk_groups d) (dk_pc d)" using assms(2) by (simp add: desk_inv_def)
  then obtain q where "has_provider env q d \<or> (dk_pc d q = AtCli \<and> q \<in> holders (dk_groups d CLI_SLOT_GROUP))"
    using group.somebody_proceeds[of "de_provider env" CLI_SLOT_GROUP "dk_groups d" "dk_pc d" r] assms(1,3)
    unfolding has_provider_def desk_ok_def by blast
  moreover have "has_provider env q d \<and> de_is_cli env (de_provider env q) \<or> has_all env q d"
    using calculation assms(2) by (auto simp: has_all_def desk_inv_def)
  ultimately show ?thesis using that by blast
qed

text \<open>Once a request waits for the shared slot, one that has all its slots holds it.\<close>

lemma shared_slot_held:
  assumes "desk_ok env" "desk_inv env d" "dk_pc d r = AtCli"
  obtains q where "has_all env q d"
proof -
  have o: "group.orderly (de_provider env) CLI_SLOT_GROUP (dk_groups d) (dk_pc d)" using assms(2) by (simp add: desk_inv_def)
  have "de_provider env q \<noteq> CLI_SLOT_GROUP" for q using assms(1) by (simp add: desk_ok_def)
  from group.somebody_at_shared[OF o this assms(3)] obtain q where "dk_pc d q = AtCli" "q \<in> holders (dk_groups d CLI_SLOT_GROUP)"
    by blast
  then have "has_all env q d" using assms(2) by (simp add: has_all_def desk_inv_def)
  then show ?thesis using that by blast
qed

text \<open>
  C16. Waiters never deadlock. Every request takes the slot of its provider first and the shared slot second.
  So whenever a request waits or works, some request has all the slots it needs and will give them back, or it
  takes only one step to get there: a request that holds its provider's slot asks for the shared one.
\<close>

theorem slots_no_deadlock:
  assumes "desk_ok env" "desk_reachable env d" "dk_pc d r = AtProvider \<or> dk_pc d r = AtCli"
  shows "\<exists>d' q. (d' = d \<or> (\<exists>p. has_provider env p d \<and> d' = ask_cli env False p d \<and> desk_step env d d')) \<and> has_all env q d'"
proof -
  have inv: "desk_inv env d" by (rule desk_reachable_inv[OF assms(1,2)])
  show ?thesis
  proof (rule somebody_goes_on[OF assms(1) inv assms(3)])
    fix p
    assume p: "has_provider env p d" "de_is_cli env (de_provider env p)"
    let ?d = "ask_cli env False p d"
    have step: "desk_step env d ?d" by (rule asks_cli[OF p])
    have "dk_pc ?d p = AtCli" by (simp add: ask_cli_def acquire_def goto_def split: option.splits)
    from shared_slot_held[OF assms(1) desk_step_inv[OF assms(1) inv step] this] obtain q where "has_all env q ?d" by blast
    then show ?thesis using p(1) step by blast
  qed blast
qed

text \<open>Two requests of a command-line provider with one slot: the second waits until the first lets go.\<close>

definition demo_desk_env :: desk_env where
  "demo_desk_env = \<lparr>de_provider = \<lambda>_. ''claude'', de_is_cli = \<lambda>p. p = ''claude'', de_limit = \<lambda>_. 1\<rparr>"

definition demo_desk :: desk where
  "demo_desk = ask_cli demo_desk_env False 0 (ask_provider demo_desk_env False 1 (ask_provider demo_desk_env False 0 (open_desk demo_desk_env)))"

lemma demo_desk_facts: "desk_ok demo_desk_env" "desk_reachable demo_desk_env demo_desk"
  "waiting (dk_groups demo_desk ''claude'') = {1}" "dk_pc demo_desk 1 = AtProvider" "holders (dk_groups demo_desk ''claude'') = {0}"
proof -
  let ?env = "demo_desk_env"
  let ?d1 = "ask_provider ?env False 0 (open_desk ?env)"
  let ?d2 = "ask_provider ?env False 1 ?d1"
  have "desk_step ?env (open_desk ?env) ?d1" by (rule asks) (simp add: open_desk_def)
  moreover have "dk_pc ?d1 1 = Fresh" "has_provider ?env 0 ?d2" by code_simp+
  then have "desk_step ?env ?d1 ?d2" "desk_step ?env ?d2 (ask_cli ?env False 0 ?d2)"
    by (intro asks asks_cli; simp add: demo_desk_env_def)+
  ultimately show "desk_reachable ?env demo_desk" unfolding demo_desk_def by (meson opened stepped)
  show "desk_ok ?env" by (simp add: desk_ok_def demo_desk_env_def CLI_SLOT_GROUP_def)
  show "waiting (dk_groups demo_desk ''claude'') = {1}" "dk_pc demo_desk 1 = AtProvider" "holders (dk_groups demo_desk ''claude'') = {0}"
    by code_simp+
qed

theorem slots_bounded_witness: "waiting (dk_groups demo_desk ''claude'') = {1} \<and> card (holders (dk_groups demo_desk ''claude'')) = 1"
  using slots_bounded[OF demo_desk_facts(1,2), of "''claude''" 0] demo_desk_facts(3) by (simp add: demo_desk_env_def)

theorem slots_no_deadlock_witness:
  "dk_pc demo_desk 1 = AtProvider \<and> (\<exists>d' q. has_all demo_desk_env q d')"
  using slots_no_deadlock[OF demo_desk_facts(1,2), of 1] demo_desk_facts(4) by blast

end
