(* ===== verification/Tournament_View.thy ===== *)
theory Tournament_View
  imports Tournament_Props Provider_Slots
begin

text \<open>
  Which game a free worker takes (\<open>pickGameIndex\<close>, \<open>gameProviders\<close>, \<open>gameLoad\<close>) and what the page shows of a
  tournament (\<open>snapshot\<close>), in \<open>apps/api/src/chess/chess-tournament.ts\<close>. The counts \<open>runningGames\<close> are a
  function from providers to numbers.
\<close>

subsection \<open>Picking a game\<close>

definition SCAN_LIMIT :: nat where
  "SCAN_LIMIT = 400"

text \<open>The loop, from an index on, with the best index so far and its load (\<open>Infinity\<close> at first).\<close>

fun pick_from :: "real list \<Rightarrow> nat \<Rightarrow> nat \<Rightarrow> real option \<Rightarrow> nat" where
  "pick_from [] index best best_load = best"
| "pick_from (value # loads) index best best_load =
     (if best_load = None \<or> value < the best_load
      then if value \<le> 0 then index else pick_from loads (index + 1) index (Some value)
      else pick_from loads (index + 1) best best_load)"

definition pick_game_index :: "'a list \<Rightarrow> ('a \<Rightarrow> real) \<Rightarrow> nat \<Rightarrow> nat" where
  "pick_game_index games load scan_limit = pick_from (map load (take scan_limit games)) 0 0 None"

text \<open>\<open>gameProviders\<close> is a set of at most two names, in the order of insertion; empty names are dropped.\<close>

definition provider_of :: "contestant list \<Rightarrow> player option \<Rightarrow> string option" where
  "provider_of contestants name = (case name of None \<Rightarrow> None
     | Some k \<Rightarrow> if k = [] then None else map_option ct_providerId (List.find (\<lambda>c. ct_id c = k) contestants))"

definition game_providers :: "contestant list \<Rightarrow> chess_game \<Rightarrow> string list" where
  "game_providers contestants g = remdups (filter (\<lambda>p. p \<noteq> [])
     (map the (filter (\<lambda>p. p \<noteq> None) [provider_of contestants (Some (cg_white g)), provider_of contestants (cg_black g)])))"

definition request_limit :: "(string \<Rightarrow> nat option) \<Rightarrow> (string \<Rightarrow> nat option) \<Rightarrow> string \<Rightarrow> nat" where
  "request_limit configured builtin provider = dflt (configured provider) (dflt (builtin provider) FALLBACK_PROVIDER_LIMIT)"

definition game_load :: "(string \<Rightarrow> nat option) \<Rightarrow> (string \<Rightarrow> nat option) \<Rightarrow> (string \<Rightarrow> nat) \<Rightarrow> contestant list \<Rightarrow> chess_game \<Rightarrow> real" where
  "game_load configured builtin running contestants g = foldl (\<lambda>load provider.
     max load (real (running provider) / real (max 1 (request_limit configured builtin provider)))) 0 (game_providers contestants g)"

definition count_providers :: "string list \<Rightarrow> (nat \<Rightarrow> nat) \<Rightarrow> (string \<Rightarrow> nat) \<Rightarrow> (string \<Rightarrow> nat)" where
  "count_providers providers change running = (\<lambda>p. if p \<in> set providers then change (running p) else running p)"

subsection \<open>The snapshot\<close>

record game_summary =
  sm_id :: string
  sm_round :: nat
  sm_white :: player
  sm_black :: "player option"
  sm_status :: game_status
  sm_result :: "chess_result option"
  sm_reason :: "game_end_reason option"
  sm_fen :: string
  sm_thinking :: "chess_color option"
  sm_queued :: bool
  sm_strikes :: "chess_color \<Rightarrow> nat"
  sm_lastNote :: "string option"
  sm_startedAt :: "real option"
  sm_finishedAt :: "real option"
  sm_plies :: nat
  sm_recentSan :: "string list"
  sm_lastUci :: "string option"

definition summary :: "chess_game \<Rightarrow> game_summary" where
  "summary g = \<lparr>sm_id = cg_id g, sm_round = cg_round g, sm_white = cg_white g, sm_black = cg_black g, sm_status = cg_status g,
     sm_result = cg_result g, sm_reason = cg_reason g, sm_fen = cg_fen g, sm_thinking = cg_thinking g, sm_queued = cg_queued g,
     sm_strikes = cg_strikes g, sm_lastNote = cg_lastNote g, sm_startedAt = cg_startedAt g, sm_finishedAt = cg_finishedAt g,
     sm_plies = length (cg_san g), sm_recentSan = drop (length (cg_san g) - LIVE_SAN) (cg_san g),
     sm_lastUci = (if cg_uci g = [] then None else Some (last (cg_uci g)))\<rparr>"

record standing_view = standing_row +
  sv_rank :: nat
  sv_contestant :: contestant

definition RECENT_GAMES :: nat where
  "RECENT_GAMES = 30"

definition is_bye :: "chess_game \<Rightarrow> bool" where
  "is_bye g = (cg_black g = None)"

text \<open>ISO times compare like the times they name, and a missing time comes first.\<close>

definition compare_times :: "real option \<Rightarrow> real option \<Rightarrow> int" where
  "compare_times x y = (case (x, y) of (None, None) \<Rightarrow> 0 | (None, Some _) \<Rightarrow> -1 | (Some _, None) \<Rightarrow> 1 | (Some a, Some b) \<Rightarrow> difference a b)"

record totals =
  to_games :: nat
  to_finished :: nat
  to_running :: nat
  to_pending :: nat
  to_plies :: nat

record snapshot =
  sn_id :: string
  sn_status :: tournament_status
  sn_active :: bool
  sn_completedAt :: "real option"
  sn_settings :: tournament_settings
  sn_error :: "string option"
  sn_round :: nat
  sn_totalRounds :: nat
  sn_totals :: totals
  sn_standings :: "standing_view list"
  sn_liveGames :: "game_summary list"
  sn_recentGames :: "game_summary list"

definition in_status :: "game_status \<Rightarrow> chess_game list \<Rightarrow> chess_game list" where
  "in_status status games = filter (\<lambda>g. cg_status g = status) games"

definition shown_round :: "tournament \<Rightarrow> nat" where
  "shown_round t = (case map cg_round (filter (\<lambda>g. cg_status g \<noteq> GameFinished) (tn_games t)) of [] \<Rightarrow> tn_round t | r # rs \<Rightarrow> foldl min r rs)"

definition count_totals :: "chess_game list \<Rightarrow> totals" where
  "count_totals games = \<lparr>to_games = length (filter (\<lambda>g. \<not> is_bye g) games),
     to_finished = length (filter (\<lambda>g. \<not> is_bye g) (in_status GameFinished games)),
     to_running = length (in_status GameRunning games), to_pending = length (in_status GamePending games),
     to_plies = sum_list (map (\<lambda>g. length (cg_san g)) games)\<rparr>"

definition standing_views :: "contestant list \<Rightarrow> chess_standing list \<Rightarrow> standing_view list" where
  "standing_views contestants standings = concat (map (\<lambda>(index, s).
     case List.find (\<lambda>c. ct_id c = cs_id s) (rev contestants) of None \<Rightarrow> []
     | Some c \<Rightarrow> [standing_row.extend (standing_row.truncate s) (standing_view.fields (index + 1) c)])
     (zip [0..<length standings] (js_sort compare_standings standings)))"

definition recent_games :: "chess_game list \<Rightarrow> chess_game list" where
  "recent_games games = take RECENT_GAMES (js_sort (\<lambda>left right. compare_times (cg_finishedAt right) (cg_finishedAt left))
     (filter (\<lambda>g. \<not> is_bye g) (in_status GameFinished games)))"

definition snapshot_of :: "bool \<Rightarrow> tournament \<Rightarrow> snapshot" where
  "snapshot_of active t = \<lparr>sn_id = tn_id t, sn_status = tn_status t, sn_active = active, sn_completedAt = tn_completedAt t,
     sn_settings = tn_settings t, sn_error = tn_error t, sn_round = shown_round t, sn_totalRounds = tn_totalRounds t,
     sn_totals = count_totals (tn_games t), sn_standings = standing_views (tn_contestants t) (map snd (tn_standings t)),
     sn_liveGames = map summary (in_status GameRunning (tn_games t)), sn_recentGames = map summary (recent_games (tn_games t))\<rparr>"

definition runner_snapshot :: "runner \<Rightarrow> snapshot option" where
  "runner_snapshot r = map_option (snapshot_of (rn_active r)) (rn_state r)"

subsection \<open>The order of the table\<close>

text \<open>\<open>compareStandings\<close> compares like the keys of the router, so it keeps the contract of a comparison.\<close>

definition standing_key :: "chess_standing \<Rightarrow> sort_key" where
  "standing_key s = map KNum [- cs_points s, - cs_buchholz s, - real (cs_wins s), - cs_elo s, real (cs_fallbackMoves s), real (cs_seed s)]"

lemma chain_step: "first_difference (difference x y # ds) = (if x = y then first_difference ds else if x < y then -1 else 1)"
  by (simp add: difference_def)

lemma compare_by_key: "compare_standings left right = compare_keys (standing_key left) (standing_key right)"
  by (simp add: compare_standings_def chain_step standing_key_def del: first_difference.simps(2))

interpretation table: key_order compare_standings "\<lambda>_. True"
proof
  have shape: "has_shape (replicate 6 NumberKind) (standing_key s)" for s
    by (simp add: standing_key_def has_shape_def numeral_eq_Suc)
  fix a b c
  show "compare_standings a a = 0" by (simp add: compare_by_key)
  show "compare_standings b a < 0 \<longleftrightarrow> 0 < compare_standings a b"
    using compare_keys_swap[OF shape shape, of a b] by (simp add: compare_by_key)
  show "compare_standings a b \<le> 0 \<Longrightarrow> compare_standings b c \<le> 0 \<Longrightarrow> compare_standings a c \<le> 0"
    using compare_keys_trans[OF shape shape shape, of a b c] by (simp add: compare_by_key)
qed

subsection \<open>Picking\<close>

lemma pick_from_spec:
  assumes "\<forall>v \<in> set loads. 0 \<le> v"
  shows "(pick_from loads index best (Some b) = best \<and> (\<forall>v \<in> set loads. b \<le> v)) \<or>
    (\<exists>j < length loads. pick_from loads index best (Some b) = index + j \<and> loads ! j < b \<and>
      (\<forall>k < length loads. loads ! j \<le> loads ! k \<and> (k < j \<longrightarrow> loads ! j < loads ! k)))"
  using assms
proof (induction loads arbitrary: index best b)
  case (Cons v loads)
  show ?case
  proof (cases "v < b")
    case less: True
    show ?thesis
    proof (cases "v \<le> 0")
      case True
      then have "\<forall>k < length (v # loads). v \<le> (v # loads) ! k" using Cons.prems by (auto simp: nth_Cons' all_set_conv_all_nth)
      then show ?thesis using less True by (intro disjI2 exI[of _ 0]) simp
    next
      case False
      then have pick: "pick_from (v # loads) index best (Some b) = pick_from loads (index + 1) index (Some v)" using less by simp
      from Cons.IH[of "index + 1" index v] Cons.prems consider
        "pick_from loads (index + 1) index (Some v) = index" "\<forall>x \<in> set loads. v \<le> x"
        | j where "j < length loads" "pick_from loads (index + 1) index (Some v) = index + 1 + j" "loads ! j < v"
          "\<forall>k < length loads. loads ! j \<le> loads ! k \<and> (k < j \<longrightarrow> loads ! j < loads ! k)" by auto
      then show ?thesis
      proof cases
        case 1
        then have "\<forall>k < length (v # loads). v \<le> (v # loads) ! k" by (auto simp: nth_Cons' all_set_conv_all_nth)
        then show ?thesis using 1 pick less by (intro disjI2 exI[of _ 0]) simp
      next
        case (2 j)
        then show ?thesis using pick less by (intro disjI2 exI[of _ "Suc j"]) (auto simp: nth_Cons split: nat.splits)
      qed
    qed
  next
    case False
    then have pick: "pick_from (v # loads) index best (Some b) = pick_from loads (index + 1) best (Some b)" by simp
    from Cons.IH[of "index + 1" best b] Cons.prems consider
      "pick_from loads (index + 1) best (Some b) = best" "\<forall>x \<in> set loads. b \<le> x"
      | j where "j < length loads" "pick_from loads (index + 1) best (Some b) = index + 1 + j" "loads ! j < b"
        "\<forall>k < length loads. loads ! j \<le> loads ! k \<and> (k < j \<longrightarrow> loads ! j < loads ! k)" by auto
    then show ?thesis
    proof cases
      case 1
      then show ?thesis using pick False by (intro disjI1) auto
    next
      case (2 j)
      then show ?thesis using pick False by (intro disjI2 exI[of _ "Suc j"]) (auto simp: nth_Cons split: nat.splits)
    qed
  qed
qed simp

lemma load_nonneg: "0 \<le> game_load configured builtin running contestants g"
proof -
  have "x \<le> foldl (\<lambda>load provider. max load (f provider)) x ps" for x :: real and f and ps :: "string list"
    by (induction ps arbitrary: x) (auto intro: order_trans[OF max.cobounded1])
  then show ?thesis by (simp add: game_load_def)
qed

text \<open>
  A free worker takes the first of the games whose busiest provider is least busy, among the first
  \<open>scanLimit\<close> waiting games: no scanned game has a smaller load, and none before it has the same.
\<close>

theorem picks_least_busy:
  fixes configured builtin :: "string \<Rightarrow> nat option" and running :: "string \<Rightarrow> nat" and contestants :: "contestant list"
  assumes "games \<noteq> []" "0 < scan_limit"
  defines "load \<equiv> game_load configured builtin running contestants"
  defines "i \<equiv> pick_game_index games load scan_limit"
  shows "i < min scan_limit (length games) \<and> (\<forall>k < min scan_limit (length games).
    load (games ! i) \<le> load (games ! k) \<and> (k < i \<longrightarrow> load (games ! i) < load (games ! k)))"
proof -
  let ?loads = "map load (take scan_limit games)"
  obtain v vs where loads: "?loads = v # vs" using assms(1,2) by (cases games; cases scan_limit) auto
  have nonneg: "\<forall>x \<in> set ?loads. 0 \<le> x" using load_nonneg by (auto simp: load_def)
  have at: "?loads ! k = load (games ! k)" if "k < length ?loads" for k using that by simp
  have len: "length ?loads = min scan_limit (length games)" by simp
  have i: "i = pick_from ?loads 0 0 (Some (v + 1))" unfolding i_def pick_game_index_def loads by simp
  from pick_from_spec[OF nonneg, of 0 0 "v + 1"] i obtain j where j: "j < length ?loads" "i = j"
    "\<forall>k < length ?loads. ?loads ! j \<le> ?loads ! k \<and> (k < j \<longrightarrow> ?loads ! j < ?loads ! k)"
    using loads by fastforce
  have "load (games ! i) \<le> load (games ! k) \<and> (k < i \<longrightarrow> load (games ! i) < load (games ! k))" if "k < length ?loads" for k
    using j that at[of k] at[of j] by metis
  then show ?thesis using j(1,2) len by simp
qed

subsection \<open>The snapshot shows the run\<close>

lemma counts_add_up:
  assumes "\<forall>g \<in> set games. is_bye g \<longrightarrow> cg_status g = GameFinished"
  shows "to_games (count_totals games) = to_finished (count_totals games) + to_running (count_totals games) + to_pending (count_totals games)"
  using assms
proof (induction games)
  case (Cons g games)
  then show ?case by (cases "cg_status g") (auto simp: count_totals_def in_status_def)
qed (simp add: count_totals_def in_status_def)

text \<open>The running games of the list are those at the tables, in the order of the list.\<close>

lemma live_at_tables:
  assumes "tables_ok t tables"
  shows "in_status GameRunning (tn_games t) = map (\<lambda>i. tn_games t ! i) (sort (map fst tables))"
proof -
  let ?games = "tn_games t"
  let ?live = "filter (\<lambda>i. cg_status (?games ! i) = GameRunning) [0..<length ?games]"
  have running: "\<forall>i < length ?games. cg_status (?games ! i) = GameRunning \<longleftrightarrow> i \<in> fst ` set tables"
    and "\<forall>i \<in> fst ` set tables. i < length ?games" and dist: "distinct (map fst tables)" using assms by (auto simp: tables_ok_def)
  then have "set ?live = set (map fst tables)" by auto
  then have "?live = sort (map fst tables)"
    using dist by (intro sorted_distinct_set_unique) (simp_all add: sorted_filter[of id, simplified])
  moreover have "in_status GameRunning ?games = map (\<lambda>i. ?games ! i) ?live"
  proof -
    have "filter P (map f xs) = map f (filter (\<lambda>x. P (f x)) xs)" for P :: "chess_game \<Rightarrow> bool" and f :: "nat \<Rightarrow> chess_game" and xs
      by (simp add: filter_map comp_def)
    from this[of "\<lambda>g. cg_status g = GameRunning" "\<lambda>i. ?games ! i" "[0..<length ?games]"] show ?thesis
      by (simp add: in_status_def map_nth)
  qed
  ultimately show ?thesis by simp
qed

definition contestant_of :: "contestant list \<Rightarrow> chess_standing \<Rightarrow> contestant" where
  "contestant_of contestants s = the (List.find (\<lambda>c. ct_id c = cs_id s) (rev contestants))"

definition view_of :: "contestant list \<Rightarrow> nat \<Rightarrow> chess_standing \<Rightarrow> standing_view" where
  "view_of contestants index s = standing_row.extend (standing_row.truncate s) (standing_view.fields (index + 1) (contestant_of contestants s))"

lemma view_fields: "sv_rank (view_of contestants index s) = index + 1" "cs_id (view_of contestants index s) = cs_id s"
  "cs_points (view_of contestants index s) = cs_points s" "sv_contestant (view_of contestants index s) = contestant_of contestants s"
  by (simp_all add: view_of_def standing_row.defs standing_view.defs)

lemma found_contestant:
  assumes "cs_id s \<in> ct_id ` set contestants"
  shows "List.find (\<lambda>c. ct_id c = cs_id s) (rev contestants) = Some (contestant_of contestants s)" "ct_id (contestant_of contestants s) = cs_id s"
proof -
  obtain c where c: "List.find (\<lambda>c. ct_id c = cs_id s) (rev contestants) = Some c"
    using assms by (cases "List.find (\<lambda>c. ct_id c = cs_id s) (rev contestants)") (auto simp: find_None_iff)
  then show "List.find (\<lambda>c. ct_id c = cs_id s) (rev contestants) = Some (contestant_of contestants s)" by (simp add: contestant_of_def)
  show "ct_id (contestant_of contestants s) = cs_id s" using find_SomeD(1)[OF c] c by (simp add: contestant_of_def)
qed

lemma views_are:
  assumes "\<forall>s \<in> set standings. cs_id s \<in> ct_id ` set contestants"
  shows "standing_views contestants standings =
    map (\<lambda>(index, s). view_of contestants index s) (zip [0..<length standings] (js_sort compare_standings standings))"
proof -
  have "concat (map (\<lambda>(index, s). case List.find (\<lambda>c. ct_id c = cs_id s) (rev contestants) of None \<Rightarrow> []
       | Some c \<Rightarrow> [standing_row.extend (standing_row.truncate s) (standing_view.fields (index + 1) c)]) zs) =
      map (\<lambda>(index, s). view_of contestants index s) zs" if "\<forall>(i, s) \<in> set zs. cs_id s \<in> ct_id ` set contestants" for zs :: "(nat \<times> chess_standing) list"
    using that
  proof (induction zs)
    case (Cons z zs)
    obtain i s where z: "z = (i, s)" by (cases z)
    then have "cs_id s \<in> ct_id ` set contestants" using Cons.prems by simp
    from found_contestant(1)[OF this] show ?case using Cons by (simp add: z view_of_def)
  qed simp
  note each = this
  show ?thesis unfolding standing_views_def by (rule each) (use assms in \<open>auto dest!: set_zip_rightD\<close>)
qed

lemma views_facts:
  assumes "\<forall>s \<in> set standings. cs_id s \<in> ct_id ` set contestants"
  defines "vs \<equiv> standing_views contestants standings"
  shows "map sv_rank vs = [1..<Suc (length standings)]" "map cs_id vs = map cs_id (js_sort compare_standings standings)"
    "map cs_points vs = map cs_points (js_sort compare_standings standings)" "\<forall>v \<in> set vs. ct_id (sv_contestant v) = cs_id v"
proof -
  note vs = views_are[OF assms(1), folded vs_def]
  have "map (\<lambda>(index, s). f s) (zip [0..<length xs] xs) = map f xs" for f :: "chess_standing \<Rightarrow> 'x" and xs
    by (rule nth_equalityI) simp_all
  from this[of _ "js_sort compare_standings standings"]
  show "map cs_id vs = map cs_id (js_sort compare_standings standings)" "map cs_points vs = map cs_points (js_sort compare_standings standings)"
    by (simp_all add: vs view_fields comp_def case_prod_unfold)
  show "map sv_rank vs = [1..<Suc (length standings)]"
    by (rule nth_equalityI) (simp_all add: vs view_fields case_prod_unfold del: upt_Suc)
  show "\<forall>v \<in> set vs. ct_id (sv_contestant v) = cs_id v"
    using assms(1) by (auto simp: vs view_fields found_contestant dest!: set_zip_rightD)
qed

lemma table_falls: "sorted_wrt (\<lambda>a b. cs_points b \<le> cs_points a) (js_sort compare_standings standings)"
proof -
  have falls: "cs_points b \<le> cs_points a" if le: "compare_standings a b \<le> 0" for a b
  proof (rule ccontr)
    assume "\<not> cs_points b \<le> cs_points a"
    then have "compare_standings a b = 1" by (simp add: compare_standings_def chain_step del: first_difference.simps)
    then show False using le by simp
  qed
  then show ?thesis using sorted_wrt_mono_rel[OF _ table.sort_sorted[of standings]] by simp
qed

lemma shown_round_least: "g \<in> set (tn_games t) \<Longrightarrow> cg_status g \<noteq> GameFinished \<Longrightarrow> shown_round t \<le> cg_round g"
proof -
  have fold: "foldl min x ys \<le> (x :: nat) \<and> (\<forall>y \<in> set ys. foldl min x ys \<le> y)" for x ys
  proof (induction ys arbitrary: x)
    case (Cons y ys)
    then show ?case using Cons[of "min x y"] by auto
  qed simp
  assume "g \<in> set (tn_games t)" "cg_status g \<noteq> GameFinished"
  then have mem: "cg_round g \<in> set (map cg_round (filter (\<lambda>g. cg_status g \<noteq> GameFinished) (tn_games t)))" by simp
  then obtain x ys where rounds: "map cg_round (filter (\<lambda>g. cg_status g \<noteq> GameFinished) (tn_games t)) = x # ys"
    by (cases "map cg_round (filter (\<lambda>g. cg_status g \<noteq> GameFinished) (tn_games t))") auto
  from mem show ?thesis using fold[of x ys] unfolding shown_round_def rounds by auto
qed

text \<open>
  C38. The page shows the run. In every state reached without a call of \<open>start\<close>, \<open>resume\<close> or \<open>reset\<close> passing its
  guard while another one, a \<open>stop\<close> or the reading of the state file was under way, the snapshot's counts add up (the games, byes aside, are the finished,
  the running and the waiting ones), the live games listed are the games at the tables of the run and no others,
  in the order of the tournament's list, every
  contestant has one row of the table, with his own data, the ranks count from 1 and the points fall, at most
  thirty games are listed as recent, and no unfinished game is of a round before the one shown.
\<close>

theorem snapshot_shows_run:
  assumes "runner_reachable r" "\<not> rn_overlapped r" "rn_state r = Some t" "runner_snapshot r = Some s"
  shows "to_games (sn_totals s) = to_finished (sn_totals s) + to_running (sn_totals s) + to_pending (sn_totals s) \<and>
    sn_liveGames s = map (\<lambda>i. summary (tn_games t ! i)) (sort (map fst (rn_tables r))) \<and>
    map sv_rank (sn_standings s) = [1..<Suc (length (tn_contestants t))] \<and>
    mset (map cs_id (sn_standings s)) = mset (map ct_id (tn_contestants t)) \<and>
    (\<forall>v \<in> set (sn_standings s). ct_id (sv_contestant v) = cs_id v) \<and>
    sorted_wrt (\<ge>) (map cs_points (sn_standings s)) \<and> length (sn_recentGames s) \<le> 30 \<and>
    (\<forall>g \<in> set (tn_games t). cg_status g \<noteq> GameFinished \<longrightarrow> sn_round s \<le> cg_round g)"
proof -
  have s: "s = snapshot_of (rn_active r) t" using assms(3,4) by (simp add: runner_snapshot_def)
  have ok: "tournament_ok t" using reachable_sound[OF assms(1,2)] assms(3) by (simp add: tournament_sound_def)
  have tables: "tables_ok t (rn_tables r)" using runner_always_ok[OF assms(1)] assms(2,3) by (simp add: runner_inv_def runner_ok_def)
  let ?standings = "map snd (tn_standings t)"
  have keys: "map cs_id ?standings = map fst (tn_standings t)" using ok by (auto simp: tournament_ok_def standings_ok_def)
  have "map fst (tn_standings t) = map ct_id (tn_contestants t)" using ok by (simp only: tournament_ok_def entered_def)
  note ids = trans[OF keys this]
  then have "\<forall>x \<in> set ?standings. cs_id x \<in> ct_id ` set (tn_contestants t)" by (metis image_eqI list.set_map)
  note views = views_facts[OF this]
  have len: "length ?standings = length (tn_contestants t)" using arg_cong[OF ids, of length] by simp
  have "sn_standings s = standing_views (tn_contestants t) ?standings" by (simp add: s snapshot_of_def)
  then have "mset (map cs_id (sn_standings s)) = mset (map cs_id ?standings)" using views(2) mset_js_sort by (metis mset_map)
  then have ids': "mset (map cs_id (sn_standings s)) = mset (map ct_id (tn_contestants t))" unfolding ids .
  have "\<forall>g \<in> set (tn_games t). is_bye g \<longrightarrow> cg_status g = GameFinished"
    using ok by (auto simp: tournament_ok_def game_ok_def is_bye_def)
  note counts = counts_add_up[OF this]
  have "sorted_wrt (\<ge>) (map cs_points (js_sort compare_standings ?standings))" using table_falls by (simp add: sorted_wrt_map)
  then have falls: "sorted_wrt (\<ge>) (map cs_points (sn_standings s))" unfolding s snapshot_of_def using views(3) by simp
  have rank: "map sv_rank (sn_standings s) = [1..<Suc (length (tn_contestants t))]"
    unfolding s snapshot_of_def using views(1) len by (simp del: upt_Suc)
  have "sn_liveGames s = map (\<lambda>i. summary (tn_games t ! i)) (sort (map fst (rn_tables r)))"
    using live_at_tables[OF tables] by (simp add: s snapshot_of_def)
  moreover have "length (sn_recentGames s) \<le> 30" by (simp add: s snapshot_of_def recent_games_def RECENT_GAMES_def)
  moreover have "\<forall>v \<in> set (sn_standings s). ct_id (sv_contestant v) = cs_id v" unfolding s snapshot_of_def using views(4) by simp
  moreover have "\<forall>g \<in> set (tn_games t). cg_status g \<noteq> GameFinished \<longrightarrow> sn_round s \<le> cg_round g"
    using shown_round_least by (simp add: s snapshot_of_def)
  moreover have "to_games (sn_totals s) = to_finished (sn_totals s) + to_running (sn_totals s) + to_pending (sn_totals s)"
    using counts by (simp add: s snapshot_of_def)
  ultimately show ?thesis using rank ids' falls by (intro conjI)
qed

theorem snapshot_shows_run_witness:
  "\<exists>s. runner_snapshot demo_runner = Some s \<and> map sm_white (sn_liveGames s) = [cg_white (tn_games demo_seated ! 0)] \<and>
    map sv_rank (sn_standings s) = [1, 2, 3] \<and> sorted_wrt (\<ge>) (map cs_points (sn_standings s))"
proof -
  obtain s where s: "runner_snapshot demo_runner = Some s" by (simp add: runner_snapshot_def demo_state)
  note shown = snapshot_shows_run[OF demo_reachable demo_alone(1) demo_state s]
  have "length (tn_contestants demo_seated) = 3" by code_simp
  then have "map sv_rank (sn_standings s) = [1, 2, 3]" using shown by (simp add: upt_rec)
  moreover have "map sm_white (sn_liveGames s) = [cg_white (tn_games demo_seated ! 0)]" using shown by (simp add: demo_alone summary_def)
  ultimately show ?thesis using s shown by (intro exI[of _ s] conjI) simp_all
qed

theorem picks_least_busy_witness:
  "pick_game_index (tn_games demo_paired) (game_load (\<lambda>_. None) (\<lambda>_. None) (\<lambda>_. 1) demo_field) SCAN_LIMIT = 0 \<and>
   game_load (\<lambda>_. None) (\<lambda>_. None) (\<lambda>_. 1) demo_field (tn_games demo_paired ! 0) \<le>
     game_load (\<lambda>_. None) (\<lambda>_. None) (\<lambda>_. 1) demo_field (tn_games demo_paired ! 1)"
proof
  show pick: "pick_game_index (tn_games demo_paired) (game_load (\<lambda>_. None) (\<lambda>_. None) (\<lambda>_. 1) demo_field) SCAN_LIMIT = 0" by code_simp
  have "length (tn_games demo_paired) = 2" "tn_games demo_paired \<noteq> []" "0 < SCAN_LIMIT" by code_simp+
  then show "game_load (\<lambda>_. None) (\<lambda>_. None) (\<lambda>_. 1) demo_field (tn_games demo_paired ! 0) \<le>
     game_load (\<lambda>_. None) (\<lambda>_. None) (\<lambda>_. 1) demo_field (tn_games demo_paired ! 1)"
    using picks_least_busy[of "tn_games demo_paired" SCAN_LIMIT "\<lambda>_. None" "\<lambda>_. None" "\<lambda>_. 1" demo_field] pick
    by (simp add: SCAN_LIMIT_def)
qed

end
