(* ===== verification/Setup_Catalog.thy ===== *)
theory Setup_Catalog
  imports Prelude
begin

text \<open>
  The catalogue of the first-run setup (\<open>packages/contracts/src/setup-catalog.ts\<close>): the features an
  owner may choose, what each of them needs, and the resolution of a selection to the features that
  can really be prepared.

  \<^item> A feature is named by a string \<open>kind:name\<close>. The record keeps the fields the program decides with
    (kind, required, dependencies, cost); the texts shown to the user, the audiences and the settings
    bindings are left out.
  \<^item> \<open>availability\<close> is what the server measured, a partial map; a missing entry counts as
    \<open>UNAVAILABLE\<close>, as in the source.
  \<^item> \<open>visit\<close> is the closure of the same name inside \<open>resolveSetupSelection\<close>. The sets it mutates are
    the record \<open>walk\<close>; the set \<open>visiting\<close>, which an entry joins before the loop over its
    dependencies and leaves after it, is an argument. An exception leaves the whole call, so the
    walk of a failed visit is not returned.
  \<^item> The specification is \<open>usable\<close> (the feature and everything it needs is available) and
    \<open>reached\<close> (a requested feature or a dependency of an available reached one).
\<close>

subsection \<open>Features\<close>

type_synonym feature_id = string

datatype setup_availability = AVAILABLE | INSTALLABLE | UNAVAILABLE | FORBIDDEN

datatype setup_cost = FREE | PROVIDER_BILLED | LOCAL_RESOURCES | UNKNOWN_COST

record setup_feature =
  sf_id :: feature_id
  sf_kind :: string
  sf_required :: bool
  sf_dependencies :: "feature_id list"
  sf_cost :: setup_cost

type_synonym availability = "feature_id \<rightharpoonup> setup_availability"

datatype selection_error =
    DuplicateFeature feature_id
  | UnknownFeature feature_id
  | UnknownDependency feature_id
  | DependencyCycle feature_id
  | UnknownAgent feature_id

definition feature :: "feature_id \<Rightarrow> bool \<Rightarrow> feature_id list \<Rightarrow> setup_cost \<Rightarrow> setup_feature" where
  "feature i required deps cost =
     \<lparr>sf_id = i, sf_kind = takeWhile (\<lambda>c. c \<noteq> CHR '':'') i, sf_required = required,
      sf_dependencies = deps, sf_cost = cost\<rparr>"

definition CLI_TYPE_IDS :: "string list" where
  "CLI_TYPE_IDS = [''opencode'', ''codex'', ''claude'', ''gemini'', ''autohand'', ''qwen'',
     ''kimi'', ''grok'', ''deepseek'', ''cursor'', ''copilot'', ''hermes'',
     ''omp'', ''qoder'', ''muse'', ''droid'']"

definition setup_agents :: "setup_feature list" where
  "setup_agents = map (\<lambda>cli. feature (''agent:'' @ cli) (cli = ''opencode'') []
       (if cli = ''opencode'' then FREE else UNKNOWN_COST)) CLI_TYPE_IDS"

definition workspace :: "setup_feature list" where
  "workspace = [
    feature ''pane:chat'' True [''agent:opencode''] FREE,
    feature ''dock:rooms'' True [] FREE,
    feature ''dock:tasks'' True [] FREE,
    feature ''dock:agent-files'' True [] FREE,
    feature ''dock:settings'' True [] FREE,
    feature ''pane:browser'' False [] FREE,
    feature ''dock:clipboard'' False [] FREE,
    feature ''dock:links'' False [] FREE,
    feature ''dock:agent-sessions'' False [] FREE,
    feature ''widget:clock'' False [] FREE,
    feature ''widget:countdown-timer'' False [] FREE,
    feature ''dock:media'' False [] FREE,
    feature ''pane:youtube'' False [] FREE,
    feature ''utility:snip'' False [] FREE,
    feature ''pane:files'' False [] FREE,
    feature ''pane:demos'' False [] LOCAL_RESOURCES,
    feature ''dock:source-control'' False [] FREE,
    feature ''dock:cli'' False [] FREE,
    feature ''utility:worktrees'' False [''dock:source-control''] FREE,
    feature ''dock:room-agent'' False [''agent:opencode''] FREE,
    feature ''dock:shared-chat'' False [] FREE,
    feature ''dock:streaming'' False [] UNKNOWN_COST,
    feature ''pane:databases'' False [] FREE,
    feature ''pane:vnc'' False [] FREE,
    feature ''pane:live'' False [] PROVIDER_BILLED,
    feature ''pane:harness'' False [] FREE,
    feature ''widget:pushup-reminder'' False [] FREE,
    feature ''widget:spaceapp-promo'' False [] FREE,
    feature ''widget:ai-quota'' False [] FREE,
    feature ''widget:streaming-metrics'' False [''dock:streaming''] FREE,
    feature ''utility:asteroids'' False [] FREE,
    feature ''utility:osk'' False [] FREE,
    feature ''utility:system-health'' False [] FREE]"

definition SETUP_CATALOG :: "setup_feature list" where
  "SETUP_CATALOG = setup_agents @ workspace"

subsection \<open>Resolution of a selection\<close>

type_synonym feature_index = "(feature_id \<times> setup_feature) list"

fun index_entries :: "setup_feature list \<Rightarrow> feature_index \<Rightarrow> selection_error + feature_index" where
  "index_entries [] byId = Inr byId"
| "index_entries (entry # rest) byId =
     (if map_of byId (sf_id entry) \<noteq> None then Inl (DuplicateFeature (sf_id entry))
      else index_entries rest (byId @ [(sf_id entry, entry)]))"

definition catalogIndex :: "setup_feature list \<Rightarrow> selection_error + feature_index" where
  "catalogIndex catalog = index_entries catalog []"

record walk =
  w_effective :: "feature_id set"
  w_issues :: "feature_id \<rightharpoonup> setup_availability"
  w_visited :: "feature_id \<rightharpoonup> bool"

definition current_availability :: "availability \<Rightarrow> feature_id \<Rightarrow> setup_availability" where
  "current_availability avail i = (case avail i of None \<Rightarrow> UNAVAILABLE | Some a \<Rightarrow> a)"

definition blocked :: "availability \<Rightarrow> feature_id \<Rightarrow> bool" where
  "blocked avail i \<longleftrightarrow>
     current_availability avail i = UNAVAILABLE \<or> current_availability avail i = FORBIDDEN"

function visit :: "feature_index \<Rightarrow> availability \<Rightarrow> feature_id set \<Rightarrow> feature_id \<Rightarrow> walk
    \<Rightarrow> selection_error + (bool \<times> walk)"
  and visit_all :: "feature_index \<Rightarrow> availability \<Rightarrow> feature_id set \<Rightarrow> feature_id list \<Rightarrow> bool \<Rightarrow> walk
    \<Rightarrow> selection_error + (bool \<times> walk)" where
  "visit byId avail visiting i w =
     (if i \<in> visiting then Inl (DependencyCycle i)
      else case w_visited w i of Some previous \<Rightarrow> Inr (previous, w)
      | None \<Rightarrow>
          (case map_of byId i of None \<Rightarrow> Inl (UnknownDependency i)
           | Some entry \<Rightarrow>
               (if blocked avail i
                then Inr (False, w\<lparr>w_issues := (w_issues w)(i \<mapsto> current_availability avail i),
                                   w_visited := (w_visited w)(i \<mapsto> False)\<rparr>)
                else case visit_all byId avail (insert i visiting) (sf_dependencies entry) True w of
                    Inl e \<Rightarrow> Inl e
                  | Inr (ready, w') \<Rightarrow>
                      Inr (ready,
                        w'\<lparr>w_effective := (if ready then insert i (w_effective w') else w_effective w'),
                           w_visited := (w_visited w')(i \<mapsto> ready)\<rparr>))))"
| "visit_all byId avail visiting [] ready w = Inr (ready, w)"
| "visit_all byId avail visiting (d # ds) ready w =
     (case visit byId avail visiting d w of
        Inl e \<Rightarrow> Inl e
      | Inr (b, w') \<Rightarrow> visit_all byId avail visiting ds (if b then ready else False) w')"
  by pat_completeness auto

definition unvisited :: "feature_index \<Rightarrow> feature_id set \<Rightarrow> nat" where
  "unvisited byId visiting = length (filter (\<lambda>e. fst e \<notin> visiting) byId)"

lemma filter_length_le:
  "\<forall>x \<in> set xs. Q x \<longrightarrow> P x \<Longrightarrow> length (filter Q xs) \<le> length (filter P xs)"
  by (induction xs) auto

lemma filter_length_less:
  "\<forall>x \<in> set xs. Q x \<longrightarrow> P x \<Longrightarrow> y \<in> set xs \<Longrightarrow> P y \<Longrightarrow> \<not> Q y \<Longrightarrow>
   length (filter Q xs) < length (filter P xs)"
  by (induction xs) (auto simp: less_Suc_eq_le filter_length_le)

lemma unvisited_insert:
  assumes "map_of byId i = Some entry" and "i \<notin> visiting"
  shows "unvisited byId (insert i visiting) < unvisited byId visiting"
  unfolding unvisited_def
  by (rule filter_length_less[where y = "(i, entry)"]) (use assms map_of_SomeD in auto)

termination visit
  by (relation "inv_image (less_than <*lex*> less_than)
        (\<lambda>x. case x of Inl (byId, avail, visiting, i, w) \<Rightarrow> (unvisited byId visiting, 0)
                     | Inr (byId, avail, visiting, ds, ready, w) \<Rightarrow> (unvisited byId visiting, Suc (length ds)))")
     (auto simp: unvisited_insert)

declare visit.simps [simp del]

record resolution =
  r_requestedIds :: "feature_id list"
  r_effectiveIds :: "feature_id list"
  r_dependencyIds :: "feature_id list"
  r_issues :: "(feature_id \<times> setup_availability) list"

fun visit_requested :: "feature_index \<Rightarrow> availability \<Rightarrow> feature_id list \<Rightarrow> setup_feature list \<Rightarrow> walk
    \<Rightarrow> selection_error + walk" where
  "visit_requested byId avail requested [] w = Inr w"
| "visit_requested byId avail requested (entry # rest) w =
     (if sf_id entry \<in> set requested
      then case visit byId avail {} (sf_id entry) w of
          Inl e \<Rightarrow> Inl e
        | Inr (_, w') \<Rightarrow> visit_requested byId avail requested rest w'
      else visit_requested byId avail requested rest w)"

definition resolveSetupSelection :: "feature_id list \<Rightarrow> availability \<Rightarrow> setup_feature list
    \<Rightarrow> selection_error + resolution" where
  "resolveSetupSelection requestedIds avail catalog =
     (case catalogIndex catalog of
        Inl e \<Rightarrow> Inl e
      | Inr byId \<Rightarrow>
          (case List.find (\<lambda>i. map_of byId i = None) requestedIds of
             Some i \<Rightarrow> Inl (UnknownFeature i)
           | None \<Rightarrow>
               (case visit_requested byId avail requestedIds catalog
                       \<lparr>w_effective = {}, w_issues = Map.empty, w_visited = Map.empty\<rparr> of
                  Inl e \<Rightarrow> Inl e
                | Inr w \<Rightarrow>
                    (let ordered = map sf_id catalog in
                     Inr \<lparr>r_requestedIds = filter (\<lambda>i. i \<in> set requestedIds) ordered,
                          r_effectiveIds = filter (\<lambda>i. i \<in> w_effective w) ordered,
                          r_dependencyIds =
                            filter (\<lambda>i. i \<in> w_effective w \<and> i \<notin> set requestedIds) ordered,
                          r_issues = map (\<lambda>i. (i, the (w_issues w i)))
                            (filter (\<lambda>i. w_issues w i \<noteq> None) ordered)\<rparr>))))"

definition structural_availability :: availability where
  "structural_availability i =
     (if i \<in> set (map sf_id SETUP_CATALOG) then Some AVAILABLE else None)"

definition getSetupDependencyClosure :: "feature_id list \<Rightarrow> selection_error + feature_id list" where
  "getSetupDependencyClosure requestedIds =
     (case resolveSetupSelection requestedIds structural_availability SETUP_CATALOG of
        Inl e \<Rightarrow> Inl e
      | Inr r \<Rightarrow> Inr (r_effectiveIds r))"

fun removeSetupFeature :: "feature_id list \<Rightarrow> feature_id \<Rightarrow> selection_error + feature_id list" where
  "removeSetupFeature [] featureId = Inr []"
| "removeSetupFeature (i # rest) featureId =
     (case getSetupDependencyClosure [i] of
        Inl e \<Rightarrow> Inl e
      | Inr closure \<Rightarrow>
          (case removeSetupFeature rest featureId of
             Inl e \<Rightarrow> Inl e
           | Inr kept \<Rightarrow> Inr (if featureId \<in> set closure then kept else i # kept)))"

datatype setup_persona = Everyday | Creator | Developer
datatype setup_level = Minimal | Balanced | Full

definition essentials :: "feature_id list" where
  "essentials = [''agent:opencode'', ''pane:chat'', ''dock:rooms'', ''dock:tasks'',
     ''dock:agent-files'', ''dock:settings'']"

definition balanced_features :: "feature_id list" where
  "balanced_features = [''pane:browser'', ''dock:clipboard'', ''dock:links'', ''dock:agent-sessions'',
     ''widget:clock'', ''widget:countdown-timer'']"

definition creator_features :: "feature_id list" where
  "creator_features = [''dock:media'', ''pane:youtube'', ''utility:snip'']"

definition developer_features :: "feature_id list" where
  "developer_features = [''pane:files'', ''pane:demos'', ''dock:source-control'', ''dock:cli'',
     ''utility:worktrees'']"

definition eligible :: "availability \<Rightarrow> feature_id \<Rightarrow> bool" where
  "eligible avail i \<longleftrightarrow> avail i = Some AVAILABLE \<or> avail i = Some INSTALLABLE"

definition add_id :: "feature_id \<Rightarrow> feature_id list \<Rightarrow> feature_id list" where
  "add_id i ids = (if i \<in> set ids then ids else ids @ [i])"

fun add_agents :: "feature_index \<Rightarrow> feature_id list \<Rightarrow> feature_id list
    \<Rightarrow> selection_error + feature_id list" where
  "add_agents byId [] requested = Inr requested"
| "add_agents byId (i # rest) requested =
     (case map_of byId i of
        None \<Rightarrow> Inl (UnknownAgent i)
      | Some entry \<Rightarrow>
          (if sf_kind entry \<noteq> ''agent'' then Inl (UnknownAgent i)
           else add_agents byId rest (add_id i requested)))"

definition buildSetupSelection :: "setup_persona \<Rightarrow> setup_level \<Rightarrow> availability \<Rightarrow> feature_id list
    \<Rightarrow> selection_error + resolution" where
  "buildSetupSelection persona level avail selectedAgents =
     (let extra = (case persona of Creator \<Rightarrow> creator_features | Developer \<Rightarrow> developer_features
                   | Everyday \<Rightarrow> []);
          requested = (case level of
             Minimal \<Rightarrow> essentials
           | Balanced \<Rightarrow> fold add_id (filter (eligible avail) (balanced_features @ extra)) essentials
           | Full \<Rightarrow> fold add_id (map sf_id (filter
               (\<lambda>entry. sf_kind entry \<noteq> ''agent'' \<and> eligible avail (sf_id entry)) SETUP_CATALOG))
               essentials)
      in case catalogIndex SETUP_CATALOG of
           Inl e \<Rightarrow> Inl e
         | Inr byId \<Rightarrow>
             (case add_agents byId selectedAgents requested of
                Inl e \<Rightarrow> Inl e
              | Inr ids \<Rightarrow> resolveSetupSelection ids avail SETUP_CATALOG))"

subsection \<open>What a resolution means\<close>

text \<open>A feature is \<open>usable\<close> when it and everything it needs is in the catalogue and available.
  The predicate is the least one, so a feature that needs itself is not usable.\<close>

inductive usable :: "feature_index \<Rightarrow> availability \<Rightarrow> feature_id \<Rightarrow> bool"
  for byId avail where
  usable: "map_of byId i = Some entry \<Longrightarrow> \<not> blocked avail i \<Longrightarrow>
    \<forall>d \<in> set (sf_dependencies entry). usable byId avail d \<Longrightarrow> usable byId avail i"

inductive_simps usable_iff: "usable byId avail i"

text \<open>A feature is \<open>reached\<close> when it was requested, or when an available reached feature needs it.\<close>

inductive reached :: "feature_index \<Rightarrow> availability \<Rightarrow> feature_id list \<Rightarrow> feature_id \<Rightarrow> bool"
  for byId avail requested where
  asked: "i \<in> set requested \<Longrightarrow> reached byId avail requested i"
| needed: "reached byId avail requested i \<Longrightarrow> \<not> blocked avail i \<Longrightarrow> map_of byId i = Some entry \<Longrightarrow>
    d \<in> set (sf_dependencies entry) \<Longrightarrow> reached byId avail requested d"

text \<open>The invariant of the walk: what it has visited was reached, its verdicts are the specification's,
  and outside the entries it is visiting it is closed under dependencies.\<close>

definition walk_ok :: "feature_index \<Rightarrow> availability \<Rightarrow> feature_id list \<Rightarrow> walk \<Rightarrow> bool" where
  "walk_ok byId avail requested w \<longleftrightarrow>
     (\<forall>i b. w_visited w i = Some b \<longrightarrow> reached byId avail requested i \<and> b = usable byId avail i \<and>
        (\<not> blocked avail i \<longrightarrow> (\<forall>entry. map_of byId i = Some entry \<longrightarrow>
           (\<forall>d \<in> set (sf_dependencies entry). w_visited w d \<noteq> None)))) \<and>
     w_effective w = {i. w_visited w i = Some True} \<and>
     (\<forall>i. w_issues w i = (if w_visited w i \<noteq> None \<and> blocked avail i
        then Some (current_availability avail i) else None))"

lemma walk_ok_empty:
  "walk_ok byId avail requested \<lparr>w_effective = {}, w_issues = Map.empty, w_visited = Map.empty\<rparr>"
  by (simp add: walk_ok_def)

lemma walk_ok_visited:
  "walk_ok byId avail requested w \<Longrightarrow> w_visited w i = Some b \<Longrightarrow> b = usable byId avail i"
  by (simp add: walk_ok_def)

lemma walk_ok_blocked:
  assumes "walk_ok byId avail requested w" and "reached byId avail requested i"
    and "w_visited w i = None" and "blocked avail i"
  shows "walk_ok byId avail requested
    (w\<lparr>w_issues := (w_issues w)(i \<mapsto> current_availability avail i), w_visited := (w_visited w)(i \<mapsto> False)\<rparr>)"
proof -
  have "\<not> usable byId avail i" using assms(4) by (auto elim: usable.cases)
  then show ?thesis using assms by (auto simp: walk_ok_def)
qed

lemma walk_ok_settled:
  assumes ok: "walk_ok byId avail requested w" and r: "reached byId avail requested i"
    and new: "w_visited w i = None" and free: "\<not> blocked avail i" and entry: "map_of byId i = Some entry"
    and deps: "\<forall>d \<in> set (sf_dependencies entry). w_visited w d \<noteq> None"
    and ready: "ready = (\<forall>d \<in> set (sf_dependencies entry). usable byId avail d)"
  shows "walk_ok byId avail requested
    (w\<lparr>w_effective := (if ready then insert i (w_effective w) else w_effective w),
       w_visited := (w_visited w)(i \<mapsto> ready)\<rparr>)"
proof -
  have u: "ready = usable byId avail i" using free entry ready by (subst usable_iff) simp
  then show ?thesis using ok r new free entry deps by (auto simp: walk_ok_def)
qed

text \<open>A visit that returns has visited its feature, kept what was visited before and the invariant,
  and answers whether the feature is usable; an entry that is being visited is not settled inside.\<close>

lemma visit_walk:
  "walk_ok byId avail requested w \<Longrightarrow> reached byId avail requested i \<Longrightarrow>
     (\<forall>v \<in> visiting. w_visited w v = None) \<Longrightarrow>
     visit byId avail visiting i w = Inr (b, w') \<Longrightarrow>
     walk_ok byId avail requested w' \<and> w_visited w \<subseteq>\<^sub>m w_visited w' \<and> w_visited w' i = Some b \<and>
     (\<forall>v \<in> visiting. w_visited w' v = None)"
  "walk_ok byId avail requested w \<Longrightarrow> \<forall>d \<in> set ds. reached byId avail requested d \<Longrightarrow>
     (\<forall>v \<in> visiting. w_visited w v = None) \<Longrightarrow>
     visit_all byId avail visiting ds ready w = Inr (b, w') \<Longrightarrow>
     walk_ok byId avail requested w' \<and> w_visited w \<subseteq>\<^sub>m w_visited w' \<and>
     (\<forall>d \<in> set ds. w_visited w' d \<noteq> None) \<and>
     b = (ready \<and> (\<forall>d \<in> set ds. usable byId avail d)) \<and>
     (\<forall>v \<in> visiting. w_visited w' v = None)"
proof (induction byId avail visiting i w and byId avail visiting ds ready w
    arbitrary: b w' and b w' rule: visit_visit_all.induct)
  case (1 byId avail visiting i w)
  have fresh: "i \<notin> visiting" using 1(5) by (auto simp: visit.simps[of byId] split: if_splits)
  show ?case
  proof (cases "w_visited w i")
    case (Some previous)
    then show ?thesis using 1(2-5) fresh by (simp add: visit.simps[of byId])
  next
    case None
    then obtain entry where entry: "map_of byId i = Some entry"
      using 1(5) fresh by (auto simp: visit.simps[of byId] split: option.splits)
    show ?thesis
    proof (cases "blocked avail i")
      case True
      then have w': "b = False" "w' = w\<lparr>w_issues := (w_issues w)(i \<mapsto> current_availability avail i),
          w_visited := (w_visited w)(i \<mapsto> False)\<rparr>"
        using 1(5) fresh None entry by (simp_all add: visit.simps[of byId])
      show ?thesis using walk_ok_blocked[OF 1(2,3) None True] 1(4) fresh None
        by (auto simp: w' map_le_def)
    next
      case False
      then obtain w1 where v: "visit_all byId avail (insert i visiting) (sf_dependencies entry) True w = Inr (b, w1)"
        and w': "w' = w1\<lparr>w_effective := (if b then insert i (w_effective w1) else w_effective w1),
           w_visited := (w_visited w1)(i \<mapsto> b)\<rparr>"
        using 1(5) fresh None entry
        by (auto simp: visit.simps[of byId] split: sum.splits)
      have deps: "\<forall>d \<in> set (sf_dependencies entry). reached byId avail requested d"
        using 1(3) False entry by (auto intro: reached.needed)
      have IH: "walk_ok byId avail requested w1 \<and> w_visited w \<subseteq>\<^sub>m w_visited w1 \<and>
          (\<forall>d \<in> set (sf_dependencies entry). w_visited w1 d \<noteq> None) \<and>
          b = (\<forall>d \<in> set (sf_dependencies entry). usable byId avail d) \<and>
          (\<forall>v \<in> insert i visiting. w_visited w1 v = None)"
        using 1(1)[OF fresh None entry False 1(2) deps _ v] 1(4) None by simp
      then have "walk_ok byId avail requested w'"
        unfolding w' by (intro walk_ok_settled[OF _ 1(3) _ False entry]) auto
      then show ?thesis using IH fresh None by (auto simp: w' map_le_def)
    qed
  qed
next
  case (2 byId avail visiting ready w)
  then show ?case by simp
next
  case (3 byId avail visiting d ds ready w)
  obtain b1 w1 where v: "visit byId avail visiting d w = Inr (b1, w1)"
    and vs: "visit_all byId avail visiting ds (if b1 then ready else False) w1 = Inr (b, w')"
    using 3(6) by (auto split: sum.splits)
  have A: "walk_ok byId avail requested w1 \<and> w_visited w \<subseteq>\<^sub>m w_visited w1 \<and> w_visited w1 d = Some b1 \<and>
      (\<forall>v \<in> visiting. w_visited w1 v = None)"
    using 3(1)[OF 3(3) _ 3(5) v] 3(4) by simp
  have B: "walk_ok byId avail requested w' \<and> w_visited w1 \<subseteq>\<^sub>m w_visited w' \<and>
     (\<forall>d \<in> set ds. w_visited w' d \<noteq> None) \<and>
     b = ((if b1 then ready else False) \<and> (\<forall>d \<in> set ds. usable byId avail d)) \<and>
     (\<forall>v \<in> visiting. w_visited w' v = None)"
    using 3(2)[OF v refl _ _ _ vs] A 3(4) by simp
  have "w_visited w' d = Some b1" using A B by (metis domI map_le_def)
  moreover have "b1 = usable byId avail d" using A walk_ok_visited by blast
  moreover have "w_visited w \<subseteq>\<^sub>m w_visited w'" using A B map_le_trans by blast
  ultimately show ?case using B by auto
qed

lemma visit_requested_walk:
  "walk_ok byId avail requested w \<Longrightarrow> visit_requested byId avail requested entries w = Inr w' \<Longrightarrow>
   walk_ok byId avail requested w' \<and> w_visited w \<subseteq>\<^sub>m w_visited w' \<and>
   (\<forall>entry \<in> set entries. sf_id entry \<in> set requested \<longrightarrow> w_visited w' (sf_id entry) \<noteq> None)"
proof (induction byId avail requested entries w rule: visit_requested.induct)
  case (2 byId avail requested entry rest w)
  show ?case
  proof (cases "sf_id entry \<in> set requested")
    case True
    then obtain b w1 where v: "visit byId avail {} (sf_id entry) w = Inr (b, w1)"
      and vs: "visit_requested byId avail requested rest w1 = Inr w'"
      using 2(4) by (auto split: sum.splits)
    have A: "walk_ok byId avail requested w1 \<and> w_visited w \<subseteq>\<^sub>m w_visited w1 \<and>
        w_visited w1 (sf_id entry) = Some b"
      using visit_walk(1)[OF 2(3) reached.asked[OF True] _ v] by simp
    have B: "walk_ok byId avail requested w' \<and> w_visited w1 \<subseteq>\<^sub>m w_visited w' \<and>
       (\<forall>entry \<in> set rest. sf_id entry \<in> set requested \<longrightarrow> w_visited w' (sf_id entry) \<noteq> None)"
      using 2(1)[OF True v refl _ vs] A by simp
    have "w_visited w' (sf_id entry) = Some b" using A B by (metis domI map_le_def)
    then show ?thesis using A B map_le_trans by auto
  next
    case False
    then show ?thesis using 2 by simp
  qed
qed simp

text \<open>Everything reached has been visited once the requested features have.\<close>

lemma reached_visited:
  assumes ok: "walk_ok byId avail requested w" and all: "\<forall>i \<in> set requested. w_visited w i \<noteq> None"
  shows "reached byId avail requested i \<longleftrightarrow> w_visited w i \<noteq> None"
proof
  show "reached byId avail requested i \<Longrightarrow> w_visited w i \<noteq> None"
    by (induction rule: reached.induct) (use ok all in \<open>auto simp: walk_ok_def\<close>)
  show "w_visited w i \<noteq> None \<Longrightarrow> reached byId avail requested i"
    using ok by (auto simp: walk_ok_def)
qed

lemma index_entries_Inr:
  "index_entries entries byId = Inr byId' \<Longrightarrow>
   byId' = byId @ map (\<lambda>entry. (sf_id entry, entry)) entries \<and>
   (\<forall>entry \<in> set entries. map_of byId (sf_id entry) = None)"
  by (induction entries byId rule: index_entries.induct) (auto split: if_splits simp: map_of_append map_add_None)

lemma catalogIndex_Inr:
  "catalogIndex catalog = Inr byId \<Longrightarrow> byId = map (\<lambda>entry. (sf_id entry, entry)) catalog"
  using index_entries_Inr[of catalog "[]" byId] by (simp add: catalogIndex_def)

text \<open>What the resolution of a selection is, in terms of the specification.\<close>

definition resolution_spec :: "feature_index \<Rightarrow> availability \<Rightarrow> feature_id list \<Rightarrow> setup_feature list
    \<Rightarrow> resolution \<Rightarrow> bool" where
  "resolution_spec byId avail requested catalog r \<longleftrightarrow>
     (let ordered = map sf_id catalog in
      set requested \<subseteq> set ordered \<and>
      r_requestedIds r = filter (\<lambda>i. i \<in> set requested) ordered \<and>
      r_effectiveIds r = filter (\<lambda>i. reached byId avail requested i \<and> usable byId avail i) ordered \<and>
      r_dependencyIds r = filter (\<lambda>i. i \<notin> set requested) (r_effectiveIds r) \<and>
      r_issues r = map (\<lambda>i. (i, current_availability avail i))
        (filter (\<lambda>i. reached byId avail requested i \<and> blocked avail i) ordered))"

lemma filter_conj_swap: "filter (\<lambda>x. P x \<and> Q x) xs = filter Q (filter P xs)"
  by (simp add: conj_commute)

lemma map_filter_cong:
  "(\<And>x. x \<in> set xs \<Longrightarrow> P x = Q x) \<Longrightarrow> (\<And>x. x \<in> set xs \<Longrightarrow> P x \<Longrightarrow> f x = g x) \<Longrightarrow>
   map f (filter P xs) = map g (filter Q xs)"
  by (induction xs) auto

lemma resolve_spec:
  assumes "resolveSetupSelection requested avail catalog = Inr r"
  shows "\<exists>byId. catalogIndex catalog = Inr byId \<and> resolution_spec byId avail requested catalog r"
proof -
  obtain byId where index: "catalogIndex catalog = Inr byId"
    using assms by (auto simp: resolveSetupSelection_def split: sum.splits)
  have find: "List.find (\<lambda>i. map_of byId i = None) requested = None"
    using assms index by (auto simp: resolveSetupSelection_def split: option.splits)
  let ?start = "\<lparr>w_effective = {}, w_issues = Map.empty, w_visited = Map.empty\<rparr>"
  obtain w where walk: "visit_requested byId avail requested catalog ?start = Inr w"
    using assms index find by (auto simp: resolveSetupSelection_def split: sum.splits)
  let ?ordered = "map sf_id catalog"
  have r: "r_requestedIds r = filter (\<lambda>i. i \<in> set requested) ?ordered"
      "r_effectiveIds r = filter (\<lambda>i. i \<in> w_effective w) ?ordered"
      "r_dependencyIds r = filter (\<lambda>i. i \<in> w_effective w \<and> i \<notin> set requested) ?ordered"
      "r_issues r = map (\<lambda>i. (i, the (w_issues w i))) (filter (\<lambda>i. w_issues w i \<noteq> None) ?ordered)"
    using assms index find walk by (auto simp: resolveSetupSelection_def Let_def)
  have known: "set requested \<subseteq> set (map sf_id catalog)"
  proof
    fix i assume "i \<in> set requested"
    then have "map_of byId i \<noteq> None" using find unfolding find_None_iff by metis
    then show "i \<in> set (map sf_id catalog)"
      unfolding catalogIndex_Inr[OF index] map_of_eq_None_iff by auto
  qed
  note W = visit_requested_walk[OF walk_ok_empty walk]
  have all: "\<forall>i \<in> set requested. w_visited w i \<noteq> None"
  proof
    fix i assume i: "i \<in> set requested"
    then obtain entry where "entry \<in> set catalog" "sf_id entry = i" using known by auto
    then show "w_visited w i \<noteq> None"
      using bspec[OF W[THEN conjunct2, THEN conjunct2], of entry] i by metis
  qed
  note R = reached_visited[OF W[THEN conjunct1] all]
  have eff: "i \<in> w_effective w \<longleftrightarrow> reached byId avail requested i \<and> usable byId avail i" for i
    using W R[of i] by (auto simp: walk_ok_def)
  have iss: "w_issues w i = (if reached byId avail requested i \<and> blocked avail i
      then Some (current_availability avail i) else None)" for i
    using W R[of i] by (auto simp: walk_ok_def)
  have issues: "r_issues r = map (\<lambda>i. (i, current_availability avail i))
      (filter (\<lambda>i. reached byId avail requested i \<and> blocked avail i) ?ordered)"
    unfolding r(4) by (rule map_filter_cong) (auto simp: iss split: if_splits)
  have "resolution_spec byId avail requested catalog r"
    unfolding resolution_spec_def Let_def
    using known issues by (simp only: r(1-3) eff filter_conj_swap simp_thms)
  with index show ?thesis by blast
qed

subsection \<open>The resolution of the catalogue never fails\<close>

text \<open>A catalogue whose dependencies are known and point strictly down a rank has no cycle, so no
  visit fails.\<close>

definition ranked :: "feature_index \<Rightarrow> (feature_id \<Rightarrow> nat) \<Rightarrow> bool" where
  "ranked byId rank \<longleftrightarrow> (\<forall>(i, entry) \<in> set byId. \<forall>d \<in> set (sf_dependencies entry).
     map_of byId d \<noteq> None \<and> rank d < rank i)"

lemma rankedD:
  "ranked byId rank \<Longrightarrow> map_of byId i = Some entry \<Longrightarrow> d \<in> set (sf_dependencies entry) \<Longrightarrow>
   map_of byId d \<noteq> None \<and> rank d < rank i"
  unfolding ranked_def by (drule map_of_SomeD) blast

lemma visit_total:
  "ranked byId rank \<Longrightarrow> map_of byId i \<noteq> None \<Longrightarrow> \<forall>v \<in> visiting. rank i < rank v \<Longrightarrow>
   \<exists>r. visit byId avail visiting i w = Inr r"
  "ranked byId rank \<Longrightarrow> \<forall>d \<in> set ds. map_of byId d \<noteq> None \<and> (\<forall>v \<in> visiting. rank d < rank v) \<Longrightarrow>
   \<exists>r. visit_all byId avail visiting ds ready w = Inr r"
proof (induction byId avail visiting i w and byId avail visiting ds ready w rule: visit_visit_all.induct)
  case (1 byId avail visiting i w)
  obtain entry where entry: "map_of byId i = Some entry" using 1(3) by auto
  have fresh: "i \<notin> visiting" using 1(4) by auto
  show ?case
  proof (cases "w_visited w i = None \<and> \<not> blocked avail i")
    case True
    have deps: "\<forall>d \<in> set (sf_dependencies entry).
        map_of byId d \<noteq> None \<and> (\<forall>v \<in> insert i visiting. rank d < rank v)"
    proof (intro ballI conjI)
      fix d assume d: "d \<in> set (sf_dependencies entry)"
      show "map_of byId d \<noteq> None" using rankedD[OF 1(2) entry d] by simp
      fix v assume "v \<in> insert i visiting"
      then have "rank i \<le> rank v" using 1(4) by (auto intro: less_imp_le)
      then show "rank d < rank v" using rankedD[OF 1(2) entry d] by simp
    qed
    then obtain r where "visit_all byId avail (insert i visiting) (sf_dependencies entry) True w = Inr r"
      using 1(1)[OF fresh conjunct1[OF True] entry conjunct2[OF True] 1(2) deps] by blast
    then show ?thesis using True fresh entry by (cases r) (simp add: visit.simps[of byId])
  next
    case False
    then show ?thesis using fresh entry by (cases "w_visited w i") (auto simp: visit.simps[of byId])
  qed
next
  case (3 byId avail visiting d ds ready w)
  obtain b w1 where v: "visit byId avail visiting d w = Inr (b, w1)"
    using 3(1)[OF 3(3)] 3(4) by auto
  then show ?case using 3(2)[OF v refl 3(3)] 3(4) by simp
qed simp

lemma visit_requested_total:
  "ranked byId rank \<Longrightarrow> \<forall>entry \<in> set entries. map_of byId (sf_id entry) \<noteq> None \<Longrightarrow>
   \<exists>w'. visit_requested byId avail requested entries w = Inr w'"
proof (induction byId avail requested entries w rule: visit_requested.induct)
  case (2 byId avail requested entry rest w)
  have "map_of byId (sf_id entry) \<noteq> None" using 2(4) by simp
  then obtain b w1 where v: "visit byId avail {} (sf_id entry) w = Inr (b, w1)"
    using visit_total(1)[OF 2(3), of "sf_id entry" "{}" avail w] by auto
  show ?case
    using 2(1)[OF _ v refl 2(3)] 2(2)[OF _ 2(3)] 2(4) v by (cases "sf_id entry \<in> set requested") auto
qed simp

definition SETUP_IDS :: "feature_id list" where
  "SETUP_IDS = map sf_id SETUP_CATALOG"

definition SETUP_INDEX :: feature_index where
  "SETUP_INDEX = map (\<lambda>entry. (sf_id entry, entry)) SETUP_CATALOG"

definition setup_rank :: "feature_id \<Rightarrow> nat" where
  "setup_rank i = (case map_of SETUP_INDEX i of None \<Rightarrow> 0
     | Some entry \<Rightarrow> if sf_dependencies entry = [] then 0 else 1)"

lemma SETUP_CATALOG_indexed: "catalogIndex SETUP_CATALOG = Inr SETUP_INDEX"
  by code_simp

lemma SETUP_CATALOG_ranked: "ranked SETUP_INDEX setup_rank"
  by code_simp

lemma SETUP_INDEX_known: "map_of SETUP_INDEX i \<noteq> None \<longleftrightarrow> i \<in> set SETUP_IDS"
  by (simp add: map_of_eq_None_iff SETUP_INDEX_def SETUP_IDS_def image_image)

lemma find_first: "List.find P xs = Some x \<Longrightarrow> x \<in> set xs \<and> P x"
  by (induction xs) (auto split: if_splits)

lemma SETUP_CATALOG_resolves:
  assumes "set requested \<subseteq> set SETUP_IDS"
  shows "\<exists>r. resolveSetupSelection requested avail SETUP_CATALOG = Inr r"
proof -
  have "List.find (\<lambda>i. map_of SETUP_INDEX i = None) requested = None"
    using assms SETUP_INDEX_known by (auto simp: find_None_iff)
  moreover have "\<exists>w'. visit_requested SETUP_INDEX avail requested SETUP_CATALOG w = Inr w'" for w
    by (rule visit_requested_total[OF SETUP_CATALOG_ranked])
       (simp only: SETUP_INDEX_known SETUP_IDS_def, simp)
  ultimately show ?thesis
    by (simp add: resolveSetupSelection_def SETUP_CATALOG_indexed Let_def) (metis sum.simps(6))
qed

text \<open>
  C21. The resolution of a selection is total and exact. Against the program's own catalogue
  \<open>resolveSetupSelection\<close> fails exactly on a request for a feature the catalogue does not have, and
  names it; it never reports a cycle or an unknown dependency, whatever the availability. Otherwise
  it returns, each in catalogue order, the requested features, the features that were reached and
  really are usable with everything they need, those of them the user did not ask for, and each
  reached feature that is not available with the reason.
\<close>

theorem selection_resolved:
  "case resolveSetupSelection requested avail SETUP_CATALOG of
     Inl e \<Rightarrow> \<exists>i \<in> set requested. i \<notin> set SETUP_IDS \<and> e = UnknownFeature i
   | Inr r \<Rightarrow> resolution_spec SETUP_INDEX avail requested SETUP_CATALOG r"
proof (cases "set requested \<subseteq> set SETUP_IDS")
  case True
  then obtain r where r: "resolveSetupSelection requested avail SETUP_CATALOG = Inr r"
    using SETUP_CATALOG_resolves by blast
  then show ?thesis using resolve_spec[OF r] SETUP_CATALOG_indexed by simp
next
  case False
  then obtain j where "j \<in> set requested" "map_of SETUP_INDEX j = None"
    using SETUP_INDEX_known by blast
  then obtain i where i: "List.find (\<lambda>i. map_of SETUP_INDEX i = None) requested = Some i"
    by (cases "List.find (\<lambda>i. map_of SETUP_INDEX i = None) requested") (auto simp: find_None_iff)
  then show ?thesis using find_first[OF i] SETUP_INDEX_known[of i]
    by (simp add: resolveSetupSelection_def SETUP_CATALOG_indexed)
qed

subsection \<open>Removing a feature\<close>

lemma structural_open: "map_of SETUP_INDEX i = Some entry \<Longrightarrow> \<not> blocked structural_availability i"
  using SETUP_INDEX_known[of i]
  by (simp add: blocked_def current_availability_def structural_availability_def SETUP_IDS_def)

lemma reached_known:
  "reached SETUP_INDEX avail requested i \<Longrightarrow> set requested \<subseteq> set SETUP_IDS \<Longrightarrow> i \<in> set SETUP_IDS"
proof (induction rule: reached.induct)
  case (needed i entry d)
  then show ?case using rankedD[OF SETUP_CATALOG_ranked, of i entry d] SETUP_INDEX_known by simp
qed auto

lemma known_usable: "i \<in> set SETUP_IDS \<Longrightarrow> usable SETUP_INDEX structural_availability i"
proof (induction "setup_rank i" arbitrary: i rule: less_induct)
  case less
  then obtain entry where entry: "map_of SETUP_INDEX i = Some entry" using SETUP_INDEX_known by blast
  have "\<forall>d \<in> set (sf_dependencies entry). usable SETUP_INDEX structural_availability d"
    using less(1) rankedD[OF SETUP_CATALOG_ranked entry] SETUP_INDEX_known by blast
  then show ?case using entry structural_open by (blast intro: usable.intros)
qed

text \<open>The closure of a selection is what it reaches; that of a list is the union over its elements.\<close>

lemma closure_reached:
  assumes "set requested \<subseteq> set SETUP_IDS"
  shows "\<exists>c. getSetupDependencyClosure requested = Inr c \<and>
    set c = {i. reached SETUP_INDEX structural_availability requested i}"
proof -
  obtain r where r: "resolveSetupSelection requested structural_availability SETUP_CATALOG = Inr r"
    using SETUP_CATALOG_resolves[OF assms] by blast
  have "resolution_spec SETUP_INDEX structural_availability requested SETUP_CATALOG r"
    using resolve_spec[OF r] SETUP_CATALOG_indexed by simp
  then have "set (r_effectiveIds r) = {i. reached SETUP_INDEX structural_availability requested i}"
    using reached_known[OF _ assms] known_usable
    by (auto simp: resolution_spec_def Let_def SETUP_IDS_def[symmetric])
  then show ?thesis by (simp add: getSetupDependencyClosure_def r)
qed

lemma reached_union:
  "reached byId avail requested i \<longleftrightarrow> (\<exists>j \<in> set requested. reached byId avail [j] i)"
proof
  show "reached byId avail requested i \<Longrightarrow> \<exists>j \<in> set requested. reached byId avail [j] i"
  proof (induction rule: reached.induct)
    case (asked i)
    then show ?case using reached.asked[of i "[i]"] by auto
  qed (blast intro: reached.needed)
  have "reached byId avail [j] i \<Longrightarrow> j \<in> set requested \<Longrightarrow> reached byId avail requested i" for j
    by (induction rule: reached.induct) (auto intro: reached.intros)
  then show "\<exists>j \<in> set requested. reached byId avail [j] i \<Longrightarrow> reached byId avail requested i" by blast
qed

lemma removal_filter:
  "set requested \<subseteq> set SETUP_IDS \<Longrightarrow> removeSetupFeature requested f =
   Inr (filter (\<lambda>i. \<not> reached SETUP_INDEX structural_availability [i] f) requested)"
proof (induction requested)
  case (Cons i rest)
  obtain c where "getSetupDependencyClosure [i] = Inr c"
      "set c = {j. reached SETUP_INDEX structural_availability [i] j}"
    using closure_reached[of "[i]"] Cons.prems by auto
  then show ?case using Cons by simp
qed simp

text \<open>
  C34. Removing a feature from a selection removes it together with exactly the features that need it.
  For a selection of catalogue features \<open>removeSetupFeature\<close> returns the selection, in its order,
  without the features whose closure contains the removed one; the closure of what is kept no longer
  contains the removed feature, so it does not come back as a dependency.
\<close>

theorem removal_exact:
  assumes "set requested \<subseteq> set SETUP_IDS"
  shows "\<exists>kept closure.
    removeSetupFeature requested f = Inr kept \<and>
    getSetupDependencyClosure kept = Inr closure \<and> f \<notin> set closure \<and>
    kept = filter (\<lambda>i. \<not> (\<exists>c. getSetupDependencyClosure [i] = Inr c \<and> f \<in> set c)) requested"
proof -
  let ?kept = "filter (\<lambda>i. \<not> reached SETUP_INDEX structural_availability [i] f) requested"
  have single: "reached SETUP_INDEX structural_availability [i] f \<longleftrightarrow>
      (\<exists>c. getSetupDependencyClosure [i] = Inr c \<and> f \<in> set c)" if "i \<in> set requested" for i
    using closure_reached[of "[i]"] assms that by auto
  obtain closure where c: "getSetupDependencyClosure ?kept = Inr closure"
      "set closure = {i. reached SETUP_INDEX structural_availability ?kept i}"
    using closure_reached[of ?kept] assms by auto
  have "f \<notin> set closure" unfolding c(2) by (subst mem_Collect_eq, subst reached_union) simp
  moreover have "?kept = filter (\<lambda>i. \<not> (\<exists>c. getSetupDependencyClosure [i] = Inr c \<and> f \<in> set c)) requested"
    by (rule filter_cong[OF refl]) (simp add: single)
  ultimately show ?thesis using removal_filter[OF assms] c(1) by blast
qed

lemma removal_exact_witness:
  "\<exists>closure. getSetupDependencyClosure [''dock:clipboard''] = Inr closure \<and>
    ''dock:streaming'' \<notin> set closure"
proof -
  have known: "set [''widget:streaming-metrics'', ''dock:clipboard''] \<subseteq> set SETUP_IDS" by code_simp
  have "removeSetupFeature [''widget:streaming-metrics'', ''dock:clipboard''] ''dock:streaming'' =
      Inr [''dock:clipboard'']" by code_simp
  then show ?thesis using removal_exact[OF known, of "''dock:streaming''"] by auto
qed

end
