(* ===== verification/Setup_State.thy ===== *)
theory Setup_State
  imports Setup_Catalog
begin

text \<open>
  The stored document of the first-run setup: the records of
  \<open>packages/contracts/src/setup-state.ts\<close> and the schema every document passes before it is stored.

  \<^item> An instant is its number of milliseconds (\<open>int\<close>); the program prints it with \<open>toISOString\<close> and
    reads it back with \<open>Date.parse\<close>. Literal fields (protocol and catalogue version, the outcome
    \<open>PASSED\<close>) have one value and are left out, as is the list of resource constraints, which the
    program always leaves empty.
  \<^item> Revisions and sequence numbers are \<open>nat\<close>: the program only ever adds one to them.
  \<^item> The schema (\<open>setup_schema\<close> and the predicates before it) keeps every pattern, limit and
    cross-check of the source.
\<close>

subsection \<open>Records\<close>

record connection_choice =
  cc_featureId :: feature_id
  cc_providerId :: "string option"
  cc_modelId :: "string option"
  cc_voiceId :: "string option"
  cc_credentialRef :: "string option"

record setup_draft =
  dr_id :: string
  dr_ownerId :: string
  dr_revision :: nat
  dr_persona :: setup_persona
  dr_level :: setup_level
  dr_requested :: "feature_id list"
  dr_choices :: "connection_choice list"
  dr_updatedAt :: int

datatype action_id =
    PREPARE_OPENCODE | VERIFY_AGENT_TASK | CONNECT_PROVIDER | CHECK_SERVICE
  | APPLY_SETTINGS | ENSURE_STARTER_ROOM | WRITE_INSTALLATION_MEMORY
  | VERIFY_LIVE_AUDIO | VERIFY_DATABASE | VERIFY_REMOTE_DESKTOP
  | VERIFY_HARNESS | VERIFY_STREAMING | VERIFY_CAPTURE

record plan_action =
  pa_id :: string
  pa_featureId :: feature_id
  pa_actionId :: action_id
  pa_dependsOn :: "string list"

datatype input_kind = PROVIDER_LOGIN | API_CREDENTIAL | MICROPHONE | OS_PERMISSION | RESOURCE_DECISION

record human_input =
  hi_featureId :: feature_id
  hi_kind :: input_kind
  hi_reasonCode :: string

record setup_plan =
  pl_id :: string
  pl_draftId :: string
  pl_ownerId :: string
  pl_draftRevision :: nat
  pl_digest :: string
  pl_requested :: "feature_id list"
  pl_effective :: "feature_id list"
  pl_actions :: "plan_action list"
  pl_inputs :: "human_input list"
  pl_costs :: "(feature_id \<times> setup_cost) list"
  pl_createdAt :: int

datatype setup_run_status =
    Run_RUNNING | Run_WAITING_FOR_INPUT | Run_PAUSED | Run_FAILED | Run_READY | Run_CANCELLED | Run_SUPERSEDED

record setup_run =
  rn_id :: string
  rn_planId :: string
  rn_ownerId :: string
  rn_status :: setup_run_status
  rn_revision :: nat
  rn_eventSequence :: nat
  rn_createdAt :: int
  rn_updatedAt :: int
  rn_finishedAt :: "int option"

datatype setup_task_status =
    Task_QUEUED | Task_INSTALLING | Task_WAITING_FOR_INPUT | Task_CHECKING | Task_READY
  | Task_NEEDS_ATTENTION | Task_PAUSED | Task_CANCELLED

record setup_task =
  tk_id :: string
  tk_runId :: string
  tk_actionId :: action_id
  tk_featureId :: feature_id
  tk_dependsOn :: "string list"
  tk_status :: setup_task_status
  tk_attempt :: nat
  tk_idempotencyKey :: string
  tk_leaseOwner :: "string option"
  tk_leaseExpiresAt :: "int option"
  tk_errorCode :: "string option"
  tk_resultRef :: "string option"

record setup_receipt =
  rc_id :: string
  rc_runId :: string
  rc_taskId :: string
  rc_featureId :: feature_id
  rc_checkVersion :: string
  rc_fingerprint :: string
  rc_completedAt :: int
  rc_expiresAt :: int
  rc_evidenceRef :: string

record setup_completion =
  co_runId :: string
  co_draftRevision :: nat
  co_planDigest :: string
  co_settingsRevision :: nat
  co_receiptSetHash :: string
  co_starterRoomId :: string
  co_memoryHandoffRevision :: nat
  co_completedAt :: int

record setup_event =
  ev_runId :: string
  ev_sequence :: nat
  ev_taskId :: "string option"
  ev_state :: setup_task_status
  ev_reasonCode :: "string option"
  ev_createdAt :: int

record setup_state =
  ss_ownerId :: string
  ss_revision :: nat
  ss_draft :: "setup_draft option"
  ss_plans :: "setup_plan list"
  ss_runs :: "setup_run list"
  ss_tasks :: "setup_task list"
  ss_receipts :: "setup_receipt list"
  ss_events :: "setup_event list"
  ss_runIdempotency :: "(string \<times> string) list"
  ss_appliedSettings :: "nat option"
  ss_memoryHandoff :: "nat option"
  ss_completion :: "setup_completion option"

subsection \<open>Patterns\<close>

definition lower_letter :: "char \<Rightarrow> bool" where
  "lower_letter c \<longleftrightarrow> CHR ''a'' \<le> c \<and> c \<le> CHR ''z''"

definition upper_letter :: "char \<Rightarrow> bool" where
  "upper_letter c \<longleftrightarrow> CHR ''A'' \<le> c \<and> c \<le> CHR ''Z''"

definition decimal :: "char \<Rightarrow> bool" where
  "decimal c \<longleftrightarrow> CHR ''0'' \<le> c \<and> c \<le> CHR ''9''"

definition id_char :: "char \<Rightarrow> bool" where
  "id_char c \<longleftrightarrow> lower_letter c \<or> upper_letter c \<or> decimal c \<or> c \<in> set ''._:-''"

definition valid_id :: "string \<Rightarrow> bool" where
  "valid_id s \<longleftrightarrow> 8 \<le> length s \<and> length s \<le> 128 \<and> list_all id_char s"

definition valid_hash :: "string \<Rightarrow> bool" where
  "valid_hash s \<longleftrightarrow> length s = 64 \<and> list_all (\<lambda>c. decimal c \<or> (CHR ''a'' \<le> c \<and> c \<le> CHR ''f'')) s"

definition headed :: "(char \<Rightarrow> bool) \<Rightarrow> (char \<Rightarrow> bool) \<Rightarrow> nat \<Rightarrow> nat \<Rightarrow> string \<Rightarrow> bool" where
  "headed first_ok rest_ok least most s =
     (case s of [] \<Rightarrow> False
      | c # cs \<Rightarrow> first_ok c \<and> list_all rest_ok cs \<and> least \<le> length cs \<and> length cs \<le> most)"

definition valid_reference :: "string \<Rightarrow> bool" where
  "valid_reference = headed lower_letter (\<lambda>c. lower_letter c \<or> decimal c \<or> c \<in> set ''._:-'') 3 127"

definition valid_name :: "string \<Rightarrow> bool" where
  "valid_name = headed lower_letter (\<lambda>c. lower_letter c \<or> decimal c \<or> c \<in> set ''._-'') 0 127"

definition valid_model :: "string \<Rightarrow> bool" where
  "valid_model = headed (\<lambda>c. lower_letter c \<or> upper_letter c \<or> decimal c)
     (\<lambda>c. id_char c \<or> c = CHR ''/'') 0 159"

definition valid_voice :: "string \<Rightarrow> bool" where
  "valid_voice = headed (\<lambda>c. lower_letter c \<or> upper_letter c \<or> decimal c)
     (\<lambda>c. id_char c \<and> c \<noteq> CHR '':'') 0 99"

definition valid_credential :: "string \<Rightarrow> bool" where
  "valid_credential s \<longleftrightarrow> take 5 s = ''cred:'' \<and> list_all id_char (drop 5 s) \<and>
     3 \<le> length (drop 5 s) \<and> length (drop 5 s) \<le> 120"

definition valid_reason :: "string \<Rightarrow> bool" where
  "valid_reason s \<longleftrightarrow> 1 \<le> length s \<and> length s \<le> 80 \<and>
     list_all (\<lambda>c. upper_letter c \<or> decimal c \<or> c = CHR ''_'') s"

definition valid_feature :: "feature_id \<Rightarrow> bool" where
  "valid_feature s \<longleftrightarrow>
     takeWhile (\<lambda>c. c \<noteq> CHR '':'') s \<in> set [''agent'', ''dock'', ''pane'', ''widget'', ''utility''] \<and>
     (case dropWhile (\<lambda>c. c \<noteq> CHR '':'') s of [] \<Rightarrow> False
      | _ # name \<Rightarrow> headed (\<lambda>c. lower_letter c \<or> decimal c)
          (\<lambda>c. lower_letter c \<or> decimal c \<or> c = CHR ''-'') 0 79 name)"

abbreviation valid_opt :: "('a \<Rightarrow> bool) \<Rightarrow> 'a option \<Rightarrow> bool" where
  "valid_opt ok x \<equiv> pred_option ok x"

definition unique_ids :: "feature_id list \<Rightarrow> bool" where
  "unique_ids ids \<longleftrightarrow> list_all valid_feature ids \<and> length ids \<le> 100 \<and> distinct ids"

subsection \<open>The schemas\<close>

definition choice_schema :: "connection_choice \<Rightarrow> bool" where
  "choice_schema c \<longleftrightarrow> valid_feature (cc_featureId c) \<and> valid_opt valid_name (cc_providerId c) \<and>
     valid_opt valid_model (cc_modelId c) \<and> valid_opt valid_voice (cc_voiceId c) \<and>
     valid_opt valid_credential (cc_credentialRef c)"

definition draft_schema :: "setup_draft \<Rightarrow> bool" where
  "draft_schema d \<longleftrightarrow> valid_id (dr_id d) \<and> valid_id (dr_ownerId d) \<and> unique_ids (dr_requested d) \<and>
     list_all choice_schema (dr_choices d) \<and> length (dr_choices d) \<le> 40"

definition action_schema :: "plan_action \<Rightarrow> bool" where
  "action_schema a \<longleftrightarrow> valid_id (pa_id a) \<and> valid_feature (pa_featureId a) \<and>
     list_all valid_id (pa_dependsOn a) \<and> length (pa_dependsOn a) \<le> 200"

definition input_schema :: "human_input \<Rightarrow> bool" where
  "input_schema h \<longleftrightarrow> valid_feature (hi_featureId h) \<and> valid_reason (hi_reasonCode h)"

definition plan_schema :: "setup_plan \<Rightarrow> bool" where
  "plan_schema p \<longleftrightarrow> valid_id (pl_id p) \<and> valid_id (pl_draftId p) \<and> valid_id (pl_ownerId p) \<and>
     valid_hash (pl_digest p) \<and> unique_ids (pl_requested p) \<and> unique_ids (pl_effective p) \<and>
     list_all action_schema (pl_actions p) \<and> length (pl_actions p) \<le> 200 \<and>
     list_all input_schema (pl_inputs p) \<and> length (pl_inputs p) \<le> 40 \<and>
     list_all (\<lambda>(i, _). valid_feature i) (pl_costs p) \<and> length (pl_costs p) \<le> 100"

definition run_schema :: "setup_run \<Rightarrow> bool" where
  "run_schema r \<longleftrightarrow> valid_id (rn_id r) \<and> valid_id (rn_planId r) \<and> valid_id (rn_ownerId r) \<and> 0 < rn_revision r"

definition task_schema :: "setup_task \<Rightarrow> bool" where
  "task_schema t \<longleftrightarrow> valid_id (tk_id t) \<and> valid_id (tk_runId t) \<and> valid_feature (tk_featureId t) \<and>
     list_all valid_id (tk_dependsOn t) \<and> length (tk_dependsOn t) \<le> 200 \<and>
     valid_reference (tk_idempotencyKey t) \<and> valid_opt valid_id (tk_leaseOwner t) \<and>
     valid_opt valid_reason (tk_errorCode t) \<and> valid_opt valid_reference (tk_resultRef t)"

definition receipt_schema :: "setup_receipt \<Rightarrow> bool" where
  "receipt_schema r \<longleftrightarrow> valid_id (rc_id r) \<and> valid_id (rc_runId r) \<and> valid_id (rc_taskId r) \<and>
     valid_feature (rc_featureId r) \<and> valid_reference (rc_checkVersion r) \<and> valid_hash (rc_fingerprint r) \<and>
     valid_reference (rc_evidenceRef r) \<and> rc_completedAt r < rc_expiresAt r"

definition completion_schema :: "setup_completion \<Rightarrow> bool" where
  "completion_schema c \<longleftrightarrow> valid_id (co_runId c) \<and> valid_hash (co_planDigest c) \<and>
     valid_hash (co_receiptSetHash c) \<and> valid_id (co_starterRoomId c)"

definition event_schema :: "setup_event \<Rightarrow> bool" where
  "event_schema e \<longleftrightarrow> valid_id (ev_runId e) \<and> 0 < ev_sequence e \<and> valid_opt valid_id (ev_taskId e) \<and>
     valid_opt valid_reason (ev_reasonCode e)"

definition setup_schema :: "setup_state \<Rightarrow> bool" where
  "setup_schema st \<longleftrightarrow>
     valid_id (ss_ownerId st) \<and> valid_opt draft_schema (ss_draft st) \<and>
     list_all plan_schema (ss_plans st) \<and> length (ss_plans st) \<le> 50 \<and>
     list_all run_schema (ss_runs st) \<and> length (ss_runs st) \<le> 50 \<and>
     list_all task_schema (ss_tasks st) \<and> length (ss_tasks st) \<le> 500 \<and>
     list_all receipt_schema (ss_receipts st) \<and> length (ss_receipts st) \<le> 500 \<and>
     list_all event_schema (ss_events st) \<and> length (ss_events st) \<le> 500 \<and>
     list_all (\<lambda>(key, run). valid_reference key \<and> valid_id run) (ss_runIdempotency st) \<and>
     length (ss_runIdempotency st) \<le> 50 \<and>
     valid_opt completion_schema (ss_completion st) \<and>
     valid_opt (\<lambda>d. dr_ownerId d = ss_ownerId st) (ss_draft st) \<and>
     list_all (\<lambda>p. pl_ownerId p = ss_ownerId st) (ss_plans st) \<and> distinct (map pl_id (ss_plans st)) \<and>
     list_all (\<lambda>r. rn_ownerId r = ss_ownerId st) (ss_runs st) \<and> distinct (map rn_id (ss_runs st)) \<and>
     list_all (\<lambda>t. tk_runId t \<in> set (map rn_id (ss_runs st))) (ss_tasks st) \<and>
     distinct (map tk_id (ss_tasks st)) \<and>
     distinct (map fst (ss_runIdempotency st)) \<and>
     list_all (\<lambda>(_, run). run \<in> set (map rn_id (ss_runs st))) (ss_runIdempotency st)"

end
