(* ===== verification/Setup_Execution.thy ===== *)
theory Setup_Execution
  imports Setup_State
begin

text \<open>
  The execution of a setup plan (\<open>packages/runtime/src/setup-execution.ts\<close>): the draft, the plan made
  from it, the runs of a plan, the leases of their tasks and the receipts that finish them, all in one
  document per owner that is replaced as a whole.

  \<^item> The source mutates the objects of a private copy of the document; here a run or a task is
    updated by its id (\<open>update_run\<close>, \<open>update_task\<close>; the schema makes ids unique), in the order of the
    source's assignments wherever a later statement reads them.
  \<^item> A handler returns an error, or its value with the new document, or its value with \<open>None\<close> when
    the source returns \<open>write: false\<close>. \<open>Setup_Store\<close> holds the compare-and-swap around it.
  \<^item> SHA-256 over JSON and \<open>localeCompare\<close> are the fields of \<open>setup_env\<close>; the current instant and the
    random UUID are arguments (one instant per call: where the source reads the clock twice in a
    handler the two readings are taken to be equal).
  \<^item> The inspection that \<open>reconcileExpiredTask\<close> awaits between its two reads of the document is an
    argument as well.
\<close>

subsection \<open>Errors, parameters and results\<close>

datatype setup_error =
    SETUP_REVISION_CONFLICT | SETUP_PLAN_STALE | SETUP_NOT_READY | SETUP_RUN_NOT_FOUND
  | SETUP_TASK_NOT_FOUND | SETUP_UNKNOWN_FEATURE | SETUP_UNSELECTED_CONNECTION
  | SETUP_FEATURE_UNAVAILABLE | SETUP_INVALID_SUBJECT | SETUP_INVALID_IDEMPOTENCY
  | SETUP_INPUT_REQUIRED | SETUP_RUN_ACTIVE | SETUP_INVALID_LEASE | SETUP_RUN_NOT_ACTIVE
  | SETUP_LEASE_STALE | SETUP_INVALID_REASON | SETUP_RUN_COMPLETE | SETUP_RUN_NOT_FAILED
  | SETUP_RETRY_SCOPE_INVALID | SETUP_RECONCILIATION_REQUIRED | SETUP_RUN_NOT_READY
  | SETUP_RECONCILIATION_NOT_REQUIRED | SETUP_INVALID_INSPECTION | SETUP_EVENT_CURSOR_INVALID
  | SETUP_EVENT_CURSOR_EXPIRED
  | Schema_Violation
  | Store_Conflict
  | Selection_Failed selection_error

record draft_choices =
  dc_persona :: setup_persona
  dc_level :: setup_level
  dc_requested :: "feature_id list"
  dc_choices :: "connection_choice list"

type_synonym fingerprints = "(feature_id \<times> string) list"

record digest_input =
  di_draftId :: string
  di_draftRevision :: nat
  di_persona :: setup_persona
  di_level :: setup_level
  di_requested :: "feature_id list"
  di_effective :: "feature_id list"
  di_actions :: "plan_action list"
  di_choices :: "connection_choice list"
  di_subjects :: fingerprints

text \<open>\<open>hash\<close> of the three values the source hashes, and the collation key \<open>localeCompare\<close> compares by.\<close>

record setup_env =
  se_hash_plan :: "digest_input \<Rightarrow> string"
  se_hash_action :: "string \<times> string \<times> string \<Rightarrow> string"
  se_hash_receipts :: "(string \<times> string \<times> string \<times> string \<times> string) list \<Rightarrow> string"
  se_collation :: "string \<Rightarrow> string"

record receipt_input =
  ri_checkVersion :: string
  ri_fingerprint :: string
  ri_evidenceRef :: string

type_synonym 'v handled = "setup_error + ('v \<times> setup_state option)"

definition maxEvents :: nat where "maxEvents = 500"
definition receiptLifetimeMs :: int where "receiptLifetimeMs = 15 * 60000"
definition SETUP_RECEIPT_RENEWAL_WINDOW_MS :: int where "SETUP_RECEIPT_RENEWAL_WINDOW_MS = 60000"
definition maxRetainedRuns :: nat where "maxRetainedRuns = 6"
definition maxRetainedPlans :: nat where "maxRetainedPlans = 10"

definition emptyState :: "string \<Rightarrow> setup_state" where
  "emptyState owner = \<lparr>ss_ownerId = owner, ss_revision = 0, ss_draft = None, ss_plans = [], ss_runs = [],
     ss_tasks = [], ss_receipts = [], ss_events = [], ss_runIdempotency = [], ss_appliedSettings = None,
     ss_memoryHandoff = None, ss_completion = None\<rparr>"

subsection \<open>Access by id\<close>

definition find_run :: "setup_state \<Rightarrow> string \<Rightarrow> setup_run option" where
  "find_run st i = List.find (\<lambda>r. rn_id r = i) (ss_runs st)"

definition find_task :: "setup_state \<Rightarrow> string \<Rightarrow> string \<Rightarrow> setup_task option" where
  "find_task st i t = List.find (\<lambda>k. tk_id k = t \<and> tk_runId k = i) (ss_tasks st)"

definition tasks_of :: "setup_state \<Rightarrow> string \<Rightarrow> setup_task list" where
  "tasks_of st i = filter (\<lambda>k. tk_runId k = i) (ss_tasks st)"

definition latest_plan :: "setup_state \<Rightarrow> setup_plan option" where
  "latest_plan st = (if ss_plans st = [] then None else Some (last (ss_plans st)))"

definition update_run :: "string \<Rightarrow> (setup_run \<Rightarrow> setup_run) \<Rightarrow> setup_state \<Rightarrow> setup_state" where
  "update_run i f st = st\<lparr>ss_runs := map (\<lambda>r. if rn_id r = i then f r else r) (ss_runs st)\<rparr>"

definition update_task :: "string \<Rightarrow> (setup_task \<Rightarrow> setup_task) \<Rightarrow> setup_state \<Rightarrow> setup_state" where
  "update_task t f st = st\<lparr>ss_tasks := map (\<lambda>k. if tk_id k = t then f k else k) (ss_tasks st)\<rparr>"

definition take_last :: "nat \<Rightarrow> 'a list \<Rightarrow> 'a list" where
  "take_last n xs = drop (length xs - n) xs"

definition log_event :: "string \<Rightarrow> string \<Rightarrow> int \<Rightarrow> setup_state \<Rightarrow> setup_state" where
  "log_event i t now st =
     (case (find_run st i, find_task st i t) of
        (Some run, Some task) \<Rightarrow>
          (update_run i (\<lambda>r. r\<lparr>rn_eventSequence := Suc (rn_eventSequence r)\<rparr>) st)
            \<lparr>ss_events := take_last maxEvents (ss_events st @
               [\<lparr>ev_runId = i, ev_sequence = Suc (rn_eventSequence run), ev_taskId = Some t,
                 ev_state = tk_status task, ev_reasonCode = tk_errorCode task, ev_createdAt = now\<rparr>])\<rparr>
      | _ \<Rightarrow> st)"

definition touch_run :: "setup_run_status \<Rightarrow> int \<Rightarrow> setup_run \<Rightarrow> setup_run" where
  "touch_run status now r = r\<lparr>rn_status := status, rn_revision := Suc (rn_revision r), rn_updatedAt := now\<rparr>"

definition active_status :: "setup_run_status \<Rightarrow> bool" where
  "active_status s \<longleftrightarrow> s = Run_RUNNING \<or> s = Run_PAUSED \<or> s = Run_WAITING_FOR_INPUT"

subsection \<open>History\<close>

fun fill_newest :: "nat \<Rightarrow> string list \<Rightarrow> string list \<Rightarrow> string list" where
  "fill_newest n [] keep = keep"
| "fill_newest n (i # rest) keep = (if n \<le> length keep then keep else fill_newest n rest (add_id i keep))"

definition kept_runs :: "setup_state \<Rightarrow> string list" where
  "kept_runs st =
     (let completed = (case ss_completion st of None \<Rightarrow> [] | Some c \<Rightarrow> [co_runId c]);
          running = fold add_id (map rn_id (filter (\<lambda>r. active_status (rn_status r)) (ss_runs st))) completed
      in fill_newest maxRetainedRuns (map rn_id (rev (ss_runs st))) running)"

definition kept_plans :: "setup_run list \<Rightarrow> setup_state \<Rightarrow> string list" where
  "kept_plans runs st =
     (let used = fold add_id (map rn_planId runs) [];
          latest = (case latest_plan st of None \<Rightarrow> used | Some p \<Rightarrow> add_id (pl_id p) used)
      in fill_newest maxRetainedPlans (map pl_id (rev (ss_plans st))) latest)"

definition compactSetupHistory :: "setup_state \<Rightarrow> setup_state" where
  "compactSetupHistory st =
     (if length (ss_runs st) \<le> maxRetainedRuns \<and> length (ss_plans st) \<le> maxRetainedPlans then st
      else let keep = set (kept_runs st);
               runs = filter (\<lambda>r. rn_id r \<in> keep) (ss_runs st);
               plans = set (kept_plans runs st)
           in st\<lparr>ss_runs := runs,
                 ss_tasks := filter (\<lambda>k. tk_runId k \<in> keep) (ss_tasks st),
                 ss_receipts := filter (\<lambda>r. rc_runId r \<in> keep) (ss_receipts st),
                 ss_events := filter (\<lambda>e. ev_runId e \<in> keep) (ss_events st),
                 ss_runIdempotency := filter (\<lambda>(_, run). run \<in> keep) (ss_runIdempotency st),
                 ss_plans := filter (\<lambda>p. pl_id p \<in> plans) (ss_plans st)\<rparr>)"

subsection \<open>Drafts\<close>

definition supersede :: "int \<Rightarrow> setup_run \<Rightarrow> setup_run" where
  "supersede now r =
     (if rn_status r \<noteq> Run_CANCELLED \<and> rn_status r \<noteq> Run_SUPERSEDED \<and> rn_status r \<noteq> Run_READY
      then (touch_run Run_SUPERSEDED now r)\<lparr>rn_finishedAt := Some now\<rparr> else r)"

definition updateDraft :: "string \<Rightarrow> nat option \<Rightarrow> draft_choices \<Rightarrow> int \<Rightarrow> string \<Rightarrow> setup_state
    \<Rightarrow> setup_draft handled" where
  "updateDraft owner expectedRevision input now uuid st =
     (if \<exists>i \<in> set (dc_requested input). i \<notin> set SETUP_IDS then Inl SETUP_UNKNOWN_FEATURE
      else case getSetupDependencyClosure (dc_requested input) of
          Inl e \<Rightarrow> Inl (Selection_Failed e)
        | Inr selected \<Rightarrow>
            (if \<exists>c \<in> set (dc_choices input). cc_featureId c \<notin> set selected
             then Inl SETUP_UNSELECTED_CONNECTION
             else if map_option dr_revision (ss_draft st) \<noteq> expectedRevision
             then Inl SETUP_REVISION_CONFLICT
             else let draft = \<lparr>
                      dr_id = (case ss_draft st of None \<Rightarrow> ''draft:'' @ uuid | Some d \<Rightarrow> dr_id d),
                      dr_ownerId = owner,
                      dr_revision = (case ss_draft st of None \<Rightarrow> 0 | Some d \<Rightarrow> Suc (dr_revision d)),
                      dr_persona = dc_persona input, dr_level = dc_level input,
                      dr_requested = dc_requested input, dr_choices = dc_choices input,
                      dr_updatedAt = now\<rparr>
                  in if \<not> draft_schema draft then Inl Schema_Violation
                     else Inr (draft, Some (st\<lparr>ss_runs := map (supersede now) (ss_runs st),
                                              ss_draft := Some draft\<rparr>))))"

subsection \<open>Plans\<close>

definition actionFor :: "feature_id \<Rightarrow> action_id" where
  "actionFor i =
     (if i = ''pane:live'' then VERIFY_LIVE_AUDIO
      else if i = ''pane:databases'' then VERIFY_DATABASE
      else if i = ''pane:vnc'' then VERIFY_REMOTE_DESKTOP
      else if i = ''pane:harness'' then VERIFY_HARNESS
      else if i = ''dock:streaming'' \<or> i = ''widget:streaming-metrics'' then VERIFY_STREAMING
      else if i = ''utility:snip'' then VERIFY_CAPTURE
      else if take 6 i = ''agent:'' \<or> i = ''pane:chat'' \<or> i = ''dock:room-agent'' then VERIFY_AGENT_TASK
      else CHECK_SERVICE)"

fun action_name :: "action_id \<Rightarrow> string" where
  "action_name PREPARE_OPENCODE = ''PREPARE_OPENCODE''"
| "action_name VERIFY_AGENT_TASK = ''VERIFY_AGENT_TASK''"
| "action_name CONNECT_PROVIDER = ''CONNECT_PROVIDER''"
| "action_name CHECK_SERVICE = ''CHECK_SERVICE''"
| "action_name APPLY_SETTINGS = ''APPLY_SETTINGS''"
| "action_name ENSURE_STARTER_ROOM = ''ENSURE_STARTER_ROOM''"
| "action_name WRITE_INSTALLATION_MEMORY = ''WRITE_INSTALLATION_MEMORY''"
| "action_name VERIFY_LIVE_AUDIO = ''VERIFY_LIVE_AUDIO''"
| "action_name VERIFY_DATABASE = ''VERIFY_DATABASE''"
| "action_name VERIFY_REMOTE_DESKTOP = ''VERIFY_REMOTE_DESKTOP''"
| "action_name VERIFY_HARNESS = ''VERIFY_HARNESS''"
| "action_name VERIFY_STREAMING = ''VERIFY_STREAMING''"
| "action_name VERIFY_CAPTURE = ''VERIFY_CAPTURE''"

definition finalActionId :: "feature_id \<Rightarrow> string" where
  "finalActionId i = ''action:'' @ i @ '':'' @ action_name (actionFor i)"

definition PREPARE_ID :: string where
  "PREPARE_ID = ''action:agent:opencode:PREPARE_OPENCODE''"

definition feature_actions :: "feature_id set \<Rightarrow> setup_feature \<Rightarrow> plan_action list" where
  "feature_actions selected f =
     (if sf_id f = ''agent:opencode''
      then [\<lparr>pa_id = PREPARE_ID, pa_featureId = sf_id f, pa_actionId = PREPARE_OPENCODE, pa_dependsOn = []\<rparr>]
      else []) @
     [\<lparr>pa_id = finalActionId (sf_id f), pa_featureId = sf_id f, pa_actionId = actionFor (sf_id f),
       pa_dependsOn = map finalActionId (filter (\<lambda>i. i \<in> selected) (sf_dependencies f)) @
         (if sf_id f = ''agent:opencode'' then [PREPARE_ID] else [])\<rparr>]"

definition buildActions :: "feature_id list \<Rightarrow> plan_action list" where
  "buildActions effectiveIds =
     (let selected = set effectiveIds;
          actions = concat (map (feature_actions selected)
            (filter (\<lambda>f. sf_id f \<in> selected) SETUP_CATALOG))
      in actions @
        [\<lparr>pa_id = ''action:dock:settings:APPLY_SETTINGS'', pa_featureId = ''dock:settings'',
          pa_actionId = APPLY_SETTINGS, pa_dependsOn = map pa_id actions\<rparr>,
         \<lparr>pa_id = ''action:dock:rooms:ENSURE_STARTER_ROOM'', pa_featureId = ''dock:rooms'',
          pa_actionId = ENSURE_STARTER_ROOM, pa_dependsOn = [''action:dock:settings:APPLY_SETTINGS'']\<rparr>,
         \<lparr>pa_id = ''action:agent:opencode:WRITE_INSTALLATION_MEMORY'', pa_featureId = ''agent:opencode'',
          pa_actionId = WRITE_INSTALLATION_MEMORY, pa_dependsOn = [''action:dock:rooms:ENSURE_STARTER_ROOM'']\<rparr>])"

definition installationActions :: "action_id list" where
  "installationActions = [PREPARE_OPENCODE, CONNECT_PROVIDER, APPLY_SETTINGS, ENSURE_STARTER_ROOM,
     WRITE_INSTALLATION_MEMORY]"

definition entriesWithHumanInputs :: "human_input list" where
  "entriesWithHumanInputs =
     map (\<lambda>f. \<lparr>hi_featureId = sf_id f, hi_kind = PROVIDER_LOGIN, hi_reasonCode = ''AGENT_CONNECTION_REQUIRED''\<rparr>)
       (filter (\<lambda>f. sf_kind f = ''agent'' \<and> sf_id f \<noteq> ''agent:opencode'') SETUP_CATALOG) @
     [\<lparr>hi_featureId = ''pane:live'', hi_kind = API_CREDENTIAL, hi_reasonCode = ''LIVE_PROVIDER_REQUIRED''\<rparr>,
      \<lparr>hi_featureId = ''pane:databases'', hi_kind = API_CREDENTIAL, hi_reasonCode = ''DATABASE_CONNECTION_REQUIRED''\<rparr>,
      \<lparr>hi_featureId = ''pane:vnc'', hi_kind = PROVIDER_LOGIN, hi_reasonCode = ''REMOTE_DESKTOP_REQUIRED''\<rparr>,
      \<lparr>hi_featureId = ''pane:harness'', hi_kind = PROVIDER_LOGIN, hi_reasonCode = ''HARNESS_CONNECTION_REQUIRED''\<rparr>,
      \<lparr>hi_featureId = ''dock:streaming'', hi_kind = API_CREDENTIAL, hi_reasonCode = ''STREAMING_DESTINATION_REQUIRED''\<rparr>,
      \<lparr>hi_featureId = ''utility:snip'', hi_kind = OS_PERMISSION, hi_reasonCode = ''CAPTURE_PERMISSION_REQUIRED''\<rparr>]"

definition input_needed :: "feature_id list \<Rightarrow> fingerprints \<Rightarrow> human_input \<Rightarrow> human_input list" where
  "input_needed selected subjects h =
     (if hi_featureId h \<in> set selected \<and>
         (case map_of subjects (hi_featureId h) of None \<Rightarrow> True | Some fp \<Rightarrow> fp = '''')
      then [h] else [])"

definition required_inputs :: "feature_id list \<Rightarrow> fingerprints \<Rightarrow> connection_choice list \<Rightarrow> human_input \<Rightarrow> human_input list" where
  "required_inputs selected subjects choices h =
     (if hi_featureId h \<notin> set selected then []
      else if hi_featureId h = ''pane:live'' then
        (let provider = (case List.find (\<lambda>c. cc_featureId c = ''pane:live'') choices of
               None \<Rightarrow> False | Some c \<Rightarrow> (case cc_providerId c of None \<Rightarrow> False | Some p \<Rightarrow> p \<noteq> ''''))
         in input_needed selected subjects \<lparr>hi_featureId = ''pane:live'', hi_kind = API_CREDENTIAL,
              hi_reasonCode = (if provider then ''LIVE_CREDENTIAL_REQUIRED'' else ''LIVE_PROVIDER_REQUIRED'')\<rparr> @
            input_needed selected subjects \<lparr>hi_featureId = ''pane:live'', hi_kind = MICROPHONE,
              hi_reasonCode = ''LIVE_MICROPHONE_CHECK_REQUIRED''\<rparr>)
      else input_needed selected subjects h)"

definition createPlan :: "setup_env \<Rightarrow> string \<Rightarrow> nat \<Rightarrow> availability \<Rightarrow> fingerprints \<Rightarrow> int \<Rightarrow> string
    \<Rightarrow> setup_state \<Rightarrow> setup_plan handled" where
  "createPlan env owner expectedDraftRevision avail subjects now uuid st =
     (case ss_draft st of
        None \<Rightarrow> Inl SETUP_REVISION_CONFLICT
      | Some draft \<Rightarrow>
          (if dr_revision draft \<noteq> expectedDraftRevision then Inl SETUP_REVISION_CONFLICT
           else case resolveSetupSelection (dr_requested draft) avail SETUP_CATALOG of
               Inl e \<Rightarrow> Inl (Selection_Failed e)
             | Inr res \<Rightarrow>
                 (if r_issues res \<noteq> [] \<or>
                     length (r_effectiveIds res) \<noteq> length (js_uniq (r_requestedIds res @ r_dependencyIds res))
                  then Inl SETUP_FEATURE_UNAVAILABLE
                  else if \<exists>(i, fp) \<in> set subjects. i \<notin> set (r_effectiveIds res) \<or> \<not> valid_hash fp
                  then Inl SETUP_INVALID_SUBJECT
                  else
                    (let actions = buildActions (r_effectiveIds res);
                         digest = se_hash_plan env \<lparr>di_draftId = dr_id draft, di_draftRevision = dr_revision draft,
                           di_persona = dr_persona draft, di_level = dr_level draft,
                           di_requested = r_requestedIds res, di_effective = r_effectiveIds res,
                           di_actions = actions,
                           di_choices = sort_key (\<lambda>c. se_collation env (cc_featureId c)) (dr_choices draft),
                           di_subjects = sort_key (\<lambda>(i, _). se_collation env i) subjects\<rparr>
                     in if map_option pl_digest (latest_plan st) = Some digest
                        then Inr (the (latest_plan st), None)
                        else
                          (let plan = \<lparr>pl_id = ''plan:'' @ uuid, pl_draftId = dr_id draft, pl_ownerId = owner,
                                 pl_draftRevision = dr_revision draft, pl_digest = digest,
                                 pl_requested = r_requestedIds res, pl_effective = r_effectiveIds res,
                                 pl_actions = actions,
                                 pl_inputs = concat (map (required_inputs (r_effectiveIds res) subjects (dr_choices draft))
                                   entriesWithHumanInputs),
                                 pl_costs = map (\<lambda>f. (sf_id f, sf_cost f))
                                   (filter (\<lambda>f. sf_id f \<in> set (r_effectiveIds res)) SETUP_CATALOG),
                                 pl_createdAt = now\<rparr>
                           in if \<not> plan_schema plan then Inl Schema_Violation
                              else Inr (plan, Some (st\<lparr>ss_plans := ss_plans st @ [plan]\<rparr>)))))))"

subsection \<open>Runs\<close>

definition task_id :: "string \<Rightarrow> string \<Rightarrow> string" where
  "task_id runId actionId = ''task:'' @ drop 4 runId @ '':'' @ actionId"

definition new_task :: "setup_env \<Rightarrow> string \<Rightarrow> string \<Rightarrow> string \<Rightarrow> plan_action \<Rightarrow> setup_task" where
  "new_task env owner digest runId a =
     \<lparr>tk_id = task_id runId (pa_id a), tk_runId = runId, tk_actionId = pa_actionId a,
      tk_featureId = pa_featureId a, tk_dependsOn = map (task_id runId) (pa_dependsOn a),
      tk_status = Task_QUEUED, tk_attempt = 0,
      tk_idempotencyKey = ''action:'' @ take 48 (se_hash_action env (owner, pa_id a, digest)),
      tk_leaseOwner = None, tk_leaseExpiresAt = None, tk_errorCode = None, tk_resultRef = None\<rparr>"

definition plan_current :: "setup_state \<Rightarrow> setup_plan \<Rightarrow> bool" where
  "plan_current st plan \<longleftrightarrow>
     (case ss_draft st of None \<Rightarrow> False
      | Some d \<Rightarrow> pl_draftId plan = dr_id d \<and> pl_draftRevision plan = dr_revision d \<and>
          map_option pl_id (latest_plan st) = Some (pl_id plan))"

definition startRun :: "setup_env \<Rightarrow> string \<Rightarrow> string \<Rightarrow> string \<Rightarrow> string \<Rightarrow> int \<Rightarrow> string \<Rightarrow> setup_state
    \<Rightarrow> setup_run handled" where
  "startRun env owner planId planDigest idempotencyKey now uuid st =
     (if \<not> valid_reference idempotencyKey then Inl SETUP_INVALID_IDEMPOTENCY
      else case List.find (\<lambda>e. fst e = idempotencyKey) (ss_runIdempotency st) of
          Some duplicate \<Rightarrow>
            (case find_run st (snd duplicate) of
               None \<Rightarrow> Inl SETUP_RUN_NOT_FOUND
             | Some run \<Rightarrow> Inr (run, None))
        | None \<Rightarrow>
            (case List.find (\<lambda>p. pl_id p = planId \<and> pl_digest p = planDigest) (ss_plans st) of
               None \<Rightarrow> Inl SETUP_PLAN_STALE
             | Some plan \<Rightarrow>
                 (if \<not> plan_current st plan then Inl SETUP_PLAN_STALE
                  else if pl_inputs plan \<noteq> [] then Inl SETUP_INPUT_REQUIRED
                  else if \<exists>r \<in> set (ss_runs st). active_status (rn_status r) then Inl SETUP_RUN_ACTIVE
                  else
                    (let run = \<lparr>rn_id = ''run:'' @ uuid, rn_planId = planId, rn_ownerId = owner,
                           rn_status = Run_RUNNING, rn_revision = 1, rn_eventSequence = 0,
                           rn_createdAt = now, rn_updatedAt = now, rn_finishedAt = None\<rparr>
                     in Inr (run, Some (st\<lparr>ss_runs := ss_runs st @ [run],
                          ss_tasks := ss_tasks st @
                            map (new_task env owner (pl_digest plan) (rn_id run)) (pl_actions plan),
                          ss_runIdempotency := ss_runIdempotency st @ [(idempotencyKey, rn_id run)]\<rparr>))))))"

subsection \<open>Leases\<close>

definition lease_expired :: "int \<Rightarrow> setup_task \<Rightarrow> bool" where
  "lease_expired now k \<longleftrightarrow>
     (case tk_leaseExpiresAt k of None \<Rightarrow> False | Some at_ms \<Rightarrow> at_ms \<le> now) \<and>
     (tk_status k = Task_INSTALLING \<or> tk_status k = Task_CHECKING)"

definition release_lease :: "setup_task \<Rightarrow> setup_task" where
  "release_lease k = k\<lparr>tk_leaseOwner := None, tk_leaseExpiresAt := None\<rparr>"

definition expire_lease :: "int \<Rightarrow> string \<Rightarrow> setup_task \<Rightarrow> setup_state \<Rightarrow> setup_state" where
  "expire_lease now i k st =
     log_event i (tk_id k) now
       (update_task (tk_id k)
          (\<lambda>k. release_lease (k\<lparr>tk_status := Task_NEEDS_ATTENTION, tk_errorCode := Some ''LEASE_EXPIRED_RECONCILE''\<rparr>)) st)"

definition leasable :: "setup_task list \<Rightarrow> setup_task \<Rightarrow> bool" where
  "leasable tasks k \<longleftrightarrow>
     tk_status k = Task_QUEUED \<and>
     (\<forall>d \<in> set (tk_dependsOn k). \<exists>r \<in> set tasks. tk_status r = Task_READY \<and> tk_id r = d) \<and>
     (if tk_actionId k \<in> set installationActions
      then length (filter (\<lambda>c. tk_status c = Task_INSTALLING) tasks) < 1
      else length (filter (\<lambda>c. tk_status c = Task_CHECKING) tasks) < 2)"

definition lease :: "string \<Rightarrow> int \<Rightarrow> setup_task \<Rightarrow> setup_task" where
  "lease workerId until k =
     k\<lparr>tk_status := (if tk_actionId k \<in> set installationActions then Task_INSTALLING else Task_CHECKING),
       tk_attempt := Suc (tk_attempt k), tk_leaseOwner := Some workerId, tk_leaseExpiresAt := Some until\<rparr>"

definition leaseNextTask :: "string \<Rightarrow> string \<Rightarrow> int \<Rightarrow> int \<Rightarrow> setup_state \<Rightarrow> setup_task option handled" where
  "leaseNextTask runId workerId durationMs now st =
     (if durationMs < 1000 \<or> 120000 < durationMs then Inl SETUP_INVALID_LEASE
      else case find_run st runId of
          None \<Rightarrow> Inl SETUP_RUN_NOT_FOUND
        | Some run \<Rightarrow>
            (if rn_status run \<noteq> Run_RUNNING then Inr (None, None)
             else let tasks = tasks_of st runId; expired = filter (lease_expired now) tasks
                  in if expired \<noteq> []
                     then Inr (None, Some (update_run runId (touch_run Run_FAILED now)
                            (fold (expire_lease now runId) expired st)))
                     else case List.find (leasable tasks) tasks of
                         None \<Rightarrow> Inr (None, None)
                       | Some k \<Rightarrow>
                           Inr (Some (lease workerId (now + durationMs) k),
                             Some (log_event runId (tk_id k) now
                               (update_run runId (\<lambda>r. touch_run (rn_status r) now r)
                                 (update_task (tk_id k) (lease workerId (now + durationMs)) st))))))"

definition holds_lease :: "string \<Rightarrow> int \<Rightarrow> setup_task \<Rightarrow> bool" where
  "holds_lease workerId now k \<longleftrightarrow> tk_leaseOwner k = Some workerId \<and>
     (case tk_leaseExpiresAt k of None \<Rightarrow> False | Some at_ms \<Rightarrow> now < at_ms)"

definition new_receipt :: "string \<Rightarrow> string \<Rightarrow> setup_task \<Rightarrow> receipt_input \<Rightarrow> int \<Rightarrow> setup_receipt" where
  "new_receipt uuid runId k input now =
     \<lparr>rc_id = ''receipt:'' @ uuid, rc_runId = runId, rc_taskId = tk_id k, rc_featureId = tk_featureId k,
      rc_checkVersion = ri_checkVersion input, rc_fingerprint = ri_fingerprint input,
      rc_completedAt = now, rc_expiresAt = now + receiptLifetimeMs, rc_evidenceRef = ri_evidenceRef input\<rparr>"

definition put_receipt :: "setup_receipt \<Rightarrow> setup_state \<Rightarrow> setup_state" where
  "put_receipt rc st =
     st\<lparr>ss_receipts := filter (\<lambda>r. rc_taskId r \<noteq> rc_taskId rc) (ss_receipts st) @ [rc]\<rparr>"

definition record_milestone :: "action_id \<Rightarrow> setup_state \<Rightarrow> setup_state" where
  "record_milestone a st =
     (if a = APPLY_SETTINGS then st\<lparr>ss_appliedSettings := Some (Suc (ss_revision st))\<rparr>
      else if a = WRITE_INSTALLATION_MEMORY then st\<lparr>ss_memoryHandoff := Some (Suc (ss_revision st))\<rparr>
      else st)"

definition finish_if_ready :: "string \<Rightarrow> int \<Rightarrow> setup_state \<Rightarrow> setup_state" where
  "finish_if_ready runId now st =
     (if list_all (\<lambda>k. tk_status k = Task_READY) (tasks_of st runId)
      then update_run runId (\<lambda>r. r\<lparr>rn_status := Run_READY, rn_finishedAt := Some now\<rparr>) st else st)"

definition completeTask :: "string \<Rightarrow> string \<Rightarrow> string \<Rightarrow> receipt_input \<Rightarrow> int \<Rightarrow> string \<Rightarrow> setup_state
    \<Rightarrow> unit handled" where
  "completeTask runId taskId workerId input now uuid st =
     (case find_run st runId of None \<Rightarrow> Inl SETUP_RUN_NOT_FOUND
      | Some run \<Rightarrow>
          (case find_task st runId taskId of None \<Rightarrow> Inl SETUP_TASK_NOT_FOUND
           | Some k \<Rightarrow>
               (if rn_status run \<noteq> Run_RUNNING \<and> rn_status run \<noteq> Run_PAUSED then Inl SETUP_RUN_NOT_ACTIVE
                else if \<not> holds_lease workerId now k then Inl SETUP_LEASE_STALE
                else if \<not> receipt_schema (new_receipt uuid runId k input now) then Inl Schema_Violation
                else Inr ((), Some
                  (finish_if_ready runId now
                    (log_event runId taskId now
                      (update_run runId (\<lambda>r. touch_run (rn_status r) now r)
                        (record_milestone (tk_actionId k)
                          (update_task taskId
                             (\<lambda>k. (release_lease k)\<lparr>tk_status := Task_READY, tk_errorCode := None,
                                              tk_resultRef := Some (ri_evidenceRef input)\<rparr>)
                             (put_receipt (new_receipt uuid runId k input now) st))))))))))"

definition failTask :: "string \<Rightarrow> string \<Rightarrow> string \<Rightarrow> string \<Rightarrow> int \<Rightarrow> setup_state \<Rightarrow> unit handled" where
  "failTask runId taskId workerId reasonCode now st =
     (if \<not> valid_reason reasonCode then Inl SETUP_INVALID_REASON
      else case find_run st runId of None \<Rightarrow> Inl SETUP_RUN_NOT_FOUND
      | Some run \<Rightarrow>
          (case find_task st runId taskId of None \<Rightarrow> Inl SETUP_TASK_NOT_FOUND
           | Some k \<Rightarrow>
               (if \<not> holds_lease workerId now k then Inl SETUP_LEASE_STALE
                else Inr ((), Some
                  (log_event runId taskId now
                    (update_run runId (touch_run Run_FAILED now)
                      (update_task taskId
                         (\<lambda>k. release_lease (k\<lparr>tk_status := Task_NEEDS_ATTENTION, tk_errorCode := Some reasonCode\<rparr>))
                         st)))))))"

subsection \<open>Pausing, resuming and cancelling\<close>

definition changeRunStatus :: "string \<Rightarrow> setup_run_status list \<Rightarrow> setup_run_status \<Rightarrow> int \<Rightarrow> setup_state
    \<Rightarrow> unit handled" where
  "changeRunStatus runId sources target now st =
     (case find_run st runId of None \<Rightarrow> Inl SETUP_RUN_NOT_FOUND
      | Some run \<Rightarrow>
          (if rn_status run = target then Inr ((), None)
           else if rn_status run \<notin> set sources then Inl SETUP_RUN_NOT_ACTIVE
           else Inr ((), Some (update_run runId (touch_run target now) st))))"

definition pauseRun :: "string \<Rightarrow> int \<Rightarrow> setup_state \<Rightarrow> unit handled" where
  "pauseRun runId = changeRunStatus runId [Run_RUNNING] Run_PAUSED"

definition resumeRun :: "string \<Rightarrow> int \<Rightarrow> setup_state \<Rightarrow> unit handled" where
  "resumeRun runId = changeRunStatus runId [Run_PAUSED] Run_RUNNING"

definition cancel_task :: "int \<Rightarrow> string \<Rightarrow> setup_task \<Rightarrow> setup_state \<Rightarrow> setup_state" where
  "cancel_task now i k st =
     log_event i (tk_id k) now (update_task (tk_id k) (\<lambda>k. release_lease (k\<lparr>tk_status := Task_CANCELLED\<rparr>)) st)"

definition cancelRun :: "string \<Rightarrow> int \<Rightarrow> setup_state \<Rightarrow> unit handled" where
  "cancelRun runId now st =
     (case find_run st runId of None \<Rightarrow> Inl SETUP_RUN_NOT_FOUND
      | Some run \<Rightarrow>
          (if rn_status run = Run_CANCELLED then Inr ((), None)
           else if rn_status run = Run_READY then Inl SETUP_RUN_COMPLETE
           else Inr ((), Some
             (fold (cancel_task now runId) (filter (\<lambda>k. tk_status k \<noteq> Task_READY) (tasks_of st runId))
               (update_run runId (\<lambda>r. (touch_run Run_CANCELLED now r)\<lparr>rn_finishedAt := Some now\<rparr>) st)))))"

subsection \<open>Retrying, checking again, reconciling\<close>

definition reset_pass :: "setup_task list \<Rightarrow> string list \<Rightarrow> string list" where
  "reset_pass tasks reset =
     fold (\<lambda>k reset. if tk_id k \<notin> set reset \<and> (\<exists>d \<in> set (tk_dependsOn k). d \<in> set reset)
                     then reset @ [tk_id k] else reset) tasks reset"

definition unreset :: "setup_task list \<Rightarrow> string list \<Rightarrow> nat" where
  "unreset tasks reset = length (filter (\<lambda>k. tk_id k \<notin> set reset) tasks)"

lemma reset_pass_grows: "\<exists>more. reset_pass tasks reset = reset @ more \<and>
    (\<forall>t \<in> set more. t \<notin> set reset \<and> (\<exists>k \<in> set tasks. tk_id k = t))"
proof -
  have "\<exists>more. fold (\<lambda>k reset. if tk_id k \<notin> set reset \<and> (\<exists>d \<in> set (tk_dependsOn k). d \<in> set reset)
                     then reset @ [tk_id k] else reset) tasks reset' = reset' @ more \<and>
      (\<forall>t \<in> set more. t \<notin> set reset' \<and> (\<exists>k \<in> set tasks. tk_id k = t))" for reset'
  proof (induction tasks arbitrary: reset')
    case (Cons k tasks)
    show ?case
    proof (cases "tk_id k \<notin> set reset' \<and> (\<exists>d \<in> set (tk_dependsOn k). d \<in> set reset')")
      case True
      from Cons[of "reset' @ [tk_id k]"] True show ?thesis by auto
    next
      case False
      from Cons[of reset'] show ?thesis by (simp only: fold_Cons o_apply False if_False) auto
    qed
  qed simp
  then show ?thesis by (simp add: reset_pass_def)
qed

function close_reset :: "setup_task list \<Rightarrow> string list \<Rightarrow> string list" where
  "close_reset tasks reset =
     (let reset' = reset_pass tasks reset
      in if length reset' = length reset then reset else close_reset tasks reset')"
  by pat_completeness auto

lemma unreset_less:
  assumes "length (reset_pass tasks reset) \<noteq> length reset"
  shows "unreset tasks (reset_pass tasks reset) < unreset tasks reset"
proof -
  obtain more where m: "reset_pass tasks reset = reset @ more"
      "\<forall>t \<in> set more. t \<notin> set reset \<and> (\<exists>k \<in> set tasks. tk_id k = t)"
    using reset_pass_grows by blast
  then obtain t where t: "t \<in> set more" using assms by (cases more) auto
  then obtain k where "k \<in> set tasks" "tk_id k = t" "t \<notin> set reset" using m(2) by blast
  then show ?thesis unfolding unreset_def m(1) using t
    by (intro filter_length_less[where y = k]) auto
qed

termination close_reset by (relation "measure (\<lambda>(tasks, reset). unreset tasks reset)") (auto simp: unreset_less)

declare close_reset.simps [simp del]

definition requeue :: "setup_task \<Rightarrow> setup_task" where
  "requeue k = release_lease (k\<lparr>tk_status := Task_QUEUED, tk_errorCode := None\<rparr>)"

definition requeue_retried :: "int \<Rightarrow> string \<Rightarrow> setup_task \<Rightarrow> setup_state \<Rightarrow> setup_state" where
  "requeue_retried now i k st =
     log_event i (tk_id k) now (update_task (tk_id k) (\<lambda>k. (requeue k)\<lparr>tk_resultRef := None\<rparr>) st)"

definition requeue_stale :: "int \<Rightarrow> string \<Rightarrow> setup_task \<Rightarrow> setup_state \<Rightarrow> setup_state" where
  "requeue_stale now i k st = log_event i (tk_id k) now (update_task (tk_id k) requeue st)"

definition restart :: "int \<Rightarrow> setup_run \<Rightarrow> setup_run" where
  "restart now r = (touch_run Run_RUNNING now r)\<lparr>rn_finishedAt := None\<rparr>"

definition retryFailedTasks :: "string \<Rightarrow> string list \<Rightarrow> nat \<Rightarrow> int \<Rightarrow> setup_state \<Rightarrow> unit handled" where
  "retryFailedTasks runId taskIds expectedRunRevision now st =
     (case find_run st runId of None \<Rightarrow> Inl SETUP_RUN_NOT_FOUND
      | Some run \<Rightarrow>
          (let tasks = tasks_of st runId in
           if rn_revision run \<noteq> expectedRunRevision then Inl SETUP_REVISION_CONFLICT
           else if rn_status run \<noteq> Run_FAILED then Inl SETUP_RUN_NOT_FAILED
           else if taskIds = [] \<or>
             (\<exists>t \<in> set taskIds. \<not> (\<exists>k \<in> set tasks. tk_id k = t \<and> tk_status k = Task_NEEDS_ATTENTION))
           then Inl SETUP_RETRY_SCOPE_INVALID
           else if \<exists>k \<in> set tasks. tk_id k \<in> set taskIds \<and> tk_errorCode k = Some ''LEASE_EXPIRED_RECONCILE''
           then Inl SETUP_RECONCILIATION_REQUIRED
           else let reset = close_reset tasks taskIds
                in Inr ((), Some (update_run runId (restart now)
                     (fold (requeue_retried now runId) (filter (\<lambda>k. tk_id k \<in> set reset) tasks)
                       (st\<lparr>ss_receipts := filter (\<lambda>r. rc_taskId r \<notin> set reset) (ss_receipts st)\<rparr>))))))"

definition stale_task :: "setup_receipt list \<Rightarrow> int \<Rightarrow> setup_task \<Rightarrow> bool" where
  "stale_task receipts now k \<longleftrightarrow> tk_status k = Task_READY \<and>
     \<not> (\<exists>r \<in> set receipts. rc_taskId r = tk_id k \<and> now + SETUP_RECEIPT_RENEWAL_WINDOW_MS < rc_expiresAt r)"

definition find_plan :: "setup_state \<Rightarrow> string \<Rightarrow> setup_plan option" where
  "find_plan st i = List.find (\<lambda>p. pl_id p = i) (ss_plans st)"

definition revalidateStaleTasks :: "string \<Rightarrow> string list \<Rightarrow> nat \<Rightarrow> int \<Rightarrow> setup_state \<Rightarrow> unit handled" where
  "revalidateStaleTasks runId taskIds expectedRunRevision now st =
     (case find_run st runId of None \<Rightarrow> Inl SETUP_RUN_NOT_FOUND
      | Some run \<Rightarrow>
          (let tasks = tasks_of st runId in
           if rn_revision run \<noteq> expectedRunRevision then Inl SETUP_REVISION_CONFLICT
           else if rn_status run \<noteq> Run_READY then Inl SETUP_RUN_NOT_READY
           else if (case find_plan st (rn_planId run) of None \<Rightarrow> True | Some plan \<Rightarrow> \<not> plan_current st plan)
           then Inl SETUP_PLAN_STALE
           else if taskIds = [] \<or>
             (\<exists>t \<in> set taskIds. \<not> (\<exists>k \<in> set tasks. tk_id k = t \<and> stale_task (ss_receipts st) now k))
           then Inl SETUP_RETRY_SCOPE_INVALID
           else Inr ((), Some (update_run runId (restart now)
                  (fold (requeue_stale now runId) (filter (\<lambda>k. tk_id k \<in> set taskIds) tasks)
                    (st\<lparr>ss_receipts := filter (\<lambda>r. rc_taskId r \<notin> set taskIds) (ss_receipts st)\<rparr>))))))"

datatype setup_inspection = Inspected_VERIFIED receipt_input | Inspected_NOT_APPLIED string | Inspected_UNKNOWN

definition needs_reconciliation :: "setup_task \<Rightarrow> bool" where
  "needs_reconciliation k \<longleftrightarrow>
     tk_status k = Task_NEEDS_ATTENTION \<and> tk_errorCode k = Some ''LEASE_EXPIRED_RECONCILE''"

definition reconcile_precheck :: "string \<Rightarrow> string \<Rightarrow> setup_state \<Rightarrow> setup_error + setup_task" where
  "reconcile_precheck runId taskId st =
     (case find_run st runId of None \<Rightarrow> Inl SETUP_RUN_NOT_FOUND
      | Some run \<Rightarrow>
          (if rn_status run \<noteq> Run_FAILED then Inl SETUP_RUN_NOT_ACTIVE
           else case find_task st runId taskId of None \<Rightarrow> Inl SETUP_TASK_NOT_FOUND
           | Some k \<Rightarrow> if needs_reconciliation k then Inr k else Inl SETUP_RECONCILIATION_NOT_REQUIRED))"

definition settle_reconciled :: "string \<Rightarrow> string \<Rightarrow> int \<Rightarrow> setup_state \<Rightarrow> setup_state" where
  "settle_reconciled runId taskId now st =
     (let tasks = tasks_of st runId;
          status = (if \<exists>k \<in> set tasks. needs_reconciliation k then Run_FAILED
                    else if list_all (\<lambda>k. tk_status k = Task_READY) tasks then Run_READY else Run_RUNNING)
      in log_event runId taskId now
           (update_run runId (\<lambda>r. (touch_run status now r)
              \<lparr>rn_finishedAt := (if status = Run_READY then Some now else None)\<rparr>) st))"

definition reconcileExpiredTask :: "string \<Rightarrow> string \<Rightarrow> setup_inspection \<Rightarrow> int \<Rightarrow> string \<Rightarrow> setup_state
    \<Rightarrow> unit handled" where
  "reconcileExpiredTask runId taskId inspection now uuid st =
     (if inspection = Inspected_UNKNOWN then Inr ((), None)
      else case find_run st runId of None \<Rightarrow> Inl SETUP_RUN_NOT_FOUND
      | Some run \<Rightarrow>
          (case find_task st runId taskId of None \<Rightarrow> Inl SETUP_TASK_NOT_FOUND
           | Some k \<Rightarrow>
               (if rn_status run \<noteq> Run_FAILED then Inl SETUP_RUN_NOT_ACTIVE
                else if \<not> needs_reconciliation k then Inl SETUP_REVISION_CONFLICT
                else case inspection of
                    Inspected_VERIFIED input \<Rightarrow>
                      (if \<not> receipt_schema (new_receipt uuid runId k input now) then Inl Schema_Violation
                       else Inr ((), Some (settle_reconciled runId taskId now
                         (update_task taskId (\<lambda>k. k\<lparr>tk_errorCode := None\<rparr>)
                           (record_milestone (tk_actionId k)
                             (update_task taskId (\<lambda>k. k\<lparr>tk_status := Task_READY,
                                tk_resultRef := Some (ri_evidenceRef input)\<rparr>)
                               (put_receipt (new_receipt uuid runId k input now) st)))))))
                  | Inspected_NOT_APPLIED evidenceRef \<Rightarrow>
                      (if \<not> valid_reference evidenceRef then Inl SETUP_INVALID_INSPECTION
                       else Inr ((), Some (settle_reconciled runId taskId now
                         (update_task taskId (\<lambda>k. k\<lparr>tk_errorCode := None\<rparr>)
                           (update_task taskId (\<lambda>k. k\<lparr>tk_status := Task_QUEUED,
                              tk_resultRef := Some evidenceRef\<rparr>) st)))))
                  | Inspected_UNKNOWN \<Rightarrow> Inr ((), None))))"

subsection \<open>Reading\<close>

definition receipt_current :: "setup_state \<Rightarrow> fingerprints \<Rightarrow> int \<Rightarrow> setup_task \<Rightarrow> bool" where
  "receipt_current st current now k \<longleftrightarrow>
     (\<exists>r \<in> set (ss_receipts st). rc_taskId r = tk_id k \<and> now < rc_expiresAt r \<and>
        map_of current (tk_featureId k) = Some (rc_fingerprint r))"

definition checkReadiness :: "string \<Rightarrow> fingerprints \<Rightarrow> int \<Rightarrow> setup_state
    \<Rightarrow> setup_error + (bool \<times> string list)" where
  "checkReadiness runId current now st =
     (case find_run st runId of None \<Rightarrow> Inl SETUP_RUN_NOT_FOUND
      | Some run \<Rightarrow>
          (case find_plan st (rn_planId run) of
             None \<Rightarrow> Inr (False, map tk_id (tasks_of st runId))
           | Some plan \<Rightarrow>
               (if \<not> plan_current st plan \<or> rn_status run \<noteq> Run_READY
                then Inr (False, map tk_id (tasks_of st runId))
                else let missing = map tk_id (filter
                         (\<lambda>k. tk_status k \<noteq> Task_READY \<or> \<not> receipt_current st current now k)
                         (tasks_of st runId))
                     in Inr (missing = [] \<and> pl_actions plan \<noteq> [], missing))))"

definition listRunEvents :: "string \<Rightarrow> int \<Rightarrow> int \<Rightarrow> setup_state \<Rightarrow> setup_error + setup_event list" where
  "listRunEvents runId afterSequence limit st =
     (if afterSequence < 0 \<or> limit < 1 \<or> 100 < limit then Inl SETUP_EVENT_CURSOR_INVALID
      else case find_run st runId of None \<Rightarrow> Inl SETUP_RUN_NOT_FOUND
      | Some run \<Rightarrow>
          (let events = filter (\<lambda>e. ev_runId e = runId) (ss_events st)
           in if events \<noteq> [] \<and> afterSequence < int (ev_sequence (hd events)) - 1
              then Inl SETUP_EVENT_CURSOR_EXPIRED
              else Inr (take (nat limit) (filter (\<lambda>e. afterSequence < int (ev_sequence e)) events))))"

subsection \<open>Completion\<close>

record completion_input =
  ci_reconfigure :: bool
  ci_ownerId :: string
  ci_expectedStateRevision :: nat
  ci_runId :: string
  ci_draftRevision :: nat
  ci_planDigest :: string
  ci_fingerprints :: fingerprints
  ci_completedAt :: "int option"

definition task_receipt :: "setup_state \<Rightarrow> setup_task \<Rightarrow> setup_receipt option" where
  "task_receipt st k = List.find (\<lambda>r. rc_taskId r = tk_id k) (ss_receipts st)"

definition receipt_proves :: "fingerprints \<Rightarrow> int \<Rightarrow> setup_task \<Rightarrow> setup_receipt option \<Rightarrow> bool" where
  "receipt_proves current now k rc \<longleftrightarrow> tk_status k = Task_READY \<and>
     (case rc of None \<Rightarrow> False
      | Some r \<Rightarrow> now < rc_expiresAt r \<and> map_of current (tk_featureId k) = Some (rc_fingerprint r))"

definition createSetupCompletion :: "setup_env \<Rightarrow> setup_state \<Rightarrow> completion_input \<Rightarrow> string
    \<Rightarrow> setup_error + setup_completion" where
  "createSetupCompletion env st input starterRoomId =
     (if ss_ownerId st \<noteq> ci_ownerId input \<or> ss_revision st \<noteq> ci_expectedStateRevision input
      then Inl SETUP_REVISION_CONFLICT
      else case (ss_draft st, find_run st (ci_runId input)) of
          (Some draft, Some run) \<Rightarrow>
            (case find_plan st (rn_planId run) of
               None \<Rightarrow> Inl SETUP_PLAN_STALE
             | Some plan \<Rightarrow>
                 (if map_option pl_id (latest_plan st) \<noteq> Some (pl_id plan) \<or> dr_id draft \<noteq> pl_draftId plan \<or>
                     dr_revision draft \<noteq> ci_draftRevision input \<or> pl_draftRevision plan \<noteq> ci_draftRevision input \<or>
                     pl_digest plan \<noteq> ci_planDigest input
                  then Inl SETUP_PLAN_STALE
                  else case (ss_appliedSettings st, ss_memoryHandoff st, ci_completedAt input) of
                      (Some settings, Some memory, Some now) \<Rightarrow>
                        (let tasks = tasks_of st (rn_id run) in
                         if rn_status run \<noteq> Run_READY then Inl SETUP_NOT_READY
                         else if length tasks \<noteq> length (pl_actions plan) \<or>
                           \<not> list_all (\<lambda>a. list_ex (\<lambda>k. tk_actionId k = a) tasks)
                               [APPLY_SETTINGS, ENSURE_STARTER_ROOM, WRITE_INSTALLATION_MEMORY]
                         then Inl SETUP_NOT_READY
                         else if \<not> list_all (\<lambda>k. receipt_proves (ci_fingerprints input) now k (task_receipt st k)) tasks
                         then Inl SETUP_NOT_READY
                         else let completion = \<lparr>co_runId = rn_id run, co_draftRevision = dr_revision draft,
                                  co_planDigest = pl_digest plan, co_settingsRevision = settings,
                                  co_receiptSetHash = se_hash_receipts env
                                    (map (\<lambda>k. case task_receipt st k of
                                        None \<Rightarrow> ('''', '''', '''', '''', '''')
                                      | Some r \<Rightarrow> (rc_id r, rc_taskId r, rc_checkVersion r, rc_fingerprint r, rc_evidenceRef r))
                                      tasks),
                                  co_starterRoomId = starterRoomId, co_memoryHandoffRevision = memory,
                                  co_completedAt = now\<rparr>
                              in if completion_schema completion then Inr completion else Inl Schema_Violation)
                    | _ \<Rightarrow> Inl SETUP_NOT_READY))
        | _ \<Rightarrow> Inl SETUP_PLAN_STALE)"

end
