(* ===== verification/Setup_Store.thy ===== *)
theory Setup_Store
  imports Setup_Execution
begin

text \<open>
  The compare-and-swap around the setup handlers: \<open>mutate\<close> of
  \<open>packages/runtime/src/setup-execution.ts\<close> over the two store methods of
  \<open>packages/runtime/src/store.ts\<close>, and the step relation of all calls on one owner's document.

  \<^item> Reading and swapping are two awaited calls, so another call may store a document between them.
    \<open>mutate\<close> therefore gets, for each of its eight attempts, the document it read and the document
    that was stored when it swapped.
  \<^item> The world is the list of all documents ever stored for the owner, newest first. A step is one
    successful swap by any handler, whose read may be of any earlier version, or the completion of
    setup, which the store does in one synchronous call. Handlers that fail or write nothing leave
    the document as it is.
  \<^item> \<open>randomUUID\<close> gives 36 characters of hexadecimal digits and dashes, never the same twice: the
    world remembers the identifiers it has given.
\<close>

subsection \<open>The store\<close>

definition compareAndSwap :: "string \<Rightarrow> nat option \<Rightarrow> setup_state \<Rightarrow> setup_state option
    \<Rightarrow> setup_error + setup_state option" where
  "compareAndSwap owner expected nxt stored =
     (if \<not> valid_id owner \<or> \<not> setup_schema nxt then Inl Schema_Violation
      else if ss_ownerId nxt \<noteq> owner \<or> ss_revision nxt \<noteq> (case expected of None \<Rightarrow> 0 | Some n \<Rightarrow> Suc n)
      then Inl Store_Conflict
      else if map_option ss_revision stored \<noteq> expected then Inr None
      else Inr (Some nxt))"

definition stamp :: "setup_state option \<Rightarrow> setup_state \<Rightarrow> setup_state" where
  "stamp existing st =
     (compactSetupHistory st)\<lparr>ss_revision := (case existing of None \<Rightarrow> 0 | Some e \<Rightarrow> Suc (ss_revision e))\<rparr>"

definition working_copy :: "string \<Rightarrow> setup_state option \<Rightarrow> setup_state" where
  "working_copy owner existing = (case existing of None \<Rightarrow> emptyState owner | Some st \<Rightarrow> st)"

text \<open>\<open>mutate\<close> returns the caller's result and, when it swapped, the document it stored; \<open>change k\<close> is
  the handler at attempt \<open>k\<close> (with that attempt's clock and UUID), \<open>views k\<close> what the attempt read and
  what was stored when it swapped.\<close>

fun mutate_from :: "nat \<Rightarrow> nat \<Rightarrow> string \<Rightarrow> (nat \<Rightarrow> setup_state \<Rightarrow> 'v handled)
    \<Rightarrow> (nat \<Rightarrow> setup_state option \<times> setup_state option) \<Rightarrow> (setup_error + 'v) \<times> setup_state option" where
  "mutate_from 0 k owner change views = (Inl SETUP_REVISION_CONFLICT, None)"
| "mutate_from (Suc left) k owner change views =
     (case views k of (existing, stored) \<Rightarrow>
        (case change k (working_copy owner existing) of
           Inl e \<Rightarrow> (Inl e, None)
         | Inr (v, None) \<Rightarrow> (Inr v, None)
         | Inr (v, Some st) \<Rightarrow>
             (case compareAndSwap owner (map_option ss_revision existing) (stamp existing st) stored of
                Inl e \<Rightarrow> (Inl e, None)
              | Inr (Some nxt) \<Rightarrow> (Inr v, Some nxt)
              | Inr None \<Rightarrow> mutate_from left (Suc k) owner change views)))"

definition mutate :: "string \<Rightarrow> (nat \<Rightarrow> setup_state \<Rightarrow> 'v handled)
    \<Rightarrow> (nat \<Rightarrow> setup_state option \<times> setup_state option) \<Rightarrow> (setup_error + 'v) \<times> setup_state option" where
  "mutate = mutate_from 8 0"

subsection \<open>Completion in the store\<close>

record owner_setup =
  os_ownerUserId :: "string option"
  os_starterRoomId :: "string option"
  os_onboardingVersion :: nat
  os_onboardingCompletedAt :: "int option"

definition completeSetupExecution :: "setup_env \<Rightarrow> owner_setup option \<Rightarrow> setup_state option \<Rightarrow> completion_input
    \<Rightarrow> setup_error + (owner_setup \<times> setup_state)" where
  "completeSetupExecution env setup stored input =
     (case setup of None \<Rightarrow> Inl Store_Conflict
      | Some os \<Rightarrow>
          (case (os_ownerUserId os, os_starterRoomId os) of
             (Some user, Some room) \<Rightarrow>
               (if user \<noteq> ci_ownerId input then Inl Store_Conflict
                else if os_onboardingCompletedAt os \<noteq> None \<and> \<not> ci_reconfigure input then Inl Store_Conflict
                else case stored of None \<Rightarrow> Inl Store_Conflict
                | Some st \<Rightarrow>
                    (case createSetupCompletion env st input room of Inl e \<Rightarrow> Inl e
                     | Inr completion \<Rightarrow>
                         (let nxt = st\<lparr>ss_revision := Suc (ss_revision st), ss_completion := Some completion\<rparr>
                          in if \<not> setup_schema nxt then Inl Schema_Violation
                             else Inr (os\<lparr>os_onboardingVersion := 2,
                                  os_onboardingCompletedAt := or_else (os_onboardingCompletedAt os) (ci_completedAt input)\<rparr>,
                                nxt))))
           | _ \<Rightarrow> Inl Store_Conflict))"

subsection \<open>All calls on one document\<close>

datatype setup_request =
    UpdateDraft "nat option" draft_choices
  | CreatePlan nat availability fingerprints
  | StartRun string string string
  | LeaseNextTask string string int
  | CompleteTask string string string receipt_input
  | FailTask string string string string
  | PauseRun string
  | ResumeRun string
  | CancelRun string
  | RetryFailedTasks string "string list" nat
  | RevalidateStaleTasks string "string list" nat
  | ReconcileExpiredTask string string setup_inspection

text \<open>The document a request leaves in its private copy; \<open>Inr None\<close> when it writes nothing.\<close>

definition written_state :: "'v handled \<Rightarrow> setup_error + setup_state option" where
  "written_state h = (case h of Inl e \<Rightarrow> Inl e | Inr (_, st) \<Rightarrow> Inr st)"

fun apply_request :: "setup_env \<Rightarrow> string \<Rightarrow> int \<Rightarrow> string \<Rightarrow> setup_request \<Rightarrow> setup_state
    \<Rightarrow> setup_error + setup_state option" where
  "apply_request env owner now uuid (UpdateDraft n input) st = written_state (updateDraft owner n input now uuid st)"
| "apply_request env owner now uuid (CreatePlan n avail subjects) st =
     written_state (createPlan env owner n avail subjects now uuid st)"
| "apply_request env owner now uuid (StartRun p digest key) st = written_state (startRun env owner p digest key now uuid st)"
| "apply_request env owner now uuid (LeaseNextTask i worker ms) st = written_state (leaseNextTask i worker ms now st)"
| "apply_request env owner now uuid (CompleteTask i t worker input) st =
     written_state (completeTask i t worker input now uuid st)"
| "apply_request env owner now uuid (FailTask i t worker reason) st = written_state (failTask i t worker reason now st)"
| "apply_request env owner now uuid (PauseRun i) st = written_state (pauseRun i now st)"
| "apply_request env owner now uuid (ResumeRun i) st = written_state (resumeRun i now st)"
| "apply_request env owner now uuid (CancelRun i) st = written_state (cancelRun i now st)"
| "apply_request env owner now uuid (RetryFailedTasks i ts n) st = written_state (retryFailedTasks i ts n now st)"
| "apply_request env owner now uuid (RevalidateStaleTasks i ts n) st = written_state (revalidateStaleTasks i ts n now st)"
| "apply_request env owner now uuid (ReconcileExpiredTask i t inspection) st =
     written_state (reconcileExpiredTask i t inspection now uuid st)"

record setup_world =
  sw_history :: "setup_state list"
  sw_uuids :: "string set"

definition stored_now :: "setup_world \<Rightarrow> setup_state option" where
  "stored_now w = (case sw_history w of [] \<Rightarrow> None | st # _ \<Rightarrow> Some st)"

definition versions :: "setup_world \<Rightarrow> setup_state option set" where
  "versions w = insert None (Some ` set (sw_history w))"

definition valid_uuid :: "string \<Rightarrow> bool" where
  "valid_uuid u \<longleftrightarrow> length u = 36 \<and> list_all (\<lambda>c. decimal c \<or> lower_letter c \<or> c = CHR ''-'') u"

definition env_ok :: "setup_env \<Rightarrow> bool" where
  "env_ok env \<longleftrightarrow> (\<forall>x. valid_hash (se_hash_plan env x)) \<and> (\<forall>x. valid_hash (se_hash_action env x)) \<and>
     (\<forall>x. valid_hash (se_hash_receipts env x))"

text \<open>The worker of a lease is named by the server (\<open>worker:\<close> and a UUID).\<close>

fun request_ok :: "setup_request \<Rightarrow> bool" where
  "request_ok (LeaseNextTask i worker ms) = valid_id worker"
| "request_ok _ = True"

inductive setup_step :: "setup_env \<Rightarrow> string \<Rightarrow> setup_world \<Rightarrow> setup_world \<Rightarrow> bool" for env owner where
  swapped: "existing \<in> versions w \<Longrightarrow> request_ok rq \<Longrightarrow> valid_uuid u \<Longrightarrow> u \<notin> sw_uuids w \<Longrightarrow>
    apply_request env owner now u rq (working_copy owner existing) = Inr (Some st) \<Longrightarrow>
    compareAndSwap owner (map_option ss_revision existing) (stamp existing st) (stored_now w) = Inr (Some nxt) \<Longrightarrow>
    setup_step env owner w (w\<lparr>sw_history := nxt # sw_history w, sw_uuids := insert u (sw_uuids w)\<rparr>)"
| completed: "valid_id room \<Longrightarrow> stored_now w = Some st \<Longrightarrow>
    completeSetupExecution env (Some \<lparr>os_ownerUserId = Some owner, os_starterRoomId = Some room,
        os_onboardingVersion = version, os_onboardingCompletedAt = onboarded\<rparr>) (Some st) input = Inr (os, nxt) \<Longrightarrow>
    setup_step env owner w (w\<lparr>sw_history := nxt # sw_history w\<rparr>)"
| burned: "setup_step env owner w (w\<lparr>sw_uuids := insert u (sw_uuids w)\<rparr>)"

inductive setup_reachable :: "setup_env \<Rightarrow> string \<Rightarrow> setup_world \<Rightarrow> bool" for env owner where
  first: "setup_reachable env owner \<lparr>sw_history = [], sw_uuids = {}\<rparr>"
| later: "setup_reachable env owner w \<Longrightarrow> setup_step env owner w w' \<Longrightarrow> setup_reachable env owner w'"

subsection \<open>A swap that succeeds was of the current document\<close>

lemma compareAndSwap_Some:
  "compareAndSwap owner expected nxt stored = Inr (Some nxt') \<Longrightarrow>
   nxt' = nxt \<and> setup_schema nxt \<and> ss_ownerId nxt = owner \<and> map_option ss_revision stored = expected \<and>
   ss_revision nxt = (case expected of None \<Rightarrow> 0 | Some n \<Rightarrow> Suc n)"
  by (auto simp: compareAndSwap_def split: if_splits)

lemma createSetupCompletion_Inr:
  assumes "createSetupCompletion env st input room = Inr c"
  shows "ss_ownerId st = ci_ownerId input \<and> ss_revision st = ci_expectedStateRevision input \<and>
    co_runId c = ci_runId input \<and> completion_schema c \<and> find_run st (ci_runId input) \<noteq> None"
  using assms unfolding createSetupCompletion_def
  by (auto split: if_splits option.splits prod.splits simp: Let_def find_run_def dest!: find_SomeD)

lemma completeSetupExecution_Inr:
  assumes "completeSetupExecution env setup (Some st) input = Inr (os, nxt)"
  shows "\<exists>room c. createSetupCompletion env st input room = Inr c \<and>
    nxt = st\<lparr>ss_revision := Suc (ss_revision st), ss_completion := Some c\<rparr> \<and> setup_schema nxt"
  using assms unfolding completeSetupExecution_def
  by (auto simp: Let_def split: option.splits if_splits sum.splits)

definition numbered :: "setup_state list \<Rightarrow> bool" where
  "numbered history \<longleftrightarrow> map ss_revision history = rev [0..<length history]"

lemma numbered_Cons:
  "numbered (st # history) \<longleftrightarrow> ss_revision st = length history \<and> numbered history"
  by (auto simp: numbered_def)

lemma numbered_unique:
  "numbered history \<Longrightarrow> st \<in> set history \<Longrightarrow> st' \<in> set history \<Longrightarrow> ss_revision st = ss_revision st' \<Longrightarrow> st = st'"
proof -
  assume n: "numbered history" and s: "st \<in> set history" "st' \<in> set history" "ss_revision st = ss_revision st'"
  have "distinct (map ss_revision history)" using n by (simp add: numbered_def)
  then show "st = st'" using s by (simp add: distinct_map inj_on_def)
qed

lemma setup_reachable_numbered: "setup_reachable env owner w \<Longrightarrow> numbered (sw_history w)"
proof (induction rule: setup_reachable.induct)
  case first
  show ?case by (simp add: numbered_def)
next
  case (later w w')
  from later(2) show ?case
  proof (cases rule: setup_step.cases)
    case (swapped existing rq u now st nxt)
    then show ?thesis using later.IH compareAndSwap_Some[OF swapped(7)]
      by (cases "sw_history w"; cases existing) (auto simp: stored_now_def numbered_Cons)
  next
    case (completed room st version onboarded input os nxt)
    then show ?thesis using later.IH completeSetupExecution_Inr[OF completed(4)]
      by (cases "sw_history w") (auto simp: stored_now_def numbered_Cons)
  next
    case (burned u)
    then show ?thesis using later.IH by simp
  qed
qed

lemma swap_reads_current:
  assumes "setup_reachable env owner w" and "existing \<in> versions w"
    and "map_option ss_revision (stored_now w) = map_option ss_revision existing"
  shows "existing = stored_now w"
proof (cases existing)
  case None
  then show ?thesis using assms(3) by simp
next
  case (Some st)
  then obtain st' where s: "stored_now w = Some st'" "ss_revision st' = ss_revision st"
    using assms(3) by (cases "stored_now w") auto
  have "st \<in> set (sw_history w)" "st' \<in> set (sw_history w)"
    using assms(2) Some s(1) by (auto simp: versions_def stored_now_def split: list.splits)
  then show ?thesis using numbered_unique[OF setup_reachable_numbered[OF assms(1)]] s Some by auto
qed

text \<open>A document that \<open>mutate\<close> stores is one successful attempt of it: the handler applied to what
  that attempt read.\<close>

lemma mutate_from_stores:
  "mutate_from left k owner change views = (r, Some nxt) \<Longrightarrow>
   \<exists>j v st. k \<le> j \<and> j < k + left \<and> r = Inr v \<and> change j (working_copy owner (fst (views j))) = Inr (v, Some st) \<and>
     compareAndSwap owner (map_option ss_revision (fst (views j))) (stamp (fst (views j)) st) (snd (views j)) =
       Inr (Some nxt)"
proof (induction left k owner change views rule: mutate_from.induct)
  case (2 left k owner change views)
  obtain existing stored where v: "views k = (existing, stored)" by (cases "views k")
  show ?case
  proof (cases "change k (working_copy owner existing)")
    case (Inr p)
    then obtain val o' where p: "change k (working_copy owner existing) = Inr (val, o')" by (cases p) auto
    then obtain st where st: "o' = Some st" using 2(2) v by (cases o') auto
    show ?thesis
    proof (cases "compareAndSwap owner (map_option ss_revision existing) (stamp existing st) stored")
      case (Inr c)
      show ?thesis
      proof (cases c)
        case None
        have "mutate_from left (Suc k) owner change views = (r, Some nxt)"
          using 2(2) v p st Inr None by simp
        then have "\<exists>j v st. Suc k \<le> j \<and> j < Suc k + left \<and> r = Inr v \<and>
            change j (working_copy owner (fst (views j))) = Inr (v, Some st) \<and>
            compareAndSwap owner (map_option ss_revision (fst (views j))) (stamp (fst (views j)) st) (snd (views j)) =
              Inr (Some nxt)"
          using 2(1)[OF v[symmetric] p refl st Inr None] by blast
        then show ?thesis by (metis Suc_leD add_Suc_shift)
      next
        case (Some nxt')
        then have "r = Inr val" "nxt' = nxt" using 2(2) v p st Inr by auto
        then show ?thesis using v p st Inr Some by (intro exI[of _ k]) auto
      qed
    next
      case (Inl e)
      then show ?thesis using 2(2) v p st by simp
    qed
  next
    case (Inl e)
    then show ?thesis using 2(2) v by simp
  qed
qed simp

end
