(* ===== verification/Setup_Actions.thy ===== *)
theory Setup_Actions
  imports Setup_Store
begin

text \<open>
  What a plan's action list is worth: whatever features are selected, the ids of its actions are
  distinct, fit the identifier pattern with room for the prefix of a task id, there are at most 53 of
  them, and every action comes after the actions it depends on.
\<close>

subsection \<open>Generic facts\<close>

lemma distinct_concat_filter:
  "distinct (concat (map g xs)) \<Longrightarrow> distinct (concat (map g (filter P xs)))"
proof (induction xs)
  case (Cons x xs)
  have "set (concat (map g (filter P xs))) \<subseteq> set (concat (map g xs))" by auto
  then show ?case using Cons by auto
qed simp

lemma length_concat_filter: "length (concat (map g (filter P xs))) \<le> length (concat (map g xs))"
  by (induction xs) auto

subsection \<open>Ids of actions\<close>

definition entry_ids :: "setup_feature \<Rightarrow> string list" where
  "entry_ids f = (if sf_id f = ''agent:opencode'' then [PREPARE_ID] else []) @ [finalActionId (sf_id f)]"

definition last_ids :: "string list" where
  "last_ids = [''action:dock:settings:APPLY_SETTINGS'', ''action:dock:rooms:ENSURE_STARTER_ROOM'',
     ''action:agent:opencode:WRITE_INSTALLATION_MEMORY'']"

lemma feature_actions_ids: "map pa_id (feature_actions S f) = entry_ids f"
  by (simp add: feature_actions_def entry_ids_def)

lemma buildActions_ids:
  "map pa_id (buildActions ids) =
   concat (map entry_ids (filter (\<lambda>f. sf_id f \<in> set ids) SETUP_CATALOG)) @ last_ids"
  by (simp add: buildActions_def Let_def map_concat feature_actions_ids last_ids_def comp_def)

definition ids_in_order :: bool where
  "ids_in_order \<longleftrightarrow> (let ids = concat (map entry_ids SETUP_CATALOG) @ last_ids in
     distinct ids \<and> length ids = 53 \<and> list_all (\<lambda>i. valid_id i \<and> length i \<le> 80) ids \<and>
     list_all (\<lambda>f. valid_feature (sf_id f)) SETUP_CATALOG)"

lemma ids_in_order: ids_in_order
  by code_simp

lemma catalogue_valid: "f \<in> set SETUP_CATALOG \<Longrightarrow> valid_feature (sf_id f)"
  using ids_in_order by (simp add: ids_in_order_def Let_def list_all_iff)

lemma buildActions_distinct: "distinct (map pa_id (buildActions ids))"
proof -
  have d: "distinct (concat (map entry_ids SETUP_CATALOG) @ last_ids)"
    using ids_in_order by (simp add: ids_in_order_def Let_def)
  then have "distinct (concat (map entry_ids (filter (\<lambda>f. sf_id f \<in> set ids) SETUP_CATALOG)))"
    by (intro distinct_concat_filter) simp
  with d show ?thesis unfolding buildActions_ids by (auto simp del: set_concat) (auto simp: disjoint_iff)
qed

lemma buildActions_length: "length (buildActions ids) \<le> 53"
proof -
  have "length (map pa_id (buildActions ids)) \<le> length (concat (map entry_ids SETUP_CATALOG) @ last_ids)"
    unfolding buildActions_ids using length_concat_filter by simp
  also have "\<dots> = 53" using ids_in_order by (simp only: ids_in_order_def Let_def)
  finally show ?thesis by simp
qed

lemma buildActions_id_valid:
  assumes "i \<in> pa_id ` set (buildActions ids)"
  shows "valid_id i \<and> length i \<le> 80"
proof -
  have "i \<in> set (map pa_id (buildActions ids))" using assms by simp
  then have "i \<in> set (concat (map entry_ids SETUP_CATALOG) @ last_ids)"
    unfolding buildActions_ids by auto
  then show ?thesis using ids_in_order unfolding ids_in_order_def Let_def list_all_iff by blast
qed

subsection \<open>Dependencies come first\<close>

fun ordered_actions :: "string set \<Rightarrow> plan_action list \<Rightarrow> bool" where
  "ordered_actions seen [] = True"
| "ordered_actions seen (a # rest) =
     (set (pa_dependsOn a) \<subseteq> seen \<and> ordered_actions (insert (pa_id a) seen) rest)"

fun ordered_features :: "feature_id set \<Rightarrow> setup_feature list \<Rightarrow> bool" where
  "ordered_features seen [] = True"
| "ordered_features seen (f # rest) =
     (set (sf_dependencies f) \<subseteq> seen \<and> ordered_features (insert (sf_id f) seen) rest)"

lemma SETUP_CATALOG_ordered: "ordered_features {} SETUP_CATALOG"
  by code_simp

lemma ordered_actions_append:
  "ordered_actions seen (xs @ ys) \<longleftrightarrow> ordered_actions seen xs \<and> ordered_actions (seen \<union> pa_id ` set xs) ys"
  by (induction xs arbitrary: seen) auto

lemma ordered_feature_actions:
  "ordered_features known fs \<Longrightarrow> finalActionId ` (known \<inter> S) \<subseteq> seen \<Longrightarrow>
   ordered_actions seen (concat (map (feature_actions S) (filter (\<lambda>f. sf_id f \<in> S) fs)))"
proof (induction fs arbitrary: known seen)
  case (Cons f fs)
  show ?case
  proof (cases "sf_id f \<in> S")
    case False
    then have "insert (sf_id f) known \<inter> S = known \<inter> S" by auto
    then have "finalActionId ` (insert (sf_id f) known \<inter> S) \<subseteq> seen" using Cons.prems(2) by simp
    then show ?thesis using False Cons.prems(1) Cons.IH[of "insert (sf_id f) known" seen] by simp
  next
    case True
    have deps: "set (sf_dependencies f) \<subseteq> known" using Cons.prems(1) by simp
    have here: "ordered_actions seen (feature_actions S f)"
      using deps Cons.prems(2) by (auto simp: feature_actions_def)
    have ids: "pa_id ` set (feature_actions S f) = set (entry_ids f)"
      using feature_actions_ids[of S f] by (metis set_map)
    have "finalActionId ` (insert (sf_id f) known \<inter> S) \<subseteq> seen \<union> pa_id ` set (feature_actions S f)"
      using Cons.prems(2) unfolding ids by (auto simp: entry_ids_def)
    then show ?thesis using True here Cons.prems(1) Cons.IH[of "insert (sf_id f) known"]
      by (simp add: ordered_actions_append)
  qed
qed simp

lemma buildActions_ordered: "ordered_actions {} (buildActions ids)"
  unfolding buildActions_def Let_def ordered_actions_append
  by (intro conjI ordered_feature_actions[OF SETUP_CATALOG_ordered]) auto

text \<open>So an action depends only on actions of the list.\<close>

lemma ordered_actions_deps:
  "ordered_actions seen as \<Longrightarrow> a \<in> set as \<Longrightarrow> set (pa_dependsOn a) \<subseteq> seen \<union> pa_id ` set as"
  by (induction as arbitrary: seen) fastforce+

lemma buildActions_deps: "a \<in> set (buildActions ids) \<Longrightarrow> set (pa_dependsOn a) \<subseteq> pa_id ` set (buildActions ids)"
  using ordered_actions_deps[OF buildActions_ordered] by blast

lemma catalogue_dependencies_few: "list_all (\<lambda>f. length (sf_dependencies f) \<le> 1) SETUP_CATALOG"
  by code_simp

lemma buildActions_features: "a \<in> set (buildActions ids) \<Longrightarrow> valid_feature (pa_featureId a)"
proof -
  assume a: "a \<in> set (buildActions ids)"
  have last: "valid_feature ''dock:settings'' \<and> valid_feature ''dock:rooms'' \<and> valid_feature ''agent:opencode''"
    by code_simp
  show ?thesis using a catalogue_valid last
    by (auto simp: buildActions_def Let_def feature_actions_def split: if_splits)
qed

lemma buildActions_deps_length: "a \<in> set (buildActions ids) \<Longrightarrow> length (pa_dependsOn a) \<le> 200"
proof -
  assume a: "a \<in> set (buildActions ids)"
  let ?acts = "concat (map (feature_actions (set ids)) (filter (\<lambda>f. sf_id f \<in> set ids) SETUP_CATALOG))"
  have len: "length ?acts \<le> 53" using buildActions_length[of ids] by (simp add: buildActions_def Let_def)
  have few: "f \<in> set SETUP_CATALOG \<Longrightarrow> length (sf_dependencies f) \<le> 1" for f
    using catalogue_dependencies_few by (simp add: list_all_iff)
  have small: "length (pa_dependsOn b) \<le> 2" if f: "f \<in> set SETUP_CATALOG" and b: "b \<in> set (feature_actions S f)" for f b S
  proof -
    have "length (filter (\<lambda>i. i \<in> S) (sf_dependencies f)) \<le> 1"
      using few[OF f] by (meson le_trans length_filter_le)
    then show ?thesis using b by (auto simp: feature_actions_def split: if_splits)
  qed
  from a consider "a \<in> set ?acts" | "pa_dependsOn a = map pa_id ?acts" | "length (pa_dependsOn a) = 1"
    by (auto simp: buildActions_def Let_def)
  then show ?thesis
  proof cases
    case 1
    then obtain f where "f \<in> set SETUP_CATALOG" "a \<in> set (feature_actions (set ids) f)" by auto
    then show ?thesis using small by fastforce
  qed (use len in simp_all)
qed

lemma buildActions_schema:
  assumes a: "a \<in> set (buildActions ids)"
  shows "action_schema a"
proof -
  have "valid_id (pa_id a)" using buildActions_id_valid[of "pa_id a" ids] a by simp
  moreover have "list_all valid_id (pa_dependsOn a)"
    unfolding list_all_iff using buildActions_deps[OF a] buildActions_id_valid[of _ ids] by auto
  ultimately show ?thesis
    using buildActions_features[OF a] buildActions_deps_length[OF a] by (simp add: action_schema_def)
qed

subsection \<open>The identifiers the server makes\<close>

lemma id_char_uuid: "valid_uuid u \<Longrightarrow> list_all id_char u"
  by (auto simp: valid_uuid_def list_all_iff id_char_def)

lemma valid_id_prefixed:
  assumes "valid_uuid u" and "list_all id_char p" and "length p \<le> 90"
  shows "valid_id (p @ u)"
  using assms id_char_uuid[OF assms(1)] by (simp add: valid_id_def valid_uuid_def)

lemma prefixes_fine:
  "list_all id_char ''run:'' \<and> list_all id_char ''plan:'' \<and> list_all id_char ''draft:'' \<and>
   list_all id_char ''receipt:'' \<and> list_all id_char ''task:'' \<and> id_char (CHR '':'')"
  by code_simp

lemma valid_made_ids:
  assumes "valid_uuid u"
  shows "valid_id (''run:'' @ u)" "valid_id (''plan:'' @ u)" "valid_id (''draft:'' @ u)" "valid_id (''receipt:'' @ u)"
proof -
  have made: "list_all id_char p \<Longrightarrow> length p \<le> 90 \<Longrightarrow> valid_id (p @ u)" for p
    by (rule valid_id_prefixed[OF assms])
  show "valid_id (''run:'' @ u)" by (rule made) (use prefixes_fine in simp_all)
  show "valid_id (''plan:'' @ u)" by (rule made) (use prefixes_fine in simp_all)
  show "valid_id (''draft:'' @ u)" by (rule made) (use prefixes_fine in simp_all)
  show "valid_id (''receipt:'' @ u)" by (rule made) (use prefixes_fine in simp_all)
qed

lemma task_id_valid:
  assumes u: "valid_uuid u" and a: "valid_id a \<and> length a \<le> 80"
  shows "valid_id (task_id (''run:'' @ u) a)"
proof -
  have "task_id (''run:'' @ u) a = ''task:'' @ u @ '':'' @ a" by (simp add: task_id_def)
  then show ?thesis using a id_char_uuid[OF u] prefixes_fine u
    by (simp add: valid_id_def valid_uuid_def)
qed

lemma task_id_inject:
  assumes "valid_uuid u" and "valid_uuid v"
  shows "task_id (''run:'' @ u) a = task_id (''run:'' @ v) b \<longleftrightarrow> u = v \<and> a = b"
  using assms by (simp add: task_id_def valid_uuid_def)

lemma new_task_key_valid:
  assumes "env_ok env"
  shows "valid_reference (tk_idempotencyKey (new_task env owner digest i a))"
proof -
  let ?h = "se_hash_action env (owner, pa_id a, digest)"
  have h: "length ?h = 64" "list_all (\<lambda>c. decimal c \<or> (CHR ''a'' \<le> c \<and> c \<le> CHR ''f'')) ?h"
    using assms by (auto simp: env_ok_def valid_hash_def)
  have le: "CHR ''a'' \<le> c \<and> c \<le> CHR ''f'' \<Longrightarrow> lower_letter c" for c
    unfolding lower_letter_def by (auto simp: less_eq_char_def)
  have "list_all (\<lambda>c. lower_letter c \<or> decimal c \<or> c \<in> set ''._:-'') (take 48 ?h)"
    using h(2) le set_take_subset[of 48 ?h] by (auto simp: list_all_iff)
  moreover have "lower_letter (CHR ''a'') \<and> list_all (\<lambda>c. lower_letter c \<or> decimal c \<or> c \<in> set ''._:-'') ''ction:''"
    by code_simp
  ultimately show ?thesis using h(1) by (simp add: new_task_def valid_reference_def headed_def)
qed

end
