(* ===== verification/Setup_Invariant.thy ===== *)
theory Setup_Invariant
  imports Setup_Actions
begin

text \<open>
  The invariant of the setup document, in parts that different handlers touch:

  \<^item> \<open>graph_ok\<close>: who refers to whom. Every run has its plan and exactly that plan's tasks; requests
    and the completion name runs that are there; ids are the server's.
  \<^item> \<open>tasks_ok\<close>, \<open>receipts_ok\<close>: every task holds a lease exactly while it is worked on; a task has at
    most one receipt, and one that is ready has it.
  \<^item> \<open>phases_ok\<close>: how the status of a run and the statuses of its tasks belong together.
  \<^item> \<open>log_ok\<close>: the events of a run are numbered without gaps up to its sequence number.
  \<^item> \<open>small\<close>: at most six runs and ten plans, what \<open>compactSetupHistory\<close> leaves.

  Logging an event touches only the log and a run's sequence number; \<open>quiet\<close> forgets both, so that
  the other parts of the invariant are proved on the handler without its events.
\<close>

text \<open>The predicate on options evaluates on both constructors.\<close>

lemma pred_option_code [code]: "pred_option P None \<longleftrightarrow> True" "pred_option P (Some x) \<longleftrightarrow> P x"
  by simp_all

subsection \<open>The parts\<close>

definition run_ids :: "setup_state \<Rightarrow> string set" where
  "run_ids st = rn_id ` set (ss_runs st)"

definition run_name :: "string \<Rightarrow> string" where
  "run_name u = ''run:'' @ u"

lemma task_id_run_name:
  "valid_uuid u \<Longrightarrow> valid_uuid v \<Longrightarrow> task_id (run_name u) a = task_id (run_name v) b \<longleftrightarrow> u = v \<and> a = b"
  unfolding run_name_def by (rule task_id_inject)

lemma run_name_valid: "valid_uuid u \<Longrightarrow> valid_id (run_name u)"
  unfolding run_name_def by (rule valid_made_ids)

lemma task_name_valid: "valid_uuid u \<Longrightarrow> valid_id a \<and> length a \<le> 80 \<Longrightarrow> valid_id (task_id (run_name u) a)"
  unfolding run_name_def by (rule task_id_valid)

definition action_shape :: "string \<Rightarrow> plan_action \<Rightarrow> string \<times> string \<times> action_id \<times> feature_id \<times> string list" where
  "action_shape i a = (task_id i (pa_id a), i, pa_actionId a, pa_featureId a, map (task_id i) (pa_dependsOn a))"

definition task_shape :: "setup_task \<Rightarrow> string \<times> string \<times> action_id \<times> feature_id \<times> string list" where
  "task_shape k = (tk_id k, tk_runId k, tk_actionId k, tk_featureId k, tk_dependsOn k)"

definition plan_made :: "string \<Rightarrow> setup_plan \<Rightarrow> bool" where
  "plan_made owner p \<longleftrightarrow> plan_schema p \<and> pl_ownerId p = owner \<and> (\<exists>ids. pl_actions p = buildActions ids)"

definition run_made :: "string \<Rightarrow> setup_state \<Rightarrow> setup_run \<Rightarrow> bool" where
  "run_made owner st r \<longleftrightarrow> (\<exists>u. valid_uuid u \<and> rn_id r = run_name u) \<and> rn_ownerId r = owner \<and>
     (\<exists>p \<in> set (ss_plans st). pl_id p = rn_planId r \<and>
        map task_shape (tasks_of st (rn_id r)) = map (action_shape (rn_id r)) (pl_actions p))"

definition graph_ok :: "string \<Rightarrow> setup_state \<Rightarrow> bool" where
  "graph_ok owner st \<longleftrightarrow>
     valid_id owner \<and> ss_ownerId st = owner \<and>
     pred_option (\<lambda>d. draft_schema d \<and> dr_ownerId d = owner) (ss_draft st) \<and>
     (\<forall>p \<in> set (ss_plans st). plan_made owner p) \<and> distinct (map pl_id (ss_plans st)) \<and>
     (\<forall>r \<in> set (ss_runs st). run_made owner st r) \<and> distinct (map rn_id (ss_runs st)) \<and>
     (\<forall>k \<in> set (ss_tasks st). tk_runId k \<in> run_ids st) \<and>
     (\<forall>e \<in> set (ss_runIdempotency st). valid_reference (fst e) \<and> snd e \<in> run_ids st) \<and>
     distinct (map fst (ss_runIdempotency st)) \<and> distinct (map snd (ss_runIdempotency st)) \<and>
     pred_option (\<lambda>c. completion_schema c \<and> co_runId c \<in> run_ids st) (ss_completion st)"

definition working :: "setup_task_status \<Rightarrow> bool" where
  "working s \<longleftrightarrow> s = Task_INSTALLING \<or> s = Task_CHECKING"

definition task_ok :: "setup_task \<Rightarrow> bool" where
  "task_ok k \<longleftrightarrow>
     valid_reference (tk_idempotencyKey k) \<and> pred_option valid_id (tk_leaseOwner k) \<and>
     pred_option valid_reason (tk_errorCode k) \<and> pred_option valid_reference (tk_resultRef k) \<and>
     tk_status k \<noteq> Task_WAITING_FOR_INPUT \<and> tk_status k \<noteq> Task_PAUSED \<and>
     (tk_leaseOwner k \<noteq> None \<longleftrightarrow> working (tk_status k)) \<and>
     (tk_leaseExpiresAt k \<noteq> None \<longleftrightarrow> working (tk_status k)) \<and>
     (tk_status k = Task_INSTALLING \<longrightarrow> tk_actionId k \<in> set installationActions) \<and>
     (tk_status k = Task_CHECKING \<longrightarrow> tk_actionId k \<notin> set installationActions)"

definition tasks_ok :: "setup_state \<Rightarrow> bool" where
  "tasks_ok st \<longleftrightarrow> (\<forall>k \<in> set (ss_tasks st). task_ok k)"

definition receipts_ok :: "setup_state \<Rightarrow> bool" where
  "receipts_ok st \<longleftrightarrow> distinct (map rc_taskId (ss_receipts st)) \<and>
     (\<forall>r \<in> set (ss_receipts st). receipt_schema r \<and>
        (\<exists>k \<in> set (ss_tasks st). tk_id k = rc_taskId r \<and> tk_runId k = rc_runId r)) \<and>
     (\<forall>k \<in> set (ss_tasks st). tk_status k = Task_READY \<longrightarrow> tk_id k \<in> rc_taskId ` set (ss_receipts st))"

definition occurs :: "setup_task_status \<Rightarrow> setup_task list \<Rightarrow> nat" where
  "occurs s ks = length (filter (\<lambda>k. tk_status k = s) ks)"

definition phase_ok :: "setup_run_status \<Rightarrow> setup_task list \<Rightarrow> bool" where
  "phase_ok s ks \<longleftrightarrow>
     s \<noteq> Run_WAITING_FOR_INPUT \<and>
     (s = Run_READY \<longrightarrow> (\<forall>k \<in> set ks. tk_status k = Task_READY)) \<and>
     (s = Run_RUNNING \<or> s = Run_PAUSED \<longrightarrow> (\<exists>k \<in> set ks. tk_status k \<noteq> Task_READY)) \<and>
     (s \<noteq> Run_CANCELLED \<longrightarrow> (\<forall>k \<in> set ks. tk_status k \<noteq> Task_CANCELLED)) \<and>
     (s = Run_CANCELLED \<longrightarrow> (\<forall>k \<in> set ks. tk_status k = Task_READY \<or> tk_status k = Task_CANCELLED)) \<and>
     occurs Task_INSTALLING ks \<le> 1 \<and> occurs Task_CHECKING ks \<le> 2"

definition phases_ok :: "setup_state \<Rightarrow> bool" where
  "phases_ok st \<longleftrightarrow> (\<forall>r \<in> set (ss_runs st). 0 < rn_revision r \<and> phase_ok (rn_status r) (tasks_of st (rn_id r)))"

definition events_of :: "setup_state \<Rightarrow> string \<Rightarrow> setup_event list" where
  "events_of st i = filter (\<lambda>e. ev_runId e = i) (ss_events st)"

definition numbered_upto :: "nat \<Rightarrow> setup_event list \<Rightarrow> bool" where
  "numbered_upto n es \<longleftrightarrow> length es \<le> n \<and> map ev_sequence es = [Suc n - length es..<Suc n]"

definition log_ok :: "setup_state \<Rightarrow> bool" where
  "log_ok st \<longleftrightarrow> length (ss_events st) \<le> 500 \<and>
     (\<forall>e \<in> set (ss_events st). event_schema e \<and> ev_runId e \<in> run_ids st) \<and>
     (\<forall>r \<in> set (ss_runs st). numbered_upto (rn_eventSequence r) (events_of st (rn_id r)))"

definition core_ok :: "string \<Rightarrow> setup_state \<Rightarrow> bool" where
  "core_ok owner st \<longleftrightarrow> graph_ok owner st \<and> tasks_ok st \<and> receipts_ok st \<and> phases_ok st"

definition small :: "setup_state \<Rightarrow> bool" where
  "small st \<longleftrightarrow> length (ss_runs st) \<le> 6 \<and> length (ss_plans st) \<le> 10"

definition setup_ok :: "string \<Rightarrow> setup_state \<Rightarrow> bool" where
  "setup_ok owner st \<longleftrightarrow> core_ok owner st \<and> log_ok st \<and> small st"

subsection \<open>The invariant gives the schema\<close>

lemma filter_fibre_length:
  assumes "distinct is" and "\<forall>x \<in> set xs. f x \<in> set is" and "\<forall>i \<in> set is. length (filter (\<lambda>x. f x = i) xs) \<le> n"
  shows "length xs \<le> length is * n"
  using assms
proof (induction "is" arbitrary: xs)
  case (Cons i "is")
  let ?rest = "filter (\<lambda>x. f x \<noteq> i) xs"
  have "length (filter (\<lambda>x. f x = j) ?rest) \<le> n" if j: "j \<in> set is" for j
  proof -
    have "filter (\<lambda>x. f x = j) ?rest = filter (\<lambda>x. f x = j) xs"
      using Cons.prems(1) j by (auto intro: filter_cong)
    then show ?thesis using Cons.prems(3) j by simp
  qed
  then have "length ?rest \<le> length is * n" using Cons.prems by (intro Cons.IH) auto
  moreover have "length xs = length (filter (\<lambda>x. f x = i) xs) + length ?rest"
    using sum_length_filter_compl[of "\<lambda>x. f x = i" xs] by simp
  ultimately show ?case using Cons.prems(3) by fastforce
qed simp

lemma task_of_run:
  assumes "graph_ok owner st" and "k \<in> set (ss_tasks st)"
  obtains r p a where "r \<in> set (ss_runs st)" and "rn_id r = tk_runId k" and "p \<in> set (ss_plans st)"
    and "pl_id p = rn_planId r" and "a \<in> set (pl_actions p)" and "task_shape k = action_shape (tk_runId k) a"
proof -
  obtain r where r: "r \<in> set (ss_runs st)" "rn_id r = tk_runId k"
    using assms by (auto simp: graph_ok_def run_ids_def)
  then obtain p where p: "p \<in> set (ss_plans st)" "pl_id p = rn_planId r"
    and shape: "map task_shape (tasks_of st (rn_id r)) = map (action_shape (rn_id r)) (pl_actions p)"
    using assms(1) by (auto simp: graph_ok_def run_made_def)
  have "task_shape k \<in> set (map task_shape (tasks_of st (rn_id r)))"
    using assms(2) r(2) by (simp add: tasks_of_def)
  then obtain a where "a \<in> set (pl_actions p)" "task_shape k = action_shape (tk_runId k) a"
    unfolding shape using r(2) by auto
  then show ?thesis using that r p by blast
qed

lemma run_made_id: "run_made owner st r \<Longrightarrow> valid_id (rn_id r)"
  using run_name_valid by (auto simp: run_made_def)

lemma tasks_of_count:
  assumes "graph_ok owner st" and "r \<in> set (ss_runs st)"
  shows "length (tasks_of st (rn_id r)) \<le> 53" and "tasks_of st (rn_id r) \<noteq> []"
    and "distinct (map tk_id (tasks_of st (rn_id r)))"
proof -
  obtain p u where p: "p \<in> set (ss_plans st)" "valid_uuid u" "rn_id r = run_name u"
      "map task_shape (tasks_of st (rn_id r)) = map (action_shape (rn_id r)) (pl_actions p)"
    using assms by (auto simp: graph_ok_def run_made_def)
  then obtain ids where ids: "pl_actions p = buildActions ids" using assms(1) by (auto simp: graph_ok_def plan_made_def)
  have len: "length (tasks_of st (rn_id r)) = length (buildActions ids)"
    using p(4) ids by (metis length_map)
  show "length (tasks_of st (rn_id r)) \<le> 53" using len buildActions_length by simp
  have "buildActions ids \<noteq> []" by (simp add: buildActions_def Let_def)
  then show "tasks_of st (rn_id r) \<noteq> []" using len by auto
  have "map tk_id (tasks_of st (rn_id r)) = map fst (map task_shape (tasks_of st (rn_id r)))"
    by (simp add: task_shape_def)
  also have "\<dots> = map (task_id (rn_id r)) (map pa_id (buildActions ids))"
    unfolding p(4) ids by (simp add: action_shape_def)
  also have "distinct \<dots>"
    by (subst distinct_map) (auto simp: inj_on_def p(3) task_id_run_name[OF p(2) p(2)] buildActions_distinct)
  finally show "distinct (map tk_id (tasks_of st (rn_id r)))" .
qed

lemma task_id_run:
  assumes "graph_ok owner st" and "k \<in> set (ss_tasks st)"
  shows "\<exists>u a. valid_uuid u \<and> tk_runId k = run_name u \<and> tk_id k = task_id (run_name u) a \<and>
    valid_id a \<and> length a \<le> 80"
proof -
  obtain r p a where t: "r \<in> set (ss_runs st)" "rn_id r = tk_runId k" "p \<in> set (ss_plans st)"
      "a \<in> set (pl_actions p)" "task_shape k = action_shape (tk_runId k) a"
    by (rule task_of_run[OF assms])
  then obtain u where "valid_uuid u" "tk_runId k = run_name u"
    using assms(1) by (auto simp: graph_ok_def run_made_def)
  moreover have "valid_id (pa_id a) \<and> length (pa_id a) \<le> 80"
  proof -
    obtain ids where "pl_actions p = buildActions ids" using t(3) assms(1) by (auto simp: graph_ok_def plan_made_def)
    then show ?thesis using buildActions_id_valid[of "pa_id a" ids] t(4) by simp
  qed
  moreover have "tk_id k = task_id (tk_runId k) (pa_id a)"
    using t(5) by (simp add: task_shape_def action_shape_def)
  ultimately show ?thesis by metis
qed

lemma tasks_distinct:
  assumes g: "graph_ok owner st"
  shows "distinct (map tk_id (ss_tasks st))"
proof -
  have same_run: "tk_runId k = tk_runId k'" if k: "k \<in> set (ss_tasks st)" "k' \<in> set (ss_tasks st)" "tk_id k = tk_id k'" for k k'
    using task_id_run[OF g k(1)] task_id_run[OF g k(2)] k(3) task_id_run_name by metis
  have "distinct (map tk_id (filter (\<lambda>k. tk_runId k = i) (ss_tasks st)))" if "i \<in> run_ids st" for i
    using that tasks_of_count(3)[OF g] by (auto simp: run_ids_def tasks_of_def)
  then have parts: "distinct (map tk_id (filter (\<lambda>k. tk_runId k = i) (ss_tasks st)))" for i
  proof (cases "i \<in> run_ids st")
    case False
    then have "filter (\<lambda>k. tk_runId k = i) (ss_tasks st) = []"
      using g by (auto simp: graph_ok_def filter_empty_conv)
    then show ?thesis by simp
  qed simp
  have gen: "distinct (map tk_id ks)"
    if "\<And>i. distinct (map tk_id (filter (\<lambda>k. tk_runId k = i) ks))"
      and "\<And>k k'. k \<in> set ks \<Longrightarrow> k' \<in> set ks \<Longrightarrow> tk_id k = tk_id k' \<Longrightarrow> tk_runId k = tk_runId k'" for ks
    using that
  proof (induction ks)
    case (Cons k ks)
    have part: "distinct (map tk_id (filter (\<lambda>k. tk_runId k = i) ks))" for i
      using Cons.prems(1)[of i] by (cases "tk_runId k = i") simp_all
    have "distinct (map tk_id ks)" 
      by (rule Cons.IH[OF part], rule Cons.prems(2)) simp_all
    moreover have "tk_id k \<notin> tk_id ` set ks"
    proof
      assume "tk_id k \<in> tk_id ` set ks"
      then obtain k' where k': "k' \<in> set ks" "tk_id k' = tk_id k" by auto
      then have "tk_runId k' = tk_runId k" by (intro Cons.prems(2)) simp_all
      then show False using Cons.prems(1)[of "tk_runId k"] k' by (auto simp: image_iff)
    qed
    ultimately show ?case by simp
  qed simp
  show ?thesis by (rule gen[OF parts]) (use same_run in blast)
qed

lemma task_fields_valid:
  assumes g: "graph_ok owner st" and k: "k \<in> set (ss_tasks st)" and ok: "task_ok k"
  shows "task_schema k"
proof -
  obtain r p a where t: "r \<in> set (ss_runs st)" "rn_id r = tk_runId k" "p \<in> set (ss_plans st)"
      "a \<in> set (pl_actions p)" "task_shape k = action_shape (tk_runId k) a"
    by (rule task_of_run[OF g k])
  obtain u where u: "valid_uuid u" "tk_runId k = run_name u"
    using t(1,2) g by (auto simp: graph_ok_def run_made_def)
  obtain ids where ids: "pl_actions p = buildActions ids" using g t(3) by (auto simp: graph_ok_def plan_made_def)
  have a: "a \<in> set (buildActions ids)" using t(4) ids by simp
  have shape: "tk_id k = task_id (tk_runId k) (pa_id a)" "tk_featureId k = pa_featureId a"
      "tk_dependsOn k = map (task_id (tk_runId k)) (pa_dependsOn a)"
    using t(5) by (simp_all add: task_shape_def action_shape_def)
  have ids_ok: "valid_id (task_id (tk_runId k) i)" if "i \<in> pa_id ` set (buildActions ids)" for i
    unfolding u(2) by (rule task_name_valid[OF u(1) buildActions_id_valid[OF that]])
  have "valid_id (tk_id k)" using ids_ok a shape(1) by simp
  moreover have "list_all valid_id (tk_dependsOn k)"
    unfolding shape(3) list_all_iff using ids_ok buildActions_deps[OF a] by auto
  moreover have "length (tk_dependsOn k) \<le> 200" using buildActions_deps_length[OF a] shape(3) by simp
  moreover have "valid_feature (tk_featureId k)" using buildActions_features[OF a] shape(2) by simp
  moreover have "valid_id (tk_runId k)" using run_name_valid[OF u(1)] u(2) by simp
  ultimately show ?thesis using ok by (simp add: task_schema_def task_ok_def)
qed

lemma distinct_subset_length: "distinct xs \<Longrightarrow> set xs \<subseteq> set ys \<Longrightarrow> length xs \<le> length ys"
  by (metis card_length card_mono distinct_card finite_set le_trans)

lemma small_lengths:
  assumes "graph_ok owner st" and "receipts_ok st" and "length (ss_runs st) \<le> 6"
  shows "length (ss_tasks st) \<le> 318" and "length (ss_receipts st) \<le> 318" and "length (ss_runIdempotency st) \<le> 6"
proof -
  have "length (ss_tasks st) \<le> length (map rn_id (ss_runs st)) * 53"
  proof (rule filter_fibre_length[where f = tk_runId])
    show "distinct (map rn_id (ss_runs st))" using assms(1) by (simp add: graph_ok_def)
    show "\<forall>k \<in> set (ss_tasks st). tk_runId k \<in> set (map rn_id (ss_runs st))"
      using assms(1) by (simp add: graph_ok_def run_ids_def)
    show "\<forall>i \<in> set (map rn_id (ss_runs st)). length (filter (\<lambda>k. tk_runId k = i) (ss_tasks st)) \<le> 53"
      using tasks_of_count(1)[OF assms(1)] by (auto simp: tasks_of_def)
  qed
  then show t: "length (ss_tasks st) \<le> 318" using assms(3) by simp
  have "set (map rc_taskId (ss_receipts st)) \<subseteq> set (map tk_id (ss_tasks st))"
    using assms(2) by (force simp: receipts_ok_def)
  then have "length (map rc_taskId (ss_receipts st)) \<le> length (map tk_id (ss_tasks st))"
    using assms(2) by (intro distinct_subset_length) (simp_all add: receipts_ok_def)
  then show "length (ss_receipts st) \<le> 318" using t by simp
  have "set (map snd (ss_runIdempotency st)) \<subseteq> set (map rn_id (ss_runs st))"
    using assms(1) by (auto simp: graph_ok_def run_ids_def)
  then have "length (map snd (ss_runIdempotency st)) \<le> length (map rn_id (ss_runs st))"
    using assms(1) by (intro distinct_subset_length) (simp_all add: graph_ok_def)
  then show "length (ss_runIdempotency st) \<le> 6" using assms(3) by simp
qed

lemma setup_ok_schema:
  assumes "setup_ok owner st"
  shows "setup_schema st"
proof -
  have g: "graph_ok owner st" and t: "tasks_ok st" and r: "receipts_ok st" and p: "phases_ok st"
    and l: "log_ok st" and s: "small st"
    using assms by (simp_all add: setup_ok_def core_ok_def)
  note lengths = small_lengths[OF g r s[unfolded small_def, THEN conjunct1]]
  have drafts: "pred_option draft_schema (ss_draft st)" "pred_option (\<lambda>d. dr_ownerId d = ss_ownerId st) (ss_draft st)"
    using g by (cases "ss_draft st"; simp add: graph_ok_def)+
  have plans: "list_all plan_schema (ss_plans st)" "list_all (\<lambda>p. pl_ownerId p = ss_ownerId st) (ss_plans st)"
    using g by (auto simp: graph_ok_def plan_made_def list_all_iff)
  have made: "run_made owner st x" if "x \<in> set (ss_runs st)" for x using g that by (simp add: graph_ok_def)
  have runs: "list_all run_schema (ss_runs st)" "list_all (\<lambda>r. rn_ownerId r = ss_ownerId st) (ss_runs st)"
  proof -
    have "run_schema x" if x: "x \<in> set (ss_runs st)" for x
    proof -
      obtain q where q: "q \<in> set (ss_plans st)" "pl_id q = rn_planId x" using made[OF x] by (auto simp: run_made_def)
      then have "valid_id (rn_planId x)" using plans(1) by (auto simp: list_all_iff plan_schema_def)
      then show ?thesis using made[OF x] run_made_id[OF made[OF x]] g p x
        by (auto simp: run_schema_def run_made_def graph_ok_def phases_ok_def)
    qed
    then show "list_all run_schema (ss_runs st)" by (simp add: list_all_iff)
    show "list_all (\<lambda>r. rn_ownerId r = ss_ownerId st) (ss_runs st)"
      using made g by (auto simp: list_all_iff run_made_def graph_ok_def)
  qed
  have tasks: "list_all task_schema (ss_tasks st)"
    using task_fields_valid[OF g] t by (auto simp: list_all_iff tasks_ok_def)
  have completion: "pred_option completion_schema (ss_completion st)"
    using g by (cases "ss_completion st") (simp_all add: graph_ok_def)
  have run_id_ok: "i \<in> run_ids st \<Longrightarrow> valid_id i" for i using made run_made_id by (auto simp: run_ids_def)
  have idem: "list_all (\<lambda>(key, run). valid_reference key \<and> valid_id run) (ss_runIdempotency st)"
      "list_all (\<lambda>(_, run). run \<in> set (map rn_id (ss_runs st))) (ss_runIdempotency st)"
    using g run_id_ok by (auto simp: list_all_iff graph_ok_def run_ids_def)
  show ?thesis
    unfolding setup_schema_def
    using drafts plans runs tasks completion idem lengths g r l s tasks_distinct[OF g]
    by (intro conjI) (auto simp: graph_ok_def receipts_ok_def log_ok_def small_def list_all_iff run_ids_def)
qed

end
