(* ===== verification/Setup_Effects.thy ===== *)
theory Setup_Effects
  imports Setup_Invariant
begin

text \<open>
  What the building blocks of the handlers do to the parts of the invariant. \<open>cores\<close> is the list of
  runs without their times and sequence numbers, \<open>seqs\<close> the list of their sequence numbers; logging
  leaves the first alone and the second is all the log depends on. With these, a handler is described
  by three equations (its cores, its tasks, its receipts), from which \<open>core_revise\<close> gives the
  invariant once for all handlers that work inside one run.
\<close>

subsection \<open>Cores and sequence numbers\<close>

type_synonym run_core = "string \<times> string \<times> string \<times> setup_run_status \<times> nat"

definition run_summary :: "setup_run \<Rightarrow> run_core" where
  "run_summary r = (rn_id r, rn_planId r, rn_ownerId r, rn_status r, rn_revision r)"

definition cores :: "setup_state \<Rightarrow> run_core list" where
  "cores st = map run_summary (ss_runs st)"

definition seqs :: "setup_state \<Rightarrow> (string \<times> nat) list" where
  "seqs st = map (\<lambda>r. (rn_id r, rn_eventSequence r)) (ss_runs st)"

definition recore :: "string \<Rightarrow> (setup_run_status \<Rightarrow> setup_run_status) \<Rightarrow> nat \<Rightarrow> run_core list \<Rightarrow> run_core list" where
  "recore i g n cs = map (\<lambda>(a, b, c, s, m). if a = i then (a, b, c, g s, m + n) else (a, b, c, s, m)) cs"

definition retask :: "string set \<Rightarrow> (setup_task \<Rightarrow> setup_task) \<Rightarrow> setup_task list \<Rightarrow> setup_task list" where
  "retask ids g ks = map (\<lambda>k. if tk_id k \<in> ids then g k else k) ks"

named_theorems effects \<open>what a building block does to a field of the setup document\<close>

lemma recore_recore [effects]: "recore i g n (recore i g' m cs) = recore i (g \<circ> g') (m + n) cs"
  by (auto simp: recore_def)

lemma update_run_fields [effects]:
  "ss_ownerId (update_run i f st) = ss_ownerId st" "ss_revision (update_run i f st) = ss_revision st"
  "ss_draft (update_run i f st) = ss_draft st" "ss_plans (update_run i f st) = ss_plans st"
  "ss_tasks (update_run i f st) = ss_tasks st" "ss_receipts (update_run i f st) = ss_receipts st"
  "ss_events (update_run i f st) = ss_events st" "ss_runIdempotency (update_run i f st) = ss_runIdempotency st"
  "ss_completion (update_run i f st) = ss_completion st"
  by (simp_all add: update_run_def)

lemma update_task_fields [effects]:
  "ss_ownerId (update_task t g st) = ss_ownerId st" "ss_revision (update_task t g st) = ss_revision st"
  "ss_draft (update_task t g st) = ss_draft st" "ss_plans (update_task t g st) = ss_plans st"
  "ss_runs (update_task t g st) = ss_runs st" "ss_receipts (update_task t g st) = ss_receipts st"
  "ss_events (update_task t g st) = ss_events st" "ss_runIdempotency (update_task t g st) = ss_runIdempotency st"
  "ss_completion (update_task t g st) = ss_completion st"
  "ss_tasks (update_task t g st) = retask {t} g (ss_tasks st)"
  "cores (update_task t g st) = cores st" "seqs (update_task t g st) = seqs st"
  by (simp_all add: update_task_def cores_def seqs_def retask_def)

lemma run_summary_eventSequence: "run_summary (if b then r\<lparr>rn_eventSequence := n\<rparr> else r) = run_summary r"
  by (simp add: run_summary_def)

lemma log_event_fields [effects]:
  "ss_ownerId (log_event i t now st) = ss_ownerId st" "ss_revision (log_event i t now st) = ss_revision st"
  "ss_draft (log_event i t now st) = ss_draft st" "ss_plans (log_event i t now st) = ss_plans st"
  "ss_tasks (log_event i t now st) = ss_tasks st" "ss_receipts (log_event i t now st) = ss_receipts st"
  "ss_runIdempotency (log_event i t now st) = ss_runIdempotency st"
  "ss_completion (log_event i t now st) = ss_completion st" "cores (log_event i t now st) = cores st"
  by (simp_all add: log_event_def effects cores_def update_run_def comp_def run_summary_eventSequence split: option.split)

lemma put_receipt_fields [effects]:
  "ss_ownerId (put_receipt rc st) = ss_ownerId st" "ss_revision (put_receipt rc st) = ss_revision st"
  "ss_draft (put_receipt rc st) = ss_draft st" "ss_plans (put_receipt rc st) = ss_plans st"
  "ss_tasks (put_receipt rc st) = ss_tasks st" "ss_runs (put_receipt rc st) = ss_runs st"
  "ss_events (put_receipt rc st) = ss_events st" "ss_runIdempotency (put_receipt rc st) = ss_runIdempotency st"
  "ss_completion (put_receipt rc st) = ss_completion st"
  "ss_receipts (put_receipt rc st) = filter (\<lambda>r. rc_taskId r \<noteq> rc_taskId rc) (ss_receipts st) @ [rc]"
  "cores (put_receipt rc st) = cores st" "seqs (put_receipt rc st) = seqs st"
  by (simp_all add: put_receipt_def cores_def seqs_def)

lemma record_milestone_fields [effects]:
  "ss_ownerId (record_milestone a st) = ss_ownerId st" "ss_revision (record_milestone a st) = ss_revision st"
  "ss_draft (record_milestone a st) = ss_draft st" "ss_plans (record_milestone a st) = ss_plans st"
  "ss_tasks (record_milestone a st) = ss_tasks st" "ss_runs (record_milestone a st) = ss_runs st"
  "ss_receipts (record_milestone a st) = ss_receipts st"
  "ss_events (record_milestone a st) = ss_events st" "ss_runIdempotency (record_milestone a st) = ss_runIdempotency st"
  "ss_completion (record_milestone a st) = ss_completion st"
  "cores (record_milestone a st) = cores st" "seqs (record_milestone a st) = seqs st"
  by (simp_all add: record_milestone_def cores_def seqs_def)

lemma receipts_update_fields [effects]:
  "cores (ss_receipts_update f st) = cores st" "seqs (ss_receipts_update f st) = seqs st"
  by (simp_all add: cores_def seqs_def)

lemma update_run_cores:
  assumes "\<And>r. run_summary (f r) = (rn_id r, rn_planId r, rn_ownerId r, g (rn_status r), rn_revision r + n)"
  shows "cores (update_run i f st) = recore i g n (cores st)"
  using assms by (auto simp: cores_def update_run_def recore_def run_summary_def)

lemma update_run_seqs:
  assumes "\<And>r. rn_id (f r) = rn_id r" and "\<And>r. rn_eventSequence (f r) = rn_eventSequence r"
  shows "seqs (update_run i f st) = seqs st"
  using assms by (auto simp: seqs_def update_run_def)

lemma run_updates [effects]:
  "cores (update_run i (touch_run s now) st) = recore i (\<lambda>_. s) 1 (cores st)"
  "cores (update_run i (\<lambda>r. touch_run (rn_status r) now r) st) = recore i (\<lambda>s. s) 1 (cores st)"
  "cores (update_run i (\<lambda>r. r\<lparr>rn_status := s, rn_finishedAt := x\<rparr>) st) = recore i (\<lambda>_. s) 0 (cores st)"
  "cores (update_run i (\<lambda>r. (touch_run s now r)\<lparr>rn_finishedAt := x\<rparr>) st) = recore i (\<lambda>_. s) 1 (cores st)"
  "cores (update_run i (restart now) st) = recore i (\<lambda>_. Run_RUNNING) 1 (cores st)"
  "seqs (update_run i (touch_run s now) st) = seqs st"
  "seqs (update_run i (\<lambda>r. touch_run (rn_status r) now r) st) = seqs st"
  "seqs (update_run i (\<lambda>r. r\<lparr>rn_status := s, rn_finishedAt := x\<rparr>) st) = seqs st"
  "seqs (update_run i (\<lambda>r. (touch_run s now r)\<lparr>rn_finishedAt := x\<rparr>) st) = seqs st"
  "seqs (update_run i (restart now) st) = seqs st"
  by (rule update_run_cores update_run_seqs; simp add: run_summary_def touch_run_def restart_def)+

subsection \<open>Loops of logged task updates\<close>

definition logged_update :: "(setup_task \<Rightarrow> setup_task) \<Rightarrow> int \<Rightarrow> string \<Rightarrow> setup_task \<Rightarrow> setup_state \<Rightarrow> setup_state" where
  "logged_update g now i k st = log_event i (tk_id k) now (update_task (tk_id k) g st)"

lemma logged_updates:
  "expire_lease now i = logged_update
     (\<lambda>k. release_lease (k\<lparr>tk_status := Task_NEEDS_ATTENTION, tk_errorCode := Some ''LEASE_EXPIRED_RECONCILE''\<rparr>)) now i"
  "cancel_task now i = logged_update (\<lambda>k. release_lease (k\<lparr>tk_status := Task_CANCELLED\<rparr>)) now i"
  "requeue_retried now i = logged_update (\<lambda>k. (requeue k)\<lparr>tk_resultRef := None\<rparr>) now i"
  "requeue_stale now i = logged_update requeue now i"
  by (simp_all add: logged_update_def expire_lease_def cancel_task_def requeue_retried_def requeue_stale_def fun_eq_iff)

lemma fold_logged_fields [effects]:
  "ss_ownerId (fold (logged_update g now i) ks st) = ss_ownerId st"
  "ss_revision (fold (logged_update g now i) ks st) = ss_revision st"
  "ss_draft (fold (logged_update g now i) ks st) = ss_draft st"
  "ss_plans (fold (logged_update g now i) ks st) = ss_plans st"
  "ss_receipts (fold (logged_update g now i) ks st) = ss_receipts st"
  "ss_runIdempotency (fold (logged_update g now i) ks st) = ss_runIdempotency st"
  "ss_completion (fold (logged_update g now i) ks st) = ss_completion st"
  "cores (fold (logged_update g now i) ks st) = cores st"
  by (induction ks arbitrary: st) (simp_all add: logged_update_def effects)

lemma fold_logged_tasks:
  "distinct (map tk_id ks) \<Longrightarrow> (\<And>k. tk_id (g k) = tk_id k) \<Longrightarrow>
   ss_tasks (fold (logged_update g now i) ks st) = retask (tk_id ` set ks) g (ss_tasks st)"
proof (induction ks arbitrary: st)
  case (Cons k ks)
  then show ?case
    by (auto simp: logged_update_def effects retask_def)
qed (simp add: retask_def)

subsection \<open>The invariant inside one run\<close>

lemma tasks_of_retask:
  "(\<And>k. tk_runId (g k) = tk_runId k) \<Longrightarrow>
   filter (\<lambda>k. tk_runId k = i) (retask ids g ks) = retask ids g (filter (\<lambda>k. tk_runId k = i) ks)"
  by (induction ks) (auto simp: retask_def)

lemma cores_runs:
  "r \<in> set (ss_runs st) \<Longrightarrow> run_summary r \<in> set (cores st)"
  "c \<in> set (cores st) \<Longrightarrow> \<exists>r \<in> set (ss_runs st). run_summary r = c"
  by (auto simp: cores_def)

lemma cores_ids:
  "map rn_id (ss_runs st) = map fst (cores st)"
  by (simp add: cores_def run_summary_def comp_def)

lemma run_ids_cores: "run_ids st = fst ` set (cores st)"
  unfolding run_ids_def using cores_ids[of st] by (metis set_map)

lemma recore_ids: "map fst (recore i g n cs) = map fst cs"
  by (induction cs) (auto simp: recore_def)

lemma core_revise:
  assumes ok: "core_ok owner st"
    and same: "ss_ownerId st' = ss_ownerId st" "ss_draft st' = ss_draft st" "ss_plans st' = ss_plans st"
      "ss_runIdempotency st' = ss_runIdempotency st" "ss_completion st' = ss_completion st"
    and cores: "cores st' = recore i g n (cores st)"
    and tasks: "ss_tasks st' = retask ids h (ss_tasks st)"
    and shape: "\<And>k. task_shape (h k) = task_shape k"
    and mine: "\<And>k. k \<in> set (ss_tasks st) \<Longrightarrow> tk_id k \<in> ids \<Longrightarrow> tk_runId k = i \<and> task_ok (h k)"
    and receipts: "receipts_ok st'"
    and phase: "\<And>r. r \<in> set (ss_runs st) \<Longrightarrow> rn_id r = i \<Longrightarrow> phase_ok (g (rn_status r)) (retask ids h (tasks_of st i))"
  shows "core_ok owner st'"
proof -
  have gr: "graph_ok owner st" and tk: "tasks_ok st" and ph: "phases_ok st"
    using ok by (simp_all add: core_ok_def)
  have keep: "tk_runId (h k) = tk_runId k" "tk_id (h k) = tk_id k" for k
    using shape[of k] by (simp_all add: task_shape_def)
  have of: "tasks_of st' j = retask ids h (tasks_of st j)" for j
    unfolding tasks_of_def tasks by (rule tasks_of_retask) (rule keep)
  have other: "retask ids h (tasks_of st j) = tasks_of st j" if "j \<noteq> i" for j
    using mine that by (auto simp: retask_def tasks_of_def intro!: map_idI)
  have shapes: "map task_shape (retask ids h ks) = map task_shape ks" for ks
    by (auto simp: retask_def shape)
  have ids: "map rn_id (ss_runs st') = map rn_id (ss_runs st)"
    unfolding cores_ids cores recore_ids ..
  then have run_ids: "run_ids st' = run_ids st" unfolding run_ids_def by (metis set_map)
  have pre: "\<exists>r0 \<in> set (ss_runs st). rn_id r = rn_id r0 \<and> rn_planId r = rn_planId r0 \<and>
      rn_ownerId r = rn_ownerId r0 \<and> rn_revision r0 \<le> rn_revision r \<and>
      rn_status r = (if rn_id r0 = i then g (rn_status r0) else rn_status r0)" if r: "r \<in> set (ss_runs st')" for r
  proof -
    have "run_summary r \<in> set (recore i g n (cores st))" using cores_runs(1)[OF r] cores by simp
    then obtain r0 where "r0 \<in> set (ss_runs st)"
        "run_summary r = (case run_summary r0 of (a, b, c, s, m) \<Rightarrow> if a = i then (a, b, c, g s, m + n) else (a, b, c, s, m))"
      by (auto simp: recore_def cores_def)
    then show ?thesis by (intro bexI[of _ r0]) (auto simp: run_summary_def split: if_splits)
  qed
  have made: "run_made owner st' r" if r: "r \<in> set (ss_runs st')" for r
  proof -
    obtain r0 where r0: "r0 \<in> set (ss_runs st)" "rn_id r = rn_id r0" "rn_planId r = rn_planId r0" "rn_ownerId r = rn_ownerId r0"
      using pre[OF r] by blast
    have "run_made owner st r0" using gr r0(1) by (simp add: graph_ok_def)
    then show ?thesis unfolding run_made_def of shapes r0(2-4) same(3) .
  qed
  have "graph_ok owner st'"
  proof -
    have "\<forall>k \<in> set (ss_tasks st'). tk_runId k \<in> run_ids st'"
      using gr keep unfolding tasks run_ids by (auto simp: graph_ok_def retask_def)
    then show ?thesis using gr made unfolding graph_ok_def same ids run_ids by simp
  qed
  moreover have "tasks_ok st'"
    using tk mine unfolding tasks_ok_def tasks by (auto simp: retask_def)
  moreover have "phases_ok st'"
    unfolding phases_ok_def of
  proof
    fix r assume r: "r \<in> set (ss_runs st')"
    then obtain r0 where r0: "r0 \<in> set (ss_runs st)" "rn_id r = rn_id r0" "rn_revision r0 \<le> rn_revision r"
        "rn_status r = (if rn_id r0 = i then g (rn_status r0) else rn_status r0)"
      using pre[OF r] by blast
    have old: "0 < rn_revision r0 \<and> phase_ok (rn_status r0) (tasks_of st (rn_id r0))"
      using ph r0(1) by (simp add: phases_ok_def)
    show "0 < rn_revision r \<and> phase_ok (rn_status r) (retask ids h (tasks_of st (rn_id r)))"
    proof (cases "rn_id r0 = i")
      case True
      then show ?thesis using old r0 phase[OF r0(1) True] by simp
    next
      case False
      then show ?thesis using old r0 other[OF False] by simp
    qed
  qed
  ultimately show ?thesis using receipts by (simp add: core_ok_def)
qed

subsection \<open>The log\<close>

definition log_fine :: "setup_event list \<Rightarrow> (string \<times> nat) list \<Rightarrow> bool" where
  "log_fine es ns \<longleftrightarrow> length es \<le> 500 \<and> (\<forall>e \<in> set es. event_schema e \<and> ev_runId e \<in> fst ` set ns) \<and>
     (\<forall>(i, n) \<in> set ns. numbered_upto n (filter (\<lambda>e. ev_runId e = i) es))"

lemma log_ok_fine: "log_ok st \<longleftrightarrow> log_fine (ss_events st) (seqs st)"
  by (auto simp: log_ok_def log_fine_def seqs_def run_ids_def events_of_def image_image)

lemma filter_drop: "\<exists>m'. filter P (drop m xs) = drop m' (filter P xs)"
proof -
  have "filter P xs = filter P (take m xs) @ filter P (drop m xs)"
    by (metis append_take_drop_id filter_append)
  then have "filter P (drop m xs) = drop (length (filter P (take m xs))) (filter P xs)" by simp
  then show ?thesis by blast
qed

lemma numbered_upto_drop: "numbered_upto n es \<Longrightarrow> numbered_upto n (drop m es)"
  by (auto simp: numbered_upto_def drop_map[symmetric])

lemma numbered_upto_snoc: "numbered_upto n es \<Longrightarrow> ev_sequence e = Suc n \<Longrightarrow> numbered_upto (Suc n) (es @ [e])"
  by (auto simp: numbered_upto_def Suc_diff_le upt_Suc)

lemma find_run_Some: "find_run st i = Some r \<Longrightarrow> r \<in> set (ss_runs st) \<and> rn_id r = i"
  unfolding find_run_def by (drule find_SomeD) simp

lemma find_task_Some: "find_task st i t = Some k \<Longrightarrow> k \<in> set (ss_tasks st) \<and> tk_id k = t \<and> tk_runId k = i"
  unfolding find_task_def by (drule find_SomeD) simp

lemma find_plan_Some: "find_plan st i = Some p \<Longrightarrow> p \<in> set (ss_plans st) \<and> pl_id p = i"
  unfolding find_plan_def by (drule find_SomeD) simp

lemma log_ok_log_event:
  assumes ok: "log_ok st" and d: "distinct (map fst (cores st))" and i: "valid_id i" and t: "valid_id t"
    and reason: "\<And>k. find_task st i t = Some k \<Longrightarrow> pred_option valid_reason (tk_errorCode k)"
  shows "log_ok (log_event i t now st)"
proof (cases "find_run st i = None \<or> find_task st i t = None")
  case True
  then show ?thesis using ok by (auto simp: log_event_def split: option.splits)
next
  case False
  then obtain r k where r: "find_run st i = Some r" and k: "find_task st i t = Some k" by auto
  let ?e = "\<lparr>ev_runId = i, ev_sequence = Suc (rn_eventSequence r), ev_taskId = Some t,
      ev_state = tk_status k, ev_reasonCode = tk_errorCode k, ev_createdAt = now\<rparr>"
  let ?es = "take_last maxEvents (ss_events st @ [?e])"
  have run: "r \<in> set (ss_runs st)" "rn_id r = i" using find_run_Some[OF r] by simp_all
  have one: "r' = r" if "r' \<in> set (ss_runs st)" "rn_id r' = i" for r'
    using d that run unfolding cores_ids[symmetric] by (auto simp: distinct_map inj_on_def)
  have eq: "log_event i t now st = (update_run i (\<lambda>r. r\<lparr>rn_eventSequence := Suc (rn_eventSequence r)\<rparr>) st)\<lparr>ss_events := ?es\<rparr>"
    by (simp add: log_event_def r k)
  have seqs: "seqs (log_event i t now st) = map (\<lambda>r'. (rn_id r', if rn_id r' = i then Suc (rn_eventSequence r) else rn_eventSequence r')) (ss_runs st)"
    unfolding eq using one by (auto simp: seqs_def update_run_def)
  have "event_schema ?e" using i t reason[OF k] by (simp add: event_schema_def)
  moreover have "set ?es \<subseteq> insert ?e (set (ss_events st))"
    unfolding take_last_def using set_drop_subset by fastforce
  ultimately have schema: "\<forall>e \<in> set ?es. event_schema e \<and> ev_runId e \<in> fst ` set (seqs (log_event i t now st))"
    using ok run unfolding seqs by (auto simp: log_ok_def run_ids_def image_image)
  have numbers: "numbered_upto (if rn_id r' = i then Suc (rn_eventSequence r) else rn_eventSequence r')
      (filter (\<lambda>e. ev_runId e = rn_id r') ?es)" if r': "r' \<in> set (ss_runs st)" for r'
  proof -
    have old: "numbered_upto (rn_eventSequence r') (filter (\<lambda>e. ev_runId e = rn_id r') (ss_events st))"
      using ok r' by (simp add: log_ok_def events_of_def)
    obtain m where "filter (\<lambda>e. ev_runId e = rn_id r') ?es =
        drop m (filter (\<lambda>e. ev_runId e = rn_id r') (ss_events st @ [?e]))"
      unfolding take_last_def using filter_drop by blast
    moreover have "numbered_upto (if rn_id r' = i then Suc (rn_eventSequence r) else rn_eventSequence r')
        (filter (\<lambda>e. ev_runId e = rn_id r') (ss_events st @ [?e]))"
      using old one[OF r'] by (cases "rn_id r' = i") (simp_all add: numbered_upto_snoc)
    ultimately show ?thesis by (metis numbered_upto_drop)
  qed
  have "length ?es \<le> 500" by (simp add: take_last_def maxEvents_def)
  moreover have "ss_events (log_event i t now st) = ?es" by (simp add: eq)
  ultimately show ?thesis unfolding log_ok_fine log_fine_def using schema numbers
    by (auto simp: seqs)
qed

text \<open>A state whose tasks carry valid ids and reasons keeps the log through a loop of logged updates.\<close>

definition loggable :: "setup_state \<Rightarrow> bool" where
  "loggable st \<longleftrightarrow> log_ok st \<and> distinct (map fst (cores st)) \<and>
     (\<forall>k \<in> set (ss_tasks st). valid_id (tk_id k) \<and> pred_option valid_reason (tk_errorCode k))"

lemma loggable_log_event:
  "loggable st \<Longrightarrow> valid_id i \<Longrightarrow> valid_id t \<Longrightarrow> loggable (log_event i t now st)"
  unfolding loggable_def using log_ok_log_event[of st i t now] find_task_Some[of st i t] by (auto simp: effects)

lemma loggable_update_task:
  assumes "loggable st" and "\<And>k. tk_id (g k) = tk_id k"
    and "\<And>k. pred_option valid_reason (tk_errorCode k) \<Longrightarrow> pred_option valid_reason (tk_errorCode (g k))"
  shows "loggable (update_task t g st)"
  using assms by (auto simp: loggable_def log_ok_fine effects retask_def)

lemma loggable_logged_update:
  assumes "loggable st" and "\<And>k. tk_id (g k) = tk_id k"
    and "\<And>k. pred_option valid_reason (tk_errorCode k) \<Longrightarrow> pred_option valid_reason (tk_errorCode (g k))"
    and "valid_id i" and "valid_id (tk_id k)"
  shows "loggable (logged_update g now i k st)"
  unfolding logged_update_def
  by (rule loggable_log_event[OF loggable_update_task[OF assms(1-3)] assms(4,5)]) assumption

lemma loggable_fold:
  assumes g: "\<And>k. tk_id (g k) = tk_id k"
      "\<And>k. pred_option valid_reason (tk_errorCode k) \<Longrightarrow> pred_option valid_reason (tk_errorCode (g k))"
    and i: "valid_id i"
  shows "loggable st \<Longrightarrow> \<forall>k \<in> set ks. valid_id (tk_id k) \<Longrightarrow> loggable (fold (logged_update g now i) ks st)"
proof (induction ks arbitrary: st)
  case (Cons k ks)
  have "loggable (logged_update g now i k st)"
    by (rule loggable_logged_update[OF Cons.prems(1) g i]) (use Cons.prems(2) in simp_all)
  then show ?case using Cons by simp
qed simp

lemma loggable_update_run:
  assumes "loggable st" and "cores (update_run i f st) = recore i g n (cores st)" and "seqs (update_run i f st) = seqs st"
  shows "loggable (update_run i f st)"
  using assms by (simp add: loggable_def log_ok_fine effects recore_ids)

lemma setup_ok_loggable:
  assumes "setup_ok owner st"
  shows "loggable st"
proof -
  have g: "graph_ok owner st" and t: "tasks_ok st" using assms by (simp_all add: setup_ok_def core_ok_def)
  have "valid_id (tk_id k)" if "k \<in> set (ss_tasks st)" for k
    using task_fields_valid[OF g that] t that by (simp add: tasks_ok_def task_schema_def)
  then show ?thesis using assms g t
    by (auto simp: loggable_def setup_ok_def cores_ids[symmetric] graph_ok_def tasks_ok_def task_ok_def)
qed

end
