(* ===== verification/Setup_Handlers.thy ===== *)
theory Setup_Handlers
  imports Setup_Effects
begin

text \<open>
  Every handler that works inside one run keeps the invariant of the setup document: leasing,
  completing and failing a task, pausing, resuming and cancelling the run, retrying, checking again and
  reconciling. \<open>in_run\<close> collects what such a handler has to show.
\<close>

subsection \<open>What a handler inside one run has to show\<close>

lemma retask_retask:
  "(\<And>k. tk_id (g k) = tk_id k) \<Longrightarrow> retask ids h (retask ids g ks) = retask ids (h \<circ> g) ks"
  by (auto simp: retask_def)

lemma retask_none: "retask {} g ks = ks"
  by (simp add: retask_def)

lemma in_run:
  assumes ok: "setup_ok owner st"
    and same: "ss_ownerId st' = ss_ownerId st" "ss_draft st' = ss_draft st" "ss_plans st' = ss_plans st"
      "ss_runIdempotency st' = ss_runIdempotency st" "ss_completion st' = ss_completion st"
    and cores: "cores st' = recore i g n (cores st)"
    and tasks: "ss_tasks st' = retask ids h (ss_tasks st)"
    and shape: "\<And>k. task_shape (h k) = task_shape k"
    and mine: "\<And>k. k \<in> set (ss_tasks st) \<Longrightarrow> tk_id k \<in> ids \<Longrightarrow> tk_runId k = i \<and> task_ok (h k)"
    and receipts: "receipts_ok st'"
    and log: "loggable st'"
    and phase: "\<And>r. r \<in> set (ss_runs st) \<Longrightarrow> rn_id r = i \<Longrightarrow> phase_ok (g (rn_status r)) (retask ids h (tasks_of st i))"
  shows "setup_ok owner st'"
proof -
  have "core_ok owner st" using ok by (simp add: setup_ok_def)
  then have "core_ok owner st'" by (rule core_revise[OF _ same cores tasks shape mine receipts phase])
  moreover have "length (ss_runs st') = length (ss_runs st)"
    using arg_cong[OF cores, of length] by (simp add: cores_def recore_def)
  ultimately show ?thesis using ok log same(3) by (simp add: setup_ok_def small_def loggable_def)
qed

text \<open>Receipts keep their tasks through an update of tasks; some may go, and one may be put.\<close>

lemma retask_has:
  assumes "\<And>k. task_shape (h k) = task_shape k" and "\<exists>k \<in> set ks. tk_id k = t \<and> tk_runId k = i"
  shows "\<exists>k \<in> set (retask ids h ks). tk_id k = t \<and> tk_runId k = i"
proof -
  obtain k where k: "k \<in> set ks" "tk_id k = t" "tk_runId k = i" using assms(2) by blast
  have "(if tk_id k \<in> ids then h k else k) \<in> set (retask ids h ks)" using k(1) by (auto simp: retask_def)
  then show ?thesis using assms(1)[of k] k(2,3) by (intro bexI) (auto simp: task_shape_def)
qed

lemma receipts_filter:
  assumes ok: "receipts_ok st" and tasks: "ss_tasks st' = retask ids h (ss_tasks st)"
    and shape: "\<And>k. task_shape (h k) = task_shape k" and rs: "ss_receipts st' = filter P (ss_receipts st)"
    and reset: "\<And>k. k \<in> set (ss_tasks st) \<Longrightarrow> tk_id k \<in> ids \<Longrightarrow> tk_status (h k) \<noteq> Task_READY"
    and gone: "\<And>r. r \<in> set (ss_receipts st) \<Longrightarrow> \<not> P r \<Longrightarrow> rc_taskId r \<in> ids"
  shows "receipts_ok st'"
proof -
  have "tk_id k \<in> rc_taskId ` set (filter P (ss_receipts st))"
    if k: "k \<in> set (retask ids h (ss_tasks st))" "tk_status k = Task_READY" for k
  proof -
    have k': "k \<in> set (ss_tasks st)" "tk_id k \<notin> ids" using k reset by (auto simp: retask_def split: if_splits)
    then have "tk_id k \<in> rc_taskId ` set (ss_receipts st)" using ok k(2) by (simp add: receipts_ok_def)
    then obtain r where r: "r \<in> set (ss_receipts st)" "rc_taskId r = tk_id k" by auto
    have "P r" using gone[OF r(1)] r(2) k'(2) by auto
    then show ?thesis using r by (intro image_eqI[of _ _ r]) simp_all
  qed
  then show ?thesis using ok retask_has[OF shape, of "ss_tasks st"] unfolding receipts_ok_def tasks rs
    by (auto simp: distinct_map_filter)
qed

lemma receipts_same:
  assumes "receipts_ok st" and "ss_tasks st' = retask ids h (ss_tasks st)"
    and "\<And>k. task_shape (h k) = task_shape k" and "ss_receipts st' = ss_receipts st"
    and "\<And>k. k \<in> set (ss_tasks st) \<Longrightarrow> tk_id k \<in> ids \<Longrightarrow> tk_status (h k) \<noteq> Task_READY"
  shows "receipts_ok st'"
  by (rule receipts_filter[OF assms(1-3), where P = "\<lambda>_. True"]) (simp_all add: assms(4,5))

lemma receipts_put:
  assumes ok: "receipts_ok st" and tasks: "ss_tasks st' = retask {rc_taskId rc} h (ss_tasks st)"
    and shape: "\<And>k. task_shape (h k) = task_shape k"
    and rs: "ss_receipts st' = filter (\<lambda>r. rc_taskId r \<noteq> rc_taskId rc) (ss_receipts st) @ [rc]"
    and rc: "receipt_schema rc" and k: "k \<in> set (ss_tasks st)" "tk_id k = rc_taskId rc" "tk_runId k = rc_runId rc"
  shows "receipts_ok st'"
proof -
  have "\<exists>k \<in> set (retask {rc_taskId rc} h (ss_tasks st)). tk_id k = rc_taskId rc \<and> tk_runId k = rc_runId rc"
    by (rule retask_has[OF shape]) (use k in blast)
  moreover have "tk_id k \<in> rc_taskId ` set (ss_receipts st')"
    if k: "k \<in> set (retask {rc_taskId rc} h (ss_tasks st))" "tk_status k = Task_READY" for k
  proof (cases "tk_id k = rc_taskId rc")
    case False
    obtain k0 where k0: "k0 \<in> set (ss_tasks st)" "k = (if tk_id k0 \<in> {rc_taskId rc} then h k0 else k0)"
      using k(1) by (auto simp: retask_def)
    have "tk_id (h k0) = tk_id k0" using shape[of k0] by (simp add: task_shape_def)
    then have "k = k0" using k0(2) False by (auto split: if_splits)
    then have "tk_id k \<in> rc_taskId ` set (ss_receipts st)" using ok k(2) k0(1) by (simp add: receipts_ok_def)
    then show ?thesis using False unfolding rs by auto
  qed (simp add: rs)
  ultimately show ?thesis using ok rc retask_has[OF shape, of "ss_tasks st"] unfolding receipts_ok_def tasks rs
    by (auto simp: distinct_map_filter)
qed

subsection \<open>Counting tasks by status\<close>

lemma occurs_retask_le:
  assumes "\<And>k. k \<in> set ks \<Longrightarrow> tk_id k \<in> ids \<Longrightarrow> tk_status (h k) = s \<Longrightarrow> tk_status k = s"
  shows "occurs s (retask ids h ks) \<le> occurs s ks"
  using assms by (induction ks) (auto simp: occurs_def retask_def le_SucI)

lemma occurs_retask_one:
  "distinct (map tk_id ks) \<Longrightarrow> occurs s (retask {t} h ks) \<le> Suc (occurs s ks)"
proof (induction ks)
  case (Cons k ks)
  show ?case
  proof (cases "tk_id k = t")
    case True
    then have "t \<notin> tk_id ` set ks" using Cons.prems by simp
    then have "retask {t} h ks = ks" by (auto simp: retask_def intro!: map_idI)
    then show ?thesis using True by (auto simp: occurs_def retask_def)
  next
    case False
    then show ?thesis using Cons by (auto simp: occurs_def retask_def)
  qed
qed (simp add: occurs_def retask_def)

lemma phase_retask:
  assumes p: "phase_ok s ks" and s: "s' \<noteq> Run_WAITING_FOR_INPUT"
    and idle: "\<And>k. k \<in> set ks \<Longrightarrow> tk_id k \<in> ids \<Longrightarrow> \<not> working (tk_status (h k))"
    and ready: "s' = Run_READY \<Longrightarrow> \<forall>k \<in> set (retask ids h ks). tk_status k = Task_READY"
    and active: "s' = Run_RUNNING \<or> s' = Run_PAUSED \<Longrightarrow> \<exists>k \<in> set (retask ids h ks). tk_status k \<noteq> Task_READY"
    and cancelled: "s' \<noteq> Run_CANCELLED" "s \<noteq> Run_CANCELLED"
      "\<And>k. k \<in> set ks \<Longrightarrow> tk_id k \<in> ids \<Longrightarrow> tk_status (h k) \<noteq> Task_CANCELLED"
  shows "phase_ok s' (retask ids h ks)"
proof -
  have "occurs Task_INSTALLING (retask ids h ks) \<le> occurs Task_INSTALLING ks"
    using idle by (intro occurs_retask_le) (auto simp: working_def)
  moreover have "occurs Task_CHECKING (retask ids h ks) \<le> occurs Task_CHECKING ks"
    using idle by (intro occurs_retask_le) (auto simp: working_def)
  moreover have "\<forall>k \<in> set (retask ids h ks). tk_status k \<noteq> Task_CANCELLED"
    using p cancelled by (auto simp: phase_ok_def retask_def)
  ultimately show ?thesis using p s ready active cancelled(1) by (simp add: phase_ok_def)
qed

subsection \<open>Facts about what was found\<close>

lemma setup_ok_parts:
  assumes "setup_ok owner st"
  shows "graph_ok owner st" "tasks_ok st" "receipts_ok st" "phases_ok st" "log_ok st" "small st" "core_ok owner st"
  using assms by (simp_all add: setup_ok_def core_ok_def)

lemma one_run:
  assumes "setup_ok owner st" and "find_run st i = Some run" and "r \<in> set (ss_runs st)" and "rn_id r = i"
  shows "r = run"
  using assms find_run_Some[OF assms(2)] setup_ok_parts(1)[OF assms(1)]
  by (auto simp: graph_ok_def distinct_map inj_on_def)

lemma one_task:
  assumes "setup_ok owner st" and "k \<in> set (ss_tasks st)" and "k' \<in> set (ss_tasks st)" and "tk_id k = tk_id k'"
  shows "k = k'"
  using assms tasks_distinct[OF setup_ok_parts(1)[OF assms(1)]] by (simp add: distinct_map inj_on_def)

lemma found_run:
  assumes "setup_ok owner st" and "find_run st i = Some run"
  shows "run \<in> set (ss_runs st)" "rn_id run = i" "valid_id i" "phase_ok (rn_status run) (tasks_of st i)"
    "distinct (map tk_id (tasks_of st i))" "tasks_of st i \<noteq> []"
proof -
  show r: "run \<in> set (ss_runs st)" "rn_id run = i" using find_run_Some[OF assms(2)] by simp_all
  have "run_made owner st run" using setup_ok_parts(1)[OF assms(1)] r by (simp add: graph_ok_def)
  then show "valid_id i" using run_made_id r by blast
  show "phase_ok (rn_status run) (tasks_of st i)" using setup_ok_parts(4)[OF assms(1)] r by (auto simp: phases_ok_def)
  show "distinct (map tk_id (tasks_of st i))" "tasks_of st i \<noteq> []"
    using tasks_of_count(2,3)[OF setup_ok_parts(1)[OF assms(1)] r(1)] r(2) by simp_all
qed

lemma found_task:
  assumes "setup_ok owner st" and "find_task st i t = Some k"
  shows "k \<in> set (ss_tasks st)" "tk_id k = t" "tk_runId k = i" "task_ok k" "valid_id t" "k \<in> set (tasks_of st i)"
proof -
  show k: "k \<in> set (ss_tasks st)" "tk_id k = t" "tk_runId k = i" using find_task_Some[OF assms(2)] by simp_all
  show "task_ok k" using setup_ok_parts(2)[OF assms(1)] k by (simp add: tasks_ok_def)
  show "valid_id t" using setup_ok_loggable[OF assms(1)] k by (auto simp: loggable_def)
  show "k \<in> set (tasks_of st i)" using k by (simp add: tasks_of_def)
qed

lemma tasks_of_mine: "k \<in> set (tasks_of st i) \<longleftrightarrow> k \<in> set (ss_tasks st) \<and> tk_runId k = i"
  by (auto simp: tasks_of_def)

lemma lease_reason: "valid_reason ''LEASE_EXPIRED_RECONCILE''"
  by code_simp

lemma task_of_ok: "setup_ok owner st \<Longrightarrow> k \<in> set (ss_tasks st) \<Longrightarrow> task_ok k"
  using setup_ok_parts(2) by (auto simp: tasks_ok_def)

lemma task_id_ok: "setup_ok owner st \<Longrightarrow> k \<in> set (ss_tasks st) \<Longrightarrow> valid_id (tk_id k)"
  using setup_ok_loggable by (auto simp: loggable_def)

lemma not_cancelled:
  assumes "phase_ok s ks" and "k \<in> set ks" and "working (tk_status k)"
  shows "s \<noteq> Run_CANCELLED"
  using assms by (auto simp: phase_ok_def working_def)

lemma task_ok_settled:
  assumes "task_ok k" and "\<not> working s" and "s \<noteq> Task_WAITING_FOR_INPUT" and "s \<noteq> Task_PAUSED"
    and "pred_option valid_reason e" and "pred_option valid_reference ref"
  shows "task_ok ((release_lease k)\<lparr>tk_status := s, tk_errorCode := e, tk_resultRef := ref\<rparr>)"
  using assms by (auto simp: task_ok_def release_lease_def working_def)

subsection \<open>The handlers\<close>

lemma failTask_ok:
  assumes ok: "setup_ok owner st" and h: "failTask i t worker reason now st = Inr (v, Some st')"
  shows "setup_ok owner st'"
proof -
  obtain run k where run: "find_run st i = Some run" and k: "find_task st i t = Some k"
    and reason: "valid_reason reason" and lease: "holds_lease worker now k"
    and st': "st' = log_event i t now (update_run i (touch_run Run_FAILED now)
       (update_task t (\<lambda>k. release_lease (k\<lparr>tk_status := Task_NEEDS_ATTENTION, tk_errorCode := Some reason\<rparr>)) st))"
    using h by (auto simp: failTask_def split: if_splits option.splits)
  let ?h = "\<lambda>k. release_lease (k\<lparr>tk_status := Task_NEEDS_ATTENTION, tk_errorCode := Some reason\<rparr>)"
  note R = found_run[OF ok run] and K = found_task[OF ok k]
  have shape: "task_shape (?h k) = task_shape k" for k by (simp add: task_shape_def release_lease_def)
  have work: "working (tk_status k)" using lease K(4) by (auto simp: holds_lease_def task_ok_def)
  show ?thesis
  proof (rule in_run[OF ok, where i = i and g = "\<lambda>_. Run_FAILED" and n = 1 and ids = "{t}" and h = ?h])
    show "loggable st'" unfolding st'
      by (intro loggable_log_event loggable_update_run[OF loggable_update_task[OF setup_ok_loggable[OF ok]]])
         (use R(3) K(5) reason in \<open>simp_all add: effects release_lease_def\<close>)
    show "receipts_ok st'"
      by (rule receipts_same[OF setup_ok_parts(3)[OF ok] _ shape, where ids = "{t}"])
         (simp_all add: st' effects release_lease_def)
    show "tk_runId k' = i \<and> task_ok (?h k')" if "k' \<in> set (ss_tasks st)" "tk_id k' \<in> {t}" for k'
      using one_task[OF ok _ K(1), of k'] that K task_ok_settled[OF K(4), of Task_NEEDS_ATTENTION "Some reason" "tk_resultRef k"] reason
      by (auto simp: release_lease_def working_def task_ok_def)
    show "phase_ok Run_FAILED (retask {t} ?h (tasks_of st i))"
      by (rule phase_retask[OF R(4)]) (use not_cancelled[OF R(4) K(6) work] in \<open>auto simp: release_lease_def working_def\<close>)
  qed (simp_all add: st' effects shape)
qed

lemma fold_logged_loggable:
  assumes ok: "setup_ok owner st" and run: "find_run st i = Some run" and ks: "set ks \<subseteq> set (ss_tasks st)"
    and st0: "loggable st0"
    and g: "\<And>k. tk_id (g k) = tk_id k"
      "\<And>k. pred_option valid_reason (tk_errorCode k) \<Longrightarrow> pred_option valid_reason (tk_errorCode (g k))"
  shows "loggable (fold (logged_update g now i) ks st0)"
  by (rule loggable_fold[OF g found_run(3)[OF ok run] st0]) 
     (use ks task_id_ok[OF ok] in auto)

lemma subset_distinct: "distinct (map tk_id ks) \<Longrightarrow> distinct (map tk_id (filter P ks))"
  by (rule distinct_map_filter)

lemma loggable_receipts: "loggable st \<Longrightarrow> loggable (ss_receipts_update f st)"
  by (simp add: loggable_def log_ok_fine effects)

lemma leaseNextTask_ok:
  assumes ok: "setup_ok owner st" and worker: "valid_id worker"
    and h: "leaseNextTask i worker ms now st = Inr (v, Some st')"
  shows "setup_ok owner st'"
proof -
  obtain run where run: "find_run st i = Some run" and status: "rn_status run = Run_RUNNING"
    using h by (auto simp: leaseNextTask_def split: if_splits option.splits)
  note R = found_run[OF ok run]
  have mine: "k \<in> set (tasks_of st i) \<Longrightarrow> task_ok k" for k using task_of_ok[OF ok] by (simp add: tasks_of_mine)
  show ?thesis
  proof (cases "filter (lease_expired now) (tasks_of st i) = []")
    case False
    let ?ks = "filter (lease_expired now) (tasks_of st i)"
    let ?h = "\<lambda>k. release_lease (k\<lparr>tk_status := Task_NEEDS_ATTENTION, tk_errorCode := Some ''LEASE_EXPIRED_RECONCILE''\<rparr>)"
    have st': "st' = update_run i (touch_run Run_FAILED now) (fold (logged_update ?h now i) ?ks st)"
      using h run status False by (auto simp: leaseNextTask_def logged_updates Let_def split: if_splits)
    have shape: "task_shape (?h k) = task_shape k" for k by (simp add: task_shape_def release_lease_def)
    have tasks: "ss_tasks st' = retask (tk_id ` set ?ks) ?h (ss_tasks st)"
      unfolding st' by (simp add: effects fold_logged_tasks[OF subset_distinct[OF R(5)]] release_lease_def)
    show ?thesis
    proof (rule in_run[OF ok, where i = i and g = "\<lambda>_. Run_FAILED" and n = 1, OF _ _ _ _ _ _ tasks shape])
      show "loggable st'" unfolding st'
        by (rule loggable_update_run[OF fold_logged_loggable[OF ok run _ setup_ok_loggable[OF ok]]])
           (auto simp: effects release_lease_def lease_reason tasks_of_mine)
      show "receipts_ok st'"
        by (rule receipts_same[OF setup_ok_parts(3)[OF ok] tasks shape])
         (simp_all add: st' effects release_lease_def lease_def)
      show "tk_runId k = i \<and> task_ok (?h k)" if k: "k \<in> set (ss_tasks st)" "tk_id k \<in> tk_id ` set ?ks" for k
      proof -
        obtain k' where k': "k' \<in> set (tasks_of st i)" "tk_id k = tk_id k'" using k(2) by auto
        then have "k = k'" using one_task[OF ok k(1)] by (simp add: tasks_of_mine)
        then show ?thesis using k' mine[of k'] lease_reason
          by (auto simp: release_lease_def working_def task_ok_def tasks_of_mine)
      qed
      show "phase_ok Run_FAILED (retask (tk_id ` set ?ks) ?h (tasks_of st i))"
        by (rule phase_retask[OF R(4)]) (use status in \<open>auto simp: release_lease_def working_def\<close>)
    qed (simp_all add: st' effects)
  next
    case True
    then obtain k where k: "List.find (leasable (tasks_of st i)) (tasks_of st i) = Some k"
      and st': "st' = log_event i (tk_id k) now (update_run i (\<lambda>r. touch_run (rn_status r) now r)
           (update_task (tk_id k) (lease worker (now + ms)) st))"
      using h run status by (auto simp: leaseNextTask_def Let_def split: if_splits option.splits)
    let ?h = "lease worker (now + ms)"
    have kin: "k \<in> set (tasks_of st i)" and free: "leasable (tasks_of st i) k" using find_SomeD[OF k] by simp_all
    have shape: "task_shape (?h k) = task_shape k" for k by (simp add: task_shape_def lease_def)
    have tasks: "ss_tasks st' = retask {tk_id k} ?h (ss_tasks st)" unfolding st' by (simp add: effects)
    show ?thesis
    proof (rule in_run[OF ok, where i = i and g = "\<lambda>s. s" and n = 1, OF _ _ _ _ _ _ tasks shape])
      show "loggable st'" unfolding st'
        by (intro loggable_log_event loggable_update_run[OF loggable_update_task[OF setup_ok_loggable[OF ok]]])
           (use R(3) kin task_id_ok[OF ok] in \<open>auto simp: effects lease_def tasks_of_mine\<close>)
      show "receipts_ok st'"
        by (rule receipts_same[OF setup_ok_parts(3)[OF ok] tasks shape])
         (simp_all add: st' effects release_lease_def lease_def)
      show "tk_runId k' = i \<and> task_ok (?h k')" if k': "k' \<in> set (ss_tasks st)" "tk_id k' \<in> {tk_id k}" for k'
      proof -
        have "k' = k" using one_task[OF ok k'(1)] kin k'(2) by (simp add: tasks_of_mine)
        then show ?thesis using kin mine[OF kin] worker
          by (auto simp: lease_def task_ok_def tasks_of_mine working_def)
      qed
      fix r assume "r \<in> set (ss_runs st)" "rn_id r = i"
      then have r: "r = run" using one_run[OF ok run] by simp
      have one: "?h k' = lease worker (now + ms) k" if "k' \<in> set (tasks_of st i)" "tk_id k' = tk_id k" for k'
        using one_task[OF ok, of k' k] that kin by (simp add: tasks_of_mine)
      have counts: "occurs s (retask {tk_id k} ?h (tasks_of st i)) \<le> (if tk_status (?h k) = s then Suc (occurs s (tasks_of st i)) else occurs s (tasks_of st i))" for s
      proof (cases "tk_status (?h k) = s")
        case True
        then show ?thesis using occurs_retask_one[OF R(5)] by simp
      next
        case False
        have "occurs s (retask {tk_id k} ?h (tasks_of st i)) \<le> occurs s (tasks_of st i)"
          by (rule occurs_retask_le) (use one False in auto)
        then show ?thesis using False by simp
      qed
      have "occurs Task_INSTALLING (retask {tk_id k} ?h (tasks_of st i)) \<le> 1"
        using counts[of Task_INSTALLING] R(4) free by (auto simp: phase_ok_def leasable_def lease_def occurs_def split: if_splits)
      moreover have "occurs Task_CHECKING (retask {tk_id k} ?h (tasks_of st i)) \<le> 2"
        using counts[of Task_CHECKING] R(4) free by (auto simp: phase_ok_def leasable_def lease_def occurs_def split: if_splits)
      moreover have "\<exists>k \<in> set (retask {tk_id k} ?h (tasks_of st i)). tk_status k \<noteq> Task_READY"
        using kin by (intro bexI[of _ "?h k"]) (auto simp: lease_def retask_def)
      moreover have "\<forall>k \<in> set (retask {tk_id k} ?h (tasks_of st i)). tk_status k \<noteq> Task_CANCELLED"
        using R(4) status by (auto simp: phase_ok_def retask_def lease_def split: if_splits)
      ultimately show "phase_ok (rn_status r) (retask {tk_id k} ?h (tasks_of st i))"
        by (simp add: phase_ok_def r status)
    qed (simp_all add: st' effects)
  qed
qed

lemma changeRunStatus_ok:
  assumes ok: "setup_ok owner st" and h: "changeRunStatus i sources target now st = Inr (v, Some st')"
    and active: "set sources \<subseteq> {Run_RUNNING, Run_PAUSED}" "target \<in> {Run_RUNNING, Run_PAUSED}"
  shows "setup_ok owner st'"
proof -
  obtain run where run: "find_run st i = Some run" and was: "rn_status run \<in> {Run_RUNNING, Run_PAUSED}"
    and st': "st' = update_run i (touch_run target now) st"
    using h active by (auto simp: changeRunStatus_def split: if_splits option.splits)
  have tasks: "ss_tasks st' = retask {} (\<lambda>k. k) (ss_tasks st)" by (simp add: st' effects retask_none)
  show ?thesis
  proof (rule in_run[OF ok, where i = i and g = "\<lambda>_. target" and n = 1, OF _ _ _ _ _ _ tasks])
    show "loggable st'" unfolding st'
      by (rule loggable_update_run[OF setup_ok_loggable[OF ok]]) (simp_all add: effects)
    show "receipts_ok st'"
      by (rule receipts_same[OF setup_ok_parts(3)[OF ok] tasks]) (simp_all add: st' effects)
    show "phase_ok target (retask {} (\<lambda>k. k) (tasks_of st i))"
      using found_run(4)[OF ok run] was active(2) by (auto simp: retask_none phase_ok_def)
  qed (simp_all add: st' effects)
qed

lemma cancelRun_ok:
  assumes ok: "setup_ok owner st" and h: "cancelRun i now st = Inr (v, Some st')"
  shows "setup_ok owner st'"
proof -
  let ?ks = "filter (\<lambda>k. tk_status k \<noteq> Task_READY) (tasks_of st i)"
  let ?h = "\<lambda>k. release_lease (k\<lparr>tk_status := Task_CANCELLED\<rparr>)"
  obtain run where run: "find_run st i = Some run"
    and st': "st' = fold (logged_update ?h now i) ?ks
      (update_run i (\<lambda>r. (touch_run Run_CANCELLED now r)\<lparr>rn_finishedAt := Some now\<rparr>) st)"
    using h by (auto simp: cancelRun_def logged_updates split: if_splits option.splits)
  note R = found_run[OF ok run]
  have shape: "task_shape (?h k) = task_shape k" for k by (simp add: task_shape_def release_lease_def)
  have tasks: "ss_tasks st' = retask (tk_id ` set ?ks) ?h (ss_tasks st)"
    unfolding st' by (simp add: effects fold_logged_tasks[OF subset_distinct[OF R(5)]] release_lease_def)
  show ?thesis
  proof (rule in_run[OF ok, where i = i and g = "\<lambda>_. Run_CANCELLED" and n = 1, OF _ _ _ _ _ _ tasks shape])
    show "loggable st'" unfolding st'
      by (rule fold_logged_loggable[OF ok run _ loggable_update_run[OF setup_ok_loggable[OF ok]]])
         (auto simp: effects release_lease_def tasks_of_mine)
    show "receipts_ok st'"
      by (rule receipts_same[OF setup_ok_parts(3)[OF ok] tasks shape])
         (simp_all add: st' effects release_lease_def lease_def)
    show "tk_runId k = i \<and> task_ok (?h k)" if k: "k \<in> set (ss_tasks st)" "tk_id k \<in> tk_id ` set ?ks" for k
    proof -
      obtain k' where k': "k' \<in> set (tasks_of st i)" "tk_id k = tk_id k'" using k(2) by auto
      then have "k = k'" using one_task[OF ok k(1)] by (simp add: tasks_of_mine)
      then show ?thesis using k' task_of_ok[OF ok k(1)]
        by (auto simp: release_lease_def working_def task_ok_def tasks_of_mine)
    qed
    have other: "k \<in> set (tasks_of st i) \<Longrightarrow> tk_id k \<notin> tk_id ` set ?ks \<Longrightarrow> tk_status k = Task_READY" for k by auto
    have le: "occurs s (retask (tk_id ` set ?ks) ?h (tasks_of st i)) \<le> occurs s (tasks_of st i)" if "s \<noteq> Task_CANCELLED" for s
      by (rule occurs_retask_le) (use that in \<open>auto simp: release_lease_def\<close>)
    have counts: "occurs Task_INSTALLING (retask (tk_id ` set ?ks) ?h (tasks_of st i)) \<le> 1"
        "occurs Task_CHECKING (retask (tk_id ` set ?ks) ?h (tasks_of st i)) \<le> 2"
      using le[of Task_INSTALLING] le[of Task_CHECKING] R(4) by (auto simp: phase_ok_def)
    have "\<forall>k \<in> set (retask (tk_id ` set ?ks) ?h (tasks_of st i)). tk_status k = Task_READY \<or> tk_status k = Task_CANCELLED"
      unfolding retask_def using other by (auto simp: release_lease_def)
    then show "phase_ok Run_CANCELLED (retask (tk_id ` set ?ks) ?h (tasks_of st i))"
      using counts by (simp add: phase_ok_def)
  qed (simp_all add: st' effects)
qed

lemma finish_if_ready_fields [effects]:
  "ss_ownerId (finish_if_ready i now st) = ss_ownerId st" "ss_draft (finish_if_ready i now st) = ss_draft st"
  "ss_plans (finish_if_ready i now st) = ss_plans st" "ss_tasks (finish_if_ready i now st) = ss_tasks st"
  "ss_receipts (finish_if_ready i now st) = ss_receipts st"
  "ss_runIdempotency (finish_if_ready i now st) = ss_runIdempotency st"
  "ss_completion (finish_if_ready i now st) = ss_completion st"
  "cores (finish_if_ready i now st) = recore i
     (\<lambda>s. if list_all (\<lambda>k. tk_status k = Task_READY) (tasks_of st i) then Run_READY else s) 0 (cores st)"
  by (auto simp: finish_if_ready_def effects recore_def intro: map_idI[symmetric])

lemma loggable_finish: "loggable st \<Longrightarrow> loggable (finish_if_ready i now st)"
  unfolding finish_if_ready_def by (auto intro!: loggable_update_run simp: effects)

lemma loggable_put: "loggable st \<Longrightarrow> loggable (put_receipt rc st)"
  by (simp add: loggable_def log_ok_fine effects)

lemma loggable_milestone: "loggable st \<Longrightarrow> loggable (record_milestone a st)"
  by (simp add: loggable_def log_ok_fine effects)

lemma receipt_schema_ref:
  "receipt_schema (new_receipt uuid i k input now) \<Longrightarrow> valid_reference (ri_evidenceRef input)"
  by (simp add: receipt_schema_def new_receipt_def)

lemma completeTask_ok:
  assumes ok: "setup_ok owner st" and h: "completeTask i t worker input now uuid st = Inr (v, Some st')"
  shows "setup_ok owner st'"
proof -
  let ?h = "\<lambda>k. (release_lease k)\<lparr>tk_status := Task_READY, tk_errorCode := None, tk_resultRef := Some (ri_evidenceRef input)\<rparr>"
  obtain run k where run: "find_run st i = Some run" and k: "find_task st i t = Some k"
    and status: "rn_status run = Run_RUNNING \<or> rn_status run = Run_PAUSED"
    and rc: "receipt_schema (new_receipt uuid i k input now)"
    and st': "st' = finish_if_ready i now (log_event i t now (update_run i (\<lambda>r. touch_run (rn_status r) now r)
       (record_milestone (tk_actionId k) (update_task t ?h (put_receipt (new_receipt uuid i k input now) st)))))"
    using h by (auto simp: completeTask_def split: if_splits option.splits)
  note R = found_run[OF ok run] and K = found_task[OF ok k]
  have shape: "task_shape (?h k) = task_shape k" for k by (simp add: task_shape_def release_lease_def)
  have tasks: "ss_tasks st' = retask {t} ?h (ss_tasks st)" by (simp add: st' effects)
  have mid: "tasks_of (log_event i t now (update_run i (\<lambda>r. touch_run (rn_status r) now r)
       (record_milestone (tk_actionId k) (update_task t ?h (put_receipt (new_receipt uuid i k input now) st))))) i =
       retask {t} ?h (tasks_of st i)"
    by (simp add: tasks_of_def effects tasks_of_retask release_lease_def)
  let ?g = "\<lambda>s. if list_all (\<lambda>k. tk_status k = Task_READY) (retask {t} ?h (tasks_of st i)) then Run_READY else s"
  show ?thesis
  proof (rule in_run[OF ok, where i = i and g = ?g and n = 1, OF _ _ _ _ _ _ tasks shape])
    show "cores st' = recore i ?g 1 (cores st)" unfolding st' finish_if_ready_fields mid
      by (simp add: effects comp_def)
    show "loggable st'" unfolding st'
      by (intro loggable_finish loggable_log_event loggable_update_run[OF loggable_milestone[OF
            loggable_update_task[OF loggable_put[OF setup_ok_loggable[OF ok]]]]])
         (use R(3) K(5) in \<open>simp_all add: effects release_lease_def\<close>)
    show "receipts_ok st'"
      by (rule receipts_put[OF setup_ok_parts(3)[OF ok] _ shape _ rc K(1)])
         (use K in \<open>simp_all add: st' effects new_receipt_def\<close>)
    show "tk_runId k' = i \<and> task_ok (?h k')" if "k' \<in> set (ss_tasks st)" "tk_id k' \<in> {t}" for k'
      using one_task[OF ok _ K(1), of k'] that K receipt_schema_ref[OF rc]
      by (auto simp: release_lease_def working_def task_ok_def)
    fix r assume "r \<in> set (ss_runs st)" "rn_id r = i"
    then have r: "r = run" using one_run[OF ok run] by simp
    show "phase_ok (?g (rn_status r)) (retask {t} ?h (tasks_of st i))"
      unfolding r by (rule phase_retask[OF R(4)])
        (use status in \<open>auto simp: release_lease_def working_def list_all_iff split: if_splits\<close>)
  qed (simp_all add: st' effects)
qed

lemma close_reset_extends: "set reset \<subseteq> set (close_reset tasks reset)"
proof (induction tasks reset rule: close_reset.induct)
  case (1 tasks reset)
  obtain more where m: "reset_pass tasks reset = reset @ more" using reset_pass_grows by blast
  show ?case
  proof (cases "length (reset_pass tasks reset) = length reset")
    case True
    then show ?thesis by (subst close_reset.simps) (simp add: Let_def)
  next
    case False
    then show ?thesis using 1[OF refl False] m by (subst close_reset.simps) (auto simp: Let_def)
  qed
qed

lemma close_reset_inside: "set (close_reset tasks reset) \<subseteq> set reset \<union> tk_id ` set tasks"
proof (induction tasks reset rule: close_reset.induct)
  case (1 tasks reset)
  obtain more where m: "reset_pass tasks reset = reset @ more" "\<forall>t \<in> set more. \<exists>k \<in> set tasks. tk_id k = t"
    using reset_pass_grows by blast
  show ?case
  proof (cases "length (reset_pass tasks reset) = length reset")
    case True
    then show ?thesis by (subst close_reset.simps) (simp add: Let_def)
  next
    case False
    then show ?thesis using 1[OF refl False] m by (subst close_reset.simps) (fastforce simp: Let_def)
  qed
qed

text \<open>Queueing tasks again, whichever: the run starts anew with at least one of them waiting.\<close>

lemma requeue_ok:
  assumes ok: "setup_ok owner st" and run: "find_run st i = Some run"
    and status: "rn_status run \<noteq> Run_CANCELLED"
    and g: "g = requeue \<or> g = (\<lambda>k. (requeue k)\<lparr>tk_resultRef := None\<rparr>)"
    and some: "\<exists>k \<in> set (tasks_of st i). P k"
    and gone: "\<And>r. \<not> Q r \<Longrightarrow> rc_taskId r \<in> tk_id ` set (filter P (tasks_of st i))"
    and st': "st' = update_run i (restart now) (fold (logged_update g now i) (filter P (tasks_of st i))
       (st\<lparr>ss_receipts := filter Q (ss_receipts st)\<rparr>))"
  shows "setup_ok owner st'"
proof -
  note R = found_run[OF ok run]
  let ?ks = "filter P (tasks_of st i)"
  have shape: "task_shape (g k) = task_shape k" for k using g by (auto simp: task_shape_def release_lease_def requeue_def)
  have id: "tk_id (g k) = tk_id k" for k using shape[of k] by (simp add: task_shape_def)
  have queued: "tk_status (g k) = Task_QUEUED" "tk_errorCode (g k) = None" for k
    using g by (auto simp: release_lease_def requeue_def)
  have tasks: "ss_tasks st' = retask (tk_id ` set ?ks) g (ss_tasks st)"
    unfolding st' by (simp add: effects fold_logged_tasks[OF subset_distinct[OF R(5)] id])
  show ?thesis
  proof (rule in_run[OF ok, where i = i and g = "\<lambda>_. Run_RUNNING" and n = 1, OF _ _ _ _ _ _ tasks shape])
    show "loggable st'" unfolding st'
      by (rule loggable_update_run[OF fold_logged_loggable[OF ok run _ loggable_receipts[OF setup_ok_loggable[OF ok]] id]])
         (auto simp: effects queued tasks_of_mine)
    show "receipts_ok st'"
      by (rule receipts_filter[OF setup_ok_parts(3)[OF ok] tasks shape, where P = Q])
         (use gone in \<open>simp_all add: st' effects queued\<close>)
    show "tk_runId k = i \<and> task_ok (g k)" if k: "k \<in> set (ss_tasks st)" "tk_id k \<in> tk_id ` set ?ks" for k
    proof -
      obtain k' where k': "k' \<in> set (tasks_of st i)" "tk_id k = tk_id k'" using k(2) by auto
      then have "k = k'" using one_task[OF ok k(1)] by (simp add: tasks_of_mine)
      then show ?thesis using k' g task_of_ok[OF ok k(1)]
        by (auto simp: release_lease_def requeue_def working_def task_ok_def tasks_of_mine)
    qed
    obtain k where k: "k \<in> set (tasks_of st i)" "P k" using some by blast
    have "g k \<in> set (retask (tk_id ` set ?ks) g (tasks_of st i))"
      using k by (auto simp: retask_def image_iff intro!: bexI[of _ k])
    then have "\<exists>k \<in> set (retask (tk_id ` set ?ks) g (tasks_of st i)). tk_status k \<noteq> Task_READY"
      using queued(1)[of k] by (intro bexI[of _ "g k"]) simp_all
    then show "phase_ok Run_RUNNING (retask (tk_id ` set ?ks) g (tasks_of st i))"
      by (intro phase_retask[OF R(4)]) (simp_all add: queued working_def status)
  qed (simp_all add: st' effects)
qed

lemma retryFailedTasks_ok:
  assumes ok: "setup_ok owner st" and h: "retryFailedTasks i ts n now st = Inr (v, Some st')"
  shows "setup_ok owner st'"
proof -
  obtain run where run: "find_run st i = Some run" and status: "rn_status run = Run_FAILED"
    and ts: "ts \<noteq> []" "\<forall>t \<in> set ts. \<exists>k \<in> set (tasks_of st i). tk_id k = t"
    and st': "st' = update_run i (restart now) (fold (logged_update (\<lambda>k. (requeue k)\<lparr>tk_resultRef := None\<rparr>) now i)
       (filter (\<lambda>k. tk_id k \<in> set (close_reset (tasks_of st i) ts)) (tasks_of st i))
       (st\<lparr>ss_receipts := filter (\<lambda>r. rc_taskId r \<notin> set (close_reset (tasks_of st i) ts)) (ss_receipts st)\<rparr>))"
    using h by (auto simp: retryFailedTasks_def Let_def logged_updates split: if_splits option.splits)
  have "\<exists>k \<in> set (tasks_of st i). tk_id k \<in> set (close_reset (tasks_of st i) ts)"
    using ts close_reset_extends[of ts "tasks_of st i"] by (cases ts) auto
  moreover have "rc_taskId r \<in> tk_id ` set (filter (\<lambda>k. tk_id k \<in> set (close_reset (tasks_of st i) ts)) (tasks_of st i))"
    if "\<not> rc_taskId r \<notin> set (close_reset (tasks_of st i) ts)" for r
  proof -
    have "set ts \<subseteq> tk_id ` set (tasks_of st i)" using ts(2) by (auto simp: image_iff dest: sym)
    then have "rc_taskId r \<in> tk_id ` set (tasks_of st i)"
      using that close_reset_inside[of "tasks_of st i" ts] by blast
    then show ?thesis using that by auto
  qed
  ultimately show ?thesis by (intro requeue_ok[OF ok run _ _ _ _ st']) (simp_all add: status)
qed

lemma revalidateStaleTasks_ok:
  assumes ok: "setup_ok owner st" and h: "revalidateStaleTasks i ts n now st = Inr (v, Some st')"
  shows "setup_ok owner st'"
proof -
  obtain run where run: "find_run st i = Some run" and status: "rn_status run = Run_READY"
    and ts: "ts \<noteq> []" "\<forall>t \<in> set ts. \<exists>k \<in> set (tasks_of st i). tk_id k = t"
    and st': "st' = update_run i (restart now) (fold (logged_update requeue now i)
       (filter (\<lambda>k. tk_id k \<in> set ts) (tasks_of st i))
       (st\<lparr>ss_receipts := filter (\<lambda>r. rc_taskId r \<notin> set ts) (ss_receipts st)\<rparr>))"
    using h by (auto simp: revalidateStaleTasks_def Let_def logged_updates split: if_splits option.splits)
  have "\<exists>k \<in> set (tasks_of st i). tk_id k \<in> set ts" using ts by (cases ts) auto
  moreover have "rc_taskId r \<in> tk_id ` set (filter (\<lambda>k. tk_id k \<in> set ts) (tasks_of st i))"
    if "\<not> rc_taskId r \<notin> set ts" for r
  proof -
    have r: "rc_taskId r \<in> set ts" using that by simp
    obtain k where k: "k \<in> set (tasks_of st i)" "tk_id k = rc_taskId r" using bspec[OF ts(2) r] by blast
    have "k \<in> set (filter (\<lambda>k. tk_id k \<in> set ts) (tasks_of st i))" using k r by simp
    then have "tk_id k \<in> tk_id ` set (filter (\<lambda>k. tk_id k \<in> set ts) (tasks_of st i))" by (rule imageI)
    then show ?thesis unfolding k(2) .
  qed
  ultimately show ?thesis by (intro requeue_ok[OF ok run _ _ _ _ st']) (simp_all add: status)
qed

text \<open>Settling an inspected task: ready with its receipt, or queued again.\<close>

definition settled :: "setup_task_status \<Rightarrow> string \<Rightarrow> setup_task \<Rightarrow> setup_task" where
  "settled s ref k = k\<lparr>tk_status := s, tk_resultRef := Some ref, tk_errorCode := None\<rparr>"

definition settled_status :: "setup_task list \<Rightarrow> setup_run_status" where
  "settled_status tasks = (if \<exists>k \<in> set tasks. needs_reconciliation k then Run_FAILED
     else if list_all (\<lambda>k. tk_status k = Task_READY) tasks then Run_READY else Run_RUNNING)"

lemma settle_reconciled_alt:
  "settle_reconciled i t now st = log_event i t now (update_run i
     (\<lambda>r. (touch_run (settled_status (tasks_of st i)) now r)
        \<lparr>rn_finishedAt := (if settled_status (tasks_of st i) = Run_READY then Some now else None)\<rparr>) st)"
  by (simp add: settle_reconciled_def settled_status_def Let_def)

lemma settle_ok:
  assumes ok: "setup_ok owner st" and run: "find_run st i = Some run" and k: "find_task st i t = Some k"
    and status: "rn_status run = Run_FAILED" and need: "needs_reconciliation k"
    and s: "s = Task_READY \<or> s = Task_QUEUED" and ref: "valid_reference ref"
    and st': "st' = settle_reconciled i t now st1"
    and st1: "ss_ownerId st1 = ss_ownerId st" "ss_draft st1 = ss_draft st" "ss_plans st1 = ss_plans st"
      "ss_runIdempotency st1 = ss_runIdempotency st" "ss_completion st1 = ss_completion st"
      "cores st1 = cores st" "ss_tasks st1 = retask {t} (settled s ref) (ss_tasks st)"
    and log: "loggable st1" and receipts: "receipts_ok st1"
  shows "setup_ok owner st'"
proof -
  note R = found_run[OF ok run] and K = found_task[OF ok k]
  have shape: "task_shape (settled s ref k) = task_shape k" for k by (simp add: task_shape_def settled_def)
  have of: "tasks_of st1 i = retask {t} (settled s ref) (tasks_of st i)"
    unfolding tasks_of_def st1(7) by (rule tasks_of_retask) (simp add: settled_def)
  have tasks: "ss_tasks st' = retask {t} (settled s ref) (ss_tasks st)"
    by (simp add: st' settle_reconciled_alt effects st1)
  let ?s = "settled_status (retask {t} (settled s ref) (tasks_of st i))"
  show ?thesis
  proof (rule in_run[OF ok, where i = i and g = "\<lambda>_. ?s" and n = 1, OF _ _ _ _ _ _ tasks shape])
    show "loggable st'" unfolding st' settle_reconciled_alt
      by (intro loggable_log_event loggable_update_run[OF log]) (use R(3) K(5) in \<open>simp_all add: effects\<close>)
    show "receipts_ok st'"
      by (rule receipts_same[OF receipts, where ids = "{}" and h = "\<lambda>k. k"])
         (simp_all add: st' settle_reconciled_alt effects retask_none)
    show "tk_runId k' = i \<and> task_ok (settled s ref k')" if "k' \<in> set (ss_tasks st)" "tk_id k' \<in> {t}" for k'
      using one_task[OF ok _ K(1), of k'] that K s ref need
      by (auto simp: settled_def working_def task_ok_def needs_reconciliation_def)
    show "phase_ok ?s (retask {t} (settled s ref) (tasks_of st i))"
      by (rule phase_retask[OF R(4)])
         (use s status in \<open>auto simp: settled_def working_def settled_status_def list_all_iff split: if_splits\<close>)
  qed (simp_all add: st' settle_reconciled_alt effects st1 of)
qed

lemma reconcileExpiredTask_ok:
  assumes ok: "setup_ok owner st" and h: "reconcileExpiredTask i t inspection now uuid st = Inr (v, Some st')"
  shows "setup_ok owner st'"
proof -
  obtain run k where run: "find_run st i = Some run" and k: "find_task st i t = Some k"
    and status: "rn_status run = Run_FAILED" and need: "needs_reconciliation k" and known: "inspection \<noteq> Inspected_UNKNOWN"
    using h by (auto simp: reconcileExpiredTask_def split: if_splits option.splits)
  note K = found_task[OF ok k]
  have two: "update_task t (\<lambda>k. k\<lparr>tk_errorCode := None\<rparr>) (update_task t (\<lambda>k. k\<lparr>tk_status := s, tk_resultRef := Some ref\<rparr>) st0) =
      update_task t (settled s ref) st0" for s ref st0
    by (simp add: update_task_def settled_def comp_def cong: if_cong)
  have log: "loggable (update_task t (settled s ref) st0)" if "loggable st0" for s ref st0
    by (rule loggable_update_task[OF that]) (simp_all add: settled_def)
  show ?thesis
  proof (cases inspection)
    case (Inspected_VERIFIED input)
    let ?st1 = "update_task t (\<lambda>k. k\<lparr>tk_errorCode := None\<rparr>) (record_milestone (tk_actionId k)
       (update_task t (\<lambda>k. k\<lparr>tk_status := Task_READY, tk_resultRef := Some (ri_evidenceRef input)\<rparr>)
         (put_receipt (new_receipt uuid i k input now) st)))"
    have rc: "receipt_schema (new_receipt uuid i k input now)" and st': "st' = settle_reconciled i t now ?st1"
      using h run k status need Inspected_VERIFIED by (auto simp: reconcileExpiredTask_def split: if_splits)
    have tasks: "ss_tasks ?st1 = retask {t} (settled Task_READY (ri_evidenceRef input)) (ss_tasks st)"
      by (simp add: effects retask_retask) (simp add: retask_def settled_def comp_def cong: if_cong)
    have shape: "task_shape (settled s ref k) = task_shape k" for s ref k by (simp add: task_shape_def settled_def)
    show ?thesis
    proof (rule settle_ok[OF ok run k status need _ receipt_schema_ref[OF rc] st' _ _ _ _ _ _ tasks])
      show "loggable ?st1"
        by (intro loggable_update_task loggable_milestone loggable_put setup_ok_loggable[OF ok]) simp_all
      show "receipts_ok ?st1"
        by (rule receipts_put[OF setup_ok_parts(3)[OF ok] _ shape _ rc K(1)])
           (use K tasks in \<open>simp_all add: effects new_receipt_def\<close>)
    qed (simp_all add: effects)
  next
    case (Inspected_NOT_APPLIED ref)
    let ?st1 = "update_task t (settled Task_QUEUED ref) st"
    have ref: "valid_reference ref" and st': "st' = settle_reconciled i t now ?st1"
      using h run k status need Inspected_NOT_APPLIED two
      by (auto simp: reconcileExpiredTask_def split: if_splits)
    have tasks: "ss_tasks ?st1 = retask {t} (settled Task_QUEUED ref) (ss_tasks st)" by (simp add: effects)
    show ?thesis
    proof (rule settle_ok[OF ok run k status need _ ref st' _ _ _ _ _ _ tasks log[OF setup_ok_loggable[OF ok]]])
      show "receipts_ok ?st1"
        by (rule receipts_same[OF setup_ok_parts(3)[OF ok] tasks]) (simp_all add: effects task_shape_def settled_def)
    qed (simp_all add: effects)
  qed (use known in simp)
qed

end
