(* ===== verification/Setup_Preserve.thy ===== *)
theory Setup_Preserve
  imports Setup_Handlers
begin

text \<open>
  The handlers that change the graph of the setup document (a new draft, plan or run), the removal of
  old history, and the completion; and with them the invariant of every document that is ever stored.
\<close>

subsection \<open>Lists of kept ids\<close>

lemma set_add_ids: "set (fold add_id xs base) = set base \<union> set xs"
  by (induction xs arbitrary: base) (auto simp: add_id_def)

lemma length_add_ids: "length (fold add_id xs base) \<le> length base + length xs"
proof (induction xs arbitrary: base)
  case (Cons x xs)
  have "length (fold add_id xs (add_id x base)) \<le> length (add_id x base) + length xs" by (rule Cons)
  moreover have "length (add_id x base) \<le> Suc (length base)" by (simp add: add_id_def)
  ultimately show ?case by simp
qed simp

lemma set_fill_newest: "set keep \<subseteq> set (fill_newest n xs keep)"
  by (induction n xs keep rule: fill_newest.induct) (auto simp: add_id_def)

lemma length_fill_newest: "length (fill_newest n xs keep) \<le> max n (length keep)"
proof (induction n xs keep rule: fill_newest.induct)
  case (2 n i rest keep)
  show ?case
  proof (cases "n \<le> length keep")
    case False
    then show ?thesis using 2[OF False] by (auto simp: add_id_def split: if_splits)
  qed simp
qed simp

lemma kept_runs_completed: "ss_completion st = Some c \<Longrightarrow> co_runId c \<in> set (kept_runs st)"
  unfolding kept_runs_def Let_def by (rule subsetD[OF set_fill_newest]) (simp add: set_add_ids)

lemma kept_runs_length:
  assumes "length (filter (\<lambda>r. active_status (rn_status r)) (ss_runs st)) \<le> 1"
  shows "length (kept_runs st) \<le> 6"
proof -
  let ?base = "case ss_completion st of None \<Rightarrow> [] | Some c \<Rightarrow> [co_runId c]"
  let ?run = "fold add_id (map rn_id (filter (\<lambda>r. active_status (rn_status r)) (ss_runs st))) ?base"
  have "length ?run \<le> length ?base + 1"
    using length_add_ids[of "map rn_id (filter (\<lambda>r. active_status (rn_status r)) (ss_runs st))" ?base] assms by simp
  also have "\<dots> \<le> 2" by (simp split: option.split)
  finally show ?thesis
    using length_fill_newest[of maxRetainedRuns "map rn_id (rev (ss_runs st))" ?run]
    by (simp add: kept_runs_def Let_def maxRetainedRuns_def)
qed

lemma kept_plans_used: "r \<in> set runs \<Longrightarrow> rn_planId r \<in> set (kept_plans runs st)"
  unfolding kept_plans_def Let_def
  by (rule subsetD[OF set_fill_newest]) (auto simp: set_add_ids add_id_def split: option.split)

lemma kept_plans_length:
  assumes "length runs \<le> 6"
  shows "length (kept_plans runs st) \<le> 10"
proof -
  let ?used = "fold add_id (map rn_planId runs) []"
  have "length ?used \<le> 6" using length_add_ids[of "map rn_planId runs" "[]"] assms by simp
  then show ?thesis
    unfolding kept_plans_def Let_def
    by (intro order_trans[OF length_fill_newest]) (auto simp: maxRetainedPlans_def add_id_def split: option.split)
qed

subsection \<open>Removing old history\<close>

lemma tasks_of_kept:
  "i \<in> keep \<Longrightarrow> filter (\<lambda>k. tk_runId k = i) (filter (\<lambda>k. tk_runId k \<in> keep) ks) = filter (\<lambda>k. tk_runId k = i) ks"
  by (auto intro: filter_cong)

lemma events_of_kept:
  "i \<in> keep \<Longrightarrow> filter (\<lambda>e. ev_runId e = i) (filter (\<lambda>e. ev_runId e \<in> keep) es) = filter (\<lambda>e. ev_runId e = i) es"
  by (auto intro: filter_cong)

lemma kept_by_id_length:
  assumes "distinct (map f xs)"
  shows "length (filter (\<lambda>x. f x \<in> set ids) xs) \<le> length ids"
proof -
  have "distinct (map f (filter (\<lambda>x. f x \<in> set ids) xs))" by (rule distinct_map_filter[OF assms])
  then have "length (map f (filter (\<lambda>x. f x \<in> set ids) xs)) \<le> length ids"
    by (rule distinct_subset_length) auto
  then show ?thesis by simp
qed

lemma compact_ok:
  assumes core: "core_ok owner st" and log: "log_ok st"
    and few: "length (ss_runs st) \<le> 6 \<or> length (filter (\<lambda>r. active_status (rn_status r)) (ss_runs st)) \<le> 1"
  shows "setup_ok owner (compactSetupHistory st)"
proof (cases "length (ss_runs st) \<le> maxRetainedRuns \<and> length (ss_plans st) \<le> maxRetainedPlans")
  case True
  then show ?thesis using core log
    by (simp add: compactSetupHistory_def setup_ok_def small_def maxRetainedRuns_def maxRetainedPlans_def)
next
  case False
  let ?keep = "set (kept_runs st)"
  let ?runs = "filter (\<lambda>r. rn_id r \<in> ?keep) (ss_runs st)"
  let ?plans = "set (kept_plans ?runs st)"
  let ?st = "st\<lparr>ss_runs := ?runs, ss_tasks := filter (\<lambda>k. tk_runId k \<in> ?keep) (ss_tasks st),
    ss_receipts := filter (\<lambda>r. rc_runId r \<in> ?keep) (ss_receipts st),
    ss_events := filter (\<lambda>e. ev_runId e \<in> ?keep) (ss_events st),
    ss_runIdempotency := filter (\<lambda>(_, run). run \<in> ?keep) (ss_runIdempotency st),
    ss_plans := filter (\<lambda>p. pl_id p \<in> ?plans) (ss_plans st)\<rparr>"
  have st: "compactSetupHistory st = ?st" unfolding compactSetupHistory_def if_not_P[OF False] Let_def ..
  have g: "graph_ok owner st" using core by (simp add: core_ok_def)
  have ids: "run_ids ?st = run_ids st \<inter> ?keep" by (auto simp: run_ids_def)
  have of: "tasks_of ?st i = tasks_of st i" if "i \<in> ?keep" for i
    using tasks_of_kept[OF that] by (simp add: tasks_of_def)
  have made: "run_made owner ?st r" if r: "r \<in> set ?runs" for r
  proof -
    have "run_made owner st r" using g r by (simp add: graph_ok_def)
    moreover have "rn_planId r \<in> ?plans" by (rule kept_plans_used[OF r])
    ultimately show ?thesis using of[of "rn_id r"] r by (auto simp: run_made_def)
  qed
  have graph: "graph_ok owner ?st"
  proof -
    have c: "pred_option (\<lambda>c. completion_schema c \<and> co_runId c \<in> run_ids ?st) (ss_completion ?st)"
      using g kept_runs_completed[of st] unfolding ids by (cases "ss_completion st") (simp_all add: graph_ok_def)
    have t: "\<forall>k \<in> set (ss_tasks ?st). tk_runId k \<in> run_ids ?st" using g unfolding ids by (simp add: graph_ok_def)
    have e: "\<forall>e \<in> set (ss_runIdempotency ?st). valid_reference (fst e) \<and> snd e \<in> run_ids ?st"
      using g unfolding ids by (auto simp: graph_ok_def)
    have m: "\<forall>r \<in> set (ss_runs ?st). run_made owner ?st r" using made by simp
    show ?thesis using g c t e m unfolding graph_ok_def
      by (intro conjI) (simp_all add: distinct_map_filter)
  qed
  have tasks: "tasks_ok ?st" using core by (simp add: core_ok_def tasks_ok_def)
  have "\<exists>k \<in> set (ss_tasks ?st). tk_id k = rc_taskId r \<and> tk_runId k = rc_runId r"
    if "r \<in> set (ss_receipts ?st)" for r
  proof -
    have r: "r \<in> set (ss_receipts st)" "rc_runId r \<in> ?keep" using that by simp_all
    then obtain k where "k \<in> set (ss_tasks st)" "tk_id k = rc_taskId r" "tk_runId k = rc_runId r"
      using core by (auto simp: core_ok_def receipts_ok_def)
    then show ?thesis using r(2) by (intro bexI[of _ k]) simp_all
  qed
  moreover have "tk_id k \<in> rc_taskId ` set (ss_receipts ?st)"
    if kr: "k \<in> set (ss_tasks ?st)" "tk_status k = Task_READY" for k
  proof -
    have k: "k \<in> set (ss_tasks st)" "tk_runId k \<in> ?keep" using kr(1) by simp_all
    have "tk_id k \<in> rc_taskId ` set (ss_receipts st)"
      using core k(1) kr(2) by (simp add: core_ok_def receipts_ok_def)
    then obtain r where r: "r \<in> set (ss_receipts st)" "rc_taskId r = tk_id k" by auto
    then obtain k' where k': "k' \<in> set (ss_tasks st)" "tk_id k' = rc_taskId r" "tk_runId k' = rc_runId r"
      using core by (auto simp: core_ok_def receipts_ok_def)
    have "k' = k" using tasks_distinct[OF g] k(1) k'(1,2) r(2) by (simp add: distinct_map inj_on_def)
    then show ?thesis using r k(2) k'(3) by (auto intro!: image_eqI[of _ _ r])
  qed
  ultimately have receipts: "receipts_ok ?st"
    using core unfolding core_ok_def receipts_ok_def by (simp add: distinct_map_filter)
  have phases: "phases_ok ?st" using core of by (auto simp: core_ok_def phases_ok_def)
  have "log_ok ?st"
    unfolding log_ok_def ids
  proof (intro conjI ballI)
    have "length (ss_events st) \<le> 500" using log by (simp add: log_ok_def)
    moreover have "length (ss_events ?st) \<le> length (ss_events st)" by simp
    ultimately show "length (ss_events ?st) \<le> 500" by (rule le_trans[rotated])
    fix e assume "e \<in> set (ss_events ?st)"
    then show "event_schema e" "ev_runId e \<in> run_ids st \<inter> ?keep" using log by (auto simp: log_ok_def)
  next
    fix r assume r: "r \<in> set (ss_runs ?st)"
    have "events_of ?st (rn_id r) = filter (\<lambda>e. ev_runId e = rn_id r) (filter (\<lambda>e. ev_runId e \<in> ?keep) (ss_events st))"
      by (simp add: events_of_def)
    also have "\<dots> = events_of st (rn_id r)"
      unfolding events_of_def by (rule events_of_kept) (use r in simp)
    finally show "numbered_upto (rn_eventSequence r) (events_of ?st (rn_id r))"
      using log r by (simp add: log_ok_def)
  qed
  moreover have "small ?st"
  proof -
    have "length ?runs \<le> 6"
      using few
    proof
      assume "length (ss_runs st) \<le> 6"
      then show ?thesis using length_filter_le le_trans by blast
    next
      assume a: "length (filter (\<lambda>r. active_status (rn_status r)) (ss_runs st)) \<le> 1"
      have "length ?runs \<le> length (kept_runs st)" using g by (intro kept_by_id_length) (simp add: graph_ok_def)
      then show ?thesis using kept_runs_length[OF a] by simp
    qed
    moreover have "length (filter (\<lambda>p. pl_id p \<in> ?plans) (ss_plans st)) \<le> length (kept_plans ?runs st)"
      using g by (intro kept_by_id_length) (simp add: graph_ok_def)
    ultimately show ?thesis using kept_plans_length[of ?runs st] by (simp add: small_def)
  qed
  ultimately show ?thesis using graph tasks receipts phases unfolding st by (simp add: setup_ok_def core_ok_def)
qed

lemma setup_ok_revision: "setup_ok owner (st\<lparr>ss_revision := n\<rparr>) = setup_ok owner st"
  by (simp add: setup_ok_def core_ok_def graph_ok_def run_made_def tasks_of_def run_ids_def tasks_ok_def
      receipts_ok_def phases_ok_def log_ok_def events_of_def small_def)

lemma stamp_ok:
  assumes "core_ok owner st" and "log_ok st"
    and "length (ss_runs st) \<le> 6 \<or> length (filter (\<lambda>r. active_status (rn_status r)) (ss_runs st)) \<le> 1"
  shows "setup_ok owner (stamp existing st)"
  unfolding stamp_def setup_ok_revision by (rule compact_ok[OF assms])

subsection \<open>A new draft\<close>

lemma supersede_same: "rn_id (supersede now r) = rn_id r" "rn_planId (supersede now r) = rn_planId r"
    "rn_ownerId (supersede now r) = rn_ownerId r" "rn_eventSequence (supersede now r) = rn_eventSequence r"
    "rn_revision r \<le> rn_revision (supersede now r)"
  by (simp_all add: supersede_def touch_run_def)

lemma supersede_phase: "phase_ok (rn_status r) ks \<Longrightarrow> phase_ok (rn_status (supersede now r)) ks"
  by (auto simp: supersede_def touch_run_def phase_ok_def)

lemma updateDraft_ok:
  assumes ok: "setup_ok owner st" and h: "updateDraft owner n input now uuid st = Inr (v, Some st')"
  shows "setup_ok owner st'"
proof -
  obtain draft where d: "draft_schema draft" "dr_ownerId draft = owner"
    and st': "st' = st\<lparr>ss_runs := map (supersede now) (ss_runs st), ss_draft := Some draft\<rparr>"
    using h by (auto simp: updateDraft_def Let_def split: if_splits sum.splits)
  note P = setup_ok_parts[OF ok]
  have ids: "run_ids st' = run_ids st" by (simp add: st' run_ids_def image_image supersede_same)
  have of: "tasks_of st' = tasks_of st" by (simp add: st' tasks_of_def fun_eq_iff)
  have "graph_ok owner st'"
    using P(1) d unfolding graph_ok_def ids
    by (simp add: st' run_made_def of[unfolded st'] supersede_same comp_def)
  moreover have "phases_ok st'"
    unfolding phases_ok_def of
  proof
    fix r assume "r \<in> set (ss_runs st')"
    then obtain r0 where r: "r0 \<in> set (ss_runs st)" "r = supersede now r0" by (auto simp: st')
    then have "0 < rn_revision r0 \<and> phase_ok (rn_status r0) (tasks_of st (rn_id r0))"
      using P(4) by (simp add: phases_ok_def)
    then show "0 < rn_revision r \<and> phase_ok (rn_status r) (tasks_of st (rn_id r))"
      using supersede_same(5)[of r0 now] supersede_phase[of r0 _ now] by (auto simp: r(2) supersede_same intro: less_le_trans)
  qed
  moreover have "tasks_ok st'" "receipts_ok st'" using P(2,3) by (simp_all add: st' tasks_ok_def receipts_ok_def)
  moreover have "log_ok st'"
    using P(5) unfolding log_ok_def ids by (simp add: st' events_of_def supersede_same)
  moreover have "small st'" using P(6) by (simp add: st' small_def)
  ultimately show ?thesis by (simp add: setup_ok_def core_ok_def)
qed

subsection \<open>A new plan\<close>

lemma catalogue_ids: "distinct SETUP_IDS \<and> length SETUP_IDS = 49 \<and> list_all valid_feature SETUP_IDS"
  by code_simp

lemma filtered_unique: "unique_ids (filter P SETUP_IDS)"
proof -
  have "length (filter P SETUP_IDS) \<le> 49" using catalogue_ids length_filter_le[of P SETUP_IDS] by simp
  then show ?thesis using catalogue_ids by (auto simp: unique_ids_def list_all_iff)
qed

definition most_inputs :: "human_input \<Rightarrow> nat" where
  "most_inputs h = (if hi_featureId h = ''pane:live'' then 2 else 1)"

lemma inputs_fine:
  "list_all input_schema entriesWithHumanInputs \<and> sum_list (map most_inputs entriesWithHumanInputs) = 22 \<and>
   valid_feature ''pane:live'' \<and> valid_reason ''LIVE_CREDENTIAL_REQUIRED'' \<and> valid_reason ''LIVE_PROVIDER_REQUIRED'' \<and>
   valid_reason ''LIVE_MICROPHONE_CHECK_REQUIRED''"
  by code_simp

lemma required_inputs_fine:
  assumes "input_schema h"
  shows "length (required_inputs selected subjects choices h) \<le> most_inputs h"
    and "list_all input_schema (required_inputs selected subjects choices h)"
  using assms inputs_fine by (auto simp: required_inputs_def input_needed_def most_inputs_def input_schema_def Let_def)

lemma required_inputs_count:
  "list_all input_schema hs \<Longrightarrow>
   length (concat (map (required_inputs selected subjects choices) hs)) \<le> sum_list (map most_inputs hs) \<and>
   list_all input_schema (concat (map (required_inputs selected subjects choices) hs))"
proof (induction hs)
  case (Cons h hs)
  then show ?case
    using required_inputs_fine[of h selected subjects choices] by auto
qed simp

lemma resolution_ids:
  assumes "resolveSetupSelection requested avail SETUP_CATALOG = Inr r"
  shows "unique_ids (r_requestedIds r)" "unique_ids (r_effectiveIds r)"
proof -
  obtain byId where "resolution_spec byId avail requested SETUP_CATALOG r" using resolve_spec[OF assms] by blast
  then show "unique_ids (r_requestedIds r)" "unique_ids (r_effectiveIds r)"
    by (simp_all add: resolution_spec_def Let_def SETUP_IDS_def[symmetric] filtered_unique)
qed

text \<open>A plan made from a stored draft always passes the plan's schema.\<close>

lemma createPlan_schema:
  assumes env: "env_ok env" and ok: "setup_ok owner st" and uuid: "valid_uuid uuid"
  shows "createPlan env owner n avail subjects now uuid st \<noteq> Inl Schema_Violation"
proof
  assume bad: "createPlan env owner n avail subjects now uuid st = Inl Schema_Violation"
  obtain draft where draft: "ss_draft st = Some draft" using bad by (auto simp: createPlan_def split: option.splits)
  obtain res where res: "resolveSetupSelection (dr_requested draft) avail SETUP_CATALOG = Inr res"
    using bad draft by (auto simp: createPlan_def split: if_splits sum.splits)
  have g: "graph_ok owner st" by (rule setup_ok_parts(1)[OF ok])
  have d: "valid_id (dr_id draft)" "valid_id owner" using g draft by (simp_all add: graph_ok_def draft_schema_def)
  let ?inputs = "concat (map (required_inputs (r_effectiveIds res) subjects (dr_choices draft)) entriesWithHumanInputs)"
  let ?costs = "map (\<lambda>f. (sf_id f, sf_cost f)) (filter (\<lambda>f. sf_id f \<in> set (r_effectiveIds res)) SETUP_CATALOG)"
  have inputs: "length ?inputs \<le> 40" "list_all input_schema ?inputs"
    using required_inputs_count[of entriesWithHumanInputs "r_effectiveIds res" subjects "dr_choices draft"] inputs_fine
    by simp_all
  have costs: "length ?costs \<le> 100" "list_all (\<lambda>(i, _). valid_feature i) ?costs"
    using catalogue_ids length_filter_le[of _ SETUP_CATALOG] catalogue_valid
    by (auto simp: SETUP_IDS_def list_all_iff intro: le_trans[of _ 49])
  have actions: "length (buildActions ids) \<le> 200" "list_all action_schema (buildActions ids)" for ids
    using buildActions_length[of ids] buildActions_schema by (auto simp: list_all_iff)
  have h: "valid_hash (se_hash_plan env x)" for x using env by (simp add: env_ok_def)
  show False
    using bad draft res resolution_ids[OF res] d inputs costs actions h valid_made_ids(2)[OF uuid]
    by (auto simp: createPlan_def Let_def plan_schema_def split: if_splits)
qed

lemma createPlan_ok:
  assumes ok: "setup_ok owner st" and h: "createPlan env owner n avail subjects now uuid st = Inr (v, Some st')"
    and fresh: "''plan:'' @ uuid \<notin> pl_id ` set (ss_plans st)"
  shows "core_ok owner st' \<and> log_ok st' \<and> ss_runs st' = ss_runs st \<and>
    (\<exists>p. ss_plans st' = ss_plans st @ [p] \<and> pl_id p = ''plan:'' @ uuid)"
proof -
  obtain p ids where p: "plan_schema p" "pl_ownerId p = owner" "pl_actions p = buildActions ids" "pl_id p = ''plan:'' @ uuid"
    and st': "st' = st\<lparr>ss_plans := ss_plans st @ [p]\<rparr>"
    using h by (auto simp: createPlan_def Let_def split: if_splits option.splits sum.splits)
  note P = setup_ok_parts[OF ok]
  have ids: "run_ids st' = run_ids st" by (simp add: st' run_ids_def)
  have of: "tasks_of st' = tasks_of st" by (simp add: st' tasks_of_def fun_eq_iff)
  have made: "run_made owner st' r" if "run_made owner st r" for r
    using that unfolding run_made_def of by (auto simp: st')
  have "plan_made owner p" using p by (auto simp: plan_made_def)
  then have "graph_ok owner st'"
    using P(1) made fresh p(4) unfolding graph_ok_def ids by (simp add: st')
  then show ?thesis using P p(4) ids of
    by (simp add: core_ok_def tasks_ok_def receipts_ok_def phases_ok_def log_ok_def events_of_def st')
qed

subsection \<open>A new run\<close>

lemma new_task_shape: "task_shape (new_task env owner digest i a) = action_shape i a"
  by (simp add: task_shape_def action_shape_def new_task_def)

lemma new_task_ok: "env_ok env \<Longrightarrow> task_ok (new_task env owner digest i a)"
  using new_task_key_valid[of env owner digest i a] by (simp add: task_ok_def new_task_def working_def)

lemma startRun_ok:
  assumes ok: "setup_ok owner st" and env: "env_ok env" and uuid: "valid_uuid uuid"
    and h: "startRun env owner planId digest key now uuid st = Inr (v, Some st')"
    and fresh: "''run:'' @ uuid \<notin> run_ids st"
  shows "core_ok owner st' \<and> log_ok st' \<and> ss_plans st' = ss_plans st \<and>
    length (filter (\<lambda>r. active_status (rn_status r)) (ss_runs st')) \<le> 1 \<and>
    (\<exists>r. ss_runs st' = ss_runs st @ [r] \<and> rn_id r = ''run:'' @ uuid)"
proof -
  define i where "i = run_name uuid"
  define run where "run = \<lparr>rn_id = i, rn_planId = planId, rn_ownerId = owner, rn_status = Run_RUNNING,
    rn_revision = 1, rn_eventSequence = 0, rn_createdAt = now, rn_updatedAt = now, rn_finishedAt = None\<rparr>"
  have i: "''run:'' @ uuid = i" by (simp add: i_def run_name_def)
  obtain plan where find: "List.find (\<lambda>p. pl_id p = planId \<and> pl_digest p = digest) (ss_plans st) = Some plan"
    and key: "valid_reference key" "List.find (\<lambda>e. fst e = key) (ss_runIdempotency st) = None"
    and idle: "\<forall>r \<in> set (ss_runs st). \<not> active_status (rn_status r)"
    and st': "st' = st\<lparr>ss_runs := ss_runs st @ [run],
      ss_tasks := ss_tasks st @ map (new_task env owner (pl_digest plan) i) (pl_actions plan),
      ss_runIdempotency := ss_runIdempotency st @ [(key, i)]\<rparr>"
    using h unfolding startRun_def i
    by (auto simp: Let_def run_def split: if_splits option.splits)
  note P = setup_ok_parts[OF ok]
  let ?new = "map (new_task env owner (pl_digest plan) i) (pl_actions plan)"
  have fr: "i \<notin> run_ids st" using fresh i by simp
  have plan: "plan \<in> set (ss_plans st)" "pl_id plan = planId" using find_SomeD[OF find] by simp_all
  obtain ids where acts: "pl_actions plan = buildActions ids" using P(1) plan by (auto simp: graph_ok_def plan_made_def)
  have ids: "run_ids st' = insert i (run_ids st)" by (auto simp: st' run_ids_def run_def)
  have old_tasks: "\<forall>k \<in> set (ss_tasks st). tk_runId k \<in> run_ids st" using P(1) by (simp add: graph_ok_def)
  have new_run: "tk_runId k = i" if "k \<in> set ?new" for k using that by (auto simp: new_task_def)
  have of_new: "tasks_of st' i = ?new"
    using old_tasks fr new_run by (auto simp: st' tasks_of_def filter_empty_conv filter_id_conv)
  have of_old: "tasks_of st' j = tasks_of st j" if "j \<in> run_ids st" for j
    using that fr new_run by (auto simp: st' tasks_of_def filter_empty_conv)
  have made_old: "run_made owner st' r" if r: "r \<in> set (ss_runs st)" for r
  proof -
    have "rn_id r \<in> run_ids st" using r by (simp add: run_ids_def)
    moreover have "run_made owner st r" using P(1) r by (simp add: graph_ok_def)
    moreover have "ss_plans st' = ss_plans st" by (simp add: st')
    ultimately show ?thesis using of_old[of "rn_id r"] unfolding run_made_def by simp
  qed
  have made_new: "run_made owner st' run"
    unfolding run_made_def
    using plan uuid of_new by (auto simp: run_def i_def new_task_shape st' intro!: bexI[of _ plan])
  have made: "\<forall>r \<in> set (ss_runs st'). run_made owner st' r" using made_old made_new by (simp add: st')
  have keys: "key \<notin> fst ` set (ss_runIdempotency st)" using key(2) by (auto simp: find_None_iff)
  have snds: "i \<notin> snd ` set (ss_runIdempotency st)" using P(1) fr by (auto simp: graph_ok_def)
  have graph: "graph_ok owner st'"
  proof -
    have c: "pred_option (\<lambda>c. completion_schema c \<and> co_runId c \<in> run_ids st') (ss_completion st')"
      using P(1) unfolding ids by (cases "ss_completion st") (simp_all add: graph_ok_def st')
    have t: "\<forall>k \<in> set (ss_tasks st'). tk_runId k \<in> run_ids st'"
      using old_tasks new_run unfolding ids by (auto simp: st')
    have e: "\<forall>e \<in> set (ss_runIdempotency st'). valid_reference (fst e) \<and> snd e \<in> run_ids st'"
      using P(1) key(1) unfolding ids by (auto simp: st' graph_ok_def)
    have d: "distinct (map rn_id (ss_runs st'))"
      using P(1) fr by (auto simp: st' graph_ok_def run_def run_ids_def)
    show ?thesis using P(1) c t e d made keys snds unfolding graph_ok_def
      by (intro conjI) (simp_all add: st')
  qed
  have tasks: "tasks_ok st'" using P(2) new_task_ok[OF env] by (auto simp: tasks_ok_def st')
  have receipts: "receipts_ok st'" using P(3) unfolding receipts_ok_def by (auto simp: st' Bex_def new_task_def)
  have "phase_ok Run_RUNNING ?new"
  proof -
    have q: "tk_status k = Task_QUEUED" if "k \<in> set ?new" for k using that by (auto simp: new_task_def)
    have none: "occurs s ?new = 0" if "s \<noteq> Task_QUEUED" for s
      using q that by (auto simp: occurs_def filter_empty_conv)
    have "?new \<noteq> []" using acts by (simp add: buildActions_def Let_def)
    then obtain k where "k \<in> set ?new" by (meson last_in_set)
    then show ?thesis using q none[of Task_INSTALLING] none[of Task_CHECKING] by (fastforce simp: phase_ok_def)
  qed
  then have phases: "phases_ok st'"
    unfolding phases_ok_def using P(4) of_new of_old
    by (auto simp: st' phases_ok_def run_def run_ids_def tasks_of_def)
  have log: "log_ok st'"
  proof -
    have "filter (\<lambda>e. ev_runId e = i) (ss_events st) = []"
      using P(5) fr by (auto simp: log_ok_def filter_empty_conv)
    then show ?thesis using P(5) unfolding log_ok_def ids
      by (auto simp: st' run_def events_of_def numbered_upto_def)
  qed
  have active: "length (filter (\<lambda>r. active_status (rn_status r)) (ss_runs st')) \<le> 1"
    using idle by (simp add: st' filter_empty_conv)
  have core: "core_ok owner st'" using graph tasks receipts phases by (simp add: core_ok_def)
  have runs: "ss_runs st' = ss_runs st @ [run]" "rn_id run = ''run:'' @ uuid"
    unfolding i by (simp_all add: st' run_def)
  have plans: "ss_plans st' = ss_plans st" by (simp add: st')
  show ?thesis using core log plans active runs by blast
qed

subsection \<open>Which ids the server has given\<close>

definition given :: "string set \<Rightarrow> setup_state \<Rightarrow> bool" where
  "given U st \<longleftrightarrow> (\<forall>r \<in> set (ss_runs st). \<exists>u \<in> U. rn_id r = ''run:'' @ u) \<and>
     (\<forall>p \<in> set (ss_plans st). \<exists>u \<in> U. pl_id p = ''plan:'' @ u)"

lemma given_mono: "given U st \<Longrightarrow> U \<subseteq> V \<Longrightarrow> given V st"
  by (fastforce simp: given_def)

lemma given_fresh: "given U st \<Longrightarrow> u \<notin> U \<Longrightarrow> ''run:'' @ u \<notin> run_ids st \<and> ''plan:'' @ u \<notin> pl_id ` set (ss_plans st)"
  by (auto simp: given_def run_ids_def)

text \<open>Handlers inside a run neither add nor rename runs and plans.\<close>

definition framed :: "setup_state \<Rightarrow> setup_state \<Rightarrow> bool" where
  "framed st st' \<longleftrightarrow> map rn_id (ss_runs st') = map rn_id (ss_runs st) \<and> ss_plans st' = ss_plans st"

lemma framed_cores: "ss_plans st' = ss_plans st \<Longrightarrow> map fst (cores st') = map fst (cores st) \<Longrightarrow> framed st st'"
  by (simp add: framed_def cores_ids)

lemma framed_given: "framed st st' \<Longrightarrow> given U st \<Longrightarrow> given U st'"
proof -
  assume f: "framed st st'" and g: "given U st"
  have "rn_id ` set (ss_runs st') = rn_id ` set (ss_runs st)" using f unfolding framed_def by (metis set_map)
  then have "\<forall>r \<in> set (ss_runs st'). \<exists>r0 \<in> set (ss_runs st). rn_id r = rn_id r0" by (metis imageE imageI)
  then show "given U st'" using f g unfolding given_def framed_def by metis
qed

lemma handlers_framed:
  "failTask i t worker reason now st = Inr (v, Some st') \<Longrightarrow> framed st st'"
  "leaseNextTask i worker ms now st = Inr (o', Some st') \<Longrightarrow> framed st st'"
  "completeTask i t worker input now uuid st = Inr (v, Some st') \<Longrightarrow> framed st st'"
  "changeRunStatus i sources target now st = Inr (v, Some st') \<Longrightarrow> framed st st'"
  "cancelRun i now st = Inr (v, Some st') \<Longrightarrow> framed st st'"
  "retryFailedTasks i ts n now st = Inr (v, Some st') \<Longrightarrow> framed st st'"
  "revalidateStaleTasks i ts n now st = Inr (v, Some st') \<Longrightarrow> framed st st'"
  "reconcileExpiredTask i t inspection now uuid st = Inr (v, Some st') \<Longrightarrow> framed st st'"
  "updateDraft owner m choices now uuid st = Inr (d, Some st') \<Longrightarrow> framed st st'"
          apply (rule framed_cores; auto simp: failTask_def effects recore_ids split: if_splits option.splits)
         apply (rule framed_cores; auto simp: leaseNextTask_def Let_def logged_updates effects recore_ids split: if_splits option.splits)
        apply (rule framed_cores; auto simp: completeTask_def effects recore_ids split: if_splits option.splits)
       apply (rule framed_cores; auto simp: changeRunStatus_def effects recore_ids split: if_splits option.splits)
      apply (rule framed_cores; auto simp: cancelRun_def logged_updates effects recore_ids split: if_splits option.splits)
     apply (rule framed_cores; auto simp: retryFailedTasks_def Let_def logged_updates effects recore_ids split: if_splits option.splits)
    apply (rule framed_cores; auto simp: revalidateStaleTasks_def Let_def logged_updates effects recore_ids split: if_splits option.splits)
   apply (rule framed_cores; auto simp: reconcileExpiredTask_def settle_reconciled_alt effects recore_ids split: if_splits option.splits setup_inspection.splits)
  apply (auto simp: framed_def updateDraft_def Let_def supersede_same split: if_splits sum.splits)
  done

subsection \<open>Every request keeps the invariant\<close>

lemma written_state_Some: "written_state h = Inr (Some st) \<longleftrightarrow> (\<exists>v. h = Inr (v, Some st))"
  by (auto simp: written_state_def split: sum.splits)

text \<open>What a request leaves in the private copy: the invariant but for the newest plan or run.\<close>

definition nearly_ok :: "string \<Rightarrow> string set \<Rightarrow> setup_state \<Rightarrow> bool" where
  "nearly_ok owner U st \<longleftrightarrow> core_ok owner st \<and> log_ok st \<and> given U st \<and>
     (length (ss_runs st) \<le> 6 \<or> length (filter (\<lambda>r. active_status (rn_status r)) (ss_runs st)) \<le> 1)"

lemma nearly_ok_framed:
  "setup_ok owner st' \<Longrightarrow> framed st st' \<Longrightarrow> given U st \<Longrightarrow> nearly_ok owner (insert u U) st'"
  using given_mono[OF framed_given, of st st' U "insert u U"]
  by (auto simp: nearly_ok_def setup_ok_def small_def)

lemma apply_request_ok:
  assumes ok: "setup_ok owner st" and g: "given U st" and u: "u \<notin> U" "valid_uuid u" and env: "env_ok env"
    and rq: "request_ok rq" and h: "apply_request env owner now u rq st = Inr (Some st')"
  shows "nearly_ok owner (insert u U) st'"
proof (cases rq)
  case (UpdateDraft n input)
  then obtain v where "updateDraft owner n input now u st = Inr (v, Some st')" using h by (auto simp: written_state_Some)
  then show ?thesis using nearly_ok_framed[OF updateDraft_ok[OF ok] handlers_framed(9) g] by blast
next
  case (CreatePlan n avail subjects)
  then obtain v where v: "createPlan env owner n avail subjects now u st = Inr (v, Some st')" using h by (auto simp: written_state_Some)
  note N = createPlan_ok[OF ok v conjunct2[OF given_fresh[OF g u(1)]]]
  then have "given (insert u U) st'" using g by (fastforce simp: given_def)
  then show ?thesis using N setup_ok_parts(6)[OF ok] by (simp add: nearly_ok_def small_def)
next
  case (StartRun p digest key)
  then obtain v where v: "startRun env owner p digest key now u st = Inr (v, Some st')" using h by (auto simp: written_state_Some)
  note N = startRun_ok[OF ok env u(2) v conjunct1[OF given_fresh[OF g u(1)]]]
  then have "given (insert u U) st'" using g by (fastforce simp: given_def)
  then show ?thesis using N by (simp add: nearly_ok_def)
next
  case (LeaseNextTask i worker ms)
  then obtain v where v: "leaseNextTask i worker ms now st = Inr (v, Some st')" using h by (auto simp: written_state_Some)
  then show ?thesis
    using nearly_ok_framed[OF leaseNextTask_ok[OF ok _ v] handlers_framed(2)[OF v] g] rq LeaseNextTask by simp
next
  case (CompleteTask i t worker input)
  then obtain v where "completeTask i t worker input now u st = Inr (v, Some st')" using h by (auto simp: written_state_Some)
  then show ?thesis using nearly_ok_framed[OF completeTask_ok[OF ok] handlers_framed(3) g] by blast
next
  case (FailTask i t worker reason)
  then obtain v where "failTask i t worker reason now st = Inr (v, Some st')" using h by (auto simp: written_state_Some)
  then show ?thesis using nearly_ok_framed[OF failTask_ok[OF ok] handlers_framed(1) g] by blast
next
  case (PauseRun i)
  then obtain v where v: "changeRunStatus i [Run_RUNNING] Run_PAUSED now st = Inr (v, Some st')"
    using h by (auto simp: written_state_Some pauseRun_def)
  show ?thesis using nearly_ok_framed[OF changeRunStatus_ok[OF ok v] handlers_framed(4)[OF v] g] by simp
next
  case (ResumeRun i)
  then obtain v where v: "changeRunStatus i [Run_PAUSED] Run_RUNNING now st = Inr (v, Some st')"
    using h by (auto simp: written_state_Some resumeRun_def)
  show ?thesis using nearly_ok_framed[OF changeRunStatus_ok[OF ok v] handlers_framed(4)[OF v] g] by simp
next
  case (CancelRun i)
  then obtain v where "cancelRun i now st = Inr (v, Some st')" using h by (auto simp: written_state_Some)
  then show ?thesis using nearly_ok_framed[OF cancelRun_ok[OF ok] handlers_framed(5) g] by blast
next
  case (RetryFailedTasks i ts n)
  then obtain v where "retryFailedTasks i ts n now st = Inr (v, Some st')" using h by (auto simp: written_state_Some)
  then show ?thesis using nearly_ok_framed[OF retryFailedTasks_ok[OF ok] handlers_framed(6) g] by blast
next
  case (RevalidateStaleTasks i ts n)
  then obtain v where "revalidateStaleTasks i ts n now st = Inr (v, Some st')" using h by (auto simp: written_state_Some)
  then show ?thesis using nearly_ok_framed[OF revalidateStaleTasks_ok[OF ok] handlers_framed(7) g] by blast
next
  case (ReconcileExpiredTask i t inspection)
  then obtain v where "reconcileExpiredTask i t inspection now u st = Inr (v, Some st')" using h by (auto simp: written_state_Some)
  then show ?thesis using nearly_ok_framed[OF reconcileExpiredTask_ok[OF ok] handlers_framed(8) g] by blast
qed

lemma compact_given: "given U st \<Longrightarrow> given U (compactSetupHistory st)"
  by (auto simp: given_def compactSetupHistory_def Let_def)

lemma nearly_ok_stamp: "nearly_ok owner U st \<Longrightarrow> setup_ok owner (stamp existing st) \<and> given U (stamp existing st)"
  using stamp_ok[of owner st existing] compact_given[of U st] by (auto simp: nearly_ok_def stamp_def given_def)

subsection \<open>Every stored document\<close>

lemma emptyState_ok: "valid_id owner \<Longrightarrow> setup_ok owner (emptyState owner)"
  by (simp add: setup_ok_def core_ok_def graph_ok_def tasks_ok_def receipts_ok_def phases_ok_def log_ok_def
      small_def emptyState_def)

lemma completion_ok:
  assumes ok: "setup_ok owner st" and c: "createSetupCompletion env st input room = Inr c"
  shows "setup_ok owner (st\<lparr>ss_revision := n, ss_completion := Some c\<rparr>)"
proof -
  have "completion_schema c \<and> co_runId c \<in> run_ids st"
    using createSetupCompletion_Inr[OF c] find_run_Some[of st "ci_runId input"] by (force simp: run_ids_def)
  then show ?thesis using ok
    by (simp add: setup_ok_def core_ok_def graph_ok_def run_made_def tasks_of_def run_ids_def tasks_ok_def
        receipts_ok_def phases_ok_def log_ok_def events_of_def small_def)
qed

definition world_ok :: "string \<Rightarrow> setup_world \<Rightarrow> bool" where
  "world_ok owner w \<longleftrightarrow> (\<forall>st \<in> set (sw_history w). setup_ok owner st \<and> given (sw_uuids w) st)"

lemma working_copy_ok:
  "world_ok owner w \<Longrightarrow> valid_id owner \<Longrightarrow> existing \<in> versions w \<Longrightarrow>
   setup_ok owner (working_copy owner existing) \<and> given (sw_uuids w) (working_copy owner existing)"
  using emptyState_ok by (auto simp: versions_def working_copy_def world_ok_def given_def emptyState_def)

lemma world_ok_step:
  assumes "world_ok owner w" and "env_ok env" and "valid_id owner" and "setup_step env owner w w'"
  shows "world_ok owner w'"
  using assms(4)
proof (cases rule: setup_step.cases)
  case (swapped existing rq u now st nxt)
  have "nearly_ok owner (insert u (sw_uuids w)) st"
    using working_copy_ok[OF assms(1,3) swapped(2)]
    by (intro apply_request_ok[OF _ _ swapped(5,4) assms(2) swapped(3,6)]) simp_all
  then have "setup_ok owner nxt \<and> given (insert u (sw_uuids w)) nxt"
    using nearly_ok_stamp[of owner "insert u (sw_uuids w)" st existing] compareAndSwap_Some[OF swapped(7)] by simp
  moreover have "given (insert u (sw_uuids w)) st'" if "st' \<in> set (sw_history w)" for st'
    by (rule given_mono[of "sw_uuids w"]) (use assms(1) that in \<open>auto simp: world_ok_def\<close>)
  ultimately show ?thesis using assms(1) unfolding world_ok_def swapped(1) by simp
next
  case (completed room st version onboarded input os nxt)
  have st: "setup_ok owner st" "given (sw_uuids w) st"
    using assms(1) completed(3) by (auto simp: world_ok_def stored_now_def split: list.splits)
  obtain c room' where c: "createSetupCompletion env st input room' = Inr c"
      "nxt = st\<lparr>ss_revision := Suc (ss_revision st), ss_completion := Some c\<rparr>"
    using completeSetupExecution_Inr[OF completed(4)] by blast
  have "setup_ok owner nxt" unfolding c(2) by (rule completion_ok[OF st(1) c(1)])
  moreover have "given (sw_uuids w) nxt" using st(2) by (simp add: c(2) given_def)
  ultimately show ?thesis using assms(1) completed(1) by (auto simp: world_ok_def)
next
  case (burned u)
  then show ?thesis using assms(1) given_mono[of "sw_uuids w" _ "insert u (sw_uuids w)"]
    by (auto simp: world_ok_def)
qed

lemma setup_reachable_ok:
  "setup_reachable env owner w \<Longrightarrow> env_ok env \<Longrightarrow> valid_id owner \<Longrightarrow> world_ok owner w"
proof (induction rule: setup_reachable.induct)
  case first
  then show ?case by (simp add: world_ok_def)
next
  case (later w w')
  then show ?case using world_ok_step by blast
qed

end
