(* ===== verification/Setup_Props.thy ===== *)
theory Setup_Props
  imports Setup_Preserve
begin

text \<open>
  What the first-run setup promises: stored documents never hit the limits of their schema, concurrent
  calls act one after the other, a run that says it is ready has proof for every action of its plan,
  completion is only recorded against valid proof, a run that has not failed always has work to give,
  a retry resets exactly what depends on the failed tasks, and a reader of events misses none.
\<close>

subsection \<open>Limits\<close>

lemma stored_version: "stored_now w \<in> versions w"
  by (auto simp: stored_now_def versions_def split: list.split)

text \<open>What any request would store passes the store's checks.\<close>

lemma request_stamped:
  assumes "env_ok env" and "valid_id owner" and "setup_reachable env owner w" and "existing \<in> versions w"
    and "request_ok rq" and "valid_uuid u" and "u \<notin> sw_uuids w"
    and "apply_request env owner now u rq (working_copy owner existing) = Inr (Some st)"
  shows "setup_ok owner (stamp existing st)"
proof -
  have w: "world_ok owner w" by (rule setup_reachable_ok[OF assms(3,1,2)])
  have "nearly_ok owner (insert u (sw_uuids w)) st"
    using working_copy_ok[OF w assms(2,4)]
    by (intro apply_request_ok[OF _ _ assms(7,6,1,5,8)]) simp_all
  then show ?thesis using nearly_ok_stamp by blast
qed

lemma stamped_accepted:
  assumes "valid_id owner" and "setup_ok owner (stamp existing st)"
  shows "compareAndSwap owner (map_option ss_revision existing) (stamp existing st) stored =
    Inr (if map_option ss_revision stored = map_option ss_revision existing then Some (stamp existing st) else None)"
proof -
  have "ss_revision (stamp existing st) = (case map_option ss_revision existing of None \<Rightarrow> 0 | Some n \<Rightarrow> Suc n)"
    by (simp add: stamp_def split: option.split)
  then show ?thesis using assms setup_ok_schema[OF assms(2)] setup_ok_parts(1)[OF assms(2)]
    by (simp add: compareAndSwap_def graph_ok_def)
qed

subsection \<open>Uncontended calls, for the examples\<close>

definition perform :: "setup_env \<Rightarrow> string \<Rightarrow> int \<times> string \<times> setup_request \<Rightarrow> setup_world \<Rightarrow> setup_world option" where
  "perform env owner call w =
     (case call of (now, u, rq) \<Rightarrow>
        (if \<not> request_ok rq \<or> \<not> valid_uuid u \<or> u \<in> sw_uuids w then None
         else case apply_request env owner now u rq (working_copy owner (stored_now w)) of
             Inr (Some st) \<Rightarrow> Some (w\<lparr>sw_history := stamp (stored_now w) st # sw_history w,
                                     sw_uuids := insert u (sw_uuids w)\<rparr>)
           | _ \<Rightarrow> None))"

fun perform_all :: "setup_env \<Rightarrow> string \<Rightarrow> (int \<times> string \<times> setup_request) list \<Rightarrow> setup_world \<Rightarrow> setup_world option" where
  "perform_all env owner [] w = Some w"
| "perform_all env owner (c # cs) w =
     (case perform env owner c w of None \<Rightarrow> None | Some w' \<Rightarrow> perform_all env owner cs w')"

lemma perform_reachable:
  assumes p: "perform env owner c w = Some w'" and ok: "env_ok env" "valid_id owner" and r: "setup_reachable env owner w"
  shows "setup_reachable env owner w'"
proof -
  obtain now u rq where c: "c = (now, u, rq)" by (cases c)
  obtain st where rq: "request_ok rq" "valid_uuid u" "u \<notin> sw_uuids w"
      "apply_request env owner now u rq (working_copy owner (stored_now w)) = Inr (Some st)"
    and w': "w' = w\<lparr>sw_history := stamp (stored_now w) st # sw_history w, sw_uuids := insert u (sw_uuids w)\<rparr>"
    using p unfolding perform_def c by (auto split: if_splits sum.splits option.splits)
  have "compareAndSwap owner (map_option ss_revision (stored_now w)) (stamp (stored_now w) st) (stored_now w) =
      Inr (Some (stamp (stored_now w) st))"
    using stamped_accepted[OF ok(2) request_stamped[OF ok r stored_version rq]] by simp
  then show ?thesis unfolding w' by (rule setup_reachable.later[OF r swapped[OF stored_version rq]])
qed

lemma perform_all_reachable:
  "perform_all env owner cs w = Some w' \<Longrightarrow> env_ok env \<Longrightarrow> valid_id owner \<Longrightarrow>
   setup_reachable env owner w \<Longrightarrow> setup_reachable env owner w'"
  by (induction env owner cs w rule: perform_all.induct)
     (auto split: option.splits dest: perform_reachable)

subsection \<open>What a stored document is\<close>

lemma stored_ok:
  assumes "env_ok env" and "valid_id owner" and "setup_reachable env owner w" and "st \<in> set (sw_history w)"
  shows "setup_ok owner st"
  using setup_reachable_ok[OF assms(3,1,2)] assms(4) by (simp add: world_ok_def)

lemma run_has_plan:
  assumes "setup_ok owner st" and "r \<in> set (ss_runs st)"
  obtains p ids where "p \<in> set (ss_plans st)" and "pl_id p = rn_planId r" and "pl_actions p = buildActions ids"
    and "map task_shape (tasks_of st (rn_id r)) = map (action_shape (rn_id r)) (pl_actions p)"
proof -
  have g: "graph_ok owner st" by (rule setup_ok_parts(1)[OF assms(1)])
  then obtain p where p: "p \<in> set (ss_plans st)" "pl_id p = rn_planId r"
      "map task_shape (tasks_of st (rn_id r)) = map (action_shape (rn_id r)) (pl_actions p)"
    using assms(2) by (auto simp: graph_ok_def run_made_def)
  then obtain ids where "pl_actions p = buildActions ids" using g by (auto simp: graph_ok_def plan_made_def)
  then show ?thesis using that p by blast
qed

lemma task_for_action:
  assumes "map task_shape ks = map (action_shape i) as" and "a \<in> set as"
  shows "\<exists>k \<in> set ks. tk_id k = task_id i (pa_id a) \<and> tk_runId k = i \<and> tk_actionId k = pa_actionId a \<and>
    tk_featureId k = pa_featureId a"
proof -
  have "action_shape i a \<in> set (map task_shape ks)" unfolding assms(1) using assms(2) by simp
  then show ?thesis by (auto simp: task_shape_def action_shape_def)
qed

text \<open>
  C13. The setup document never outgrows its schema. Whatever requests of whatever callers were stored
  before, what a further request would store has at most 6 runs, 10 plans, 318 tasks, 318 receipts and
  500 events (the schema's limits are 50, 50, 500, 500 and 500), passes the schema, and the store
  answers it with success or with a lost race, never with a schema or conflict error.
\<close>

theorem setup_never_rejected:
  assumes "env_ok env" and "valid_id owner" and "setup_reachable env owner w" and "existing \<in> versions w"
    and "request_ok rq" and "valid_uuid u" and "u \<notin> sw_uuids w"
    and "apply_request env owner now u rq (working_copy owner existing) = Inr (Some st)"
  shows "setup_schema (stamp existing st) \<and>
    length (ss_runs (stamp existing st)) \<le> 6 \<and> length (ss_plans (stamp existing st)) \<le> 10 \<and>
    length (ss_tasks (stamp existing st)) \<le> 318 \<and> length (ss_receipts (stamp existing st)) \<le> 318 \<and>
    length (ss_events (stamp existing st)) \<le> 500 \<and>
    (\<exists>r. compareAndSwap owner (map_option ss_revision existing) (stamp existing st) (stored_now w) = Inr r)"
proof -
  have ok: "setup_ok owner (stamp existing st)" by (rule request_stamped[OF assms])
  note P = setup_ok_parts[OF ok]
  show ?thesis
    using setup_ok_schema[OF ok] P(6) small_lengths[OF P(1,3)] P(5) stamped_accepted[OF assms(2) ok]
    by (simp add: small_def log_ok_def)
qed

text \<open>
  C4. Concurrent setup calls act one after the other. If \<open>mutate\<close> stores a document, then at one of
  its eight attempts the handler ran on exactly the document that was stored when it swapped, the
  caller got that run's result, and the stored document is what the handler made of it: whatever other
  calls stored between the read and the swap, no update is lost and none is applied to old data.
\<close>

theorem mutate_atomic:
  assumes "mutate owner change views = (result, Some nxt)"
    and "\<And>k. k < 8 \<Longrightarrow> setup_reachable env owner (worlds k) \<and> fst (views k) \<in> versions (worlds k) \<and>
      snd (views k) = stored_now (worlds k)"
  shows "\<exists>k < 8. \<exists>v st. result = Inr v \<and>
    change k (working_copy owner (stored_now (worlds k))) = Inr (v, Some st) \<and>
    nxt = stamp (stored_now (worlds k)) st"
proof -
  obtain k v st where k: "k < 8" "result = Inr v" "change k (working_copy owner (fst (views k))) = Inr (v, Some st)"
    and swap: "compareAndSwap owner (map_option ss_revision (fst (views k))) (stamp (fst (views k)) st) (snd (views k)) =
      Inr (Some nxt)"
    using mutate_from_stores[OF assms(1)[unfolded mutate_def]] by auto
  note W = assms(2)[OF k(1)]
  have "fst (views k) = stored_now (worlds k)"
    using compareAndSwap_Some[OF swap] W by (intro swap_reads_current[of env owner "worlds k"]) auto
  then show ?thesis using k compareAndSwap_Some[OF swap] by auto
qed

text \<open>
  C5. A run that says it is ready is proved ready. In every stored document a run with status
  \<open>READY\<close> has its plan, and for each action of that plan a task of the run that is \<open>READY\<close> and has
  a receipt of this run.
\<close>

theorem ready_run_proved:
  assumes "env_ok env" and "valid_id owner" and "setup_reachable env owner w" and "st \<in> set (sw_history w)"
    and "r \<in> set (ss_runs st)" and "rn_status r = Run_READY"
  shows "\<exists>p \<in> set (ss_plans st). pl_id p = rn_planId r \<and>
    (\<forall>a \<in> set (pl_actions p). \<exists>k \<in> set (ss_tasks st). tk_id k = task_id (rn_id r) (pa_id a) \<and>
       tk_runId k = rn_id r \<and> tk_actionId k = pa_actionId a \<and> tk_status k = Task_READY \<and>
       (\<exists>rc \<in> set (ss_receipts st). rc_taskId rc = tk_id k \<and> rc_runId rc = rn_id r))"
proof -
  have ok: "setup_ok owner st" by (rule stored_ok[OF assms(1-4)])
  obtain p ids where p: "p \<in> set (ss_plans st)" "pl_id p = rn_planId r"
      "map task_shape (tasks_of st (rn_id r)) = map (action_shape (rn_id r)) (pl_actions p)"
    by (rule run_has_plan[OF ok assms(5)])
  have ready: "\<forall>k \<in> set (tasks_of st (rn_id r)). tk_status k = Task_READY"
    using setup_ok_parts(4)[OF ok] assms(5,6) by (auto simp: phases_ok_def phase_ok_def)
  have receipt: "\<exists>rc \<in> set (ss_receipts st). rc_taskId rc = tk_id k \<and> rc_runId rc = tk_runId k"
    if k: "k \<in> set (ss_tasks st)" "tk_status k = Task_READY" for k
  proof -
    have "tk_id k \<in> rc_taskId ` set (ss_receipts st)" using setup_ok_parts(3)[OF ok] k by (simp add: receipts_ok_def)
    then obtain rc where rc: "rc \<in> set (ss_receipts st)" "rc_taskId rc = tk_id k" by auto
    have "\<exists>k' \<in> set (ss_tasks st). tk_id k' = rc_taskId rc \<and> tk_runId k' = rc_runId rc"
      using setup_ok_parts(3)[OF ok] rc(1) by (simp add: receipts_ok_def)
    then obtain k' where k': "k' \<in> set (ss_tasks st)" "tk_id k' = tk_id k" "tk_runId k' = rc_runId rc"
      unfolding rc(2) by blast
    have "k' = k" by (rule one_task[OF ok k'(1) k(1) k'(2)])
    then show ?thesis using rc k'(3) by (intro bexI[of _ rc]) simp_all
  qed
  show ?thesis
  proof (intro bexI[OF _ p(1)] conjI p(2) ballI)
    fix a assume "a \<in> set (pl_actions p)"
    then obtain k where k: "k \<in> set (tasks_of st (rn_id r))" "tk_id k = task_id (rn_id r) (pa_id a)"
        "tk_runId k = rn_id r" "tk_actionId k = pa_actionId a"
      using task_for_action[OF p(3)] by blast
    have "k \<in> set (ss_tasks st)" "tk_status k = Task_READY" using k(1) ready by (simp_all add: tasks_of_mine)
    then show "\<exists>k \<in> set (ss_tasks st). tk_id k = task_id (rn_id r) (pa_id a) \<and>
       tk_runId k = rn_id r \<and> tk_actionId k = pa_actionId a \<and> tk_status k = Task_READY \<and>
       (\<exists>rc \<in> set (ss_receipts st). rc_taskId rc = tk_id k \<and> rc_runId rc = rn_id r)"
      using k receipt by metis
  qed
qed

subsection \<open>Completion\<close>

lemma latest_of:
  assumes "setup_ok owner st" and "p \<in> set (ss_plans st)" and "map_option pl_id (latest_plan st) = Some (pl_id p)"
  shows "latest_plan st = Some p"
proof -
  obtain q where q: "latest_plan st = Some q" "pl_id q = pl_id p" using assms(3) by auto
  have "q \<in> set (ss_plans st)" using q(1) by (auto simp: latest_plan_def split: if_splits)
  moreover have "inj_on pl_id (set (ss_plans st))"
    using setup_ok_parts(1)[OF assms(1)] by (simp add: graph_ok_def distinct_map)
  ultimately have "q = p" using assms(2) q(2) by (simp add: inj_on_def)
  then show ?thesis using q(1) by simp
qed

text \<open>
  C14. Setup is only recorded as complete against valid proof. When the store completes setup, the
  plan the caller named is the latest one and was made from the draft as it is; each of its actions
  has a ready task of the named run with a receipt that has not expired at the given instant and whose
  fingerprint is the one the subject has now; settings and memory have been applied; and the recorded
  completion names that run and plan.
\<close>

theorem completion_verified:
  assumes "env_ok env" and "valid_id owner" and "setup_reachable env owner w" and "stored_now w = Some st"
    and "completeSetupExecution env setup (Some st) input = Inr (os, nxt)"
  shows "\<exists>plan now settings memory c. latest_plan st = Some plan \<and> plan_current st plan \<and>
    pl_digest plan = ci_planDigest input \<and> pl_draftRevision plan = ci_draftRevision input \<and>
    ci_completedAt input = Some now \<and>
    (\<forall>a \<in> set (pl_actions plan). \<exists>k \<in> set (ss_tasks st). \<exists>rc \<in> set (ss_receipts st).
       tk_id k = task_id (ci_runId input) (pa_id a) \<and> tk_status k = Task_READY \<and> rc_taskId rc = tk_id k \<and>
       now < rc_expiresAt rc \<and> map_of (ci_fingerprints input) (pa_featureId a) = Some (rc_fingerprint rc)) \<and>
    ss_appliedSettings st = Some settings \<and> ss_memoryHandoff st = Some memory \<and>
    nxt = st\<lparr>ss_revision := Suc (ss_revision st), ss_completion := Some c\<rparr> \<and>
    co_runId c = ci_runId input \<and> co_planDigest c = pl_digest plan"
proof -
  have ok: "setup_ok owner st"
    using assms(4) by (intro stored_ok[OF assms(1-3)]) (auto simp: stored_now_def split: list.splits)
  obtain room c where c: "createSetupCompletion env st input room = Inr c"
    and nxt: "nxt = st\<lparr>ss_revision := Suc (ss_revision st), ss_completion := Some c\<rparr>"
    using completeSetupExecution_Inr[OF assms(5)] by blast
  obtain draft run where dr: "ss_draft st = Some draft" "find_run st (ci_runId input) = Some run"
    using c by (auto simp: createSetupCompletion_def split: if_splits option.splits)
  obtain plan where plan: "find_plan st (rn_planId run) = Some plan"
    using c dr by (auto simp: createSetupCompletion_def split: if_splits option.splits)
  obtain settings memory now where sm: "ss_appliedSettings st = Some settings" "ss_memoryHandoff st = Some memory"
      "ci_completedAt input = Some now"
    using c dr plan by (auto simp: createSetupCompletion_def split: if_splits option.splits)
  note R = found_run[OF ok dr(2)] and Q = find_plan_Some[OF plan]
  have facts: "map_option pl_id (latest_plan st) = Some (pl_id plan)" "dr_id draft = pl_draftId plan"
      "dr_revision draft = ci_draftRevision input" "pl_draftRevision plan = ci_draftRevision input"
      "pl_digest plan = ci_planDigest input"
      "list_all (\<lambda>k. receipt_proves (ci_fingerprints input) now k (task_receipt st k)) (tasks_of st (rn_id run))"
      "co_runId c = rn_id run" "co_planDigest c = pl_digest plan"
    using c dr plan sm by (auto simp: createSetupCompletion_def Let_def split: if_splits)
  obtain p where p: "p \<in> set (ss_plans st)" "pl_id p = rn_planId run"
      "map task_shape (tasks_of st (rn_id run)) = map (action_shape (rn_id run)) (pl_actions p)"
    by (rule run_has_plan[OF ok R(1)])
  have "p = plan" using p(1,2) Q setup_ok_parts(1)[OF ok] by (auto simp: graph_ok_def distinct_map inj_on_def)
  note shape = p(3)[unfolded this]
  have acts: "\<exists>k \<in> set (ss_tasks st). \<exists>rc \<in> set (ss_receipts st).
       tk_id k = task_id (ci_runId input) (pa_id a) \<and> tk_status k = Task_READY \<and> rc_taskId rc = tk_id k \<and>
       now < rc_expiresAt rc \<and> map_of (ci_fingerprints input) (pa_featureId a) = Some (rc_fingerprint rc)"
    if a: "a \<in> set (pl_actions plan)" for a
  proof -
    obtain k where k: "k \<in> set (tasks_of st (rn_id run))" "tk_id k = task_id (rn_id run) (pa_id a)"
        "tk_featureId k = pa_featureId a"
      using task_for_action[OF shape a] by blast
    have "receipt_proves (ci_fingerprints input) now k (task_receipt st k)" using facts(6) k(1) by (simp add: list_all_iff)
    then obtain rc where rc: "task_receipt st k = Some rc" "tk_status k = Task_READY" "now < rc_expiresAt rc"
        "map_of (ci_fingerprints input) (tk_featureId k) = Some (rc_fingerprint rc)"
      by (auto simp: receipt_proves_def split: option.splits)
    have "rc \<in> set (ss_receipts st) \<and> rc_taskId rc = tk_id k"
      using rc(1) unfolding task_receipt_def by (drule_tac find_SomeD) simp
    then show ?thesis using k rc R(2) by (intro bexI[of _ k] bexI[of _ rc]) (simp_all add: tasks_of_mine)
  qed
  have latest: "latest_plan st = Some plan" using latest_of[OF ok _ facts(1)] Q by blast
  have current: "plan_current st plan" using dr(1) facts(1-4) by (simp add: plan_current_def)
  show ?thesis
    by (rule exI[of _ plan], rule exI[of _ now], rule exI[of _ settings], rule exI[of _ memory], rule exI[of _ c])
       (use latest current facts acts sm nxt R(2) in simp)
qed

subsection \<open>Work\<close>

text \<open>
  Setup work is bounded and owned. In every stored document a run has at most one task that
  installs and two that check; a task has a lease, with its owner and expiry, exactly while it is
  worked on; and a run that is ready or cancelled has no task in work.
\<close>

theorem work_bounded:
  assumes "env_ok env" and "valid_id owner" and "setup_reachable env owner w" and "st \<in> set (sw_history w)"
    and "r \<in> set (ss_runs st)"
  shows "length (filter (\<lambda>k. tk_runId k = rn_id r \<and> tk_status k = Task_INSTALLING) (ss_tasks st)) \<le> 1 \<and>
    length (filter (\<lambda>k. tk_runId k = rn_id r \<and> tk_status k = Task_CHECKING) (ss_tasks st)) \<le> 2 \<and>
    (\<forall>k \<in> set (ss_tasks st). (tk_leaseOwner k \<noteq> None \<longleftrightarrow> working (tk_status k)) \<and>
       (tk_leaseExpiresAt k \<noteq> None \<longleftrightarrow> working (tk_status k)) \<and>
       (tk_runId k = rn_id r \<and> (rn_status r = Run_READY \<or> rn_status r = Run_CANCELLED) \<longrightarrow>
          \<not> working (tk_status k)))"
proof -
  have ok: "setup_ok owner st" by (rule stored_ok[OF assms(1-4)])
  have p: "phase_ok (rn_status r) (tasks_of st (rn_id r))"
    using setup_ok_parts(4)[OF ok] assms(5) by (simp add: phases_ok_def)
  have "filter (\<lambda>k. tk_status k = s) (tasks_of st (rn_id r)) =
      filter (\<lambda>k. tk_runId k = rn_id r \<and> tk_status k = s) (ss_tasks st)" for s
    by (simp add: tasks_of_def)
  then have counts: "length (filter (\<lambda>k. tk_runId k = rn_id r \<and> tk_status k = Task_INSTALLING) (ss_tasks st)) \<le> 1"
      "length (filter (\<lambda>k. tk_runId k = rn_id r \<and> tk_status k = Task_CHECKING) (ss_tasks st)) \<le> 2"
    using p by (simp_all add: phase_ok_def occurs_def)
  have idle: "\<not> working (tk_status k)"
    if k: "k \<in> set (ss_tasks st)" "tk_runId k = rn_id r" and s: "rn_status r = Run_READY \<or> rn_status r = Run_CANCELLED" for k
  proof -
    have "k \<in> set (tasks_of st (rn_id r))" using k by (simp add: tasks_of_mine)
    then have "tk_status k = Task_READY \<or> tk_status k = Task_CANCELLED" using p s unfolding phase_ok_def by blast
    then show ?thesis by (auto simp: working_def)
  qed
  have owned: "(tk_leaseOwner k \<noteq> None \<longleftrightarrow> working (tk_status k)) \<and> (tk_leaseExpiresAt k \<noteq> None \<longleftrightarrow> working (tk_status k))"
    if "k \<in> set (ss_tasks st)" for k
    using task_of_ok[OF ok that] by (simp add: task_ok_def)
  show ?thesis using counts idle owned by blast
qed

text \<open>The first action whose task is not ready depends on actions whose tasks are.\<close>

lemma first_unready:
  assumes "ordered_actions seen as" and "map task_shape ks = map (action_shape i) as" and "set ks \<subseteq> set all_ks"
    and "\<forall>s \<in> seen. \<exists>r \<in> set all_ks. tk_status r = Task_READY \<and> tk_id r = task_id i s"
    and "\<exists>k \<in> set ks. tk_status k \<noteq> Task_READY"
  shows "\<exists>k \<in> set ks. tk_status k \<noteq> Task_READY \<and>
    (\<forall>d \<in> set (tk_dependsOn k). \<exists>r \<in> set all_ks. tk_status r = Task_READY \<and> tk_id r = d)"
  using assms
proof (induction as arbitrary: seen ks)
  case (Cons a as)
  then obtain k ks' where ks: "ks = k # ks'" by (cases ks) auto
  have rest: "map task_shape ks' = map (action_shape i) as" and head: "task_shape k = action_shape i a"
    using Cons.prems(2) ks by simp_all
  have k: "tk_id k = task_id i (pa_id a)" "tk_dependsOn k = map (task_id i) (pa_dependsOn a)"
    using head by (simp_all add: task_shape_def action_shape_def)
  show ?case
  proof (cases "tk_status k = Task_READY")
    case False
    have "\<forall>d \<in> set (tk_dependsOn k). \<exists>r \<in> set all_ks. tk_status r = Task_READY \<and> tk_id r = d"
      unfolding k(2) using Cons.prems(1,4) by fastforce
    then show ?thesis using False ks by auto
  next
    case True
    have "\<exists>k \<in> set ks'. tk_status k \<noteq> Task_READY \<and>
        (\<forall>d \<in> set (tk_dependsOn k). \<exists>r \<in> set all_ks. tk_status r = Task_READY \<and> tk_id r = d)"
    proof (rule Cons.IH[OF _ rest])
      show "ordered_actions (insert (pa_id a) seen) as" using Cons.prems(1) by simp
      show "set ks' \<subseteq> set all_ks" using Cons.prems(3) ks by simp
      show "\<forall>s \<in> insert (pa_id a) seen. \<exists>r \<in> set all_ks. tk_status r = Task_READY \<and> tk_id r = task_id i s"
        using Cons.prems(3,4) True k(1) ks by auto
      show "\<exists>k \<in> set ks'. tk_status k \<noteq> Task_READY" using Cons.prems(5) True ks by auto
    qed
    then show ?thesis using ks by auto
  qed
qed simp

text \<open>
  C15. A run that has not failed always has work to give. When a worker asks a running run without a
  task that needs attention for its next task, then a task is in work whose lease has not expired, or
  the worker is given one, or an expired lease was found and the run is stopped for inspection. So a
  run cannot end up running with nothing in work and nothing to hand out.
\<close>

theorem setup_progress:
  assumes "env_ok env" and "valid_id owner" and "setup_reachable env owner w" and "st \<in> set (sw_history w)"
    and "find_run st i = Some r" and "rn_status r = Run_RUNNING"
    and "\<forall>k \<in> set (tasks_of st i). tk_status k \<noteq> Task_NEEDS_ATTENTION" and "1000 \<le> ms" and "ms \<le> 120000"
  shows "(\<exists>k \<in> set (tasks_of st i). working (tk_status k) \<and> \<not> lease_expired now k) \<or>
    (\<exists>k st'. leaseNextTask i worker ms now st = Inr (Some k, Some st') \<and> tk_leaseOwner k = Some worker) \<or>
    (\<exists>st'. leaseNextTask i worker ms now st = Inr (None, Some st') \<and> (\<exists>k \<in> set (tasks_of st i). lease_expired now k))"
proof (cases "filter (lease_expired now) (tasks_of st i) = [] \<and> (\<forall>k \<in> set (tasks_of st i). \<not> working (tk_status k))")
  case False
  then show ?thesis
    using assms(5,6,8,9) by (cases "filter (lease_expired now) (tasks_of st i) = []")
      (auto simp: leaseNextTask_def Let_def filter_empty_conv)
next
  case True
  have ok: "setup_ok owner st" by (rule stored_ok[OF assms(1-4)])
  note R = found_run[OF ok assms(5)]
  obtain p ids where "p \<in> set (ss_plans st)" "pl_id p = rn_planId r" and p: "pl_actions p = buildActions ids"
      "map task_shape (tasks_of st i) = map (action_shape i) (pl_actions p)"
    by (rule run_has_plan[OF ok R(1), unfolded R(2)])
  have some: "\<exists>k \<in> set (tasks_of st i). tk_status k \<noteq> Task_READY" using R(4) assms(6) by (simp add: phase_ok_def)
  obtain k where k: "k \<in> set (tasks_of st i)" "tk_status k \<noteq> Task_READY"
      "\<forall>d \<in> set (tk_dependsOn k). \<exists>r \<in> set (tasks_of st i). tk_status r = Task_READY \<and> tk_id r = d"
    using first_unready[OF buildActions_ordered p(2)[unfolded p(1)] subset_refl _ some] by blast
  have "task_ok k" "tk_status k \<noteq> Task_CANCELLED" "\<not> working (tk_status k)" "tk_status k \<noteq> Task_NEEDS_ATTENTION"
    using task_of_ok[OF ok] k(1) R(4) assms(6,7) True by (auto simp: tasks_of_mine phase_ok_def)
  then have "tk_status k = Task_QUEUED" using k(2) by (cases "tk_status k") (auto simp: task_ok_def working_def)
  moreover have "filter (\<lambda>c. tk_status c = Task_INSTALLING) (tasks_of st i) = []"
      "filter (\<lambda>c. tk_status c = Task_CHECKING) (tasks_of st i) = []"
    using True by (auto simp: working_def filter_empty_conv)
  ultimately have "leasable (tasks_of st i) k" using k(3) by (simp add: leasable_def)
  then obtain k' where k': "List.find (leasable (tasks_of st i)) (tasks_of st i) = Some k'"
    using k(1) by (cases "List.find (leasable (tasks_of st i)) (tasks_of st i)") (auto simp: find_None_iff)
  then have "\<exists>st'. leaseNextTask i worker ms now st = Inr (Some (lease worker (now + ms) k'), Some st')"
    using True assms(5,6,8,9) by (simp add: leaseNextTask_def Let_def)
  moreover have "tk_leaseOwner (lease worker (now + ms) k') = Some worker" by (simp add: lease_def)
  ultimately show ?thesis by blast
qed

subsection \<open>Retrying\<close>

text \<open>What a retry must do again: the named tasks and, transitively, the tasks that depend on one.\<close>

inductive must_reset :: "setup_task list \<Rightarrow> string list \<Rightarrow> string \<Rightarrow> bool" for tasks named where
  named: "t \<in> set named \<Longrightarrow> must_reset tasks named t"
| depends: "must_reset tasks named d \<Longrightarrow> k \<in> set tasks \<Longrightarrow> d \<in> set (tk_dependsOn k) \<Longrightarrow>
    must_reset tasks named (tk_id k)"

lemma reset_pass_must:
  assumes "\<forall>t \<in> set reset. must_reset tasks named t"
  shows "\<forall>t \<in> set (reset_pass tasks reset). must_reset tasks named t"
proof -
  have pass: "\<forall>t \<in> set (fold (\<lambda>k reset. if tk_id k \<notin> set reset \<and> (\<exists>d \<in> set (tk_dependsOn k). d \<in> set reset)
                     then reset @ [tk_id k] else reset) ks reset). must_reset tasks named t"
    if "set ks \<subseteq> set tasks" "\<forall>t \<in> set reset. must_reset tasks named t" for ks reset
    using that
  proof (induction ks arbitrary: reset)
    case (Cons k ks)
    have "\<forall>t \<in> set (if tk_id k \<notin> set reset \<and> (\<exists>d \<in> set (tk_dependsOn k). d \<in> set reset)
        then reset @ [tk_id k] else reset). must_reset tasks named t"
      using Cons.prems by (auto intro: must_reset.depends)
    then show ?case using Cons by simp
  qed simp
  show ?thesis unfolding reset_pass_def by (rule pass[OF subset_refl assms])
qed

lemma reset_pass_closed:
  "length (reset_pass tasks reset) = length reset \<Longrightarrow> k \<in> set tasks \<Longrightarrow> d \<in> set (tk_dependsOn k) \<Longrightarrow>
   d \<in> set reset \<Longrightarrow> tk_id k \<in> set reset"
proof (induction tasks arbitrary: reset)
  case (Cons k0 tasks)
  have pass: "reset_pass (k0 # tasks) reset =
      reset_pass tasks (if tk_id k0 \<notin> set reset \<and> (\<exists>d \<in> set (tk_dependsOn k0). d \<in> set reset)
        then reset @ [tk_id k0] else reset)"
    by (simp add: reset_pass_def)
  obtain more where more: "reset_pass (k0 # tasks) reset = reset @ more" using reset_pass_grows by blast
  have grown: "\<exists>more. reset_pass tasks (reset @ [tk_id k0]) = (reset @ [tk_id k0]) @ more"
    using reset_pass_grows by blast
  have settled: "\<not> (tk_id k0 \<notin> set reset \<and> (\<exists>d \<in> set (tk_dependsOn k0). d \<in> set reset))"
    using Cons.prems(1) grown pass by (auto split: if_splits)
  then have "length (reset_pass tasks reset) = length reset" using Cons.prems(1) pass by (simp only: if_False)
  then show ?case using Cons settled by auto
qed simp

lemma close_reset_must:
  "\<forall>t \<in> set reset. must_reset tasks named t \<Longrightarrow> \<forall>t \<in> set (close_reset tasks reset). must_reset tasks named t"
proof (induction tasks reset rule: close_reset.induct)
  case (1 tasks reset)
  show ?case
  proof (cases "length (reset_pass tasks reset) = length reset")
    case True
    then show ?thesis using 1(2) by (subst close_reset.simps) (simp add: Let_def)
  next
    case False
    then show ?thesis using 1(1)[OF refl False reset_pass_must[OF 1(2)]] by (subst close_reset.simps) (simp add: Let_def)
  qed
qed

lemma close_reset_closed:
  "k \<in> set tasks \<Longrightarrow> d \<in> set (tk_dependsOn k) \<Longrightarrow> d \<in> set (close_reset tasks reset) \<Longrightarrow>
   tk_id k \<in> set (close_reset tasks reset)"
proof (induction tasks reset rule: close_reset.induct)
  case (1 tasks reset)
  show ?case
  proof (cases "length (reset_pass tasks reset) = length reset")
    case True
    then have "close_reset tasks reset = reset" by (subst close_reset.simps) (simp add: Let_def)
    then show ?thesis using reset_pass_closed[OF True 1(2,3)] 1(4) by simp
  next
    case False
    then have "close_reset tasks reset = close_reset tasks (reset_pass tasks reset)"
      by (subst close_reset.simps) (simp add: Let_def)
    then show ?thesis using 1(1)[OF refl False 1(2,3)] 1(4) by simp
  qed
qed

lemma close_reset_exact: "t \<in> set (close_reset tasks named) \<longleftrightarrow> must_reset tasks named t"
proof
  show "t \<in> set (close_reset tasks named) \<Longrightarrow> must_reset tasks named t"
    using close_reset_must[of named tasks named] by (simp add: must_reset.named)
  show "must_reset tasks named t \<Longrightarrow> t \<in> set (close_reset tasks named)"
  proof (induction rule: must_reset.induct)
    case (named t)
    then show ?case using close_reset_extends by blast
  next
    case (depends d k)
    then show ?case using close_reset_closed by blast
  qed
qed

text \<open>
  C22. A retry does again exactly what it has to. When \<open>retryFailedTasks\<close> is accepted, the named
  tasks of the run and, transitively, every task that depends on one of them are queued again with no
  lease, error or result, the receipts of exactly these tasks are withdrawn, and every other task of
  the document is as it was.
\<close>

theorem retry_exact:
  assumes "env_ok env" and "valid_id owner" and "setup_reachable env owner w" and "st \<in> set (sw_history w)"
    and "retryFailedTasks i named n now st = Inr ((), Some st')"
  shows "ss_tasks st' = map (\<lambda>k. if tk_runId k = i \<and> must_reset (tasks_of st i) named (tk_id k)
      then k\<lparr>tk_status := Task_QUEUED, tk_errorCode := None, tk_resultRef := None, tk_leaseOwner := None,
             tk_leaseExpiresAt := None\<rparr> else k) (ss_tasks st) \<and>
    ss_receipts st' = filter (\<lambda>r. \<not> must_reset (tasks_of st i) named (rc_taskId r)) (ss_receipts st)"
proof -
  have ok: "setup_ok owner st" by (rule stored_ok[OF assms(1-4)])
  obtain run where run: "find_run st i = Some run"
    and st': "st' = update_run i (restart now) (fold (logged_update (\<lambda>k. (requeue k)\<lparr>tk_resultRef := None\<rparr>) now i)
       (filter (\<lambda>k. tk_id k \<in> set (close_reset (tasks_of st i) named)) (tasks_of st i))
       (st\<lparr>ss_receipts := filter (\<lambda>r. rc_taskId r \<notin> set (close_reset (tasks_of st i) named)) (ss_receipts st)\<rparr>))"
    using assms(5) by (auto simp: retryFailedTasks_def Let_def logged_updates split: if_splits option.splits)
  note R = found_run[OF ok run]
  let ?ks = "filter (\<lambda>k. tk_id k \<in> set (close_reset (tasks_of st i) named)) (tasks_of st i)"
  have "ss_tasks st' = retask (tk_id ` set ?ks) (\<lambda>k. (requeue k)\<lparr>tk_resultRef := None\<rparr>) (ss_tasks st)"
    unfolding st' by (simp add: effects fold_logged_tasks[OF subset_distinct[OF R(5)]] requeue_def release_lease_def)
  moreover have "tk_id k \<in> tk_id ` set ?ks \<longleftrightarrow> tk_runId k = i \<and> must_reset (tasks_of st i) named (tk_id k)"
    if k: "k \<in> set (ss_tasks st)" for k
  proof
    assume "tk_id k \<in> tk_id ` set ?ks"
    then obtain k' where k': "k' \<in> set (tasks_of st i)" "tk_id k' \<in> set (close_reset (tasks_of st i) named)" "tk_id k' = tk_id k"
      by auto
    then have "k' = k" using one_task[OF ok _ k] by (simp add: tasks_of_mine)
    then show "tk_runId k = i \<and> must_reset (tasks_of st i) named (tk_id k)"
      using k' close_reset_exact by (simp add: tasks_of_mine)
  next
    assume "tk_runId k = i \<and> must_reset (tasks_of st i) named (tk_id k)"
    then show "tk_id k \<in> tk_id ` set ?ks" using k close_reset_exact by (auto simp: tasks_of_mine)
  qed
  ultimately show ?thesis
    by (auto simp: retask_def st' effects close_reset_exact requeue_def release_lease_def)
qed

subsection \<open>Events\<close>

lemma filter_upt_from: "filter (\<lambda>m. c \<le> m) [a..<b] = [max a c..<b]"
  by (induction b) (auto simp: max_def not_le less_Suc_eq_le)

lemma take_upt_min: "take m [c..<b] = [c..<c + min m (b - c)]"
  by (cases "c \<le> b"; cases "c + m \<le> b") (simp_all add: min_def del: upt_Suc)

text \<open>
  C33. A reader of setup events misses none. Reading on from a cursor, \<open>listRunEvents\<close> returns events of
  the run numbered consecutively from the cursor on, each as it was logged; a page shorter than the
  limit reaches the run's newest event; and the only refusal is of a cursor whose next event has left
  the log. That a short page reaches the newest event is about a run that still has an event in the
  log: of a run whose events have all left it, every cursor reads an empty page.
\<close>

theorem events_complete:
  assumes "env_ok env" and "valid_id owner" and "setup_reachable env owner w" and "st \<in> set (sw_history w)"
    and "find_run st i = Some r" and "0 \<le> cursor" and "1 \<le> limit" and "limit \<le> 100"
  shows "case listRunEvents i cursor limit st of
      Inl e \<Rightarrow> e = SETUP_EVENT_CURSOR_EXPIRED \<and>
        (\<forall>e \<in> set (ss_events st). ev_runId e = i \<longrightarrow> int (ev_sequence e) \<noteq> cursor + 1)
    | Inr es \<Rightarrow> map (\<lambda>e. int (ev_sequence e)) es = map (\<lambda>n. cursor + 1 + int n) [0..<length es] \<and>
        set es \<subseteq> set (ss_events st) \<and> (\<forall>e \<in> set es. ev_runId e = i) \<and>
        (int (length es) < limit \<and> events_of st i \<noteq> [] \<and> cursor \<le> int (rn_eventSequence r) \<longrightarrow>
           cursor + int (length es) = int (rn_eventSequence r))"
proof (cases "events_of st i = []")
  case True
  then have "listRunEvents i cursor limit st = Inr []" using assms(5-8) by (simp add: listRunEvents_def events_of_def)
  then show ?thesis using True by simp
next
  case some: False
  have ok: "setup_ok owner st" by (rule stored_ok[OF assms(1-4)])
  define es where "es = events_of st i"
  let ?n = "rn_eventSequence r"
  let ?a = "Suc ?n - length es"
  have "numbered_upto ?n es"
    using setup_ok_parts(5)[OF ok] found_run(1,2)[OF ok assms(5)] by (auto simp: log_ok_def es_def)
  then have seq: "map ev_sequence es = [?a..<Suc ?n]" and len: "length es \<le> ?n" by (simp_all add: numbered_upto_def)
  have ne: "es \<noteq> []" using some by (simp add: es_def)
  then have "?a < Suc ?n" by (cases es) simp_all
  then have hd: "ev_sequence (hd es) = ?a" using arg_cong[OF seq, of hd] ne by (simp add: hd_map hd_upt del: upt_Suc)
  let ?page = "take (nat limit) (filter (\<lambda>e. cursor < int (ev_sequence e)) es)"
  have "listRunEvents i cursor limit st =
      (if es \<noteq> [] \<and> cursor < int (ev_sequence (hd es)) - 1 then Inl SETUP_EVENT_CURSOR_EXPIRED else Inr ?page)"
    using assms(5-8) by (simp add: listRunEvents_def es_def events_of_def Let_def del: filter_filter)
  then have read: "listRunEvents i cursor limit st =
      (if cursor < int ?a - 1 then Inl SETUP_EVENT_CURSOR_EXPIRED else Inr ?page)"
    unfolding hd using ne by simp
  define c where "c = nat (cursor + 1)"
  have c: "int c = cursor + 1" using assms(6) by (simp add: c_def)
  show ?thesis
  proof (cases "cursor < int ?a - 1")
    case True
    have "int (ev_sequence e) \<noteq> cursor + 1" if e: "e \<in> set (ss_events st)" "ev_runId e = i" for e
    proof -
      have "e \<in> set es" using e by (simp add: es_def events_of_def)
      then have "ev_sequence e \<in> set [?a..<Suc ?n]" unfolding seq[symmetric] by simp
      then have "?a \<le> ev_sequence e" by (simp add: del: upt_Suc)
      then have "int ?a \<le> int (ev_sequence e)" by (rule zle_int[THEN iffD2])
      then show ?thesis using True by linarith
    qed
    then show ?thesis unfolding read if_P[OF True] by simp
  next
    case False
    have "map ev_sequence (filter (\<lambda>e. cursor < int (ev_sequence e)) es) = filter (\<lambda>m. c \<le> m) (map ev_sequence es)"
      unfolding filter_map comp_def using c by (intro arg_cong[where f = "map ev_sequence"] filter_cong) auto
    also have "\<dots> = [c..<Suc ?n]" unfolding seq filter_upt_from using False c by (intro arg_cong2[where f = upt]) auto
    finally have "map ev_sequence ?page = take (nat limit) [c..<Suc ?n]" by (simp only: take_map[symmetric])
    then have page: "map ev_sequence ?page = [c..<c + min (nat limit) (Suc ?n - c)]" by (simp only: take_upt_min)
    have len: "length ?page = min (nat limit) (Suc ?n - c)" using arg_cong[OF page, of length] by (simp del: upt_Suc)
    have nums: "map ev_sequence ?page = [c..<c + length ?page]" unfolding len by (rule page)
    have "map (\<lambda>e. int (ev_sequence e)) ?page = map int [c..<c + length ?page]"
      unfolding nums[symmetric] by simp
    also have "\<dots> = map (\<lambda>n. cursor + 1 + int n) [0..<length ?page]"
      using c by (simp add: map_add_upt[symmetric] list_eq_iff_nth_eq)
    finally have "map (\<lambda>e. int (ev_sequence e)) ?page = map (\<lambda>n. cursor + 1 + int n) [0..<length ?page]" .
    moreover have "set ?page \<subseteq> set (ss_events st) \<and> (\<forall>e \<in> set ?page. ev_runId e = i)"
      by (auto simp: es_def events_of_def dest!: in_set_takeD)
    moreover have "cursor + int (length ?page) = int ?n"
      if "int (length ?page) < limit" "cursor \<le> int ?n"
      using that c len assms(7) by (auto simp: min_def split: if_splits)
    ultimately show ?thesis unfolding read if_not_P[OF False] sum.case by blast
  qed
qed

subsection \<open>An example, run through\<close>

definition new_world :: setup_world where
  "new_world = \<lparr>sw_history = [], sw_uuids = {}\<rparr>"

definition setup_demo_hash :: string where
  "setup_demo_hash = replicate 64 CHR ''a''"

definition setup_demo_env :: setup_env where
  "setup_demo_env = \<lparr>se_hash_plan = (\<lambda>_. setup_demo_hash), se_hash_action = (\<lambda>_. setup_demo_hash),
     se_hash_receipts = (\<lambda>_. setup_demo_hash), se_collation = (\<lambda>s. s)\<rparr>"

definition setup_demo_uuid :: "char \<Rightarrow> string" where
  "setup_demo_uuid c = replicate 36 c"

definition setup_demo_owner :: string where
  "setup_demo_owner = ''user-owner''"

definition demo_choices :: draft_choices where
  "demo_choices = \<lparr>dc_persona = Everyday, dc_level = Minimal, dc_requested = [''dock:clipboard''], dc_choices = []\<rparr>"

definition setup_demo_run :: string where
  "setup_demo_run = ''run:'' @ setup_demo_uuid CHR ''c''"

definition demo_check_task :: string where
  "demo_check_task = task_id setup_demo_run ''action:dock:clipboard:CHECK_SERVICE''"

definition demo_task :: "string \<Rightarrow> char \<Rightarrow> char \<Rightarrow> (int \<times> string \<times> setup_request) list" where
  "demo_task action lease_id done_id =
     [(7, setup_demo_uuid lease_id, LeaseNextTask setup_demo_run ''worker-1'' 60000),
      (8, setup_demo_uuid done_id, CompleteTask setup_demo_run (task_id setup_demo_run action) ''worker-1''
         \<lparr>ri_checkVersion = ''check:v1'', ri_fingerprint = setup_demo_hash, ri_evidenceRef = ''evidence:1''\<rparr>)]"

definition demo_other_run :: string where
  "demo_other_run = ''run:'' @ setup_demo_uuid CHR ''o''"

text \<open>A draft with one feature, its plan and a run; its first task fails, another run is started, the
  failed task is retried; then the four tasks of the first run are leased and completed in turn.\<close>

definition demo_calls :: "(int \<times> string \<times> setup_request) list" where
  "demo_calls =
     [(1, setup_demo_uuid CHR ''a'', UpdateDraft None demo_choices),
      (2, setup_demo_uuid CHR ''b'', CreatePlan 0 (\<lambda>_. Some AVAILABLE) []),
      (3, setup_demo_uuid CHR ''c'', StartRun (''plan:'' @ setup_demo_uuid CHR ''b'') setup_demo_hash ''start-1''),
      (4, setup_demo_uuid CHR ''l'', LeaseNextTask setup_demo_run ''worker-1'' 60000),
      (5, setup_demo_uuid CHR ''m'', FailTask setup_demo_run demo_check_task ''worker-1'' ''NO_SERVICE''),
      (6, setup_demo_uuid CHR ''o'', StartRun (''plan:'' @ setup_demo_uuid CHR ''b'') setup_demo_hash ''start-2''),
      (6, setup_demo_uuid CHR ''n'', RetryFailedTasks setup_demo_run [demo_check_task] 3)] @
     demo_task ''action:dock:clipboard:CHECK_SERVICE'' CHR ''d'' CHR ''e'' @
     demo_task ''action:dock:settings:APPLY_SETTINGS'' CHR ''f'' CHR ''g'' @
     demo_task ''action:dock:rooms:ENSURE_STARTER_ROOM'' CHR ''h'' CHR ''i'' @
     demo_task ''action:agent:opencode:WRITE_INSTALLATION_MEMORY'' CHR ''j'' CHR ''k''"

definition setup_demo_input :: completion_input where
  "setup_demo_input = \<lparr>ci_reconfigure = False, ci_ownerId = setup_demo_owner, ci_expectedStateRevision = 14,
     ci_runId = setup_demo_run, ci_draftRevision = 0, ci_planDigest = setup_demo_hash,
     ci_fingerprints = map (\<lambda>i. (i, setup_demo_hash)) [''dock:clipboard'', ''dock:settings'', ''dock:rooms'', ''agent:opencode''],
     ci_completedAt = Some 100\<rparr>"

definition demo_setup :: owner_setup where
  "demo_setup = \<lparr>os_ownerUserId = Some setup_demo_owner, os_starterRoomId = Some ''room-starter'',
     os_onboardingVersion = 1, os_onboardingCompletedAt = None\<rparr>"

definition demo_ready :: "setup_state \<Rightarrow> bool" where
  "demo_ready st = (case find_run st setup_demo_run of None \<Rightarrow> False | Some r \<Rightarrow> rn_status r = Run_READY)"

definition demo_completes :: "setup_state \<Rightarrow> bool" where
  "demo_completes st = (case completeSetupExecution setup_demo_env (Some demo_setup) (Some st) setup_demo_input of
     Inl _ \<Rightarrow> False | Inr _ \<Rightarrow> True)"

definition demo_running :: "setup_state \<Rightarrow> bool" where
  "demo_running st = (case find_run st setup_demo_run of None \<Rightarrow> False
     | Some r \<Rightarrow> rn_status r = Run_RUNNING \<and>
         list_all (\<lambda>k. tk_status k \<noteq> Task_NEEDS_ATTENTION) (tasks_of st setup_demo_run))"

definition demo_retries :: "setup_state \<Rightarrow> bool" where
  "demo_retries st = (case retryFailedTasks setup_demo_run [demo_check_task] 3 6 st of
     Inr (_, Some _) \<Rightarrow> True | _ \<Rightarrow> False)"

definition demo_two_active :: "setup_state \<Rightarrow> bool" where
  "demo_two_active st = (case (find_run st setup_demo_run, find_run st demo_other_run) of
     (Some a, Some b) \<Rightarrow> rn_status a = Run_RUNNING \<and> rn_status b = Run_RUNNING | _ \<Rightarrow> False)"

definition demo_facts :: "setup_world \<Rightarrow> bool" where
  "demo_facts w \<longleftrightarrow>
     (case stored_now w of None \<Rightarrow> False | Some st \<Rightarrow> demo_ready st \<and> demo_completes st) \<and>
     list_ex demo_running (sw_history w) \<and> list_ex demo_retries (sw_history w) \<and>
     list_ex demo_two_active (sw_history w)"

lemma demo_evaluated:
  "case perform_all setup_demo_env setup_demo_owner demo_calls new_world of None \<Rightarrow> False | Some w \<Rightarrow> demo_facts w"
  by code_simp

lemma demo_env_ok: "env_ok setup_demo_env"
proof -
  have "valid_hash setup_demo_hash" by code_simp
  then show ?thesis by (simp add: env_ok_def setup_demo_env_def)
qed

lemma demo_owner_valid: "valid_id setup_demo_owner"
  by code_simp

lemma new_world_reachable: "setup_reachable env owner new_world"
  unfolding new_world_def by (rule setup_reachable.first)

lemma setup_demo_world:
  obtains w st where "setup_reachable setup_demo_env setup_demo_owner w" and "stored_now w = Some st" and "st \<in> set (sw_history w)"
    and "demo_ready st" and "demo_completes st" and "\<exists>st \<in> set (sw_history w). demo_running st"
    and "\<exists>st \<in> set (sw_history w). demo_retries st"
    and "\<exists>st \<in> set (sw_history w). demo_two_active st"
proof -
  obtain w where w: "perform_all setup_demo_env setup_demo_owner demo_calls new_world = Some w" "demo_facts w"
    using demo_evaluated by (cases "perform_all setup_demo_env setup_demo_owner demo_calls new_world") simp_all
  have r: "setup_reachable setup_demo_env setup_demo_owner w"
    by (rule perform_all_reachable[OF w(1) demo_env_ok demo_owner_valid new_world_reachable])
  obtain st where st: "stored_now w = Some st" "demo_ready st" "demo_completes st"
    using w(2) by (auto simp: demo_facts_def split: option.splits)
  have "st \<in> set (sw_history w)" using st(1) by (auto simp: stored_now_def split: list.splits)
  then show ?thesis using that r st w(2) by (simp add: demo_facts_def list_ex_iff)
qed

lemma demo_ready_run:
  assumes "demo_ready st"
  obtains r where "find_run st setup_demo_run = Some r" and "r \<in> set (ss_runs st)" and "rn_status r = Run_READY"
  using assms find_run_Some[of st setup_demo_run] unfolding demo_ready_def by (cases "find_run st setup_demo_run") auto

text \<open>
  Starting a run is refused while another one is active, but a retry is not: a failed run that is
  retried after another run was started is active beside it.
\<close>

lemma two_runs_active:
  "\<exists>w st a b. setup_reachable setup_demo_env setup_demo_owner w \<and> st \<in> set (sw_history w) \<and>
     a \<in> set (ss_runs st) \<and> b \<in> set (ss_runs st) \<and> rn_id a \<noteq> rn_id b \<and>
     rn_status a = Run_RUNNING \<and> rn_status b = Run_RUNNING"
proof -
  obtain w st0 where w: "setup_reachable setup_demo_env setup_demo_owner w" "\<exists>st \<in> set (sw_history w). demo_two_active st"
    by (rule setup_demo_world)
  then obtain st where st: "st \<in> set (sw_history w)" "demo_two_active st" by blast
  obtain a b where ab: "find_run st setup_demo_run = Some a" "find_run st demo_other_run = Some b"
      "rn_status a = Run_RUNNING" "rn_status b = Run_RUNNING"
    using st(2) unfolding demo_two_active_def by (auto split: option.splits)
  have "setup_demo_run \<noteq> demo_other_run" by code_simp
  then have "rn_id a \<noteq> rn_id b" using find_run_Some[OF ab(1)] find_run_Some[OF ab(2)] by simp
  then show ?thesis using w(1) st(1) ab find_run_Some[OF ab(1)] find_run_Some[OF ab(2)] by blast
qed

text \<open>The properties at work on it.\<close>

lemma setup_never_rejected_witness:
  "\<exists>st. apply_request setup_demo_env setup_demo_owner 1 (setup_demo_uuid CHR ''a'') (UpdateDraft None demo_choices)
      (working_copy setup_demo_owner None) = Inr (Some st) \<and> setup_schema (stamp None st)"
proof -
  have "case apply_request setup_demo_env setup_demo_owner 1 (setup_demo_uuid CHR ''a'') (UpdateDraft None demo_choices)
      (working_copy setup_demo_owner None) of Inr (Some st) \<Rightarrow> True | _ \<Rightarrow> False"
    by code_simp
  then obtain st where st: "apply_request setup_demo_env setup_demo_owner 1 (setup_demo_uuid CHR ''a'') (UpdateDraft None demo_choices)
      (working_copy setup_demo_owner None) = Inr (Some st)"
    by (auto split: sum.splits option.splits)
  have u: "valid_uuid (setup_demo_uuid CHR ''a'')" by code_simp
  have "setup_schema (stamp None st)"
    using setup_never_rejected[OF demo_env_ok demo_owner_valid new_world_reachable, of None, OF _ _ u _ st]
    by (simp add: versions_def new_world_def)
  then show ?thesis using st by blast
qed

lemma mutate_atomic_witness:
  "\<exists>nxt st. snd (mutate setup_demo_owner (\<lambda>_. updateDraft setup_demo_owner None demo_choices 1 (setup_demo_uuid CHR ''a''))
      (\<lambda>_. (None, None))) = Some nxt \<and> nxt = stamp None st"
proof -
  let ?m = "mutate setup_demo_owner (\<lambda>_. updateDraft setup_demo_owner None demo_choices 1 (setup_demo_uuid CHR ''a'')) (\<lambda>_. (None, None))"
  have "case snd ?m of Some _ \<Rightarrow> True | None \<Rightarrow> False" by code_simp
  then obtain nxt where nxt: "snd ?m = Some nxt" by (auto split: option.splits)
  then have m: "?m = (fst ?m, Some nxt)" by (metis prod.collapse)
  have "\<exists>k < (8::nat). \<exists>v st. fst ?m = Inr v \<and>
      updateDraft setup_demo_owner None demo_choices 1 (setup_demo_uuid CHR ''a'') (working_copy setup_demo_owner (stored_now new_world)) =
        Inr (v, Some st) \<and> nxt = stamp (stored_now new_world) st"
    by (rule mutate_atomic[where worlds = "\<lambda>_. new_world" and env = setup_demo_env, OF m])
       (simp add: new_world_reachable versions_def, simp add: stored_now_def new_world_def)
  then show ?thesis using nxt by (auto simp: stored_now_def new_world_def)
qed

lemma ready_run_proved_witness:
  "\<exists>w st. setup_reachable setup_demo_env setup_demo_owner w \<and> st \<in> set (sw_history w) \<and> demo_ready st \<and> (\<exists>p \<in> set (ss_plans st). \<forall>a \<in> set (pl_actions p).
     \<exists>k \<in> set (ss_tasks st). tk_id k = task_id setup_demo_run (pa_id a) \<and> tk_status k = Task_READY)"
proof -
  obtain w st where w: "setup_reachable setup_demo_env setup_demo_owner w" "st \<in> set (sw_history w)" "demo_ready st"
    by (rule setup_demo_world)
  obtain r where r: "find_run st setup_demo_run = Some r" "r \<in> set (ss_runs st)" "rn_status r = Run_READY"
    by (rule demo_ready_run[OF w(3)])
  have i: "rn_id r = setup_demo_run" using find_run_Some[OF r(1)] by simp
  show ?thesis using ready_run_proved[OF demo_env_ok demo_owner_valid w(1,2) r(2,3)] w unfolding i by blast
qed

lemma completion_verified_witness:
  "\<exists>w st os nxt. setup_reachable setup_demo_env setup_demo_owner w \<and> stored_now w = Some st \<and>
     completeSetupExecution setup_demo_env (Some demo_setup) (Some st) setup_demo_input = Inr (os, nxt) \<and>
     (\<exists>plan. latest_plan st = Some plan \<and> plan_current st plan)"
proof -
  obtain w st where w: "setup_reachable setup_demo_env setup_demo_owner w" "stored_now w = Some st" "demo_completes st"
    by (rule setup_demo_world)
  obtain os nxt where c: "completeSetupExecution setup_demo_env (Some demo_setup) (Some st) setup_demo_input = Inr (os, nxt)"
    using w(3) unfolding demo_completes_def by (auto split: sum.splits)
  show ?thesis using completion_verified[OF demo_env_ok demo_owner_valid w(1,2) c] w c by blast
qed

lemma work_bounded_witness:
  "\<exists>w st. setup_reachable setup_demo_env setup_demo_owner w \<and> st \<in> set (sw_history w) \<and> demo_ready st \<and>
     length (filter (\<lambda>k. tk_runId k = setup_demo_run \<and> tk_status k = Task_INSTALLING) (ss_tasks st)) \<le> 1"
proof -
  obtain w st where w: "setup_reachable setup_demo_env setup_demo_owner w" "st \<in> set (sw_history w)" "demo_ready st"
    by (rule setup_demo_world)
  obtain r where r: "find_run st setup_demo_run = Some r" "r \<in> set (ss_runs st)" by (rule demo_ready_run[OF w(3)])
  have i: "rn_id r = setup_demo_run" using find_run_Some[OF r(1)] by simp
  show ?thesis using work_bounded[OF demo_env_ok demo_owner_valid w(1,2) r(2)] w unfolding i by blast
qed

lemma setup_progress_witness:
  "\<exists>w st. setup_reachable setup_demo_env setup_demo_owner w \<and> st \<in> set (sw_history w) \<and> demo_running st \<and>
    ((\<exists>k \<in> set (tasks_of st setup_demo_run). working (tk_status k) \<and> \<not> lease_expired 6 k) \<or>
     (\<exists>k st'. leaseNextTask setup_demo_run ''worker-1'' 60000 6 st = Inr (Some k, Some st') \<and> tk_leaseOwner k = Some ''worker-1'') \<or>
     (\<exists>st'. leaseNextTask setup_demo_run ''worker-1'' 60000 6 st = Inr (None, Some st') \<and>
        (\<exists>k \<in> set (tasks_of st setup_demo_run). lease_expired 6 k)))"
proof -
  obtain w st0 where w: "setup_reachable setup_demo_env setup_demo_owner w" "\<exists>st \<in> set (sw_history w). demo_running st"
    by (rule setup_demo_world)
  then obtain st where st: "st \<in> set (sw_history w)" "demo_running st" by blast
  obtain r where r: "find_run st setup_demo_run = Some r" "rn_status r = Run_RUNNING"
      "\<forall>k \<in> set (tasks_of st setup_demo_run). tk_status k \<noteq> Task_NEEDS_ATTENTION"
    using st(2) unfolding demo_running_def by (auto simp: list_all_iff split: option.splits)
  show ?thesis
    by (intro exI[of _ w] exI[of _ st] conjI w(1) st)
       (use setup_progress[OF demo_env_ok demo_owner_valid w(1) st(1) r, of 60000 6 "''worker-1''"] in simp)
qed

lemma retry_exact_witness:
  "\<exists>w st st'. setup_reachable setup_demo_env setup_demo_owner w \<and> st \<in> set (sw_history w) \<and>
    retryFailedTasks setup_demo_run [demo_check_task] 3 6 st = Inr ((), Some st') \<and>
    ss_receipts st' = filter (\<lambda>r. \<not> must_reset (tasks_of st setup_demo_run) [demo_check_task] (rc_taskId r)) (ss_receipts st)"
proof -
  obtain w st0 where w: "setup_reachable setup_demo_env setup_demo_owner w" "\<exists>st \<in> set (sw_history w). demo_retries st"
    by (rule setup_demo_world)
  then obtain st where st: "st \<in> set (sw_history w)" "demo_retries st" by blast
  obtain st' where st': "retryFailedTasks setup_demo_run [demo_check_task] 3 6 st = Inr ((), Some st')"
    using st(2) unfolding demo_retries_def by (auto split: sum.splits option.splits)
  show ?thesis using retry_exact[OF demo_env_ok demo_owner_valid w(1) st(1) st'] w(1) st st' by blast
qed

lemma events_complete_witness:
  "\<exists>w st. setup_reachable setup_demo_env setup_demo_owner w \<and> st \<in> set (sw_history w) \<and> demo_ready st \<and>
    (case listRunEvents setup_demo_run 0 5 st of
      Inl e \<Rightarrow> e = SETUP_EVENT_CURSOR_EXPIRED
    | Inr es \<Rightarrow> \<forall>e \<in> set es. ev_runId e = setup_demo_run)"
proof -
  obtain w st where w: "setup_reachable setup_demo_env setup_demo_owner w" "st \<in> set (sw_history w)" "demo_ready st"
    by (rule setup_demo_world)
  obtain r where r: "find_run st setup_demo_run = Some r" by (rule demo_ready_run[OF w(3)])
  show ?thesis
    by (intro exI[of _ w] exI[of _ st] conjI w)
       (use events_complete[OF demo_env_ok demo_owner_valid w(1,2) r, of 0 5] in \<open>simp split: sum.splits\<close>)
qed

end
