(* ===== verification/Spec2Isabelle.thy ===== *)
theory Spec2Isabelle
  imports Key_Pools Sticky_Store Supervisor Plan_Tick Chess_End Chess_Text Tournament_View
    Setup_Props
begin

text \<open>
  SpaceApp is a control server for coding agents: it gives them accounts at model vendors (the gateway), runs
  managed plans on their terminals (plan execution), sets itself up on the first run, and lets models play each
  other (the chess benchmark).
  This library models the parts of its TypeScript that decide something, as functions and step relations on
  records with the fields of the source, and proves what makes them correct. Paths below are under \<open>src/\<close>.

  \<^bold>\<open>Conventions.\<close> A JavaScript number is a \<open>real\<close> where it is a time, a cost or a rating, an \<open>int\<close> or \<open>nat\<close> where
  it counts, and a \<open>32 word\<close> where the code uses \<open>Math.imul\<close>, \<open>^\<close> and \<open>>>>\<close>; rounding of doubles is not modelled.
  Strings are ASCII lists of characters. An optional value is an \<open>option\<close>, an exception a value of a sum or of a
  result type. What a call waits for is a parameter (the clock, random draws, ciphers, the vendor's answer) or a
  step of another party between two awaits. \<open>Prelude\<close> has these conventions and the lemmas all parts share,
  \<open>Ordered_Keys\<close> comparisons and the stable sort (locale \<open>key_order\<close>), \<open>Js_Map\<close> maps in insertion order (locale
  \<open>forgetful_cache\<close>), \<open>In_Flight\<close> counters beside sets (locale \<open>in_flight_counter\<close>), \<open>Json\<close> values.

  \<^bold>\<open>Gateway\<close> (\<open>packages/gateway/src\<close>, \<open>packages/db/src/gateway-repository.ts\<close>). A request comes with an API key,
  passes its policy and limits (\<open>Key_Policy\<close> for \<open>policy.ts\<close>, \<open>Api_Keys\<close> for the keys in the repository), and is
  sent through an account that the router chooses from the pool.
  \<^item> \<open>Balancer_State\<close>, \<open>Balancer_Select\<close>, \<open>Retry\<close>: \<open>router/balancer.ts\<close> and \<open>router/retry.ts\<close> (the filter loop, the
    strategies, \<open>selectAccount\<close>, the transitions after failures). \<open>Balancer_Props\<close>, \<open>Balancer_Strategies\<close> and
    \<open>Balancer_Health\<close> show that only serviceable accounts are chosen, that one is chosen when there is one, what
    each strategy optimises and how health tiers move.
  \<^item> \<open>Gateway_Repository\<close>, \<open>Account_Pool\<close>, \<open>Account_Pool_Props\<close>: the in-memory repository and
    \<open>accounts/account-pool.ts\<close> with its caches, blocks, in-flight counters and credential refresh, as a transition
    system; paused and free accounts are never chosen, rejected tokens sign out, and among the responses of the
    clients (\<open>pool_world\<close>, where each closes once) the counters are exact.
  \<^item> \<open>Sticky_Store\<close> (\<open>accounts/sticky-store.ts\<close>, \<open>proxy-util.ts\<close>): lookups and flushes split at their awaits, and a step
    relation in which they interleave with other calls, processes and failures of the storage. \<open>Key_Pools\<close> (\<open>providers/key-pools/key-pools.ts\<close>),
    \<open>Supervisor\<close> (\<open>supervisor.ts\<close>, one rule per listener).

  \<^bold>\<open>Managed plan execution\<close> (\<open>packages/runtime/src/plan-execution-repository.ts\<close>, \<open>apps/api/src/plan-execution-controller.ts\<close>,
  \<open>plan-execution-mutations.ts\<close>, \<open>packages/contracts/src/managed-plan-execution.ts\<close>). \<open>Plan_Execution\<close> has the records,
  patches and the repository, \<open>Plan_Mutations\<close> the operator's requests, \<open>Plan_Controller\<close> the controller as a program
  over a shared store that others change at every await. \<open>Plan_Store\<close> proves the repository's contracts (locales
  \<open>versioned_store\<close> and \<open>lease_service\<close>, interpreted on it), \<open>Plan_Progress\<close> the invariant of progress, \<open>Plan_Logic\<close> a
  logic of triples with a rely condition, \<open>Plan_Patches\<close>, \<open>Plan_Advance\<close> and \<open>Plan_Tick\<close> what an advance and any number
  of ticks keep: no turn is started twice, progress is earned, exceptions of one execution are absorbed. Reading a
  list from the repository may be rejected (\<open>ce_listFails\<close>); a claim or an update is refused only by the checks of
  the repository itself.

  \<^bold>\<open>First-run setup\<close> (\<open>packages/contracts/src/setup-catalog.ts\<close>, \<open>setup-state.ts\<close>, \<open>packages/runtime/src/setup-execution.ts\<close>,
  \<open>store.ts\<close>). An owner chooses features; a plan of actions is made from the choice, a run of the plan hands its
  tasks to workers under leases, receipts prove them done, and setup is completed against valid receipts. All of
  it is one document per owner, replaced under a compare-and-swap.
  \<^item> \<open>Setup_Catalog\<close>: the catalogue and \<open>resolveSetupSelection\<close>, proved against the least predicates \<open>usable\<close> and
    \<open>reached\<close>; removing a feature removes what needs it. \<open>Setup_State\<close>: the records and the schema.
  \<^item> \<open>Setup_Execution\<close>: every handler of \<open>SetupExecutionCoordinator\<close>, \<open>compactSetupHistory\<close> and \<open>createSetupCompletion\<close>;
    \<open>Setup_Store\<close>: \<open>mutate\<close> and the store, and the step relation of all calls, in which a call may have read any
    earlier version of the document.
  \<^item> \<open>Setup_Actions\<close> (what a plan's actions are worth), \<open>Setup_Invariant\<close> (the invariant and that it gives the schema),
    \<open>Setup_Effects\<close>, \<open>Setup_Handlers\<close>, \<open>Setup_Preserve\<close> (every handler, the compaction and the completion keep it),
    \<open>Setup_Props\<close>: limits are never reached, calls are atomic, ready means proved, completion is verified, work
    goes on, retries are exact, readers miss no event.

  \<^bold>\<open>Chess rules\<close> (\<open>apps/api/src/chess/chess-rules.ts\<close>). \<open>Chess_Board\<close>, \<open>Chess_Moves\<close>, \<open>Chess_Text\<close>: boards and FEN, attacks and
  moves, notation and the reading of a model's answer. \<open>Chess_Attack\<close>, \<open>Chess_Play\<close>, \<open>Chess_Fen\<close>, \<open>Chess_End\<close>, \<open>Chess_Perft\<close>
  show that attacks are captures, that play keeps positions proper, that FEN is read back, that every game ends
  and that \<open>perft\<close> counts every sequence of moves once.

  \<^bold>\<open>Chess tournament\<close> (\<open>apps/api/src/chess/chess-tournament.ts\<close>), on top of the rules.
  \<^item> \<open>Tournament_Schedule\<close> (\<open>roundRobinSchedule\<close>, \<open>defaultSwissRounds\<close>) and \<open>Tournament_Swiss\<close> (\<open>compareStandings\<close>,
    \<open>swissPairings\<close>): everybody meets everybody once; the search finds a pairing without rematches if there is one.
  \<^item> \<open>Provider_Slots\<close> (\<open>ProviderSlots\<close>, \<open>providerSlots\<close>, \<open>acquireSlots\<close>): the slots of providers and of the shared CLI
    group as a locale \<open>slot_service\<close>, interpreted on the code's slots; no group exceeds its limit, no deadlock.
  \<^item> \<open>Tournament_Game\<close> (\<open>playGame\<close>, \<open>chooseMove\<close>, \<open>replayGame\<close>, \<open>buildMovePrompt\<close>, the random generator) and \<open>Tournament_Play\<close>:
    a stopped game resumes where it was; a game ends by the rules, by adjudication or by a forfeit.
  \<^item> \<open>Tournament_Runner\<close> (\<open>start\<close>, \<open>resume\<close>, \<open>stop\<close>, \<open>reset\<close>, \<open>load\<close>, \<open>run\<close>, \<open>pairNextSwissRound\<close>, \<open>runPool\<close>, \<open>finishGame\<close>), a step
    relation in which the workers of a pool interleave ply by ply, calls of the routes are split at their awaits
    and the process may restart from its state file at any time. Calls that pass their guard beside each other may
    start several runs on one tournament; \<open>rn_overlapped\<close> records that, and what such runs do to results is then left
    open (\<open>derived\<close>), so the properties of results and tables are about states before that. \<open>Tournament_Standings\<close> has the abstract specification of a table (\<open>earned\<close>, what a game is worth to a
    player in a column), \<open>Tournament_Props\<close> the refinement and the invariants over all reachable states;
    \<open>Tournament_View\<close> (\<open>pickGameIndex\<close>, \<open>gameLoad\<close>, \<open>snapshot\<close>) what a worker takes next and what the page shows.

  \<^bold>\<open>Bounds and fuel.\<close> Loops are structural or have a measure. The Swiss search counts down the code's own budget
  of 50,000 steps; the tries of \<open>chooseMove\<close> are the code's three; a game is bounded by \<open>maxPlies\<close>; the controller's
  ticks are counted by a natural number over which the properties quantify. \<open>mutate\<close> counts down the code's eight
  attempts; the walk over the catalogue recurses while fewer entries are left unvisited, the closure of a retry
  while fewer tasks are left to add.

  \<^bold>\<open>Not modelled.\<close> Pure input and output: HTTP and WebSocket servers, vendor wire formats, SQL, git, processes,
  files and logs. zod schemas (the shapes used are records). In the tournament, a failure that is no abort inside
  a worker (\<open>run\<close>'s \<open>catch\<close>), which needs a corrupt state file or overlapping runs, and the players' catalogue and command lines. In
  the plans, the reading of stages from a plan's text (\<open>preparePlanStages\<close>), whose regular expressions are over
  Unicode letters. In the setup, the worker loop around external adapters (\<open>setup-action-runner.ts\<close>), the routes, and
  the texts, audiences and bindings of a feature, which no modelled function reads. The vault, council, copilots, studios, memory graph, web and worker applications are glue around
  external services and user interfaces.
\<close>

end
